(* ===== verification/Prelude.thy ===== *)
theory Prelude
  imports Main "HOL-Library.Word" "HOL-Library.Monad_Syntax"
begin

text \<open>
  What every component shares: the machine types of the C code, reads and writes of big-endian
  integers in a byte buffer, and the interface of an incremental frame reader.

  A buffer is a list of bytes.  A read outside the buffer, which is undefined behaviour in C, is
  \<open>None\<close> here, so a decoder of the model has two layers of option: the outer \<open>None\<close> is an
  out-of-bounds access, the inner \<open>None\<close> is the decoder's own \<open>FALSE\<close>.  That the outer
  \<open>None\<close> never happens is proved for each decoder.

  Lemmas about buffer reads are collected in \<open>codec\<close>, so that a round trip is one
  simplifier call.
\<close>

unbundle bit_operations_syntax

type_synonym byte = "8 word"
type_synonym u16 = "16 word"
type_synonym u32 = "32 word"
type_synonym u64 = "64 word"
type_synonym bytes = "byte list"

named_theorems codec
named_theorems okay_rules
named_theorems ext_rules

lemma unat_of_nat_small: "n < 2 ^ LENGTH('a::len) \<Longrightarrow> unat (of_nat n :: 'a word) = n"
  by (simp add: unat_of_nat)

section \<open>Big-endian integers in buffers\<close>

text \<open>The helpers every codec file repeats (\<open>put_u16\<close>, \<open>get_u32\<close>, ...).\<close>

definition put_u16 :: "u16 \<Rightarrow> bytes" where
  "put_u16 v = [ucast (drop_bit 8 v), ucast (v AND 0xff)]"

definition put_u32 :: "u32 \<Rightarrow> bytes" where
  "put_u32 v = [ucast (drop_bit 24 v), ucast (drop_bit 16 v), ucast (drop_bit 8 v),
                ucast (v AND 0xff)]"

definition put_u64 :: "u64 \<Rightarrow> bytes" where
  "put_u64 v = put_u32 (ucast (drop_bit 32 v)) @ put_u32 (ucast (v AND 0xffffffff))"

definition get_u16 :: "bytes \<Rightarrow> nat \<Rightarrow> u16 option" where
  "get_u16 bs k =
     (if k + 2 \<le> length bs then Some (push_bit 8 (ucast (bs ! k)) OR ucast (bs ! (k + 1)))
      else None)"

definition get_u32 :: "bytes \<Rightarrow> nat \<Rightarrow> u32 option" where
  "get_u32 bs k = do {
     h \<leftarrow> get_u16 bs k;
     l \<leftarrow> get_u16 bs (k + 2);
     Some (push_bit 16 (ucast h) OR ucast l) }"

definition get_u64 :: "bytes \<Rightarrow> nat \<Rightarrow> u64 option" where
  "get_u64 bs k = do {
     h \<leftarrow> get_u32 bs k;
     l \<leftarrow> get_u32 bs (k + 4);
     Some (push_bit 32 (ucast h) OR ucast l) }"

definition get_u8 :: "bytes \<Rightarrow> nat \<Rightarrow> byte option" where
  "get_u8 bs k = (if k < length bs then Some (bs ! k) else None)"

text \<open>\<open>memcpy\<close> of \<open>n\<close> bytes out of a buffer.\<close>

definition get_bytes :: "bytes \<Rightarrow> nat \<Rightarrow> nat \<Rightarrow> bytes option" where
  "get_bytes bs k n = (if k + n \<le> length bs then Some (take n (drop k bs)) else None)"

lemma length_put [simp]:
  "length (put_u16 v) = 2" "length (put_u32 w) = 4" "length (put_u64 x) = 8"
  by (simp_all add: put_u16_def put_u32_def put_u64_def)

lemma put_not_Nil [simp]: "put_u16 v \<noteq> []" "put_u32 w \<noteq> []" "put_u64 x \<noteq> []"
  by (simp_all add: put_u16_def put_u32_def put_u64_def)

lemma unat_ucast_up:
  assumes "LENGTH('a::len) \<le> LENGTH('b::len)"
  shows "unat (ucast (x :: 'a word) :: 'b word) = unat x"
proof -
  have "unat x < 2 ^ LENGTH('a)" by (rule unsigned_less)
  also have "\<dots> \<le> 2 ^ LENGTH('b)" using assms by (intro power_increasing) auto
  finally show ?thesis by (simp add: unsigned_ucast_eq take_bit_nat_eq_self)
qed

lemma xor_zero_iff: "a XOR b = 0 \<longleftrightarrow> a = (b :: 'a::len word)"
  by (auto simp: bit_eq_iff bit_simps)

lemma sint_of_int_small:
  "- (2 ^ (LENGTH('a) - 1)) \<le> k \<Longrightarrow> k < 2 ^ (LENGTH('a) - 1) \<Longrightarrow>
   sint (of_int k :: 'a::len word) = k"
  by (simp add: signed_of_int signed_take_bit_int_eq_self)

lemma mask_literals:
  "(0xff :: u16) = mask 8" "(0xff :: u32) = mask 8" "(0xffffffff :: u64) = mask 32"
  by (simp_all add: mask_eq_exp_minus_1)

lemma join16:
  "push_bit 8 (ucast (ucast (drop_bit 8 v) :: byte)) OR ucast (ucast (v AND 0xff) :: byte) = (v :: u16)"
  unfolding mask_literals
  by (rule bit_word_eqI) (auto simp: bit_simps not_less)

lemma join32_halves:
  "push_bit 16 (ucast (ucast (drop_bit 16 v) :: u16)) OR ucast (ucast v :: u16) = (v :: u32)"
  by (rule bit_word_eqI) (auto simp: bit_simps not_less)

lemma join32_high:
  "push_bit 8 (ucast (ucast (drop_bit 24 v) :: byte)) OR ucast (ucast (drop_bit 16 v) :: byte)
   = (ucast (drop_bit 16 (v :: u32)) :: u16)"
  by (rule bit_word_eqI) (auto simp: bit_simps not_less)

lemma join32_low:
  "push_bit 8 (ucast (ucast (drop_bit 8 v) :: byte)) OR ucast (ucast (v AND 0xff) :: byte)
   = (ucast (v :: u32) :: u16)"
  unfolding mask_literals
  by (rule bit_word_eqI) (auto simp: bit_simps not_less)

lemma join64:
  "push_bit 32 (ucast (ucast (drop_bit 32 v) :: u32)) OR ucast (ucast (v AND 0xffffffff) :: u32)
   = (v :: u64)"
  unfolding mask_literals
  by (rule bit_word_eqI) (auto simp: bit_simps not_less)

lemma get_u16_put [codec]: "get_u16 (put_u16 v @ r) 0 = Some v"
  by (simp add: get_u16_def put_u16_def join16)

lemma get_u16_skip [codec]: "length xs \<le> k \<Longrightarrow> get_u16 (xs @ r) k = get_u16 r (k - length xs)"
  by (auto simp: get_u16_def nth_append Suc_diff_le)

lemma get_u32_skip [codec]: "length xs \<le> k \<Longrightarrow> get_u32 (xs @ r) k = get_u32 r (k - length xs)"
  by (simp add: get_u32_def get_u16_skip Suc_diff_le)

lemma get_u64_skip [codec]: "length xs \<le> k \<Longrightarrow> get_u64 (xs @ r) k = get_u64 r (k - length xs)"
proof -
  assume k: "length xs \<le> k"
  then have "k + 4 - length xs = k - length xs + 4" by arith
  with k show ?thesis by (simp add: get_u64_def get_u32_skip)
qed

lemma get_u8_skip [codec]: "length xs \<le> k \<Longrightarrow> get_u8 (xs @ r) k = get_u8 r (k - length xs)"
  by (auto simp: get_u8_def nth_append)

lemma get_bytes_skip [codec]:
  "length xs \<le> k \<Longrightarrow> get_bytes (xs @ r) k n = get_bytes r (k - length xs) n"
  by (auto simp: get_bytes_def)

lemma get_u32_put [codec]: "get_u32 (put_u32 v @ r) 0 = Some v"
  by (simp add: get_u32_def get_u16_def put_u32_def join32_high join32_low join32_halves)

lemma get_u64_put [codec]: "get_u64 (put_u64 v @ r) 0 = Some v"
  by (simp add: get_u64_def put_u64_def get_u32_put get_u32_skip join64)

lemmas get_put_Nil [codec] =
  get_u16_put [where r = "[]", simplified] get_u32_put [where r = "[]", simplified]
  get_u64_put [where r = "[]", simplified]

lemma get_u8_Cons [codec]: "get_u8 (b # r) 0 = Some b"
  "0 < k \<Longrightarrow> get_u8 (b # r) k = get_u8 r (k - 1)"
  by (auto simp: get_u8_def nth_Cons')

lemma get_Cons_skip [codec]:
  "0 < k \<Longrightarrow> get_u16 (b # r) k = get_u16 r (k - 1)"
  "0 < k \<Longrightarrow> get_u32 (b # r) k = get_u32 r (k - 1)"
  "0 < k \<Longrightarrow> get_u64 (b # r) k = get_u64 r (k - 1)"
  "0 < k \<Longrightarrow> get_bytes (b # r) k n = get_bytes r (k - 1) n"
  using get_u16_skip [of "[b]" k r] get_u32_skip [of "[b]" k r] get_u64_skip [of "[b]" k r]
    get_bytes_skip [of "[b]" k r n] by simp_all

lemma get_bytes_take [codec]: "length xs = n \<Longrightarrow> get_bytes (xs @ r) 0 n = Some xs"
  by (simp add: get_bytes_def)

lemma get_bytes_all [codec]: "length xs = n \<Longrightarrow> get_bytes xs 0 n = Some xs"
  by (simp add: get_bytes_def)

lemma get_bytes_0 [codec]: "k \<le> length xs \<Longrightarrow> get_bytes xs k 0 = Some []"
  by (simp add: get_bytes_def)

lemma get_bytes_length: "get_bytes bs k n = Some x \<Longrightarrow> length x = n"
  by (auto simp: get_bytes_def split: if_splits)

text \<open>A read succeeds exactly inside the buffer.\<close>

lemma get_in_bounds [simp]:
  "get_u8 bs k = None \<longleftrightarrow> length bs < k + 1"
  "get_u16 bs k = None \<longleftrightarrow> length bs < k + 2"
  "get_u32 bs k = None \<longleftrightarrow> length bs < k + 4"
  "get_u64 bs k = None \<longleftrightarrow> length bs < k + 8"
  "get_bytes bs k n = None \<longleftrightarrow> length bs < k + n"
  by (auto simp: get_u8_def get_u16_def get_u32_def get_u64_def get_bytes_def bind_eq_None_conv
      split: if_splits Option.bind_splits)

lemma get_in_boundsE:
  "k + 1 \<le> length bs \<Longrightarrow> \<exists>v. get_u8 bs k = Some v"
  "k + 2 \<le> length bs \<Longrightarrow> \<exists>v. get_u16 bs k = Some v"
  "k + 4 \<le> length bs \<Longrightarrow> \<exists>v. get_u32 bs k = Some v"
  "k + 8 \<le> length bs \<Longrightarrow> \<exists>v. get_u64 bs k = Some v"
  "k + n \<le> length bs \<Longrightarrow> \<exists>v. get_bytes bs k n = Some v"
  by (metis get_in_bounds(1) not_less option.exhaust, metis get_in_bounds(2) not_less option.exhaust,
      metis get_in_bounds(3) not_less option.exhaust, metis get_in_bounds(4) not_less option.exhaust,
      metis get_in_bounds(5) not_less option.exhaust)

text \<open>A read inside a buffer does not see what is appended to it.\<close>

lemma get_u8_append: "k + 1 \<le> length bs \<Longrightarrow> get_u8 (bs @ r) k = get_u8 bs k"
  by (simp add: get_u8_def nth_append)

lemma get_u16_append: "k + 2 \<le> length bs \<Longrightarrow> get_u16 (bs @ r) k = get_u16 bs k"
  by (simp add: get_u16_def nth_append)

lemma get_u32_append: "k + 4 \<le> length bs \<Longrightarrow> get_u32 (bs @ r) k = get_u32 bs k"
  by (simp add: get_u32_def get_u16_append)

lemma get_u64_append: "k + 8 \<le> length bs \<Longrightarrow> get_u64 (bs @ r) k = get_u64 bs k"
  by (simp add: get_u64_def get_u32_append)

lemma get_bytes_append: "k + n \<le> length bs \<Longrightarrow> get_bytes (bs @ r) k n = get_bytes bs k n"
  by (simp add: get_bytes_def)

lemmas get_append = get_u8_append get_u16_append get_u32_append get_u64_append get_bytes_append

lemma get_take:
  "k + 1 \<le> n \<Longrightarrow> n \<le> length bs \<Longrightarrow> get_u8 (take n bs @ r) k = get_u8 bs k"
  "k + 2 \<le> n \<Longrightarrow> n \<le> length bs \<Longrightarrow> get_u16 (take n bs @ r) k = get_u16 bs k"
  "k + 4 \<le> n \<Longrightarrow> n \<le> length bs \<Longrightarrow> get_u32 (take n bs @ r) k = get_u32 bs k"
  "k + 8 \<le> n \<Longrightarrow> n \<le> length bs \<Longrightarrow> get_u64 (take n bs @ r) k = get_u64 bs k"
  "k + m \<le> n \<Longrightarrow> n \<le> length bs \<Longrightarrow> get_bytes (take n bs @ r) k m = get_bytes bs k m"
  by (simp_all add: get_u8_def get_u64_def get_u32_def get_u16_def nth_append)
    (auto simp: get_bytes_def drop_take min_def)

section \<open>Computations that must not fail\<close>

text \<open>
  \<open>okay m P\<close>: the computation does not access memory out of bounds, and its value satisfies
  \<open>P\<close>.  The rules in \<open>okay_rules\<close> push it through a decoder as a weakest precondition.
\<close>

definition okay :: "'a option \<Rightarrow> ('a \<Rightarrow> bool) \<Rightarrow> bool" where
  "okay m P = (case m of None \<Rightarrow> False | Some v \<Rightarrow> P v)"

lemma okay_bind [okay_rules]: "okay (m \<bind> f) P = okay m (\<lambda>v. okay (f v) P)"
  by (cases m) (simp_all add: okay_def)

lemma okay_simps [okay_rules]:
  "okay (Some v) P = P v"
  "okay None P = False"
  "okay (if c then m else m') P = (if c then okay m P else okay m' P)"
  by (simp_all add: okay_def)

lemma okay_Let [okay_rules]: "okay (let x = e in h x) P = okay (h e) P"
  by (simp add: okay_def)

lemma okay_prod [okay_rules]:
  "okay (case p of (a, b) \<Rightarrow> k a b) P = (case p of (a, b) \<Rightarrow> okay (k a b) P)"
  by (simp add: okay_def split: prod.splits)

lemma okay_case_option [okay_rules]:
  "okay (case x of None \<Rightarrow> a | Some y \<Rightarrow> f y) P = (case x of None \<Rightarrow> okay a P | Some y \<Rightarrow> okay (f y) P)"
  by (simp split: option.splits)

lemma okay_mono: "okay m P \<Longrightarrow> (\<And>v. m = Some v \<Longrightarrow> P v \<Longrightarrow> Q v) \<Longrightarrow> okay m Q"
  by (auto simp: okay_def split: option.splits)

lemma okay_guard: "(m = None \<longleftrightarrow> \<not> c) \<Longrightarrow> okay m P \<longleftrightarrow> c \<and> (\<forall>v. m = Some v \<longrightarrow> P v)"
  by (cases m) (auto simp: okay_def)

lemma okay_get [okay_rules]:
  "okay (get_u8 bs k) P \<longleftrightarrow> k + 1 \<le> length bs \<and> (\<forall>v. get_u8 bs k = Some v \<longrightarrow> P v)"
  "okay (get_u16 bs k) P' \<longleftrightarrow> k + 2 \<le> length bs \<and> (\<forall>v. get_u16 bs k = Some v \<longrightarrow> P' v)"
  "okay (get_u32 bs k) P'' \<longleftrightarrow> k + 4 \<le> length bs \<and> (\<forall>v. get_u32 bs k = Some v \<longrightarrow> P'' v)"
  "okay (get_u64 bs k) Q \<longleftrightarrow> k + 8 \<le> length bs \<and> (\<forall>v. get_u64 bs k = Some v \<longrightarrow> Q v)"
  "okay (get_bytes bs k n) R \<longleftrightarrow> k + n \<le> length bs \<and>
     (\<forall>v. get_bytes bs k n = Some v \<longrightarrow> length v = n \<longrightarrow> R v)"
  by (rule okay_guard; simp add: not_le)+ (use okay_guard [of "get_bytes bs k n" "k + n \<le> length bs" R] in
    \<open>auto simp: not_le dest: get_bytes_length\<close>)

lemma okayD: "okay m P \<Longrightarrow> \<exists>v. m = Some v \<and> P v"
  by (auto simp: okay_def split: option.splits)

lemma okayE: "okay m P \<Longrightarrow> m = Some v \<Longrightarrow> P v"
  by (simp add: okay_def)

lemma okayI: "m = Some v \<Longrightarrow> P v \<Longrightarrow> okay m P"
  by (simp add: okay_def)

section \<open>Computations on a longer buffer\<close>

text \<open>\<open>ext m m'\<close>: where \<open>m\<close> has a result, \<open>m'\<close> has the same.  A decoder that is given a longer buffer
  does what it did, because all its reads were inside the shorter one.\<close>

definition ext :: "'a option \<Rightarrow> 'a option \<Rightarrow> bool" where
  "ext m m' \<longleftrightarrow> (\<forall>v. m = Some v \<longrightarrow> m' = Some v)"

lemma ext_bind [ext_rules]: "ext m m' \<Longrightarrow> (\<And>v. ext (k v) (k' v)) \<Longrightarrow> ext (m \<bind> k) (m' \<bind> k')"
  by (auto simp: ext_def bind_eq_Some_conv)

lemma ext_if [ext_rules]: "ext m m' \<Longrightarrow> ext k k' \<Longrightarrow> ext (if c then m else k) (if c then m' else k')"
  by simp

lemma ext_case_option [ext_rules]:
  "ext m m' \<Longrightarrow> (\<And>v. ext (k v) (k' v)) \<Longrightarrow>
   ext (case x of None \<Rightarrow> m | Some v \<Rightarrow> k v) (case x of None \<Rightarrow> m' | Some v \<Rightarrow> k' v)"
  by (simp split: option.splits)

lemma ext_get [ext_rules]:
  "ext (get_u8 bs k) (get_u8 (bs @ r) k)" "ext (get_u16 bs k) (get_u16 (bs @ r) k)"
  "ext (get_u32 bs k) (get_u32 (bs @ r) k)" "ext (get_u64 bs k) (get_u64 (bs @ r) k)"
  "ext (get_bytes bs k n) (get_bytes (bs @ r) k n)"
  unfolding ext_def
  by (metis get_u8_append get_in_bounds(1) not_less option.distinct(1))
    (metis get_u16_append get_in_bounds(2) not_less option.distinct(1),
     metis get_u32_append get_in_bounds(3) not_less option.distinct(1),
     metis get_u64_append get_in_bounds(4) not_less option.distinct(1),
     metis get_bytes_append get_in_bounds(5) not_less option.distinct(1))

lemma ext_refl [ext_rules]: "ext m m"
  by (simp add: ext_def)

lemma extD: "ext m m' \<Longrightarrow> m = Some v \<Longrightarrow> m' = Some v"
  by (simp add: ext_def)

section \<open>Incremental framing\<close>

text \<open>
  Every stream protocol of the program reads frames the same way: bytes are appended to a buffer,
  a parser looks at the buffer and says that it needs more, that the first \<open>n\<close> bytes are a frame,
  or that the stream is corrupt; complete frames are cut off the front.
\<close>

datatype verdict = NeedMore | Frame nat | Corrupt

text \<open>The complete frames at the front of a buffer, what is left, and whether it is corrupt.\<close>

function cut_frames :: "(bytes \<Rightarrow> verdict) \<Rightarrow> bytes \<Rightarrow> bytes list \<times> bytes \<times> bool" where
  "cut_frames step buf =
     (case step buf of
        NeedMore \<Rightarrow> ([], buf, False)
      | Corrupt \<Rightarrow> ([], buf, True)
      | Frame n \<Rightarrow>
          if 0 < n \<and> n \<le> length buf then
            (case cut_frames step (drop n buf) of (fs, rest, bad) \<Rightarrow> (take n buf # fs, rest, bad))
          else ([], buf, True))"
  by pat_completeness auto
termination by (relation "measure (\<lambda>(_, buf). length buf)") auto

declare cut_frames.simps [simp del]

locale framer =
  fixes step :: "bytes \<Rightarrow> verdict"
  assumes frame_pos: "step b = Frame n \<Longrightarrow> 0 < n \<and> n \<le> length b"
    and frame_ext: "step b = Frame n \<Longrightarrow> step (b @ r) = Frame n"
    and corrupt_ext: "step b = Corrupt \<Longrightarrow> step (b @ r) = Corrupt"
begin

lemma cut_need: "step b = NeedMore \<Longrightarrow> cut_frames step b = ([], b, False)"
  by (simp add: cut_frames.simps)

lemma cut_corrupt: "step b = Corrupt \<Longrightarrow> cut_frames step b = ([], b, True)"
  by (simp add: cut_frames.simps)

lemma cut_frame:
  "step b = Frame n \<Longrightarrow> cut_frames step b =
     (case cut_frames step (drop n b) of (fs, rest, bad) \<Rightarrow> (take n b # fs, rest, bad))"
  using frame_pos by (subst cut_frames.simps) simp

text \<open>
  Cutting as the bytes arrive finds the frames that cutting all of them at once finds: a reader
  that keeps the rest and appends the next chunk to it loses and invents nothing.
\<close>

lemma cut_append:
  "cut_frames step (b @ r) =
     (case cut_frames step b of (fs, rest, bad) \<Rightarrow>
        if bad then (fs, rest @ r, True)
        else case cut_frames step (rest @ r) of (gs, rest', bad') \<Rightarrow> (fs @ gs, rest', bad'))"
proof (induction "length b" arbitrary: b rule: less_induct)
  case less
  show ?case
  proof (cases "step b")
    case NeedMore
    then show ?thesis by (simp add: cut_need split: prod.splits)
  next
    case Corrupt
    then show ?thesis using corrupt_ext by (simp add: cut_corrupt)
  next
    case (Frame n)
    then have n: "0 < n" "n \<le> length b" using frame_pos by blast+
    then have IH: "cut_frames step (drop n b @ r) =
       (case cut_frames step (drop n b) of (fs, rest, bad) \<Rightarrow>
        if bad then (fs, rest @ r, True)
        else case cut_frames step (rest @ r) of (gs, rest', bad') \<Rightarrow> (fs @ gs, rest', bad'))"
      by (intro less) simp
    show ?thesis
      using n by (simp add: cut_frame [OF frame_ext, OF Frame] cut_frame [OF Frame] IH
          split: prod.splits)
  qed
qed

lemma cut_rest_no_frame: "cut_frames step b = (fs, rest, False) \<Longrightarrow> step rest = NeedMore"
proof (induction "length b" arbitrary: b fs rule: less_induct)
  case less
  show ?case
  proof (cases "step b")
    case (Frame n)
    then have n: "0 < n" "n \<le> length b" using frame_pos by blast+
    obtain gs where "cut_frames step (drop n b) = (gs, rest, False)"
      using less.prems by (auto simp: cut_frame [OF Frame] split: prod.splits)
    then show ?thesis using less.hyps [of "drop n b" gs] n by simp
  qed (use less.prems in \<open>auto simp: cut_need cut_corrupt\<close>)
qed

lemma cut_concat: "cut_frames step b = (fs, rest, bad) \<Longrightarrow> concat fs @ rest = b"
proof (induction "length b" arbitrary: b fs rest bad rule: less_induct)
  case less
  show ?case
  proof (cases "step b")
    case (Frame n)
    then have n: "0 < n" "n \<le> length b" using frame_pos by blast+
    obtain gs s d where c: "cut_frames step (drop n b) = (gs, s, d)" by (metis prod_cases3)
    have "concat gs @ s = drop n b" using less.hyps [OF _ c] n by simp
    then show ?thesis using less.prems c by (auto simp: cut_frame [OF Frame])
  qed (use less.prems in \<open>auto simp: cut_need cut_corrupt\<close>)
qed

text \<open>A stream of whole frames is cut into exactly them.\<close>

lemma cut_whole:
  assumes "\<And>f. f \<in> set fs \<Longrightarrow> step f = Frame (length f)"
  shows "cut_frames step (concat fs @ r) =
     (case cut_frames step r of (gs, rest, bad) \<Rightarrow> (fs @ gs, rest, bad))"
  using assms
proof (induction fs)
  case Nil
  then show ?case by (simp split: prod.splits)
next
  case (Cons f fs)
  have "step (f @ concat fs @ r) = Frame (length f)"
    using frame_ext Cons.prems by simp
  then show ?case using Cons by (simp add: cut_frame split: prod.splits)
qed

end


section \<open>Datagram codecs\<close>

text \<open>
  What the users of an encoder and decoder pair rely on: decoding what was encoded gives it back,
  and decoding anything stays inside it.
\<close>

locale datagram_codec =
  fixes enc :: "'a \<Rightarrow> bytes option" and dec :: "bytes \<Rightarrow> 'a option option" and valid :: "'a \<Rightarrow> bool"
  assumes dec_enc: "valid x \<Longrightarrow> enc x = Some w \<Longrightarrow> dec w = Some (Some x)"
    and dec_safe: "dec w \<noteq> None"
begin

text \<open>A datagram has one reading, and no two messages share one.\<close>

lemma enc_inject: "valid x \<Longrightarrow> valid y \<Longrightarrow> enc x = Some w \<Longrightarrow> enc y = Some w \<Longrightarrow> x = y"
  using dec_enc [of x w] dec_enc [of y w] by simp

lemma dec_unique: "valid x \<Longrightarrow> enc x = Some w \<Longrightarrow> dec w = Some r \<Longrightarrow> r = Some x"
  using dec_enc [of x w] by simp

lemma dec_okay: "okay (dec w) (\<lambda>_. True)"
  using dec_safe [of w] by (auto simp: okay_def)

end

end
