(* ===== verification/SoftbusFrame.thy ===== *)
theory SoftbusFrame
  imports Prelude
begin

text \<open>
  The dsoftbus TLV frame codec, \<open>src/proto/softbus_frame.c\<close> and the constants of
  \<open>src/proto/softbus_defs.h\<close>: packing and unpacking of one frame, and the stream buffer that
  cuts frames out of the bytes of a TCP connection.

  \<open>sb_frame\<close> is \<open>SoftbusFrame\<close>; its \<open>payload\<close> pointer is a \<open>bytes option\<close> (\<open>None\<close> is
  \<open>NULL\<close>) beside the length field, because the code trusts the two separately.  \<open>sb_unpack\<close>
  takes and returns the caller's frame, because the code writes to it before its last check.
\<close>

section \<open>Constants and data\<close>

definition SOFTBUS_FRAME_MAGIC_0 :: byte where "SOFTBUS_FRAME_MAGIC_0 = 0x53"
definition SOFTBUS_FRAME_MAGIC_1 :: byte where "SOFTBUS_FRAME_MAGIC_1 = 0x42"
definition SOFTBUS_FRAME_VERSION :: byte where "SOFTBUS_FRAME_VERSION = 1"
definition SOFTBUS_FRAME_HEADER_SIZE :: nat where "SOFTBUS_FRAME_HEADER_SIZE = 8"
definition SOFTBUS_FRAME_SESSION_ID_SIZE :: nat where "SOFTBUS_FRAME_SESSION_ID_SIZE = 8"
definition SOFTBUS_FRAME_MIN_SIZE :: nat where
  "SOFTBUS_FRAME_MIN_SIZE =
     SOFTBUS_FRAME_HEADER_SIZE + (SOFTBUS_FRAME_SESSION_ID_SIZE + 4 + 1 + 1 + 2)"
definition SOFTBUS_FRAME_MAX_PAYLOAD :: nat where "SOFTBUS_FRAME_MAX_PAYLOAD = 65507"

lemmas sb_consts = SOFTBUS_FRAME_MAGIC_0_def SOFTBUS_FRAME_MAGIC_1_def SOFTBUS_FRAME_VERSION_def
  SOFTBUS_FRAME_HEADER_SIZE_def SOFTBUS_FRAME_SESSION_ID_SIZE_def SOFTBUS_FRAME_MIN_SIZE_def
  SOFTBUS_FRAME_MAX_PAYLOAD_def

record sb_frame =
  sf_flags :: byte
  sf_session_id :: bytes
  sf_seq :: u32
  sf_type :: byte
  sf_pkt_flags :: byte
  sf_ext_len :: u16
  sf_payload :: "bytes option"
  sf_payload_len :: nat

text \<open>\<open>memset(frame, 0, sizeof *frame)\<close>\<close>

definition sb_zero :: sb_frame where
  "sb_zero = \<lparr>sf_flags = 0, sf_session_id = replicate 8 0, sf_seq = 0, sf_type = 0,
     sf_pkt_flags = 0, sf_ext_len = 0, sf_payload = None, sf_payload_len = 0\<rparr>"

text \<open>A frame as the callers build it: the pointer and the length agree.\<close>

definition sb_frame_wf :: "sb_frame \<Rightarrow> bool" where
  "sb_frame_wf f \<longleftrightarrow> length (sf_session_id f) = 8 \<and>
     (case sf_payload f of Some p \<Rightarrow> sf_payload_len f = length p | None \<Rightarrow> sf_payload_len f = 0)"

definition sb_body :: "sb_frame \<Rightarrow> bytes" where
  "sb_body f = (case sf_payload f of Some p \<Rightarrow> p | None \<Rightarrow> [])"

section \<open>Pack\<close>

text \<open>The inner \<open>None\<close> is the return value 0; otherwise the bytes written, whose number is the
  return value.  The outer \<open>None\<close> is a \<open>memcpy\<close> past the end of the payload.\<close>

definition softbus_frame_pack :: "sb_frame \<Rightarrow> nat \<Rightarrow> bytes option option" where
  "softbus_frame_pack f out_cap =
     (if sf_payload_len f > SOFTBUS_FRAME_MAX_PAYLOAD then Some None
      else let total = SOFTBUS_FRAME_MIN_SIZE + sf_payload_len f + unat (sf_ext_len f) in
        if out_cap < total then Some None
        else do {
          sid \<leftarrow> get_bytes (sf_session_id f) 0 SOFTBUS_FRAME_SESSION_ID_SIZE;
          body \<leftarrow> (if sf_payload_len f > 0 then
                      (case sf_payload f of
                         Some p \<Rightarrow> get_bytes p 0 (sf_payload_len f)
                       | None \<Rightarrow> Some [])
                    else Some []);
          Some (Some
            ([SOFTBUS_FRAME_MAGIC_0, SOFTBUS_FRAME_MAGIC_1, SOFTBUS_FRAME_VERSION, sf_flags f]
             @ put_u32 (of_nat total) @ sid @ put_u32 (sf_seq f)
             @ [sf_type f, sf_pkt_flags f] @ put_u16 (sf_ext_len f)
             @ body @ replicate (unat (sf_ext_len f)) 0)) })"

section \<open>Unpack\<close>

text \<open>The value is the return code and the caller's frame afterwards.\<close>

definition softbus_frame_unpack :: "bytes \<Rightarrow> sb_frame \<Rightarrow> (int \<times> sb_frame) option" where
  "softbus_frame_unpack inp frame =
     (if length inp < SOFTBUS_FRAME_HEADER_SIZE then Some (-2, frame)
      else do {
        b0 \<leftarrow> get_u8 inp 0;
        b1 \<leftarrow> get_u8 inp 1;
        if b0 \<noteq> SOFTBUS_FRAME_MAGIC_0 \<or> b1 \<noteq> SOFTBUS_FRAME_MAGIC_1 then Some (-1, frame)
        else do {
          b2 \<leftarrow> get_u8 inp 2;
          if b2 \<noteq> SOFTBUS_FRAME_VERSION then Some (-1, frame)
          else do {
            total \<leftarrow> get_u32 inp 4;
            if unat total < SOFTBUS_FRAME_MIN_SIZE
               \<or> unat total > SOFTBUS_FRAME_MAX_PAYLOAD + SOFTBUS_FRAME_MIN_SIZE then Some (-1, frame)
            else if length inp < unat total then Some (-2, frame)
            else do {
              fl \<leftarrow> get_u8 inp 3;
              sid \<leftarrow> get_bytes inp 8 SOFTBUS_FRAME_SESSION_ID_SIZE;
              sq \<leftarrow> get_u32 inp 16;
              ty \<leftarrow> get_u8 inp 20;
              pf \<leftarrow> get_u8 inp 21;
              ext \<leftarrow> get_u16 inp 22;
              let frame' = sb_zero\<lparr>sf_flags := fl, sf_session_id := sid, sf_seq := sq,
                  sf_type := ty, sf_pkt_flags := pf, sf_ext_len := ext\<rparr>;
              if ext > ucast (total - of_nat SOFTBUS_FRAME_MIN_SIZE) then Some (-1, frame')
              else do {
                let payload_len = unat total - SOFTBUS_FRAME_MIN_SIZE - unat ext;
                p \<leftarrow> get_bytes inp 24 payload_len;
                Some (int (unat total),
                  frame'\<lparr>sf_payload := Some p, sf_payload_len := payload_len\<rparr>) } } } } })"

section \<open>Stream buffer\<close>

text \<open>The buffer is the contents of its \<open>GByteArray\<close>.  \<open>softbus_frame_buf_append\<close> appends.\<close>

definition softbus_frame_buf_append :: "bytes \<Rightarrow> bytes \<Rightarrow> bytes" where
  "softbus_frame_buf_append buf data = (if length data > 0 then buf @ data else buf)"

definition softbus_frame_buf_pending :: "bytes \<Rightarrow> nat" where
  "softbus_frame_buf_pending buf = length buf"

definition softbus_frame_buf_reset :: "bytes \<Rightarrow> bytes" where
  "softbus_frame_buf_reset buf = []"

text \<open>\<open>TRUE\<close>, \<open>FALSE\<close> with no error, \<open>FALSE\<close> with an error set.\<close>

datatype sb_pop = PopFrame | PopMore | PopError

definition softbus_frame_buf_pop :: "bytes \<Rightarrow> sb_frame \<Rightarrow> (sb_pop \<times> bytes \<times> sb_frame) option" where
  "softbus_frame_buf_pop buf frame =
     (if length buf > 0 then do {
        (n, f) \<leftarrow> softbus_frame_unpack buf frame;
        Some (if n > 0 then
                (PopFrame, drop (nat n) buf,
                 if sf_payload f \<noteq> None \<and> sf_payload_len f > 0 then f
                 else f\<lparr>sf_payload := None\<rparr>)
              else if n = -1 then (PopError, [], f)
              else (PopMore, buf, f)) }
      else Some (PopMore, buf, frame))"

section \<open>Lemmas\<close>

lemma sb_body_room:
  assumes "SOFTBUS_FRAME_MIN_SIZE \<le> unat t" "unat t \<le> SOFTBUS_FRAME_MAX_PAYLOAD + SOFTBUS_FRAME_MIN_SIZE"
  shows "unat (ucast ((t :: u32) - of_nat SOFTBUS_FRAME_MIN_SIZE) :: u16)
         = unat t - SOFTBUS_FRAME_MIN_SIZE"
proof -
  have "of_nat SOFTBUS_FRAME_MIN_SIZE \<le> t"
    using assms(1) by (simp add: word_le_nat_alt sb_consts)
  then have "unat (t - of_nat SOFTBUS_FRAME_MIN_SIZE) = unat t - SOFTBUS_FRAME_MIN_SIZE"
    by (simp add: unat_sub sb_consts)
  then show ?thesis
    using assms(2) by (simp add: unsigned_ucast_eq take_bit_nat_eq_self sb_consts)
qed

text \<open>Unpacking reads only what it was given; what a positive return code says.\<close>

lemma unpack_okay:
  "okay (softbus_frame_unpack inp f) (\<lambda>(n, g). n = -1 \<or> n = -2 \<or>
     SOFTBUS_FRAME_MIN_SIZE \<le> nat n \<and> nat n \<le> length inp \<and>
     nat n \<le> SOFTBUS_FRAME_MAX_PAYLOAD + SOFTBUS_FRAME_MIN_SIZE \<and>
     sf_payload_len g + unat (sf_ext_len g) + SOFTBUS_FRAME_MIN_SIZE = nat n \<and>
     length (sf_session_id g) = 8 \<and>
     (\<exists>p. sf_payload g = Some p \<and> length p = sf_payload_len g))"
  unfolding softbus_frame_unpack_def
  by (auto simp: okay_rules word_less_nat_alt sb_body_room [unfolded sb_consts, simplified] not_less sb_consts)


text \<open>Packing succeeds on well-formed frames that fit, and the reader gets the frame back.\<close>

lemma pack_ok:
  assumes "sb_frame_wf f" "sf_payload_len f \<le> SOFTBUS_FRAME_MAX_PAYLOAD"
    "SOFTBUS_FRAME_MIN_SIZE + sf_payload_len f + unat (sf_ext_len f) \<le> out_cap"
  shows "softbus_frame_pack f out_cap = Some (Some
     ([SOFTBUS_FRAME_MAGIC_0, SOFTBUS_FRAME_MAGIC_1, SOFTBUS_FRAME_VERSION, sf_flags f]
      @ put_u32 (of_nat (SOFTBUS_FRAME_MIN_SIZE + sf_payload_len f + unat (sf_ext_len f)))
      @ sf_session_id f @ put_u32 (sf_seq f)
      @ [sf_type f, sf_pkt_flags f] @ put_u16 (sf_ext_len f)
      @ sb_body f @ replicate (unat (sf_ext_len f)) 0))"
  using assms
  by (auto simp: softbus_frame_pack_def sb_frame_wf_def sb_body_def Let_def get_bytes_def
      sb_consts split: option.splits)

lemma pack_length:
  assumes "sb_frame_wf f" "softbus_frame_pack f cap = Some (Some w)"
  shows "length w = SOFTBUS_FRAME_MIN_SIZE + sf_payload_len f + unat (sf_ext_len f)"
proof -
  have c: "sf_payload_len f \<le> SOFTBUS_FRAME_MAX_PAYLOAD"
    "SOFTBUS_FRAME_MIN_SIZE + sf_payload_len f + unat (sf_ext_len f) \<le> cap"
    using assms(2) by (auto simp: softbus_frame_pack_def Let_def split: if_splits)
  have "length (sb_body f) = sf_payload_len f" "length (sf_session_id f) = 8"
    using assms(1) by (auto simp: sb_frame_wf_def sb_body_def split: option.splits)
  then show ?thesis using assms(2) pack_ok [OF assms(1) c] by (auto simp: sb_consts)
qed

lemma unpack_pack:
  assumes "sb_frame_wf f" "softbus_frame_pack f cap = Some (Some w)"
    "sf_payload_len f + unat (sf_ext_len f) \<le> SOFTBUS_FRAME_MAX_PAYLOAD"
  shows "softbus_frame_unpack (w @ r) g =
     Some (int (length w), f\<lparr>sf_payload := Some (sb_body f), sf_payload_len := sf_payload_len f\<rparr>)"
proof -
  have c: "sf_payload_len f \<le> SOFTBUS_FRAME_MAX_PAYLOAD"
    "SOFTBUS_FRAME_MIN_SIZE + sf_payload_len f + unat (sf_ext_len f) \<le> cap"
    using assms(2) by (auto simp: softbus_frame_pack_def Let_def split: if_splits)
  let ?n = "SOFTBUS_FRAME_MIN_SIZE + sf_payload_len f + unat (sf_ext_len f)"
  have n: "unat (of_nat ?n :: u32) = ?n"
    using assms(3) by (intro unat_of_nat_small) (simp add: sb_consts)
  have b: "length (sb_body f) = sf_payload_len f" and sid: "length (sf_session_id f) = 8"
    using assms(1) by (auto simp: sb_frame_wf_def sb_body_def split: option.splits)
  have ext: "\<not> ucast (of_nat ?n - of_nat SOFTBUS_FRAME_MIN_SIZE :: u32) < sf_ext_len f"
    using sb_body_room [of "of_nat ?n"] n assms(3) by (simp add: word_less_nat_alt sb_consts)
  have w: "w = [SOFTBUS_FRAME_MAGIC_0, SOFTBUS_FRAME_MAGIC_1, SOFTBUS_FRAME_VERSION, sf_flags f]
      @ put_u32 (of_nat ?n) @ sf_session_id f @ put_u32 (sf_seq f)
      @ [sf_type f, sf_pkt_flags f] @ put_u16 (sf_ext_len f)
      @ sb_body f @ replicate (unat (sf_ext_len f)) 0"
    using pack_ok [OF assms(1) c] assms(2) by simp
  have len: "length w = ?n" using pack_length [OF assms(1,2)] .
  show ?thesis
    unfolding softbus_frame_unpack_def using assms(3) len n ext
    by (simp add: w sid b codec Let_def sb_zero_def sb_consts)
qed


section \<open>The stream buffer as a frame reader\<close>

definition sb_verdict :: "bytes \<Rightarrow> verdict" where
  "sb_verdict buf =
     (case softbus_frame_unpack buf sb_zero of
        Some (n, _) \<Rightarrow> if n > 0 then Frame (nat n) else if n = -1 then Corrupt else NeedMore
      | None \<Rightarrow> Corrupt)"

text \<open>A decision other than "incomplete" stands when more bytes arrive, whatever the caller's frame
  held; for a frame, its own bytes decide.\<close>

lemma unpack_more:
  "okay (softbus_frame_unpack b f) (\<lambda>(n, g). n = -1 \<longrightarrow>
     (\<exists>g'. softbus_frame_unpack (b @ r) f' = Some (-1, g')))"
  unfolding softbus_frame_unpack_def
  by (auto simp: okay_rules sb_consts get_append Let_def)

lemma unpack_own:
  "okay (softbus_frame_unpack b f) (\<lambda>(n, g). 0 < n \<longrightarrow>
     softbus_frame_unpack (take (nat n) b @ r) f' = Some (n, g))"
  unfolding softbus_frame_unpack_def
  by (auto simp: okay_rules sb_consts get_take Let_def not_less word_less_nat_alt
      sb_body_room [unfolded sb_consts, simplified])

lemma unpackE:
  obtains n g where "softbus_frame_unpack b f = Some (n, g)"
    "n = -1 \<or> n = -2 \<or> 0 < n \<and> SOFTBUS_FRAME_MIN_SIZE \<le> nat n \<and> nat n \<le> length b"
proof -
  obtain n g where u: "softbus_frame_unpack b f = Some (n, g)"
    using okayD [OF unpack_okay [of b f]] by auto
  have "n = -1 \<or> n = -2 \<or> SOFTBUS_FRAME_MIN_SIZE \<le> nat n \<and> nat n \<le> length b"
    using okayE [OF unpack_okay u] by auto
  then have "n = -1 \<or> n = -2 \<or> 0 < n \<and> SOFTBUS_FRAME_MIN_SIZE \<le> nat n \<and> nat n \<le> length b"
    by (auto simp: sb_consts)
  then show thesis using that u by blast
qed

lemma unpack_own':
  assumes "softbus_frame_unpack b f = Some (n, g)" "0 < n"
  shows "softbus_frame_unpack (take (nat n) b @ r) f' = Some (n, g)"
    and "softbus_frame_unpack (take (nat n) b) f' = Some (n, g)"
    and "softbus_frame_unpack (b @ r) f' = Some (n, g)"
    and "softbus_frame_unpack b f' = Some (n, g)"
proof -
  have own: "softbus_frame_unpack (take (nat n) b @ s) h = Some (n, g)" for s h
    using okayE [OF unpack_own assms(1), of s h] assms(2) by simp
  show "softbus_frame_unpack (take (nat n) b @ r) f' = Some (n, g)" by (rule own)
  show "softbus_frame_unpack (take (nat n) b) f' = Some (n, g)" using own [of "[]"] by simp
  show "softbus_frame_unpack (b @ r) f' = Some (n, g)" using own [of "drop (nat n) b @ r"]
    by (simp flip: append_assoc)
  show "softbus_frame_unpack b f' = Some (n, g)" using own [of "drop (nat n) b"] by simp
qed

interpretation sbfr: framer sb_verdict
proof
  fix b n r
  obtain m g where u: "softbus_frame_unpack b sb_zero = Some (m, g)"
    "m = -1 \<or> m = -2 \<or> 0 < m \<and> SOFTBUS_FRAME_MIN_SIZE \<le> nat m \<and> nat m \<le> length b"
    by (rule unpackE)
  show "sb_verdict b = Frame n \<Longrightarrow> 0 < n \<and> n \<le> length b"
    using u by (auto simp: sb_verdict_def split: if_splits)
  show "sb_verdict b = Frame n \<Longrightarrow> sb_verdict (b @ r) = Frame n"
    using u(1) unpack_own'(3) [of b sb_zero m g r sb_zero]
    by (auto simp: sb_verdict_def split: if_splits)
  show "sb_verdict b = Corrupt \<Longrightarrow> sb_verdict (b @ r) = Corrupt"
    using u okayE [OF unpack_more u(1), of r sb_zero] by (auto simp: sb_verdict_def split: if_splits)
qed

text \<open>What a pop does, by the verdict on the buffer.\<close>

lemma pop_Frame:
  assumes "sb_verdict buf = Frame n"
  shows "\<exists>g. softbus_frame_unpack (take n buf) sb_zero = Some (int n, g) \<and>
     softbus_frame_buf_pop buf fr = Some (PopFrame, drop n buf,
       if sf_payload g \<noteq> None \<and> sf_payload_len g > 0 then g else g\<lparr>sf_payload := None\<rparr>)"
proof -
  obtain m g where u: "softbus_frame_unpack buf sb_zero = Some (m, g)" by (rule unpackE)
  with assms have m: "0 < m" "n = nat m" by (auto simp: sb_verdict_def split: if_splits)
  have "0 < n \<and> n \<le> length buf" using assms by (rule sbfr.frame_pos)
  then show ?thesis
    using unpack_own'(2,4) [OF u m(1)] m by (auto simp: softbus_frame_buf_pop_def)
qed

lemma pop_Corrupt:
  assumes "sb_verdict buf = Corrupt"
  shows "\<exists>g. softbus_frame_buf_pop buf fr = Some (PopError, [], g)"
proof -
  obtain m g where u: "softbus_frame_unpack buf sb_zero = Some (m, g)" by (rule unpackE)
  then have "m = -1" using assms by (auto simp: sb_verdict_def split: if_splits)
  moreover have "buf \<noteq> []" using assms by (auto simp: sb_verdict_def softbus_frame_unpack_def sb_consts)
  ultimately show ?thesis
    using u okayE [OF unpack_more u, of "[]" fr] by (auto simp: softbus_frame_buf_pop_def)
qed

lemma pop_NeedMore:
  assumes "sb_verdict buf = NeedMore"
  shows "\<exists>g. softbus_frame_buf_pop buf fr = Some (PopMore, buf, g)"
proof -
  obtain m g where u: "softbus_frame_unpack buf fr = Some (m, g)"
    "m = -1 \<or> m = -2 \<or> 0 < m \<and> SOFTBUS_FRAME_MIN_SIZE \<le> nat m \<and> nat m \<le> length buf"
    by (rule unpackE)
  have "\<not> 0 < m" using unpack_own'(4) [OF u(1), of sb_zero] assms
    by (auto simp: sb_verdict_def)
  moreover have "m \<noteq> -1" using okayE [OF unpack_more u(1), of "[]" sb_zero] assms
    by (auto simp: sb_verdict_def)
  ultimately show ?thesis using u by (auto simp: softbus_frame_buf_pop_def)
qed

lemmas pop_by_verdict = pop_Frame pop_Corrupt pop_NeedMore


section \<open>Properties\<close>

text \<open>
  A well-formed frame whose payload and extension together stay within the maximum payload is
  packed into exactly header + payload + extension bytes, and the reader gets every field and the
  payload back from the front of any buffer that starts with these bytes.
\<close>

lemma frame_roundtrip:
  assumes "sb_frame_wf f" "sf_payload_len f + unat (sf_ext_len f) \<le> SOFTBUS_FRAME_MAX_PAYLOAD"
    and "SOFTBUS_FRAME_MIN_SIZE + sf_payload_len f + unat (sf_ext_len f) \<le> cap"
  shows "\<exists>w. softbus_frame_pack f cap = Some (Some w) \<and>
     length w = SOFTBUS_FRAME_MIN_SIZE + sf_payload_len f + unat (sf_ext_len f) \<and>
     (\<forall>r g. softbus_frame_unpack (w @ r) g = Some (int (length w),
        f\<lparr>sf_payload := Some (sb_body f), sf_payload_len := sf_payload_len f\<rparr>))"
proof -
  obtain w where w: "softbus_frame_pack f cap = Some (Some w)"
    using pack_ok [OF assms(1) _ assms(3)] assms(2) by auto
  with unpack_pack [OF assms(1) w assms(2)] pack_length [OF assms(1) w] show ?thesis by blast
qed

lemma frame_roundtrip_witness:
  "\<exists>w. softbus_frame_pack (sb_zero\<lparr>sf_payload := Some [1, 2, 3], sf_payload_len := 3\<rparr>) 64 =
       Some (Some w) \<and> length w = 27"
  using frame_roundtrip [of "sb_zero\<lparr>sf_payload := Some [1, 2, 3], sf_payload_len := 3\<rparr>" 64]
  by (auto simp: sb_frame_wf_def sb_zero_def sb_consts)

text \<open>
  The packer checks the payload length alone, so it also accepts a frame whose payload and
  extension together exceed the maximum; what it then writes is rejected by the reader as corrupt,
  whatever follows it.
\<close>

lemma frame_oversize_rejected:
  assumes "sb_frame_wf f" "sf_payload_len f \<le> SOFTBUS_FRAME_MAX_PAYLOAD"
    and "SOFTBUS_FRAME_MAX_PAYLOAD < sf_payload_len f + unat (sf_ext_len f)"
    and "SOFTBUS_FRAME_MIN_SIZE + sf_payload_len f + unat (sf_ext_len f) \<le> cap"
  shows "\<exists>w. softbus_frame_pack f cap = Some (Some w) \<and>
     (\<forall>r g. softbus_frame_unpack (w @ r) g = Some (-1, g))"
proof -
  let ?n = "SOFTBUS_FRAME_MIN_SIZE + sf_payload_len f + unat (sf_ext_len f)"
  have "unat (sf_ext_len f) < 2 ^ LENGTH(16)" by (rule unsigned_less)
  then have n: "unat (of_nat ?n :: u32) = ?n"
    using assms(2) by (intro unat_of_nat_small) (simp add: sb_consts)
  show ?thesis
    using pack_ok [OF assms(1,2,4)] n assms(3)
    by (auto simp: softbus_frame_unpack_def codec sb_consts)
qed

lemma frame_oversize_rejected_witness:
  "\<exists>w. softbus_frame_pack (sb_zero\<lparr>sf_ext_len := 65508\<rparr>) 70000 = Some (Some w) \<and>
     softbus_frame_unpack w sb_zero = Some (-1, sb_zero)"
proof -
  have "\<exists>w. softbus_frame_pack (sb_zero\<lparr>sf_ext_len := 65508\<rparr>) 70000 = Some (Some w) \<and>
     (\<forall>r g. softbus_frame_unpack (w @ r) g = Some (-1, g))"
    by (rule frame_oversize_rejected) (simp_all add: sb_frame_wf_def sb_zero_def sb_consts)
  then show ?thesis by (metis append_Nil2)
qed

text \<open>
  Unpacking untrusted bytes never reads outside them: it ends with "corrupt", "incomplete" or a
  length between the minimal and the maximal frame size and within the input, and then the payload
  has the length the frame states.
\<close>

lemma frame_unpack_safe:
  "\<exists>n g. softbus_frame_unpack inp f = Some (n, g) \<and> (n = -1 \<or> n = -2 \<or>
     SOFTBUS_FRAME_MIN_SIZE \<le> nat n \<and> nat n \<le> length inp \<and>
     nat n \<le> SOFTBUS_FRAME_MAX_PAYLOAD + SOFTBUS_FRAME_MIN_SIZE \<and>
     sf_payload_len g + unat (sf_ext_len g) + SOFTBUS_FRAME_MIN_SIZE = nat n \<and>
     length (sb_body g) = sf_payload_len g)"
proof -
  obtain n g where "softbus_frame_unpack inp f = Some (n, g)"
    using okayD [OF unpack_okay] by fastforce
  with okayE [OF unpack_okay this] show ?thesis by (auto simp: sb_body_def sb_consts)
qed

end
