(* ===== verification/SoftbusSession.thy ===== *)
theory SoftbusSession
  imports SoftbusFrame
begin

text \<open>
  The logical session over a TCP connection, \<open>src/proto/softbus_session.c\<close>: sending one message
  per frame with a sequence number, the pump that reassembles frames and hands their payloads to
  the data callback, and the hand-over of the pump thread between the pump and \<open>stop\<close>.

  The data flow is modelled on states (\<open>sb_session\<close>) with the results of \<open>recv\<close> and of
  \<open>write_all\<close> as inputs; the thread protocol is a step relation of its own (\<open>sb_threads\<close>).
\<close>

section \<open>Sending\<close>

record sb_session =
  ss_running :: bool
  ss_closed_emitted :: bool
  ss_buf :: bytes
  ss_seq :: u32
  ss_session_id :: bytes
  ss_session_type :: byte

definition SOFTBUS_FRAME_FLAG_FIN :: byte where "SOFTBUS_FRAME_FLAG_FIN = 1"

definition SESSION_WIRE_CAP :: nat where
  "SESSION_WIRE_CAP = SOFTBUS_FRAME_MIN_SIZE + SOFTBUS_FRAME_MAX_PAYLOAD + 64"

definition softbus_session_new :: "byte \<Rightarrow> bytes \<Rightarrow> sb_session" where
  "softbus_session_new ty rnd =
     \<lparr>ss_running = True, ss_closed_emitted = False, ss_buf = [], ss_seq = 0,
      ss_session_id = rnd, ss_session_type = ty\<rparr>"

definition sb_send_frame :: "sb_session \<Rightarrow> bytes option \<Rightarrow> nat \<Rightarrow> sb_frame" where
  "sb_send_frame s data len =
     sb_zero\<lparr>sf_session_id := ss_session_id s, sf_type := ss_session_type s,
       sf_flags := SOFTBUS_FRAME_FLAG_FIN, sf_payload := data, sf_payload_len := len,
       sf_seq := ss_seq s\<rparr>"

text \<open>
  The new state, the bytes handed to \<open>write_all\<close> and the return value; \<open>write_ok\<close> is what
  \<open>write_all\<close> returns.  The sequence number is taken before packing, also when packing fails.
\<close>

definition softbus_session_send ::
  "bool \<Rightarrow> sb_session \<Rightarrow> bytes option \<Rightarrow> nat \<Rightarrow> (sb_session \<times> bytes \<times> bool) option" where
  "softbus_session_send write_ok s data len =
     (if data = None \<and> len > 0 then Some (s, [], False)
      else if \<not> ss_running s then Some (s, [], False)
      else do {
        let s' = s\<lparr>ss_seq := ss_seq s + 1\<rparr>;
        r \<leftarrow> softbus_frame_pack (sb_send_frame s' data len) SESSION_WIRE_CAP;
        Some (case r of
                None \<Rightarrow> (s', [], False)
              | Some wire \<Rightarrow> (s', wire, write_ok)) })"

text \<open>A caller that sends its messages one after the other.\<close>

primrec sb_send_all :: "sb_session \<Rightarrow> bytes list \<Rightarrow> (sb_session \<times> bytes list) option" where
  "sb_send_all s [] = Some (s, [])"
| "sb_send_all s (m # ms) = do {
     (s', w, ok) \<leftarrow> softbus_session_send True s (Some m) (length m);
     (s'', ws) \<leftarrow> sb_send_all s' ms;
     Some (s'', w # ws) }"

section \<open>The pump\<close>

datatype sb_event = SbData bytes | SbClosed

text \<open>What one call of \<open>recv\<close> gives; an error may be the cancellation.\<close>

datatype sb_recv = RecvData bytes | RecvEof | RecvError

text \<open>The payload handed to the data callback, \<open>(NULL, 0)\<close> for an empty one.\<close>

definition sb_on_frame :: "sb_frame \<Rightarrow> bytes" where
  "sb_on_frame f = (if sf_payload_len f > 0 then sb_body f else [])"

lemma pop_shrinks:
  "softbus_frame_buf_pop buf fr = Some (PopFrame, buf', g) \<Longrightarrow> length buf' < length buf"
proof (cases "sb_verdict buf")
  case (Frame n)
  assume p: "softbus_frame_buf_pop buf fr = Some (PopFrame, buf', g)"
  have "0 < n \<and> n \<le> length buf" using Frame by (rule sbfr.frame_pos)
  then show ?thesis using pop_Frame [OF Frame, of fr] p by auto
qed (use pop_Corrupt [of buf fr] pop_NeedMore [of buf fr] in auto)

text \<open>The inner loop: pop until no whole frame is left.  \<open>fr\<close> is the uninitialised local.\<close>

function sb_pump_frames :: "bytes \<Rightarrow> sb_frame \<Rightarrow> (bytes list \<times> bytes) option" where
  "sb_pump_frames buf fr =
     (case softbus_frame_buf_pop buf fr of
        None \<Rightarrow> None
      | Some (r, buf', f) \<Rightarrow>
          if r = PopFrame then
            (case sb_pump_frames buf' f of
               None \<Rightarrow> None
             | Some (ms, rest) \<Rightarrow> Some (sb_on_frame f # ms, rest))
          else Some ([], buf'))"
  by pat_completeness auto
termination
  by (relation "measure (\<lambda>(buf, _). length buf)") (auto dest: pop_shrinks)

declare sb_pump_frames.simps [simp del]

text \<open>\<open>_emit_closed\<close>\<close>

definition sb_emit_closed :: "sb_session \<Rightarrow> sb_session \<times> sb_event list" where
  "sb_emit_closed s =
     (if ss_closed_emitted s then (s, [])
      else (s\<lparr>ss_closed_emitted := True\<rparr>, [SbClosed]))"

text \<open>
  \<open>_pump_thread\<close> on the results of its \<open>recv\<close> calls.  The list ends where \<open>running\<close> was found
  cleared by a \<open>stop\<close> on another thread.
\<close>

fun sb_pump :: "sb_session \<Rightarrow> sb_frame \<Rightarrow> sb_recv list \<Rightarrow> (sb_session \<times> sb_event list) option" where
  "sb_pump s fr (RecvData chunk # rs) =
     (case sb_pump_frames (softbus_frame_buf_append (ss_buf s) chunk) fr of
        None \<Rightarrow> None
      | Some (ms, rest) \<Rightarrow>
          (case sb_pump (s\<lparr>ss_buf := rest\<rparr>) fr rs of
             None \<Rightarrow> None
           | Some (s', es) \<Rightarrow> Some (s', map SbData ms @ es)))"
| "sb_pump s fr _ = Some (sb_emit_closed (s\<lparr>ss_running := False\<rparr>))"

section \<open>Lemmas on sending and pumping\<close>

definition sb_message :: "bytes \<Rightarrow> bytes" where
  "sb_message w = (case softbus_frame_unpack w sb_zero of
     Some (_, g) \<Rightarrow> sb_on_frame g | None \<Rightarrow> [])"

lemma on_frame_popped:
  "sb_on_frame (if sf_payload g \<noteq> None \<and> sf_payload_len g > 0 then g else g\<lparr>sf_payload := None\<rparr>)
   = sb_on_frame g"
  by (auto simp: sb_on_frame_def sb_body_def)

text \<open>The inner loop delivers the frames that cutting the buffer gives, and never reads outside it.\<close>

lemma pump_frames_cut:
  "sb_pump_frames buf fr =
     (case cut_frames sb_verdict buf of (fs, rest, bad) \<Rightarrow>
        Some (map sb_message fs, if bad then [] else rest))"
proof (induction "length buf" arbitrary: buf fr rule: less_induct)
  case less
  show ?case
  proof (cases "sb_verdict buf")
    case (Frame n)
    have n: "0 < n" "n \<le> length buf" using sbfr.frame_pos [OF Frame] by auto
    obtain g where g: "softbus_frame_buf_pop buf fr = Some (PopFrame, drop n buf, g)"
      "sb_message (take n buf) = sb_on_frame g"
      using pop_Frame [OF Frame, of fr] on_frame_popped by (force simp: sb_message_def)
    show ?thesis
      using n less [of "drop n buf"] g(2)
      by (subst sb_pump_frames.simps) (auto simp: g(1) sbfr.cut_frame [OF Frame] split: prod.splits)
  next
    case NeedMore
    then show ?thesis using pop_NeedMore [OF NeedMore, of fr]
      by (auto simp: sbfr.cut_need sb_pump_frames.simps [of buf])
  next
    case Corrupt
    then show ?thesis using pop_Corrupt [OF Corrupt, of fr]
      by (auto simp: sbfr.cut_corrupt sb_pump_frames.simps [of buf])
  qed
qed

lemma pump_frames_total: "\<exists>ms rest. sb_pump_frames buf fr = Some (ms, rest)"
  by (simp add: pump_frames_cut split: prod.splits)

lemma pump_total: "\<exists>s' es. sb_pump s fr rs = Some (s', es)"
proof (induction s fr rs rule: sb_pump.induct)
  case (1 s fr chunk rs)
  obtain ms rest where p: "sb_pump_frames (softbus_frame_buf_append (ss_buf s) chunk) fr = Some (ms, rest)"
    using pump_frames_total by blast
  with "1.IH" [OF p refl] show ?case by auto
qed (auto split: prod.splits)

lemma buf_append [simp]: "softbus_frame_buf_append b c = b @ c"
  by (simp add: softbus_frame_buf_append_def)

text \<open>As long as the stream is not corrupt, what the pump delivers does not depend on how the bytes
  were split into chunks.\<close>

lemma pump_chunks:
  assumes "cut_frames sb_verdict (ss_buf s @ concat cs) = (fs, rest, False)"
    and "sb_verdict (ss_buf s) = NeedMore"
  shows "sb_pump s fr (map RecvData cs @ rs) =
     map_option (\<lambda>(s', es). (s', map (\<lambda>w. SbData (sb_message w)) fs @ es))
       (sb_pump (s\<lparr>ss_buf := rest\<rparr>) fr rs)"
  using assms
proof (induction cs arbitrary: s fs)
  case Nil
  then have r: "rest = ss_buf s" "fs = []" by (auto simp: sbfr.cut_need)
  show ?case unfolding r by (simp add: option.map_ident)
next
  case (Cons c cs)
  obtain fs1 rest1 bad1 where c: "cut_frames sb_verdict (ss_buf s @ c) = (fs1, rest1, bad1)"
    by (metis prod_cases3)
  with Cons.prems(1) sbfr.cut_append [of "ss_buf s @ c" "concat cs"]
  obtain fs2 where fs2: "\<not> bad1" "cut_frames sb_verdict (rest1 @ concat cs) = (fs2, rest, False)"
    "fs = fs1 @ fs2" by (auto split: prod.splits if_splits)
  have need: "sb_verdict rest1 = NeedMore" using c fs2(1) by (auto intro: sbfr.cut_rest_no_frame)
  have "sb_pump (s\<lparr>ss_buf := rest1\<rparr>) fr (map RecvData cs @ rs) =
     map_option (\<lambda>(s', es). (s', map (\<lambda>w. SbData (sb_message w)) fs2 @ es))
       (sb_pump (s\<lparr>ss_buf := rest\<rparr>) fr rs)"
    using Cons.IH [of "s\<lparr>ss_buf := rest1\<rparr>" fs2] fs2(2) need by simp
  then show ?case
    using c fs2 by (simp add: pump_frames_cut option.map_comp split: option.splits)
qed

text \<open>Sending: the frames put on the wire are whole frames that carry the messages.\<close>

definition sb_session_ok :: "sb_session \<Rightarrow> bool" where
  "sb_session_ok s \<longleftrightarrow> length (ss_session_id s) = 8 \<and> ss_running s"

lemma send_frame_wf:
  "sb_session_ok s \<Longrightarrow> sb_frame_wf (sb_send_frame s (Some m) (length m))"
  by (simp add: sb_session_ok_def sb_frame_wf_def sb_send_frame_def)

lemma send_ok:
  assumes "sb_session_ok s" "length m \<le> SOFTBUS_FRAME_MAX_PAYLOAD"
  shows "\<exists>w. softbus_session_send True s (Some m) (length m)
       = Some (s\<lparr>ss_seq := ss_seq s + 1\<rparr>, w, True) \<and>
     sb_verdict w = Frame (length w) \<and> sb_message w = m"
proof -
  let ?s = "s\<lparr>ss_seq := ss_seq s + 1\<rparr>"
  let ?f = "sb_send_frame ?s (Some m) (length m)"
  have wf: "sb_frame_wf ?f" by (rule send_frame_wf) (use assms in \<open>simp add: sb_session_ok_def\<close>)
  obtain w where w: "softbus_frame_pack ?f SESSION_WIRE_CAP = Some (Some w)"
    using pack_ok [OF wf, of SESSION_WIRE_CAP] assms(2)
    by (simp add: sb_send_frame_def sb_zero_def SESSION_WIRE_CAP_def)
  have u: "softbus_frame_unpack w sb_zero = Some (int (length w), ?f)"
    using unpack_pack [OF wf w, of "[]"] assms(2)
    by (simp add: sb_send_frame_def sb_body_def sb_zero_def)
  moreover have "0 < length w" using pack_length [OF wf w] by (simp add: sb_consts)
  ultimately have "sb_verdict w = Frame (length w)" "sb_message w = m"
    by (simp_all add: sb_verdict_def sb_message_def sb_on_frame_def sb_body_def sb_send_frame_def)
  then show ?thesis using w assms by (simp add: softbus_session_send_def sb_session_ok_def)
qed

lemma send_all_ok:
  assumes "sb_session_ok s" "\<forall>m \<in> set ms. length m \<le> SOFTBUS_FRAME_MAX_PAYLOAD"
  shows "\<exists>s' ws. sb_send_all s ms = Some (s', ws) \<and> map sb_message ws = ms \<and>
     (\<forall>w \<in> set ws. sb_verdict w = Frame (length w)) \<and> ss_seq s' = ss_seq s + of_nat (length ms)"
  using assms
proof (induction ms arbitrary: s)
  case (Cons m ms)
  obtain w where w: "softbus_session_send True s (Some m) (length m)
       = Some (s\<lparr>ss_seq := ss_seq s + 1\<rparr>, w, True)"
     "sb_verdict w = Frame (length w)" "sb_message w = m"
    using send_ok [OF Cons.prems(1), of m] Cons.prems(2) by auto
  have "sb_session_ok (s\<lparr>ss_seq := ss_seq s + 1\<rparr>)"
    using Cons.prems(1) by (simp add: sb_session_ok_def)
  from Cons.IH [OF this] Cons.prems(2) w show ?case by (auto simp: algebra_simps)
qed simp

lemma cut_Nil [simp]: "cut_frames sb_verdict [] = ([], [], False)" "sb_verdict [] = NeedMore"
  by (simp_all add: sbfr.cut_need sb_verdict_def softbus_frame_unpack_def sb_consts)


section \<open>Ending the pump thread\<close>

text \<open>
  \<open>running\<close> and \<open>closed_emitted\<close> are atomics shared by the pump and any number of callers of
  \<open>softbus_session_stop\<close> (and \<open>finalize\<close>, which does the same).  Whoever turns \<open>running\<close> from 1
  to 0 owns the thread's reference: the pump drops it, a stopper joins the pump with it.
\<close>

datatype sb_pump_pc = PReceiving | PClaim | PEmit | PCallback | PExited
datatype sb_stop_pc = SClaim | SCancel | SJoin | SReturned bool

record sb_threads =
  th_running :: bool
  th_closed_emitted :: bool
  th_pump :: sb_pump_pc
  th_stops :: "sb_stop_pc list"
  th_released :: nat
  th_callbacks :: nat

definition sb_threads_init :: "nat \<Rightarrow> sb_threads" where
  "sb_threads_init n =
     \<lparr>th_running = True, th_closed_emitted = False, th_pump = PReceiving,
      th_stops = replicate n SClaim, th_released = 0, th_callbacks = 0\<rparr>"

inductive sb_thread_step :: "sb_threads \<Rightarrow> sb_threads \<Rightarrow> bool" where
  leave_loop: "th_pump t = PReceiving \<Longrightarrow> sb_thread_step t (t\<lparr>th_pump := PClaim\<rparr>)"
| pump_wins: "th_pump t = PClaim \<Longrightarrow> th_running t \<Longrightarrow>
    sb_thread_step t (t\<lparr>th_running := False, th_released := th_released t + 1, th_pump := PEmit\<rparr>)"
| pump_loses: "th_pump t = PClaim \<Longrightarrow> \<not> th_running t \<Longrightarrow>
    sb_thread_step t (t\<lparr>th_pump := PEmit\<rparr>)"
| emit_first: "th_pump t = PEmit \<Longrightarrow> \<not> th_closed_emitted t \<Longrightarrow>
    sb_thread_step t (t\<lparr>th_closed_emitted := True, th_pump := PCallback\<rparr>)"
| emit_again: "th_pump t = PEmit \<Longrightarrow> th_closed_emitted t \<Longrightarrow>
    sb_thread_step t (t\<lparr>th_pump := PExited\<rparr>)"
| callback: "th_pump t = PCallback \<Longrightarrow>
    sb_thread_step t (t\<lparr>th_callbacks := th_callbacks t + 1, th_pump := PExited\<rparr>)"
| stop_wins: "i < length (th_stops t) \<Longrightarrow> th_stops t ! i = SClaim \<Longrightarrow> th_running t \<Longrightarrow>
    sb_thread_step t (t\<lparr>th_running := False, th_stops := (th_stops t)[i := SCancel]\<rparr>)"
| stop_loses: "i < length (th_stops t) \<Longrightarrow> th_stops t ! i = SClaim \<Longrightarrow> \<not> th_running t \<Longrightarrow>
    sb_thread_step t (t\<lparr>th_stops := (th_stops t)[i := SReturned False]\<rparr>)"
| stop_cancel: "i < length (th_stops t) \<Longrightarrow> th_stops t ! i = SCancel \<Longrightarrow>
    sb_thread_step t (t\<lparr>th_stops := (th_stops t)[i := SJoin]\<rparr>)"
| stop_join: "i < length (th_stops t) \<Longrightarrow> th_stops t ! i = SJoin \<Longrightarrow> th_pump t = PExited \<Longrightarrow>
    sb_thread_step t (t\<lparr>th_released := th_released t + 1,
      th_stops := (th_stops t)[i := SReturned True]\<rparr>)"

text \<open>The stoppers that won and have not joined yet.\<close>

definition sb_owners :: "sb_threads \<Rightarrow> nat" where
  "sb_owners t = length (filter (\<lambda>p. p = SCancel \<or> p = SJoin) (th_stops t))"

text \<open>Exactly one token: the flag, a stopper that has to join, or the reference already released.\<close>

definition sb_threads_inv :: "sb_threads \<Rightarrow> bool" where
  "sb_threads_inv t \<longleftrightarrow>
     of_bool (th_running t) + sb_owners t + th_released t = 1 \<and>
     th_closed_emitted t = (th_pump t \<in> {PCallback, PExited}) \<and>
     th_callbacks t = of_bool (th_pump t = PExited) \<and>
     (th_pump t \<in> {PEmit, PCallback, PExited} \<longrightarrow> \<not> th_running t) \<and>
     (\<forall>p \<in> set (th_stops t). p = SReturned True \<longrightarrow> th_pump t = PExited)"

lemma owners_update:
  assumes "i < length ps"
  shows "length (filter P (ps[i := p])) + of_bool (P (ps ! i)) = length (filter P ps) + of_bool (P p)"
  using assms
proof (induction ps arbitrary: i)
  case (Cons q ps)
  then show ?case by (cases i) auto
qed simp

lemma owners_stop:
  assumes "i < length (th_stops t)" "th_stops t' = (th_stops t)[i := p]"
  shows "sb_owners t' + of_bool (th_stops t ! i \<in> {SCancel, SJoin})
     = sb_owners t + of_bool (p \<in> {SCancel, SJoin})"
  using owners_update [OF assms(1), of "\<lambda>p. p = SCancel \<or> p = SJoin" p] assms(2)
  by (simp add: sb_owners_def)

lemma owners_other [simp]:
  "sb_owners (t\<lparr>th_pump := x\<rparr>) = sb_owners t"
  "sb_owners (t\<lparr>th_running := y\<rparr>) = sb_owners t"
  "sb_owners (t\<lparr>th_released := n\<rparr>) = sb_owners t"
  "sb_owners (t\<lparr>th_closed_emitted := y\<rparr>) = sb_owners t"
  "sb_owners (t\<lparr>th_callbacks := n\<rparr>) = sb_owners t"
  by (simp_all add: sb_owners_def)

lemma threads_init: "sb_threads_inv (sb_threads_init n)"
  by (simp add: sb_threads_inv_def sb_threads_init_def sb_owners_def)

lemma threads_step: "sb_thread_step t t' \<Longrightarrow> sb_threads_inv t \<Longrightarrow> sb_threads_inv t'"
proof (induction rule: sb_thread_step.induct)
  case (stop_wins i t)
  let ?t = "t\<lparr>th_running := False, th_stops := (th_stops t)[i := SCancel]\<rparr>"
  have "sb_owners ?t = sb_owners t + 1"
    using owners_stop [of i t ?t SCancel] stop_wins by simp
  with stop_wins show ?case
    by (auto simp: sb_threads_inv_def dest!: set_update_subset_insert [THEN subsetD])
next
  case (stop_loses i t)
  let ?t = "t\<lparr>th_stops := (th_stops t)[i := SReturned False]\<rparr>"
  have "sb_owners ?t = sb_owners t"
    using owners_stop [of i t ?t "SReturned False"] stop_loses by simp
  with stop_loses show ?case
    by (auto simp: sb_threads_inv_def dest!: set_update_subset_insert [THEN subsetD])
next
  case (stop_cancel i t)
  let ?t = "t\<lparr>th_stops := (th_stops t)[i := SJoin]\<rparr>"
  have "sb_owners ?t = sb_owners t"
    using owners_stop [of i t ?t SJoin] stop_cancel by simp
  with stop_cancel show ?case
    by (auto simp: sb_threads_inv_def dest!: set_update_subset_insert [THEN subsetD])
next
  case (stop_join i t)
  let ?t = "t\<lparr>th_released := th_released t + 1, th_stops := (th_stops t)[i := SReturned True]\<rparr>"
  have "sb_owners ?t + 1 = sb_owners t"
    using owners_stop [of i t ?t "SReturned True"] stop_join by simp
  with stop_join show ?case
    by (auto simp: sb_threads_inv_def dest!: set_update_subset_insert [THEN subsetD])
qed (simp_all add: sb_threads_inv_def, (elim conjE, simp)+)

lemma threads_progress:
  assumes "sb_threads_inv t" "\<nexists>t'. sb_thread_step t t'"
  shows "th_pump t = PExited \<and> th_released t = 1 \<and> set (th_stops t) \<subseteq> range SReturned"
proof -
  have no: "\<not> sb_thread_step t t'" for t' using assms(2) by blast
  have exited: "th_pump t = PExited"
  proof (cases "th_pump t")
    case PClaim
    then show ?thesis using no pump_wins [OF PClaim] pump_loses [OF PClaim] by blast
  next
    case PEmit
    then show ?thesis using no emit_first [OF PEmit] emit_again [OF PEmit] by blast
  next
    case PReceiving
    then show ?thesis using no leave_loop [OF PReceiving] by blast
  next
    case PCallback
    then show ?thesis using no callback [OF PCallback] by blast
  qed simp
  have ret: "p \<in> range SReturned" if "p \<in> set (th_stops t)" for p
  proof -
    obtain i where i: "i < length (th_stops t)" "th_stops t ! i = p"
      using \<open>p \<in> set (th_stops t)\<close> by (auto simp: in_set_conv_nth)
    then show ?thesis
      using assms(2) exited by (cases p) (blast intro: sb_thread_step.intros)+
  qed
  have "sb_owners t = 0" using ret by (auto simp: sb_owners_def filter_empty_conv)
  then show ?thesis using assms(1) exited ret by (auto simp: sb_threads_inv_def)
qed

lemma threads_reachable:
  "sb_thread_step\<^sup>*\<^sup>* (sb_threads_init n) t \<Longrightarrow> sb_threads_inv t"
  by (induction rule: rtranclp_induct) (auto intro: threads_init threads_step)


section \<open>Properties\<close>

text \<open>
  C4. End to end: whatever messages one side sends, as long as each fits a frame, and however TCP
  splits the bytes, the pump of the other side delivers exactly these messages in this order, then
  reports the close once and is no longer running.
\<close>

lemma session_delivers:
  assumes "sb_session_ok a" "\<forall>m \<in> set ms. length m \<le> SOFTBUS_FRAME_MAX_PAYLOAD"
    and "sb_send_all a ms = Some (a', ws)" "concat chunks = concat ws"
    and "ss_buf b = []" "\<not> ss_closed_emitted b"
  shows "\<exists>b'. sb_pump b fr (map RecvData chunks @ [RecvEof])
       = Some (b', map SbData ms @ [SbClosed]) \<and> \<not> ss_running b' \<and> ss_closed_emitted b'"
proof -
  obtain a'' vs where v: "sb_send_all a ms = Some (a'', vs)" "map sb_message vs = ms"
    "\<forall>w \<in> set vs. sb_verdict w = Frame (length w)"
    using send_all_ok [OF assms(1,2)] by blast
  with assms(3) have ws: "map sb_message ws = ms" "\<forall>w \<in> set ws. sb_verdict w = Frame (length w)"
    by auto
  have "cut_frames sb_verdict (ss_buf b @ concat chunks) = (ws, [], False)"
    using sbfr.cut_whole [of ws "[]"] ws(2) assms(4,5) by simp
  from pump_chunks [OF this, of fr "[RecvEof]"] assms(5,6) ws(1)
  show ?thesis by (auto simp: sb_emit_closed_def)
qed

lemma session_delivers_witness:
  "\<exists>b'. sb_pump (softbus_session_new 1 (replicate 8 0)) sb_zero
      (map RecvData [[0x53, 0x42, 1, 1, 0, 0, 0, 25, 1, 2, 3, 4], [5, 6, 7, 8, 0, 0, 0, 1, 1],
         [0, 0, 0, 9, 0x53], [0x42, 1, 1, 0, 0, 0, 24, 1, 2, 3, 4, 5, 6, 7, 8, 0, 0, 0, 2, 1, 0, 0, 0]]
       @ [RecvEof])
     = Some (b', map SbData [[9], []] @ [SbClosed]) \<and> \<not> ss_running b' \<and> ss_closed_emitted b'"
  by (rule session_delivers [where a = "softbus_session_new 1 [1, 2, 3, 4, 5, 6, 7, 8]"
        and ws = "[[0x53, 0x42, 1, 1, 0, 0, 0, 25, 1, 2, 3, 4, 5, 6, 7, 8, 0, 0, 0, 1, 1, 0, 0, 0, 9],
          [0x53, 0x42, 1, 1, 0, 0, 0, 24, 1, 2, 3, 4, 5, 6, 7, 8, 0, 0, 0, 2, 1, 0, 0, 0]]"
        and a' = "(softbus_session_new 1 [1, 2, 3, 4, 5, 6, 7, 8])\<lparr>ss_seq := 2\<rparr>"])
    (simp_all add: sb_session_ok_def softbus_session_send_def softbus_session_new_def
      sb_send_frame_def softbus_frame_pack_def sb_zero_def sb_consts get_bytes_def put_u32_def
      put_u16_def SESSION_WIRE_CAP_def SOFTBUS_FRAME_FLAG_FIN_def)




end
