(* ===== verification/FillpFrame.thy ===== *)
theory FillpFrame
  imports Prelude
begin

text \<open>
  The packet codec of fillp, the reliable byte stream over UDP (\<open>src/proto/fillp_frame.c\<close>): the
  12-byte head, the management packets and the server's cookie.

  Encoders return the datagram, or \<open>None\<close> for the return value \<open>-1\<close>; C arrays of fixed size are
  lists of that length.  Decoders return the decoded fields with the two layers of option of
  \<open>Prelude\<close>.  HMAC-SHA256 is the parameter \<open>hmac key input\<close>.
\<close>

definition FILLP_HLEN :: nat where "FILLP_HLEN = 12"
definition FILLP_COOKIE_LEN :: nat where "FILLP_COOKIE_LEN = 108"
definition FILLP_ADDR_LEN :: nat where "FILLP_ADDR_LEN = 28"

definition FILLP_FLAG_DATA_LAST :: u16 where "FILLP_FLAG_DATA_LAST = 0x40"
definition FILLP_FLAG_DATA_FIRST :: u16 where "FILLP_FLAG_DATA_FIRST = 0x20"

text \<open>\<open>FpPktType\<close>: a received nibble is cast to the enum unchecked, so it is a number here.\<close>

definition FP_PKT_DATA :: u16 where "FP_PKT_DATA = 0x1"
definition FP_PKT_CONN_REQ :: u16 where "FP_PKT_CONN_REQ = 0x2"
definition FP_PKT_NACK :: u16 where "FP_PKT_NACK = 0x3"
definition FP_PKT_PACK :: u16 where "FP_PKT_PACK = 0x5"
definition FP_PKT_FIN :: u16 where "FP_PKT_FIN = 0x6"
definition FP_PKT_CONN_REQ_ACK :: u16 where "FP_PKT_CONN_REQ_ACK = 0xA"
definition FP_PKT_CONN_CONFIRM :: u16 where "FP_PKT_CONN_CONFIRM = 0xB"
definition FP_PKT_CONN_CONFIRM_ACK :: u16 where "FP_PKT_CONN_CONFIRM_ACK = 0xC"
definition FP_PKT_HISTORY_NACK :: u16 where "FP_PKT_HISTORY_NACK = 0xD"

lemmas fp_pkt_types = FP_PKT_DATA_def FP_PKT_CONN_REQ_def FP_PKT_NACK_def FP_PKT_PACK_def
  FP_PKT_FIN_def FP_PKT_CONN_REQ_ACK_def FP_PKT_CONN_CONFIRM_def FP_PKT_CONN_CONFIRM_ACK_def
  FP_PKT_HISTORY_NACK_def

definition FILLP_CONN_REQ_LEN :: nat where "FILLP_CONN_REQ_LEN = 20"
definition FILLP_CONN_REQ_ACK_LEN :: nat where "FILLP_CONN_REQ_ACK_LEN = 120"
definition FILLP_CONN_CONFIRM_LEN :: nat where "FILLP_CONN_CONFIRM_LEN = 140"
definition FILLP_CONN_CONFIRM_ACK_LEN :: nat where "FILLP_CONN_CONFIRM_ACK_LEN = 40"
definition FILLP_NACK_LEN :: nat where "FILLP_NACK_LEN = 12"
definition FILLP_PACK_LEN :: nat where "FILLP_PACK_LEN = 46"
definition FILLP_FIN_LEN :: nat where "FILLP_FIN_LEN = 2"

lemmas fillp_lens = FILLP_HLEN_def FILLP_COOKIE_LEN_def FILLP_ADDR_LEN_def FILLP_CONN_REQ_LEN_def
  FILLP_CONN_REQ_ACK_LEN_def FILLP_CONN_CONFIRM_LEN_def FILLP_CONN_CONFIRM_ACK_LEN_def
  FILLP_NACK_LEN_def FILLP_PACK_LEN_def FILLP_FIN_LEN_def

section \<open>Head\<close>

record fp_head =
  fh_type :: u16
  fh_flags :: u16
  fh_data_len :: u16
  fh_pkt_num :: u32
  fh_seq_num :: u32

definition fillp_encode_head :: "u16 \<Rightarrow> u16 \<Rightarrow> u16 \<Rightarrow> u32 \<Rightarrow> u32 \<Rightarrow> bytes" where
  "fillp_encode_head type extra data_len pkt_num seq_num =
     put_u16 (push_bit 8 (type AND 0x0f) OR (extra AND 0x00ff))
     @ put_u16 data_len @ put_u32 pkt_num @ put_u32 seq_num"

definition fillp_decode_head :: "bytes \<Rightarrow> fp_head option option" where
  "fillp_decode_head buf =
     (if length buf < FILLP_HLEN then Some None
      else do {
        flag \<leftarrow> get_u16 buf 0;
        if drop_bit 12 flag AND 0x0f \<noteq> 0 then Some None
        else do {
          dl \<leftarrow> get_u16 buf 2;
          pn \<leftarrow> get_u32 buf 4;
          sn \<leftarrow> get_u32 buf 8;
          Some (Some \<lparr>fh_type = drop_bit 8 flag AND 0x0f, fh_flags = flag AND 0x00ff,
            fh_data_len = dl, fh_pkt_num = pn, fh_seq_num = sn\<rparr>) } })"

text \<open>\<open>(gint32)(a - b) > 0\<close>\<close>

definition fp_num_isbigger :: "u32 \<Rightarrow> u32 \<Rightarrow> bool" where
  "fp_num_isbigger a b \<longleftrightarrow> sint (a - b) > 0"

section \<open>Management packets\<close>

definition fillp_encode_conn_req :: "nat \<Rightarrow> u32 \<Rightarrow> u32 \<Rightarrow> u32 \<Rightarrow> u64 \<Rightarrow> bytes option" where
  "fillp_encode_conn_req cap preserve send_cache recv_cache ts =
     (if cap < FILLP_HLEN + FILLP_CONN_REQ_LEN then None
      else Some (fillp_encode_head FP_PKT_CONN_REQ 0 (of_nat FILLP_CONN_REQ_LEN) 0 0
        @ put_u32 preserve @ put_u32 send_cache @ put_u32 recv_cache @ put_u64 ts))"

definition fillp_decode_conn_req :: "bytes \<Rightarrow> (u32 \<times> u32 \<times> u32 \<times> u64) option option" where
  "fillp_decode_conn_req buf =
     (if length buf \<noteq> FILLP_HLEN + FILLP_CONN_REQ_LEN then Some None
      else do {
        pr \<leftarrow> get_u32 buf 12;
        sc \<leftarrow> get_u32 buf 16;
        rc \<leftarrow> get_u32 buf 20;
        ts \<leftarrow> get_u64 buf 24;
        Some (Some (pr, sc, rc, ts)) })"

definition fillp_encode_conn_req_ack :: "nat \<Rightarrow> u16 \<Rightarrow> bytes \<Rightarrow> u64 \<Rightarrow> bytes option" where
  "fillp_encode_conn_req_ack cap tag cookie ts =
     (if cap < FILLP_HLEN + FILLP_CONN_REQ_ACK_LEN then None
      else Some (fillp_encode_head FP_PKT_CONN_REQ_ACK 0 (of_nat FILLP_CONN_REQ_ACK_LEN) 0 0
        @ put_u16 tag @ put_u16 (of_nat FILLP_COOKIE_LEN) @ cookie @ put_u64 ts))"

definition fillp_decode_conn_req_ack :: "bytes \<Rightarrow> (u16 \<times> bytes \<times> u64) option option" where
  "fillp_decode_conn_req_ack buf =
     (if length buf \<noteq> FILLP_HLEN + FILLP_CONN_REQ_ACK_LEN then Some None
      else do {
        tag \<leftarrow> get_u16 buf 12;
        cl \<leftarrow> get_u16 buf 14;
        if cl \<noteq> of_nat FILLP_COOKIE_LEN then Some None
        else do {
          ck \<leftarrow> get_bytes buf 16 FILLP_COOKIE_LEN;
          ts \<leftarrow> get_u64 buf (16 + FILLP_COOKIE_LEN);
          Some (Some (tag, ck, ts)) } })"

definition fillp_encode_conn_confirm :: "nat \<Rightarrow> u16 \<Rightarrow> bytes \<Rightarrow> bytes \<Rightarrow> bytes option" where
  "fillp_encode_conn_confirm cap tag cookie local_addr =
     (if cap < FILLP_HLEN + FILLP_CONN_CONFIRM_LEN then None
      else Some (fillp_encode_head FP_PKT_CONN_CONFIRM 0 (of_nat FILLP_CONN_CONFIRM_LEN) 0 0
        @ put_u16 tag @ put_u16 (of_nat FILLP_COOKIE_LEN) @ cookie @ local_addr))"

definition fillp_decode_conn_confirm :: "bytes \<Rightarrow> (u16 \<times> bytes \<times> bytes) option option" where
  "fillp_decode_conn_confirm buf =
     (if length buf \<noteq> FILLP_HLEN + FILLP_CONN_CONFIRM_LEN then Some None
      else do {
        tag \<leftarrow> get_u16 buf 12;
        cl \<leftarrow> get_u16 buf 14;
        if cl \<noteq> of_nat FILLP_COOKIE_LEN then Some None
        else do {
          ck \<leftarrow> get_bytes buf 16 FILLP_COOKIE_LEN;
          la \<leftarrow> get_bytes buf (16 + FILLP_COOKIE_LEN) FILLP_ADDR_LEN;
          Some (Some (tag, ck, la)) } })"

definition fillp_encode_conn_confirm_ack :: "nat \<Rightarrow> u32 \<Rightarrow> u32 \<Rightarrow> u32 \<Rightarrow> bytes \<Rightarrow> bytes option" where
  "fillp_encode_conn_confirm_ack cap send_cache recv_cache pkt_size local_addr =
     (if cap < FILLP_HLEN + FILLP_CONN_CONFIRM_ACK_LEN then None
      else Some (fillp_encode_head FP_PKT_CONN_CONFIRM_ACK 0 (of_nat FILLP_CONN_CONFIRM_ACK_LEN) 0 0
        @ put_u32 send_cache @ put_u32 recv_cache @ put_u32 pkt_size @ local_addr))"

definition fillp_decode_conn_confirm_ack :: "bytes \<Rightarrow> (u32 \<times> u32 \<times> u32 \<times> bytes) option option" where
  "fillp_decode_conn_confirm_ack buf =
     (if length buf \<noteq> FILLP_HLEN + FILLP_CONN_CONFIRM_ACK_LEN then Some None
      else do {
        sc \<leftarrow> get_u32 buf 12;
        rc \<leftarrow> get_u32 buf 16;
        ps \<leftarrow> get_u32 buf 20;
        la \<leftarrow> get_bytes buf 24 FILLP_ADDR_LEN;
        Some (Some (sc, rc, ps, la)) })"

definition fillp_encode_nack :: "nat \<Rightarrow> u16 \<Rightarrow> u32 \<Rightarrow> u32 \<Rightarrow> u32 \<Rightarrow> u64 \<Rightarrow> bytes option" where
  "fillp_encode_nack cap type begin_pkt end_pkt seq_num random_num =
     (if cap < FILLP_HLEN + FILLP_NACK_LEN then None
      else Some (fillp_encode_head type 0 (of_nat FILLP_NACK_LEN) begin_pkt seq_num
        @ put_u32 (end_pkt - 1) @ put_u64 random_num))"

definition fillp_decode_nack :: "bytes \<Rightarrow> (u32 \<times> u32 \<times> u32) option option" where
  "fillp_decode_nack buf =
     (if length buf \<noteq> FILLP_HLEN + FILLP_NACK_LEN then Some None
      else do {
        h \<leftarrow> fillp_decode_head buf;
        (case h of
           None \<Rightarrow> Some None
         | Some h \<Rightarrow> do {
             last_payload \<leftarrow> get_u32 buf FILLP_HLEN;
             Some (Some (fh_pkt_num h, last_payload + 1, fh_seq_num h)) }) })"

definition fillp_encode_pack :: "nat \<Rightarrow> u32 \<Rightarrow> u32 \<Rightarrow> u32 \<Rightarrow> u32 \<Rightarrow> bytes option" where
  "fillp_encode_pack cap ack_seq ack_pkt lost_seq rcv_list_bytes =
     (if cap < FILLP_HLEN + FILLP_PACK_LEN then None
      else Some (fillp_encode_head FP_PKT_PACK 0 (of_nat FILLP_PACK_LEN) ack_pkt ack_seq
        @ put_u16 0 @ put_u16 0 @ put_u32 0 @ put_u32 0 @ put_u32 lost_seq @ put_u32 0
        @ put_u32 0 @ put_u32 0 @ put_u16 0 @ put_u32 rcv_list_bytes @ put_u32 0 @ put_u32 0
        @ put_u32 0))"

definition fillp_decode_pack :: "bytes \<Rightarrow> (u32 \<times> u32 \<times> u32 \<times> u32) option option" where
  "fillp_decode_pack buf =
     (if length buf < FILLP_HLEN + FILLP_PACK_LEN then Some None
      else do {
        h \<leftarrow> fillp_decode_head buf;
        (case h of
           None \<Rightarrow> Some None
         | Some h \<Rightarrow> do {
             lost \<leftarrow> get_u32 buf (FILLP_HLEN + 12);
             rlb \<leftarrow> get_u32 buf (FILLP_HLEN + 30);
             Some (Some (fh_seq_num h, fh_pkt_num h, lost, rlb)) }) })"

definition fillp_encode_fin :: "nat \<Rightarrow> u16 \<Rightarrow> bytes option" where
  "fillp_encode_fin cap flag =
     (if cap < FILLP_HLEN + FILLP_FIN_LEN then None
      else Some (fillp_encode_head FP_PKT_FIN 0 (of_nat FILLP_FIN_LEN) 0 0 @ put_u16 flag))"

definition fillp_decode_fin :: "bytes \<Rightarrow> u16 option option" where
  "fillp_decode_fin buf =
     (if length buf \<noteq> FILLP_HLEN + FILLP_FIN_LEN then Some None
      else do { f \<leftarrow> get_u16 buf FILLP_HLEN; Some (Some f) })"

section \<open>Addresses and cookies\<close>

text \<open>\<open>fillp_addr_fill_ipv4\<close>: \<open>memset\<close> to zero, then family, port and address.\<close>

definition fillp_addr_fill_ipv4 :: "u16 \<Rightarrow> bytes \<Rightarrow> bytes" where
  "fillp_addr_fill_ipv4 port ipv4 =
     put_u16 2 @ put_u16 port @ take 4 ipv4 @ replicate (FILLP_ADDR_LEN - 8) 0"

definition cookie_hmac :: "(bytes \<Rightarrow> bytes \<Rightarrow> bytes) \<Rightarrow> bytes \<Rightarrow> bytes \<Rightarrow> bytes \<Rightarrow> bytes" where
  "cookie_hmac hmac cookie local_addr mac_key =
     hmac mac_key (take (FILLP_COOKIE_LEN - 32) (drop 32 cookie) @ take FILLP_ADDR_LEN local_addr)"

definition fillp_cookie_fill ::
  "(bytes \<Rightarrow> bytes \<Rightarrow> bytes) \<Rightarrow> bytes \<Rightarrow> u64 \<Rightarrow> u32 \<Rightarrow> u32 \<Rightarrow> u32 \<Rightarrow> u32 \<Rightarrow> u32 \<Rightarrow> u32 \<Rightarrow> u32
   \<Rightarrow> u16 \<Rightarrow> u16 \<Rightarrow> bytes \<Rightarrow> bytes \<Rightarrow> bytes" where
  "fillp_cookie_fill hmac mac_key gen_time life_time local_pkt local_msg remote_pkt remote_msg
     remote_send remote_recv src_port addr_type remote_addr local_addr =
   (let c = replicate 32 0 @ put_u64 gen_time @ replicate 8 0 @ put_u32 life_time
          @ put_u32 local_pkt @ put_u32 remote_pkt @ put_u32 local_msg @ put_u32 remote_msg
          @ put_u32 remote_send @ put_u32 remote_recv @ put_u16 src_port @ put_u16 addr_type
          @ take FILLP_ADDR_LEN remote_addr
    in cookie_hmac hmac c local_addr mac_key @ drop 32 c)"

text \<open>The comparison loop: \<open>acc |= cookie[i] ^ digest[i]\<close> for all 32 bytes, no early exit.\<close>

definition ct_acc :: "nat \<Rightarrow> bytes \<Rightarrow> bytes \<Rightarrow> byte" where
  "ct_acc n a b = fold (\<lambda>i acc. acc OR (a ! i XOR b ! i)) [0..<n] 0"

definition fillp_cookie_verify :: "(bytes \<Rightarrow> bytes \<Rightarrow> bytes) \<Rightarrow> bytes \<Rightarrow> bytes \<Rightarrow> bytes \<Rightarrow> bool" where
  "fillp_cookie_verify hmac cookie mac_key local_addr =
     (ct_acc 32 cookie (cookie_hmac hmac cookie local_addr mac_key) = 0)"

section \<open>Lemmas\<close>

lemma length_encode_head [simp]: "length (fillp_encode_head t e d p s) = 12"
  by (simp add: fillp_encode_head_def)

lemma head_flag_bits:
  "drop_bit 12 (push_bit 8 (t AND 0xf) OR (e AND 0xff)) AND 0xf = (0 :: u16)"
  "drop_bit 8 (push_bit 8 (t AND 0xf) OR (e AND 0xff)) AND 0xf = (t AND 0xf :: u16)"
  "(push_bit 8 (t AND 0xf) OR (e AND 0xff)) AND 0xff = (e AND 0xff :: u16)"
proof -
  have m: "(0xf :: u16) = mask 4" "(0xff :: u16) = mask 8" by (simp_all add: mask_eq_exp_minus_1)
  show "drop_bit 12 (push_bit 8 (t AND 0xf) OR (e AND 0xff)) AND 0xf = (0 :: u16)"
    unfolding m by (rule bit_word_eqI) (auto simp: bit_simps)
  show "drop_bit 8 (push_bit 8 (t AND 0xf) OR (e AND 0xff)) AND 0xf = (t AND 0xf :: u16)"
    unfolding m by (rule bit_word_eqI) (auto simp: bit_simps)
  show "(push_bit 8 (t AND 0xf) OR (e AND 0xff)) AND 0xff = (e AND 0xff :: u16)"
    unfolding m by (rule bit_word_eqI) (auto simp: bit_simps)
qed

lemma decode_head_word:
  "fillp_decode_head (put_u16 f @ put_u16 d @ put_u32 p @ put_u32 s @ r) =
     Some (if drop_bit 12 f AND 0xf \<noteq> 0 then None
       else Some \<lparr>fh_type = drop_bit 8 f AND 0xf, fh_flags = f AND 0xff, fh_data_len = d,
         fh_pkt_num = p, fh_seq_num = s\<rparr>)"
  by (simp add: fillp_decode_head_def fillp_lens codec)

lemma decode_encode_head:
  "fillp_decode_head (fillp_encode_head t e d p s @ r) =
     Some (Some \<lparr>fh_type = t AND 0xf, fh_flags = e AND 0xff, fh_data_len = d,
       fh_pkt_num = p, fh_seq_num = s\<rparr>)"
  by (simp only: fillp_encode_head_def append_assoc decode_head_word head_flag_bits) simp

lemmas decode_encode_head_Nil = decode_encode_head [where r = "[]", simplified]

lemma decode_head_okay: "okay (fillp_decode_head buf) (\<lambda>h. h \<noteq> None \<longrightarrow> 12 \<le> length buf)"
  by (auto simp: fillp_decode_head_def okay_rules fillp_lens)

lemmas fillp_mgmt_defs =
  fillp_encode_conn_req_def fillp_decode_conn_req_def fillp_encode_conn_req_ack_def
  fillp_decode_conn_req_ack_def fillp_encode_conn_confirm_def fillp_decode_conn_confirm_def
  fillp_encode_conn_confirm_ack_def fillp_decode_conn_confirm_ack_def fillp_encode_nack_def
  fillp_decode_nack_def fillp_encode_pack_def fillp_decode_pack_def fillp_encode_fin_def
  fillp_decode_fin_def

lemma get_head_skip [codec]:
  "12 \<le> k \<Longrightarrow> get_u16 (fillp_encode_head t e d p s @ r) k = get_u16 r (k - 12)"
  "12 \<le> k \<Longrightarrow> get_u32 (fillp_encode_head t e d p s @ r) k = get_u32 r (k - 12)"
  "12 \<le> k \<Longrightarrow> get_u64 (fillp_encode_head t e d p s @ r) k = get_u64 r (k - 12)"
  "12 \<le> k \<Longrightarrow> get_bytes (fillp_encode_head t e d p s @ r) k n = get_bytes r (k - 12) n"
  by (simp_all add: get_u16_skip get_u32_skip get_u64_skip get_bytes_skip)

text \<open>Each management packet decodes to what was encoded.\<close>

lemma conn_req_rt:
  "fillp_encode_conn_req cap pr sc rc ts = Some w \<Longrightarrow>
     fillp_decode_conn_req w = Some (Some (pr, sc, rc, ts))"
  by (auto simp: fillp_mgmt_defs fillp_lens codec split: if_splits)

lemma conn_req_ack_rt:
  "fillp_encode_conn_req_ack cap tag ck ts = Some w \<Longrightarrow> length ck = FILLP_COOKIE_LEN \<Longrightarrow>
     fillp_decode_conn_req_ack w = Some (Some (tag, ck, ts))"
  by (auto simp: fillp_mgmt_defs fillp_lens codec split: if_splits)

lemma conn_confirm_rt:
  "fillp_encode_conn_confirm cap tag ck la = Some w \<Longrightarrow> length ck = FILLP_COOKIE_LEN \<Longrightarrow>
     length la = FILLP_ADDR_LEN \<Longrightarrow>
     fillp_decode_conn_confirm w = Some (Some (tag, ck, la))"
  by (auto simp: fillp_mgmt_defs fillp_lens codec split: if_splits)

lemma conn_confirm_ack_rt:
  "fillp_encode_conn_confirm_ack cap sc rc ps la = Some w \<Longrightarrow> length la = FILLP_ADDR_LEN \<Longrightarrow>
     fillp_decode_conn_confirm_ack w = Some (Some (sc, rc, ps, la))"
  by (auto simp: fillp_mgmt_defs fillp_lens codec split: if_splits)

lemma nack_rt:
  "fillp_encode_nack cap ty b e s rnd = Some w \<Longrightarrow>
     fillp_decode_nack w = Some (Some (b, e, s))"
  by (auto simp: fillp_mgmt_defs fillp_lens codec decode_encode_head split: if_splits)

lemma pack_rt:
  "fillp_encode_pack cap s p l rlb = Some w \<Longrightarrow>
     fillp_decode_pack w = Some (Some (s, p, l, rlb))"
  by (auto simp: fillp_mgmt_defs fillp_lens codec decode_encode_head split: if_splits)

lemma fin_rt:
  "fillp_encode_fin cap f = Some w \<Longrightarrow> fillp_decode_fin w = Some (Some f)"
  by (auto simp: fillp_mgmt_defs fillp_lens codec split: if_splits)

lemmas mgmt_rt = conn_req_rt conn_req_ack_rt conn_confirm_rt conn_confirm_ack_rt nack_rt pack_rt
  fin_rt

text \<open>No decoder reads outside the datagram.\<close>

lemma mgmt_okay:
  "okay (fillp_decode_conn_req buf) (\<lambda>_. True)"
  "okay (fillp_decode_conn_req_ack buf) (\<lambda>r. \<forall>t c ts. r = Some (t, c, ts) \<longrightarrow> length c = 108)"
  "okay (fillp_decode_conn_confirm buf)
     (\<lambda>r. \<forall>t c a. r = Some (t, c, a) \<longrightarrow> length c = 108 \<and> length a = 28)"
  "okay (fillp_decode_conn_confirm_ack buf) (\<lambda>_. True)"
  "okay (fillp_decode_fin buf) (\<lambda>_. True)"
  by (auto simp: fillp_mgmt_defs fillp_lens okay_rules)

lemma nack_okay: "okay (fillp_decode_nack buf) (\<lambda>_. True)"
  unfolding fillp_decode_nack_def
  by (auto simp: okay_rules fillp_lens split: option.splits intro!: okay_mono [OF decode_head_okay])

lemma pack_okay: "okay (fillp_decode_pack buf) (\<lambda>_. True)"
  unfolding fillp_decode_pack_def
  by (auto simp: okay_rules fillp_lens split: option.splits intro!: okay_mono [OF decode_head_okay])

section \<open>Sequence numbers\<close>

text \<open>Numbers less than half the number space apart compare like the offsets they stand for.\<close>

lemma isbigger_offset:
  assumes "m < 2 ^ 31" "n < 2 ^ 31"
  shows "fp_num_isbigger (base + of_nat m) (base + of_nat n) \<longleftrightarrow> n < m"
proof -
  have "(base + of_nat m) - (base + of_nat n) = (of_int (int m - int n) :: u32)" by simp
  moreover have "sint (of_int (int m - int n) :: u32) = int m - int n"
    using assms by (intro sint_of_int_small) auto
  ultimately show ?thesis by (simp add: fp_num_isbigger_def)
qed

lemma isbigger_irrefl [simp]: "\<not> fp_num_isbigger a a"
  by (simp add: fp_num_isbigger_def)

section \<open>The constant-time comparison\<close>

lemma ct_fold_zero:
  "fold (\<lambda>i acc. acc OR (a ! i XOR b ! i)) is acc = (0 :: byte) \<longleftrightarrow>
     acc = 0 \<and> (\<forall>i \<in> set is. a ! i = (b ! i :: byte))"
  by (induction "is" arbitrary: acc) (auto simp: or_eq_0_iff xor_zero_iff)

lemma ct_acc_eq: "ct_acc n a b = 0 \<longleftrightarrow> (\<forall>i < n. a ! i = b ! i)"
  by (auto simp: ct_acc_def ct_fold_zero)


section \<open>Cookies\<close>

lemma cookie_verify_iff:
  assumes "\<And>k i. length (hmac k i) = 32" "length cookie = FILLP_COOKIE_LEN"
  shows "fillp_cookie_verify hmac cookie mac_key addr \<longleftrightarrow>
     take 32 cookie = cookie_hmac hmac cookie addr mac_key"
proof -
  have "(\<forall>i < 32. cookie ! i = d ! i) \<longleftrightarrow> take 32 cookie = d" if "length d = 32" for d
    using that assms(2) by (auto simp: list_eq_iff_nth_eq fillp_lens)
  then show ?thesis
    by (simp add: fillp_cookie_verify_def ct_acc_eq cookie_hmac_def assms(1))
qed

lemma cookie_fill_length:
  assumes "\<And>k i. length (hmac k i) = 32" "length remote_addr = FILLP_ADDR_LEN"
  shows "length (fillp_cookie_fill hmac key gt lt lp lm rp rm rs rr sp at remote_addr la)
     = FILLP_COOKIE_LEN"
  using assms by (simp add: fillp_cookie_fill_def Let_def cookie_hmac_def fillp_lens)

lemma cookie_fill_verify:
  assumes "\<And>k i. length (hmac k i) = 32" "length remote_addr = FILLP_ADDR_LEN"
  shows "fillp_cookie_verify hmac
     (fillp_cookie_fill hmac key gt lt lp lm rp rm rs rr sp at remote_addr la) key la"
  using assms
  by (subst cookie_verify_iff)
    (simp_all add: cookie_fill_length, simp add: fillp_cookie_fill_def Let_def cookie_hmac_def fillp_lens)

section \<open>The packets as codecs\<close>

lemma okay_safe: "okay m P \<Longrightarrow> m \<noteq> None"
  by (cases m) (simp_all add: okay_def)

interpretation conn_req_codec: datagram_codec
  "\<lambda>(pr, sc, rc, ts). fillp_encode_conn_req 32 pr sc rc ts" fillp_decode_conn_req "\<lambda>_. True"
  using okay_safe [OF mgmt_okay(1)] by unfold_locales (auto simp: conn_req_rt)

interpretation conn_req_ack_codec: datagram_codec
  "\<lambda>(tag, ck, ts). fillp_encode_conn_req_ack 132 tag ck ts" fillp_decode_conn_req_ack
  "\<lambda>(tag, ck, ts). length ck = FILLP_COOKIE_LEN"
  using okay_safe [OF mgmt_okay(2)] by unfold_locales (auto simp: conn_req_ack_rt)

interpretation conn_confirm_codec: datagram_codec
  "\<lambda>(tag, ck, la). fillp_encode_conn_confirm 152 tag ck la" fillp_decode_conn_confirm
  "\<lambda>(tag, ck, la). length ck = FILLP_COOKIE_LEN \<and> length la = FILLP_ADDR_LEN"
  using okay_safe [OF mgmt_okay(3)] by unfold_locales (auto simp: conn_confirm_rt)

interpretation conn_confirm_ack_codec: datagram_codec
  "\<lambda>(sc, rc, ps, la). fillp_encode_conn_confirm_ack 52 sc rc ps la" fillp_decode_conn_confirm_ack
  "\<lambda>(sc, rc, ps, la). length la = FILLP_ADDR_LEN"
  using okay_safe [OF mgmt_okay(4)] by unfold_locales (auto simp: conn_confirm_ack_rt)

interpretation pack_codec: datagram_codec
  "\<lambda>(s, p, l, r). fillp_encode_pack 58 s p l r" fillp_decode_pack "\<lambda>_. True"
  using okay_safe [OF pack_okay] by unfold_locales (auto simp: pack_rt)

interpretation fin_codec: datagram_codec "fillp_encode_fin 14" fillp_decode_fin "\<lambda>_. True"
  using okay_safe [OF mgmt_okay(5)] by unfold_locales (auto simp: fin_rt)

section \<open>Properties\<close>

text \<open>
  Every management packet of the handshake and of the data plane decodes to exactly the values
  it was encoded from, and a NACK for the gap \<open>(begin, end)\<close> carries both ends of the gap.
\<close>

lemma fillp_packets_roundtrip:
  assumes "length ck = FILLP_COOKIE_LEN" "length la = FILLP_ADDR_LEN"
  shows
    "(\<exists>w. fillp_encode_conn_req 32 pr sc rc ts = Some w \<and>
       fillp_decode_conn_req w = Some (Some (pr, sc, rc, ts))) \<and>
     (\<exists>w. fillp_encode_conn_req_ack 132 tag ck ts = Some w \<and>
       fillp_decode_conn_req_ack w = Some (Some (tag, ck, ts))) \<and>
     (\<exists>w. fillp_encode_conn_confirm 152 tag ck la = Some w \<and>
       fillp_decode_conn_confirm w = Some (Some (tag, ck, la))) \<and>
     (\<exists>w. fillp_encode_conn_confirm_ack 52 sc rc ps la = Some w \<and>
       fillp_decode_conn_confirm_ack w = Some (Some (sc, rc, ps, la))) \<and>
     (\<exists>w. fillp_encode_nack 24 ty b en sq rnd = Some w \<and> fillp_decode_nack w = Some (Some (b, en, sq))) \<and>
     (\<exists>w. fillp_encode_pack 58 s p l r = Some w \<and> fillp_decode_pack w = Some (Some (s, p, l, r))) \<and>
     (\<exists>w. fillp_encode_fin 14 f = Some w \<and> fillp_decode_fin w = Some (Some f))"
proof -
  have "\<exists>w. fillp_encode_conn_req 32 pr sc rc ts = Some w"
    "\<exists>w. fillp_encode_conn_req_ack 132 tag ck ts = Some w"
    "\<exists>w. fillp_encode_conn_confirm 152 tag ck la = Some w"
    "\<exists>w. fillp_encode_conn_confirm_ack 52 sc rc ps la = Some w"
    "\<exists>w. fillp_encode_nack 24 ty b en sq rnd = Some w"
    "\<exists>w. fillp_encode_pack 58 s p l r = Some w" "\<exists>w. fillp_encode_fin 14 f = Some w"
    by (simp_all add: fillp_mgmt_defs fillp_lens)
  then show ?thesis
    using conn_req_rt conn_req_ack_rt [OF _ assms(1)] conn_confirm_rt [OF _ assms]
      conn_confirm_ack_rt [OF _ assms(2)] nack_rt pack_rt fin_rt
    by (intro conjI) (elim exE, intro exI conjI, assumption, simp)+
qed

lemma fillp_packets_roundtrip_witness:
  "\<exists>w. fillp_encode_conn_confirm 152 1 (replicate 108 5) (replicate 28 6) = Some w \<and>
     fillp_decode_conn_confirm w = Some (Some (1, replicate 108 5, replicate 28 6))"
  using fillp_packets_roundtrip [of "replicate 108 5" "replicate 28 6"] by (simp add: fillp_lens)

text \<open>
  Sequence numbers are compared safely across the wrap of the 32-bit counter: numbers less than
  half the number space ahead of a common base compare like their distances from it.
\<close>

lemma fillp_number_order:
  assumes "m < 2 ^ 31" "n < 2 ^ 31"
  shows "fp_num_isbigger (base + of_nat m) (base + of_nat n) \<longleftrightarrow> n < m"
  using assms by (rule isbigger_offset)

lemma fillp_number_order_witness: "fp_num_isbigger (0xffffffff + of_nat 2) (0xffffffff + of_nat 1)"
  using fillp_number_order [of 2 1 "0xffffffff"] by simp

text \<open>
  Cookies: the comparison loop accepts exactly the cookies whose digest is the HMAC of their
  body and the local address under the server's key, and a cookie the server filled is accepted.
\<close>

lemma fillp_cookie_authentic:
  assumes "\<And>k i. length (hmac k i) = 32" "length cookie = FILLP_COOKIE_LEN"
    "length remote_addr = FILLP_ADDR_LEN" "length addr = FILLP_ADDR_LEN"
  shows "(fillp_cookie_verify hmac cookie key addr \<longleftrightarrow> take 32 cookie = hmac key (drop 32 cookie @ addr)) \<and>
     fillp_cookie_verify hmac
       (fillp_cookie_fill hmac key gt lt lp lm rp rm rs rr sp at remote_addr addr) key addr"
proof -
  have "take (FILLP_COOKIE_LEN - 32) (drop 32 cookie) = drop 32 cookie"
    using assms(2) by (simp add: fillp_lens)
  then have "fillp_cookie_verify hmac cookie key addr \<longleftrightarrow> take 32 cookie = hmac key (drop 32 cookie @ addr)"
    using cookie_verify_iff [of hmac, OF assms(1,2)] assms(4) by (simp add: cookie_hmac_def)
  then show ?thesis using cookie_fill_verify [of hmac, OF assms(1,3)] by simp
qed

lemma fillp_cookie_authentic_witness:
  "fillp_cookie_verify (\<lambda>k i. replicate 32 (hd k)) (replicate 108 9) [9] (replicate 28 0)"
  using fillp_cookie_authentic [of "\<lambda>k i. replicate 32 (hd k)" "replicate 108 9" "replicate 28 0"
      "replicate 28 0" "[9]"] by (simp add: fillp_lens)

end
