(* ===== verification/FillpConn.thy ===== *)
theory FillpConn
  imports FillpFrame
begin

text \<open>
  The fillp engine, \<open>src/proto/fillp_conn.c\<close>: a reliable byte stream per UDP peer, with a cookie
  handshake, in-order delivery with an out-of-order buffer, NACK and PACK, a windowed sender and a
  draining close.

  Each handler takes the peer's record and the environment \<open>fp_env\<close> (the clock and the random
  numbers it draws; the clock is read once per handler) and returns the record and the outputs in
  order: datagrams sent and callbacks fired.  A handler that parses a datagram has an outer
  \<open>option\<close>, \<open>None\<close> for a read outside it.  \<open>GHashTable\<close> is a map, \<open>GList\<close> and \<open>GByteArray\<close>
  are lists.  Allocation does not fail.
\<close>

definition FP_PKT_DATA_MAX :: nat where "FP_PKT_DATA_MAX = 1400"
definition FP_SEND_CACHE :: nat where "FP_SEND_CACHE = 256 * 1024"
definition FP_RECV_CACHE :: nat where "FP_RECV_CACHE = 1024 * 1024"
definition FP_OFO_MAX_BYTES :: u64 where "FP_OFO_MAX_BYTES = 2 * 1024 * 1024"
definition FP_TXQ_WATERMARK :: nat where "FP_TXQ_WATERMARK = 64 * 1024"
definition FP_HANDSHAKE_TIMEOUT_MS :: u64 where "FP_HANDSHAKE_TIMEOUT_MS = 5000"
definition FP_HS_RETRANS_MS :: u64 where "FP_HS_RETRANS_MS = 500"
definition FP_CLOSE_TIMEOUT_MS :: u64 where "FP_CLOSE_TIMEOUT_MS = 2000"
definition FP_STALL_TIMEOUT_MS :: u64 where "FP_STALL_TIMEOUT_MS = 1000"
definition FP_NACK_INTERVAL_MS :: u64 where "FP_NACK_INTERVAL_MS = 20"
definition FP_PACK_INTERVAL_MS :: u64 where "FP_PACK_INTERVAL_MS = 10"
definition FP_PACK_FLUSH_BYTES :: u64 where "FP_PACK_FLUSH_BYTES = 65536"
definition FP_SEND_BUDGET :: nat where "FP_SEND_BUDGET = 32"
definition FP_COOKIE_LIFETIME_US :: u32 where "FP_COOKIE_LIFETIME_US = 10 * 1000 * 1000"
definition FP_PRESERVE_MAX_US :: u32 where "FP_PRESERVE_MAX_US = 20 * 1000 * 1000"
definition FP_CLIENT_PRESERVE_US :: u32 where "FP_CLIENT_PRESERVE_US = 10 * 1000 * 1000"

lemmas fp_tuning = FP_PKT_DATA_MAX_def FP_SEND_CACHE_def FP_RECV_CACHE_def FP_OFO_MAX_BYTES_def
  FP_TXQ_WATERMARK_def FP_HANDSHAKE_TIMEOUT_MS_def FP_HS_RETRANS_MS_def FP_CLOSE_TIMEOUT_MS_def
  FP_STALL_TIMEOUT_MS_def FP_NACK_INTERVAL_MS_def FP_PACK_INTERVAL_MS_def FP_PACK_FLUSH_BYTES_def
  FP_SEND_BUDGET_def FP_COOKIE_LIFETIME_US_def FP_PRESERVE_MAX_US_def FP_CLIENT_PRESERVE_US_def

section \<open>State\<close>

datatype fp_state = FP_ST_PENDING | FP_ST_ESTABLISHED | FP_ST_CLOSING | FP_ST_CLOSED

record fp_pkt =
  pk_num :: u32
  pk_seq :: u32
  pk_len :: u16
  pk_t_sent :: u64
  pk_data :: bytes

record fp_peer =
  pe_is_client :: bool
  pe_state :: fp_state
  pe_port :: u16
  pe_cookie :: bytes
  pe_t_stage :: u64
  pe_req_preserve :: u32
  pe_req_send_cache :: u32
  pe_req_recv_cache :: u32
  pe_req_ts :: u64
  pe_hs_tag :: u16
  pe_hs_confirm_sent :: bool
  pe_t_hs_retrans :: u64
  pe_send_pkt_num :: u32
  pe_send_seq_num :: u32
  pe_txq :: bytes
  pe_inflight :: "fp_pkt list"
  pe_inflight_bytes :: u64
  pe_fill_done :: bool
  pe_tx_notified :: bool
  pe_recv_pkt_num :: u32
  pe_recv_seq_num :: u32
  pe_ofo :: "u32 \<rightharpoonup> fp_pkt"
  pe_ofo_bytes :: u64
  pe_delivered_since_pack :: u64
  pe_t_last_pack :: u64
  pe_t_last_nack :: u64
  pe_has_fill :: bool
  pe_peer_fin :: bool
  pe_pending_fin :: bool

type_synonym fp_key = "bytes \<times> u16"

record fp_engine =
  en_port :: u16
  en_mac_key :: bytes
  en_local_addr :: bytes
  en_peers :: "fp_key \<rightharpoonup> fp_peer"
  en_closed :: bool

text \<open>The monotonic clock in microseconds and two draws of \<open>g_random_int\<close>.\<close>

record fp_env =
  ev_us :: u64
  ev_r1 :: u32
  ev_r2 :: u32

definition fp_now_ms :: "fp_env \<Rightarrow> u64" where
  "fp_now_ms ev = ev_us ev div 1000"

datatype fp_out = FpSend bytes | FpEstablished | FpDeliver bytes | FpTxComplete | FpClosed string

text \<open>\<open>fp_sendto\<close> on the result of an encoder; the buffers are always large enough.\<close>

definition fp_sendto :: "bytes option \<Rightarrow> fp_out list" where
  "fp_sendto d = (case d of Some w \<Rightarrow> [FpSend w] | None \<Rightarrow> [])"

definition fp_peer_new :: "fp_env \<Rightarrow> u16 \<Rightarrow> bool \<Rightarrow> fp_peer" where
  "fp_peer_new ev port is_client =
     \<lparr>pe_is_client = is_client, pe_state = FP_ST_PENDING, pe_port = port,
      pe_cookie = replicate FILLP_COOKIE_LEN 0, pe_t_stage = fp_now_ms ev, pe_req_preserve = 0,
      pe_req_send_cache = 0, pe_req_recv_cache = 0, pe_req_ts = 0, pe_hs_tag = 0,
      pe_hs_confirm_sent = False, pe_t_hs_retrans = fp_now_ms ev, pe_send_pkt_num = 0,
      pe_send_seq_num = 0, pe_txq = [], pe_inflight = [], pe_inflight_bytes = 0,
      pe_fill_done = False, pe_tx_notified = False, pe_recv_pkt_num = 0, pe_recv_seq_num = 0,
      pe_ofo = Map.empty, pe_ofo_bytes = 0, pe_delivered_since_pack = 0, pe_t_last_pack = 0,
      pe_t_last_nack = 0, pe_has_fill = False, pe_peer_fin = False, pe_pending_fin = False\<rparr>"

definition fp_free_tx :: "fp_peer \<Rightarrow> fp_peer" where
  "fp_free_tx p = p\<lparr>pe_txq := [], pe_inflight := [], pe_inflight_bytes := 0\<rparr>"

definition fp_free_rx :: "fp_peer \<Rightarrow> fp_peer" where
  "fp_free_rx p = p\<lparr>pe_ofo := Map.empty, pe_ofo_bytes := 0\<rparr>"

definition fp_peer_established :: "fp_env \<Rightarrow> fp_peer \<Rightarrow> fp_peer \<times> fp_out list" where
  "fp_peer_established ev p =
     (p\<lparr>pe_state := FP_ST_ESTABLISHED, pe_t_stage := fp_now_ms ev\<rparr>, [FpEstablished])"

section \<open>Peer teardown\<close>

text \<open>The peer is removed from the table by the callers below (\<open>fp_finalize_at\<close>).\<close>

definition fp_peer_finalize :: "fp_peer \<Rightarrow> string \<Rightarrow> fp_peer \<times> fp_out list" where
  "fp_peer_finalize p reason =
     (if pe_state p = FP_ST_CLOSED then (p, [])
      else (fp_free_rx (fp_free_tx (p\<lparr>pe_state := FP_ST_CLOSED\<rparr>)), [FpClosed reason]))"

definition fp_peer_request_close :: "fp_env \<Rightarrow> fp_peer \<Rightarrow> fp_peer \<times> fp_out list" where
  "fp_peer_request_close ev p =
     (if pe_state p = FP_ST_CLOSED \<or> pe_state p = FP_ST_CLOSING then (p, [])
      else (p\<lparr>pe_state := FP_ST_CLOSING, pe_t_stage := fp_now_ms ev\<rparr>,
            if pe_state p = FP_ST_ESTABLISHED
            then fp_sendto (fillp_encode_fin (FILLP_HLEN + FILLP_FIN_LEN) 0) else []))"

section \<open>Handshake\<close>

definition fp_send_conn_req_ack :: "fp_env \<Rightarrow> fp_peer \<Rightarrow> fp_out list" where
  "fp_send_conn_req_ack ev p =
     fp_sendto (fillp_encode_conn_req_ack (FILLP_HLEN + FILLP_CONN_REQ_ACK_LEN) 1 (pe_cookie p)
       (ev_us ev))"

definition fp_resend_conn_req :: "fp_peer \<Rightarrow> fp_out list" where
  "fp_resend_conn_req p =
     fp_sendto (fillp_encode_conn_req (FILLP_HLEN + FILLP_CONN_REQ_LEN) (pe_req_preserve p)
       (pe_req_send_cache p) (pe_req_recv_cache p) (pe_req_ts p))"

definition fp_resend_conn_confirm :: "fp_engine \<Rightarrow> fp_peer \<Rightarrow> fp_out list" where
  "fp_resend_conn_confirm e p =
     fp_sendto (fillp_encode_conn_confirm (FILLP_HLEN + FILLP_CONN_CONFIRM_LEN) (pe_hs_tag p)
       (pe_cookie p) (en_local_addr e))"

text \<open>\<open>fp_handle_conn_req\<close>: a known peer is answered again while it is pending; an unknown one
  gets a record in the table and a cookie.\<close>

definition fp_handle_conn_req ::
  "(bytes \<Rightarrow> bytes \<Rightarrow> bytes) \<Rightarrow> fp_env \<Rightarrow> fp_engine \<Rightarrow> fp_key \<Rightarrow> bytes
   \<Rightarrow> (fp_engine \<times> fp_out list) option" where
  "fp_handle_conn_req hmac ev e key buf = do {
     r \<leftarrow> fillp_decode_conn_req buf;
     (case r of
        None \<Rightarrow> Some (e, [])
      | Some (pres, sc, rc, ts) \<Rightarrow>
          (case en_peers e key of
             Some p \<Rightarrow>
               Some (e, if pe_state p = FP_ST_PENDING then fp_send_conn_req_ack ev p else [])
           | None \<Rightarrow>
               let life = FP_COOKIE_LIFETIME_US
                     + (if pres > FP_PRESERVE_MAX_US then FP_PRESERVE_MAX_US else pres);
                   remote_addr = fillp_addr_fill_ipv4 (snd key) (fst key);
                   np = (fp_peer_new ev (snd key) False)\<lparr>pe_cookie :=
                     fillp_cookie_fill hmac (en_mac_key e) (ev_us ev) life (ev_r1 ev) (ev_r2 ev)
                       0 0 sc rc (en_port e) 2 remote_addr (en_local_addr e)\<rparr>
               in Some (e\<lparr>en_peers := (en_peers e)(key \<mapsto> np)\<rparr>, fp_send_conn_req_ack ev np))) }"

definition fp_handle_conn_req_ack ::
  "fp_env \<Rightarrow> fp_engine \<Rightarrow> fp_peer \<Rightarrow> bytes \<Rightarrow> (fp_peer \<times> fp_out list) option" where
  "fp_handle_conn_req_ack ev e p buf =
     (if pe_state p \<noteq> FP_ST_PENDING \<or> \<not> pe_is_client p then Some (p, [])
      else do {
        r \<leftarrow> fillp_decode_conn_req_ack buf;
        (case r of
           None \<Rightarrow> Some (p, [])
         | Some (tag, cookie, ts) \<Rightarrow>
             Some (p\<lparr>pe_cookie := cookie, pe_hs_tag := tag, pe_hs_confirm_sent := True,
                     pe_t_stage := fp_now_ms ev\<rparr>,
               fp_sendto (fillp_encode_conn_confirm (FILLP_HLEN + FILLP_CONN_CONFIRM_LEN) tag
                 cookie (en_local_addr e)))) })"

definition fp_handle_conn_confirm ::
  "(bytes \<Rightarrow> bytes \<Rightarrow> bytes) \<Rightarrow> fp_env \<Rightarrow> fp_engine \<Rightarrow> fp_peer \<Rightarrow> bytes
   \<Rightarrow> (fp_peer \<times> fp_out list) option" where
  "fp_handle_conn_confirm hmac ev e p buf =
     (if pe_is_client p then Some (p, [])
      else if pe_state p \<noteq> FP_ST_PENDING \<and> pe_state p \<noteq> FP_ST_ESTABLISHED then Some (p, [])
      else do {
        r \<leftarrow> fillp_decode_conn_confirm buf;
        (case r of
           None \<Rightarrow> Some (p, [])
         | Some (tag, cookie, laddr) \<Rightarrow>
             if \<not> fillp_cookie_verify hmac cookie (en_mac_key e) (en_local_addr e)
             then Some (fp_peer_request_close ev p)
             else
               let ack = fp_sendto (fillp_encode_conn_confirm_ack
                     (FILLP_HLEN + FILLP_CONN_CONFIRM_ACK_LEN) (of_nat FP_SEND_CACHE)
                     (of_nat FP_RECV_CACHE) (of_nat FP_PKT_DATA_MAX) (en_local_addr e))
               in if pe_state p = FP_ST_PENDING then
                    (case fp_peer_established ev p of (p', o') \<Rightarrow> Some (p', ack @ o'))
                  else Some (p, ack)) })"

definition fp_handle_conn_confirm_ack ::
  "fp_env \<Rightarrow> fp_peer \<Rightarrow> bytes \<Rightarrow> (fp_peer \<times> fp_out list) option" where
  "fp_handle_conn_confirm_ack ev p buf =
     (if pe_state p \<noteq> FP_ST_PENDING \<or> \<not> pe_is_client p then Some (p, [])
      else do {
        r \<leftarrow> fillp_decode_conn_confirm_ack buf;
        Some (case r of None \<Rightarrow> (p, []) | Some _ \<Rightarrow> fp_peer_established ev p) })"


section \<open>Data plane\<close>

definition fp_send_pack :: "fp_env \<Rightarrow> fp_peer \<Rightarrow> fp_peer \<times> fp_out list" where
  "fp_send_pack ev p =
     (p\<lparr>pe_delivered_since_pack := 0, pe_t_last_pack := fp_now_ms ev\<rparr>,
      fp_sendto (fillp_encode_pack (FILLP_HLEN + FILLP_PACK_LEN) (pe_recv_seq_num p)
        (pe_recv_pkt_num p) (pe_recv_seq_num p) (ucast (pe_ofo_bytes p))))"

definition fp_maybe_pack :: "fp_env \<Rightarrow> fp_peer \<Rightarrow> fp_peer \<times> fp_out list" where
  "fp_maybe_pack ev p =
     (if pe_delivered_since_pack p = 0 then (p, [])
      else if pe_delivered_since_pack p < FP_PACK_FLUSH_BYTES
              \<and> fp_now_ms ev - pe_t_last_pack p < FP_PACK_INTERVAL_MS then (p, [])
      else fp_send_pack ev p)"

definition fp_maybe_nack :: "fp_env \<Rightarrow> fp_peer \<Rightarrow> fp_peer \<times> fp_out list" where
  "fp_maybe_nack ev p =
     (if fp_now_ms ev - pe_t_last_nack p < FP_NACK_INTERVAL_MS then (p, [])
      else (p\<lparr>pe_t_last_nack := fp_now_ms ev\<rparr>,
        fp_sendto (fillp_encode_nack (FILLP_HLEN + FILLP_NACK_LEN) FP_PKT_NACK (pe_recv_pkt_num p)
          (pe_recv_pkt_num p + 2) (pe_recv_seq_num p)
          (push_bit 32 (ucast (ev_r1 ev)) OR ucast (ev_r2 ev)))))"

text \<open>
  The flush of buffered packets that are now in order.  The loop removes the entry it found, so the
  number of entries decreases; there are finitely many 32-bit keys.
\<close>

function fp_flush_ofo :: "fp_peer \<Rightarrow> fp_peer \<times> fp_out list" where
  "fp_flush_ofo p =
     (case pe_ofo p (pe_recv_pkt_num p + 1) of
        None \<Rightarrow> (p, [])
      | Some nxt \<Rightarrow>
          (case fp_flush_ofo (p\<lparr>pe_ofo := (pe_ofo p)(pe_recv_pkt_num p + 1 := None),
                 pe_recv_pkt_num := pk_num nxt, pe_recv_seq_num := pk_seq nxt,
                 pe_delivered_since_pack := pe_delivered_since_pack p + ucast (pk_len nxt),
                 pe_ofo_bytes := pe_ofo_bytes p - ucast (pk_len nxt)\<rparr>) of
             (p', o') \<Rightarrow> (p', FpDeliver (pk_data nxt) # o')))"
  by pat_completeness auto
termination
proof (relation "measure (\<lambda>p. card (dom (pe_ofo p)))")
  fix p :: fp_peer and nxt
  assume "pe_ofo p (pe_recv_pkt_num p + 1) = Some nxt"
  then have "card (dom (pe_ofo p) - {pe_recv_pkt_num p + 1}) < card (dom (pe_ofo p))"
    by (intro card_Diff1_less) auto
  then show "(p\<lparr>pe_ofo := (pe_ofo p)(pe_recv_pkt_num p + 1 := None),
       pe_recv_pkt_num := pk_num nxt, pe_recv_seq_num := pk_seq nxt,
       pe_delivered_since_pack := pe_delivered_since_pack p + ucast (pk_len nxt),
       pe_ofo_bytes := pe_ofo_bytes p - ucast (pk_len nxt)\<rparr>, p)
      \<in> measure (\<lambda>p. card (dom (pe_ofo p)))"
    by simp
qed simp

declare fp_flush_ofo.simps [simp del]

definition fp_on_data :: "fp_env \<Rightarrow> fp_peer \<Rightarrow> bytes \<Rightarrow> (fp_peer \<times> fp_out list) option" where
  "fp_on_data ev p buf = do {
     h \<leftarrow> fillp_decode_head buf;
     (case h of
        None \<Rightarrow> Some (p, [])
      | Some h \<Rightarrow>
          let data_len = fh_data_len h; pkt_num = fh_pkt_num h; seq_num = fh_seq_num h in
          if length buf < FILLP_HLEN + unat data_len then Some (p, [])
          else if unat data_len > FP_PKT_DATA_MAX then Some (p, [])
          else if \<not> fp_num_isbigger pkt_num (pe_recv_pkt_num p) then
            Some (if fp_now_ms ev - pe_t_last_pack p \<ge> FP_NACK_INTERVAL_MS
                  then fp_send_pack ev p else (p, []))
          else do {
            payload \<leftarrow> get_bytes buf FILLP_HLEN (unat data_len);
            Some (
              if pkt_num = pe_recv_pkt_num p + 1 then
                (case fp_flush_ofo (p\<lparr>pe_recv_pkt_num := pkt_num, pe_recv_seq_num := seq_num,
                     pe_delivered_since_pack := pe_delivered_since_pack p + ucast data_len\<rparr>) of
                   (p1, o1) \<Rightarrow>
                     (case fp_maybe_pack ev p1 of
                        (p2, o2) \<Rightarrow> (p2, FpDeliver payload # o1 @ o2)))
              else
                fp_maybe_nack ev
                  (if pe_ofo_bytes p + ucast data_len \<le> FP_OFO_MAX_BYTES then
                     p\<lparr>pe_ofo := (pe_ofo p)(pkt_num \<mapsto> \<lparr>pk_num = pkt_num, pk_seq = seq_num,
                         pk_len = data_len, pk_t_sent = 0, pk_data = payload\<rparr>),
                       pe_ofo_bytes := pe_ofo_bytes p + ucast data_len\<rparr>
                   else p)) }) }"

text \<open>One DATA datagram, as the three places that send one build it.\<close>

definition fp_data_dgram :: "fp_pkt \<Rightarrow> bytes" where
  "fp_data_dgram pk =
     fillp_encode_head FP_PKT_DATA 0 (pk_len pk) (pk_num pk) (pk_seq pk) @ pk_data pk"

fun fp_retransmit :: "fp_env \<Rightarrow> u32 \<Rightarrow> u32 \<Rightarrow> fp_pkt list \<Rightarrow> fp_pkt list \<times> fp_out list" where
  "fp_retransmit ev begin_pkt end_pkt [] = ([], [])"
| "fp_retransmit ev begin_pkt end_pkt (pk # pks) =
     (case fp_retransmit ev begin_pkt end_pkt pks of
        (pks', o') \<Rightarrow>
          if fp_num_isbigger (pk_num pk) begin_pkt \<and> fp_num_isbigger end_pkt (pk_num pk)
          then (pk\<lparr>pk_t_sent := fp_now_ms ev\<rparr> # pks', FpSend (fp_data_dgram pk) # o')
          else (pk # pks', o'))"

definition fp_on_nack :: "fp_env \<Rightarrow> fp_peer \<Rightarrow> bytes \<Rightarrow> (fp_peer \<times> fp_out list) option" where
  "fp_on_nack ev p buf = do {
     r \<leftarrow> fillp_decode_nack buf;
     Some (case r of
        None \<Rightarrow> (p, [])
      | Some (begin_pkt, end_pkt, seq) \<Rightarrow>
          (case fp_retransmit ev begin_pkt end_pkt (pe_inflight p) of
             (l, os) \<Rightarrow> (p\<lparr>pe_inflight := l\<rparr>, os))) }"

fun fp_ack :: "u32 \<Rightarrow> fp_pkt list \<Rightarrow> u64 \<Rightarrow> fp_pkt list \<times> u64" where
  "fp_ack ack_pkt [] n = ([], n)"
| "fp_ack ack_pkt (pk # pks) n =
     (if fp_num_isbigger (pk_num pk) ack_pkt then (pk # pks, n)
      else fp_ack ack_pkt pks (n - ucast (pk_len pk)))"

definition fp_on_pack :: "fp_peer \<Rightarrow> bytes \<Rightarrow> (fp_peer \<times> fp_out list) option" where
  "fp_on_pack p buf = do {
     r \<leftarrow> fillp_decode_pack buf;
     Some (case r of
        None \<Rightarrow> (p, [])
      | Some (ack_seq, ack_pkt, lost, rl) \<Rightarrow>
          (case fp_ack ack_pkt (pe_inflight p) (pe_inflight_bytes p) of
             (l, n) \<Rightarrow> (p\<lparr>pe_inflight := l, pe_inflight_bytes := n\<rparr>, []))) }"

section \<open>Sender pump\<close>

text \<open>\<open>fillp_peer_send\<close>: dropped unless established.\<close>

definition fillp_peer_send :: "fp_peer \<Rightarrow> bytes \<Rightarrow> fp_peer" where
  "fillp_peer_send p data =
     (if length data = 0 then p
      else if pe_state p \<noteq> FP_ST_ESTABLISHED then p
      else p\<lparr>pe_txq := pe_txq p @ data\<rparr>)"

text \<open>
  Step 1: the application's provider.  \<open>fill\<close> is what one call of it does: the bytes it passes to
  \<open>fillp_peer_send\<close>, and whether it returns a negative number.
\<close>

definition fp_pump_fill :: "bytes \<times> bool \<Rightarrow> fp_peer \<Rightarrow> fp_peer" where
  "fp_pump_fill fill p =
     (if pe_has_fill p \<and> \<not> pe_fill_done p \<and> length (pe_txq p) < FP_TXQ_WATERMARK then
        (let p' = fillp_peer_send p (fst fill) in
         if snd fill then p'\<lparr>pe_fill_done := True\<rparr> else p')
      else p)"

definition fp_pump_stall :: "u64 \<Rightarrow> fp_peer \<Rightarrow> fp_peer \<times> fp_out list" where
  "fp_pump_stall now p =
     (case pe_inflight p of
        [] \<Rightarrow> (p, [])
      | oldest # rest \<Rightarrow>
          if now - pk_t_sent oldest \<ge> FP_STALL_TIMEOUT_MS then
            (p\<lparr>pe_inflight := oldest\<lparr>pk_t_sent := now\<rparr> # rest\<rparr>, [FpSend (fp_data_dgram oldest)])
          else (p, []))"

fun fp_packetize :: "nat \<Rightarrow> u64 \<Rightarrow> fp_peer \<Rightarrow> fp_peer \<times> fp_out list" where
  "fp_packetize 0 now p = (p, [])"
| "fp_packetize (Suc budget) now p =
     (if length (pe_txq p) > 0 \<and> pe_inflight_bytes p < of_nat FP_SEND_CACHE then
        let n = (if length (pe_txq p) > FP_PKT_DATA_MAX then FP_PKT_DATA_MAX
                 else length (pe_txq p));
            pk = \<lparr>pk_num = pe_send_pkt_num p + 1, pk_seq = pe_send_seq_num p + of_nat n,
                  pk_len = of_nat n, pk_t_sent = now, pk_data = take n (pe_txq p)\<rparr>
        in (case fp_packetize budget now (p\<lparr>pe_send_pkt_num := pk_num pk,
                 pe_send_seq_num := pk_seq pk, pe_txq := drop n (pe_txq p),
                 pe_inflight := pe_inflight p @ [pk],
                 pe_inflight_bytes := pe_inflight_bytes p + of_nat n\<rparr>) of
              (p', o') \<Rightarrow> (p', FpSend (fp_data_dgram pk) # o'))
      else (p, []))"

definition fp_pump_complete :: "fp_peer \<Rightarrow> fp_peer \<times> fp_out list" where
  "fp_pump_complete p =
     (if pe_fill_done p \<and> length (pe_txq p) = 0 \<and> pe_inflight p = [] \<and> \<not> pe_tx_notified p
      then (p\<lparr>pe_tx_notified := True\<rparr>, [FpTxComplete]) else (p, []))"

definition fp_pump_reply_fin :: "fp_peer \<Rightarrow> fp_peer \<times> fp_out list" where
  "fp_pump_reply_fin p =
     (if pe_pending_fin p \<and> pe_fill_done p \<and> length (pe_txq p) = 0 \<and> pe_inflight p = []
      then (p\<lparr>pe_pending_fin := False\<rparr>,
            fp_sendto (fillp_encode_fin (FILLP_HLEN + FILLP_FIN_LEN) 0))
      else (p, []))"

definition fp_pump :: "fp_env \<Rightarrow> bytes \<times> bool \<Rightarrow> fp_peer \<Rightarrow> fp_peer \<times> fp_out list" where
  "fp_pump ev fill p =
     (let now = fp_now_ms ev;
          p1 = fp_pump_fill fill p;
          (p2, o2) = fp_pump_stall now p1;
          (p3, o3) = fp_packetize FP_SEND_BUDGET now p2;
          (p4, o4) = fp_pump_complete p3;
          (p5, o5) = fp_maybe_pack ev p4;
          (p6, o6) = fp_pump_reply_fin p5
      in (p6, o2 @ o3 @ o4 @ o5 @ o6))"

section \<open>Datagram dispatch and tick\<close>

definition fp_on_fin :: "fp_env \<Rightarrow> fp_peer \<Rightarrow> fp_peer" where
  "fp_on_fin ev p =
     (if pe_state p = FP_ST_CLOSED then p
      else let p' = p\<lparr>pe_peer_fin := True, pe_pending_fin := True\<rparr> in
        if pe_state p \<noteq> FP_ST_CLOSING
        then p'\<lparr>pe_state := FP_ST_CLOSING, pe_t_stage := fp_now_ms ev\<rparr> else p')"

text \<open>The handlers that need a known peer.\<close>

definition fp_dispatch_peer ::
  "(bytes \<Rightarrow> bytes \<Rightarrow> bytes) \<Rightarrow> fp_env \<Rightarrow> fp_engine \<Rightarrow> u16 \<Rightarrow> fp_peer \<Rightarrow> bytes
   \<Rightarrow> (fp_peer \<times> fp_out list) option" where
  "fp_dispatch_peer hmac ev e type p buf =
     (if type = FP_PKT_CONN_REQ_ACK then fp_handle_conn_req_ack ev e p buf
      else if type = FP_PKT_CONN_CONFIRM then fp_handle_conn_confirm hmac ev e p buf
      else if type = FP_PKT_CONN_CONFIRM_ACK then fp_handle_conn_confirm_ack ev p buf
      else if type = FP_PKT_DATA then
        (if pe_state p = FP_ST_ESTABLISHED \<or> pe_state p = FP_ST_CLOSING
         then fp_on_data ev p buf else Some (p, []))
      else if type = FP_PKT_NACK then
        (if pe_state p = FP_ST_ESTABLISHED then fp_on_nack ev p buf else Some (p, []))
      else if type = FP_PKT_PACK then
        (if pe_state p = FP_ST_ESTABLISHED \<or> pe_state p = FP_ST_CLOSING
         then fp_on_pack p buf else Some (p, []))
      else if type = FP_PKT_FIN then Some (fp_on_fin ev p, [])
      else Some (p, []))"

definition fp_handle_datagram ::
  "(bytes \<Rightarrow> bytes \<Rightarrow> bytes) \<Rightarrow> fp_env \<Rightarrow> fp_engine \<Rightarrow> fp_key \<Rightarrow> bytes
   \<Rightarrow> (fp_engine \<times> fp_out list) option" where
  "fp_handle_datagram hmac ev e key buf =
     (if length buf < FILLP_HLEN then Some (e, [])
      else do {
        h \<leftarrow> fillp_decode_head buf;
        (case h of
           None \<Rightarrow> Some (e, [])
         | Some h \<Rightarrow>
             if fh_type h = FP_PKT_CONN_REQ then fp_handle_conn_req hmac ev e key buf
             else (case en_peers e key of
                     None \<Rightarrow> Some (e, [])
                   | Some p \<Rightarrow> do {
                       (p', os) \<leftarrow> fp_dispatch_peer hmac ev e (fh_type h) p buf;
                       Some (e\<lparr>en_peers := (en_peers e)(key \<mapsto> p')\<rparr>, os) })) })"

definition fp_drained :: "fp_peer \<Rightarrow> bool" where
  "fp_drained p \<longleftrightarrow> pe_peer_fin p \<and> pe_fill_done p \<and> length (pe_txq p) = 0 \<and> pe_inflight p = []
     \<and> pe_delivered_since_pack p = 0"

text \<open>One peer in a tick; the flag says that it goes on the list of peers to finalize.\<close>

definition fp_tick_peer ::
  "fp_env \<Rightarrow> bytes \<times> bool \<Rightarrow> fp_engine \<Rightarrow> fp_peer \<Rightarrow> fp_peer \<times> fp_out list \<times> bool" where
  "fp_tick_peer ev fill e p =
     (let now = fp_now_ms ev in
      if pe_state p = FP_ST_PENDING then
        (if now - pe_t_stage p \<ge> FP_HANDSHAKE_TIMEOUT_MS then
           (case fp_peer_request_close ev p of (p', os) \<Rightarrow> (p', os, False))
         else if pe_is_client p \<and> now - pe_t_hs_retrans p \<ge> FP_HS_RETRANS_MS then
           (p\<lparr>pe_t_hs_retrans := now\<rparr>,
            if pe_hs_confirm_sent p then fp_resend_conn_confirm e p else fp_resend_conn_req p,
            False)
         else (p, [], False))
      else if pe_state p = FP_ST_ESTABLISHED \<or> pe_state p = FP_ST_CLOSING then
        (case fp_pump ev fill p of
           (p', os) \<Rightarrow>
             (p', os, pe_state p' = FP_ST_CLOSING \<and>
                (fp_drained p' \<or> now - pe_t_stage p' \<ge> FP_CLOSE_TIMEOUT_MS)))
      else (p, [], False))"

definition fp_finalize_at :: "string \<Rightarrow> fp_key \<Rightarrow> fp_engine \<Rightarrow> fp_engine \<times> (fp_key \<times> fp_out) list" where
  "fp_finalize_at reason key e =
     (case en_peers e key of
        None \<Rightarrow> (e, [])
      | Some p \<Rightarrow>
          if pe_state p = FP_ST_CLOSED then (e, [])
          else (e\<lparr>en_peers := (en_peers e)(key := None)\<rparr>,
                map (Pair key) (snd (fp_peer_finalize p reason))))"


text \<open>
  The tick.  The order in which the hash table lists its values is not specified: \<open>ks\<close> is the
  snapshot, and \<open>fills\<close> says what each peer's provider does if it is asked.  Peers to finalize are
  collected by prepending.
\<close>

fun fp_tick_all ::
  "fp_env \<Rightarrow> (fp_key \<Rightarrow> bytes \<times> bool) \<Rightarrow> fp_key list \<Rightarrow> fp_engine \<Rightarrow> fp_key list
   \<Rightarrow> fp_engine \<times> (fp_key \<times> fp_out) list \<times> fp_key list" where
  "fp_tick_all ev fills [] e fin = (e, [], fin)"
| "fp_tick_all ev fills (k # ks) e fin =
     (case en_peers e k of
        None \<Rightarrow> fp_tick_all ev fills ks e fin
      | Some p \<Rightarrow>
          (case fp_tick_peer ev (fills k) e p of (p', os, f) \<Rightarrow>
             (case fp_tick_all ev fills ks (e\<lparr>en_peers := (en_peers e)(k \<mapsto> p')\<rparr>)
                     (if f then k # fin else fin) of
                (e', os', fin') \<Rightarrow> (e', map (Pair k) os @ os', fin'))))"

fun fp_finalize_all :: "fp_key list \<Rightarrow> fp_engine \<Rightarrow> fp_engine \<times> (fp_key \<times> fp_out) list" where
  "fp_finalize_all [] e = (e, [])"
| "fp_finalize_all (k # ks) e =
     (case en_peers e k of
        None \<Rightarrow> fp_finalize_all ks e
      | Some p \<Rightarrow>
          (case fp_finalize_at (if fp_drained p then ''close drained'' else ''close timeout'') k e of
             (e', os) \<Rightarrow> (case fp_finalize_all ks e' of (e'', os') \<Rightarrow> (e'', os @ os'))))"

definition fp_on_tick ::
  "fp_env \<Rightarrow> (fp_key \<Rightarrow> bytes \<times> bool) \<Rightarrow> fp_key list \<Rightarrow> fp_engine
   \<Rightarrow> fp_engine \<times> (fp_key \<times> fp_out) list" where
  "fp_on_tick ev fills ks e =
     (case fp_tick_all ev fills ks e [] of (e1, os, fin) \<Rightarrow>
        (case fp_finalize_all fin e1 of (e2, os') \<Rightarrow> (e2, os @ os')))"

section \<open>Engine\<close>

definition fillp_engine_new :: "u16 \<Rightarrow> bytes \<Rightarrow> fp_engine" where
  "fillp_engine_new port rnd =
     \<lparr>en_port = port, en_mac_key = rnd, en_local_addr = fillp_addr_fill_ipv4 port [0, 0, 0, 0],
      en_peers = Map.empty, en_closed = False\<rparr>"

text \<open>\<open>fillp_engine_connect\<close> to a parsed IPv4 address; \<open>sent\<close> says whether the first \<open>sendto\<close>
  succeeded.  \<open>None\<close> is the refusal by a closed engine.\<close>

definition fillp_engine_connect ::
  "fp_env \<Rightarrow> bool \<Rightarrow> fp_engine \<Rightarrow> fp_key \<Rightarrow> (fp_engine \<times> fp_out list) option" where
  "fillp_engine_connect ev sent e key =
     (if en_closed e then None
      else
        let p = (fp_peer_new ev (snd key) True)
              \<lparr>pe_req_preserve := FP_CLIENT_PRESERVE_US, pe_req_send_cache := of_nat FP_SEND_CACHE,
               pe_req_recv_cache := of_nat FP_RECV_CACHE, pe_req_ts := ev_us ev\<rparr>
        in if sent then Some (e\<lparr>en_peers := (en_peers e)(key \<mapsto> p)\<rparr>, fp_resend_conn_req p)
           else (case fp_peer_request_close ev p of
                   (p', os) \<Rightarrow> Some (e\<lparr>en_peers := (en_peers e)(key \<mapsto> p')\<rparr>, os)))"

text \<open>\<open>fillp_peer_close\<close>\<close>

definition fillp_peer_close :: "fp_env \<Rightarrow> fp_key \<Rightarrow> fp_engine \<Rightarrow> fp_engine \<times> fp_out list" where
  "fillp_peer_close ev key e =
     (case en_peers e key of
        None \<Rightarrow> (e, [])
      | Some p \<Rightarrow> (case fp_peer_request_close ev p of
          (p', os) \<Rightarrow> (e\<lparr>en_peers := (en_peers e)(key \<mapsto> p')\<rparr>, os)))"

fun fp_engine_shutdown_peers ::
  "string \<Rightarrow> fp_key list \<Rightarrow> fp_engine \<Rightarrow> fp_engine \<times> (fp_key \<times> fp_out) list" where
  "fp_engine_shutdown_peers reason [] e = (e, [])"
| "fp_engine_shutdown_peers reason (k # ks) e =
     (case fp_finalize_at reason k e of (e', os) \<Rightarrow>
        (case fp_engine_shutdown_peers reason ks e' of (e'', os') \<Rightarrow> (e'', os @ os')))"

text \<open>\<open>fp_engine_shutdown\<close>: once; every peer in the snapshot is finalized.\<close>

definition fp_engine_shutdown ::
  "string \<Rightarrow> fp_key list \<Rightarrow> fp_engine \<Rightarrow> fp_engine \<times> (fp_key \<times> fp_out) list" where
  "fp_engine_shutdown reason ks e =
     (if en_closed e then (e, []) else fp_engine_shutdown_peers reason ks (e\<lparr>en_closed := True\<rparr>))"

definition fillp_peer_is_established :: "fp_peer option \<Rightarrow> bool" where
  "fillp_peer_is_established p = (case p of None \<Rightarrow> False | Some p \<Rightarrow> pe_state p = FP_ST_ESTABLISHED)"

section \<open>Memory safety\<close>

lemma on_data_okay: "okay (fp_on_data ev p buf) (\<lambda>_. True)"
  unfolding fp_on_data_def Let_def
  by (auto simp: okay_rules fillp_lens split: option.splits intro!: okay_mono [OF decode_head_okay])

lemma dispatch_okay: "okay (fp_dispatch_peer hmac ev e ty p buf) (\<lambda>_. True)"
  unfolding fp_dispatch_peer_def fp_handle_conn_req_ack_def fp_handle_conn_confirm_def
    fp_handle_conn_confirm_ack_def fp_on_nack_def fp_on_pack_def Let_def
  by (auto simp: okay_rules on_data_okay split: option.splits prod.splits
      intro!: okay_mono [OF mgmt_okay(2)] okay_mono [OF mgmt_okay(3)] okay_mono [OF mgmt_okay(4)]
        okay_mono [OF nack_okay] okay_mono [OF pack_okay])

lemma handle_datagram_okay: "okay (fp_handle_datagram hmac ev e key buf) (\<lambda>_. True)"
  unfolding fp_handle_datagram_def fp_handle_conn_req_def Let_def
  by (auto simp: okay_rules split: option.splits prod.splits
      intro!: okay_mono [OF decode_head_okay] okay_mono [OF mgmt_okay(1)] okay_mono [OF dispatch_okay])


section \<open>The cases of a DATA datagram\<close>

lemma on_data_cases:
  assumes "fp_on_data ev p buf = Some (p', os)"
  obtains (ignored) "p' = p" "os = []"
    | (duplicate) "fp_send_pack ev p = (p', os)"
    | (in_order) x y z p1 o1 o2 d where
        "fp_flush_ofo (p\<lparr>pe_recv_pkt_num := x, pe_recv_seq_num := y,
           pe_delivered_since_pack := z\<rparr>) = (p1, o1)"
        "fp_maybe_pack ev p1 = (p', o2)" "os = FpDeliver d # o1 @ o2"
    | (stored) w pk l where "pk_len pk = l" "pe_ofo_bytes p + ucast l \<le> FP_OFO_MAX_BYTES"
        "fp_maybe_nack ev (p\<lparr>pe_ofo := (pe_ofo p)(w \<mapsto> pk),
           pe_ofo_bytes := pe_ofo_bytes p + ucast l\<rparr>) = (p', os)"
    | (full) "fp_maybe_nack ev p = (p', os)"
proof -
  obtain h where h: "fillp_decode_head buf = Some h" using okayD [OF decode_head_okay [of buf]] by auto
  show thesis
  proof (cases h)
    case None
    then show ?thesis using assms h ignored by (simp add: fp_on_data_def)
  next
    case (Some hd)
    let ?l = "fh_data_len hd"
    consider "length buf < FILLP_HLEN + unat ?l \<or> unat ?l > FP_PKT_DATA_MAX"
      | "\<not> fp_num_isbigger (fh_pkt_num hd) (pe_recv_pkt_num p)" "length buf \<ge> FILLP_HLEN + unat ?l"
        "unat ?l \<le> FP_PKT_DATA_MAX"
      | d where "get_bytes buf FILLP_HLEN (unat ?l) = Some d" "length buf \<ge> FILLP_HLEN + unat ?l"
        "unat ?l \<le> FP_PKT_DATA_MAX" "fp_num_isbigger (fh_pkt_num hd) (pe_recv_pkt_num p)"
      using get_in_boundsE(5) [of FILLP_HLEN "unat ?l" buf] by (metis not_less)
    then show ?thesis
    proof cases
      case 1
      then show ?thesis using assms h Some ignored by (auto simp: fp_on_data_def Let_def split: if_splits)
    next
      case 2
      then have r: "(if fp_now_ms ev - pe_t_last_pack p \<ge> FP_NACK_INTERVAL_MS
          then fp_send_pack ev p else (p, [])) = (p', os)"
        using assms h Some by (simp add: fp_on_data_def Let_def)
      show ?thesis
      proof (cases "fp_now_ms ev - pe_t_last_pack p \<ge> FP_NACK_INTERVAL_MS")
        case True
        with r show ?thesis by (intro duplicate) (simp only: if_True)
      next
        case False
        with r show ?thesis by (intro ignored) simp_all
      qed
    next
      case (3 d)
      let ?pk = "\<lparr>pk_num = fh_pkt_num hd, pk_seq = fh_seq_num hd, pk_len = ?l, pk_t_sent = 0,
        pk_data = d\<rparr>"
      show ?thesis
      proof (cases "fh_pkt_num hd = pe_recv_pkt_num p + 1")
        case True
        let ?q = "p\<lparr>pe_recv_pkt_num := fh_pkt_num hd, pe_recv_seq_num := fh_seq_num hd,
          pe_delivered_since_pack := pe_delivered_since_pack p + ucast ?l\<rparr>"
        obtain p1 o1 where f: "fp_flush_ofo ?q = (p1, o1)" by fastforce
        obtain p2 o2 where mp: "fp_maybe_pack ev p1 = (p2, o2)" by fastforce
        have "p' = p2" "os = FpDeliver d # o1 @ o2"
          using assms h Some 3 True f mp by (simp_all add: fp_on_data_def Let_def)
        with f mp show ?thesis by (intro in_order) auto
      next
        case False
        then show ?thesis
          using assms h Some 3 full stored [of ?pk ?l "fh_pkt_num hd"]
          by (simp add: fp_on_data_def Let_def split: if_splits)
      qed
    qed
  qed
qed

end
