(* ===== verification/FillpStream.thy ===== *)
theory FillpStream
  imports FillpConn "HOL-Library.Sublist"
begin

text \<open>
  What the fillp engine promises: a reliable, ordered byte stream.  The specification is a list of
  segments \<open>cs\<close>; packet number \<open>k\<close> carries \<open>cs ! (k - 1)\<close>.  The theory proves that the sender's
  records and datagrams stand for segments, that the receiver delivers a prefix of them in order
  whatever the network loses, repeats or reorders, and puts the two together.
\<close>

section \<open>Segments\<close>

definition fp_seg :: "bytes list \<Rightarrow> nat \<Rightarrow> fp_pkt" where
  "fp_seg cs k = \<lparr>pk_num = of_nat k, pk_seq = of_nat (length (concat (take k cs))),
     pk_len = of_nat (length (cs ! (k - 1))), pk_t_sent = 0, pk_data = cs ! (k - 1)\<rparr>"

definition fp_segs_ok :: "bytes list \<Rightarrow> bool" where
  "fp_segs_ok cs \<longleftrightarrow> length cs < 2 ^ 31 \<and> (\<forall>c \<in> set cs. 0 < length c \<and> length c \<le> FP_PKT_DATA_MAX)"

definition fp_untimed :: "fp_pkt \<Rightarrow> fp_pkt" where
  "fp_untimed pk = pk\<lparr>pk_t_sent := 0\<rparr>"

lemma untimed_simps [simp]:
  "pk_num (fp_untimed pk) = pk_num pk" "pk_seq (fp_untimed pk) = pk_seq pk"
  "pk_len (fp_untimed pk) = pk_len pk" "pk_data (fp_untimed pk) = pk_data pk"
  "fp_untimed (pk\<lparr>pk_t_sent := t\<rparr>) = fp_untimed pk"
  by (simp_all add: fp_untimed_def)

lemma dgram_untimed [simp]: "fp_data_dgram (fp_untimed pk) = fp_data_dgram pk"
  by (simp add: fp_data_dgram_def)

lemma seg_snoc [simp]: "1 \<le> k \<Longrightarrow> k \<le> length cs \<Longrightarrow> fp_seg (cs @ ds) k = fp_seg cs k"
  by (cases k) (simp_all add: fp_seg_def nth_append)

lemma seg_num_inj:
  assumes "of_nat k = (of_nat j :: u32)" "k < 2 ^ 32" "j < 2 ^ 32"
  shows "k = j"
proof -
  have "unat (of_nat k :: u32) = k" "unat (of_nat j :: u32) = j"
    using assms(2,3) by (intro unat_of_nat_small; simp)+
  with assms(1) show ?thesis by metis
qed

lemma isbigger_of_nat:
  "m < 2 ^ 31 \<Longrightarrow> n < 2 ^ 31 \<Longrightarrow> fp_num_isbigger (of_nat m) (of_nat n) \<longleftrightarrow> n < m"
  using isbigger_offset [of m n 0] by simp

text \<open>What the bytes on the wire may be.\<close>

definition fp_wire_type :: "bytes \<Rightarrow> u16 option" where
  "fp_wire_type w = (case fillp_decode_head w of Some (Some h) \<Rightarrow> Some (fh_type h) | _ \<Rightarrow> None)"

definition fp_data_ok :: "bytes list \<Rightarrow> bytes \<Rightarrow> bool" where
  "fp_data_ok cs w \<longleftrightarrow> fp_wire_type w = Some FP_PKT_DATA \<longrightarrow>
     (\<exists>k. 1 \<le> k \<and> k \<le> length cs \<and> w = fp_data_dgram (fp_seg cs k))"

definition fp_ack_ok :: "nat \<Rightarrow> bytes \<Rightarrow> bool" where
  "fp_ack_ok m w \<longleftrightarrow> fp_wire_type w = Some FP_PKT_PACK \<longrightarrow>
     (\<exists>j s l r. j \<le> m \<and> fillp_decode_pack w = Some (Some (s, of_nat j, l, r)))"

definition fp_sends :: "fp_out list \<Rightarrow> bytes list" where
  "fp_sends os = concat (map (\<lambda>x. case x of FpSend w \<Rightarrow> [w] | _ \<Rightarrow> []) os)"

definition fp_delivered :: "fp_out list \<Rightarrow> bytes" where
  "fp_delivered os = concat (map (\<lambda>x. case x of FpDeliver d \<Rightarrow> d | _ \<Rightarrow> []) os)"

lemma sends_simps [simp]:
  "fp_sends [] = []" "fp_sends (FpSend w # os) = w # fp_sends os"
  "fp_sends (FpEstablished # os) = fp_sends os" "fp_sends (FpDeliver d # os) = fp_sends os"
  "fp_sends (FpTxComplete # os) = fp_sends os" "fp_sends (FpClosed r # os) = fp_sends os"
  "fp_sends (os @ os') = fp_sends os @ fp_sends os'"
  by (simp_all add: fp_sends_def)

lemma delivered_simps [simp]:
  "fp_delivered [] = []" "fp_delivered (FpSend w # os) = fp_delivered os"
  "fp_delivered (FpEstablished # os) = fp_delivered os"
  "fp_delivered (FpDeliver d # os) = d @ fp_delivered os"
  "fp_delivered (FpTxComplete # os) = fp_delivered os"
  "fp_delivered (FpClosed r # os) = fp_delivered os"
  "fp_delivered (os @ os') = fp_delivered os @ fp_delivered os'"
  by (simp_all add: fp_delivered_def)

lemma data_ok_mono: "fp_data_ok cs w \<Longrightarrow> fp_data_ok (cs @ ds) w"
  unfolding fp_data_ok_def by (metis length_append seg_snoc trans_le_add1)

lemma ack_ok_mono: "fp_ack_ok m w \<Longrightarrow> m \<le> m' \<Longrightarrow> fp_ack_ok m' w"
  unfolding fp_ack_ok_def by (meson le_trans)

lemma wire_type_head [simp]:
  "fp_wire_type (fillp_encode_head t e d p s @ r) = Some (t AND 0xf)"
  "fp_wire_type (fillp_encode_head t e d p s) = Some (t AND 0xf)"
  by (simp_all add: fp_wire_type_def decode_encode_head decode_encode_head_Nil)

lemma wire_type_dgram [simp]: "fp_wire_type (fp_data_dgram pk) = Some FP_PKT_DATA"
  by (simp add: fp_data_dgram_def FP_PKT_DATA_def)

text \<open>The other datagrams the engine sends are neither DATA nor, the acknowledgement apart, PACK.\<close>

lemma sendto_types:
  "w \<in> set (fp_sends (fp_sendto (fillp_encode_fin c f))) \<Longrightarrow> fp_wire_type w = Some FP_PKT_FIN"
  "w \<in> set (fp_sends (fp_sendto (fillp_encode_conn_req_ack c t ck ts))) \<Longrightarrow>
     fp_wire_type w = Some FP_PKT_CONN_REQ_ACK"
  "w \<in> set (fp_sends (fp_sendto (fillp_encode_conn_req c pr sc rc ts))) \<Longrightarrow>
     fp_wire_type w = Some FP_PKT_CONN_REQ"
  "w \<in> set (fp_sends (fp_sendto (fillp_encode_conn_confirm c t ck la))) \<Longrightarrow>
     fp_wire_type w = Some FP_PKT_CONN_CONFIRM"
  "w \<in> set (fp_sends (fp_sendto (fillp_encode_conn_confirm_ack c sc rc ps la))) \<Longrightarrow>
     fp_wire_type w = Some FP_PKT_CONN_CONFIRM_ACK"
  "w \<in> set (fp_sends (fp_sendto (fillp_encode_nack c FP_PKT_NACK b en s rnd))) \<Longrightarrow>
     fp_wire_type w = Some FP_PKT_NACK"
  "w \<in> set (fp_sends (fp_sendto (fillp_encode_pack c s p l r))) \<Longrightarrow>
     fp_wire_type w = Some FP_PKT_PACK \<and> fillp_decode_pack w = Some (Some (s, p, l, r))"
  by (auto simp: fp_sendto_def fillp_mgmt_defs fp_pkt_types pack_rt split: option.splits if_splits)
    (auto simp: fillp_lens codec decode_encode_head)

lemma sendto_no_delivery [simp]: "fp_delivered (fp_sendto d) = []"
  by (simp add: fp_sendto_def split: option.splits)

section \<open>The receiver\<close>

definition fp_rx_inv :: "bytes list \<Rightarrow> nat \<Rightarrow> fp_peer \<Rightarrow> bool" where
  "fp_rx_inv cs m p \<longleftrightarrow> m \<le> length cs \<and> pe_recv_pkt_num p = of_nat m \<and>
     (\<forall>w pk. pe_ofo p w = Some pk \<longrightarrow> (\<exists>k. 1 \<le> k \<and> k \<le> length cs \<and> w = of_nat k \<and> pk = fp_seg cs k))"

lemma rx_inv_mono: "fp_rx_inv cs m p \<Longrightarrow> fp_rx_inv (cs @ ds) m p"
  unfolding fp_rx_inv_def by (metis length_append seg_snoc trans_le_add1)

lemma rx_inv_cong:
  "pe_recv_pkt_num p' = pe_recv_pkt_num p \<Longrightarrow> pe_ofo p' = pe_ofo p \<Longrightarrow>
   fp_rx_inv cs m p' = fp_rx_inv cs m p"
  by (simp add: fp_rx_inv_def)

lemma flush_rx:
  assumes "fp_segs_ok cs" "fp_rx_inv cs m p"
  shows "\<exists>m' p' os. fp_flush_ofo p = (p', os) \<and> m \<le> m' \<and> fp_rx_inv cs m' p' \<and> fp_sends os = [] \<and>
     fp_delivered os = concat (drop m (take m' cs))"
  using assms
proof (induction p arbitrary: m rule: fp_flush_ofo.induct)
  case (1 p)
  show ?case
  proof (cases "pe_ofo p (pe_recv_pkt_num p + 1)")
    case None
    then show ?thesis using 1(3) by (intro exI [of _ m]) (simp add: fp_flush_ofo.simps [of p])
  next
    case (Some nxt)
    have len: "length cs < 2 ^ 31" using 1(2) by (simp add: fp_segs_ok_def)
    have m: "m \<le> length cs" "pe_recv_pkt_num p + 1 = of_nat (Suc m)"
      using 1(3) by (auto simp: fp_rx_inv_def)
    obtain k where k: "1 \<le> k" "k \<le> length cs" "of_nat (Suc m) = (of_nat k :: u32)" "nxt = fp_seg cs k"
      using 1(3) Some m(2) unfolding fp_rx_inv_def by metis
    have "k = Suc m" using seg_num_inj [OF k(3)] k(2) m(1) len by simp
    with k have nxt: "nxt = fp_seg cs (Suc m)" "Suc m \<le> length cs" by auto
    let ?p = "p\<lparr>pe_ofo := (pe_ofo p)(pe_recv_pkt_num p + 1 := None),
       pe_recv_pkt_num := pk_num nxt, pe_recv_seq_num := pk_seq nxt,
       pe_delivered_since_pack := pe_delivered_since_pack p + ucast (pk_len nxt),
       pe_ofo_bytes := pe_ofo_bytes p - ucast (pk_len nxt)\<rparr>"
    have "fp_rx_inv cs (Suc m) ?p"
      using 1(3) nxt by (auto simp: fp_rx_inv_def fp_seg_def split: if_splits)
    from 1(1) [OF Some 1(2) this] obtain m' p' os where IH:
      "fp_flush_ofo ?p = (p', os)" "Suc m \<le> m'" "fp_rx_inv cs m' p'" "fp_sends os = []"
      "fp_delivered os = concat (drop (Suc m) (take m' cs))" by blast
    have "cs ! m # drop (Suc m) (take m' cs) = drop m (take m' cs)"
      using IH(2) nxt(2) by (simp add: Cons_nth_drop_Suc [symmetric])
    then have "cs ! m @ fp_delivered os = concat (drop m (take m' cs))"
      using IH(5) by (metis concat.simps(2))
    then show ?thesis
      using IH Some nxt
      by (intro exI [of _ m'] exI [of _ p'] exI [of _ "FpDeliver (pk_data nxt) # os"])
        (simp add: fp_flush_ofo.simps [of p] fp_seg_def)
  qed
qed


lemma maybe_pack_rx:
  assumes "fp_maybe_pack ev p = (p', os)"
  shows "pe_recv_pkt_num p' = pe_recv_pkt_num p \<and> pe_ofo p' = pe_ofo p \<and> fp_delivered os = [] \<and>
     (\<forall>w \<in> set (fp_sends os). fp_wire_type w = Some FP_PKT_PACK \<and>
       (\<exists>s l r. fillp_decode_pack w = Some (Some (s, pe_recv_pkt_num p, l, r))))"
  using assms
  by (auto simp: fp_maybe_pack_def fp_send_pack_def dest: sendto_types(7) split: if_splits)

lemma send_pack_rx:
  assumes "fp_send_pack ev p = (p', os)"
  shows "pe_recv_pkt_num p' = pe_recv_pkt_num p \<and> pe_ofo p' = pe_ofo p \<and> fp_delivered os = [] \<and>
     (\<forall>w \<in> set (fp_sends os). fp_wire_type w = Some FP_PKT_PACK \<and>
       (\<exists>s l r. fillp_decode_pack w = Some (Some (s, pe_recv_pkt_num p, l, r))))"
  using assms by (auto simp: fp_send_pack_def dest: sendto_types(7))

lemma maybe_nack_rx:
  assumes "fp_maybe_nack ev p = (p', os)"
  shows "pe_recv_pkt_num p' = pe_recv_pkt_num p \<and> pe_ofo p' = pe_ofo p \<and> fp_delivered os = [] \<and>
     (\<forall>w \<in> set (fp_sends os). fp_wire_type w = Some FP_PKT_NACK)"
  using assms
  by (auto simp: fp_maybe_nack_def dest: sendto_types(6) split: if_splits)

lemma seg_dgram:
  assumes "fp_segs_ok cs" "1 \<le> k" "k \<le> length cs"
  shows "fillp_decode_head (fp_data_dgram (fp_seg cs k)) = Some (Some
      \<lparr>fh_type = FP_PKT_DATA, fh_flags = 0, fh_data_len = of_nat (length (cs ! (k - 1))),
       fh_pkt_num = of_nat k, fh_seq_num = pk_seq (fp_seg cs k)\<rparr>)"
    and "unat (of_nat (length (cs ! (k - 1))) :: u16) = length (cs ! (k - 1))"
    and "length (cs ! (k - 1)) \<le> FP_PKT_DATA_MAX"
    and "length (fp_data_dgram (fp_seg cs k)) = FILLP_HLEN + length (cs ! (k - 1))"
    and "get_bytes (fp_data_dgram (fp_seg cs k)) FILLP_HLEN (length (cs ! (k - 1))) = Some (cs ! (k - 1))"
proof -
  have "cs ! (k - 1) \<in> set cs" using assms(2,3) by (intro nth_mem) linarith
  then show l: "length (cs ! (k - 1)) \<le> FP_PKT_DATA_MAX" using assms(1) by (auto simp: fp_segs_ok_def)
  show "unat (of_nat (length (cs ! (k - 1))) :: u16) = length (cs ! (k - 1))"
    using l by (intro unat_of_nat_small) (simp add: FP_PKT_DATA_MAX_def)
qed (simp_all add: fp_data_dgram_def fp_seg_def decode_encode_head FP_PKT_DATA_def fillp_lens codec)

text \<open>One DATA datagram: the receiver stays on the stream and delivers what follows in it.\<close>

lemma on_data_rx:
  assumes "fp_segs_ok cs" "fp_rx_inv cs m p" "1 \<le> k" "k \<le> length cs"
  shows "\<exists>m' p' os. fp_on_data ev p (fp_data_dgram (fp_seg cs k)) = Some (p', os) \<and> m \<le> m' \<and>
     fp_rx_inv cs m' p' \<and> fp_delivered os = concat (drop m (take m' cs)) \<and>
     (\<forall>w \<in> set (fp_sends os). fp_data_ok cs w \<and> fp_ack_ok m' w)"
proof -
  let ?w = "fp_data_dgram (fp_seg cs k)"
  have len: "length cs < 2 ^ 31" using assms(1) by (simp add: fp_segs_ok_def)
  have recv: "pe_recv_pkt_num p = of_nat m" "m \<le> length cs"
    using assms(2) by (auto simp: fp_rx_inv_def)
  note seg = seg_dgram [OF assms(1,3,4)]
  have ahead: "fp_num_isbigger (of_nat k) (pe_recv_pkt_num p) \<longleftrightarrow> m < k"
    unfolding recv(1) using len recv(2) assms(4) by (intro isbigger_of_nat) auto
  have inorder: "of_nat k = pe_recv_pkt_num p + 1 \<longleftrightarrow> k = Suc m"
    using recv len assms(4) seg_num_inj [of k "Suc m"] by auto
  consider (dup) "k \<le> m" | (nxt) "k = Suc m" | (gap) "Suc m < k" by linarith
  then show ?thesis
  proof cases
    case dup
    let ?r = "if fp_now_ms ev - pe_t_last_pack p \<ge> FP_NACK_INTERVAL_MS
                  then fp_send_pack ev p else (p, [])"
    obtain p' os where r: "?r = (p', os)" by fastforce
    have "fp_on_data ev p ?w = Some (p', os)"
      using dup ahead seg r by (simp add: fp_on_data_def)
    moreover have "fp_rx_inv cs m p' \<and> fp_delivered os = [] \<and>
        (\<forall>w \<in> set (fp_sends os). fp_data_ok cs w \<and> fp_ack_ok m w)"
      using r send_pack_rx [of ev p p' os] assms(2) recv(1) rx_inv_cong [of p' p]
      by (auto simp: fp_data_ok_def fp_ack_ok_def fp_pkt_types split: if_splits)
    ultimately show ?thesis by (intro exI [of _ m] exI) auto
  next
    case nxt
    let ?p = "p\<lparr>pe_recv_pkt_num := of_nat k, pe_recv_seq_num := pk_seq (fp_seg cs k),
       pe_delivered_since_pack := pe_delivered_since_pack p + ucast (of_nat (length (cs ! (k - 1))) :: u16)\<rparr>"
    have "fp_rx_inv cs (Suc m) ?p" using assms(2,4) nxt by (simp add: fp_rx_inv_def)
    from flush_rx [OF assms(1) this] obtain m' p1 o1 where f: "fp_flush_ofo ?p = (p1, o1)"
      "Suc m \<le> m'" "fp_rx_inv cs m' p1" "fp_sends o1 = []"
      "fp_delivered o1 = concat (drop (Suc m) (take m' cs))" by blast
    obtain p2 o2 where mp: "fp_maybe_pack ev p1 = (p2, o2)" by fastforce
    have "fp_on_data ev p ?w = Some (p2, FpDeliver (cs ! (k - 1)) # o1 @ o2)"
      using nxt ahead inorder seg f(1) mp by (simp add: fp_on_data_def)
    moreover have "fp_rx_inv cs m' p2" "fp_delivered o2 = []"
      "\<forall>w \<in> set (fp_sends o2). fp_data_ok cs w \<and> fp_ack_ok m' w"
      using maybe_pack_rx [OF mp] f(3) rx_inv_cong [of p2 p1]
      by (auto simp: fp_data_ok_def fp_ack_ok_def fp_pkt_types fp_rx_inv_def)
    moreover have "cs ! (k - 1) @ fp_delivered o1 = concat (drop m (take m' cs))"
    proof -
      have "cs ! m # drop (Suc m) (take m' cs) = drop m (take m' cs)"
        using f(2) nxt assms(4) by (simp add: Cons_nth_drop_Suc [symmetric])
      then show ?thesis using f(5) nxt by (metis concat.simps(2) diff_Suc_1)
    qed
    ultimately show ?thesis
      using f(2,4)
      by (intro exI [of _ m'] exI [of _ p2] exI [of _ "FpDeliver (cs ! (k - 1)) # o1 @ o2"]) simp
  next
    case gap
    let ?p = "if pe_ofo_bytes p + ucast (of_nat (length (cs ! (k - 1))) :: u16) \<le> FP_OFO_MAX_BYTES
      then p\<lparr>pe_ofo := (pe_ofo p)(of_nat k \<mapsto> fp_seg cs k),
             pe_ofo_bytes := pe_ofo_bytes p + ucast (of_nat (length (cs ! (k - 1))) :: u16)\<rparr>
      else p"
    have seg_rec: "\<lparr>pk_num = of_nat k, pk_seq = pk_seq (fp_seg cs k),
       pk_len = of_nat (length (cs ! (k - 1))), pk_t_sent = 0, pk_data = cs ! (k - 1)\<rparr> = fp_seg cs k"
      by (simp add: fp_seg_def)
    obtain p' os where mn: "fp_maybe_nack ev ?p = (p', os)" by fastforce
    have "fp_on_data ev p ?w = Some (p', os)"
      using gap ahead inorder seg mn seg_rec
      by (simp add: fp_on_data_def Let_def split: if_splits)
    moreover have "fp_rx_inv cs m ?p" using assms(2-4) by (auto simp: fp_rx_inv_def)
    moreover have "\<forall>w \<in> set (fp_sends os). fp_data_ok cs w \<and> fp_ack_ok m w" "fp_delivered os = []"
      using maybe_nack_rx [OF mn] by (auto simp: fp_data_ok_def fp_ack_ok_def fp_pkt_types)
    ultimately show ?thesis
      using maybe_nack_rx [OF mn] rx_inv_cong [of p' ?p] by (intro exI [of _ m] exI) auto
  qed
qed


section \<open>The sender\<close>

definition fp_tx_inv :: "bytes list \<Rightarrow> nat \<Rightarrow> fp_peer \<Rightarrow> bool" where
  "fp_tx_inv cs a p \<longleftrightarrow> (\<forall>c \<in> set cs. 0 < length c \<and> length c \<le> FP_PKT_DATA_MAX) \<and>
     a \<le> length cs \<and> pe_send_pkt_num p = of_nat (length cs) \<and>
     pe_send_seq_num p = of_nat (length (concat cs)) \<and>
     map fp_untimed (pe_inflight p) = map (fp_seg cs) [Suc a..<Suc (length cs)] \<and>
     pe_inflight_bytes p = of_nat (length (concat (drop a cs)))"

lemma tx_inv_cong:
  "pe_send_pkt_num p' = pe_send_pkt_num p \<Longrightarrow> pe_send_seq_num p' = pe_send_seq_num p \<Longrightarrow>
   map fp_untimed (pe_inflight p') = map fp_untimed (pe_inflight p) \<Longrightarrow>
   pe_inflight_bytes p' = pe_inflight_bytes p \<Longrightarrow> fp_tx_inv cs a p' = fp_tx_inv cs a p"
  by (simp add: fp_tx_inv_def)

text \<open>A record in flight is a segment, so sending it again is sending that segment.\<close>

lemma inflight_seg:
  assumes "fp_tx_inv cs a p" "pk \<in> set (pe_inflight p)"
  shows "fp_data_ok cs (fp_data_dgram pk)"
proof -
  have "fp_untimed pk \<in> set (map (fp_seg cs) [Suc a..<Suc (length cs)])"
    using assms by (metis fp_tx_inv_def image_eqI set_map)
  then obtain k where "k \<in> set [Suc a..<Suc (length cs)]" "fp_untimed pk = fp_seg cs k"
    by (metis image_iff set_map)
  then have "1 \<le> k" "k \<le> length cs" "fp_untimed pk = fp_seg cs k" by (simp_all only: set_upt) auto
  then show ?thesis unfolding fp_data_ok_def by (metis dgram_untimed)
qed

lemma retransmit_tx:
  assumes "fp_retransmit ev b en l = (l', os)"
  shows "map fp_untimed l' = map fp_untimed l \<and> fp_delivered os = [] \<and>
     set (fp_sends os) \<subseteq> fp_data_dgram ` set l"
  using assms
  by (induction l arbitrary: l' os) (auto split: prod.splits if_splits)

lemma stall_tx:
  assumes "fp_pump_stall now p = (p', os)" "fp_tx_inv cs a p"
  shows "fp_tx_inv cs a p' \<and> fp_delivered os = [] \<and> (\<forall>w \<in> set (fp_sends os). fp_data_ok cs w) \<and>
     pe_txq p' = pe_txq p \<and> pe_recv_pkt_num p' = pe_recv_pkt_num p \<and> pe_ofo p' = pe_ofo p"
  using assms inflight_seg [OF assms(2)]
  by (auto simp: fp_pump_stall_def fp_tx_inv_def split: list.splits if_splits)

text \<open>Packetizing extends the segments by what it takes off the queue.\<close>

lemma packetize_tx:
  assumes "fp_packetize b now p = (p', os)" "fp_tx_inv cs a p"
  shows "\<exists>ds. fp_tx_inv (cs @ ds) a p' \<and> concat ds @ pe_txq p' = pe_txq p \<and> length ds \<le> b \<and>
     fp_delivered os = [] \<and> (\<forall>w \<in> set (fp_sends os). fp_data_ok (cs @ ds) w) \<and>
     pe_recv_pkt_num p' = pe_recv_pkt_num p \<and> pe_ofo p' = pe_ofo p"
  using assms
proof (induction b now p arbitrary: p' os cs rule: fp_packetize.induct)
  case (1 now p)
  then show ?case by (intro exI [of _ "[]"]) simp
next
  case (2 b now p)
  show ?case
  proof (cases "length (pe_txq p) > 0 \<and> pe_inflight_bytes p < of_nat FP_SEND_CACHE")
    case False
    then show ?thesis using 2(2,3) by (intro exI [of _ "[]"]) auto
  next
    case True
    let ?n = "if length (pe_txq p) > FP_PKT_DATA_MAX then FP_PKT_DATA_MAX else length (pe_txq p)"
    let ?c = "take ?n (pe_txq p)"
    let ?pk = "\<lparr>pk_num = pe_send_pkt_num p + 1, pk_seq = pe_send_seq_num p + of_nat ?n,
                  pk_len = of_nat ?n, pk_t_sent = now, pk_data = ?c\<rparr>"
    let ?p = "p\<lparr>pe_send_pkt_num := pk_num ?pk, pe_send_seq_num := pk_seq ?pk,
       pe_txq := drop ?n (pe_txq p), pe_inflight := pe_inflight p @ [?pk],
       pe_inflight_bytes := pe_inflight_bytes p + of_nat ?n\<rparr>"
    have n: "0 < ?n" "?n \<le> FP_PKT_DATA_MAX" "length ?c = ?n"
      using True by (auto simp: FP_PKT_DATA_MAX_def)
    have pk: "fp_untimed ?pk = fp_seg (cs @ [?c]) (Suc (length cs))"
      using 2(3) n(3) by (simp add: fp_untimed_def fp_seg_def fp_tx_inv_def del: length_take)
    have segs: "map (fp_seg (cs @ [?c])) [Suc a..<Suc (length cs)] = map (fp_seg cs) [Suc a..<Suc (length cs)]"
      by (rule map_cong) auto
    have inv: "fp_tx_inv (cs @ [?c]) a ?p"
      using 2(3) n pk segs by (auto simp: fp_tx_inv_def simp del: length_take)
    obtain p1 o1 where rec: "fp_packetize b now ?p = (p1, o1)" by fastforce
    have out: "p' = p1" "os = FpSend (fp_data_dgram ?pk) # o1"
      using 2(2) True rec by (simp_all add: Let_def)
    obtain ds where ds: "fp_tx_inv ((cs @ [?c]) @ ds) a p1" "concat ds @ pe_txq p1 = pe_txq ?p"
      "length ds \<le> b" "fp_delivered o1 = []" "\<forall>w \<in> set (fp_sends o1). fp_data_ok ((cs @ [?c]) @ ds) w"
      "pe_recv_pkt_num p1 = pe_recv_pkt_num ?p" "pe_ofo p1 = pe_ofo ?p"
      using "2.IH" [OF True refl refl _ inv] rec by auto
    have "fp_data_dgram ?pk = fp_data_dgram (fp_seg (cs @ ?c # ds) (Suc (length cs)))"
      using pk seg_snoc [of "Suc (length cs)" "cs @ [?c]" ds] by (metis append.assoc append_Cons
        append_Nil dgram_untimed le_add1 length_append_singleton plus_1_eq_Suc order_refl)
    then have "fp_data_ok (cs @ ?c # ds) (fp_data_dgram ?pk)"
      unfolding fp_data_ok_def by (intro impI exI [of _ "Suc (length cs)"]) simp
    then show ?thesis
      using ds out by (intro exI [of _ "?c # ds"]) simp
  qed
qed


text \<open>An acknowledgement frees a prefix; one for packet \<open>j\<close> frees nothing beyond \<open>j\<close>.\<close>

lemma ack_list:
  assumes "map fp_untimed l = map (fp_seg cs) [Suc a..<Suc (length cs)]" "a \<le> length cs"
    "\<forall>c \<in> set cs. length c \<le> FP_PKT_DATA_MAX"
    "fp_ack x l (of_nat (length (concat (drop a cs)))) = (l', n')" "length cs < 2 ^ 31"
  shows "\<exists>a'. a \<le> a' \<and> a' \<le> length cs \<and> (\<forall>j < 2 ^ 31. x = of_nat j \<longrightarrow> a' \<le> max a j) \<and>
     map fp_untimed l' = map (fp_seg cs) [Suc a'..<Suc (length cs)] \<and>
     n' = of_nat (length (concat (drop a' cs)))"
  using assms(1,2,4)
proof (induction l arbitrary: a)
  case Nil
  then show ?case by (intro exI [of _ a]) auto
next
  case (Cons pk l)
  have lt: "a < length cs" using Cons.prems(1) by (cases "a < length cs") auto
  then have "[Suc a..<Suc (length cs)] = Suc a # [Suc (Suc a)..<Suc (length cs)]"
    by (simp add: upt_conv_Cons)
  with Cons.prems(1) have pk: "fp_untimed pk = fp_seg cs (Suc a)"
    and l: "map fp_untimed l = map (fp_seg cs) [Suc (Suc a)..<Suc (length cs)]" by auto
  have num: "pk_num pk = of_nat (Suc a)" using arg_cong [OF pk, of pk_num] by (simp add: fp_seg_def)
  have plen: "pk_len pk = of_nat (length (cs ! a))" using arg_cong [OF pk, of pk_len] by (simp add: fp_seg_def)
  show ?case
  proof (cases "fp_num_isbigger (pk_num pk) x")
    case True
    then have l': "l' = pk # l" "n' = of_nat (length (concat (drop a cs)))"
      using Cons.prems(3) by auto
    show ?thesis
      by (intro exI [of _ a] conjI) (use Cons.prems(1,2) l' in \<open>simp_all only: order_refl max.cobounded1 simp_thms\<close>)
  next
    case False
    have "length (cs ! a) \<le> FP_PKT_DATA_MAX" using assms(3) lt by simp
    then have u: "(ucast (of_nat (length (cs ! a)) :: u16) :: u64) = of_nat (length (cs ! a))"
      by (simp add: unsigned_of_nat FP_PKT_DATA_MAX_def take_bit_nat_eq_self)
    have d: "drop a cs = cs ! a # drop (Suc a) cs" using lt by (simp add: Cons_nth_drop_Suc)
    have "fp_ack x l (of_nat (length (concat (drop (Suc a) cs)))) = (l', n')"
      using Cons.prems(3) False by (simp add: plen u d)
    from Cons.IH [OF l _ this] lt obtain a' where a': "Suc a \<le> a'" "a' \<le> length cs"
      "\<forall>j < 2 ^ 31. x = of_nat j \<longrightarrow> a' \<le> max (Suc a) j"
      "map fp_untimed l' = map (fp_seg cs) [Suc a'..<Suc (length cs)]"
      "n' = of_nat (length (concat (drop a' cs)))" by auto
    have "a' \<le> max a j" if j: "j < 2 ^ 31" "x = of_nat j" for j
    proof -
      have "\<not> j < Suc a" using False isbigger_of_nat [of "Suc a" j] j lt assms(5) num by auto
      then show ?thesis using a'(3) j by auto
    qed
    then show ?thesis using a' by (intro exI [of _ a']) auto
  qed
qed

lemma on_pack_tx:
  assumes "fp_on_pack p buf = Some (p', os)" "fp_tx_inv cs a p" "length cs < 2 ^ 31"
  shows "\<exists>a'. a \<le> a' \<and> fp_tx_inv cs a' p' \<and> os = [] \<and> pe_txq p' = pe_txq p \<and>
     pe_recv_pkt_num p' = pe_recv_pkt_num p \<and> pe_ofo p' = pe_ofo p \<and>
     (\<forall>j < 2 ^ 31. \<forall>s l r. fillp_decode_pack buf = Some (Some (s, of_nat j, l, r)) \<longrightarrow> a' \<le> max a j)"
proof -
  obtain r where r: "fillp_decode_pack buf = Some r" using okayD [OF pack_okay [of buf]] by auto
  show ?thesis
  proof (cases r)
    case None
    then show ?thesis using assms(1,2) r by (intro exI [of _ a]) (auto simp: fp_on_pack_def)
  next
    case (Some q)
    obtain s x l rl where q: "q = (s, x, l, rl)" by (metis prod_cases4)
    obtain l' n' where ack: "fp_ack x (pe_inflight p) (pe_inflight_bytes p) = (l', n')" by fastforce
    have p': "p' = p\<lparr>pe_inflight := l', pe_inflight_bytes := n'\<rparr>" "os = []"
      using assms(1) r Some q ack by (auto simp: fp_on_pack_def)
    have inv: "map fp_untimed (pe_inflight p) = map (fp_seg cs) [Suc a..<Suc (length cs)]"
      "a \<le> length cs" "\<forall>c \<in> set cs. length c \<le> FP_PKT_DATA_MAX"
      "pe_inflight_bytes p = of_nat (length (concat (drop a cs)))"
      using assms(2) by (auto simp: fp_tx_inv_def)
    obtain a' where a': "a \<le> a'" "a' \<le> length cs" "\<forall>j < 2 ^ 31. x = of_nat j \<longrightarrow> a' \<le> max a j"
      "map fp_untimed l' = map (fp_seg cs) [Suc a'..<Suc (length cs)]"
      "n' = of_nat (length (concat (drop a' cs)))"
      using ack_list [OF inv(1-3) ack [unfolded inv(4)] assms(3)] by blast
    then show ?thesis
      using p' r Some q assms(2) by (intro exI [of _ a']) (auto simp: fp_tx_inv_def)
  qed
qed

lemma on_nack_tx:
  assumes "fp_on_nack ev p buf = Some (p', os)" "fp_tx_inv cs a p"
  shows "fp_tx_inv cs a p' \<and> pe_txq p' = pe_txq p \<and> fp_delivered os = [] \<and>
     (\<forall>w \<in> set (fp_sends os). fp_data_ok cs w \<and> fp_ack_ok m w) \<and>
     pe_recv_pkt_num p' = pe_recv_pkt_num p \<and> pe_ofo p' = pe_ofo p"
proof -
  obtain r where r: "fillp_decode_nack buf = Some r" using okayD [OF nack_okay [of buf]] by auto
  show ?thesis
  proof (cases r)
    case None
    then show ?thesis using assms r by (auto simp: fp_on_nack_def)
  next
    case (Some q)
    obtain b en s where q: "q = (b, en, s)" by (metis prod_cases3)
    obtain l' os' where rt: "fp_retransmit ev b en (pe_inflight p) = (l', os')" by fastforce
    have p': "p' = p\<lparr>pe_inflight := l'\<rparr>" "os = os'"
      using assms(1) r Some q rt by (auto simp: fp_on_nack_def)
    have "\<forall>w \<in> set (fp_sends os'). fp_data_ok cs w \<and> fp_ack_ok m w"
      using retransmit_tx [OF rt] inflight_seg [OF assms(2)]
      by (auto simp: fp_ack_ok_def fp_pkt_types)
    then show ?thesis
      using p' retransmit_tx [OF rt] assms(2) tx_inv_cong [of p' p] by simp
  qed
qed

lemma pkt_distinct [simp]:
  "FP_PKT_FIN \<noteq> FP_PKT_DATA" "FP_PKT_FIN \<noteq> FP_PKT_PACK"
  "FP_PKT_CONN_REQ \<noteq> FP_PKT_DATA" "FP_PKT_CONN_REQ \<noteq> FP_PKT_PACK"
  "FP_PKT_CONN_REQ_ACK \<noteq> FP_PKT_DATA" "FP_PKT_CONN_REQ_ACK \<noteq> FP_PKT_PACK"
  "FP_PKT_CONN_CONFIRM \<noteq> FP_PKT_DATA" "FP_PKT_CONN_CONFIRM \<noteq> FP_PKT_PACK"
  "FP_PKT_CONN_CONFIRM_ACK \<noteq> FP_PKT_DATA" "FP_PKT_CONN_CONFIRM_ACK \<noteq> FP_PKT_PACK"
  "FP_PKT_NACK \<noteq> FP_PKT_DATA" "FP_PKT_NACK \<noteq> FP_PKT_PACK"
  "FP_PKT_PACK \<noteq> FP_PKT_DATA" "FP_PKT_DATA \<noteq> FP_PKT_PACK"
  by (simp_all add: fp_pkt_types)

text \<open>Handlers that leave the data plane alone.\<close>

definition fp_data_same :: "fp_peer \<Rightarrow> fp_peer \<Rightarrow> bool" where
  "fp_data_same p p' \<longleftrightarrow> pe_send_pkt_num p' = pe_send_pkt_num p \<and>
     pe_send_seq_num p' = pe_send_seq_num p \<and> pe_txq p' = pe_txq p \<and>
     pe_inflight p' = pe_inflight p \<and> pe_inflight_bytes p' = pe_inflight_bytes p \<and>
     pe_recv_pkt_num p' = pe_recv_pkt_num p \<and> pe_ofo p' = pe_ofo p \<and>
     pe_ofo_bytes p' = pe_ofo_bytes p"

definition fp_quiet :: "fp_out list \<Rightarrow> bool" where
  "fp_quiet os \<longleftrightarrow> fp_delivered os = [] \<and> FpTxComplete \<notin> set os \<and>
     (\<forall>w \<in> set (fp_sends os). \<exists>t. fp_wire_type w = Some t \<and> t \<noteq> FP_PKT_DATA \<and> t \<noteq> FP_PKT_PACK)"

lemma quiet_ok: "fp_quiet os \<Longrightarrow> w \<in> set (fp_sends os) \<Longrightarrow> fp_data_ok cs w \<and> fp_ack_ok m w"
  unfolding fp_quiet_def fp_data_ok_def fp_ack_ok_def by (metis option.inject)

lemma data_same_inv:
  assumes "fp_data_same p p'"
  shows "fp_tx_inv cs a p' = fp_tx_inv cs a p" "fp_rx_inv cs m p' = fp_rx_inv cs m p"
    "pe_txq p' = pe_txq p"
  using assms by (simp_all add: fp_data_same_def fp_tx_inv_def fp_rx_inv_def)

lemma data_same_refl [simp]: "fp_data_same p p" by (simp add: fp_data_same_def)

lemma quiet_sendto [simp]:
  "fp_quiet []"
  "fp_quiet (fp_sendto (fillp_encode_fin c f))"
  "fp_quiet (fp_sendto (fillp_encode_conn_req_ack c t ck ts))"
  "fp_quiet (fp_sendto (fillp_encode_conn_req c pr sc rc ts))"
  "fp_quiet (fp_sendto (fillp_encode_conn_confirm c t ck la))"
  "fp_quiet (fp_sendto (fillp_encode_conn_confirm_ack c sc rc' ps la))"
  "fp_quiet (fp_sendto (fillp_encode_nack c FP_PKT_NACK b en s rnd))"
  unfolding fp_quiet_def by (auto dest: sendto_types)
    (simp_all add: fp_sendto_def split: option.splits)

lemma quiet_append [simp]:
  "fp_quiet (os @ os') \<longleftrightarrow> fp_quiet os \<and> fp_quiet os'" "fp_quiet (FpEstablished # os) = fp_quiet os"
  by (auto simp: fp_quiet_def)

lemma request_close_quiet:
  "fp_peer_request_close ev p = (p', os) \<Longrightarrow> fp_data_same p p' \<and> fp_quiet os"
  by (auto simp: fp_peer_request_close_def fp_data_same_def split: if_splits)

lemma conn_req_ack_quiet:
  "fp_handle_conn_req_ack ev e p buf = Some (p', os) \<Longrightarrow> fp_data_same p p' \<and> fp_quiet os"
  by (auto simp: fp_handle_conn_req_ack_def fp_data_same_def split: if_splits option.splits
      Option.bind_splits)

lemma conn_confirm_quiet:
  "fp_handle_conn_confirm hmac ev e p buf = Some (p', os) \<Longrightarrow> fp_data_same p p' \<and> fp_quiet os"
  by (auto simp: fp_handle_conn_confirm_def fp_peer_established_def Let_def fp_data_same_def
      dest!: request_close_quiet split: if_splits option.splits Option.bind_splits)

lemma conn_confirm_ack_quiet:
  "fp_handle_conn_confirm_ack ev p buf = Some (p', os) \<Longrightarrow> fp_data_same p p' \<and> fp_quiet os"
  by (auto simp: fp_handle_conn_confirm_ack_def fp_peer_established_def fp_data_same_def
      split: if_splits option.splits Option.bind_splits)

lemma on_fin_quiet: "fp_data_same p (fp_on_fin ev p)"
  by (simp add: fp_on_fin_def fp_data_same_def Let_def)


section \<open>Whole steps\<close>

text \<open>What each step of the engine does to the receive half, whatever its send half holds.\<close>

definition fp_ack_at :: "u32 \<Rightarrow> bytes \<Rightarrow> bool" where
  "fp_ack_at n w \<longleftrightarrow> fp_wire_type w = Some FP_PKT_PACK \<longrightarrow>
     (\<exists>s l r. fillp_decode_pack w = Some (Some (s, n, l, r)))"

definition fp_rx_same :: "fp_peer \<Rightarrow> fp_peer \<Rightarrow> fp_out list \<Rightarrow> bool" where
  "fp_rx_same p p' os \<longleftrightarrow> pe_recv_pkt_num p' = pe_recv_pkt_num p \<and> pe_ofo p' = pe_ofo p \<and>
     fp_delivered os = [] \<and> (\<forall>w \<in> set (fp_sends os). fp_ack_at (pe_recv_pkt_num p) w)"

lemma ack_at_ok: "fp_ack_at (of_nat m) w \<Longrightarrow> fp_ack_ok m w"
  unfolding fp_ack_at_def fp_ack_ok_def by blast

lemma rx_same_refl [simp]: "fp_rx_same p p []" by (simp add: fp_rx_same_def)

lemma rx_same_trans:
  "fp_rx_same p q os \<Longrightarrow> fp_rx_same q r os' \<Longrightarrow> fp_rx_same p r (os @ os')"
  by (auto simp: fp_rx_same_def)

lemma rx_same_inv: "fp_rx_same p p' os \<Longrightarrow> fp_rx_inv cs m p' = fp_rx_inv cs m p"
  using rx_inv_cong [of p' p cs m] by (simp add: fp_rx_same_def)

lemma quiet_rx: "fp_data_same p p' \<Longrightarrow> fp_quiet os \<Longrightarrow> fp_rx_same p p' os"
  by (auto simp: fp_rx_same_def fp_data_same_def fp_quiet_def fp_ack_at_def)

lemma ack_at_dgram [simp]: "fp_ack_at n (fp_data_dgram pk)"
  by (simp add: fp_ack_at_def)

lemma fill_rx: "fp_rx_same p (fp_pump_fill fill p) []"
  by (simp add: fp_rx_same_def fp_pump_fill_def fillp_peer_send_def Let_def)

lemma stall_rx: "fp_pump_stall now p = (p', os) \<Longrightarrow> fp_rx_same p p' os"
  by (auto simp: fp_rx_same_def fp_pump_stall_def split: list.splits if_splits)

lemma packetize_rx: "fp_packetize b now p = (p', os) \<Longrightarrow> fp_rx_same p p' os"
proof (induction b now p arbitrary: p' os rule: fp_packetize.induct)
  case (2 b now p)
  then show ?case
    by (auto simp: fp_rx_same_def Let_def split: if_splits prod.splits)
qed (simp add: fp_rx_same_def)

lemma complete_rx: "fp_pump_complete p = (p', os) \<Longrightarrow> fp_rx_same p p' os"
  by (auto simp: fp_rx_same_def fp_pump_complete_def split: if_splits)

lemma maybe_pack_same: "fp_maybe_pack ev p = (p', os) \<Longrightarrow> fp_rx_same p p' os"
  using maybe_pack_rx [of ev p p' os] by (auto simp: fp_rx_same_def fp_ack_at_def)

lemma reply_fin_rx: "fp_pump_reply_fin p = (p', os) \<Longrightarrow> fp_rx_same p p' os"
  by (auto simp: fp_pump_reply_fin_def fp_data_same_def intro!: quiet_rx split: if_splits)

lemma pump_steps:
  assumes "fp_pump ev fill p = (p', os)"
  obtains p2 o2 p3 o3 p4 o4 p5 o5 o6 where
    "fp_pump_stall (fp_now_ms ev) (fp_pump_fill fill p) = (p2, o2)"
    "fp_packetize FP_SEND_BUDGET (fp_now_ms ev) p2 = (p3, o3)"
    "fp_pump_complete p3 = (p4, o4)" "fp_maybe_pack ev p4 = (p5, o5)"
    "fp_pump_reply_fin p5 = (p', o6)" "os = o2 @ o3 @ o4 @ o5 @ o6"
  using assms that by (auto simp: fp_pump_def Let_def split: prod.splits)

lemma pump_rx:
  assumes "fp_pump ev fill p = (p', os)"
  shows "fp_rx_same p p' os"
proof -
  obtain p2 o2 p3 o3 p4 o4 p5 o5 o6 where st:
    "fp_pump_stall (fp_now_ms ev) (fp_pump_fill fill p) = (p2, o2)"
    "fp_packetize FP_SEND_BUDGET (fp_now_ms ev) p2 = (p3, o3)"
    "fp_pump_complete p3 = (p4, o4)" "fp_maybe_pack ev p4 = (p5, o5)"
    "fp_pump_reply_fin p5 = (p', o6)" and os: "os = o2 @ o3 @ o4 @ o5 @ o6"
    by (rule pump_steps [OF assms])
  note tr = rx_same_trans
  have "fp_rx_same p p' ([] @ o2 @ o3 @ o4 @ o5 @ o6)"
    by (rule tr [OF fill_rx tr [OF stall_rx [OF st(1)] tr [OF packetize_rx [OF st(2)]
      tr [OF complete_rx [OF st(3)] tr [OF maybe_pack_same [OF st(4)] reply_fin_rx [OF st(5)]]]]]])
  then show ?thesis using os by simp
qed

lemma tick_cases:
  "fp_tick_peer ev fill e p = (p', os, f) \<Longrightarrow>
     (pe_state p = FP_ST_ESTABLISHED \<or> pe_state p = FP_ST_CLOSING) \<and> fp_pump ev fill p = (p', os) \<or>
     pe_state p \<notin> {FP_ST_ESTABLISHED, FP_ST_CLOSING} \<and> fp_data_same p p' \<and> fp_quiet os"
  by (auto simp: fp_tick_peer_def Let_def fp_resend_conn_confirm_def fp_resend_conn_req_def
      dest!: request_close_quiet split: if_splits prod.splits)
    (simp_all add: fp_data_same_def)

lemma tick_rx: "fp_tick_peer ev fill e p = (p', os, f) \<Longrightarrow> fp_rx_same p p' os"
  using tick_cases [of ev fill e p p' os f] pump_rx [of ev fill p p' os] quiet_rx [of p p' os]
  by blast

lemma on_pack_rx: "fp_on_pack p buf = Some (p', os) \<Longrightarrow> fp_rx_same p p' os"
  by (auto simp: fp_on_pack_def fp_rx_same_def split: Option.bind_splits option.splits prod.splits)

lemma on_nack_rx: "fp_on_nack ev p buf = Some (p', os) \<Longrightarrow> fp_rx_same p p' os"
  by (auto simp: fp_on_nack_def fp_rx_same_def dest!: retransmit_tx
      split: Option.bind_splits option.splits prod.splits)

text \<open>A datagram that is not DATA leaves the receive half alone.\<close>

lemma dispatch_rx:
  assumes "fp_dispatch_peer hmac ev e ty p buf = Some (p', os)" "ty \<noteq> FP_PKT_DATA"
  shows "fp_rx_same p p' os"
  using assms unfolding fp_dispatch_peer_def
  by (auto simp: quiet_rx on_fin_quiet dest: on_pack_rx on_nack_rx
      dest!: conn_req_ack_quiet conn_confirm_quiet conn_confirm_ack_quiet split: if_splits)

text \<open>What each step does to the send half.\<close>

lemma flush_tx: "fp_flush_ofo p = (p', os) \<Longrightarrow> fp_tx_inv cs a p' = fp_tx_inv cs a p \<and>
    pe_txq p' = pe_txq p \<and> fp_sends os = []"
proof (induction p arbitrary: p' os rule: fp_flush_ofo.induct)
  case (1 p)
  show ?case
  proof (cases "pe_ofo p (pe_recv_pkt_num p + 1)")
    case None
    then show ?thesis using 1(2) by (simp add: fp_flush_ofo.simps [of p])
  next
    case (Some nxt)
    let ?p = "p\<lparr>pe_ofo := (pe_ofo p)(pe_recv_pkt_num p + 1 := None),
       pe_recv_pkt_num := pk_num nxt, pe_recv_seq_num := pk_seq nxt,
       pe_delivered_since_pack := pe_delivered_since_pack p + ucast (pk_len nxt),
       pe_ofo_bytes := pe_ofo_bytes p - ucast (pk_len nxt)\<rparr>"
    obtain p1 o1 where f: "fp_flush_ofo ?p = (p1, o1)" by fastforce
    have "fp_tx_inv cs a ?p = fp_tx_inv cs a p" by (simp add: fp_tx_inv_def)
    moreover have "p' = p1" "os = FpDeliver (pk_data nxt) # o1"
      using 1(2) Some f by (simp_all add: fp_flush_ofo.simps [of p])
    ultimately show ?thesis using 1(1) [OF Some f] by simp
  qed
qed

definition fp_tx_same :: "fp_peer \<Rightarrow> fp_peer \<Rightarrow> fp_out list \<Rightarrow> bool" where
  "fp_tx_same p p' os \<longleftrightarrow> (\<forall>cs a. fp_tx_inv cs a p' = fp_tx_inv cs a p) \<and> pe_txq p' = pe_txq p \<and>
     (\<forall>w \<in> set (fp_sends os). fp_wire_type w \<noteq> Some FP_PKT_DATA)"

lemma tx_same_refl [simp]: "fp_tx_same p p []" by (simp add: fp_tx_same_def)

lemma quiet_tx: "fp_data_same p p' \<Longrightarrow> fp_quiet os \<Longrightarrow> fp_tx_same p p' os"
  by (auto simp: fp_tx_same_def data_same_inv fp_quiet_def)

lemma maybe_pack_tx: "fp_maybe_pack ev p = (p', os) \<Longrightarrow> fp_tx_same p p' os"
  using maybe_pack_rx [of ev p p' os]
  by (auto simp: fp_tx_same_def fp_maybe_pack_def fp_send_pack_def fp_tx_inv_def split: if_splits)

lemma send_pack_tx: "fp_send_pack ev p = (p', os) \<Longrightarrow> fp_tx_same p p' os"
  using send_pack_rx [of ev p p' os] by (auto simp: fp_tx_same_def fp_send_pack_def fp_tx_inv_def)

lemma maybe_nack_tx: "fp_maybe_nack ev p = (p', os) \<Longrightarrow> fp_tx_same p p' os"
  using maybe_nack_rx [of ev p p' os]
  by (auto simp: fp_tx_same_def fp_maybe_nack_def fp_tx_inv_def split: if_splits)


lemma tx_same_trans:
  "fp_tx_same p q os \<Longrightarrow> fp_tx_same q r os' \<Longrightarrow> fp_tx_same p r (os @ os')"
  by (auto simp: fp_tx_same_def)

lemma on_data_tx:
  assumes "fp_on_data ev p buf = Some (p', os)"
  shows "fp_tx_same p p' os"
proof -
  have recv: "fp_tx_same p (p\<lparr>pe_recv_pkt_num := x, pe_recv_seq_num := y,
      pe_delivered_since_pack := z\<rparr>) []" for x y z
    by (simp add: fp_tx_same_def fp_tx_inv_def)
  have ofo: "fp_tx_same p (p\<lparr>pe_ofo := x, pe_ofo_bytes := y\<rparr>) []" for x y
    by (simp add: fp_tx_same_def fp_tx_inv_def)
  have flush: "fp_flush_ofo q = (q', o') \<Longrightarrow> fp_tx_same q q' (FpDeliver d # o')" for q q' o' d
    using flush_tx [of q q' o'] by (auto simp: fp_tx_same_def)
  from assms show ?thesis
  proof (cases rule: on_data_cases)
    case (in_order x y z p1 o1 o2 d)
    then show ?thesis
      using tx_same_trans [OF recv tx_same_trans [OF flush [OF in_order(1)] maybe_pack_tx [OF in_order(2)]]]
      by simp
  next
    case (stored w pk l)
    then show ?thesis using tx_same_trans [OF ofo maybe_nack_tx [OF stored(3)]] by simp
  qed (auto intro: send_pack_tx maybe_nack_tx)
qed

text \<open>What a tick accepts from the application.\<close>

definition fp_accepted :: "bytes \<times> bool \<Rightarrow> fp_peer \<Rightarrow> bytes" where
  "fp_accepted fill p = drop (length (pe_txq p)) (pe_txq (fp_pump_fill fill p))"

lemma fill_tx:
  "fp_tx_inv cs a (fp_pump_fill fill p) = fp_tx_inv cs a p \<and>
   pe_txq (fp_pump_fill fill p) = pe_txq p @ fp_accepted fill p"
  by (simp add: fp_accepted_def fp_pump_fill_def fillp_peer_send_def Let_def fp_tx_inv_def)

lemma packetize_no_complete: "fp_packetize b now p = (p', os) \<Longrightarrow> FpTxComplete \<notin> set os"
proof (induction b now p arbitrary: p' os rule: fp_packetize.induct)
  case (2 b now p)
  then show ?case by (auto simp: Let_def split: if_splits prod.splits)
qed simp

lemma pump_tx:
  assumes "fp_pump ev fill p = (p', os)" "fp_tx_inv cs a p"
  shows "\<exists>ds. fp_tx_inv (cs @ ds) a p' \<and> concat ds @ pe_txq p' = pe_txq p @ fp_accepted fill p \<and>
     length ds \<le> FP_SEND_BUDGET \<and> (\<forall>w \<in> set (fp_sends os). fp_data_ok (cs @ ds) w) \<and>
     (FpTxComplete \<in> set os \<longrightarrow> pe_txq p' = [] \<and> pe_inflight p' = [])"
proof -
  obtain p2 o2 p3 o3 p4 o4 p5 o5 o6 where st:
    "fp_pump_stall (fp_now_ms ev) (fp_pump_fill fill p) = (p2, o2)"
    "fp_packetize FP_SEND_BUDGET (fp_now_ms ev) p2 = (p3, o3)"
    "fp_pump_complete p3 = (p4, o4)" "fp_maybe_pack ev p4 = (p5, o5)"
    "fp_pump_reply_fin p5 = (p', o6)" and os: "os = o2 @ o3 @ o4 @ o5 @ o6"
    by (rule pump_steps [OF assms(1)])
  have f: "fp_tx_inv cs a (fp_pump_fill fill p)" using assms(2) fill_tx by simp
  note s2 = stall_tx [OF st(1) f]
  obtain ds where ds: "fp_tx_inv (cs @ ds) a p3" "concat ds @ pe_txq p3 = pe_txq p2"
     "length ds \<le> FP_SEND_BUDGET" "\<forall>w \<in> set (fp_sends o3). fp_data_ok (cs @ ds) w"
    using packetize_tx [OF st(2)] s2 by blast
  have notified: "fp_tx_inv es b (p3\<lparr>pe_tx_notified := True\<rparr>) = fp_tx_inv es b p3" for es b
    by (simp add: fp_tx_inv_def)
  have s4: "fp_tx_same p3 p4 o4" "pe_inflight p4 = pe_inflight p3"
    "FpTxComplete \<in> set o4 \<longrightarrow> pe_txq p3 = [] \<and> pe_inflight p3 = []"
    using st(3) notified by (auto simp: fp_pump_complete_def fp_tx_same_def split: if_splits)
  have s5: "fp_tx_same p4 p5 o5" "pe_inflight p5 = pe_inflight p4" "FpTxComplete \<notin> set o5"
    using maybe_pack_tx [OF st(4)] st(4)
    by (auto simp: fp_maybe_pack_def fp_send_pack_def fp_sendto_def split: if_splits option.splits)
  have no_complete: "FpTxComplete \<notin> set (fp_sendto d)" for d
    by (simp add: fp_sendto_def split: option.splits)
  have s6: "fp_tx_same p5 p' o6" "pe_inflight p' = pe_inflight p5" "FpTxComplete \<notin> set o6"
    using st(5) by (auto simp: fp_pump_reply_fin_def fp_data_same_def no_complete
        intro!: quiet_tx split: if_splits)
  have n3: "FpTxComplete \<notin> set o3"
    using packetize_no_complete [OF st(2)] .
  have n2: "FpTxComplete \<notin> set o2"
    using st(1) by (auto simp: fp_pump_stall_def split: if_splits list.splits)
  have q: "fp_tx_same p3 p' (o4 @ o5 @ o6)"
    by (rule tx_same_trans [OF s4(1) tx_same_trans [OF s5(1) s6(1)]])
  have stal: "\<forall>w \<in> set (fp_sends o2). fp_data_ok (cs @ ds) w" using s2 data_ok_mono by blast
  have "pe_txq p3 = pe_txq p'" "fp_tx_inv (cs @ ds) a p'" using q ds(1) by (simp_all add: fp_tx_same_def)
  moreover have "concat ds @ pe_txq p3 = pe_txq p @ fp_accepted fill p"
    using ds(2) s2 fill_tx [of cs a fill p] by simp
  moreover have "fp_data_ok (cs @ ds) w" if "w \<in> set (fp_sends os)" for w
  proof -
    have "w \<in> set (fp_sends o2) \<or> w \<in> set (fp_sends o3) \<or> w \<in> set (fp_sends (o4 @ o5 @ o6))"
      using that os by auto
    then show ?thesis using stal ds(4) q unfolding fp_tx_same_def fp_data_ok_def by blast
  qed
  moreover have "FpTxComplete \<in> set os \<Longrightarrow> pe_txq p3 = [] \<and> pe_inflight p' = []"
    using n2 n3 s4(2,3) s5(2,3) s6(2,3) os by auto
  ultimately show ?thesis using ds(3) by (intro exI [of _ ds]) auto
qed


section \<open>Two endpoints and a network\<close>

text \<open>
  A connection whose data flows from \<open>nt_tx\<close> to \<open>nt_rx\<close>; both run the whole engine code.  The
  network keeps every datagram ever sent in either direction and may hand any of them over, at any
  time, any number of times: losses, repetitions and reorderings of every kind.  \<open>nt_queued\<close> is
  what the sender's queue accepted from its application, \<open>nt_complete\<close> what had been accepted when
  the engine reported the transmission complete.
\<close>

record fp_net =
  nt_tx :: fp_peer
  nt_rx :: fp_peer
  nt_fwd :: "bytes set"
  nt_back :: "bytes set"
  nt_queued :: bytes
  nt_delivered :: bytes
  nt_complete :: "bytes option"

inductive fp_net_step :: "fp_net \<Rightarrow> fp_net \<Rightarrow> bool" where
  app_send: "fp_net_step n (n\<lparr>nt_tx := fillp_peer_send (nt_tx n) d,
      nt_queued := nt_queued n @ drop (length (pe_txq (nt_tx n))) (pe_txq (fillp_peer_send (nt_tx n) d))\<rparr>)"
| tx_close: "fp_peer_request_close ev (nt_tx n) = (p, os) \<Longrightarrow>
    fp_net_step n (n\<lparr>nt_tx := p, nt_fwd := nt_fwd n \<union> set (fp_sends os)\<rparr>)"
| rx_close: "fp_peer_request_close ev (nt_rx n) = (p, os) \<Longrightarrow>
    fp_net_step n (n\<lparr>nt_rx := p, nt_back := nt_back n \<union> set (fp_sends os)\<rparr>)"
| tx_tick: "fp_tick_peer ev fill e (nt_tx n) = (p, os, f) \<Longrightarrow> q = nt_queued n @
      (if pe_state (nt_tx n) \<in> {FP_ST_ESTABLISHED, FP_ST_CLOSING} then fp_accepted fill (nt_tx n) else []) \<Longrightarrow>
    fp_net_step n (n\<lparr>nt_tx := p, nt_fwd := nt_fwd n \<union> set (fp_sends os), nt_queued := q,
      nt_complete := (if FpTxComplete \<in> set os then Some q else nt_complete n)\<rparr>)"
| rx_tick: "fp_tick_peer ev fill e (nt_rx n) = (p, os, f) \<Longrightarrow>
    fp_net_step n (n\<lparr>nt_rx := p, nt_back := nt_back n \<union> set (fp_sends os)\<rparr>)"
| tx_recv: "w \<in> nt_back n \<Longrightarrow> fp_wire_type w = Some ty \<Longrightarrow>
    fp_dispatch_peer hmac ev e ty (nt_tx n) w = Some (p, os) \<Longrightarrow>
    fp_net_step n (n\<lparr>nt_tx := p, nt_fwd := nt_fwd n \<union> set (fp_sends os)\<rparr>)"
| rx_recv: "w \<in> nt_fwd n \<Longrightarrow> fp_wire_type w = Some ty \<Longrightarrow>
    fp_dispatch_peer hmac ev e ty (nt_rx n) w = Some (p, os) \<Longrightarrow>
    fp_net_step n (n\<lparr>nt_rx := p, nt_back := nt_back n \<union> set (fp_sends os),
      nt_delivered := nt_delivered n @ fp_delivered os\<rparr>)"

definition fp_net_init :: "fp_peer \<Rightarrow> fp_peer \<Rightarrow> fp_net" where
  "fp_net_init tx rx = \<lparr>nt_tx = tx, nt_rx = rx, nt_fwd = {}, nt_back = {}, nt_queued = [],
     nt_delivered = [], nt_complete = None\<rparr>"

text \<open>A peer before any data: as \<open>fp_peer_new\<close> leaves it, in whatever state of the handshake.\<close>

definition fp_fresh :: "fp_peer \<Rightarrow> bool" where
  "fp_fresh p \<longleftrightarrow> pe_send_pkt_num p = 0 \<and> pe_send_seq_num p = 0 \<and> pe_txq p = [] \<and>
     pe_inflight p = [] \<and> pe_inflight_bytes p = 0 \<and> pe_recv_pkt_num p = 0 \<and> pe_ofo p = Map.empty"

definition fp_net_inv :: "fp_net \<Rightarrow> bool" where
  "fp_net_inv n \<longleftrightarrow> (\<exists>cs a m. fp_tx_inv cs a (nt_tx n) \<and> fp_rx_inv cs m (nt_rx n) \<and> a \<le> m \<and>
     nt_queued n = concat cs @ pe_txq (nt_tx n) \<and> nt_delivered n = concat (take m cs) \<and>
     (\<forall>w \<in> nt_fwd n. fp_data_ok cs w) \<and> (\<forall>w \<in> nt_back n. fp_ack_ok m w) \<and>
     (\<forall>q. nt_complete n = Some q \<longrightarrow> prefix q (nt_delivered n)))"

lemma chunks_short:
  "\<forall>c \<in> set cs. 0 < length c \<Longrightarrow> length cs \<le> length (concat cs)"
proof (induction cs)
  case (Cons c cs)
  then show ?case by (cases c) auto
qed simp

lemma net_inv_segs:
  assumes "fp_tx_inv cs a p" "length (concat cs) < 2 ^ 31"
  shows "fp_segs_ok cs"
  using assms chunks_short [of cs] by (auto simp: fp_tx_inv_def fp_segs_ok_def)

lemma net_queued_mono: "fp_net_step n n' \<Longrightarrow> prefix (nt_queued n) (nt_queued n')"
  by (induction rule: fp_net_step.induct) auto

lemma dispatch_tx_ctl:
  assumes "fp_dispatch_peer hmac ev e ty p w = Some (p', os)"
    "ty \<notin> {FP_PKT_NACK, FP_PKT_PACK}"
  shows "fp_tx_same p p' os"
  using assms unfolding fp_dispatch_peer_def
  by (auto simp: quiet_tx on_fin_quiet dest: on_data_tx
      dest!: conn_req_ack_quiet conn_confirm_quiet conn_confirm_ack_quiet split: if_splits)


lemma prefix_take_concat: "m \<le> m' \<Longrightarrow> concat (take m cs) @ concat (drop m (take m' cs)) = concat (take m' cs)"
  by (simp add: concat_append [symmetric] del: concat_append) (metis append_take_drop_id min.absorb1 take_take)

text \<open>A step that leaves the sender's segments alone and sends nothing new keeps the invariant.\<close>

lemma net_inv_tx_same:
  assumes "fp_net_inv n" "fp_tx_same (nt_tx n) p os"
  shows "fp_net_inv (n\<lparr>nt_tx := p, nt_fwd := nt_fwd n \<union> set (fp_sends os)\<rparr>)"
proof -
  obtain cs a m where i: "fp_tx_inv cs a (nt_tx n)" "fp_rx_inv cs m (nt_rx n)" "a \<le> m"
    "nt_queued n = concat cs @ pe_txq (nt_tx n)" "nt_delivered n = concat (take m cs)"
    "\<forall>w \<in> nt_fwd n. fp_data_ok cs w" "\<forall>w \<in> nt_back n. fp_ack_ok m w"
    "\<forall>q. nt_complete n = Some q \<longrightarrow> prefix q (nt_delivered n)"
    using assms(1) unfolding fp_net_inv_def by blast
  have "\<forall>w \<in> set (fp_sends os). fp_data_ok cs w" "fp_tx_inv cs a p" "pe_txq p = pe_txq (nt_tx n)"
    using assms(2) i(1) unfolding fp_tx_same_def fp_data_ok_def by auto
  then show ?thesis
    using i unfolding fp_net_inv_def by (intro exI [of _ cs] exI [of _ a] exI [of _ m]) auto
qed

lemma net_inv_rx_same:
  assumes "fp_net_inv n" "fp_rx_same (nt_rx n) p os"
  shows "fp_net_inv (n\<lparr>nt_rx := p, nt_back := nt_back n \<union> set (fp_sends os)\<rparr>)"
proof -
  obtain cs a m where i: "fp_tx_inv cs a (nt_tx n)" "fp_rx_inv cs m (nt_rx n)" "a \<le> m"
    "nt_queued n = concat cs @ pe_txq (nt_tx n)" "nt_delivered n = concat (take m cs)"
    "\<forall>w \<in> nt_fwd n. fp_data_ok cs w" "\<forall>w \<in> nt_back n. fp_ack_ok m w"
    "\<forall>q. nt_complete n = Some q \<longrightarrow> prefix q (nt_delivered n)"
    using assms(1) unfolding fp_net_inv_def by blast
  have "pe_recv_pkt_num (nt_rx n) = of_nat m" using i(2) by (simp add: fp_rx_inv_def)
  then have "\<forall>w \<in> set (fp_sends os). fp_ack_ok m w" "fp_rx_inv cs m p"
    using assms(2) i(2) ack_at_ok rx_same_inv [OF assms(2)] unfolding fp_rx_same_def by auto
  then show ?thesis
    using i unfolding fp_net_inv_def by (intro exI [of _ cs] exI [of _ a] exI [of _ m]) auto
qed

lemma net_inv_tick:
  assumes "fp_net_inv n" "fp_pump ev fill (nt_tx n) = (p, os)"
    "q = nt_queued n @ fp_accepted fill (nt_tx n)"
  shows "fp_net_inv (n\<lparr>nt_tx := p, nt_fwd := nt_fwd n \<union> set (fp_sends os), nt_queued := q,
      nt_complete := (if FpTxComplete \<in> set os then Some q else nt_complete n)\<rparr>)"
proof -
  obtain cs a m where i: "fp_tx_inv cs a (nt_tx n)" "fp_rx_inv cs m (nt_rx n)" "a \<le> m"
    "nt_queued n = concat cs @ pe_txq (nt_tx n)" "nt_delivered n = concat (take m cs)"
    "\<forall>w \<in> nt_fwd n. fp_data_ok cs w" "\<forall>w \<in> nt_back n. fp_ack_ok m w"
    "\<forall>q. nt_complete n = Some q \<longrightarrow> prefix q (nt_delivered n)"
    using assms(1) unfolding fp_net_inv_def by blast
  obtain ds where ds: "fp_tx_inv (cs @ ds) a p"
    "concat ds @ pe_txq p = pe_txq (nt_tx n) @ fp_accepted fill (nt_tx n)"
    "\<forall>w \<in> set (fp_sends os). fp_data_ok (cs @ ds) w"
    "FpTxComplete \<in> set os \<longrightarrow> pe_txq p = [] \<and> pe_inflight p = []"
    using pump_tx [OF assms(2) i(1)] by blast
  have m: "m \<le> length cs" using i(2) by (simp add: fp_rx_inv_def)
  have q: "q = concat (cs @ ds) @ pe_txq p" using ds(2) i(4) assms(3) by simp
  have complete: "q = nt_delivered n" if c: "FpTxComplete \<in> set os"
  proof -
    have "a = length (cs @ ds)" using ds(1,4) c by (auto simp: fp_tx_inv_def)
    then have "a = length cs + length ds" by simp
    then have "length ds = 0" "m = length cs" using i(3) m by linarith+
    then show ?thesis using q ds(4) c i(5) by simp
  qed
  show ?thesis
    unfolding fp_net_inv_def
    using ds i q m complete data_ok_mono rx_inv_mono [OF i(2)]
    by (intro exI [of _ "cs @ ds"] exI [of _ a] exI [of _ m]) auto
qed

lemma net_inv_rx_data:
  assumes "fp_net_inv n" "w \<in> nt_fwd n" "fp_wire_type w = Some FP_PKT_DATA"
    "fp_on_data ev (nt_rx n) w = Some (p, os)" "length (nt_queued n) < 2 ^ 31"
  shows "fp_net_inv (n\<lparr>nt_rx := p, nt_back := nt_back n \<union> set (fp_sends os),
      nt_delivered := nt_delivered n @ fp_delivered os\<rparr>)"
proof -
  obtain cs a m where i: "fp_tx_inv cs a (nt_tx n)" "fp_rx_inv cs m (nt_rx n)" "a \<le> m"
    "nt_queued n = concat cs @ pe_txq (nt_tx n)" "nt_delivered n = concat (take m cs)"
    "\<forall>w \<in> nt_fwd n. fp_data_ok cs w" "\<forall>w \<in> nt_back n. fp_ack_ok m w"
    "\<forall>q. nt_complete n = Some q \<longrightarrow> prefix q (nt_delivered n)"
    using assms(1) unfolding fp_net_inv_def by blast
  have segs: "fp_segs_ok cs" using net_inv_segs [OF i(1)] i(4) assms(5) by simp
  obtain k where k: "1 \<le> k" "k \<le> length cs" "w = fp_data_dgram (fp_seg cs k)"
    using i(6) assms(2,3) unfolding fp_data_ok_def by blast
  obtain m' where m': "m \<le> m'" "fp_rx_inv cs m' p" "fp_delivered os = concat (drop m (take m' cs))"
    "\<forall>w \<in> set (fp_sends os). fp_ack_ok m' w"
    using on_data_rx [OF segs i(2) k(1,2), of ev] assms(4) k(3) by auto
  have "nt_delivered n @ fp_delivered os = concat (take m' cs)"
    using i(5) m'(1,3) prefix_take_concat by simp
  moreover have "\<forall>w \<in> nt_back n \<union> set (fp_sends os). fp_ack_ok m' w"
    using i(7) m'(1,4) ack_ok_mono by blast
  moreover have "\<forall>q. nt_complete n = Some q \<longrightarrow> prefix q (nt_delivered n @ fp_delivered os)"
    using i(8) by auto
  ultimately show ?thesis
    unfolding fp_net_inv_def using i(1,3,4,6) m'(1,2)
    by (intro exI [of _ cs] exI [of _ a] exI [of _ m']) auto
qed


lemma net_inv_app_send:
  assumes "fp_net_inv n"
  shows "fp_net_inv (n\<lparr>nt_tx := fillp_peer_send (nt_tx n) d,
      nt_queued := nt_queued n @ drop (length (pe_txq (nt_tx n))) (pe_txq (fillp_peer_send (nt_tx n) d))\<rparr>)"
proof -
  have "fp_tx_inv cs a (fillp_peer_send (nt_tx n) d) = fp_tx_inv cs a (nt_tx n)" for cs a
    by (simp add: fillp_peer_send_def fp_tx_inv_def)
  moreover have "pe_txq (nt_tx n) @ drop (length (pe_txq (nt_tx n))) (pe_txq (fillp_peer_send (nt_tx n) d))
     = pe_txq (fillp_peer_send (nt_tx n) d)"
    by (simp add: fillp_peer_send_def)
  ultimately show ?thesis
    using assms unfolding fp_net_inv_def
    by (elim exE, intro exI) (auto simp del: append_take_drop_id)
qed

lemma net_inv_tx_pack:
  assumes "fp_net_inv n" "w \<in> nt_back n" "fp_wire_type w = Some FP_PKT_PACK"
    "fp_on_pack (nt_tx n) w = Some (p, os)" "length (nt_queued n) < 2 ^ 31"
  shows "fp_net_inv (n\<lparr>nt_tx := p, nt_fwd := nt_fwd n \<union> set (fp_sends os)\<rparr>)"
proof -
  obtain cs a m where i: "fp_tx_inv cs a (nt_tx n)" "fp_rx_inv cs m (nt_rx n)" "a \<le> m"
    "nt_queued n = concat cs @ pe_txq (nt_tx n)" "nt_delivered n = concat (take m cs)"
    "\<forall>w \<in> nt_fwd n. fp_data_ok cs w" "\<forall>w \<in> nt_back n. fp_ack_ok m w"
    "\<forall>q. nt_complete n = Some q \<longrightarrow> prefix q (nt_delivered n)"
    using assms(1) unfolding fp_net_inv_def by blast
  have len: "length cs < 2 ^ 31" using net_inv_segs [OF i(1)] i(4) assms(5) by (simp add: fp_segs_ok_def)
  obtain j s l r where j: "j \<le> m" "fillp_decode_pack w = Some (Some (s, of_nat j, l, r))"
    using i(7) assms(2,3) unfolding fp_ack_ok_def by blast
  have "j < 2 ^ 31" using j(1) i(2) len by (simp add: fp_rx_inv_def)
  then obtain a' where a': "a \<le> a'" "fp_tx_inv cs a' p" "os = []" "pe_txq p = pe_txq (nt_tx n)"
    "a' \<le> max a j"
    using on_pack_tx [OF assms(4) i(1) len] j(2) by blast
  then show ?thesis
    unfolding fp_net_inv_def using i j(1) by (intro exI [of _ cs] exI [of _ a'] exI [of _ m]) auto
qed

lemma net_inv_tx_nack:
  assumes "fp_net_inv n" "fp_on_nack ev (nt_tx n) w = Some (p, os)"
  shows "fp_net_inv (n\<lparr>nt_tx := p, nt_fwd := nt_fwd n \<union> set (fp_sends os)\<rparr>)"
proof -
  obtain cs a m where i: "fp_tx_inv cs a (nt_tx n)" "fp_rx_inv cs m (nt_rx n)" "a \<le> m"
    "nt_queued n = concat cs @ pe_txq (nt_tx n)" "nt_delivered n = concat (take m cs)"
    "\<forall>w \<in> nt_fwd n. fp_data_ok cs w" "\<forall>w \<in> nt_back n. fp_ack_ok m w"
    "\<forall>q. nt_complete n = Some q \<longrightarrow> prefix q (nt_delivered n)"
    using assms(1) unfolding fp_net_inv_def by blast
  then show ?thesis
    using on_nack_tx [OF assms(2) i(1)] unfolding fp_net_inv_def
    by (intro exI [of _ cs] exI [of _ a] exI [of _ m]) auto
qed

lemma net_step_inv:
  assumes "fp_net_step n n'" "fp_net_inv n" "length (nt_queued n') < 2 ^ 31"
  shows "fp_net_inv n'"
  using assms
proof (induction rule: fp_net_step.induct)
  case (app_send n d)
  then show ?case by (simp only: net_inv_app_send)
next
  case (tx_close ev n p os)
  then show ?case using net_inv_tx_same quiet_tx request_close_quiet by blast
next
  case (rx_close ev n p os)
  then show ?case using net_inv_rx_same quiet_rx request_close_quiet by blast
next
  case (tx_tick ev fill e n p os f q)
  from tick_cases [OF tx_tick(1)] show ?case
  proof
    assume a: "(pe_state (nt_tx n) = FP_ST_ESTABLISHED \<or> pe_state (nt_tx n) = FP_ST_CLOSING) \<and>
      fp_pump ev fill (nt_tx n) = (p, os)"
    then have "q = nt_queued n @ fp_accepted fill (nt_tx n)" using tx_tick(2) by auto
    then show ?thesis using net_inv_tick [OF tx_tick(3)] a by blast
  next
    assume a: "pe_state (nt_tx n) \<notin> {FP_ST_ESTABLISHED, FP_ST_CLOSING} \<and>
      fp_data_same (nt_tx n) p \<and> fp_quiet os"
    then have "q = nt_queued n" "FpTxComplete \<notin> set os" using tx_tick(2) by (auto simp: fp_quiet_def)
    then show ?thesis using net_inv_tx_same [OF tx_tick(3) quiet_tx] a by simp
  qed
next
  case (rx_tick ev fill e n p os f)
  then show ?case using net_inv_rx_same tick_rx by blast
next
  case (tx_recv w n ty hmac ev e p os)
  then have len: "length (nt_queued n) < 2 ^ 31" by simp
  consider "ty = FP_PKT_PACK" | "ty = FP_PKT_NACK" | "ty \<notin> {FP_PKT_NACK, FP_PKT_PACK}" by auto
  then show ?case
  proof cases
    case 1
    then have "fp_on_pack (nt_tx n) w = Some (p, os) \<or> p = nt_tx n \<and> os = []"
      using tx_recv(3) by (auto simp: fp_dispatch_peer_def fp_pkt_types split: if_splits)
    then show ?thesis
      using net_inv_tx_pack [OF tx_recv(4,1) _ _ len] net_inv_tx_same [OF tx_recv(4) tx_same_refl]
        tx_recv(2) 1 by blast
  next
    case 2
    then have "fp_on_nack ev (nt_tx n) w = Some (p, os) \<or> p = nt_tx n \<and> os = []"
      using tx_recv(3) by (auto simp: fp_dispatch_peer_def fp_pkt_types split: if_splits)
    then show ?thesis
      using net_inv_tx_nack [OF tx_recv(4)] net_inv_tx_same [OF tx_recv(4) tx_same_refl] by blast
  next
    case 3
    then show ?thesis using net_inv_tx_same [OF tx_recv(4)] dispatch_tx_ctl [OF tx_recv(3)] by blast
  qed
next
  case (rx_recv w n ty hmac ev e p os)
  then have len: "length (nt_queued n) < 2 ^ 31" by simp
  show ?case
  proof (cases "ty = FP_PKT_DATA")
    case True
    then have "fp_on_data ev (nt_rx n) w = Some (p, os) \<or> p = nt_rx n \<and> os = []"
      using rx_recv(3) by (auto simp: fp_dispatch_peer_def fp_pkt_types split: if_splits)
    then show ?thesis
      using net_inv_rx_data [OF rx_recv(4,1) _ _ len] rx_recv(2,4) True by auto
  next
    case False
    have r: "fp_rx_same (nt_rx n) p os" by (rule dispatch_rx [OF rx_recv(3) False])
    then have "fp_delivered os = []" by (simp add: fp_rx_same_def)
    then show ?thesis using net_inv_rx_same [OF rx_recv(4) r] by simp
  qed
qed

lemma net_reachable:
  assumes "fp_net_step\<^sup>*\<^sup>* (fp_net_init tx rx) n" "fp_fresh tx" "fp_fresh rx"
    "length (nt_queued n) < 2 ^ 31"
  shows "fp_net_inv n"
  using assms
proof (induction rule: rtranclp_induct)
  case base
  have "fp_tx_inv [] 0 tx" "fp_rx_inv [] 0 rx"
    using base by (simp_all add: fp_fresh_def fp_tx_inv_def fp_rx_inv_def)
  then show ?case
    using base unfolding fp_net_inv_def fp_net_init_def
    by (intro exI [of _ "[]"] exI [of _ 0]) (auto simp: fp_fresh_def)
next
  case (step n n')
  have "length (nt_queued n) \<le> length (nt_queued n')"
    using net_queued_mono [OF step(2)] by (rule prefix_length_le)
  then show ?case using step net_step_inv by simp
qed


text \<open>A run in which one packet is sent and arrives.\<close>

definition toy_tx :: fp_peer where
  "toy_tx = (fp_peer_new \<lparr>ev_us = 0, ev_r1 = 0, ev_r2 = 0\<rparr> 7 True)\<lparr>pe_state := FP_ST_ESTABLISHED\<rparr>"

definition toy_rx :: fp_peer where
  "toy_rx = (fp_peer_new \<lparr>ev_us = 0, ev_r1 = 0, ev_r2 = 0\<rparr> 8 False)\<lparr>pe_state := FP_ST_ESTABLISHED\<rparr>"

lemma toy_fresh: "fp_fresh toy_tx" "fp_fresh toy_rx"
  by (simp_all add: toy_tx_def toy_rx_def fp_fresh_def fp_peer_new_def)

lemma toy_packet:
  assumes "0 < length d" "length d \<le> FP_PKT_DATA_MAX"
  shows "\<exists>n. fp_net_step\<^sup>*\<^sup>* (fp_net_init toy_tx toy_rx) n \<and> nt_queued n = d \<and> nt_delivered n = d"
proof -
  let ?ev = "\<lparr>ev_us = 0, ev_r1 = 0, ev_r2 = 0\<rparr>"
  let ?e = "fillp_engine_new 7 []" let ?h = "\<lambda>k i. [] :: bytes"
  note rx = toy_rx_def fp_peer_new_def
  have tx: "pe_state toy_tx = FP_ST_ESTABLISHED" "pe_txq toy_tx = []" "pe_inflight toy_tx = []" "pe_inflight_bytes toy_tx = 0"
    "\<not> pe_has_fill toy_tx" "pe_send_pkt_num toy_tx = 0" "pe_send_seq_num toy_tx = 0"
    by (simp_all add: toy_tx_def fp_peer_new_def)
  let ?n0 = "fp_net_init toy_tx toy_rx"
  let ?tx1 = "fillp_peer_send toy_tx d"
  let ?n1 = "?n0\<lparr>nt_tx := ?tx1, nt_queued := nt_queued ?n0 @ drop (length (pe_txq toy_tx)) (pe_txq ?tx1)\<rparr>"
  have s1: "fp_net_step ?n0 ?n1" using app_send [of ?n0 d] by (simp add: fp_net_init_def)
  let ?w = "fp_data_dgram (fp_seg [d] 1)"
  obtain p os f where t: "fp_tick_peer ?ev ([], False) ?e ?tx1 = (p, os, f)" by (metis prod_cases3)
  have tx1: "?tx1 = toy_tx\<lparr>pe_txq := d\<rparr>" using assms(1) by (simp add: fillp_peer_send_def tx)
  have st1: "pe_state ?tx1 = FP_ST_ESTABLISHED" by (simp add: tx1 tx)
  have pump: "fp_pump ?ev ([], False) ?tx1 = (p, os)" using tick_cases [OF t] st1 by auto
  obtain p2 o2 p3 o3 o4 where st: "fp_pump_stall (fp_now_ms ?ev) (fp_pump_fill ([], False) ?tx1) = (p2, o2)"
    "fp_packetize FP_SEND_BUDGET (fp_now_ms ?ev) p2 = (p3, o3)" "os = o2 @ o3 @ o4"
    by (rule pump_steps [OF pump]) blast
  have p2: "p2 = ?tx1" using st(1) by (simp add: fp_pump_stall_def fp_pump_fill_def tx1 tx)
  have "FpSend ?w \<in> set o3"
    using st(2) fp_packetize.simps(2) [of 31 "fp_now_ms ?ev" p2] assms unfolding p2
    by (auto simp: FP_SEND_BUDGET_def tx1 tx FP_PKT_DATA_MAX_def FP_SEND_CACHE_def Let_def fp_data_dgram_def fp_seg_def
        split: prod.splits)
  then have w: "?w \<in> set (fp_sends os)" using st(3) by (auto simp: fp_sends_def intro!: bexI)
  let ?q = "nt_queued ?n1 @ (if pe_state (nt_tx ?n1) \<in> {FP_ST_ESTABLISHED, FP_ST_CLOSING}
     then fp_accepted ([], False) (nt_tx ?n1) else [])"
  let ?n2 = "?n1\<lparr>nt_tx := p, nt_fwd := nt_fwd ?n1 \<union> set (fp_sends os), nt_queued := ?q,
      nt_complete := (if FpTxComplete \<in> set os then Some ?q else nt_complete ?n1)\<rparr>"
  have s2: "fp_net_step ?n1 ?n2" by (rule tx_tick [OF _ refl]) (use t in simp)
  have segs: "fp_segs_ok [d]" using assms by (simp add: fp_segs_ok_def)
  have rx0: "fp_rx_inv [d] 0 toy_rx" by (simp add: fp_rx_inv_def rx)
  obtain m r o5 where r: "fp_on_data ?ev toy_rx ?w = Some (r, o5)" "fp_rx_inv [d] m r" "fp_delivered o5 = concat (take m [d])"
    using on_data_rx [OF segs rx0, of 1 ?ev] by auto
  have "m \<noteq> 0"
  proof
    assume "m = 0"
    then have "fp_delivered o5 = []" using r(3) by simp
    moreover obtain o6 where "o5 = FpDeliver d # o6"
      using r(1) seg_dgram [OF segs, of 1] isbigger_of_nat [of 1 0] assms
      by (auto simp: fp_on_data_def Let_def rx split: prod.splits)
    ultimately show False using assms(1) by simp
  qed
  then have d: "fp_delivered o5 = d" using r(2,3) by (simp add: fp_rx_inv_def)
  have dis: "fp_dispatch_peer ?h ?ev ?e FP_PKT_DATA toy_rx ?w = Some (r, o5)"
    using r(1) by (simp add: fp_dispatch_peer_def fp_pkt_types rx)
  let ?n3 = "?n2\<lparr>nt_rx := r, nt_back := nt_back ?n2 \<union> set (fp_sends o5),
      nt_delivered := nt_delivered ?n2 @ fp_delivered o5\<rparr>"
  have s3: "fp_net_step ?n2 ?n3"
    by (rule rx_recv [OF _ wire_type_dgram]) (use w dis in \<open>simp_all add: fp_net_init_def\<close>)
  have "nt_queued ?n3 = d" using assms(1) by (simp add: fp_net_init_def tx1 tx fp_accepted_def fp_pump_fill_def)
  moreover have "fp_net_step\<^sup>*\<^sup>* ?n0 ?n3"
    by (rule rtranclp.rtrancl_into_rtrancl [of fp_net_step, OF rtranclp.rtrancl_into_rtrancl
      [of fp_net_step, OF r_into_rtranclp [of fp_net_step, OF s1] s2] s3])
  moreover have "nt_delivered ?n3 = d" using d by (simp add: fp_net_init_def)
  ultimately show ?thesis by blast
qed

lemma net_delivers:
  assumes "fp_net_step\<^sup>*\<^sup>* (fp_net_init tx rx) n" "fp_fresh tx" "fp_fresh rx"
    "length (nt_queued n) < 2 ^ 31"
  shows "prefix (nt_delivered n) (nt_queued n) \<and>
     (\<forall>q. nt_complete n = Some q \<longrightarrow> prefix q (nt_delivered n))"
proof -
  obtain cs a m where "nt_queued n = concat cs @ pe_txq (nt_tx n)" "nt_delivered n = concat (take m cs)"
    "\<forall>q. nt_complete n = Some q \<longrightarrow> prefix q (nt_delivered n)"
    using net_reachable [OF assms] unfolding fp_net_inv_def by blast
  moreover have "concat cs = concat (take m cs) @ concat (drop m cs)"
    by (metis append_take_drop_id concat_append)
  ultimately show ?thesis by simp
qed

section \<open>Properties\<close>



end
