(* ===== verification/FillpSafety.thy ===== *)
theory FillpSafety
  imports FillpStream
begin

text \<open>
  What holds of a fillp peer whatever it receives: any datagram from anybody, any provider, any
  clock.  \<open>fp_peer_step\<close> is one call of any operation of \<open>fillp_conn.c\<close> on a peer.
\<close>

inductive fp_peer_step :: "(bytes \<Rightarrow> bytes \<Rightarrow> bytes) \<Rightarrow> fp_engine \<Rightarrow> fp_peer \<Rightarrow> fp_peer \<Rightarrow> bool"
  for hmac e where
  step_datagram: "fp_dispatch_peer hmac ev e ty p buf = Some (p', os) \<Longrightarrow> fp_peer_step hmac e p p'"
| step_tick: "fp_tick_peer ev fill e p = (p', os, f) \<Longrightarrow> fp_peer_step hmac e p p'"
| step_send: "fp_peer_step hmac e p (fillp_peer_send p d)"
| step_close: "fp_peer_request_close ev p = (p', os) \<Longrightarrow> fp_peer_step hmac e p p'"
| step_fill_fn: "fp_peer_step hmac e p (p\<lparr>pe_has_fill := b\<rparr>)"

section \<open>Accounting\<close>

definition fp_inflight_sum :: "fp_pkt list \<Rightarrow> nat" where
  "fp_inflight_sum l = sum_list (map (\<lambda>pk. unat (pk_len pk)) l)"

definition fp_ofo_sum :: "(u32 \<rightharpoonup> fp_pkt) \<Rightarrow> nat" where
  "fp_ofo_sum m = (\<Sum>w \<in> dom m. unat (pk_len (the (m w))))"

definition fp_window_max :: nat where
  "fp_window_max = FP_SEND_CACHE - 1 + FP_PKT_DATA_MAX"

text \<open>
  The in-flight counter is exact and the window is overshot by less than a packet; what the
  out-of-order buffer holds is covered by its counter, and the counter by the cap.
\<close>

definition fp_acct_inv :: "fp_peer \<Rightarrow> bool" where
  "fp_acct_inv p \<longleftrightarrow>
     pe_inflight_bytes p = of_nat (fp_inflight_sum (pe_inflight p)) \<and>
     fp_inflight_sum (pe_inflight p) \<le> fp_window_max \<and>
     fp_ofo_sum (pe_ofo p) \<le> unat (pe_ofo_bytes p) \<and> pe_ofo_bytes p \<le> FP_OFO_MAX_BYTES"

lemma acct_cong:
  "pe_inflight_bytes p' = pe_inflight_bytes p \<Longrightarrow>
   fp_inflight_sum (pe_inflight p') = fp_inflight_sum (pe_inflight p) \<Longrightarrow>
   pe_ofo p' = pe_ofo p \<Longrightarrow> pe_ofo_bytes p' = pe_ofo_bytes p \<Longrightarrow> fp_acct_inv p' = fp_acct_inv p"
  by (simp add: fp_acct_inv_def)

lemma finite_ofo [simp]: "finite (dom (m :: u32 \<rightharpoonup> 'a))"
  by (rule finite_subset [OF subset_UNIV]) simp

lemma ofo_remove:
  assumes "m w = Some pk"
  shows "fp_ofo_sum (m(w := None)) + unat (pk_len pk) = fp_ofo_sum m"
proof -
  have d: "dom (m(w := None)) = dom m - {w}" by auto
  have "fp_ofo_sum (m(w := None)) = (\<Sum>v \<in> dom m - {w}. unat (pk_len (the (m v))))"
    unfolding fp_ofo_sum_def d by (rule sum.cong) auto
  then show ?thesis
    using assms sum.remove [OF finite_ofo, of w m "\<lambda>v. unat (pk_len (the (m v)))"]
    by (simp add: fp_ofo_sum_def domI)
qed

lemma ofo_insert: "fp_ofo_sum (m(w \<mapsto> pk)) \<le> fp_ofo_sum m + unat (pk_len pk)"
proof -
  have "fp_ofo_sum (m(w \<mapsto> pk)) = fp_ofo_sum ((m(w := None))(w \<mapsto> pk))" by simp
  also have "\<dots> = fp_ofo_sum (m(w := None)) + unat (pk_len pk)"
    using ofo_remove [of "m(w \<mapsto> pk)" w pk] by simp
  also have "fp_ofo_sum (m(w := None)) \<le> fp_ofo_sum m"
    using ofo_remove [of m w] by (cases "m w") (simp_all add: fun_upd_idem)
  finally show ?thesis by simp
qed

lemma flush_acct: "fp_acct_inv p \<Longrightarrow> fp_flush_ofo p = (p', os) \<Longrightarrow> fp_acct_inv p'"
proof (induction p arbitrary: p' os rule: fp_flush_ofo.induct)
  case (1 p)
  show ?case
  proof (cases "pe_ofo p (pe_recv_pkt_num p + 1)")
    case None
    then show ?thesis using 1(2,3) by (simp add: fp_flush_ofo.simps [of p])
  next
    case (Some nxt)
    let ?m = "(pe_ofo p)(pe_recv_pkt_num p + 1 := None)"
    let ?b = "pe_ofo_bytes p - ucast (pk_len nxt)"
    let ?p = "p\<lparr>pe_ofo := ?m,
       pe_recv_pkt_num := pk_num nxt, pe_recv_seq_num := pk_seq nxt,
       pe_delivered_since_pack := pe_delivered_since_pack p + ucast (pk_len nxt),
       pe_ofo_bytes := ?b\<rparr>"
    obtain p1 o1 where f: "fp_flush_ofo ?p = (p1, o1)" by fastforce
    have le: "unat (ucast (pk_len nxt) :: u64) = unat (pk_len nxt)" by (rule unat_ucast_up) simp
    have "fp_ofo_sum ?m + unat (pk_len nxt) \<le> unat (pe_ofo_bytes p)"
      using ofo_remove [of "pe_ofo p" _ nxt, OF Some] 1(2) by (simp add: fp_acct_inv_def)
    then have "ucast (pk_len nxt) \<le> pe_ofo_bytes p" and s: "fp_ofo_sum ?m \<le> unat (pe_ofo_bytes p) - unat (pk_len nxt)"
      using le by (auto simp: word_le_nat_alt)
    then have u: "unat ?b = unat (pe_ofo_bytes p) - unat (pk_len nxt)" by (simp add: unat_sub le)
    then have "?b \<le> FP_OFO_MAX_BYTES" using 1(2) by (auto simp: fp_acct_inv_def word_le_nat_alt)
    then have "fp_acct_inv ?p" using 1(2) s u by (simp add: fp_acct_inv_def)
    moreover have "p' = p1" using 1(3) Some f by (simp add: fp_flush_ofo.simps [of p])
    ultimately show ?thesis using 1(1) [OF Some _ f] by simp
  qed
qed

lemma pack_acct:
  "fp_send_pack ev p = (p', os) \<Longrightarrow> fp_acct_inv p' = fp_acct_inv p"
  "fp_maybe_pack ev p = (p', os) \<Longrightarrow> fp_acct_inv p' = fp_acct_inv p"
  "fp_maybe_nack ev p = (p', os) \<Longrightarrow> fp_acct_inv p' = fp_acct_inv p"
  by (auto simp: fp_send_pack_def fp_maybe_pack_def fp_maybe_nack_def fp_acct_inv_def split: if_splits)

lemma ofo_store_acct:
  assumes "fp_acct_inv p" "pe_ofo_bytes p + ucast l \<le> FP_OFO_MAX_BYTES" "pk_len pk = (l :: u16)"
  shows "fp_acct_inv (p\<lparr>pe_ofo := (pe_ofo p)(w \<mapsto> pk), pe_ofo_bytes := pe_ofo_bytes p + ucast l\<rparr>)"
proof -
  have l: "unat (ucast l :: u64) = unat l" by (rule unat_ucast_up) simp
  have "unat l < 2 ^ LENGTH(16)" by (rule unsigned_less)
  moreover have "unat (pe_ofo_bytes p) \<le> 2097152"
    using assms(1) by (simp add: fp_acct_inv_def word_le_nat_alt FP_OFO_MAX_BYTES_def)
  ultimately have "unat (pe_ofo_bytes p + ucast l) = unat (pe_ofo_bytes p) + unat l"
    using l by (subst unat_add_lem [THEN iffD1]) auto
  then show ?thesis
    using assms ofo_insert [of "pe_ofo p" w pk] by (simp add: fp_acct_inv_def)
qed

lemma on_data_acct:
  assumes "fp_on_data ev p buf = Some (p', os)" "fp_acct_inv p"
  shows "fp_acct_inv p'"
proof -
  have recv: "fp_acct_inv (p\<lparr>pe_recv_pkt_num := x, pe_recv_seq_num := y,
      pe_delivered_since_pack := z\<rparr>)" for x y z
    using assms(2) by (simp add: fp_acct_inv_def)
  from assms(1) show ?thesis
  proof (cases rule: on_data_cases)
    case (in_order x y z p1 o1 o2 d)
    then show ?thesis using flush_acct [OF recv in_order(1)] pack_acct(2) [OF in_order(2)] by simp
  next
    case (stored w pk l)
    then show ?thesis using ofo_store_acct [OF assms(2) stored(2,1)] pack_acct(3) [OF stored(3)] by simp
  qed (use assms(2) pack_acct in auto)
qed


lemma acct_data_same: "fp_data_same p p' \<Longrightarrow> fp_acct_inv p' = fp_acct_inv p"
  by (simp add: fp_data_same_def fp_acct_inv_def)

lemma retransmit_sum: "fp_retransmit ev b en l = (l', os) \<Longrightarrow> fp_inflight_sum l' = fp_inflight_sum l"
proof (induction l arbitrary: l' os)
  case (Cons pk l)
  then show ?case by (auto simp: fp_inflight_sum_def split: prod.splits if_splits)
qed (simp add: fp_inflight_sum_def)

lemma on_nack_acct: "fp_on_nack ev p buf = Some (p', os) \<Longrightarrow> fp_acct_inv p' = fp_acct_inv p"
  by (auto simp: fp_on_nack_def fp_acct_inv_def dest!: retransmit_sum
      split: Option.bind_splits option.splits prod.splits)

lemma ack_sum:
  assumes "fp_ack x l (of_nat (fp_inflight_sum l)) = (l', n)"
  shows "n = of_nat (fp_inflight_sum l') \<and> fp_inflight_sum l' \<le> fp_inflight_sum l"
  using assms
proof (induction l)
  case (Cons pk l)
  have u: "(ucast (pk_len pk) :: u64) = of_nat (unat (pk_len pk))" by simp
  show ?case
  proof (cases "fp_num_isbigger (pk_num pk) x")
    case False
    then have "fp_ack x l (of_nat (fp_inflight_sum l)) = (l', n)"
      using Cons.prems by (simp add: fp_inflight_sum_def)
    then show ?thesis using Cons.IH by (auto simp: fp_inflight_sum_def)
  qed (use Cons.prems in auto)
qed (simp add: fp_inflight_sum_def)

lemma on_pack_acct:
  assumes "fp_on_pack p buf = Some (p', os)" "fp_acct_inv p"
  shows "fp_acct_inv p'"
proof -
  have "p' = p \<or> (\<exists>x l n. fp_ack x (pe_inflight p) (pe_inflight_bytes p) = (l, n) \<and>
      p' = p\<lparr>pe_inflight := l, pe_inflight_bytes := n\<rparr>)"
    using assms(1) by (auto simp: fp_on_pack_def split: Option.bind_splits option.splits prod.splits)
  then show ?thesis using assms(2) ack_sum [of _ "pe_inflight p"] by (force simp: fp_acct_inv_def)
qed

lemma packetize_acct:
  assumes "fp_packetize b now p = (p', os)" "fp_acct_inv p"
  shows "fp_acct_inv p'"
  using assms
proof (induction b now p arbitrary: p' os rule: fp_packetize.induct)
  case (2 b now p)
  show ?case
  proof (cases "length (pe_txq p) > 0 \<and> pe_inflight_bytes p < of_nat FP_SEND_CACHE")
    case False
    then show ?thesis using 2(2,3) by auto
  next
    case True
    let ?n = "if length (pe_txq p) > FP_PKT_DATA_MAX then FP_PKT_DATA_MAX else length (pe_txq p)"
    let ?pk = "\<lparr>pk_num = pe_send_pkt_num p + 1, pk_seq = pe_send_seq_num p + of_nat ?n,
                  pk_len = of_nat ?n, pk_t_sent = now, pk_data = take ?n (pe_txq p)\<rparr>"
    let ?p = "p\<lparr>pe_send_pkt_num := pk_num ?pk, pe_send_seq_num := pk_seq ?pk,
       pe_txq := drop ?n (pe_txq p), pe_inflight := pe_inflight p @ [?pk],
       pe_inflight_bytes := pe_inflight_bytes p + of_nat ?n\<rparr>"
    let ?s = "fp_inflight_sum (pe_inflight p)"
    have n: "?n \<le> FP_PKT_DATA_MAX" by simp
    then have len: "unat (of_nat ?n :: u16) = ?n"
      by (intro unat_of_nat_small) (simp add: FP_PKT_DATA_MAX_def)
    have s: "pe_inflight_bytes p = of_nat ?s" "?s \<le> fp_window_max" using 2(3) by (auto simp: fp_acct_inv_def)
    have "unat (pe_inflight_bytes p) = ?s"
      unfolding s(1) using s(2)
      by (intro unat_of_nat_small) (simp add: fp_window_max_def FP_SEND_CACHE_def FP_PKT_DATA_MAX_def)
    then have "?s < FP_SEND_CACHE"
      using True by (simp add: word_less_nat_alt FP_SEND_CACHE_def)
    then have "?s + ?n \<le> fp_window_max" using n by (simp add: fp_window_max_def FP_SEND_CACHE_def)
    then have inv: "fp_acct_inv ?p"
      using 2(3) len s by (simp add: fp_acct_inv_def fp_inflight_sum_def)
    obtain p1 o1 where rec: "fp_packetize b now ?p = (p1, o1)" by fastforce
    have "p' = p1" using 2(2) True rec by (simp add: Let_def)
    then show ?thesis using "2.IH" [OF True refl refl _ inv] rec by simp
  qed
qed simp

lemma pump_acct:
  assumes "fp_pump ev fill p = (p', os)" "fp_acct_inv p"
  shows "fp_acct_inv p'"
proof -
  obtain p2 o2 p3 o3 p4 o4 p5 o5 o6 where st:
    "fp_pump_stall (fp_now_ms ev) (fp_pump_fill fill p) = (p2, o2)"
    "fp_packetize FP_SEND_BUDGET (fp_now_ms ev) p2 = (p3, o3)"
    "fp_pump_complete p3 = (p4, o4)" "fp_maybe_pack ev p4 = (p5, o5)"
    "fp_pump_reply_fin p5 = (p', o6)"
    by (rule pump_steps [OF assms(1)])
  have "fp_acct_inv (fp_pump_fill fill p)"
    using assms(2) by (simp add: fp_pump_fill_def fillp_peer_send_def Let_def fp_acct_inv_def)
  then have "fp_acct_inv p2"
    using st(1) by (auto simp: fp_pump_stall_def fp_acct_inv_def fp_inflight_sum_def
        split: list.splits if_splits)
  then have "fp_acct_inv p3" by (rule packetize_acct [OF st(2)])
  moreover have "fp_acct_inv p4 = fp_acct_inv p3" "fp_acct_inv p' = fp_acct_inv p5"
    using st(3,5) by (auto simp: fp_pump_complete_def fp_pump_reply_fin_def fp_acct_inv_def split: if_splits)
  ultimately show ?thesis using pack_acct(2) [OF st(4)] by simp
qed

lemma peer_step_acct: "fp_peer_step hmac e p p' \<Longrightarrow> fp_acct_inv p \<Longrightarrow> fp_acct_inv p'"
proof (induction rule: fp_peer_step.induct)
  case (step_datagram ev ty p buf p' os)
  have same: "fp_data_same p p' \<Longrightarrow> fp_acct_inv p'" using step_datagram(2) acct_data_same by blast
  show ?case
    using step_datagram same unfolding fp_dispatch_peer_def
    by (auto simp: on_fin_quiet dest: on_data_acct on_pack_acct on_nack_acct conn_req_ack_quiet
        conn_confirm_quiet conn_confirm_ack_quiet split: if_splits)
next
  case (step_tick ev fill p p' os f)
  then show ?case using tick_cases [OF step_tick(1)] pump_acct acct_data_same by blast
next
  case (step_send p d)
  then show ?case by (simp add: fillp_peer_send_def fp_acct_inv_def)
next
  case (step_close ev p p' os)
  then show ?case using request_close_quiet acct_data_same by blast
next
  case (step_fill_fn p b)
  then show ?case by (simp add: fp_acct_inv_def)
qed

lemma peer_new_acct: "fp_acct_inv (fp_peer_new ev port c)"
  by (simp add: fp_peer_new_def fp_acct_inv_def fp_inflight_sum_def fp_ofo_sum_def)

lemma peer_run_acct:
  assumes "(fp_peer_step hmac e)\<^sup>*\<^sup>* (fp_peer_new ev port c) p"
  shows "fp_acct_inv p"
  using assms by (induction rule: rtranclp_induct) (auto intro: peer_new_acct peer_step_acct)


section \<open>Properties\<close>



text \<open>
  The out-of-order counter leaks: an out-of-order packet that arrives a second time replaces
  its entry but is counted again, so the counter (and the \<open>rcvListBytes\<close> reported to the peer) is
  twice the bytes held.
\<close>

lemma fillp_ofo_counted_twice:
  assumes "fp_segs_ok cs" "1 < k" "k \<le> length cs" "pe_recv_pkt_num p = 0" "pe_ofo p = Map.empty"
    "pe_ofo_bytes p = 0"
  shows "\<exists>p1 o1 p2 o2. fp_on_data ev p (fp_data_dgram (fp_seg cs k)) = Some (p1, o1) \<and>
     fp_on_data ev' p1 (fp_data_dgram (fp_seg cs k)) = Some (p2, o2) \<and>
     fp_ofo_sum (pe_ofo p2) = length (cs ! (k - 1)) \<and>
     unat (pe_ofo_bytes p2) = 2 * length (cs ! (k - 1))"
proof -
  let ?w = "fp_data_dgram (fp_seg cs k)" let ?l = "of_nat (length (cs ! (k - 1))) :: u16"
  let ?L = "length (cs ! (k - 1))"
  have k: "1 \<le> k" using assms(2) by simp
  note seg = seg_dgram [OF assms(1) k assms(3)]
  have len: "length cs < 2 ^ 31" using assms(1) by (simp add: fp_segs_ok_def)
  have ahead: "fp_num_isbigger (of_nat k) 0" using isbigger_of_nat [of k 0] assms(2,3) len by simp
  have ne: "of_nat k \<noteq> (1 :: u32)" using seg_num_inj [of k 1] assms(2,3) len by auto
  have L: "?L \<le> 1400" using seg(3) by (simp add: FP_PKT_DATA_MAX_def)
  have ul: "unat (ucast ?l :: u64) = ?L" using seg(2) by (simp add: unat_ucast_up)
  have u2: "unat (ucast ?l + ucast ?l :: u64) = 2 * ?L"
    using ul L by (subst unat_add_lem [THEN iffD1]) auto
  have cap: "ucast ?l \<le> FP_OFO_MAX_BYTES" "ucast ?l + ucast ?l \<le> FP_OFO_MAX_BYTES"
    using ul u2 L by (simp_all add: word_le_nat_alt FP_OFO_MAX_BYTES_def)
  have rec: "\<lparr>pk_num = of_nat k, pk_seq = pk_seq (fp_seg cs k), pk_len = ?l, pk_t_sent = 0,
     pk_data = cs ! (k - 1)\<rparr> = fp_seg cs k" by (simp add: fp_seg_def)
  have gap: "fp_on_data v q ?w = Some (fp_maybe_nack v
      (q\<lparr>pe_ofo := (pe_ofo q)(of_nat k \<mapsto> fp_seg cs k), pe_ofo_bytes := pe_ofo_bytes q + ucast ?l\<rparr>))"
    if "pe_recv_pkt_num q = 0" "pe_ofo_bytes q + ucast ?l \<le> FP_OFO_MAX_BYTES" for v q
    using that ahead ne seg rec by (simp add: fp_on_data_def Let_def)
  have nack: "\<exists>q' os. fp_maybe_nack v q = (q', os) \<and> pe_recv_pkt_num q' = pe_recv_pkt_num q \<and>
      pe_ofo q' = pe_ofo q \<and> pe_ofo_bytes q' = pe_ofo_bytes q" for v q
    by (simp add: fp_maybe_nack_def)
  obtain p1 o1 where 1: "fp_on_data ev p ?w = Some (p1, o1)" "pe_recv_pkt_num p1 = 0"
    "pe_ofo p1 = [of_nat k \<mapsto> fp_seg cs k]" "pe_ofo_bytes p1 = ucast ?l"
    using gap [of p ev] nack [of ev "p\<lparr>pe_ofo := (pe_ofo p)(of_nat k \<mapsto> fp_seg cs k),
      pe_ofo_bytes := pe_ofo_bytes p + ucast ?l\<rparr>"] cap assms(4-6) by auto
  obtain p2 o2 where 2: "fp_on_data ev' p1 ?w = Some (p2, o2)"
    "pe_ofo p2 = [of_nat k \<mapsto> fp_seg cs k]" "pe_ofo_bytes p2 = ucast ?l + ucast ?l"
    using gap [of p1 ev'] nack [of ev' "p1\<lparr>pe_ofo := (pe_ofo p1)(of_nat k \<mapsto> fp_seg cs k),
      pe_ofo_bytes := pe_ofo_bytes p1 + ucast ?l\<rparr>"] cap 1 by auto
  have "fp_ofo_sum (pe_ofo p2) = ?L" using seg(2) by (simp add: 2(2) fp_ofo_sum_def fp_seg_def)
  then show ?thesis using 1(1) 2(1,3) u2 by (intro exI conjI) auto
qed

lemma fillp_ofo_counted_twice_witness:
  "\<exists>p1 o1 p2 o2. fp_on_data \<lparr>ev_us = 0, ev_r1 = 0, ev_r2 = 0\<rparr>
       (fp_peer_new \<lparr>ev_us = 0, ev_r1 = 0, ev_r2 = 0\<rparr> 7 False)
       (fp_data_dgram (fp_seg [[1], [2, 3]] 2)) = Some (p1, o1) \<and>
     fp_on_data \<lparr>ev_us = 0, ev_r1 = 0, ev_r2 = 0\<rparr> p1 (fp_data_dgram (fp_seg [[1], [2, 3]] 2)) = Some (p2, o2) \<and>
     fp_ofo_sum (pe_ofo p2) = length ([[1], [2, 3]] ! (2 - 1) :: bytes) \<and>
     unat (pe_ofo_bytes p2) = 2 * length ([[1], [2, 3]] ! (2 - 1) :: bytes)"
  by (rule fillp_ofo_counted_twice) (simp_all add: fp_segs_ok_def FP_PKT_DATA_MAX_def fp_peer_new_def)

text \<open>
  Data dropped after a FIN is reported as sent: when the peer has closed, the pump still asks
  the provider for data, drops every byte it queues, and, once the provider says it is done, tells
  the application that the transmission is complete.
\<close>

lemma fillp_closing_drops_data:
  assumes "pe_state p = FP_ST_CLOSING" "pe_has_fill p" "\<not> pe_fill_done p" "\<not> pe_tx_notified p"
    "pe_txq p = []" "pe_inflight p = []"
  shows "FpTxComplete \<in> set (snd (fp_pump ev (d, True) p)) \<and>
     (\<forall>w. FpSend w \<in> set (snd (fp_pump ev (d, True) p)) \<longrightarrow> fp_wire_type w \<noteq> Some FP_PKT_DATA)"
proof -
  let ?p = "p\<lparr>pe_fill_done := True\<rparr>"
  have fill: "fp_pump_fill (d, True) p = ?p"
    using assms by (simp add: fp_pump_fill_def fillp_peer_send_def FP_TXQ_WATERMARK_def)
  have stall: "fp_pump_stall t ?p = (?p, [])" for t
    using assms by (simp add: fp_pump_stall_def)
  have pkt: "fp_packetize b t ?p = (?p, [])" for b t
    using assms by (cases b) simp_all
  have cmp: "fp_pump_complete ?p = (?p\<lparr>pe_tx_notified := True\<rparr>, [FpTxComplete])"
    using assms by (simp add: fp_pump_complete_def)
  obtain p5 o5 where mp: "fp_maybe_pack ev (?p\<lparr>pe_tx_notified := True\<rparr>) = (p5, o5)" by fastforce
  obtain p6 o6 where fin: "fp_pump_reply_fin p5 = (p6, o6)" by fastforce
  have pump: "fp_pump ev (d, True) p = (p6, FpTxComplete # o5 @ o6)"
    using fill stall pkt cmp mp fin by (simp add: fp_pump_def Let_def)
  have sends: "FpSend w \<in> set os \<Longrightarrow> w \<in> set (fp_sends os)" for w os
    by (auto simp: fp_sends_def intro!: bexI)
  have "w \<in> set (fp_sends o5) \<Longrightarrow> fp_wire_type w \<noteq> Some FP_PKT_DATA" for w
    using maybe_pack_tx [OF mp] by (simp add: fp_tx_same_def)
  moreover have "w \<in> set (fp_sends o6) \<Longrightarrow> fp_wire_type w \<noteq> Some FP_PKT_DATA" for w
    using fin by (auto simp: fp_pump_reply_fin_def dest: sendto_types(1) split: if_splits)
  ultimately show ?thesis using pump sends by auto
qed

lemma fillp_closing_drops_data_witness:
  "FpTxComplete \<in> set (snd (fp_pump \<lparr>ev_us = 0, ev_r1 = 0, ev_r2 = 0\<rparr> ([1, 2, 3], True)
     ((fp_peer_new \<lparr>ev_us = 0, ev_r1 = 0, ev_r2 = 0\<rparr> 7 False)\<lparr>pe_state := FP_ST_CLOSING, pe_has_fill := True\<rparr>)))"
  by (rule fillp_closing_drops_data [THEN conjunct1]) (simp_all add: fp_peer_new_def)

end
