(* ===== verification/FillpHandshake.thy ===== *)
theory FillpHandshake
  imports FillpSafety
begin

text \<open>
  The life of a fillp peer: the four-way handshake, who may establish a connection, the order of
  the states, and the end of a closing peer.
\<close>

section \<open>States only move forward\<close>

fun fp_rank :: "fp_state \<Rightarrow> nat" where
  "fp_rank FP_ST_PENDING = 0"
| "fp_rank FP_ST_ESTABLISHED = 1"
| "fp_rank FP_ST_CLOSING = 2"
| "fp_rank FP_ST_CLOSED = 3"

lemma flush_state: "fp_flush_ofo p = (p', os) \<Longrightarrow> pe_state p' = pe_state p \<and> pe_is_client p' = pe_is_client p"
proof (induction p arbitrary: p' os rule: fp_flush_ofo.induct)
  case (1 p)
  show ?case
  proof (cases "pe_ofo p (pe_recv_pkt_num p + 1)")
    case None
    then show ?thesis using 1(2) by (simp add: fp_flush_ofo.simps [of p])
  next
    case (Some nxt)
    then show ?thesis using 1(1) [OF Some] 1(2) by (auto simp: fp_flush_ofo.simps [of p] split: prod.splits)
  qed
qed

lemma pack_state:
  "fp_send_pack ev p = (p', os) \<Longrightarrow> pe_state p' = pe_state p \<and> pe_is_client p' = pe_is_client p"
  "fp_maybe_pack ev p = (p', os) \<Longrightarrow> pe_state p' = pe_state p \<and> pe_is_client p' = pe_is_client p"
  "fp_maybe_nack ev p = (p', os) \<Longrightarrow> pe_state p' = pe_state p \<and> pe_is_client p' = pe_is_client p"
  by (auto simp: fp_send_pack_def fp_maybe_pack_def fp_maybe_nack_def split: if_splits)

lemma on_data_state:
  assumes "fp_on_data ev p buf = Some (p', os)"
  shows "pe_state p' = pe_state p \<and> pe_is_client p' = pe_is_client p"
  using assms
proof (cases rule: on_data_cases)
  case (in_order x y z p1 o1 o2 d)
  then show ?thesis using flush_state [OF in_order(1)] pack_state(2) [OF in_order(2)] by simp
next
  case (stored w pk l)
  then show ?thesis using pack_state(3) [OF stored(3)] by simp
qed (use pack_state in auto)

lemma packetize_state:
  "fp_packetize b now p = (p', os) \<Longrightarrow> pe_state p' = pe_state p \<and> pe_is_client p' = pe_is_client p
     \<and> pe_t_stage p' = pe_t_stage p"
proof (induction b now p arbitrary: p' os rule: fp_packetize.induct)
  case (2 b now p)
  show ?case
  proof (cases "length (pe_txq p) > 0 \<and> pe_inflight_bytes p < of_nat FP_SEND_CACHE")
    case True
    then show ?thesis using "2.IH" [OF True refl refl] "2.prems"
      by (simp add: Let_def split: prod.splits del: if_split)
  qed (use "2.prems" in auto)
qed simp

lemma pump_state:
  assumes "fp_pump ev fill p = (p', os)"
  shows "pe_state p' = pe_state p \<and> pe_is_client p' = pe_is_client p \<and> pe_t_stage p' = pe_t_stage p"
proof -
  obtain p2 o2 p3 o3 p4 o4 p5 o5 o6 where st:
    "fp_pump_stall (fp_now_ms ev) (fp_pump_fill fill p) = (p2, o2)"
    "fp_packetize FP_SEND_BUDGET (fp_now_ms ev) p2 = (p3, o3)"
    "fp_pump_complete p3 = (p4, o4)" "fp_maybe_pack ev p4 = (p5, o5)"
    "fp_pump_reply_fin p5 = (p', o6)"
    by (rule pump_steps [OF assms])
  have "pe_state p2 = pe_state p \<and> pe_is_client p2 = pe_is_client p \<and> pe_t_stage p2 = pe_t_stage p"
    using st(1) by (auto simp: fp_pump_stall_def fp_pump_fill_def fillp_peer_send_def Let_def
        split: list.splits if_splits)
  moreover have "pe_state p4 = pe_state p3 \<and> pe_is_client p4 = pe_is_client p3 \<and> pe_t_stage p4 = pe_t_stage p3"
    using st(3) by (auto simp: fp_pump_complete_def split: if_splits)
  moreover have "pe_state p5 = pe_state p4 \<and> pe_is_client p5 = pe_is_client p4 \<and> pe_t_stage p5 = pe_t_stage p4"
    using st(4) by (auto simp: fp_maybe_pack_def fp_send_pack_def split: if_splits)
  moreover have "pe_state p' = pe_state p5 \<and> pe_is_client p' = pe_is_client p5 \<and> pe_t_stage p' = pe_t_stage p5"
    using st(5) by (auto simp: fp_pump_reply_fin_def split: if_splits)
  ultimately show ?thesis using packetize_state [OF st(2)] by simp
qed

lemma on_nack_pack_state:
  "fp_on_nack ev p buf = Some (p', os) \<Longrightarrow> pe_state p' = pe_state p"
  "fp_on_pack p buf = Some (p', os) \<Longrightarrow> pe_state p' = pe_state p"
  by (auto simp: fp_on_nack_def fp_on_pack_def split: Option.bind_splits option.splits prod.splits)

lemma request_close_state:
  "fp_peer_request_close ev p = (p', os) \<Longrightarrow>
     pe_state p' = (if pe_state p = FP_ST_CLOSED then FP_ST_CLOSED else FP_ST_CLOSING)"
  by (auto simp: fp_peer_request_close_def split: if_splits)

text \<open>How the handshake handlers move the state.\<close>

lemma conn_req_ack_state:
  "fp_handle_conn_req_ack ev e p buf = Some (p', os) \<Longrightarrow> pe_state p' = pe_state p"
  by (auto simp: fp_handle_conn_req_ack_def split: if_splits option.splits Option.bind_splits)

lemma conn_confirm_state:
  assumes "fp_handle_conn_confirm hmac ev e p buf = Some (p', os)" "pe_state p' \<noteq> pe_state p"
  shows "pe_state p' = FP_ST_CLOSING \<and> pe_state p \<in> {FP_ST_PENDING, FP_ST_ESTABLISHED} \<or>
    pe_state p' = FP_ST_ESTABLISHED \<and> pe_state p = FP_ST_PENDING \<and> \<not> pe_is_client p \<and>
     (\<exists>tag cookie la. fillp_decode_conn_confirm buf = Some (Some (tag, cookie, la)) \<and>
        fillp_cookie_verify hmac cookie (en_mac_key e) (en_local_addr e))"
  using assms
  by (auto simp: fp_handle_conn_confirm_def fp_peer_established_def Let_def
      dest!: request_close_state split: if_splits option.splits Option.bind_splits)

lemma conn_confirm_ack_state:
  assumes "fp_handle_conn_confirm_ack ev p buf = Some (p', os)" "pe_state p' \<noteq> pe_state p"
  shows "pe_state p' = FP_ST_ESTABLISHED \<and> pe_state p = FP_ST_PENDING \<and> pe_is_client p \<and>
     (\<exists>x. fillp_decode_conn_confirm_ack buf = Some (Some x))"
  using assms
  by (auto simp: fp_handle_conn_confirm_ack_def fp_peer_established_def
      split: if_splits option.splits Option.bind_splits)

lemma on_fin_state: "pe_state (fp_on_fin ev p) = (if pe_state p = FP_ST_CLOSED then FP_ST_CLOSED else FP_ST_CLOSING)"
  by (simp add: fp_on_fin_def Let_def)

lemma dispatch_state:
  assumes "fp_dispatch_peer hmac ev e ty p buf = Some (p', os)" "pe_state p' \<noteq> pe_state p"
  shows "pe_state p' = FP_ST_CLOSING \<and> pe_state p \<in> {FP_ST_PENDING, FP_ST_ESTABLISHED} \<or>
    pe_state p' = FP_ST_ESTABLISHED \<and> pe_state p = FP_ST_PENDING \<and>
     (if pe_is_client p
      then ty = FP_PKT_CONN_CONFIRM_ACK \<and> (\<exists>x. fillp_decode_conn_confirm_ack buf = Some (Some x))
      else ty = FP_PKT_CONN_CONFIRM \<and>
        (\<exists>tag cookie la. fillp_decode_conn_confirm buf = Some (Some (tag, cookie, la)) \<and>
        fillp_cookie_verify hmac cookie (en_mac_key e) (en_local_addr e)))"
proof -
  have fin: ?thesis if "p' = fp_on_fin ev p"
    using that assms(2) on_fin_state [of ev p] by (cases "pe_state p") auto
  consider "ty = FP_PKT_CONN_REQ_ACK" "fp_handle_conn_req_ack ev e p buf = Some (p', os)"
    | "ty = FP_PKT_CONN_CONFIRM" "fp_handle_conn_confirm hmac ev e p buf = Some (p', os)"
    | "ty = FP_PKT_CONN_CONFIRM_ACK" "fp_handle_conn_confirm_ack ev p buf = Some (p', os)"
    | "fp_on_data ev p buf = Some (p', os)" | "fp_on_nack ev p buf = Some (p', os)"
    | "fp_on_pack p buf = Some (p', os)" | "p' = fp_on_fin ev p" | "p' = p"
    using assms(1) unfolding fp_dispatch_peer_def by (auto split: if_splits)
  then show ?thesis
  proof cases
    case 2
    then show ?thesis using conn_confirm_state [OF 2(2) assms(2)] by auto
  next
    case 3
    then show ?thesis using conn_confirm_ack_state [OF 3(2) assms(2)] by auto
  qed (use assms(2) fin conn_req_ack_state on_data_state on_nack_pack_state in auto)
qed

lemma tick_state:
  assumes "fp_tick_peer ev fill e p = (p', os, f)" "pe_state p' \<noteq> pe_state p"
  shows "pe_state p = FP_ST_PENDING \<and> pe_state p' = FP_ST_CLOSING"
proof (cases "pe_state p = FP_ST_ESTABLISHED \<or> pe_state p = FP_ST_CLOSING")
  case True
  then show ?thesis using assms pump_state [of ev fill p p' os] tick_cases [OF assms(1)] by auto
next
  case False
  then show ?thesis
    using assms by (cases "pe_state p") (auto simp: fp_tick_peer_def Let_def
      dest!: request_close_state split: if_splits prod.splits)
qed

lemma peer_step_rank: "fp_peer_step hmac e p p' \<Longrightarrow> fp_rank (pe_state p) \<le> fp_rank (pe_state p')"
proof (induction rule: fp_peer_step.induct)
  case (step_datagram ev ty p buf p' os)
  then show ?case using dispatch_state [OF step_datagram] by (cases "pe_state p' = pe_state p") auto
next
  case (step_tick ev fill p p' os f)
  then show ?case using tick_state [OF step_tick] by (cases "pe_state p' = pe_state p") auto
next
  case (step_close ev p p' os)
  then show ?case using request_close_state [OF step_close] by (cases "pe_state p") auto
qed (simp_all add: fillp_peer_send_def)


section \<open>The handshake\<close>

lemma mgmt_head:
  "fillp_encode_conn_req c pr sc rc ts = Some w \<Longrightarrow> 12 \<le> length w \<and>
     (\<exists>h. fillp_decode_head w = Some (Some h) \<and> fh_type h = FP_PKT_CONN_REQ)"
  "fillp_encode_conn_req_ack c tag ck ts = Some w \<Longrightarrow> 12 \<le> length w \<and>
     (\<exists>h. fillp_decode_head w = Some (Some h) \<and> fh_type h = FP_PKT_CONN_REQ_ACK)"
  "fillp_encode_conn_confirm c tag ck la = Some w \<Longrightarrow> 12 \<le> length w \<and>
     (\<exists>h. fillp_decode_head w = Some (Some h) \<and> fh_type h = FP_PKT_CONN_CONFIRM)"
  "fillp_encode_conn_confirm_ack c sc rc ps la = Some w \<Longrightarrow> 12 \<le> length w \<and>
     (\<exists>h. fillp_decode_head w = Some (Some h) \<and> fh_type h = FP_PKT_CONN_CONFIRM_ACK)"
  by (auto simp: fillp_mgmt_defs decode_encode_head fp_pkt_types split: if_splits)

lemma handle_known:
  assumes "12 \<le> length w" "fillp_decode_head w = Some (Some h)" "fh_type h \<noteq> FP_PKT_CONN_REQ"
    "en_peers e k = Some p" "fp_dispatch_peer hmac ev e (fh_type h) p w = Some (p', os)"
  shows "fp_handle_datagram hmac ev e k w = Some (e\<lparr>en_peers := (en_peers e)(k \<mapsto> p')\<rparr>, os)"
  using assms by (simp add: fp_handle_datagram_def FILLP_HLEN_def)

text \<open>Each leg of the handshake.\<close>

lemma leg_connect:
  assumes "\<not> en_closed a"
  shows "\<exists>w p. fillp_engine_connect ev True a kb = Some (a\<lparr>en_peers := (en_peers a)(kb \<mapsto> p)\<rparr>, [FpSend w])
     \<and> pe_state p = FP_ST_PENDING \<and> pe_is_client p \<and>
     (\<exists>pr sc rc ts. fillp_encode_conn_req 32 pr sc rc ts = Some w)"
  using assms
  by (auto simp: fillp_engine_connect_def fp_resend_conn_req_def Let_def fp_sendto_def fillp_lens
      fp_peer_new_def fillp_mgmt_defs)

lemma leg_req:
  assumes "fillp_encode_conn_req 32 pr sc rc ts = Some w" "en_peers b ka = None"
    "\<And>k i. length (hmac k i) = 32" "length (fst ka) = 4"
  shows "\<exists>w' p. fp_handle_datagram hmac ev b ka w = Some (b\<lparr>en_peers := (en_peers b)(ka \<mapsto> p)\<rparr>, [FpSend w'])
     \<and> pe_state p = FP_ST_PENDING \<and> \<not> pe_is_client p \<and>
     (\<exists>ck ts. fillp_encode_conn_req_ack 132 1 ck ts = Some w' \<and> length ck = FILLP_COOKIE_LEN \<and>
        fillp_cookie_verify hmac ck (en_mac_key b) (en_local_addr b))"
proof -
  have addr: "length (fillp_addr_fill_ipv4 port (fst ka)) = FILLP_ADDR_LEN" for port
    using assms(4) by (simp add: fillp_addr_fill_ipv4_def fillp_lens)
  note ck = cookie_fill_length [of hmac "fillp_addr_fill_ipv4 (snd ka) (fst ka)", OF assms(3) addr]
    cookie_fill_verify [of hmac "fillp_addr_fill_ipv4 (snd ka) (fst ka)", OF assms(3) addr]
  have ack: "\<exists>w'. fillp_encode_conn_req_ack (FILLP_HLEN + FILLP_CONN_REQ_ACK_LEN) 1 c t = Some w'" for c t
    by (simp add: fillp_mgmt_defs)
  obtain h where h: "fillp_decode_head w = Some (Some h)" "fh_type h = FP_PKT_CONN_REQ" "12 \<le> length w"
    using mgmt_head(1) [OF assms(1)] by blast
  let ?life = "FP_COOKIE_LIFETIME_US + (if pr > FP_PRESERVE_MAX_US then FP_PRESERVE_MAX_US else pr)"
  let ?ck = "fillp_cookie_fill hmac (en_mac_key b) (ev_us ev) ?life (ev_r1 ev) (ev_r2 ev)
     0 0 sc rc (en_port b) 2 (fillp_addr_fill_ipv4 (snd ka) (fst ka)) (en_local_addr b)"
  obtain w' where w': "fillp_encode_conn_req_ack 132 1 ?ck (ev_us ev) = Some w'"
    using ack [of ?ck "ev_us ev"] by (auto simp: fillp_lens)
  show ?thesis
    using h assms(2) w' ck conn_req_rt [OF assms(1)]
    by (intro exI [of _ w'] exI [of _ "(fp_peer_new ev (snd ka) False)\<lparr>pe_cookie := ?ck\<rparr>"])
      (auto simp: fp_handle_datagram_def fp_handle_conn_req_def Let_def fp_send_conn_req_ack_def
        fp_sendto_def fillp_lens fp_peer_new_def)
qed

lemma leg_req_ack:
  assumes "fillp_encode_conn_req_ack 132 tag ck ts = Some w" "length ck = FILLP_COOKIE_LEN"
    "en_peers a kb = Some p" "pe_state p = FP_ST_PENDING" "pe_is_client p"
  shows "\<exists>w' p'. fp_handle_datagram hmac ev a kb w = Some (a\<lparr>en_peers := (en_peers a)(kb \<mapsto> p')\<rparr>, [FpSend w'])
     \<and> pe_state p' = FP_ST_PENDING \<and> pe_is_client p' \<and>
     fillp_encode_conn_confirm 152 tag ck (en_local_addr a) = Some w'"
proof -
  obtain h where h: "fillp_decode_head w = Some (Some h)" "fh_type h = FP_PKT_CONN_REQ_ACK" "12 \<le> length w"
    using mgmt_head(2) [OF assms(1)] by blast
  obtain w' where w': "fillp_encode_conn_confirm 152 tag ck (en_local_addr a) = Some w'"
    by (simp add: fillp_mgmt_defs fillp_lens)
  let ?p = "p\<lparr>pe_cookie := ck, pe_hs_tag := tag, pe_hs_confirm_sent := True, pe_t_stage := fp_now_ms ev\<rparr>"
  have "fp_dispatch_peer hmac ev a (fh_type h) p w = Some (?p, [FpSend w'])"
    using assms(4,5) w' h conn_req_ack_rt [OF assms(1,2)]
    by (simp add: fp_dispatch_peer_def fp_handle_conn_req_ack_def fp_sendto_def fillp_lens)
  then show ?thesis
    using handle_known [OF h(3,1) _ assms(3)] h(2) assms(4,5) w' by (auto simp: fp_pkt_types)
qed

lemma leg_confirm:
  assumes "fillp_encode_conn_confirm 152 tag ck la = Some w" "length ck = FILLP_COOKIE_LEN"
    "length la = FILLP_ADDR_LEN" "en_peers b ka = Some p" "pe_state p = FP_ST_PENDING" "\<not> pe_is_client p"
    "fillp_cookie_verify hmac ck (en_mac_key b) (en_local_addr b)"
  shows "\<exists>w' p'. fp_handle_datagram hmac ev b ka w =
       Some (b\<lparr>en_peers := (en_peers b)(ka \<mapsto> p')\<rparr>, [FpSend w', FpEstablished])
     \<and> pe_state p' = FP_ST_ESTABLISHED \<and>
     (\<exists>sc rc ps. fillp_encode_conn_confirm_ack 52 sc rc ps (en_local_addr b) = Some w')"
proof -
  obtain h where h: "fillp_decode_head w = Some (Some h)" "fh_type h = FP_PKT_CONN_CONFIRM" "12 \<le> length w"
    using mgmt_head(3) [OF assms(1)] by blast
  obtain w' where w': "fillp_encode_conn_confirm_ack 52 (of_nat FP_SEND_CACHE) (of_nat FP_RECV_CACHE)
      (of_nat FP_PKT_DATA_MAX) (en_local_addr b) = Some w'"
    by (simp add: fillp_mgmt_defs fillp_lens)
  have "fp_dispatch_peer hmac ev b (fh_type h) p w =
     Some (fst (fp_peer_established ev p), [FpSend w', FpEstablished])"
    using assms(5-7) w' h conn_confirm_rt [OF assms(1-3)]
    by (simp add: fp_dispatch_peer_def fp_handle_conn_confirm_def fp_sendto_def fillp_lens
        fp_pkt_types fp_peer_established_def)
  then show ?thesis
    using handle_known [OF h(3,1) _ assms(4)] h(2) w'
    by (intro exI [of _ w'] exI [of _ "fst (fp_peer_established ev p)"] conjI)
      (auto simp: fp_pkt_types fp_peer_established_def)
qed

lemma leg_confirm_ack:
  assumes "fillp_encode_conn_confirm_ack 52 sc rc ps la = Some w" "length la = FILLP_ADDR_LEN"
    "en_peers a kb = Some p" "pe_state p = FP_ST_PENDING" "pe_is_client p"
  shows "\<exists>p'. fp_handle_datagram hmac ev a kb w = Some (a\<lparr>en_peers := (en_peers a)(kb \<mapsto> p')\<rparr>, [FpEstablished])
     \<and> pe_state p' = FP_ST_ESTABLISHED"
proof -
  obtain h where h: "fillp_decode_head w = Some (Some h)" "fh_type h = FP_PKT_CONN_CONFIRM_ACK" "12 \<le> length w"
    using mgmt_head(4) [OF assms(1)] by blast
  have "fp_dispatch_peer hmac ev a (fh_type h) p w = Some (fst (fp_peer_established ev p), [FpEstablished])"
    using assms(4,5) h conn_confirm_ack_rt [OF assms(1,2)]
    by (simp add: fp_dispatch_peer_def fp_handle_conn_confirm_ack_def fp_pkt_types fp_peer_established_def)
  then show ?thesis
    using handle_known [OF h(3,1) _ assms(3)] h(2) by (auto simp: fp_pkt_types fp_peer_established_def)
qed


section \<open>The end of a closing peer\<close>

lemma tick_all_Cons:
  assumes "fp_tick_all ev fills (j # ks) e fin = (e', os, fin')"
  obtains (absent) "en_peers e j = None" "fp_tick_all ev fills ks e fin = (e', os, fin')"
    | (present) p p' o1 f os' where "en_peers e j = Some p"
        "fp_tick_peer ev (fills j) e p = (p', o1, f)"
        "fp_tick_all ev fills ks (e\<lparr>en_peers := (en_peers e)(j \<mapsto> p')\<rparr>)
           (if f then j # fin else fin) = (e', os', fin')" "os = map (Pair j) o1 @ os'"
  using assms by (auto split: option.splits prod.splits)

lemma tick_all_other:
  "fp_tick_all ev fills ks e fin = (e', os, fin') \<Longrightarrow> k \<notin> set ks \<Longrightarrow>
     en_peers e' k = en_peers e k \<and> (\<forall>x. (k, x) \<notin> set os)"
proof (induction ks arbitrary: e os fin)
  case (Cons j ks)
  from Cons.prems(1) show ?case
  proof (cases rule: tick_all_Cons)
    case absent
    then show ?thesis using Cons.IH [OF absent(2)] Cons.prems(2) by simp
  next
    case (present p p' o1 f os')
    show ?thesis using Cons.IH [OF present(3)] Cons.prems(2) present(4) by auto
  qed
qed simp

lemma tick_all_fin:
  "fp_tick_all ev fills ks e fin = (e', os, fin') \<Longrightarrow> set fin \<subseteq> set fin'"
proof (induction ks arbitrary: e os fin)
  case (Cons j ks)
  from Cons.prems show ?case
  proof (cases rule: tick_all_Cons)
    case (present p p' o1 f os')
    from Cons.IH [OF present(3)] show ?thesis by (auto split: if_splits)
  qed (rule Cons.IH)
qed simp

text \<open>A closing peer whose time is up goes on the list, wherever it is in the snapshot.\<close>

lemma tick_closing:
  assumes "pe_state p = FP_ST_CLOSING" "fp_now_ms ev - pe_t_stage p \<ge> FP_CLOSE_TIMEOUT_MS"
  shows "fp_tick_peer ev fill e p = (fst (fp_pump ev fill p), snd (fp_pump ev fill p), True)"
proof -
  obtain p' os where p: "fp_pump ev fill p = (p', os)" by fastforce
  show ?thesis using assms pump_state [OF p] by (simp add: fp_tick_peer_def Let_def p)
qed

lemma tick_all_at:
  assumes "fp_tick_all ev fills ks e fin = (e', os, fin')" "distinct ks" "k \<in> set ks"
    "en_peers e k = Some p" "pe_state p = FP_ST_CLOSING"
    "fp_now_ms ev - pe_t_stage p \<ge> FP_CLOSE_TIMEOUT_MS"
  shows "en_peers e' k = Some (fst (fp_pump ev (fills k) p)) \<and> k \<in> set fin'"
  using assms(1-4)
proof (induction ks arbitrary: e os fin)
  case (Cons j ks)
  from Cons.prems(1) show ?case
  proof (cases rule: tick_all_Cons)
    case absent
    then show ?thesis using Cons by auto
  next
    case (present q q' o1 f os')
    show ?thesis
    proof (cases "j = k")
      case True
      then have "q' = fst (fp_pump ev (fills k) p)" "f"
        using present(1,2) Cons.prems(4) tick_closing [OF assms(5,6)] by auto
      then show ?thesis
        using tick_all_other [OF present(3), of k] tick_all_fin [OF present(3)] Cons.prems(2) True by auto
    next
      case False
      then show ?thesis using Cons.IH [OF present(3)] Cons.prems by simp
    qed
  qed
qed simp

lemma finalize_all_Cons:
  assumes "fp_finalize_all (j # ks) e = (e', os)"
  obtains (absent) "en_peers e j = None" "fp_finalize_all ks e = (e', os)"
    | (dead) q where "en_peers e j = Some q" "pe_state q = FP_ST_CLOSED"
        "fp_finalize_all ks e = (e', os)"
    | (closed) q r os' where "en_peers e j = Some q" "pe_state q \<noteq> FP_ST_CLOSED"
        "fp_finalize_all ks (e\<lparr>en_peers := (en_peers e)(j := None)\<rparr>) = (e', os')"
        "os = (j, FpClosed r) # os'"
  using assms
  by (auto simp: fp_finalize_at_def fp_peer_finalize_def split: option.splits prod.splits if_splits)

lemma finalize_all_none:
  "fp_finalize_all ks e = (e', os) \<Longrightarrow> en_peers e k = None \<Longrightarrow>
     en_peers e' k = None \<and> (\<forall>x. (k, x) \<notin> set os)"
proof (induction ks arbitrary: e os)
  case (Cons j ks)
  from Cons.prems(1) show ?case
  proof (cases rule: finalize_all_Cons)
    case (closed q r os')
    then have "j \<noteq> k" using Cons.prems(2) by auto
    then show ?thesis using Cons.IH [OF closed(3)] closed(4) Cons.prems(2) by auto
  qed (use Cons in auto)
qed simp

lemma finalize_all_gone:
  "fp_finalize_all ks e = (e', os) \<Longrightarrow> k \<in> set ks \<Longrightarrow> en_peers e k = Some p \<Longrightarrow>
     pe_state p \<noteq> FP_ST_CLOSED \<Longrightarrow>
     en_peers e' k = None \<and> (\<exists>r. filter (\<lambda>(j, x). j = k) os = [(k, FpClosed r)])"
proof (induction ks arbitrary: e os)
  case (Cons j ks)
  from Cons.prems(1) show ?case
  proof (cases rule: finalize_all_Cons)
    case (closed q r os')
    show ?thesis
    proof (cases "j = k")
      case True
      have gone: "en_peers e' k = None" "\<forall>x. (k, x) \<notin> set os'"
        using finalize_all_none [OF closed(3), of k] True by simp_all
      then have "filter (\<lambda>(j, x). j = k) os' = []" by (auto simp: filter_empty_conv)
      then show ?thesis using gone(1) closed(4) True by simp
    next
      case False
      then show ?thesis using Cons.IH [OF closed(3)] closed(4) Cons.prems by simp
    qed
  qed (use Cons in auto)
qed simp


lemma tick_ends_closing:
  assumes "fp_on_tick ev fills ks e = (e', os)" "distinct ks" "k \<in> set ks"
    "en_peers e k = Some p" "pe_state p = FP_ST_CLOSING"
    "fp_now_ms ev - pe_t_stage p \<ge> FP_CLOSE_TIMEOUT_MS"
  shows "en_peers e' k = None \<and> (\<exists>r. (k, FpClosed r) \<in> set os)"
proof -
  obtain e1 o1 fin where t: "fp_tick_all ev fills ks e [] = (e1, o1, fin)" by (metis prod_cases3)
  obtain e2 o2 where f: "fp_finalize_all fin e1 = (e2, o2)" by fastforce
  have r: "e' = e2" "os = o1 @ o2" using assms(1) t f by (simp_all add: fp_on_tick_def)
  obtain q oq where q: "fp_pump ev (fills k) p = (q, oq)" by fastforce
  have "en_peers e1 k = Some q" "k \<in> set fin" "pe_state q \<noteq> FP_ST_CLOSED"
    using tick_all_at [OF t assms(2-6)] q pump_state [OF q] assms(5) by auto
  from finalize_all_gone [OF f this(2,1,3)] obtain x where
    gone: "en_peers e2 k = None" "filter (\<lambda>(j, x). j = k) o2 = [(k, FpClosed x)]" by blast
  have "(k, FpClosed x) \<in> set (filter (\<lambda>(j, x). j = k) o2)" by (simp add: gone(2))
  then show ?thesis using gone(1) r by auto
qed

section \<open>Properties\<close>

text \<open>
  C20. The handshake: a client that connects to an engine which does not know it yet, with all four
  datagrams delivered, ends with both sides established and both applications told; the server's
  cookie travels out and back and verifies.
\<close>

lemma fillp_handshake:
  assumes "\<And>k i. length (hmac k i) = 32" "\<not> en_closed a" "en_peers b ka = None"
    "length (fst ka) = 4" "length (en_local_addr a) = FILLP_ADDR_LEN"
    "length (en_local_addr b) = FILLP_ADDR_LEN"
  shows "\<exists>a1 b1 a2 b2 a3 w1 w2 w3 w4 pa pb.
     fillp_engine_connect ev1 True a kb = Some (a1, [FpSend w1]) \<and>
     fp_handle_datagram hmac ev2 b ka w1 = Some (b1, [FpSend w2]) \<and>
     fp_handle_datagram hmac ev3 a1 kb w2 = Some (a2, [FpSend w3]) \<and>
     fp_handle_datagram hmac ev4 b1 ka w3 = Some (b2, [FpSend w4, FpEstablished]) \<and>
     fp_handle_datagram hmac ev5 a2 kb w4 = Some (a3, [FpEstablished]) \<and>
     en_peers a3 kb = Some pa \<and> pe_state pa = FP_ST_ESTABLISHED \<and>
     en_peers b2 ka = Some pb \<and> pe_state pb = FP_ST_ESTABLISHED"
proof -
  obtain w1 p1 pr sc rc ts where 1: "fillp_engine_connect ev1 True a kb =
      Some (a\<lparr>en_peers := (en_peers a)(kb \<mapsto> p1)\<rparr>, [FpSend w1])"
    "pe_state p1 = FP_ST_PENDING" "pe_is_client p1" "fillp_encode_conn_req 32 pr sc rc ts = Some w1"
    using leg_connect [OF assms(2)] by blast
  let ?a1 = "a\<lparr>en_peers := (en_peers a)(kb \<mapsto> p1)\<rparr>"
  obtain w2 p2 ck ts2 where 2: "fp_handle_datagram hmac ev2 b ka w1 =
      Some (b\<lparr>en_peers := (en_peers b)(ka \<mapsto> p2)\<rparr>, [FpSend w2])"
    "pe_state p2 = FP_ST_PENDING" "\<not> pe_is_client p2"
    "fillp_encode_conn_req_ack 132 1 ck ts2 = Some w2" "length ck = FILLP_COOKIE_LEN"
    "fillp_cookie_verify hmac ck (en_mac_key b) (en_local_addr b)"
    using leg_req [where hmac = hmac and ev = ev2, OF 1(4) assms(3,1,4)] by blast
  let ?b1 = "b\<lparr>en_peers := (en_peers b)(ka \<mapsto> p2)\<rparr>"
  obtain w3 p3 where 3: "fp_handle_datagram hmac ev3 ?a1 kb w2 =
      Some (?a1\<lparr>en_peers := (en_peers ?a1)(kb \<mapsto> p3)\<rparr>, [FpSend w3])"
    "pe_state p3 = FP_ST_PENDING" "pe_is_client p3"
    "fillp_encode_conn_confirm 152 1 ck (en_local_addr a) = Some w3"
    using leg_req_ack [OF 2(4,5), of ?a1 kb p1 hmac ev3] 1(2,3) by auto
  let ?a2 = "?a1\<lparr>en_peers := (en_peers ?a1)(kb \<mapsto> p3)\<rparr>"
  obtain w4 p4 sc4 rc4 ps4 where 4: "fp_handle_datagram hmac ev4 ?b1 ka w3 =
      Some (?b1\<lparr>en_peers := (en_peers ?b1)(ka \<mapsto> p4)\<rparr>, [FpSend w4, FpEstablished])"
    "pe_state p4 = FP_ST_ESTABLISHED"
    "fillp_encode_conn_confirm_ack 52 sc4 rc4 ps4 (en_local_addr b) = Some w4"
    using leg_confirm [OF 3(4) 2(5) assms(5), of ?b1 ka p2 hmac ev4] 2(2,3,6) by auto
  obtain p5 where 5: "fp_handle_datagram hmac ev5 ?a2 kb w4 =
      Some (?a2\<lparr>en_peers := (en_peers ?a2)(kb \<mapsto> p5)\<rparr>, [FpEstablished])"
    "pe_state p5 = FP_ST_ESTABLISHED"
    using leg_confirm_ack [OF 4(3) assms(6), of ?a2 kb p3 hmac ev5] 3(2,3) by auto
  show ?thesis
    by (intro exI conjI, rule 1(1), rule 2(1), rule 3(1), rule 4(1), rule 5(1), simp, rule 5(2),
        simp, rule 4(2))
qed

lemma fillp_handshake_witness:
  "\<exists>a1 b1 a2 b2 a3 w1 w2 w3 w4 pa pb.
     fillp_engine_connect \<lparr>ev_us = 7, ev_r1 = 1, ev_r2 = 2\<rparr> True
       (fillp_engine_new 1000 (replicate 32 1)) ([10, 0, 0, 2], 2000) = Some (a1, [FpSend w1]) \<and>
     fp_handle_datagram (\<lambda>k i. replicate 32 (k ! 0)) \<lparr>ev_us = 8, ev_r1 = 3, ev_r2 = 4\<rparr>
       (fillp_engine_new 2000 (replicate 32 2)) ([10, 0, 0, 1], 1000) w1 = Some (b1, [FpSend w2]) \<and>
     fp_handle_datagram (\<lambda>k i. replicate 32 (k ! 0)) \<lparr>ev_us = 9, ev_r1 = 5, ev_r2 = 6\<rparr>
       a1 ([10, 0, 0, 2], 2000) w2 = Some (a2, [FpSend w3]) \<and>
     fp_handle_datagram (\<lambda>k i. replicate 32 (k ! 0)) \<lparr>ev_us = 10, ev_r1 = 7, ev_r2 = 8\<rparr>
       b1 ([10, 0, 0, 1], 1000) w3 = Some (b2, [FpSend w4, FpEstablished]) \<and>
     fp_handle_datagram (\<lambda>k i. replicate 32 (k ! 0)) \<lparr>ev_us = 11, ev_r1 = 9, ev_r2 = 9\<rparr>
       a2 ([10, 0, 0, 2], 2000) w4 = Some (a3, [FpEstablished]) \<and>
     en_peers a3 ([10, 0, 0, 2], 2000) = Some pa \<and> pe_state pa = FP_ST_ESTABLISHED \<and>
     en_peers b2 ([10, 0, 0, 1], 1000) = Some pb \<and> pe_state pb = FP_ST_ESTABLISHED"
  by (rule fillp_handshake)
    (simp_all add: fillp_engine_new_def fillp_addr_fill_ipv4_def FILLP_ADDR_LEN_def)

text \<open>
  C21. Whatever a peer does or receives, its state only moves forward (pending, established,
  closing, closed), and it becomes established in exactly two ways: a client on a well-formed
  CONN_CONFIRM_ACK, a server on a CONN_CONFIRM whose cookie carries the engine's own MAC.
\<close>

lemma fillp_peer_states:
  assumes "fp_peer_step hmac e p p'"
  shows "fp_rank (pe_state p) \<le> fp_rank (pe_state p') \<and>
     (pe_state p' = FP_ST_ESTABLISHED \<longrightarrow> pe_state p \<noteq> FP_ST_ESTABLISHED \<longrightarrow>
       (\<exists>ev ty buf os. fp_dispatch_peer hmac ev e ty p buf = Some (p', os) \<and>
         (if pe_is_client p
          then ty = FP_PKT_CONN_CONFIRM_ACK \<and> (\<exists>x. fillp_decode_conn_confirm_ack buf = Some (Some x))
          else ty = FP_PKT_CONN_CONFIRM \<and>
            (\<exists>tag cookie la. fillp_decode_conn_confirm buf = Some (Some (tag, cookie, la)) \<and>
              fillp_cookie_verify hmac cookie (en_mac_key e) (en_local_addr e)))))"
proof -
  have "\<exists>ev ty buf os. fp_dispatch_peer hmac ev e ty p buf = Some (p', os) \<and>
      (if pe_is_client p
       then ty = FP_PKT_CONN_CONFIRM_ACK \<and> (\<exists>x. fillp_decode_conn_confirm_ack buf = Some (Some x))
       else ty = FP_PKT_CONN_CONFIRM \<and>
         (\<exists>tag cookie la. fillp_decode_conn_confirm buf = Some (Some (tag, cookie, la)) \<and>
           fillp_cookie_verify hmac cookie (en_mac_key e) (en_local_addr e)))"
    if new: "pe_state p' = FP_ST_ESTABLISHED" "pe_state p \<noteq> FP_ST_ESTABLISHED"
    using assms
  proof cases
    case (step_datagram ev ty buf os)
    from new have "pe_state p' \<noteq> pe_state p" by simp
    from dispatch_state [OF step_datagram this] new(1) step_datagram show ?thesis
      by (intro exI [of _ ev] exI [of _ ty] exI [of _ buf] exI [of _ os])
        (cases "pe_is_client p"; auto)
  next
    case (step_tick ev fill os f)
    then show ?thesis using tick_state [OF step_tick] new by auto
  next
    case (step_close ev os)
    then show ?thesis using request_close_state [OF step_close] new by (auto split: if_splits)
  qed (use new in \<open>auto simp: fillp_peer_send_def split: if_splits\<close>)
  then show ?thesis using peer_step_rank [OF assms] by blast
qed

lemma fillp_peer_states_witness:
  "fp_rank (pe_state (fp_peer_new \<lparr>ev_us = 0, ev_r1 = 0, ev_r2 = 0\<rparr> 1 True)) \<le>
   fp_rank (pe_state (fp_on_fin \<lparr>ev_us = 0, ev_r1 = 0, ev_r2 = 0\<rparr>
     (fp_peer_new \<lparr>ev_us = 0, ev_r1 = 0, ev_r2 = 0\<rparr> 1 True)))"
  using fillp_peer_states [OF step_datagram [of "\<lambda>k i. []" "\<lparr>ev_us = 0, ev_r1 = 0, ev_r2 = 0\<rparr>"
      "fillp_engine_new 1 []" FP_PKT_FIN "fp_peer_new \<lparr>ev_us = 0, ev_r1 = 0, ev_r2 = 0\<rparr> 1 True"
      "[]" "fp_on_fin \<lparr>ev_us = 0, ev_r1 = 0, ev_r2 = 0\<rparr>
        (fp_peer_new \<lparr>ev_us = 0, ev_r1 = 0, ev_r2 = 0\<rparr> 1 True)" "[]"]]
  by (simp add: fp_dispatch_peer_def fp_pkt_types)

text \<open>
  C33. A closing peer ends: the tick that finds the close timeout (2 s after entering the state)
  passed removes it from the engine's table and reports the close to the application.
\<close>

lemma fillp_close_ends:
  assumes "distinct ks" "k \<in> set ks" "en_peers e k = Some p" "pe_state p = FP_ST_CLOSING"
    "fp_now_ms ev - pe_t_stage p \<ge> FP_CLOSE_TIMEOUT_MS"
  shows "\<exists>e' os. fp_on_tick ev fills ks e = (e', os) \<and> en_peers e' k = None \<and>
     (\<exists>r. (k, FpClosed r) \<in> set os)"
proof -
  obtain e' os where t: "fp_on_tick ev fills ks e = (e', os)" by fastforce
  from tick_ends_closing [OF t assms] t show ?thesis by blast
qed

lemma fillp_close_ends_witness:
  "\<exists>e' os. fp_on_tick \<lparr>ev_us = 3000000, ev_r1 = 0, ev_r2 = 0\<rparr> (\<lambda>_. ([], False)) [([10, 0, 0, 1], 9)]
      ((fillp_engine_new 1 [])\<lparr>en_peers := [([10, 0, 0, 1], 9) \<mapsto>
         (fp_peer_new \<lparr>ev_us = 0, ev_r1 = 0, ev_r2 = 0\<rparr> 9 True)\<lparr>pe_state := FP_ST_CLOSING\<rparr>]\<rparr>) = (e', os) \<and>
     en_peers e' ([10, 0, 0, 1], 9) = None \<and> (\<exists>r. (([10, 0, 0, 1], 9), FpClosed r) \<in> set os)"
  by (rule fillp_close_ends [where p = "(fp_peer_new \<lparr>ev_us = 0, ev_r1 = 0, ev_r2 = 0\<rparr> 9 True)
      \<lparr>pe_state := FP_ST_CLOSING\<rparr>"]) (simp_all add: fp_peer_new_def fp_now_ms_def FP_CLOSE_TIMEOUT_MS_def)

end
