(* ===== verification/SoftbusCrypto.thy ===== *)
theory SoftbusCrypto
  imports Prelude
begin

text \<open>
  The wrappers around OpenSSL that hold logic of their own (\<open>src/proto/softbus_crypto.c\<close>): the
  parameters HKDF is called with, the salt both ends of a session compute, and the hex codec.

  OpenSSL is a parameter: \<open>kdf key salt info n\<close> is \<open>EVP_KDF_derive\<close> with the octet-string
  parameters that were constructed (\<open>None\<close> for one that was left out) and \<open>n\<close> bytes of output;
  it fails with \<open>None\<close>.  A C string is the list of its bytes before the NUL.
\<close>

type_synonym cstr = bytes

definition bytes_of :: "string \<Rightarrow> cstr" where
  "bytes_of s = map of_char s"

text \<open>The C string at the front of a character array, and what \<open>g_strndup\<close> makes of one.\<close>

definition c_string :: "bytes \<Rightarrow> cstr" where
  "c_string bs = takeWhile (\<lambda>c. c \<noteq> 0) bs"

lemma c_string_nul: "0 \<notin> set (c_string bs)"
  by (auto simp: c_string_def dest: set_takeWhileD)

lemma c_string_id: "0 \<notin> set s \<Longrightarrow> c_string s = s"
  by (auto simp: c_string_def takeWhile_eq_all_conv)

lemma c_string_pad: "0 \<notin> set s \<Longrightarrow> c_string (s @ 0 # r) = s"
  by (induction s) (auto simp: c_string_def)

type_synonym kdf = "bytes option \<Rightarrow> bytes option \<Rightarrow> bytes option \<Rightarrow> nat \<Rightarrow> bytes option"

definition SOFTBUS_SESSION_KEY_LEN :: nat where "SOFTBUS_SESSION_KEY_LEN = 32"
definition SOFTBUS_HKDF_INFO_CONTROL :: cstr where
  "SOFTBUS_HKDF_INFO_CONTROL = bytes_of ''softbus-control-key''"
definition SOFTBUS_HKDF_INFO_DATA :: cstr where
  "SOFTBUS_HKDF_INFO_DATA = bytes_of ''softbus-data-key''"

section \<open>Key derivation\<close>

text \<open>An octet string is handed to OpenSSL only when it is there and not empty.\<close>

definition octets :: "bytes option \<Rightarrow> bytes option" where
  "octets x = (case x of None \<Rightarrow> None | Some b \<Rightarrow> if b = [] then None else Some b)"

definition softbus_hkdf_sha256 ::
  "kdf \<Rightarrow> bytes option \<Rightarrow> bytes option \<Rightarrow> cstr option \<Rightarrow> nat \<Rightarrow> bytes option" where
  "softbus_hkdf_sha256 kdf ikm salt info out_len =
     (if ikm = None \<or> out_len = 0 \<or> 255 < out_len then None
      else kdf (octets ikm) (octets salt) (octets info) out_len)"

text \<open>\<open>g_strcmp0 a b > 0\<close>, on unsigned characters.\<close>

fun strcmp_gt :: "cstr \<Rightarrow> cstr \<Rightarrow> bool" where
  "strcmp_gt [] _ = False"
| "strcmp_gt (_ # _) [] = True"
| "strcmp_gt (x # xs) (y # ys) = (if x = y then strcmp_gt xs ys else y < x)"

definition softbus_hkdf_session_keys ::
  "kdf \<Rightarrow> cstr option \<Rightarrow> cstr option \<Rightarrow> bytes option \<Rightarrow> (bytes \<times> bytes) option" where
  "softbus_hkdf_session_keys kdf device_id_a device_id_b ikm =
     (case (device_id_a, device_id_b) of
        (Some a, Some b) \<Rightarrow>
          if ikm = None then None
          else
            let (first, second) = (if strcmp_gt a b then (b, a) else (a, b));
                salt = (if length first + length second > 0 then Some (first @ second) else None)
            in do {
              control_key \<leftarrow> softbus_hkdf_sha256 kdf ikm salt (Some SOFTBUS_HKDF_INFO_CONTROL)
                 SOFTBUS_SESSION_KEY_LEN;
              data_key \<leftarrow> softbus_hkdf_sha256 kdf ikm salt (Some SOFTBUS_HKDF_INFO_DATA)
                 SOFTBUS_SESSION_KEY_LEN;
              Some (control_key, data_key) }
      | _ \<Rightarrow> None)"

section \<open>Hex\<close>

definition hex_digits :: cstr where
  "hex_digits = bytes_of ''0123456789abcdef''"

definition softbus_to_hex :: "bytes \<Rightarrow> cstr" where
  "softbus_to_hex data =
     concat (map (\<lambda>b. [hex_digits ! unat (drop_bit 4 b), hex_digits ! unat (b AND 0x0f)]) data)"

definition hex_value :: "byte \<Rightarrow> u32 option" where
  "hex_value h =
     (if of_char (CHR ''0'') \<le> h \<and> h \<le> of_char (CHR ''9'') then Some (ucast h - of_char (CHR ''0''))
      else if of_char (CHR ''a'') \<le> h \<and> h \<le> of_char (CHR ''f'')
      then Some (ucast h - of_char (CHR ''a'') + 10)
      else if of_char (CHR ''A'') \<le> h \<and> h \<le> of_char (CHR ''F'')
      then Some (ucast h - of_char (CHR ''A'') + 10)
      else None)"

text \<open>The loop over the digit pairs; a bad digit leaves it with \<open>FALSE\<close>.\<close>

fun from_hex_pairs :: "cstr \<Rightarrow> bytes option" where
  "from_hex_pairs (h # l # r) = do {
     hi \<leftarrow> hex_value h;
     lo \<leftarrow> hex_value l;
     bs \<leftarrow> from_hex_pairs r;
     Some (ucast (push_bit 4 hi OR lo) # bs) }"
| "from_hex_pairs _ = Some []"

definition softbus_from_hex :: "cstr option \<Rightarrow> nat \<Rightarrow> bytes option" where
  "softbus_from_hex hex out_cap =
     (case hex of
        None \<Rightarrow> None
      | Some h \<Rightarrow>
          if length h mod 2 \<noteq> 0 then None
          else if out_cap < length h div 2 then None
          else from_hex_pairs h)"

section \<open>Lemmas\<close>

lemma strcmp_gt_total: "a \<noteq> b \<Longrightarrow> strcmp_gt a b \<longleftrightarrow> \<not> strcmp_gt b a"
proof (induction a b rule: strcmp_gt.induct)
  case (1 b)
  then show ?case by (cases b) auto
qed auto

lemma hex_digits_value: "n < 16 \<Longrightarrow> hex_value (hex_digits ! n) = Some (of_nat n)"
proof -
  assume "n < 16"
  then have "n \<in> {0, 1, 2, 3, 4, 5, 6, 7, 8, 9, 10, 11, 12, 13, 14, 15}"
    unfolding insert_iff empty_iff by presburger
  then show ?thesis
    by (elim insertE emptyE) (simp_all add: hex_digits_def hex_value_def bytes_of_def of_char_def
        nth_Cons' horner_sum_simps)
qed

lemma nibbles_join: "ucast (push_bit 4 (ucast (drop_bit 4 b)) OR (ucast (b AND 0x0f)) :: u32) = (b :: byte)"
proof -
  have *: "(0x0f :: byte) = mask 4" by (simp add: mask_eq_exp_minus_1)
  show ?thesis unfolding *
    by (rule bit_word_eqI) (auto simp: bit_simps not_less)
qed

lemma nibble_less: "unat (drop_bit 4 (b :: byte)) < 16" "unat (b AND 0x0f) < 16"
proof -
  have "unat b < 256" using unsigned_less [of b] by simp
  then show "unat (drop_bit 4 b) < 16" by (simp add: unat_drop_bit_eq drop_bit_eq_div unat_div)
  have "b AND 0x0f \<le> 0x0f" by (rule word_and_le1)
  then show "unat (b AND 0x0f) < 16" by (simp add: word_le_nat_alt)
qed

lemma from_hex_to_hex: "from_hex_pairs (softbus_to_hex d) = Some d"
proof (induction d)
  case (Cons b d)
  have "(of_nat (unat (drop_bit 4 b)) :: u32) = ucast (drop_bit 4 b)"
       "(of_nat (unat (b AND 0x0f)) :: u32) = ucast (b AND 0x0f)"
    by (simp_all only: of_nat_unat)
  with Cons show ?case
    by (simp add: softbus_to_hex_def hex_digits_value nibble_less nibbles_join del: of_nat_unat)
qed (simp add: softbus_to_hex_def)

lemma to_hex_length [simp]: "length (softbus_to_hex d) = 2 * length d"
  by (induction d) (simp_all add: softbus_to_hex_def)

section \<open>Properties\<close>

text \<open>
  Hex round trip: decoding the hex text of \<open>d\<close> gives \<open>d\<close> back exactly when the caller's buffer
  can hold it; for a buffer that is too small it is refused.
\<close>

lemma hex_roundtrip:
  "softbus_from_hex (Some (softbus_to_hex d)) cap = (if length d \<le> cap then Some d else None)"
  by (simp add: softbus_from_hex_def from_hex_to_hex)

text \<open>
  Both ends of a session derive the same two keys: the keys do not depend on which of the two
  device ids is the local one.
\<close>

lemma session_keys_agree:
  "softbus_hkdf_session_keys kdf a b ikm = softbus_hkdf_session_keys kdf b a ikm"
proof (cases a; cases b)
  fix x y
  assume "a = Some x" "b = Some y"
  then show ?thesis using strcmp_gt_total [of x y]
    by (cases "x = y") (auto simp: softbus_hkdf_session_keys_def)
qed (simp_all add: softbus_hkdf_session_keys_def)

end
