(* ===== verification/VtpFrame.thy ===== *)
theory VtpFrame
  imports SoftbusCrypto
begin

text \<open>
  The sealed frames of the video transmission protocol (\<open>src/proto/vtp_frame.c\<close>): a length
  prefix, a nonce, a 16-byte header with the data under AES-256-GCM, and the tag.

  The cipher is OpenSSL's, a parameter: \<open>seal key nonce plain\<close> is \<open>softbus_aes_gcm_encrypt\<close>
  (ciphertext and tag, \<open>None\<close> when a call fails) and \<open>unseal key nonce ct tag\<close> is
  \<open>softbus_aes_gcm_decrypt\<close> (\<open>None\<close> when the tag does not match).  What the code relies on is the
  contract \<open>aead_ok\<close>.  \<open>nonce\<close> is what \<open>softbus_random_bytes\<close> gave.
\<close>

definition VTP_KEY_LEN :: nat where "VTP_KEY_LEN = 32"
definition VTP_NONCE_LEN :: nat where "VTP_NONCE_LEN = 12"
definition VTP_TAG_LEN :: nat where "VTP_TAG_LEN = 16"
definition VTP_HEADER_LEN :: nat where "VTP_HEADER_LEN = 16"
definition VTP_FLAG_EXT_PRESENT :: u32 where "VTP_FLAG_EXT_PRESENT = 0x10000000"

lemmas vtp_lens = VTP_KEY_LEN_def VTP_NONCE_LEN_def VTP_TAG_LEN_def VTP_HEADER_LEN_def

type_synonym vtp_seal = "bytes \<Rightarrow> bytes \<Rightarrow> bytes \<Rightarrow> (bytes \<times> bytes) option"
type_synonym vtp_unseal = "bytes \<Rightarrow> bytes \<Rightarrow> bytes \<Rightarrow> bytes \<Rightarrow> bytes option"

text \<open>AES-256-GCM: a stream cipher with a 16-byte tag, and decryption undoes encryption.\<close>

definition aead_ok :: "vtp_seal \<Rightarrow> vtp_unseal \<Rightarrow> bool" where
  "aead_ok seal unseal \<longleftrightarrow>
     (\<forall>k n p ct tag. seal k n p = Some (ct, tag) \<longrightarrow>
        length ct = length p \<and> length tag = VTP_TAG_LEN \<and> unseal k n ct tag = Some p) \<and>
     (\<forall>k n ct tag p. unseal k n ct tag = Some p \<longrightarrow> length p = length ct)"

section \<open>The codec\<close>

text \<open>This file's \<open>get_u32\<close> is a loop; it reads what the other files' \<open>get_u32\<close> reads.\<close>

fun vtp_get_u32_loop :: "bytes \<Rightarrow> nat \<Rightarrow> nat \<Rightarrow> u32 \<Rightarrow> u32 option" where
  "vtp_get_u32_loop bs k 0 v = Some v"
| "vtp_get_u32_loop bs k (Suc i) v = do {
     b \<leftarrow> get_u8 bs k;
     vtp_get_u32_loop bs (k + 1) i (push_bit 8 v OR ucast b) }"

definition vtp_get_u32 :: "bytes \<Rightarrow> nat \<Rightarrow> u32 option" where
  "vtp_get_u32 bs k = vtp_get_u32_loop bs k 4 0"

record vtp_info =
  vi_mode :: u16
  vi_stream_type :: u16
  vi_scene :: u16
  vi_timestamp :: u32
  vi_data :: bytes

definition vtp_common_frame_size :: "nat \<Rightarrow> nat" where
  "vtp_common_frame_size data_len = 4 + VTP_NONCE_LEN + VTP_HEADER_LEN + data_len + VTP_TAG_LEN"

definition vtp_header :: "u16 \<Rightarrow> u16 \<Rightarrow> u16 \<Rightarrow> u32 \<Rightarrow> nat \<Rightarrow> bytes" where
  "vtp_header mode stream_type scene timestamp_ns data_len =
     (let flags = push_bit 24 (ucast (mode AND 0xf)) OR ucast (stream_type AND 0xffff) in
      put_u32 flags @ put_u32 timestamp_ns @ put_u32 (of_nat data_len) @
      put_u32 (push_bit 16 (ucast (scene AND 0xffff))))"

definition vtp_build_common_frame ::
  "vtp_seal \<Rightarrow> bytes option \<Rightarrow> nat \<Rightarrow> bytes \<Rightarrow> u16 \<Rightarrow> u16 \<Rightarrow> u16 \<Rightarrow> u32 \<Rightarrow> bytes \<Rightarrow> bytes option" where
  "vtp_build_common_frame seal nonce cap key mode stream_type scene timestamp_ns data =
     (let total = vtp_common_frame_size (length data) in
      if cap < total then None
      else
        let plain = vtp_header mode stream_type scene timestamp_ns (length data) @ data
        in do {
          n \<leftarrow> nonce;
          (ct, tag) \<leftarrow> seal key n plain;
          Some (put_u32 (of_nat (total - 4)) @ n @ ct @ tag) })"

text \<open>
  \<open>msg_len\<close> is the length the caller claims, which the comparison with the \<open>u32\<close> sum \<open>4 + n\<close>
  checks before the body is read.
\<close>

definition vtp_parse_common_frame ::
  "vtp_unseal \<Rightarrow> bytes \<Rightarrow> nat \<Rightarrow> bytes \<Rightarrow> nat \<Rightarrow> vtp_info option option" where
  "vtp_parse_common_frame unseal msg msg_len key out_cap =
     (if msg_len < 4 + VTP_NONCE_LEN + VTP_HEADER_LEN + VTP_TAG_LEN then Some None
      else do {
        n \<leftarrow> vtp_get_u32 msg 0;
        if unat n < VTP_NONCE_LEN + VTP_HEADER_LEN + VTP_TAG_LEN then Some None
        else if msg_len \<noteq> unat (4 + n) then Some None
        else do {
          let ct_len = unat n - VTP_NONCE_LEN - VTP_TAG_LEN;
          nonce \<leftarrow> get_bytes msg 4 VTP_NONCE_LEN;
          ct \<leftarrow> get_bytes msg (4 + VTP_NONCE_LEN) ct_len;
          tag \<leftarrow> get_bytes msg (4 + unat n - VTP_TAG_LEN) VTP_TAG_LEN;
          case unseal key nonce ct tag of
            None \<Rightarrow> Some None
          | Some plain \<Rightarrow> do {
              flags \<leftarrow> vtp_get_u32 plain 0;
              ts \<leftarrow> vtp_get_u32 plain 4;
              payload_len \<leftarrow> vtp_get_u32 plain 8;
              scene_hi \<leftarrow> vtp_get_u32 plain 12;
              if flags AND VTP_FLAG_EXT_PRESENT \<noteq> 0 then Some None
              else if unat payload_len \<noteq> ct_len - VTP_HEADER_LEN then Some None
              else if out_cap < unat payload_len then Some None
              else do {
                data \<leftarrow> get_bytes plain VTP_HEADER_LEN (unat payload_len);
                Some (Some \<lparr>vi_mode = ucast (drop_bit 24 flags AND 0xf),
                            vi_stream_type = ucast (flags AND 0xffff),
                            vi_scene = ucast (drop_bit 16 scene_hi AND 0xffff),
                            vi_timestamp = ts, vi_data = data\<rparr>) } } } })"

definition vtp_derive_key :: "kdf \<Rightarrow> bytes \<Rightarrow> bytes option" where
  "vtp_derive_key kdf psk =
     softbus_hkdf_sha256 kdf (Some psk) None (Some (bytes_of ''vtp-stream-key'')) VTP_KEY_LEN"

section \<open>Lemmas\<close>

lemma vtp_get_u32_eq: "vtp_get_u32 bs k = get_u32 bs k"
proof -
  have j: "push_bit 8 (push_bit 8 (push_bit 8 (push_bit 8 (0 :: u32) OR ucast a) OR ucast b) OR ucast c) OR ucast d
     = push_bit 16 (ucast (push_bit 8 (ucast a) OR (ucast b) :: u16)) OR ucast (push_bit 8 (ucast c) OR (ucast d) :: u16)"
    for a b c d :: byte
    by (rule bit_word_eqI) (auto simp: bit_simps not_less dest: bit_imp_le_length)
  have four: "(4 :: nat) = Suc (Suc (Suc (Suc 0)))" by simp
  have "vtp_get_u32_loop bs k (Suc (Suc (Suc (Suc 0)))) 0 = get_u32 bs k"
    using j by (auto simp: get_u32_def get_u16_def get_u8_def)
  then show ?thesis by (simp only: vtp_get_u32_def four)
qed

text \<open>The fields of the header, read back.\<close>

lemma vtp_literals:
  "(0xf :: u16) = mask 4" "(0xf :: u32) = mask 4" "(0xffff :: u16) = mask 16" "(0xffff :: u32) = mask 16"
  by (simp_all add: mask_eq_exp_minus_1)

lemma vtp_flag_fields:
  "ucast (drop_bit 24 (push_bit 24 (ucast (m AND 0xf)) OR ucast (st AND 0xffff) :: u32) AND 0xf) = (m AND 0xf :: u16)"
  "ucast ((push_bit 24 (ucast (m AND 0xf)) OR ucast (st AND 0xffff) :: u32) AND 0xffff) = (st :: u16)"
  "ucast (drop_bit 16 (push_bit 16 (ucast (sc AND 0xffff)) :: u32) AND 0xffff) = (sc :: u16)"
  unfolding vtp_literals by (rule bit_word_eqI; force simp: bit_simps not_less)+

lemma vtp_no_ext:
  "(push_bit 24 (ucast (m AND 0xf :: u16)) OR ucast (st AND 0xffff :: u16) :: u32) AND VTP_FLAG_EXT_PRESENT = 0"
proof -
  have e: "VTP_FLAG_EXT_PRESENT = 2 ^ 28" by (simp add: VTP_FLAG_EXT_PRESENT_def)
  show ?thesis unfolding vtp_literals e and_exp_eq_0_iff_not_bit
    by (simp add: bit_simps)
qed

lemma vtp_header_length [simp]: "length (vtp_header m st sc ts n) = VTP_HEADER_LEN"
  by (simp add: vtp_header_def Let_def vtp_lens)

lemma vtp_header_read:
  "get_u32 (vtp_header m st sc ts n @ d) 0 = Some (push_bit 24 (ucast (m AND 0xf)) OR ucast (st AND 0xffff))"
  "get_u32 (vtp_header m st sc ts n @ d) 4 = Some ts"
  "get_u32 (vtp_header m st sc ts n @ d) 8 = Some (of_nat n)"
  "get_u32 (vtp_header m st sc ts n @ d) 12 = Some (push_bit 16 (ucast (sc AND 0xffff)))"
  by (simp_all add: vtp_header_def Let_def codec)

lemma vtp_build_cases:
  assumes "vtp_build_common_frame seal nonce cap key m st sc ts data = Some w"
  obtains n ct tag where "nonce = Some n" "vtp_common_frame_size (length data) \<le> cap"
    "seal key n (vtp_header m st sc ts (length data) @ data) = Some (ct, tag)"
    "w = put_u32 (of_nat (vtp_common_frame_size (length data) - 4)) @ n @ ct @ tag"
  using assms by (auto simp: vtp_build_common_frame_def Let_def bind_eq_Some_conv split: if_splits)

lemma vtp_build_length:
  assumes "vtp_build_common_frame seal (Some n) cap key m st sc ts data = Some w"
    and "aead_ok seal unseal" "length n = VTP_NONCE_LEN"
  shows "length w = vtp_common_frame_size (length data)"
  using assms by (auto elim!: vtp_build_cases simp: aead_ok_def vtp_common_frame_size_def vtp_lens)

lemma vtp_parse_build:
  assumes b: "vtp_build_common_frame seal (Some n) cap key m st sc ts data = Some w"
    and ok: "aead_ok seal unseal" "length n = VTP_NONCE_LEN"
    and small: "vtp_common_frame_size (length data) < 2 ^ 32" "length data \<le> out_cap"
  shows "vtp_parse_common_frame unseal (w @ r) (length w) key out_cap =
     Some (Some \<lparr>vi_mode = m AND 0xf, vi_stream_type = st, vi_scene = sc, vi_timestamp = ts, vi_data = data\<rparr>)"
proof -
  obtain ct tag where s: "seal key n (vtp_header m st sc ts (length data) @ data) = Some (ct, tag)"
    and w: "w = put_u32 (of_nat (vtp_common_frame_size (length data) - 4)) @ n @ ct @ tag"
    using b by (elim vtp_build_cases) auto
  from s ok have u: "unseal key n ct tag = Some (vtp_header m st sc ts (length data) @ data)"
    and len: "length ct = VTP_HEADER_LEN + length data" "length tag = VTP_TAG_LEN"
    by (auto simp: aead_ok_def)
  define N where "N = VTP_NONCE_LEN + length ct + VTP_TAG_LEN"
  have N: "vtp_common_frame_size (length data) - 4 = N" "4 + N < 2 ^ 32" "N = 44 + length data"
    using small len by (simp_all add: N_def vtp_common_frame_size_def vtp_lens)
  have un: "unat (of_nat N :: u32) = N" "unat (4 + of_nat N :: u32) = 4 + N"
    using N(2) unat_of_nat_small [where 'a = 32, of N] unat_of_nat_small [where 'a = 32, of "4 + N"]
    by simp_all
  have ud: "unat (of_nat (length data) :: u32) = length data"
    using N by (intro unat_of_nat_small) simp
  have lw: "length w = 4 + N" using len ok(2) by (simp add: w N_def)
  have g: "get_u32 (w @ r) 0 = Some (of_nat N)" "get_bytes (w @ r) 4 12 = Some n"
    "get_bytes (w @ r) 16 (length ct) = Some ct"
    "get_bytes (w @ r) (N - 12) 16 = Some tag"
    using ok(2) len N by (simp_all add: w N codec vtp_lens)
  have l: "N - VTP_NONCE_LEN - VTP_TAG_LEN = length ct" "4 + N - VTP_TAG_LEN = N - 12" using N len
    by (simp_all add: vtp_lens)
  have d: "get_bytes (vtp_header m st sc ts (length data) @ data) 16 (length data) = Some data"
    by (simp add: vtp_lens codec)
  show ?thesis
    using g u un ud N len small(2) d
    by (simp add: vtp_parse_common_frame_def vtp_get_u32_eq lw l)
      (simp add: vtp_get_u32_eq vtp_lens vtp_header_read vtp_no_ext vtp_flag_fields
        vtp_flag_fields [unfolded drop_bit_or])
qed


text \<open>What an accepted frame is: its parts are inside the buffer and the tag was verified.\<close>

lemma vtp_parse_okay:
  assumes "aead_ok seal unseal" "msg_len \<le> length msg"
  shows "okay (vtp_parse_common_frame unseal msg msg_len key out_cap)
     (\<lambda>r. case r of None \<Rightarrow> True
        | Some v \<Rightarrow> length (vi_data v) \<le> out_cap \<and> length (vi_data v) + 48 = msg_len \<and>
            (\<exists>plain. unseal key (take 12 (drop 4 msg)) (take (msg_len - 32) (drop 16 msg))
                (take 16 (drop (msg_len - 16) msg)) = Some plain \<and> vi_data v = drop 16 plain))"
proof (cases "msg_len < 4 + VTP_NONCE_LEN + VTP_HEADER_LEN + VTP_TAG_LEN")
  case True
  then show ?thesis by (simp add: vtp_parse_common_frame_def okay_rules)
next
  case False
  then have big: "48 \<le> msg_len" by (simp add: vtp_lens)
  obtain n where n: "get_u32 msg 0 = Some n"
    using big assms(2) get_in_boundsE(3) [of 0 msg] by auto
  show ?thesis
  proof (cases "unat n < 44 \<or> msg_len \<noteq> unat (4 + n)")
    case True
    then show ?thesis using n False
      by (auto simp: vtp_parse_common_frame_def vtp_get_u32_eq okay_rules vtp_lens)
  next
    case nwrap: False
    have nl: "unat n < 2 ^ 32" using unsigned_less [of n] by simp
    have "unat (4 + n) = 4 + unat n"
    proof (rule ccontr)
      assume "unat (4 + n) \<noteq> 4 + unat n"
      then have "2 ^ 32 \<le> 4 + unat n"
        by (intro leI notI) (simp add: unat_word_ariths)
      then have "unat (4 + n) = 4 + unat n - 2 ^ 32"
        using nl by (simp add: unat_word_ariths le_mod_geq)
      then show False using nwrap big nl by simp
    qed
    then have m: "msg_len = 4 + unat n" "44 \<le> unat n" "\<not> unat n < 44" "unat (4 + n) = 4 + unat n"
      using nwrap by auto
    define parts where "parts = (take 12 (drop 4 msg), take (unat n - 28) (drop 16 msg), take 16 (drop (unat n - 12) msg))"
    have g: "get_bytes msg 4 12 = Some (fst parts)" "get_bytes msg 16 (unat n - 28) = Some (fst (snd parts))"
      "get_bytes msg (unat n - 12) 16 = Some (snd (snd parts))"
      using m assms(2) by (simp_all add: get_bytes_def parts_def)
    have e: "4 + unat n - 16 = unat n - 12" "unat n - 12 - 16 = unat n - 28" by simp_all
    show ?thesis
    proof (cases "unseal key (fst parts) (fst (snd parts)) (snd (snd parts))")
      case None
      then show ?thesis using n m g
        by (simp add: vtp_parse_common_frame_def vtp_get_u32_eq okay_rules vtp_lens e)
    next
      case (Some plain)
      have pl: "length plain = unat n - 28"
        using Some assms m by (auto simp: aead_ok_def parts_def)
      have *: "take (unat n - 28) (drop 16 msg) = fst (snd parts)" "take 12 (drop 4 msg) = fst parts"
        "take 16 (drop (unat n - 12) msg) = snd (snd parts)" by (simp_all add: parts_def)
      have d: "\<And>v. get_bytes plain 16 (unat n - 44) = Some v \<Longrightarrow> v = drop 16 plain"
        using pl by (auto simp: get_bytes_def split: if_splits)
      show ?thesis using n m g Some pl
        by (simp add: vtp_parse_common_frame_def vtp_get_u32_eq okay_rules vtp_lens e *)
          (auto dest: d get_bytes_length)
    qed
  qed
qed

section \<open>Properties\<close>

text \<open>
  Sealing and opening: with a working cipher and random source, a frame that fits the buffer is
  built with the announced size, and the other end, with the same key, reads back the mode nibble,
  stream type, scene, timestamp and data.  A buffer that is one byte too small is refused.
\<close>

lemma vtp_roundtrip:
  assumes "aead_ok seal unseal" "length n = VTP_NONCE_LEN"
    and "seal key n (vtp_header m st sc ts (length data) @ data) \<noteq> None"
    and "vtp_common_frame_size (length data) < 2 ^ 32" "length data \<le> out_cap"
  shows "(\<exists>w. vtp_build_common_frame seal (Some n) (vtp_common_frame_size (length data)) key m st sc ts data = Some w \<and>
            length w = vtp_common_frame_size (length data) \<and>
            vtp_parse_common_frame unseal w (length w) key out_cap =
              Some (Some \<lparr>vi_mode = m AND 0xf, vi_stream_type = st, vi_scene = sc, vi_timestamp = ts, vi_data = data\<rparr>)) \<and>
         vtp_build_common_frame seal (Some n) (vtp_common_frame_size (length data) - 1) key m st sc ts data = None"
proof -
  obtain w where w: "vtp_build_common_frame seal (Some n) (vtp_common_frame_size (length data)) key m st sc ts data = Some w"
    using assms(3) by (auto simp: vtp_build_common_frame_def Let_def)
  show ?thesis
    using w vtp_build_length [OF w assms(1,2)] vtp_parse_build [OF w assms(1,2,4,5), of "[]"]
    by (simp add: vtp_build_common_frame_def vtp_common_frame_size_def vtp_lens)
qed

definition toy_seal :: vtp_seal where
  "toy_seal key n p = Some (p, replicate 16 (hd key))"

definition toy_unseal :: vtp_unseal where
  "toy_unseal key n ct tag = (if tag = replicate 16 (hd key) then Some ct else None)"

lemma toy_aead: "aead_ok toy_seal toy_unseal"
  by (auto simp: aead_ok_def toy_seal_def toy_unseal_def vtp_lens split: if_splits)

lemma vtp_roundtrip_witness:
  "\<exists>w. vtp_build_common_frame toy_seal (Some (replicate 12 5)) 50 [7] 0x11 2 3 4 [8, 9] = Some w \<and>
     vtp_parse_common_frame toy_unseal w (length w) [7] 100 =
       Some (Some \<lparr>vi_mode = 1, vi_stream_type = 2, vi_scene = 3, vi_timestamp = 4, vi_data = [8, 9]\<rparr>)"
  using vtp_roundtrip [OF toy_aead, of "replicate 12 5" "[7]" "0x11" 2 3 4 "[8, 9]" 100]
  by (auto simp: vtp_lens vtp_common_frame_size_def toy_seal_def)

text \<open>
  C35. Whatever the peer sends, the parser stays inside the frame the caller announced, and what it
  hands out was authenticated: the cipher verified the tag over the whole sealed part, and the data
  is the plaintext after the header, no longer than the caller's buffer.
\<close>

lemma vtp_parse_authentic:
  assumes "aead_ok seal unseal" "msg_len \<le> length msg"
  shows "\<exists>r. vtp_parse_common_frame unseal msg msg_len key out_cap = Some r \<and>
     (r = None \<or> (\<exists>v plain. r = Some v \<and> length (vi_data v) \<le> out_cap \<and> length (vi_data v) + 48 = msg_len \<and>
        unseal key (take 12 (drop 4 msg)) (take (msg_len - 32) (drop 16 msg))
          (take 16 (drop (msg_len - 16) msg)) = Some plain \<and> vi_data v = drop 16 plain))"
  using okayD [OF vtp_parse_okay [OF assms, of key out_cap]] by (fastforce split: option.splits)

lemma vtp_parse_authentic_witness:
  "\<exists>r. vtp_parse_common_frame toy_unseal (replicate 60 0) 50 [7] 100 = Some r"
  using vtp_parse_authentic [OF toy_aead, of 50 "replicate 60 0" "[7]" 100] by auto

end
