(* ===== verification/TestFiles.thy ===== *)
theory TestFiles
  imports SoftbusCrypto
begin

text \<open>
  The deterministic test files of the replay stand and the checks a receiver makes on them
  (\<open>src/proto/ft_testfile.c\<close>, \<open>src/proto/h264_testfile.c\<close>).

  SHA-256 is the parameter \<open>sha\<close>, from bytes to the lower-case hex text of the digest.  What the
  file system answers (is the file opened, is the write at this offset complete, can the file be
  read back) are arguments.  The texts of the details are not modelled.
\<close>

section \<open>Names\<close>

definition g_ascii_isxdigit :: "byte \<Rightarrow> bool" where
  "g_ascii_isxdigit c \<longleftrightarrow>
     of_char (CHR ''0'') \<le> c \<and> c \<le> of_char (CHR ''9'') \<or>
     of_char (CHR ''a'') \<le> c \<and> c \<le> of_char (CHR ''f'') \<or>
     of_char (CHR ''A'') \<le> c \<and> c \<le> of_char (CHR ''F'')"

text \<open>The two \<open>..._name_sha\<close> functions differ in the prefix and suffix only.\<close>

definition name_sha :: "cstr \<Rightarrow> cstr \<Rightarrow> cstr \<Rightarrow> cstr option" where
  "name_sha prefix suffix wire_name =
     (let len = length wire_name; p = length prefix; s = length suffix in
      if len < p + 64 + s then None
      else if take p wire_name \<noteq> prefix then None
      else if take s (drop (len - s) wire_name) \<noteq> suffix then None
      else if len - p - s \<noteq> 64 then None
      else if \<not> list_all g_ascii_isxdigit (take (len - p - s) (drop p wire_name)) then None
      else Some (take (len - p - s) (drop p wire_name)))"

definition ft_testfile_name_sha :: "cstr option \<Rightarrow> cstr option" where
  "ft_testfile_name_sha wire_name =
     (case wire_name of None \<Rightarrow> None | Some w \<Rightarrow> name_sha (bytes_of ''ft-'') (bytes_of ''.bin'') w)"

definition h264_testfile_name_sha :: "cstr option \<Rightarrow> cstr option" where
  "h264_testfile_name_sha wire_name =
     (case wire_name of None \<Rightarrow> None | Some w \<Rightarrow> name_sha (bytes_of ''hs-'') (bytes_of ''.h264'') w)"

section \<open>The plain test file\<close>

definition ft_byte :: "u64 \<Rightarrow> u64 \<Rightarrow> byte" where
  "ft_byte seed i =
     (let z = seed + i;
          z = (z XOR drop_bit 30 z) * 0xbf58476d1ce4e5b9;
          z = (z XOR drop_bit 27 z) * 0x94d049bb133111eb;
          z = z XOR drop_bit 31 z
      in ucast (z AND 0xff))"

text \<open>The loop over 64 KiB buffers; \<open>wr off buf\<close> says that \<open>pwrite\<close> wrote all of them.\<close>

function ft_fill :: "(nat \<Rightarrow> bytes \<Rightarrow> bool) \<Rightarrow> u64 \<Rightarrow> nat \<Rightarrow> nat \<Rightarrow> bytes \<Rightarrow> bytes option" where
  "ft_fill wr seed sz dn file =
     (if dn < sz then
        let chunk = min (sz - dn) 65536;
            buf = map (\<lambda>i. ft_byte seed (of_nat (dn + i))) [0..<chunk]
        in if \<not> wr dn buf then None else ft_fill wr seed sz (dn + chunk) (file @ buf)
      else Some file)"
  by pat_completeness auto
termination by (relation "measure (\<lambda>(wr, seed, sz, dn, file). sz - dn)") auto

declare ft_fill.simps [simp del]

definition ft_testfile_generate ::
  "(bytes \<Rightarrow> cstr) \<Rightarrow> bool \<Rightarrow> (nat \<Rightarrow> bytes \<Rightarrow> bool) \<Rightarrow> cstr option \<Rightarrow> u64 \<Rightarrow> u64 \<Rightarrow> (bytes \<times> cstr) option" where
  "ft_testfile_generate sha opened wr dir seed sz =
     (if dir = None \<or> sz = 0 then None
      else if \<not> opened then None
      else case ft_fill wr seed (unat sz) 0 [] of
             None \<Rightarrow> None
           | Some file \<Rightarrow> Some (file, bytes_of ''ft-'' @ sha file @ bytes_of ''.bin''))"

section \<open>The H.264 test file\<close>

definition H264_SPS_PAYLOAD :: nat where "H264_SPS_PAYLOAD = 17"
definition H264_PPS_PAYLOAD :: nat where "H264_PPS_PAYLOAD = 4"
definition H264_SLICE_PAYLOAD :: nat where "H264_SLICE_PAYLOAD = 4096"
definition H264_NAL_SPS :: byte where "H264_NAL_SPS = 0x67"
definition H264_NAL_PPS :: byte where "H264_NAL_PPS = 0x68"
definition H264_NAL_IDR :: byte where "H264_NAL_IDR = 0x65"
definition H264_NAL_NONIDR :: byte where "H264_NAL_NONIDR = 0x41"
definition START_CODE :: bytes where "START_CODE = [0, 0, 0, 1]"

definition h264_byte :: "u64 \<Rightarrow> u64 \<Rightarrow> byte" where
  "h264_byte seed i =
     (let z = seed + i;
          z = (z XOR drop_bit 30 z) * 0xbf58476d1ce4e5b9;
          z = (z XOR drop_bit 27 z) * 0x94d049bb133111eb;
          z = z XOR drop_bit 31 z
      in ucast (z AND 0xff))"

text \<open>One content byte, with emulation prevention, and the loop over them.\<close>

definition append_byte :: "bytes \<Rightarrow> byte \<Rightarrow> bytes" where
  "append_byte a b =
     (if 2 \<le> length a \<and> a ! (length a - 2) = 0 \<and> a ! (length a - 1) = 0 \<and> b \<le> 0x03
      then (a @ [0x03]) @ [b] else a @ [b])"

definition append_nal :: "bytes \<Rightarrow> u64 \<Rightarrow> u64 \<Rightarrow> byte \<Rightarrow> nat \<Rightarrow> bytes \<times> u64" where
  "append_nal a seed content_i nal_hdr raw_len =
     (foldl append_byte (a @ START_CODE @ [nal_hdr])
        (map (\<lambda>i. h264_byte seed (content_i + of_nat i)) [0..<raw_len]),
      content_i + of_nat raw_len)"

lemma append_bytes_length: "length a + length bs \<le> length (foldl append_byte a bs)"
proof (induction bs arbitrary: a)
  case (Cons b bs)
  have "length a + 1 \<le> length (append_byte a b)" by (simp add: append_byte_def)
  then show ?case using Cons [of "append_byte a b"] by simp
qed simp

lemma append_nal_length: "append_nal a seed c h n = (a', c') \<Longrightarrow> length a < length a'"
  using append_bytes_length [of "a @ START_CODE @ [h]" "map (\<lambda>i. h264_byte seed (c + of_nat i)) [0..<n]"]
  by (auto simp: append_nal_def START_CODE_def)

text \<open>Slices are appended until one would exceed the budget; that one is dropped.\<close>

function h264_slices :: "u64 \<Rightarrow> nat \<Rightarrow> bytes \<Rightarrow> u64 \<Rightarrow> bytes" where
  "h264_slices seed sz a content_i =
     (case append_nal a seed content_i H264_NAL_NONIDR H264_SLICE_PAYLOAD of
        (a', c') \<Rightarrow> if sz < length a' then a else h264_slices seed sz a' c')"
  by pat_completeness auto
termination
proof (relation "measure (\<lambda>(seed, sz, a, c). Suc sz - length a)", goal_cases)
  case (2 seed sz a c a' c')
  then have "length a < length a'" by (intro append_nal_length [OF sym])
  with 2(2) have "Suc sz - length a' < Suc sz - length a" by arith
  then show ?case by simp
qed simp

declare h264_slices.simps [simp del]

definition h264_testfile_generate ::
  "(bytes \<Rightarrow> cstr) \<Rightarrow> bool \<Rightarrow> bool \<Rightarrow> cstr option \<Rightarrow> u64 \<Rightarrow> u64 \<Rightarrow> (bytes \<times> cstr) option" where
  "h264_testfile_generate sha opened written dir seed sz =
     (if dir = None \<or> sz < 8192 then None
      else
        let (a, c) = append_nal [] seed 0 H264_NAL_SPS H264_SPS_PAYLOAD;
            (a, c) = append_nal a seed c H264_NAL_PPS H264_PPS_PAYLOAD;
            (a, c) = append_nal a seed c H264_NAL_IDR H264_SLICE_PAYLOAD;
            a = h264_slices seed (unat sz) a c
        in if \<not> opened then None
           else if \<not> written then None
           else Some (a, bytes_of ''hs-'' @ sha a @ bytes_of ''.h264''))"

text \<open>
  The structure scan.  \<open>data[i + 3]\<close> may be the NUL byte \<open>g_file_get_contents\<close> puts after the
  contents.
\<close>

record h264_scan_state =
  hs_first :: int
  hs_nals :: nat
  hs_st :: nat

definition h264_nal_step :: "nat \<Rightarrow> byte \<Rightarrow> nat" where
  "h264_nal_step st t =
     (if st = 0 then (if t = 7 then 1 else 100)
      else if st = 1 then (if t = 8 then 2 else 100)
      else if st = 2 then (if t = 5 then 3 else if t \<noteq> 6 then 100 else 2)
      else if st = 3 then
        (if t \<noteq> 1 \<and> t \<noteq> 5 \<and> t \<noteq> 6 \<and> t \<noteq> 7 \<and> t \<noteq> 8 then 100 else 3)
      else st)"

function h264_scan :: "bytes \<Rightarrow> nat \<Rightarrow> h264_scan_state \<Rightarrow> h264_scan_state" where
  "h264_scan data i s =
     (if i + 2 < length data then
        if data ! i = 0 \<and> data ! (i + 1) = 0 \<and> data ! (i + 2) = 1 then
          let t = (data @ [0]) ! (i + 3) AND 0x1f in
          h264_scan data (i + 3)
            (s\<lparr>hs_first := (if hs_first s < 0 then int i else hs_first s),
               hs_nals := hs_nals s + 1, hs_st := h264_nal_step (hs_st s) t\<rparr>)
        else h264_scan data (i + 1) s
      else s)"
  by pat_completeness auto
termination by (relation "measure (\<lambda>(data, i, s). length data - i)") auto

declare h264_scan.simps [simp del]

text \<open>\<open>data\<close> is what \<open>g_file_get_contents\<close> read.\<close>

definition h264_testfile_verify :: "(bytes \<Rightarrow> cstr) \<Rightarrow> bytes option \<Rightarrow> cstr option \<Rightarrow> bool" where
  "h264_testfile_verify sha data wire_name =
     (case data of
        None \<Rightarrow> False
      | Some d \<Rightarrow>
          if length d < 10 then False
          else
            let sha_ok = (case h264_testfile_name_sha wire_name of
                            None \<Rightarrow> True | Some e \<Rightarrow> sha d = e);
                s = h264_scan d 0 \<lparr>hs_first = -1, hs_nals = 0, hs_st = 0\<rparr>
            in sha_ok \<and> (hs_first s = 0 \<or> hs_first s = 1) \<and> \<not> (hs_st s \<noteq> 3 \<or> hs_nals s < 3))"

section \<open>Lemmas about the plain file\<close>

lemma ft_fill_content:
  assumes "\<And>off buf. wr off buf" "dn \<le> sz"
  shows "ft_fill wr seed sz dn acc = Some (acc @ map (\<lambda>i. ft_byte seed (of_nat i)) [dn..<sz])"
  using assms(2)
proof (induction "sz - dn" arbitrary: dn acc rule: less_induct)
  case less
  define chunk where "chunk = min (sz - dn) 65536"
  have map: "map (\<lambda>i. ft_byte seed (of_nat (dn + i))) [0..<chunk] = map (\<lambda>i. ft_byte seed (of_nat i)) [dn..<dn + chunk]"
    by (rule nth_equalityI) simp_all
  show ?case
  proof (cases "dn < sz")
    case True
    then have c: "0 < chunk" "dn + chunk \<le> sz" by (auto simp: chunk_def)
    have "ft_fill wr seed sz dn acc = ft_fill wr seed sz (dn + chunk) (acc @ map (\<lambda>i. ft_byte seed (of_nat i)) [dn..<dn + chunk])"
      using True assms(1) by (subst ft_fill.simps) (simp add: chunk_def [symmetric] map Let_def del: of_nat_add)
    also have "\<dots> = Some (acc @ map (\<lambda>i. ft_byte seed (of_nat i)) ([dn..<dn + chunk] @ [dn + chunk..<sz]))"
      using c less.hyps [of "dn + chunk"] by simp
    also have "[dn..<dn + chunk] @ [dn + chunk..<sz] = [dn..<sz]"
      using c by (metis le_add1 upt_add_eq_append le_add_diff_inverse)
    finally show ?thesis .
  qed (use less.prems in \<open>simp add: ft_fill.simps\<close>)
qed

lemma isxdigit_hex: "list_all g_ascii_isxdigit h \<Longrightarrow> length h = 64 \<Longrightarrow>
   name_sha p s (p @ h @ s) = Some h"
  by (simp add: name_sha_def Let_def)

lemma name_sha_iff:
  "name_sha p s w = Some h \<longleftrightarrow> w = p @ h @ s \<and> length h = 64 \<and> list_all g_ascii_isxdigit h"
proof
  assume r: "name_sha p s w = Some h"
  define n where "n = length p"
  have le: "n + 64 + length s \<le> length w" and p: "take n w = p"
    and sfx: "take (length s) (drop (length w - length s) w) = s" and n: "length w - n - length s = 64"
    and h: "h = take 64 (drop n w)" "list_all g_ascii_isxdigit h"
    using r by (auto simp: name_sha_def Let_def n_def split: if_splits)
  have "w = take n w @ take 64 (drop n w) @ drop (n + 64) w"
    by (metis add.commute append_take_drop_id drop_drop)
  moreover have "length w - length s = n + 64" using n le by arith
  then have "drop (n + 64) w = s" using sfx le by simp
  ultimately show "w = p @ h @ s \<and> length h = 64 \<and> list_all g_ascii_isxdigit h"
    using p h le by (simp add: n_def)
qed (simp add: isxdigit_hex)

section \<open>Lemmas about the H.264 file\<close>

text \<open>The NAL types a scan finds, read off the list, and bytes that hold no start code.\<close>

fun nal_types :: "bytes \<Rightarrow> byte list" where
  "nal_types (x # y # z # r) =
     (if x = 0 \<and> y = 0 \<and> z = 1 then ((r @ [0]) ! 0 AND 0x1f) # nal_types r
      else nal_types (y # z # r))"
| "nal_types _ = []"

definition no_start_code :: "bytes \<Rightarrow> bool" where
  "no_start_code xs \<longleftrightarrow> (\<forall>i. i + 2 < length xs \<longrightarrow> \<not> (xs ! i = 0 \<and> xs ! (i + 1) = 0 \<and> xs ! (i + 2) = 1))"

lemma no_start_code_Cons: "no_start_code (x # xs) \<Longrightarrow> no_start_code xs"
  by (auto simp: no_start_code_def dest: spec [where x = "Suc i" for i])

lemma no_start_code_types: "no_start_code xs \<Longrightarrow> nal_types xs = []"
proof (induction xs rule: nal_types.induct)
  case (1 x y z r)
  then have "\<not> (x = 0 \<and> y = 0 \<and> z = 1)" "no_start_code (y # z # r)"
    by (auto simp: no_start_code_def dest: no_start_code_Cons spec [where x = 0])
  then show ?case using 1 by auto
qed auto

lemma nal_types_next:
  "no_start_code xs \<Longrightarrow> nal_types (xs @ START_CODE @ h # r) = (h AND 0x1f) # nal_types (h # r)"
proof (induction xs rule: nal_types.induct)
  case (1 x y z r')
  then have "\<not> (x = 0 \<and> y = 0 \<and> z = 1)" "no_start_code (y # z # r')"
    by (auto simp: no_start_code_def dest: no_start_code_Cons spec [where x = 0])
  then show ?case using 1 by auto
qed (auto simp: START_CODE_def)

lemma h264_scan_types:
  "hs_nals (h264_scan d i s) = hs_nals s + length (nal_types (drop i d))"
  "hs_st (h264_scan d i s) = foldl h264_nal_step (hs_st s) (nal_types (drop i d))"
proof -
  have "hs_nals (h264_scan d i s) = hs_nals s + length (nal_types (drop i d)) \<and>
    hs_st (h264_scan d i s) = foldl h264_nal_step (hs_st s) (nal_types (drop i d))"
  proof (induction d i s rule: h264_scan.induct)
    case (1 d i s)
    show ?case
    proof (cases "i + 2 < length d")
      case True
      then have dr: "drop i d = d ! i # d ! (i + 1) # d ! (i + 2) # drop (i + 3) d"
        by (simp add: Cons_nth_drop_Suc numeral_3_eq_3)
      have hd: "(drop (i + 3) d @ [0]) ! 0 = (d @ [0]) ! (i + 3)"
        using True by (auto simp: nth_append)
      have dr1: "drop (Suc i) d = d ! (i + 1) # d ! (i + 2) # drop (i + 3) d"
        using True by (simp add: Cons_nth_drop_Suc numeral_3_eq_3)
      show ?thesis using 1 True
        by (subst (1 2) h264_scan.simps) (auto simp: dr dr1 hd [symmetric] Let_def)
    next
      case False
      then have "length (drop i d) \<le> 2" by simp
      then have "nal_types (drop i d) = []" by (cases "drop i d" rule: nal_types.cases) auto
      then show ?thesis using False by (simp add: h264_scan.simps)
    qed
  qed
  then show "hs_nals (h264_scan d i s) = hs_nals s + length (nal_types (drop i d))"
    "hs_st (h264_scan d i s) = foldl h264_nal_step (hs_st s) (nal_types (drop i d))" by auto
qed

lemma h264_scan_first: "0 \<le> hs_first s \<Longrightarrow> hs_first (h264_scan d i s) = hs_first s"
proof (induction d i s rule: h264_scan.induct)
  case (1 d i s)
  then show ?case by (subst h264_scan.simps) (auto simp: Let_def)
qed

text \<open>A file that opens with the four-byte start code is recognised as such.\<close>

lemma h264_scan_head:
  "hs_first (h264_scan (START_CODE @ h # r) 0 \<lparr>hs_first = -1, hs_nals = 0, hs_st = 0\<rparr>) = 1"
  by (subst h264_scan.simps, simp add: START_CODE_def)
    (subst h264_scan.simps, simp add: Let_def h264_scan_first)

text \<open>Emulation prevention keeps start codes out of the contents.\<close>

lemma append_byte_clean: "no_start_code xs \<Longrightarrow> no_start_code (append_byte xs b)"
  by (auto simp: no_start_code_def append_byte_def nth_append not_less less_Suc_eq)
    (drule sym, simp)+

lemma append_bytes_clean: "no_start_code xs \<Longrightarrow> no_start_code (foldl append_byte xs bs)"
  by (induction bs arbitrary: xs) (auto intro: append_byte_clean)

lemma append_byte_ctx: "xs \<noteq> [] \<Longrightarrow> append_byte (pre @ 1 # xs) b = pre @ 1 # append_byte xs b"
  by (cases xs rule: rev_cases; cases "butlast xs" rule: rev_cases)
    (auto simp: append_byte_def nth_append)

lemma append_byte_ne [simp]: "append_byte xs b \<noteq> []"
  by (simp add: append_byte_def)

lemma append_bytes_ctx:
  "xs \<noteq> [] \<Longrightarrow> foldl append_byte (pre @ 1 # xs) bs = pre @ 1 # foldl append_byte xs bs"
  by (induction bs arbitrary: xs) (simp_all add: append_byte_ctx)

lemma append_bytes_hd: "xs \<noteq> [] \<Longrightarrow> foldl append_byte xs bs \<noteq> [] \<and> hd (foldl append_byte xs bs) = hd xs"
proof (induction bs arbitrary: xs)
  case (Cons b bs)
  have "hd (append_byte xs b) = hd xs" using Cons.prems by (simp add: append_byte_def)
  then show ?case using Cons.IH [of "append_byte xs b"] by simp
qed simp

text \<open>A file as the list of its NALs.\<close>

definition nal_ok :: "bytes \<Rightarrow> bool" where
  "nal_ok b \<longleftrightarrow> b \<noteq> [] \<and> no_start_code b"

definition nal_file :: "bytes list \<Rightarrow> bytes" where
  "nal_file bs = concat (map (\<lambda>b. START_CODE @ b) bs)"

lemma append_nal_file:
  "\<exists>b. append_nal (nal_file bs) seed c h n = (nal_file (bs @ [b]), c + of_nat n) \<and> nal_ok b \<and> hd b = h"
proof -
  define b where "b = foldl append_byte [h] (map (\<lambda>i. h264_byte seed (c + of_nat i)) [0..<n])"
  have "no_start_code [h]" by (simp add: no_start_code_def)
  then have "nal_ok b \<and> hd b = h"
    using append_bytes_hd [of "[h]"] append_bytes_clean by (auto simp: b_def nal_ok_def)
  moreover have "append_nal (nal_file bs) seed c h n = (nal_file (bs @ [b]), c + of_nat n)"
    using append_bytes_ctx [of "[h]" "nal_file bs @ [0, 0, 0]"]
    by (simp add: append_nal_def b_def nal_file_def START_CODE_def)
  ultimately show ?thesis by blast
qed

lemma slices_file:
  "\<exists>cs. h264_slices seed sz (nal_file bs) c = nal_file (bs @ cs) \<and> (\<forall>b \<in> set cs. nal_ok b \<and> hd b = H264_NAL_NONIDR)"
proof (induction "Suc sz - length (nal_file bs)" arbitrary: bs c rule: less_induct)
  case less
  obtain b where b: "append_nal (nal_file bs) seed c H264_NAL_NONIDR H264_SLICE_PAYLOAD = (nal_file (bs @ [b]), c + of_nat H264_SLICE_PAYLOAD)"
    "nal_ok b" "hd b = H264_NAL_NONIDR"
    using append_nal_file by metis
  show ?case
  proof (cases "sz < length (nal_file (bs @ [b]))")
    case True
    then show ?thesis using b by (subst h264_slices.simps) (auto intro: exI [where x = "[]"])
  next
    case False
    have "length (nal_file bs) < length (nal_file (bs @ [b]))"
      using append_nal_length [OF b(1)] .
    with False obtain cs where "h264_slices seed sz (nal_file (bs @ [b])) (c + of_nat H264_SLICE_PAYLOAD) = nal_file ((bs @ [b]) @ cs)"
      "\<forall>b \<in> set cs. nal_ok b \<and> hd b = H264_NAL_NONIDR"
      using less.hyps [of "bs @ [b]" "c + of_nat H264_SLICE_PAYLOAD"] by fastforce
    then show ?thesis using b False
      by (subst h264_slices.simps) (auto intro!: exI [where x = "b # cs"])
  qed
qed

lemma nal_file_types:
  "no_start_code xs \<Longrightarrow> \<forall>b \<in> set bs. nal_ok b \<Longrightarrow>
   nal_types (xs @ nal_file bs) = map (\<lambda>b. hd b AND 0x1f) bs"
proof (induction bs arbitrary: xs)
  case Nil
  then show ?case by (simp add: nal_file_def no_start_code_types)
next
  case (Cons b bs)
  obtain h r where b: "b = h # r" using Cons.prems by (cases b) (auto simp: nal_ok_def)
  have "nal_types (xs @ nal_file (b # bs)) = (h AND 0x1f) # nal_types (b @ nal_file bs)"
    using nal_types_next [OF Cons.prems(1), of h "r @ nal_file bs"] by (simp add: b nal_file_def)
  also have "nal_types (b @ nal_file bs) = map (\<lambda>b. hd b AND 0x1f) bs"
    using Cons.IH [of b] Cons.prems(2) by (simp add: nal_ok_def)
  finally show ?case by (simp add: b)
qed

lemma body_step: "\<forall>b \<in> set cs. hd b = H264_NAL_NONIDR \<Longrightarrow>
   foldl h264_nal_step 3 (map (\<lambda>b. hd b AND 0x1f) cs) = 3"
  by (induction cs) (simp_all add: H264_NAL_NONIDR_def h264_nal_step_def)

lemma generated_structure:
  assumes "h264_testfile_generate sha opened written dir seed sz = Some (d, w)"
  obtains bs where "d = nal_file bs" "w = bytes_of ''hs-'' @ sha d @ bytes_of ''.h264''"
    "\<forall>b \<in> set bs. nal_ok b" "2 < length bs"
    "foldl h264_nal_step 0 (map (\<lambda>b. hd b AND 0x1f) bs) = 3"
proof -
  have nil: "nal_file [] = []" by (simp add: nal_file_def)
  obtain b1 where b1: "append_nal [] seed 0 H264_NAL_SPS H264_SPS_PAYLOAD = (nal_file [b1], of_nat H264_SPS_PAYLOAD)"
    "nal_ok b1" "hd b1 = H264_NAL_SPS"
    using append_nal_file [of "[]" seed 0 H264_NAL_SPS H264_SPS_PAYLOAD] by (auto simp: nil)
  obtain b2 c2 where b2: "append_nal (nal_file [b1]) seed (of_nat H264_SPS_PAYLOAD) H264_NAL_PPS H264_PPS_PAYLOAD = (nal_file [b1, b2], c2)"
    "nal_ok b2" "hd b2 = H264_NAL_PPS"
    using append_nal_file [of "[b1]" seed "of_nat H264_SPS_PAYLOAD" H264_NAL_PPS H264_PPS_PAYLOAD] by auto
  obtain b3 c3 where b3: "append_nal (nal_file [b1, b2]) seed c2 H264_NAL_IDR H264_SLICE_PAYLOAD = (nal_file [b1, b2, b3], c3)"
    "nal_ok b3" "hd b3 = H264_NAL_IDR"
    using append_nal_file [of "[b1, b2]" seed c2 H264_NAL_IDR H264_SLICE_PAYLOAD] by auto
  obtain cs where cs: "h264_slices seed (unat sz) (nal_file [b1, b2, b3]) c3 = nal_file ([b1, b2, b3] @ cs)"
    "\<forall>b \<in> set cs. nal_ok b \<and> hd b = H264_NAL_NONIDR"
    using slices_file by metis
  have "d = nal_file ([b1, b2, b3] @ cs)" "w = bytes_of ''hs-'' @ sha d @ bytes_of ''.h264''"
    using assms b1 b2 b3 cs by (auto simp: h264_testfile_generate_def Let_def split: if_splits)
  moreover have "foldl h264_nal_step 0 (map (\<lambda>b. hd b AND 0x1f) ([b1, b2, b3] @ cs)) = 3"
  proof -
    have "foldl h264_nal_step 0 (map (\<lambda>b. hd b AND 0x1f) [b1, b2, b3]) = 3"
      by (simp add: b1 b2 b3 H264_NAL_SPS_def H264_NAL_PPS_def H264_NAL_IDR_def h264_nal_step_def)
    then show ?thesis using body_step [of cs] cs(2) by simp
  qed
  ultimately show thesis using that [of "[b1, b2, b3] @ cs"] b1 b2 b3 cs by auto
qed

lemma nal_file_head:
  assumes "\<forall>b \<in> set bs. nal_ok b" "bs \<noteq> []"
  obtains h r where "nal_file bs = START_CODE @ h # r"
  using assms by (cases bs; cases "hd bs") (auto simp: nal_ok_def nal_file_def)

lemma nal_file_length: "\<forall>b \<in> set bs. nal_ok b \<Longrightarrow> 5 * length bs \<le> length (nal_file bs)"
proof (induction bs)
  case (Cons b bs)
  then show ?case by (cases b) (auto simp: nal_file_def nal_ok_def START_CODE_def)
qed simp

definition sha_text_ok :: "(bytes \<Rightarrow> cstr) \<Rightarrow> bool" where
  "sha_text_ok sha \<longleftrightarrow> (\<forall>d. length (sha d) = 64 \<and> list_all g_ascii_isxdigit (sha d))"

section \<open>Properties\<close>

text \<open>
  The file name convention: a wire name carries a checkable digest exactly when it is
  \<open>ft-<64 hex digits>.bin\<close> or \<open>hs-<64 hex digits>.h264\<close>, and then the digest is these digits; no
  name is of both kinds.
\<close>

lemma testfile_names:
  "(ft_testfile_name_sha (Some w) = Some h \<longleftrightarrow>
      w = bytes_of ''ft-'' @ h @ bytes_of ''.bin'' \<and> length h = 64 \<and> list_all g_ascii_isxdigit h) \<and>
   (h264_testfile_name_sha (Some w) = Some h \<longleftrightarrow>
      w = bytes_of ''hs-'' @ h @ bytes_of ''.h264'' \<and> length h = 64 \<and> list_all g_ascii_isxdigit h) \<and>
   (ft_testfile_name_sha (Some w) = None \<or> h264_testfile_name_sha (Some w) = None)"
proof -
  have "name_sha (bytes_of ''ft-'') (bytes_of ''.bin'') w = None \<or> name_sha (bytes_of ''hs-'') (bytes_of ''.h264'') w = None"
  proof (rule ccontr)
    assume "\<not> ?thesis"
    then show False by (auto simp: name_sha_iff bytes_of_def of_char_def horner_sum_simps)
  qed
  then show ?thesis by (simp add: ft_testfile_name_sha_def h264_testfile_name_sha_def name_sha_iff)
qed

text \<open>
  The generated plain file has the size asked for and the byte at every offset is that of the
  seed and the offset, however the file is split into writes, and its wire name carries its digest;
  a write that fails loses the file.
\<close>

lemma ft_generated:
  assumes "sha_text_ok sha" "\<And>off buf. wr off buf" "0 < sz"
  shows "\<exists>d w. ft_testfile_generate sha True wr (Some dir) seed sz = Some (d, w) \<and>
     length d = unat sz \<and> (\<forall>i < unat sz. d ! i = ft_byte seed (of_nat i)) \<and>
     ft_testfile_name_sha (Some w) = Some (sha d) \<and>
     ft_testfile_generate sha True (\<lambda>_ _. False) (Some dir) seed sz = None"
proof -
  have "ft_fill wr seed (unat sz) 0 [] = Some (map (\<lambda>i. ft_byte seed (of_nat i)) [0..<unat sz])"
    using ft_fill_content [of wr 0 "unat sz" seed "[]"] assms(2) by simp
  moreover have "ft_fill (\<lambda>_ _. False) seed (unat sz) 0 [] = None"
    using assms(3) by (subst ft_fill.simps) (simp add: unat_gt_0 word_gt_0)
  ultimately show ?thesis using assms
    by (auto simp: ft_testfile_generate_def ft_testfile_name_sha_def name_sha_iff sha_text_ok_def word_gt_0)
qed

definition toy_sha :: "bytes \<Rightarrow> cstr" where
  "toy_sha d = replicate 64 (of_char (CHR ''a''))"

lemma toy_sha_ok: "sha_text_ok toy_sha"
  by (auto simp: sha_text_ok_def toy_sha_def g_ascii_isxdigit_def list_all_iff of_char_def horner_sum_simps)

lemma ft_generated_witness:
  "\<exists>d w. ft_testfile_generate toy_sha True (\<lambda>_ _. True) (Some [0x2f]) 42 100000 = Some (d, w) \<and>
     length d = 100000"
  using ft_generated [OF toy_sha_ok, of "\<lambda>_ _. True" 100000 "[0x2f]" 42] by auto

text \<open>
  The receiver's check accepts what the generator made, for every seed and size: emulation
  prevention keeps start codes out of the contents, so the scan finds exactly the NAL units that
  were written, in an order it accepts, and the digest in the name matches.
\<close>

lemma h264_generated_verifies:
  assumes "sha_text_ok sha" "h264_testfile_generate sha opened written dir seed sz = Some (d, w)"
  shows "h264_testfile_verify sha (Some d) (Some w)"
proof -
  obtain bs where bs: "d = nal_file bs" "w = bytes_of ''hs-'' @ sha d @ bytes_of ''.h264''"
    "\<forall>b \<in> set bs. nal_ok b" "2 < length bs"
    "foldl h264_nal_step 0 (map (\<lambda>b. hd b AND 0x1f) bs) = 3"
    using assms(2) by (rule generated_structure)
  have ty: "nal_types d = map (\<lambda>b. hd b AND 0x1f) bs"
    using nal_file_types [of "[]" bs] bs by (simp add: no_start_code_def)
  obtain h r where hr: "d = START_CODE @ h # r" using nal_file_head [OF bs(3)] bs by fastforce
  have sha: "h264_testfile_name_sha (Some w) = Some (sha d)"
    using assms(1) bs(2) by (simp add: h264_testfile_name_sha_def name_sha_iff sha_text_ok_def)
  have len: "\<not> length d < 10" using nal_file_length [OF bs(3)] bs(1,4) by simp
  let ?s = "h264_scan d 0 \<lparr>hs_first = -1, hs_nals = 0, hs_st = 0\<rparr>"
  have "hs_first ?s = 1" using h264_scan_head [of h r] hr by simp
  moreover have "hs_st ?s = 3" "2 < hs_nals ?s" using bs ty by (simp_all add: h264_scan_types)
  ultimately show ?thesis by (simp add: h264_testfile_verify_def sha len Let_def)
qed

lemma h264_generated_verifies_witness:
  "h264_testfile_generate toy_sha True True (Some [0x2f]) 7 8192 \<noteq> None \<and>
   h264_testfile_verify toy_sha (map_option fst (h264_testfile_generate toy_sha True True (Some [0x2f]) 7 8192))
     (map_option snd (h264_testfile_generate toy_sha True True (Some [0x2f]) 7 8192))"
proof -
  obtain d w where g: "h264_testfile_generate toy_sha True True (Some [0x2f]) 7 8192 = Some (d, w)"
    by (cases "h264_testfile_generate toy_sha True True (Some [0x2f]) 7 8192")
      (auto simp: h264_testfile_generate_def Let_def split: prod.splits)
  show ?thesis using h264_generated_verifies [OF toy_sha_ok g] by (simp add: g)
qed

end
