(* ===== verification/StreamFile.thy ===== *)
theory StreamFile
  imports VtpFrame TestFiles
begin

text \<open>
  The file session over a fillp peer (\<open>src/proto/stream_file.c\<close>): the fill function that turns a
  file into VTP frames, the receiver that reassembles the frames from the byte stream and writes the
  file, and the start and end of a session.

  Calls of callbacks and of the engine are outputs.  The cipher, the digest and what the file system
  answers are in \<open>sf_io\<close>; the content of the received file is part of the state.  A path is the
  pair of directory and name that \<open>g_build_filename\<close> joins.  Message texts are not modelled.
\<close>

definition SF_VTP_CHUNK :: nat where "SF_VTP_CHUNK = 32768"

datatype sf_rx_state = SF_RX_WAIT | SF_RX_DATA | SF_RX_DONE | SF_RX_FAILED
datatype sf_tx_state = SF_TX_IDLE | SF_TX_ACTIVE | SF_TX_DONE | SF_TX_FAILED

record stream_file =
  sf_key :: bytes
  sf_recv_dir :: "cstr option"
  sf_closed :: bool
  sf_rxbuf :: bytes
  sf_rx_state :: sf_rx_state
  sf_rx_total :: u64
  sf_rx_received :: u64
  sf_rx_name :: "cstr option"
  sf_rx_path :: "(cstr \<times> cstr) option"
  sf_rx_expected_sha :: "cstr option"
  sf_rx_fd :: bool
  sf_rx_sha :: "bytes option"
  sf_rx_file :: bytes
  sf_tx_state :: sf_tx_state
  sf_tx_wire :: cstr
  sf_tx_fd :: bool
  sf_tx_total :: u64
  sf_tx_offset :: u64
  sf_tx_meta_sent :: bool

record sf_io =
  io_unseal :: vtp_unseal
  io_sha :: "bytes \<Rightarrow> cstr"
  io_open :: "cstr \<times> cstr \<Rightarrow> bool"
  io_write :: "u64 \<Rightarrow> bytes \<Rightarrow> bool"
  io_readable :: bool

text \<open>\<open>SfDone is_send ok\<close> is \<open>on_done\<close>, \<open>SfSend\<close> is \<open>fillp_peer_send\<close>.\<close>

datatype sf_out = SfMeta cstr u64 | SfDone bool bool | SfSend bytes | SfSetFill | SfAttach

definition stream_file_new :: "bytes \<Rightarrow> stream_file" where
  "stream_file_new key =
     \<lparr>sf_key = take VTP_KEY_LEN key, sf_recv_dir = None, sf_closed = False, sf_rxbuf = [],
      sf_rx_state = SF_RX_WAIT, sf_rx_total = 0, sf_rx_received = 0, sf_rx_name = None,
      sf_rx_path = None, sf_rx_expected_sha = None, sf_rx_fd = False, sf_rx_sha = None,
      sf_rx_file = [], sf_tx_state = SF_TX_IDLE, sf_tx_wire = [], sf_tx_fd = False,
      sf_tx_total = 0, sf_tx_offset = 0, sf_tx_meta_sent = False\<rparr>"

definition stream_file_set_recv_dir :: "stream_file \<Rightarrow> cstr option \<Rightarrow> stream_file" where
  "stream_file_set_recv_dir sf dir = sf\<lparr>sf_recv_dir := dir\<rparr>"

definition sf_fail :: "stream_file \<Rightarrow> stream_file \<times> sf_out list" where
  "sf_fail sf =
     (let (sf, os) =
        (if sf_rx_state sf = SF_RX_WAIT \<and> sf_recv_dir sf \<noteq> None
         then (sf\<lparr>sf_rx_state := SF_RX_FAILED\<rparr>, [SfDone False False])
         else if sf_rx_state sf = SF_RX_DATA
         then (sf\<lparr>sf_rx_state := SF_RX_FAILED\<rparr>, [SfDone False False])
         else (sf, []))
      in if sf_tx_state sf = SF_TX_ACTIVE
         then (sf\<lparr>sf_tx_state := SF_TX_FAILED\<rparr>, os @ [SfDone True False])
         else (sf, os))"

section \<open>Sending\<close>

definition sf_send_frame ::
  "vtp_seal \<Rightarrow> bytes option \<Rightarrow> u32 \<Rightarrow> stream_file \<Rightarrow> bytes \<Rightarrow> sf_out list \<times> int" where
  "sf_send_frame seal nonce now sf data =
     (case vtp_build_common_frame seal nonce (vtp_common_frame_size (length data)) (sf_key sf)
             1 0 0 now data of
        None \<Rightarrow> ([], 0)
      | Some frame \<Rightarrow> ([SfSend frame], int (length frame)))"

text \<open>
  \<open>rd off n\<close> is \<open>pread\<close>, \<open>None\<close> for an error.  The result is the new state, the calls made and
  the return value: bytes queued, 0, or -1 after the final chunk.
\<close>

definition sf_fill ::
  "vtp_seal \<Rightarrow> (u64 \<Rightarrow> nat \<Rightarrow> bytes option) \<Rightarrow> bytes option \<Rightarrow> u32 \<Rightarrow> stream_file \<Rightarrow>
   stream_file \<times> sf_out list \<times> int" where
  "sf_fill seal rd nonce now sf =
     (if sf_tx_state sf \<noteq> SF_TX_ACTIVE then (sf, [], if sf_tx_state sf = SF_TX_DONE then -1 else 0)
      else if \<not> sf_tx_meta_sent sf then
        let name_len = length (sf_tx_wire sf);
            meta = put_u64 (sf_tx_total sf) @ put_u16 (of_nat name_len) @ sf_tx_wire sf;
            (os, queued) = sf_send_frame seal nonce now sf meta
        in if queued \<le> 0 then (case sf_fail sf of (sf', os') \<Rightarrow> (sf', os @ os', 0))
           else (sf\<lparr>sf_tx_meta_sent := True\<rparr>, os, queued)
      else if \<not> sf_tx_fd sf then (sf, [], -1)
      else case rd (sf_tx_offset sf) SF_VTP_CHUNK of
        None \<Rightarrow> (case sf_fail sf of (sf', os') \<Rightarrow> (sf', os', 0))
      | Some chunk \<Rightarrow>
          if chunk = [] then (sf, [], -1)
          else
            let (os, queued) = sf_send_frame seal nonce now sf chunk
            in if queued \<le> 0 then (case sf_fail sf of (sf', os') \<Rightarrow> (sf', os @ os', 0))
               else (sf\<lparr>sf_tx_offset := sf_tx_offset sf + of_nat (length chunk)\<rparr>, os, queued))"

definition sf_on_tx_complete :: "stream_file \<Rightarrow> stream_file \<times> sf_out list" where
  "sf_on_tx_complete sf =
     (if sf_closed sf then (sf, [])
      else if sf_tx_state sf \<noteq> SF_TX_ACTIVE then (sf, [])
      else (sf\<lparr>sf_tx_state := SF_TX_DONE\<rparr>, [SfDone True True]))"

section \<open>Receiving\<close>

fun has_dotdot :: "cstr \<Rightarrow> bool" where
  "has_dotdot (x # y # r) \<longleftrightarrow> x = of_char (CHR ''.'') \<and> y = of_char (CHR ''.'') \<or> has_dotdot (y # r)"
| "has_dotdot _ \<longleftrightarrow> False"

text \<open>The check on a received name; \<open>name[0]\<close> of an empty C string is its NUL.\<close>

definition sf_bad_name :: "u16 \<Rightarrow> cstr \<Rightarrow> bool" where
  "sf_bad_name name_len name \<longleftrightarrow>
     name_len = 0 \<or> of_char (CHR ''/'') \<in> set name \<or> has_dotdot name \<or>
     name \<noteq> [] \<and> hd name = of_char (CHR ''.'')"

text \<open>What \<open>pwrite\<close> at an offset makes of a file.\<close>

definition pwrite_at :: "bytes \<Rightarrow> nat \<Rightarrow> bytes \<Rightarrow> bytes" where
  "pwrite_at f off d =
     take off (f @ replicate (off - length f) 0) @ d @ drop (off + length d) f"

definition str_suffix :: "cstr \<Rightarrow> cstr \<Rightarrow> bool" where
  "str_suffix s suf \<longleftrightarrow> length suf \<le> length s \<and> drop (length s - length suf) s = suf"

text \<open>The verdict on a complete file.\<close>

definition sf_verify :: "sf_io \<Rightarrow> stream_file \<Rightarrow> bool" where
  "sf_verify io sf =
     (if str_suffix (the (sf_rx_name sf)) (bytes_of ''.h264'')
      then h264_testfile_verify (io_sha io) (if io_readable io then Some (sf_rx_file sf) else None)
             (sf_rx_name sf)
      else case sf_rx_expected_sha sf of
             Some e \<Rightarrow> io_sha io (the (sf_rx_sha sf)) = e
           | None \<Rightarrow> True)"

definition sf_rx_finish :: "sf_io \<Rightarrow> stream_file \<Rightarrow> stream_file \<times> sf_out list" where
  "sf_rx_finish io sf =
     (if sf_rx_received sf = sf_rx_total sf then
        (sf\<lparr>sf_rx_fd := False, sf_rx_sha := None, sf_rx_state := SF_RX_DONE\<rparr>,
         [SfDone False (sf_verify io sf)])
      else (sf, []))"

definition sf_stop :: "stream_file \<Rightarrow> (stream_file \<times> sf_out list \<times> bool) option" where
  "sf_stop sf = (case sf_fail sf of (sf', os) \<Rightarrow> Some (sf', os, False))"

definition sf_rx_meta ::
  "sf_io \<Rightarrow> stream_file \<Rightarrow> bytes \<Rightarrow> (stream_file \<times> sf_out list \<times> bool) option" where
  "sf_rx_meta io sf out =
     (case sf_recv_dir sf of
        None \<Rightarrow> sf_stop sf
      | Some dir \<Rightarrow>
          if length out < 10 then sf_stop sf
          else do {
            total \<leftarrow> get_u64 out 0;
            name_len \<leftarrow> get_u16 out 8;
            if length out \<noteq> 10 + unat name_len then sf_stop sf
            else do {
              nm \<leftarrow> get_bytes out 10 (unat name_len);
              let name = c_string nm;
              if sf_bad_name name_len name then sf_stop sf
              else if \<not> io_open io (dir, name) then
                sf_stop (sf\<lparr>sf_rx_name := Some name, sf_rx_path := None\<rparr>)
              else Some (sf\<lparr>sf_rx_name := Some name, sf_rx_path := Some (dir, name), sf_rx_fd := True,
                            sf_rx_file := [], sf_rx_sha := Some [], sf_rx_total := total,
                            sf_rx_received := 0,
                            sf_rx_expected_sha :=
                              (case h264_testfile_name_sha (Some name) of
                                 Some h \<Rightarrow> Some h | None \<Rightarrow> ft_testfile_name_sha (Some name)),
                            sf_rx_state := SF_RX_DATA\<rparr>,
                         [SfMeta name total], True) } })"

definition sf_rx_chunk ::
  "sf_io \<Rightarrow> stream_file \<Rightarrow> bytes \<Rightarrow> (stream_file \<times> sf_out list \<times> bool) option" where
  "sf_rx_chunk io sf out =
     (if out \<noteq> [] \<and> sf_rx_total sf < sf_rx_received sf + of_nat (length out) then sf_stop sf
      else if out \<noteq> [] \<and> \<not> io_write io (sf_rx_received sf) out then sf_stop sf
      else
        let sf1 = (if out \<noteq> [] then
                     sf\<lparr>sf_rx_file := pwrite_at (sf_rx_file sf) (unat (sf_rx_received sf)) out,
                        sf_rx_sha := map_option (\<lambda>d. d @ out) (sf_rx_sha sf),
                        sf_rx_received := sf_rx_received sf + of_nat (length out)\<rparr>
                   else sf);
            (sf2, os) = sf_rx_finish io sf1
        in Some (sf2, os, True))"

definition sf_process_frame ::
  "sf_io \<Rightarrow> stream_file \<Rightarrow> bytes \<Rightarrow> nat \<Rightarrow> (stream_file \<times> sf_out list \<times> bool) option" where
  "sf_process_frame io sf frame frame_total =
     (if sf_rx_state sf = SF_RX_DONE \<or> sf_rx_state sf = SF_RX_FAILED then Some (sf, [], True)
      else do {
        r \<leftarrow> vtp_parse_common_frame (io_unseal io) frame frame_total (sf_key sf) SF_VTP_CHUNK;
        case r of
          None \<Rightarrow> sf_stop sf
        | Some v \<Rightarrow>
            if sf_rx_state sf = SF_RX_WAIT then sf_rx_meta io sf (vi_data v)
            else sf_rx_chunk io sf (vi_data v) })"

text \<open>A frame is processed and kept going only when its claimed length did not wrap around.\<close>

lemma stop_cont: "sf_stop sf = Some (sf', os, c) \<Longrightarrow> \<not> c \<and> sf_rxbuf sf' = sf_rxbuf sf"
  by (auto simp: sf_stop_def sf_fail_def Let_def split: if_splits prod.splits)

lemma finish_rxbuf [simp]: "sf_rxbuf (fst (sf_rx_finish io sf)) = sf_rxbuf sf"
  by (simp add: sf_rx_finish_def)

lemma meta_rxbuf: "sf_rx_meta io sf out = Some (sf', os, c) \<Longrightarrow> sf_rxbuf sf' = sf_rxbuf sf"
  by (cases "sf_recv_dir sf")
    (auto simp: sf_rx_meta_def bind_eq_Some_conv Let_def dest: stop_cont dest!: stop_cont [of "sf\<lparr>sf_rx_name := n, sf_rx_path := None\<rparr>" for n]
      split: if_splits)

lemma chunk_rxbuf: "sf_rx_chunk io sf out = Some (sf', os, c) \<Longrightarrow> sf_rxbuf sf' = sf_rxbuf sf"
  by (auto simp: sf_rx_chunk_def Let_def case_prod_beta dest: stop_cont split: if_splits)

lemma process_rxbuf: "sf_process_frame io sf f n = Some (sf', os, c) \<Longrightarrow> sf_rxbuf sf' = sf_rxbuf sf"
  by (auto simp: sf_process_frame_def bind_eq_Some_conv dest: stop_cont meta_rxbuf chunk_rxbuf
      split: if_splits option.splits)

lemma parse_wrap:
  assumes "get_u32 f 0 = Some n" "2 ^ 32 \<le> 4 + unat n"
  shows "vtp_parse_common_frame unseal f (4 + unat n) key cap = Some None"
proof -
  have "unat (4 + n) < 2 ^ 32" using unsigned_less [of "4 + n"] by simp
  with assms show ?thesis
    by (auto simp: vtp_parse_common_frame_def vtp_get_u32_eq vtp_lens)
qed

lemma process_wrap:
  assumes "get_u32 f 0 = Some n" "2 ^ 32 \<le> 4 + unat n"
    and "\<not> (sf_rx_state sf = SF_RX_DONE \<or> sf_rx_state sf = SF_RX_FAILED)"
  shows "sf_process_frame io sf f (4 + unat n) = sf_stop sf"
  using assms by (simp add: sf_process_frame_def parse_wrap)

text \<open>
  The loop of \<open>sf_on_data\<close>.  The sum \<open>4u + n\<close> is a \<open>u32\<close>; the number of bytes removed is the frame
  length cut to \<open>guint\<close>.
\<close>

function sf_rx_loop :: "sf_io \<Rightarrow> stream_file \<Rightarrow> (stream_file \<times> sf_out list) option" where
  "sf_rx_loop io sf =
     (if sf_rx_state sf = SF_RX_FAILED \<or> sf_rx_state sf = SF_RX_DONE then Some (sf, [])
      else if length (sf_rxbuf sf) < 4 then Some (sf, [])
      else case get_u32 (sf_rxbuf sf) 0 of
        None \<Rightarrow> None
      | Some n \<Rightarrow>
          if length (sf_rxbuf sf) < unat (4 + n) then Some (sf, [])
          else
            let frame_total = 4 + unat n in
            case sf_process_frame io sf (sf_rxbuf sf) frame_total of
              None \<Rightarrow> None
            | Some (sf1, os, cont) \<Rightarrow>
                let sf2 = sf1\<lparr>sf_rxbuf := drop (unat (of_nat frame_total :: u32)) (sf_rxbuf sf1)\<rparr> in
                if cont then
                  case sf_rx_loop io sf2 of
                    None \<Rightarrow> None
                  | Some (sf3, os') \<Rightarrow> Some (sf3, os @ os')
                else Some (sf2, os))"
  by pat_completeness auto
termination
proof (relation "measure (\<lambda>(io, sf). length (sf_rxbuf sf))", goal_cases)
  case (2 io sf n ft x sf1 y os cont sf2)
  have "0 < unat (of_nat ft :: u32)"
  proof (cases "2 ^ 32 \<le> 4 + unat n")
    case True
    then have "sf_process_frame io sf (sf_rxbuf sf) ft = sf_stop sf"
      using process_wrap 2 by auto
    then show ?thesis using 2 stop_cont by auto
  next
    case False
    then have "unat (of_nat (4 + unat n) :: u32) = 4 + unat n" by (intro unat_of_nat_small) simp
    then show ?thesis using 2(5) by simp
  qed
  moreover have "sf_rxbuf sf1 = sf_rxbuf sf" using 2 process_rxbuf by metis
  ultimately show ?case using 2 by simp
qed simp

declare sf_rx_loop.simps [simp del]

definition sf_on_data :: "sf_io \<Rightarrow> stream_file \<Rightarrow> bytes \<Rightarrow> (stream_file \<times> sf_out list) option" where
  "sf_on_data io sf data =
     (if sf_closed sf then Some (sf, [])
      else sf_rx_loop io (sf\<lparr>sf_rxbuf := sf_rxbuf sf @ data\<rparr>))"

section \<open>Session\<close>

definition stream_file_attach :: "stream_file \<Rightarrow> sf_out list" where
  "stream_file_attach sf = (if sf_closed sf then [] else [SfAttach])"

text \<open>\<open>st\<close> is the size \<open>stat\<close> found for a regular file.\<close>

definition stream_file_start_send ::
  "u64 option \<Rightarrow> bool \<Rightarrow> cstr \<Rightarrow> stream_file \<Rightarrow> stream_file \<times> sf_out list \<times> bool" where
  "stream_file_start_send st opened wire_name sf =
     (if sf_closed sf then (sf, [], False)
      else if sf_tx_state sf \<noteq> SF_TX_IDLE then (sf, [], False)
      else case st of
        None \<Rightarrow> (sf, [], False)
      | Some sz \<Rightarrow>
          if \<not> opened then (sf, [], False)
          else
            let sf = sf\<lparr>sf_tx_fd := True, sf_tx_wire := wire_name, sf_tx_total := sz,
                        sf_tx_offset := 0, sf_tx_meta_sent := False, sf_tx_state := SF_TX_ACTIVE\<rparr>
            in (sf, SfSetFill # stream_file_attach sf, True))"

definition stream_file_close :: "stream_file \<Rightarrow> stream_file" where
  "stream_file_close sf = sf\<lparr>sf_closed := True, sf_rxbuf := [], sf_rx_sha := None, sf_rx_fd := False,
     sf_tx_fd := False\<rparr>"

section \<open>Runs\<close>

text \<open>A receiver that is handed the stream in pieces, and a sender whose fill function is called
  with one nonce and time after the other until it says that it has finished.\<close>

fun sf_feed :: "sf_io \<Rightarrow> stream_file \<Rightarrow> bytes list \<Rightarrow> (stream_file \<times> sf_out list) option" where
  "sf_feed io sf [] = Some (sf, [])"
| "sf_feed io sf (c # cs) = do {
     (sf1, os) \<leftarrow> sf_on_data io sf c;
     (sf2, os') \<leftarrow> sf_feed io sf1 cs;
     Some (sf2, os @ os') }"

fun sf_fills ::
  "vtp_seal \<Rightarrow> (u64 \<Rightarrow> nat \<Rightarrow> bytes option) \<Rightarrow> stream_file \<Rightarrow> (bytes option \<times> u32) list \<Rightarrow>
   stream_file \<times> sf_out list \<times> bool" where
  "sf_fills seal rd sf [] = (sf, [], False)"
| "sf_fills seal rd sf ((nonce, now) # ns) =
     (case sf_fill seal rd nonce now sf of
        (sf1, os, ret) \<Rightarrow>
          if ret = -1 then (sf1, os, True)
          else case sf_fills seal rd sf1 ns of (sf2, os', e) \<Rightarrow> (sf2, os @ os', e))"

section \<open>Lemmas: the receiver\<close>

lemma parse_ext:
  "vtp_parse_common_frame unseal f n key cap = Some r \<Longrightarrow>
   vtp_parse_common_frame unseal (f @ x) n key cap = Some r"
  by (erule extD [rotated]) (simp only: vtp_parse_common_frame_def vtp_get_u32_eq Let_def, intro ext_rules)

lemma process_ext: "sf_process_frame io sf f n = Some r \<Longrightarrow> sf_process_frame io sf (f @ x) n = Some r"
  by (auto simp: sf_process_frame_def bind_eq_Some_conv dest: parse_ext split: if_splits)

text \<open>The handlers do not look at the buffer of the session.\<close>

abbreviation map_sf :: "(stream_file \<Rightarrow> stream_file) \<Rightarrow> (stream_file \<times> sf_out list \<times> bool) option \<Rightarrow>
  (stream_file \<times> sf_out list \<times> bool) option" where
  "map_sf g m \<equiv> map_option (\<lambda>(s, os, c). (g s, os, c)) m"

lemma stop_buf: "sf_stop (sf\<lparr>sf_rxbuf := b\<rparr>) = map_sf (\<lambda>s. s\<lparr>sf_rxbuf := b\<rparr>) (sf_stop sf)"
  by (simp add: sf_stop_def sf_fail_def Let_def)

lemma finish_buf: "sf_rx_finish io (sf\<lparr>sf_rxbuf := b\<rparr>) = apfst (\<lambda>s. s\<lparr>sf_rxbuf := b\<rparr>) (sf_rx_finish io sf)"
  by (simp add: sf_rx_finish_def sf_verify_def split: option.splits)

lemma chunk_buf: "sf_rx_chunk io (sf\<lparr>sf_rxbuf := b\<rparr>) out = map_sf (\<lambda>s. s\<lparr>sf_rxbuf := b\<rparr>) (sf_rx_chunk io sf out)"
proof -
  have c: "sf\<lparr>sf_rxbuf := b, sf_rx_file := x, sf_rx_sha := y, sf_rx_received := z\<rparr>
    = (sf\<lparr>sf_rx_file := x, sf_rx_sha := y, sf_rx_received := z\<rparr>)\<lparr>sf_rxbuf := b\<rparr>" for x y z by simp
  show ?thesis
    by (simp only: sf_rx_chunk_def Let_def c stream_file.simps)
      (simp add: stop_buf finish_buf case_prod_beta)
qed

lemma meta_buf: "sf_rx_meta io (sf\<lparr>sf_rxbuf := b\<rparr>) out = map_sf (\<lambda>s. s\<lparr>sf_rxbuf := b\<rparr>) (sf_rx_meta io sf out)"
proof -
  have c: "sf\<lparr>sf_rxbuf := b, sf_rx_name := x, sf_rx_path := y\<rparr>
    = (sf\<lparr>sf_rx_name := x, sf_rx_path := y\<rparr>)\<lparr>sf_rxbuf := b\<rparr>" for x y by simp
  show ?thesis
    by (cases "sf_recv_dir sf"; cases "get_u64 out 0"; cases "get_u16 out 8")
      (auto simp: sf_rx_meta_def Let_def stop_buf c map_option_case split: option.splits Option.bind_splits)
qed

lemma process_buf:
  "sf_process_frame io (sf\<lparr>sf_rxbuf := b\<rparr>) f n = map_sf (\<lambda>s. s\<lparr>sf_rxbuf := b\<rparr>) (sf_process_frame io sf f n)"
  by (auto simp: sf_process_frame_def stop_buf chunk_buf meta_buf split: Option.bind_splits option.splits)

text \<open>A failure ends the reception of a session that has a directory to receive into.\<close>

definition sf_over :: "stream_file \<Rightarrow> bool" where
  "sf_over sf \<longleftrightarrow> sf_rx_state sf = SF_RX_FAILED \<or> sf_rx_state sf = SF_RX_DONE"

lemma sf_over_buf [simp]: "sf_over (sf\<lparr>sf_rxbuf := b\<rparr>) = sf_over sf"
  by (simp add: sf_over_def)

lemma stop_over:
  "sf_stop sf = Some (sf', os, c) \<Longrightarrow> sf_recv_dir sf' = sf_recv_dir sf \<and> sf_closed sf' = sf_closed sf \<and>
     (sf_recv_dir sf \<noteq> None \<longrightarrow> \<not> c \<and> sf_over sf')"
  by (cases "sf_rx_state sf") (auto simp: sf_stop_def sf_fail_def sf_over_def Let_def split: if_splits)

lemma finish_over: "sf_recv_dir (fst (sf_rx_finish io sf)) = sf_recv_dir sf \<and> sf_closed (fst (sf_rx_finish io sf)) = sf_closed sf"
  by (simp add: sf_rx_finish_def)

lemma process_over:
  assumes "sf_process_frame io sf f n = Some (sf', os, c)" "sf_recv_dir sf \<noteq> None"
  shows "sf_recv_dir sf' = sf_recv_dir sf \<and> sf_closed sf' = sf_closed sf \<and> (\<not> c \<longrightarrow> sf_over sf')"
proof -
  have m: "sf_rx_meta io sf out = Some (sf', os, c) \<Longrightarrow> ?thesis" for out
    using assms(2) stop_over [of sf sf' os c] stop_over [of "sf\<lparr>sf_rx_name := nm, sf_rx_path := None\<rparr>" sf' os c for nm]
    by (auto simp: sf_rx_meta_def bind_eq_Some_conv Let_def split: if_splits)
  have k: "sf_rx_chunk io sf out = Some (sf', os, c) \<Longrightarrow> ?thesis" for out
    using assms(2) stop_over [of sf sf' os c]
    by (auto simp: sf_rx_chunk_def Let_def case_prod_beta finish_over split: if_splits)
  show ?thesis
    using assms m k stop_over [of sf sf' os c]
    by (auto simp: sf_process_frame_def bind_eq_Some_conv split: if_splits option.splits)
qed

text \<open>One turn of the loop.\<close>

lemma loop_over: "sf_over sf \<Longrightarrow> sf_rx_loop io sf = Some (sf, [])"
  by (subst sf_rx_loop.simps) (simp add: sf_over_def)

lemma loop_wait:
  "\<not> sf_over sf \<Longrightarrow> length (sf_rxbuf sf) < 4 \<or> (\<exists>n. get_u32 (sf_rxbuf sf) 0 = Some n \<and> length (sf_rxbuf sf) < unat (4 + n)) \<Longrightarrow>
   sf_rx_loop io sf = Some (sf, [])"
  by (subst sf_rx_loop.simps) (auto simp: sf_over_def)

lemma loop_turn:
  assumes "\<not> sf_over sf" "4 \<le> length (sf_rxbuf sf)" "get_u32 (sf_rxbuf sf) 0 = Some n"
    and "unat (4 + n) \<le> length (sf_rxbuf sf)"
    and "sf_process_frame io sf (sf_rxbuf sf) (4 + unat n) = Some (sf1, os, c)"
  shows "sf_rx_loop io sf =
     (let sf2 = sf1\<lparr>sf_rxbuf := drop (unat (4 + n)) (sf_rxbuf sf)\<rparr> in
      if c then map_option (\<lambda>(sf3, os'). (sf3, os @ os')) (sf_rx_loop io sf2) else Some (sf2, os))"
proof -
  have "(of_nat (4 + unat n) :: u32) = 4 + n" by simp
  then show ?thesis
    using assms process_rxbuf [OF assms(5)]
    by (subst sf_rx_loop.simps) (simp add: sf_over_def Let_def map_option_case split: option.splits)
qed

lemma loop_cases:
  assumes "sf_rx_loop io sf = Some (sf', os)"
  obtains (over) "sf_over sf" "sf' = sf" "os = []"
  | (wait) "\<not> sf_over sf" "length (sf_rxbuf sf) < 4 \<or> (\<exists>n. get_u32 (sf_rxbuf sf) 0 = Some n \<and> length (sf_rxbuf sf) < unat (4 + n))"
      "sf' = sf" "os = []"
  | (turn) n sf1 os1 c where "\<not> sf_over sf" "4 \<le> length (sf_rxbuf sf)" "get_u32 (sf_rxbuf sf) 0 = Some n"
      "unat (4 + n) \<le> length (sf_rxbuf sf)"
      "sf_process_frame io sf (sf_rxbuf sf) (4 + unat n) = Some (sf1, os1, c)"
proof (cases "sf_over sf")
  case True
  then have "sf' = sf" "os = []" using assms by (simp_all add: loop_over)
  with True show ?thesis by (rule over)
next
  case False
  show ?thesis
  proof (cases "length (sf_rxbuf sf) < 4 \<or> (\<exists>n. get_u32 (sf_rxbuf sf) 0 = Some n \<and> length (sf_rxbuf sf) < unat (4 + n))")
    case True
    then have "sf' = sf" "os = []" using assms loop_wait [OF False True] by simp_all
    with False True show ?thesis by (rule wait)
  next
    case nowait: False
    then obtain n where n: "get_u32 (sf_rxbuf sf) 0 = Some n" "unat (4 + n) \<le> length (sf_rxbuf sf)"
      using get_in_boundsE(3) [of 0 "sf_rxbuf sf"] by (force simp: not_less)
    have "sf_process_frame io sf (sf_rxbuf sf) (4 + unat n) \<noteq> None"
    proof
      assume "sf_process_frame io sf (sf_rxbuf sf) (4 + unat n) = None"
      then have "sf_rx_loop io sf = None"
        using nowait n False by (subst sf_rx_loop.simps) (simp add: sf_over_def Let_def)
      with assms show False by simp
    qed
    then obtain sf1 os1 c where "sf_process_frame io sf (sf_rxbuf sf) (4 + unat n) = Some (sf1, os1, c)" by auto
    then show ?thesis using False nowait n by (intro turn [of n sf1 os1 c]) simp_all
  qed
qed

lemma loop_induct:
  assumes "\<And>sf. (\<And>n sf1 os1. \<not> sf_over sf \<Longrightarrow> 4 \<le> length (sf_rxbuf sf) \<Longrightarrow> get_u32 (sf_rxbuf sf) 0 = Some n \<Longrightarrow>
      unat (4 + n) \<le> length (sf_rxbuf sf) \<Longrightarrow>
      sf_process_frame io sf (sf_rxbuf sf) (4 + unat n) = Some (sf1, os1, True) \<Longrightarrow>
      P (sf1\<lparr>sf_rxbuf := drop (unat (4 + n)) (sf_rxbuf sf)\<rparr>)) \<Longrightarrow> P sf"
  shows "P sf"
proof -
  have "io' = io \<Longrightarrow> P sf" for io'
  proof (induction io' sf rule: sf_rx_loop.induct)
    case (1 io' sf)
    show ?case
    proof (rule assms)
      fix n sf1 os1
      assume a: "\<not> sf_over sf" "4 \<le> length (sf_rxbuf sf)" "get_u32 (sf_rxbuf sf) 0 = Some n"
        "unat (4 + n) \<le> length (sf_rxbuf sf)" "sf_process_frame io sf (sf_rxbuf sf) (4 + unat n) = Some (sf1, os1, True)"
      have "drop (unat (4 + n)) (sf_rxbuf sf) = drop (unat (of_nat (4 + unat n) :: u32)) (sf_rxbuf sf1)"
        using process_rxbuf [OF a(5)] by simp
      with 1(1) [of n _ "(sf1, os1, True)" sf1 "(os1, True)" os1 True, OF _ _ a(3) _ refl _ refl refl refl] 1(2) a
      show "P (sf1\<lparr>sf_rxbuf := drop (unat (4 + n)) (sf_rxbuf sf)\<rparr>)"
        by (simp add: sf_over_def)
    qed
  qed
  then show ?thesis by simp
qed

lemma loop_append:
  assumes "sf_rx_loop io sf = Some (sf', os)" "sf_recv_dir sf \<noteq> None"
  shows "sf_rx_loop io (sf\<lparr>sf_rxbuf := sf_rxbuf sf @ x\<rparr>) =
     map_option (\<lambda>(sf2, os'). (sf2, os @ os')) (sf_rx_loop io (sf'\<lparr>sf_rxbuf := sf_rxbuf sf' @ x\<rparr>))"
  using assms
proof (induction sf arbitrary: sf' os rule: loop_induct [of io])
  case (1 sf)
  have id: "map_option (\<lambda>(sf2, os'). (sf2, [] @ os')) m = m" for m :: "(stream_file \<times> sf_out list) option"
    by (cases m) auto
  from 1(2) show ?case
  proof (cases rule: loop_cases)
    case (turn n sf1 os1 c)
    let ?b = "sf_rxbuf sf"
    let ?sf2 = "sf1\<lparr>sf_rxbuf := drop (unat (4 + n)) ?b\<rparr>"
    have g: "get_u32 (?b @ x) 0 = Some n" using turn get_u32_append [of 0 ?b x] by simp
    have p: "sf_process_frame io (sf\<lparr>sf_rxbuf := ?b @ x\<rparr>) (?b @ x) (4 + unat n) = Some (sf1\<lparr>sf_rxbuf := ?b @ x\<rparr>, os1, c)"
      using process_ext [OF turn(5), of x] by (simp add: process_buf)
    have o: "sf_recv_dir sf1 \<noteq> None" "\<not> c \<longrightarrow> sf_over sf1" using process_over [OF turn(5) 1(3)] 1(3) by auto
    have t: "sf_rx_loop io (sf\<lparr>sf_rxbuf := ?b @ x\<rparr>) =
       (if c then map_option (\<lambda>(sf3, os'). (sf3, os1 @ os')) (sf_rx_loop io (?sf2\<lparr>sf_rxbuf := sf_rxbuf ?sf2 @ x\<rparr>))
        else Some (?sf2\<lparr>sf_rxbuf := sf_rxbuf ?sf2 @ x\<rparr>, os1))"
      using loop_turn [of "sf\<lparr>sf_rxbuf := ?b @ x\<rparr>" n io] turn g p by (simp add: Let_def)
    show ?thesis
    proof (cases c)
      case True
      then obtain os2 where l: "sf_rx_loop io ?sf2 = Some (sf', os2)" "os = os1 @ os2"
        using 1(2) loop_turn [OF turn] by (auto simp: Let_def)
      have "sf_rx_loop io (?sf2\<lparr>sf_rxbuf := sf_rxbuf ?sf2 @ x\<rparr>) =
         map_option (\<lambda>(sf2, os'). (sf2, os2 @ os')) (sf_rx_loop io (sf'\<lparr>sf_rxbuf := sf_rxbuf sf' @ x\<rparr>))"
        using 1(1) [OF turn(1-4) turn(5) [unfolded eqTrueI [OF True]] l(1)] o by simp
      then show ?thesis using t True l by (auto simp: option.map_comp comp_def case_prod_beta)
    next
      case False
      then have "sf' = ?sf2" "os = os1" using 1(2) loop_turn [OF turn] by (auto simp: Let_def)
      then show ?thesis using t False o by (simp add: loop_over)
    qed
  qed (simp_all add: id option.map_ident)
qed

lemma loop_over_dir:
  assumes "sf_rx_loop io sf = Some (sf', os)" "sf_recv_dir sf \<noteq> None"
  shows "sf_recv_dir sf' = sf_recv_dir sf \<and> sf_closed sf' = sf_closed sf \<and> sf_rx_loop io sf' = Some (sf', [])"
  using assms
proof (induction sf arbitrary: sf' os rule: loop_induct [of io])
  case (1 sf)
  from 1(2) show ?case
  proof (cases rule: loop_cases)
    case (turn n sf1 os1 c)
    have o: "sf_recv_dir sf1 = sf_recv_dir sf" "sf_closed sf1 = sf_closed sf" "\<not> c \<longrightarrow> sf_over sf1"
      using process_over [OF turn(5) 1(3)] by auto
    show ?thesis
    proof (cases c)
      case True
      then obtain os2 where "sf_rx_loop io (sf1\<lparr>sf_rxbuf := drop (unat (4 + n)) (sf_rxbuf sf)\<rparr>) = Some (sf', os2)"
        using 1(2) loop_turn [OF turn] by (auto simp: Let_def)
      from 1(1) [OF turn(1-4) turn(5) [unfolded eqTrueI [OF True]] this] show ?thesis using o 1(3) by simp
    next
      case False
      then show ?thesis using 1(2) loop_turn [OF turn] o by (auto simp: Let_def loop_over)
    qed
  qed (use 1(2) in auto)
qed

text \<open>Nothing the peer sends makes the receiver read outside its buffer.\<close>

lemma stop_okay: "okay (sf_stop sf) (\<lambda>_. True)"
  by (simp add: sf_stop_def okay_def split: prod.splits)

lemma meta_okay: "okay (sf_rx_meta io sf out) (\<lambda>_. True)"
  by (cases "sf_recv_dir sf") (auto simp: sf_rx_meta_def okay_rules stop_okay)

lemma chunk_okay: "okay (sf_rx_chunk io sf out) (\<lambda>_. True)"
  by (auto simp: sf_rx_chunk_def okay_rules stop_okay split: prod.splits)

lemma process_total:
  assumes "aead_ok seal (io_unseal io)" "get_u32 b 0 = Some n" "unat (4 + n) \<le> length b"
  shows "sf_process_frame io sf b (4 + unat n) \<noteq> None"
proof -
  have "vtp_parse_common_frame (io_unseal io) b (4 + unat n) (sf_key sf) SF_VTP_CHUNK \<noteq> None"
  proof (cases "2 ^ 32 \<le> 4 + unat n")
    case True
    then show ?thesis using parse_wrap [OF assms(2)] by simp
  next
    case False
    then have "unat (4 + n) = 4 + unat n" by (simp add: unat_word_ariths)
    then show ?thesis
      using okayD [OF vtp_parse_okay [OF assms(1), of "4 + unat n" b "sf_key sf" SF_VTP_CHUNK]] assms(3) by auto
  qed
  then have "okay (sf_process_frame io sf b (4 + unat n)) (\<lambda>_. True)"
    by (auto simp: sf_process_frame_def okay_rules stop_okay meta_okay chunk_okay split: option.splits)
  then show ?thesis by (auto simp: okay_def split: option.splits)
qed

lemma loop_total:
  assumes "aead_ok seal (io_unseal io)"
  shows "sf_rx_loop io sf \<noteq> None"
proof (induction sf rule: loop_induct [of io])
  case (1 sf)
  show ?case
  proof (cases "sf_over sf \<or> length (sf_rxbuf sf) < 4 \<or> (\<exists>n. get_u32 (sf_rxbuf sf) 0 = Some n \<and> length (sf_rxbuf sf) < unat (4 + n))")
    case True
    then show ?thesis using loop_over [of sf io] loop_wait [of sf io] by (cases "sf_over sf") auto
  next
    case False
    then obtain n where n: "get_u32 (sf_rxbuf sf) 0 = Some n" "unat (4 + n) \<le> length (sf_rxbuf sf)"
      using get_in_boundsE(3) [of 0 "sf_rxbuf sf"] by (force simp: not_less)
    obtain sf1 os1 c where p: "sf_process_frame io sf (sf_rxbuf sf) (4 + unat n) = Some (sf1, os1, c)"
      using process_total [OF assms n, of sf] by auto
    have "sf_rx_loop io (sf1\<lparr>sf_rxbuf := drop (unat (4 + n)) (sf_rxbuf sf)\<rparr>) \<noteq> None" if "c"
      using 1 [of n sf1 os1] False n p that by auto
    then show ?thesis using loop_turn [of sf n io sf1 os1 c] False n p by (auto simp: Let_def)
  qed
qed

text \<open>How the stream is cut into deliveries does not matter.\<close>

lemma feed_concat:
  assumes "sf_rx_loop io sf = Some (sf, [])" "sf_recv_dir sf \<noteq> None" "\<not> sf_closed sf"
    and "aead_ok seal (io_unseal io)"
  shows "sf_feed io sf cs = sf_rx_loop io (sf\<lparr>sf_rxbuf := sf_rxbuf sf @ concat cs\<rparr>)"
  using assms(1-3)
proof (induction cs arbitrary: sf)
  case (Cons c cs)
  obtain sf1 os where l: "sf_rx_loop io (sf\<lparr>sf_rxbuf := sf_rxbuf sf @ c\<rparr>) = Some (sf1, os)"
    using loop_total [OF assms(4)] by (metis option.exhaust prod.exhaust)
  have p: "sf_recv_dir sf1 \<noteq> None" "\<not> sf_closed sf1" "sf_rx_loop io sf1 = Some (sf1, [])"
    using loop_over_dir [OF l] Cons.prems by auto
  have "sf_rx_loop io (sf\<lparr>sf_rxbuf := sf_rxbuf sf @ concat (c # cs)\<rparr>) =
      map_option (\<lambda>(sf2, os'). (sf2, os @ os')) (sf_rx_loop io (sf1\<lparr>sf_rxbuf := sf_rxbuf sf1 @ concat cs\<rparr>))"
    using loop_append [OF l, of "concat cs"] Cons.prems by simp
  moreover have "sf_feed io sf (c # cs) = map_option (\<lambda>(sf2, os'). (sf2, os @ os')) (sf_feed io sf1 cs)"
    using l Cons.prems by (simp add: sf_on_data_def map_option_case split: Option.bind_splits option.splits)
  ultimately show ?case using Cons.IH [OF p(3,1,2)] by simp
qed simp

text \<open>A whole frame at the front of the buffer is handed to the handler with its data.\<close>

lemma build_prefix:
  assumes "vtp_build_common_frame seal (Some n) cap key m st sc ts d = Some w" "aead_ok seal unseal"
    "length n = VTP_NONCE_LEN" "length d \<le> SF_VTP_CHUNK"
  shows "get_u32 (w @ r) 0 = Some (of_nat (44 + length d))" "length w = 48 + length d"
    "unat (of_nat (44 + length d) :: u32) = 44 + length d" "unat (4 + of_nat (44 + length d) :: u32) = 48 + length d"
proof -
  show "length w = 48 + length d"
    using vtp_build_length [OF assms(1,2,3)] by (simp add: vtp_common_frame_size_def vtp_lens)
  show "get_u32 (w @ r) 0 = Some (of_nat (44 + length d))"
    using assms(1) by (elim vtp_build_cases) (simp add: codec vtp_common_frame_size_def vtp_lens)
  have "unat (of_nat (44 + length d) :: u32) = 44 + length d" "unat (of_nat (48 + length d) :: u32) = 48 + length d"
    using assms(4) by (intro unat_of_nat_small, simp add: SF_VTP_CHUNK_def)+
  then show "unat (of_nat (44 + length d) :: u32) = 44 + length d" "unat (4 + of_nat (44 + length d) :: u32) = 48 + length d"
    by simp_all
qed

definition sf_handle :: "sf_io \<Rightarrow> stream_file \<Rightarrow> bytes \<Rightarrow> (stream_file \<times> sf_out list \<times> bool) option" where
  "sf_handle io sf d = (if sf_rx_state sf = SF_RX_WAIT then sf_rx_meta io sf d else sf_rx_chunk io sf d)"

lemma loop_frame:
  assumes w: "vtp_build_common_frame seal (Some n) cap (sf_key sf) m st sc ts d = Some w"
    and ok: "aead_ok seal (io_unseal io)" "length n = VTP_NONCE_LEN" "length d \<le> SF_VTP_CHUNK"
    and s: "\<not> sf_over sf" "sf_handle io (sf\<lparr>sf_rxbuf := w @ r\<rparr>) d = Some (sf1, os, True)"
  shows "sf_rx_loop io (sf\<lparr>sf_rxbuf := w @ r\<rparr>) =
    map_option (\<lambda>(sf3, os'). (sf3, os @ os')) (sf_rx_loop io (sf1\<lparr>sf_rxbuf := r\<rparr>))"
proof -
  note b = build_prefix [OF w ok]
  have "vtp_parse_common_frame (io_unseal io) (w @ r) (length w) (sf_key sf) SF_VTP_CHUNK = Some (Some
    \<lparr>vi_mode = m AND 0xf, vi_stream_type = st, vi_scene = sc, vi_timestamp = ts, vi_data = d\<rparr>)"
    using ok(3) by (intro vtp_parse_build [OF w ok(1,2)]) (simp_all add: vtp_common_frame_size_def vtp_lens SF_VTP_CHUNK_def)
  then have "sf_process_frame io (sf\<lparr>sf_rxbuf := w @ r\<rparr>) (w @ r) (4 + unat (of_nat (44 + length d) :: u32)) = Some (sf1, os, True)"
    using s b by (auto simp: sf_process_frame_def sf_over_def sf_handle_def simp del: of_nat_add split: if_splits)
  then show ?thesis
    using loop_turn [of "sf\<lparr>sf_rxbuf := w @ r\<rparr>" "of_nat (44 + length d)" io sf1 os True] s b
    by (simp add: Let_def del: of_nat_add)
qed

end
