(* ===== verification/StreamTransfer.thy ===== *)
theory StreamTransfer
  imports StreamFile
begin

text \<open>
  What a file session achieves: the pieces a file is cut into, a sender that is asked until it has
  finished, a receiver that is given all the pieces, and what holds of a receiver that is given
  anything at all.
\<close>

section \<open>Lemmas: a transfer\<close>

text \<open>The frames \<open>ws\<close> carry the pieces \<open>ds\<close>.\<close>

definition sf_frames :: "vtp_seal \<Rightarrow> bytes \<Rightarrow> bytes list \<Rightarrow> bytes list \<Rightarrow> bool" where
  "sf_frames seal key ws ds \<longleftrightarrow> list_all2 (\<lambda>w d. length d \<le> SF_VTP_CHUNK \<and>
     (\<exists>n cap m st sc ts. length n = VTP_NONCE_LEN \<and>
        vtp_build_common_frame seal (Some n) cap key m st sc ts d = Some w)) ws ds"

function chop :: "nat \<Rightarrow> bytes \<Rightarrow> bytes list" where
  "chop k xs = (if xs = [] \<or> k = 0 then [] else take k xs # chop k (drop k xs))"
  by pat_completeness auto
termination by (relation "measure (\<lambda>(k, xs). length xs)") auto

declare chop.simps [simp del]

lemma chop_concat: "0 < k \<Longrightarrow> concat (chop k xs) = xs"
  by (induction k xs rule: chop.induct) (subst chop.simps, simp)

lemma chop_pieces: "d \<in> set (chop k xs) \<Longrightarrow> d \<noteq> [] \<and> length d \<le> k"
  by (induction k xs rule: chop.induct) (subst (asm) (2) chop.simps, auto split: if_splits)

lemma chop_length: "0 < k \<Longrightarrow> length (chop k xs) \<le> length xs"
proof (induction k xs rule: chop.induct)
  case (1 k xs)
  show ?case
  proof (cases "xs = []")
    case False
    then have "length (chop k (drop k xs)) \<le> length (drop k xs)" "0 < length xs" using 1 by auto
    then have "Suc (length (chop k (drop k xs))) \<le> length xs" using 1(2) unfolding length_drop by linarith
    then show ?thesis using False 1(2) by (subst chop.simps) simp
  qed (simp add: chop.simps)
qed

lemma pwrite_append: "off = length f \<Longrightarrow> pwrite_at f off d = f @ d"
  by (simp add: pwrite_at_def)

lemma sf_verify_cong:
  "sf_rx_name a = sf_rx_name b \<Longrightarrow> sf_rx_file a = sf_rx_file b \<Longrightarrow> sf_rx_sha a = sf_rx_sha b \<Longrightarrow>
   sf_rx_expected_sha a = sf_rx_expected_sha b \<Longrightarrow> sf_verify io a = sf_verify io b"
  by (simp add: sf_verify_def split: option.splits)

text \<open>The data phase: pieces that fill the file up to its declared size.\<close>

lemma loop_data:
  assumes "aead_ok seal (io_unseal io)" "\<And>off d. io_write io off d"
    and "sf_frames seal (sf_key sf) ws ds" "ds \<noteq> []" "\<forall>d \<in> set ds. d \<noteq> []"
    and "sf_rx_state sf = SF_RX_DATA" "sf_rx_sha sf = Some (sf_rx_file sf)"
    and "unat (sf_rx_received sf) = length (sf_rx_file sf)"
    and "unat (sf_rx_total sf) = length (sf_rx_file sf) + length (concat ds)"
  shows "\<exists>sf'. sf_rx_loop io (sf\<lparr>sf_rxbuf := concat ws\<rparr>) = Some (sf', [SfDone False (sf_verify io
        (sf\<lparr>sf_rx_file := sf_rx_file sf @ concat ds, sf_rx_sha := Some (sf_rx_file sf @ concat ds)\<rparr>))]) \<and>
      sf_rx_state sf' = SF_RX_DONE \<and> sf_rx_file sf' = sf_rx_file sf @ concat ds \<and> sf_rx_path sf' = sf_rx_path sf \<and>
      sf_rx_received sf' = sf_rx_total sf' \<and> sf_rxbuf sf' = []"
  using assms(3-)
proof (induction ds arbitrary: sf ws)
  case (Cons d ds)
  obtain w ws' where ws: "ws = w # ws'" "sf_frames seal (sf_key sf) ws' ds" "length d \<le> SF_VTP_CHUNK"
    using Cons.prems(1) by (auto simp: sf_frames_def list_all2_Cons2)
  obtain n cap m st sc ts where b: "length n = VTP_NONCE_LEN"
    "vtp_build_common_frame seal (Some n) cap (sf_key sf) m st sc ts d = Some w"
    using Cons.prems(1) ws(1) by (auto simp: sf_frames_def)
  let ?f = "sf_rx_file sf @ d"
  let ?sf1 = "sf\<lparr>sf_rx_file := ?f, sf_rx_sha := Some ?f, sf_rx_received := sf_rx_received sf + of_nat (length d)\<rparr>"
  have tot: "unat (sf_rx_total sf) < 2 ^ 64" using unsigned_less [of "sf_rx_total sf"] by simp
  then have rec: "unat (sf_rx_received sf + of_nat (length d)) = length ?f"
    using Cons.prems(6,7) by (simp add: unat_word_ariths unat_of_nat)
  have le: "\<not> sf_rx_total sf < sf_rx_received sf + of_nat (length d)"
    using rec Cons.prems(7) by (simp add: word_less_nat_alt)
  have fin: "sf_rx_received sf + of_nat (length d) = sf_rx_total sf \<longleftrightarrow> ds = []"
    using rec Cons.prems(3,7) by (cases ds) (auto simp: word_unat_eq_iff)
  have pw: "pwrite_at (sf_rx_file sf) (unat (sf_rx_received sf)) d = ?f"
    using Cons.prems(6) by (simp add: pwrite_append)
  have h: "sf_handle io (sf\<lparr>sf_rxbuf := w @ concat ws'\<rparr>) d =
     Some (if ds = [] then ?sf1\<lparr>sf_rxbuf := w @ concat ws', sf_rx_fd := False, sf_rx_sha := None, sf_rx_state := SF_RX_DONE\<rparr>
           else ?sf1\<lparr>sf_rxbuf := w @ concat ws'\<rparr>,
           if ds = [] then [SfDone False (sf_verify io ?sf1)] else [], True)"
    using Cons.prems le fin assms(2) pw
    by (simp add: sf_handle_def sf_rx_chunk_def Let_def sf_rx_finish_def sf_verify_def split: option.splits)
  have lf: "sf_rx_loop io (sf\<lparr>sf_rxbuf := w @ concat ws'\<rparr>) =
    map_option (\<lambda>(sf3, os'). (sf3, (if ds = [] then [SfDone False (sf_verify io ?sf1)] else []) @ os'))
      (sf_rx_loop io ((if ds = [] then ?sf1\<lparr>sf_rxbuf := w @ concat ws', sf_rx_fd := False, sf_rx_sha := None, sf_rx_state := SF_RX_DONE\<rparr>
           else ?sf1\<lparr>sf_rxbuf := w @ concat ws'\<rparr>)\<lparr>sf_rxbuf := concat ws'\<rparr>))"
    by (rule loop_frame [OF b(2) assms(1) b(1) ws(3) _ h]) (use Cons.prems in \<open>simp add: sf_over_def\<close>)
  show ?case
  proof (cases "ds = []")
    case True
    have v: "sf_verify io ?sf1 = sf_verify io (sf\<lparr>sf_rx_file := ?f, sf_rx_sha := Some ?f\<rparr>)"
      by (rule sf_verify_cong) simp_all
    show ?thesis using lf ws fin True by (simp add: loop_over sf_over_def sf_frames_def v)
  next
    case False
    have "\<exists>sf'. sf_rx_loop io (?sf1\<lparr>sf_rxbuf := concat ws'\<rparr>) = Some (sf', [SfDone False (sf_verify io
        (?sf1\<lparr>sf_rx_file := sf_rx_file ?sf1 @ concat ds, sf_rx_sha := Some (sf_rx_file ?sf1 @ concat ds)\<rparr>))]) \<and>
      sf_rx_state sf' = SF_RX_DONE \<and> sf_rx_file sf' = sf_rx_file ?sf1 @ concat ds \<and> sf_rx_path sf' = sf_rx_path ?sf1 \<and>
      sf_rx_received sf' = sf_rx_total sf' \<and> sf_rxbuf sf' = []"
      using Cons.prems ws(2) False rec by (intro Cons.IH) auto
    moreover have "sf_verify io (?sf1\<lparr>sf_rx_file := sf_rx_file ?sf1 @ concat ds, sf_rx_sha := Some (sf_rx_file ?sf1 @ concat ds)\<rparr>)
        = sf_verify io (sf\<lparr>sf_rx_file := sf_rx_file sf @ concat (d # ds), sf_rx_sha := Some (sf_rx_file sf @ concat (d # ds))\<rparr>)"
      by (rule sf_verify_cong) simp_all
    ultimately show ?thesis using lf False ws(1) by auto
  qed
qed simp

text \<open>The sender: the fill function hands out the pieces of the file, then says that it has finished.\<close>

definition sf_works :: "vtp_seal \<Rightarrow> bool" where
  "sf_works seal \<longleftrightarrow> (\<forall>k n p. length n = VTP_NONCE_LEN \<longrightarrow> seal k n p \<noteq> None)"

definition sf_pread :: "bytes \<Rightarrow> u64 \<Rightarrow> nat \<Rightarrow> bytes option" where
  "sf_pread f off n = Some (take n (drop (unat off) f))"

lemma send_frame_works:
  assumes "sf_works seal" "aead_ok seal unseal" "length n = VTP_NONCE_LEN" "length d \<le> SF_VTP_CHUNK"
  obtains w where "sf_send_frame seal (Some n) now sf d = ([SfSend w], int (length w))" "w \<noteq> []"
    "sf_frames seal (sf_key sf) [w] [d]"
proof -
  obtain w where w: "vtp_build_common_frame seal (Some n) (vtp_common_frame_size (length d)) (sf_key sf) 1 0 0 now d = Some w"
  proof -
    have "seal (sf_key sf) n (vtp_header 1 0 0 now (length d) @ d) \<noteq> None"
      using assms(1,3) unfolding sf_works_def by blast
    then show ?thesis using that by (auto simp: vtp_build_common_frame_def Let_def)
  qed
  have "length w = 48 + length d" using build_prefix(2) [OF w assms(2,3,4)] .
  moreover have "sf_frames seal (sf_key sf) [w] [d]" unfolding sf_frames_def using w assms(3,4) by simp blast
  ultimately show thesis using w by (intro that [of w]) (auto simp: sf_send_frame_def)
qed

lemma fills_data:
  assumes "sf_works seal" "aead_ok seal unseal" "length f < 2 ^ 63"
    and "sf_tx_state sf = SF_TX_ACTIVE" "sf_tx_meta_sent sf" "sf_tx_fd sf" "unat (sf_tx_offset sf) \<le> length f"
    and "\<forall>(nc, t) \<in> set nts. \<exists>n. nc = Some n \<and> length n = VTP_NONCE_LEN"
    and "length (chop SF_VTP_CHUNK (drop (unat (sf_tx_offset sf)) f)) < length nts"
  shows "\<exists>sf' ws. sf_fills seal (sf_pread f) sf nts = (sf', map SfSend ws, True) \<and>
     sf_frames seal (sf_key sf) ws (chop SF_VTP_CHUNK (drop (unat (sf_tx_offset sf)) f)) \<and>
     sf_tx_state sf' = SF_TX_ACTIVE \<and> sf_closed sf' = sf_closed sf"
  using assms(4-)
proof (induction nts arbitrary: sf)
  case (Cons nt nts)
  obtain n t where nt: "nt = (Some n, t)" "length n = VTP_NONCE_LEN" using Cons.prems(5) by (cases nt) auto
  let ?off = "unat (sf_tx_offset sf)"
  let ?d = "take SF_VTP_CHUNK (drop ?off f)"
  have pos: "0 < SF_VTP_CHUNK" by (simp add: SF_VTP_CHUNK_def)
  show ?case
  proof (cases "drop ?off f = []")
    case True
    then have "sf_fill seal (sf_pread f) (Some n) t sf = (sf, [], -1)"
      using Cons.prems by (simp add: sf_fill_def sf_pread_def)
    then show ?thesis using True Cons.prems nt by (auto simp: sf_frames_def chop.simps intro!: exI [where x = "[]"])
  next
    case False
    then have d: "?d \<noteq> []" "length ?d \<le> SF_VTP_CHUNK" using pos by auto
    obtain w where w: "sf_send_frame seal (Some n) t sf ?d = ([SfSend w], int (length w))" "w \<noteq> []"
      "sf_frames seal (sf_key sf) [w] [?d]"
      using send_frame_works [OF assms(1,2) nt(2) d(2)] .
    let ?sf1 = "sf\<lparr>sf_tx_offset := sf_tx_offset sf + of_nat (length ?d)\<rparr>"
    have fill: "sf_fill seal (sf_pread f) (Some n) t sf = (?sf1, [SfSend w], int (length w))"
      using Cons.prems d w by (simp add: sf_fill_def sf_pread_def)
    have off: "unat (sf_tx_offset sf + of_nat (length ?d)) = ?off + length ?d"
      using Cons.prems(4) assms(3) by (simp add: unat_word_ariths unat_of_nat)
    have ch: "chop SF_VTP_CHUNK (drop ?off f) = ?d # chop SF_VTP_CHUNK (drop (?off + length ?d) f)"
      using False pos by (subst chop.simps) (auto simp: add.commute min_def intro!: arg_cong [of _ _ "chop SF_VTP_CHUNK"])
    have "\<exists>sf' ws. sf_fills seal (sf_pread f) ?sf1 nts = (sf', map SfSend ws, True) \<and>
       sf_frames seal (sf_key ?sf1) ws (chop SF_VTP_CHUNK (drop (unat (sf_tx_offset ?sf1)) f)) \<and>
       sf_tx_state sf' = SF_TX_ACTIVE \<and> sf_closed sf' = sf_closed ?sf1"
      using Cons.prems off ch by (intro Cons.IH) (auto simp: min_def)
    then obtain sf' ws where "sf_fills seal (sf_pread f) ?sf1 nts = (sf', map SfSend ws, True)"
       "sf_frames seal (sf_key sf) ws (chop SF_VTP_CHUNK (drop (?off + length ?d) f))"
       "sf_tx_state sf' = SF_TX_ACTIVE" "sf_closed sf' = sf_closed sf"
      using off by auto
    then show ?thesis using fill w ch nt
      by (intro exI [where x = sf'] exI [where x = "w # ws"]) (auto simp: sf_frames_def)
  qed
qed simp

text \<open>What the receiver reports on a complete file, from its content and name.\<close>

definition sf_verdict_on :: "sf_io \<Rightarrow> cstr \<Rightarrow> bytes \<Rightarrow> bool" where
  "sf_verdict_on io name f =
     (if str_suffix name (bytes_of ''.h264'')
      then h264_testfile_verify (io_sha io) (if io_readable io then Some f else None) (Some name)
      else case ft_testfile_name_sha (Some name) of Some e \<Rightarrow> io_sha io f = e | None \<Rightarrow> True)"

lemma h264_name_suffix: "h264_testfile_name_sha (Some name) = Some h \<Longrightarrow> str_suffix name (bytes_of ''.h264'')"
  by (auto simp: h264_testfile_name_sha_def name_sha_iff str_suffix_def)

text \<open>The first frame: the metadata of a file with an acceptable name.\<close>

definition sf_good_name :: "cstr \<Rightarrow> bool" where
  "sf_good_name name \<longleftrightarrow> name \<noteq> [] \<and> length name \<le> SF_VTP_CHUNK - 10 \<and> 0 \<notin> set name \<and>
     of_char (CHR ''/'') \<notin> set name \<and> \<not> has_dotdot name \<and> hd name \<noteq> of_char (CHR ''.'')"

definition sf_meta :: "u64 \<Rightarrow> cstr \<Rightarrow> bytes" where
  "sf_meta tot name = put_u64 tot @ put_u16 (of_nat (length name)) @ name"

lemma good_name_len: "sf_good_name name \<Longrightarrow> unat (of_nat (length name) :: u16) = length name"
  by (intro unat_of_nat_small) (simp add: sf_good_name_def SF_VTP_CHUNK_def)

lemma rx_meta_good:
  assumes "sf_good_name name" "sf_recv_dir sf = Some dir" "io_open io (dir, name)"
  shows "sf_rx_meta io sf (sf_meta tot name) =
    Some (sf\<lparr>sf_rx_name := Some name, sf_rx_path := Some (dir, name), sf_rx_fd := True,
            sf_rx_file := [], sf_rx_sha := Some [], sf_rx_total := tot, sf_rx_received := 0,
            sf_rx_expected_sha := (case h264_testfile_name_sha (Some name) of
                                     Some h \<Rightarrow> Some h | None \<Rightarrow> ft_testfile_name_sha (Some name)),
            sf_rx_state := SF_RX_DATA\<rparr>, [SfMeta name tot], True)"
proof -
  have c: "c_string name = name" using assms(1)
    by (auto simp: c_string_def sf_good_name_def takeWhile_eq_all_conv)
  have nz: "of_nat (length name) \<noteq> (0 :: u16)"
  proof
    assume "of_nat (length name) = (0 :: u16)"
    then have "unat (of_nat (length name) :: u16) = 0" by (simp only: unat_0)
    then show False using good_name_len [OF assms(1)] assms(1) by (simp add: sf_good_name_def)
  qed
  have ok: "\<not> sf_bad_name (of_nat (length name)) name"
    using assms(1) nz by (simp add: sf_bad_name_def sf_good_name_def)
  have r: "get_u64 (sf_meta tot name) 0 = Some tot" "get_u16 (sf_meta tot name) 8 = Some (of_nat (length name))"
    "get_bytes (sf_meta tot name) 10 (length name) = Some name" "length (sf_meta tot name) = 10 + length name"
    by (simp_all add: sf_meta_def codec)
  show ?thesis
    by (simp add: sf_rx_meta_def assms(2,3) r good_name_len [OF assms(1)] c ok Let_def cong: option.case_cong)
qed

text \<open>A receiver that is given the metadata and all the pieces.\<close>

lemma loop_transfer:
  assumes "aead_ok seal (io_unseal io)" "\<And>p. io_open io p" "\<And>off d. io_write io off d"
    and "sf_good_name name" "sf_recv_dir sf = Some dir" "sf_rx_state sf = SF_RX_WAIT"
    and "sf_frames seal (sf_key sf) (w # ws) (sf_meta tot name # ds)"
    and "unat tot = length (concat ds)" "ds \<noteq> []" "\<forall>d \<in> set ds. d \<noteq> []"
  shows "\<exists>sf'. sf_rx_loop io (sf\<lparr>sf_rxbuf := concat (w # ws)\<rparr>) =
      Some (sf', [SfMeta name tot, SfDone False (sf_verdict_on io name (concat ds))]) \<and>
     sf_rx_state sf' = SF_RX_DONE \<and> sf_rx_file sf' = concat ds \<and> sf_rx_path sf' = Some (dir, name)"
proof -
  obtain n cap m st sc ts where b: "length n = VTP_NONCE_LEN" "length (sf_meta tot name) \<le> SF_VTP_CHUNK"
    "vtp_build_common_frame seal (Some n) cap (sf_key sf) m st sc ts (sf_meta tot name) = Some w"
    and ws: "sf_frames seal (sf_key sf) ws ds"
    using assms(7) by (auto simp: sf_frames_def)
  let ?e = "case h264_testfile_name_sha (Some name) of Some h \<Rightarrow> Some h | None \<Rightarrow> ft_testfile_name_sha (Some name)"
  let ?sf1 = "sf\<lparr>sf_rx_name := Some name, sf_rx_path := Some (dir, name), sf_rx_fd := True,
            sf_rx_file := [], sf_rx_sha := Some [], sf_rx_total := tot, sf_rx_received := 0,
            sf_rx_expected_sha := ?e, sf_rx_state := SF_RX_DATA\<rparr>"
  have h: "sf_handle io (sf\<lparr>sf_rxbuf := w @ concat ws\<rparr>) (sf_meta tot name) =
     Some (?sf1\<lparr>sf_rxbuf := w @ concat ws\<rparr>, [SfMeta name tot], True)"
    using rx_meta_good [OF assms(4), of "sf\<lparr>sf_rxbuf := w @ concat ws\<rparr>" dir io tot] assms(2,5,6)
    by (simp add: sf_handle_def)
  have l: "sf_rx_loop io (sf\<lparr>sf_rxbuf := w @ concat ws\<rparr>) =
     map_option (\<lambda>(sf3, os'). (sf3, [SfMeta name tot] @ os')) (sf_rx_loop io (?sf1\<lparr>sf_rxbuf := w @ concat ws, sf_rxbuf := concat ws\<rparr>))"
    by (rule loop_frame [OF b(3) assms(1) b(1,2) _ h]) (use assms(6) in \<open>simp add: sf_over_def\<close>)
  obtain sf' where sf': "sf_rx_loop io (?sf1\<lparr>sf_rxbuf := concat ws\<rparr>) = Some (sf', [SfDone False (sf_verify io
        (?sf1\<lparr>sf_rx_file := concat ds, sf_rx_sha := Some (concat ds)\<rparr>))])"
     "sf_rx_state sf' = SF_RX_DONE" "sf_rx_file sf' = concat ds" "sf_rx_path sf' = Some (dir, name)"
    using loop_data [OF assms(1,3), where ws = ws and ds = ds and sf = ?sf1] ws assms(8-10) by auto
  have "sf_verify io (?sf1\<lparr>sf_rx_file := concat ds, sf_rx_sha := Some (concat ds)\<rparr>) = sf_verdict_on io name (concat ds)"
    using h264_name_suffix [of name] by (auto simp: sf_verify_def sf_verdict_on_def split: option.splits)
  then show ?thesis using l sf' by (intro exI [where x = sf']) simp
qed

lemma fills_all:
  assumes "sf_works seal" "aead_ok seal unseal" "sf_good_name name" "length f < 2 ^ 63"
    and "\<forall>(nc, t) \<in> set nts. \<exists>n. nc = Some n \<and> length n = VTP_NONCE_LEN" "length f + 1 < length nts"
    and "stream_file_start_send (Some (of_nat (length f))) True name (stream_file_new key) = (sd, os, True)"
  shows "\<exists>sd' ws. sf_fills seal (sf_pread f) sd nts = (sd', map SfSend ws, True) \<and>
     sf_frames seal (take VTP_KEY_LEN key) ws (sf_meta (of_nat (length f)) name # chop SF_VTP_CHUNK f) \<and>
     sf_on_tx_complete sd' = (sd'\<lparr>sf_tx_state := SF_TX_DONE\<rparr>, [SfDone True True])"
proof -
  have sd: "sf_tx_state sd = SF_TX_ACTIVE" "\<not> sf_tx_meta_sent sd" "sf_tx_fd sd" "sf_tx_offset sd = 0"
    "sf_tx_wire sd = name" "sf_tx_total sd = of_nat (length f)" "sf_key sd = take VTP_KEY_LEN key" "\<not> sf_closed sd"
    using assms(7) by (auto simp: stream_file_start_send_def stream_file_new_def Let_def)
  obtain n t rest where nts: "nts = (Some n, t) # rest" "length n = VTP_NONCE_LEN" "length f < length rest"
    using assms(5,6) by (cases nts) auto
  have ml: "length (sf_meta (of_nat (length f)) name) \<le> SF_VTP_CHUNK"
    using assms(3) by (simp add: sf_meta_def sf_good_name_def SF_VTP_CHUNK_def)
  obtain w where w: "sf_send_frame seal (Some n) t sd (sf_meta (of_nat (length f)) name) = ([SfSend w], int (length w))"
    "w \<noteq> []" "sf_frames seal (sf_key sd) [w] [sf_meta (of_nat (length f)) name]"
    using send_frame_works [OF assms(1,2) nts(2) ml] .
  let ?sd1 = "sd\<lparr>sf_tx_meta_sent := True\<rparr>"
  have f1: "sf_fill seal (sf_pread f) (Some n) t sd = (?sd1, [SfSend w], int (length w))"
    using w sd by (simp add: sf_fill_def sf_meta_def Let_def)
  have cl: "length (chop SF_VTP_CHUNK f) < length rest"
    using chop_length [of SF_VTP_CHUNK f] nts(3) by (simp add: SF_VTP_CHUNK_def)
  obtain sd' ws where r: "sf_fills seal (sf_pread f) ?sd1 rest = (sd', map SfSend ws, True)"
    "sf_frames seal (sf_key sd) ws (chop SF_VTP_CHUNK f)" "sf_tx_state sd' = SF_TX_ACTIVE" "\<not> sf_closed sd'"
    using fills_data [OF assms(1,2,4), of ?sd1 rest] sd assms(5) nts cl by auto
  have "sf_frames seal (take VTP_KEY_LEN key) (w # ws) (sf_meta (of_nat (length f)) name # chop SF_VTP_CHUNK f)"
    using w(3) r(2) sd(7) by (simp add: sf_frames_def)
  then show ?thesis using f1 r nts w(2)
    by (intro exI [where x = sd'] exI [where x = "w # ws"]) (simp add: sf_on_tx_complete_def)
qed

lemma new_receiver:
  assumes "aead_ok seal (io_unseal io)"
  shows "sf_feed io (stream_file_set_recv_dir (stream_file_new key) (Some dir)) cs =
     sf_rx_loop io ((stream_file_set_recv_dir (stream_file_new key) (Some dir))\<lparr>sf_rxbuf := concat cs\<rparr>)"
proof -
  let ?r = "stream_file_set_recv_dir (stream_file_new key) (Some dir)"
  have r: "\<not> sf_over ?r" "sf_rxbuf ?r = []" "sf_recv_dir ?r \<noteq> None" "\<not> sf_closed ?r"
    by (simp_all add: stream_file_set_recv_dir_def stream_file_new_def sf_over_def)
  then show ?thesis using feed_concat [OF loop_wait [OF r(1)] r(3,4) assms, of cs] by simp
qed

text \<open>What holds of a receiver whatever it was sent.\<close>

definition sf_safe_name :: "cstr \<Rightarrow> bool" where
  "sf_safe_name n \<longleftrightarrow> of_char (CHR ''/'') \<notin> set n \<and> \<not> has_dotdot n \<and>
     (n \<noteq> [] \<longrightarrow> hd n \<noteq> of_char (CHR ''.'')) \<and> 0 \<notin> set n"

definition sf_rx_inv :: "stream_file \<Rightarrow> bool" where
  "sf_rx_inv sf \<longleftrightarrow>
     (case sf_rx_path sf of
        None \<Rightarrow> sf_rx_state sf \<noteq> SF_RX_DATA \<and> sf_rx_state sf \<noteq> SF_RX_DONE
      | Some (dir, n) \<Rightarrow> sf_recv_dir sf = Some dir \<and> sf_safe_name n \<and>
          (sf_rx_state sf = SF_RX_DATA \<longrightarrow> sf_rx_name sf = Some n \<and>
            sf_rx_expected_sha sf = (case h264_testfile_name_sha (Some n) of
                                       Some h \<Rightarrow> Some h | None \<Rightarrow> ft_testfile_name_sha (Some n)))) \<and>
     (sf_rx_state sf = SF_RX_DATA \<longrightarrow> sf_rx_received sf \<le> sf_rx_total sf \<and>
        (unat (sf_rx_total sf) < 2 ^ 63 \<longrightarrow>
           sf_rx_sha sf = Some (sf_rx_file sf) \<and> unat (sf_rx_received sf) = length (sf_rx_file sf))) \<and>
     (sf_rx_state sf = SF_RX_DONE \<longrightarrow> (unat (sf_rx_total sf) < 2 ^ 63 \<longrightarrow>
        length (sf_rx_file sf) = unat (sf_rx_total sf)))"

lemma rx_inv_buf [simp]: "sf_rx_inv (sf\<lparr>sf_rxbuf := x\<rparr>) = sf_rx_inv sf"
  by (cases "sf_rx_path sf") (simp_all add: sf_rx_inv_def)

definition sf_reports :: "sf_out list \<Rightarrow> bool list" where
  "sf_reports os = concat (map (\<lambda>o'. case o' of SfDone False ok \<Rightarrow> [ok] | _ \<Rightarrow> []) os)"

text \<open>What a step may report: nothing while the reception goes on, one verdict when it is over.\<close>

definition sf_step_ok :: "sf_io \<Rightarrow> stream_file \<Rightarrow> stream_file \<Rightarrow> sf_out list \<Rightarrow> bool" where
  "sf_step_ok io sf sf' os \<longleftrightarrow> sf_rx_inv sf' \<and> sf_recv_dir sf' = sf_recv_dir sf \<and>
     (sf_over sf \<longrightarrow> os = [] \<and> sf' = sf) \<and>
     (\<not> sf_over sf \<longrightarrow> \<not> sf_over sf' \<longrightarrow> sf_reports os = []) \<and>
     (\<not> sf_over sf \<longrightarrow> sf_over sf' \<longrightarrow> (\<exists>ok. sf_reports os = [ok] \<and>
        (ok \<longrightarrow> sf_rx_state sf' = SF_RX_DONE \<and> (unat (sf_rx_total sf') < 2 ^ 63 \<longrightarrow>
           (\<exists>dir n. sf_rx_path sf' = Some (dir, n) \<and> sf_verdict_on io n (sf_rx_file sf'))))))"

lemma stop_step:
  assumes "sf_stop sf = Some (sf', os, c)" "\<not> sf_over sf" "sf_recv_dir sf \<noteq> None" "sf_rx_inv sf"
  shows "sf_step_ok io sf sf' os"
proof -
  have e: "sf' = sf\<lparr>sf_rx_state := SF_RX_FAILED, sf_tx_state := sf_tx_state sf'\<rparr>"
    "os = SfDone False False # (if sf_tx_state sf = SF_TX_ACTIVE then [SfDone True False] else [])"
    using assms(1-3) by (cases "sf_rx_state sf"; auto simp: sf_stop_def sf_fail_def sf_over_def Let_def split: if_splits)+
  have i: "sf_rx_inv sf'" using assms(4)
    by (subst e(1)) (cases "sf_rx_path sf", auto simp: sf_rx_inv_def)
  have d: "sf_recv_dir sf' = sf_recv_dir sf" "sf_over sf'"
    by (subst e(1), simp add: sf_over_def)+
  have "sf_reports os = [False]" by (simp add: e(2) sf_reports_def)
  then show ?thesis using i d assms(2) by (simp add: sf_step_ok_def) blast
qed

lemma meta_step:
  assumes "sf_rx_meta io sf out = Some (sf', os, c)" "sf_rx_state sf = SF_RX_WAIT" "sf_recv_dir sf \<noteq> None" "sf_rx_inv sf"
  shows "sf_step_ok io sf sf' os"
proof -
  obtain dir where dir: "sf_recv_dir sf = Some dir" using assms(3) by auto
  have no: "\<not> sf_over sf" using assms(2) by (simp add: sf_over_def)
  have st: "sf_stop sf = Some (sf', os, c) \<Longrightarrow> ?thesis" using stop_step no assms by blast
  have st2: "sf_stop (sf\<lparr>sf_rx_name := nm, sf_rx_path := None\<rparr>) = Some (sf', os, c) \<Longrightarrow> ?thesis" for nm
    using stop_step [of "sf\<lparr>sf_rx_name := nm, sf_rx_path := None\<rparr>" sf' os c io] assms no
    by (auto simp: sf_step_ok_def sf_over_def sf_rx_inv_def)
  have g: "sf_step_ok io sf (sf\<lparr>sf_rx_name := Some (c_string nm), sf_rx_path := Some (dir, c_string nm), sf_rx_fd := True,
            sf_rx_file := [], sf_rx_sha := Some [], sf_rx_total := tot, sf_rx_received := 0,
            sf_rx_expected_sha := (case h264_testfile_name_sha (Some (c_string nm)) of
                                     Some h \<Rightarrow> Some h | None \<Rightarrow> ft_testfile_name_sha (Some (c_string nm))),
            sf_rx_state := SF_RX_DATA\<rparr>) [SfMeta (c_string nm) tot]"
    if "\<not> sf_bad_name l (c_string nm)" for nm tot l
    using that dir no c_string_nul
    by (auto simp: sf_step_ok_def sf_rx_inv_def sf_reports_def sf_bad_name_def sf_safe_name_def sf_over_def)
  consider (a) "sf_stop sf = Some (sf', os, c)"
    | (b) nm where "sf_stop (sf\<lparr>sf_rx_name := nm, sf_rx_path := None\<rparr>) = Some (sf', os, c)"
    | (c) nm tot l where "\<not> sf_bad_name l (c_string nm)" "os = [SfMeta (c_string nm) tot]"
      "sf' = sf\<lparr>sf_rx_name := Some (c_string nm), sf_rx_path := Some (dir, c_string nm), sf_rx_fd := True,
            sf_rx_file := [], sf_rx_sha := Some [], sf_rx_total := tot, sf_rx_received := 0,
            sf_rx_expected_sha := (case h264_testfile_name_sha (Some (c_string nm)) of
                                     Some h \<Rightarrow> Some h | None \<Rightarrow> ft_testfile_name_sha (Some (c_string nm))),
            sf_rx_state := SF_RX_DATA\<rparr>"
    using assms(1) dir by (auto simp: sf_rx_meta_def bind_eq_Some_conv Let_def split: if_splits)
  then show ?thesis using st st2 g by cases blast+
qed

lemma chunk_step:
  assumes "sf_rx_chunk io sf out = Some (sf', os, c)" "sf_rx_state sf = SF_RX_DATA" "sf_recv_dir sf \<noteq> None" "sf_rx_inv sf"
    and "length out \<le> SF_VTP_CHUNK"
  shows "sf_step_ok io sf sf' os"
proof -
  have no: "\<not> sf_over sf" using assms(2) by (simp add: sf_over_def)
  have st: "sf_stop sf = Some (sf', os, c) \<Longrightarrow> ?thesis" using stop_step no assms by blast
  obtain dir n where p: "sf_rx_path sf = Some (dir, n)" "sf_recv_dir sf = Some dir" "sf_safe_name n" "sf_rx_name sf = Some n"
    "sf_rx_expected_sha sf = (case h264_testfile_name_sha (Some n) of Some h \<Rightarrow> Some h | None \<Rightarrow> ft_testfile_name_sha (Some n))"
    using assms(2,4) by (auto simp: sf_rx_inv_def split: option.splits)
  let ?rec = "sf_rx_received sf + of_nat (length out)"
  define sf1 where "sf1 = (if out \<noteq> [] then sf\<lparr>sf_rx_file := pwrite_at (sf_rx_file sf) (unat (sf_rx_received sf)) out,
                sf_rx_sha := map_option (\<lambda>d. d @ out) (sf_rx_sha sf), sf_rx_received := ?rec\<rparr> else sf)"
  consider (stop) "sf_stop sf = Some (sf', os, c)"
    | (go) "?rec \<le> sf_rx_total sf" "sf_rx_finish io sf1 = (sf', os)"
    using assms(1,4) assms(2) by (cases "out = []") (auto simp: sf_rx_chunk_def sf1_def Let_def sf_rx_inv_def not_less split: if_splits prod.splits)
  then show ?thesis
  proof cases
    case go
    have tot: "unat (sf_rx_total sf) < 2 ^ 63 \<Longrightarrow> unat ?rec = unat (sf_rx_received sf) + length out"
    proof -
      assume t: "unat (sf_rx_total sf) < 2 ^ 63"
      have "unat (sf_rx_received sf) \<le> unat (sf_rx_total sf)"
        using assms(2,4) by (simp add: sf_rx_inv_def word_le_nat_alt)
      then show ?thesis using t assms(5) by (simp add: unat_word_ariths unat_of_nat SF_VTP_CHUNK_def)
    qed
    have i1: "sf_rx_inv sf1"
      using assms(2,4) p go(1) tot
      by (auto simp: sf1_def sf_rx_inv_def pwrite_append)
    have s1: "sf_rx_state sf1 = SF_RX_DATA" "sf_rx_total sf1 = sf_rx_total sf" "sf_rx_path sf1 = Some (dir, n)"
      "sf_rx_name sf1 = Some n" "sf_recv_dir sf1 = Some dir" "sf_rx_expected_sha sf1 = sf_rx_expected_sha sf"
      using assms(2) p by (auto simp: sf1_def)
    have v: "unat (sf_rx_total sf) < 2 ^ 63 \<Longrightarrow> sf_verify io sf1 = sf_verdict_on io n (sf_rx_file sf1)"
      using i1 s1 p(5) h264_name_suffix [of n]
      by (auto simp: sf_verify_def sf_verdict_on_def sf_rx_inv_def split: option.splits)
    show ?thesis
    proof (cases "sf_rx_received sf1 = sf_rx_total sf1")
      case True
      have e: "sf' = sf1\<lparr>sf_rx_fd := False, sf_rx_sha := None, sf_rx_state := SF_RX_DONE\<rparr>" "os = [SfDone False (sf_verify io sf1)]"
        using go(2) True unfolding sf_rx_finish_def by (metis (no_types, lifting) prod.inject)+
      have "sf_rx_inv sf'" using i1 s1 True unfolding e(1) by (simp add: sf_rx_inv_def)
      moreover have "sf_recv_dir sf' = sf_recv_dir sf" "sf_over sf'" "sf_rx_state sf' = SF_RX_DONE"
        "sf_rx_total sf' = sf_rx_total sf" "sf_rx_path sf' = Some (dir, n)" "sf_rx_file sf' = sf_rx_file sf1"
        using s1 p unfolding e(1) by (simp_all add: sf_over_def)
      moreover have "sf_reports os = [sf_verify io sf1]" by (simp add: e(2) sf_reports_def)
      ultimately show ?thesis using no v by (auto simp: sf_step_ok_def)
    next
      case False
      then have e: "sf' = sf1" "os = []" using go(2) unfolding sf_rx_finish_def by (metis (no_types, lifting) prod.inject)+
      have "\<not> sf_over sf'" "sf_recv_dir sf' = sf_recv_dir sf" using s1 p unfolding e(1) by (simp_all add: sf_over_def)
      then show ?thesis using i1 e no by (simp add: sf_step_ok_def sf_reports_def)
    qed
  qed (rule st)
qed

lemma process_step:
  assumes "sf_process_frame io sf f n = Some (sf', os, c)" "\<not> sf_over sf" "sf_recv_dir sf \<noteq> None" "sf_rx_inv sf"
    and "aead_ok seal (io_unseal io)" "get_u32 f 0 = Some m" "n = 4 + unat m" "unat (4 + m) \<le> length f"
  shows "sf_step_ok io sf sf' os"
proof -
  obtain r where r: "vtp_parse_common_frame (io_unseal io) f n (sf_key sf) SF_VTP_CHUNK = Some r"
    using assms(1,2) by (auto simp: sf_process_frame_def sf_over_def bind_eq_Some_conv)
  show ?thesis
  proof (cases r)
    case None
    then show ?thesis using assms r stop_step by (auto simp: sf_process_frame_def sf_over_def)
  next
    case (Some v)
    have "\<not> 2 ^ 32 \<le> 4 + unat m" using parse_wrap [OF assms(6)] r Some assms(7) by auto
    then have "n \<le> length f" using assms(7,8) by (simp add: unat_word_ariths)
    then have "length (vi_data v) \<le> SF_VTP_CHUNK"
      using okayE [OF vtp_parse_okay [OF assms(5)] r] Some by auto
    then show ?thesis using assms(1-4) r Some meta_step chunk_step
      by (cases "sf_rx_state sf") (auto simp: sf_process_frame_def sf_over_def)
  qed
qed

lemma step_ok_trans:
  assumes "sf_step_ok io a b os" "sf_step_ok io (b\<lparr>sf_rxbuf := x\<rparr>) c os'" "\<not> sf_over a"
  shows "sf_step_ok io a c (os @ os')"
proof (cases "sf_over b")
  case True
  then have "os' = []" "c = b\<lparr>sf_rxbuf := x\<rparr>" using assms(2) by (simp_all add: sf_step_ok_def)
  then show ?thesis using assms True by (auto simp: sf_step_ok_def)
next
  case False
  then show ?thesis using assms by (auto simp: sf_step_ok_def sf_reports_def)
qed

lemma loop_step:
  assumes "sf_rx_loop io sf = Some (sf', os)" "sf_recv_dir sf \<noteq> None" "sf_rx_inv sf" "aead_ok seal (io_unseal io)"
  shows "sf_step_ok io sf sf' os"
  using assms(1-3)
proof (induction sf arbitrary: sf' os rule: loop_induct [of io])
  case (1 sf)
  have same: "sf_step_ok io sf sf []" using 1(4) by (auto simp: sf_step_ok_def sf_reports_def)
  from 1(2) show ?case
  proof (cases rule: loop_cases)
    case (turn n sf1 os1 c)
    have p: "sf_step_ok io sf sf1 os1"
      by (rule process_step [OF turn(5,1) 1(3,4) assms(4) turn(3) refl turn(4)])
    have inv: "sf_rx_inv (sf1\<lparr>sf_rxbuf := x\<rparr>)" "sf_recv_dir sf1 \<noteq> None" for x
      using p 1(3) by (simp_all add: sf_step_ok_def)
    show ?thesis
    proof (cases c)
      case True
      then obtain os2 where l: "sf_rx_loop io (sf1\<lparr>sf_rxbuf := drop (unat (4 + n)) (sf_rxbuf sf)\<rparr>) = Some (sf', os2)" "os = os1 @ os2"
        using 1(2) loop_turn [OF turn] by (auto simp: Let_def)
      have "sf_step_ok io (sf1\<lparr>sf_rxbuf := drop (unat (4 + n)) (sf_rxbuf sf)\<rparr>) sf' os2"
        using 1(1) [OF turn(1-4) turn(5) [unfolded eqTrueI [OF True]] l(1)] inv by simp
      then show ?thesis using step_ok_trans [OF p _ turn(1)] l(2) by blast
    next
      case False
      then have e: "sf' = sf1\<lparr>sf_rxbuf := drop (unat (4 + n)) (sf_rxbuf sf)\<rparr>" "os = os1"
        using 1(2) loop_turn [OF turn] by (auto simp: Let_def)
      show ?thesis using p turn(1) inv(1) unfolding e by (auto simp: sf_step_ok_def)
    qed
  qed (use same in simp_all)
qed

text \<open>A whole transfer.\<close>

lemma transfer_exact:
  assumes "sf_works seal" "aead_ok seal (io_unseal io)" "\<And>p. io_open io p" "\<And>off d. io_write io off d"
    and "sf_good_name name" "f \<noteq> []" "length f < 2 ^ 63"
    and "\<forall>(nc, t) \<in> set nts. \<exists>n. nc = Some n \<and> length n = VTP_NONCE_LEN" "length f + 1 < length nts"
    and "stream_file_start_send (Some (of_nat (length f))) True name (stream_file_new key) = (sd, os, True)"
  shows "\<exists>sd' ws. sf_fills seal (sf_pread f) sd nts = (sd', map SfSend ws, True) \<and>
     sf_on_tx_complete sd' = (sd'\<lparr>sf_tx_state := SF_TX_DONE\<rparr>, [SfDone True True]) \<and>
     (\<forall>cs. concat cs = concat ws \<longrightarrow>
        (\<exists>rc. sf_feed io (stream_file_set_recv_dir (stream_file_new key) (Some dir)) cs =
               Some (rc, [SfMeta name (of_nat (length f)), SfDone False (sf_verdict_on io name f)]) \<and>
             sf_rx_state rc = SF_RX_DONE \<and> sf_rx_file rc = f \<and> sf_rx_path rc = Some (dir, name)))"
proof -
  obtain sd' ws where s: "sf_fills seal (sf_pread f) sd nts = (sd', map SfSend ws, True)"
    "sf_frames seal (take VTP_KEY_LEN key) ws (sf_meta (of_nat (length f)) name # chop SF_VTP_CHUNK f)"
    "sf_on_tx_complete sd' = (sd'\<lparr>sf_tx_state := SF_TX_DONE\<rparr>, [SfDone True True])"
    using fills_all [OF assms(1,2,5,7-10)] by blast
  obtain w ws' where ws: "ws = w # ws'" using s(2) by (auto simp: sf_frames_def list_all2_Cons2)
  let ?r = "stream_file_set_recv_dir (stream_file_new key) (Some dir)"
  have r: "sf_recv_dir ?r = Some dir" "sf_rx_state ?r = SF_RX_WAIT" "sf_key ?r = take VTP_KEY_LEN key"
    by (simp_all add: stream_file_set_recv_dir_def stream_file_new_def)
  have pos: "0 < SF_VTP_CHUNK" by (simp add: SF_VTP_CHUNK_def)
  have ne: "chop SF_VTP_CHUNK f \<noteq> []" using chop_concat [OF pos, of f] assms(6) by auto
  have tot: "unat (of_nat (length f) :: u64) = length (concat (chop SF_VTP_CHUNK f))"
    using assms(7) chop_concat [OF pos, of f] by (simp add: unat_of_nat_small)
  have "sf_frames seal (sf_key ?r) (w # ws') (sf_meta (of_nat (length f)) name # chop SF_VTP_CHUNK f)"
    using s(2) ws r(3) by simp
  from loop_transfer [OF assms(2-5) r(1,2) this tot ne] chop_pieces
  obtain rc where "sf_rx_loop io (?r\<lparr>sf_rxbuf := concat ws\<rparr>) =
      Some (rc, [SfMeta name (of_nat (length f)), SfDone False (sf_verdict_on io name f)])"
     "sf_rx_state rc = SF_RX_DONE" "sf_rx_file rc = f" "sf_rx_path rc = Some (dir, name)"
    using chop_concat [OF pos, of f] ws by fastforce
  then show ?thesis using s(1,3) new_receiver [OF assms(2)] by auto
qed

section \<open>Properties\<close>

text \<open>
  C1. A file session transfers the file: the frames the sender's fill function hands out, delivered
  in order but cut into pieces in any way, make the receiver create the file of that name in its
  directory with exactly the bytes of the sender's file.  It reports the metadata once and the end
  once, with the verdict of the content check; the sender reports success when the transport has
  finished.
\<close>

lemma stream_transfer:
  assumes "sf_works seal" "aead_ok seal (io_unseal io)" "\<And>p. io_open io p" "\<And>off d. io_write io off d"
    and "sf_good_name name" "f \<noteq> []" "length f < 2 ^ 63"
    and "\<forall>(nc, t) \<in> set nts. \<exists>n. nc = Some n \<and> length n = VTP_NONCE_LEN" "length f + 1 < length nts"
    and "stream_file_start_send (Some (of_nat (length f))) True name (stream_file_new key) = (sd, os, True)"
  shows "\<exists>sd' ws. sf_fills seal (sf_pread f) sd nts = (sd', map SfSend ws, True) \<and>
     sf_on_tx_complete sd' = (sd'\<lparr>sf_tx_state := SF_TX_DONE\<rparr>, [SfDone True True]) \<and>
     (\<forall>cs. concat cs = concat ws \<longrightarrow>
        (\<exists>rc. sf_feed io (stream_file_set_recv_dir (stream_file_new key) (Some dir)) cs =
               Some (rc, [SfMeta name (of_nat (length f)), SfDone False (sf_verdict_on io name f)]) \<and>
             sf_rx_state rc = SF_RX_DONE \<and> sf_rx_file rc = f \<and> sf_rx_path rc = Some (dir, name)))"
  using assms by (rule transfer_exact)

definition toy_sf_io :: sf_io where
  "toy_sf_io = \<lparr>io_unseal = toy_unseal, io_sha = toy_sha, io_open = (\<lambda>_. True), io_write = (\<lambda>_ _. True), io_readable = True\<rparr>"

lemma toy_works: "sf_works toy_seal" "aead_ok toy_seal (io_unseal toy_sf_io)"
  by (simp_all add: sf_works_def toy_seal_def toy_sf_io_def toy_aead)

lemma stream_transfer_witness:
  "\<exists>sd' ws. sf_fills toy_seal (sf_pread [1, 2, 3])
       (fst (stream_file_start_send (Some 3) True [0x61, 0x62] (stream_file_new [7])))
       (replicate 9 (Some (replicate 12 5), 0)) = (sd', map SfSend ws, True) \<and>
     (\<exists>rc. sf_feed toy_sf_io (stream_file_set_recv_dir (stream_file_new [7]) (Some [0x2f])) ws =
        Some (rc, [SfMeta [0x61, 0x62] 3, SfDone False True]) \<and> sf_rx_file rc = [1, 2, 3])"
proof -
  have n: "sf_good_name [0x61, 0x62]" by (simp add: sf_good_name_def SF_VTP_CHUNK_def of_char_def horner_sum_simps)
  have s: "stream_file_start_send (Some (of_nat (length [1 :: byte, 2, 3]))) True [0x61, 0x62] (stream_file_new [7]) =
      (fst (stream_file_start_send (Some 3) True [0x61, 0x62] (stream_file_new [7])), [SfSetFill, SfAttach], True)"
    by (simp add: stream_file_start_send_def stream_file_new_def stream_file_attach_def Let_def)
  have v: "sf_verdict_on toy_sf_io [0x61, 0x62] [1, 2, 3]"
    by (simp add: sf_verdict_on_def str_suffix_def bytes_of_def ft_testfile_name_sha_def name_sha_def)
  have io: "io_open toy_sf_io p" "io_write toy_sf_io off d" for p off d by (simp_all add: toy_sf_io_def)
  have "\<exists>sd' ws. sf_fills toy_seal (sf_pread [1, 2, 3])
       (fst (stream_file_start_send (Some 3) True [0x61, 0x62] (stream_file_new [7])))
       (replicate 9 (Some (replicate 12 5), 0)) = (sd', map SfSend ws, True) \<and>
     sf_on_tx_complete sd' = (sd'\<lparr>sf_tx_state := SF_TX_DONE\<rparr>, [SfDone True True]) \<and>
     (\<forall>cs. concat cs = concat ws \<longrightarrow> (\<exists>rc. sf_feed toy_sf_io (stream_file_set_recv_dir (stream_file_new [7]) (Some [0x2f])) cs =
        Some (rc, [SfMeta [0x61, 0x62] 3, SfDone False True]) \<and>
        sf_rx_state rc = SF_RX_DONE \<and> sf_rx_file rc = [1, 2, 3] \<and> sf_rx_path rc = Some ([0x2f], [0x61, 0x62])))"
    using stream_transfer [OF toy_works io n _ _ _ _ s, of "replicate 9 (Some (replicate 12 5), 0)" "[0x2f]"] v
    by (simp add: vtp_lens)
  then show ?thesis by blast
qed

text \<open>
  C7. Whatever bytes arrive, in whatever pieces: the receiver never reads outside its buffers, the
  only file it opens is one directly in its directory, by a name without a slash, \<open>..\<close> or a leading
  dot; it reports at most one end of the reception, and reports success only when the file on disk
  has passed the content check (and, below 2^63 declared bytes, has the declared size).
\<close>

lemma stream_receiver_safe:
  assumes "aead_ok seal (io_unseal io)"
  shows "\<exists>rc os. sf_feed io (stream_file_set_recv_dir (stream_file_new key) (Some dir)) cs = Some (rc, os) \<and>
     (\<forall>d n. sf_rx_path rc = Some (d, n) \<longrightarrow> d = dir \<and> sf_safe_name n) \<and>
     length (sf_reports os) \<le> 1 \<and>
     (True \<in> set (sf_reports os) \<longrightarrow> sf_rx_state rc = SF_RX_DONE \<and>
       (unat (sf_rx_total rc) < 2 ^ 63 \<longrightarrow> length (sf_rx_file rc) = unat (sf_rx_total rc) \<and>
         (\<exists>n. sf_rx_path rc = Some (dir, n) \<and> sf_verdict_on io n (sf_rx_file rc))))"
proof -
  let ?r = "(stream_file_set_recv_dir (stream_file_new key) (Some dir))\<lparr>sf_rxbuf := concat cs\<rparr>"
  obtain rc os where l: "sf_rx_loop io ?r = Some (rc, os)"
    using loop_total [OF assms] by (metis option.exhaust prod.exhaust)
  have r: "sf_recv_dir ?r = Some dir" "sf_rx_inv ?r" "\<not> sf_over ?r"
    by (simp_all add: stream_file_set_recv_dir_def stream_file_new_def sf_rx_inv_def sf_over_def)
  have st: "sf_step_ok io ?r rc os" using loop_step [OF l _ r(2) assms] r(1) by simp
  have inv: "sf_rx_inv rc" "sf_recv_dir rc = Some dir" using st r(1) by (simp_all add: sf_step_ok_def)
  have path: "d = dir \<and> sf_safe_name n" if "sf_rx_path rc = Some (d, n)" for d n
    using inv that by (auto simp: sf_rx_inv_def)
  consider (going) "sf_reports os = []" | (ended) ok where "sf_reports os = [ok]"
      "ok \<longrightarrow> sf_rx_state rc = SF_RX_DONE \<and> (unat (sf_rx_total rc) < 2 ^ 63 \<longrightarrow>
           (\<exists>dir n. sf_rx_path rc = Some (dir, n) \<and> sf_verdict_on io n (sf_rx_file rc)))"
    using st r(3) unfolding sf_step_ok_def by blast
  then show ?thesis
  proof cases
    case ended
    have "ok \<Longrightarrow> unat (sf_rx_total rc) < 2 ^ 63 \<Longrightarrow> length (sf_rx_file rc) = unat (sf_rx_total rc)"
      using ended inv(1) by (simp add: sf_rx_inv_def)
    then show ?thesis using new_receiver [OF assms] l path ended by auto
  qed (use new_receiver [OF assms] l path in auto)
qed

lemma stream_receiver_safe_witness:
  "\<exists>rc os. sf_feed toy_sf_io (stream_file_set_recv_dir (stream_file_new [7]) (Some [0x2f])) [[0, 0, 0, 44], replicate 60 9] =
     Some (rc, os) \<and> length (sf_reports os) \<le> 1"
  using stream_receiver_safe [OF toy_works(2), of "[7]" "[0x2f]" "[[0, 0, 0, 44], replicate 60 9]"] by blast

text \<open>
  An empty file is never received: its sender hands out the metadata alone and reports success,
  and the receiver, which finishes only on a data frame, is left waiting for data and reports nothing.
\<close>

lemma stream_empty_file:
  assumes "sf_works seal" "aead_ok seal (io_unseal io)" "\<And>p. io_open io p" "sf_good_name name"
    and "\<forall>(nc, t) \<in> set nts. \<exists>n. nc = Some n \<and> length n = VTP_NONCE_LEN" "1 < length nts"
    and "stream_file_start_send (Some 0) True name (stream_file_new key) = (sd, os, True)"
  shows "\<exists>sd' w. sf_fills seal (sf_pread []) sd nts = (sd', [SfSend w], True) \<and>
     sf_on_tx_complete sd' = (sd'\<lparr>sf_tx_state := SF_TX_DONE\<rparr>, [SfDone True True]) \<and>
     (\<forall>cs. concat cs = w \<longrightarrow>
        (\<exists>rc. sf_feed io (stream_file_set_recv_dir (stream_file_new key) (Some dir)) cs = Some (rc, [SfMeta name 0]) \<and>
             sf_rx_state rc = SF_RX_DATA))"
proof -
  have nil: "chop SF_VTP_CHUNK [] = []" by (simp add: chop.simps)
  obtain sd' ws where s: "sf_fills seal (sf_pread []) sd nts = (sd', map SfSend ws, True)"
    "sf_frames seal (take VTP_KEY_LEN key) ws [sf_meta 0 name]"
    "sf_on_tx_complete sd' = (sd'\<lparr>sf_tx_state := SF_TX_DONE\<rparr>, [SfDone True True])"
    using fills_all [OF assms(1,2,4), of "[]" nts key sd os] assms(5-7) nil by auto
  obtain w n cap m st sc ts where ws: "ws = [w]" and b: "length n = VTP_NONCE_LEN" "length (sf_meta 0 name) \<le> SF_VTP_CHUNK"
    "vtp_build_common_frame seal (Some n) cap (take VTP_KEY_LEN key) m st sc ts (sf_meta 0 name) = Some w"
    using s(2) by (auto simp: sf_frames_def list_all2_Cons2)
  let ?r = "stream_file_set_recv_dir (stream_file_new key) (Some dir)"
  have r: "sf_recv_dir ?r = Some dir" "sf_rx_state ?r = SF_RX_WAIT" "sf_key ?r = take VTP_KEY_LEN key"
    by (simp_all add: stream_file_set_recv_dir_def stream_file_new_def)
  obtain sf1 where sf1: "sf_handle io (?r\<lparr>sf_rxbuf := w @ []\<rparr>) (sf_meta 0 name) = Some (sf1, [SfMeta name 0], True)"
    "sf_rx_state sf1 = SF_RX_DATA"
    using rx_meta_good [OF assms(4), of "?r\<lparr>sf_rxbuf := w @ []\<rparr>" dir io 0] assms(3) r by (auto simp: sf_handle_def)
  have w1: "sf_rx_loop io (sf1\<lparr>sf_rxbuf := []\<rparr>) = Some (sf1\<lparr>sf_rxbuf := []\<rparr>, [])"
    using sf1(2) by (intro loop_wait) (simp_all add: sf_over_def)
  have "sf_rx_loop io (?r\<lparr>sf_rxbuf := w @ []\<rparr>) =
     map_option (\<lambda>(sf3, os'). (sf3, [SfMeta name 0] @ os')) (sf_rx_loop io (sf1\<lparr>sf_rxbuf := []\<rparr>))"
    by (rule loop_frame [OF b(3) [folded r(3)] assms(2) b(1,2) _ sf1(1)]) (use r in \<open>simp add: sf_over_def\<close>)
  then have "sf_rx_loop io (?r\<lparr>sf_rxbuf := w\<rparr>) = Some (sf1\<lparr>sf_rxbuf := []\<rparr>, [SfMeta name 0])" using w1 by simp
  then show ?thesis using s(1,3) ws sf1(2) new_receiver [OF assms(2)] by auto
qed

lemma stream_empty_file_witness:
  "\<exists>sd' w. sf_fills toy_seal (sf_pread [])
       (fst (stream_file_start_send (Some 0) True [0x61] (stream_file_new [7])))
       (replicate 2 (Some (replicate 12 5), 0)) = (sd', [SfSend w], True) \<and>
     (\<exists>rc. sf_feed toy_sf_io (stream_file_set_recv_dir (stream_file_new [7]) (Some [0x2f])) [w] = Some (rc, [SfMeta [0x61] 0]))"
proof -
  have n: "sf_good_name [0x61]" by (simp add: sf_good_name_def SF_VTP_CHUNK_def of_char_def horner_sum_simps)
  have s: "stream_file_start_send (Some 0) True [0x61] (stream_file_new [7]) =
      (fst (stream_file_start_send (Some 0) True [0x61] (stream_file_new [7])), [SfSetFill, SfAttach], True)"
    by (simp add: stream_file_start_send_def stream_file_new_def stream_file_attach_def Let_def)
  have io: "io_open toy_sf_io p" for p by (simp add: toy_sf_io_def)
  from stream_empty_file [OF toy_works io n _ _ s, of "replicate 2 (Some (replicate 12 5), 0)" "[0x2f]"]
  obtain sd' w where "sf_fills toy_seal (sf_pread [])
       (fst (stream_file_start_send (Some 0) True [0x61] (stream_file_new [7])))
       (replicate 2 (Some (replicate 12 5), 0)) = (sd', [SfSend w], True)"
    "\<forall>cs. concat cs = w \<longrightarrow> (\<exists>rc. sf_feed toy_sf_io (stream_file_set_recv_dir (stream_file_new [7]) (Some [0x2f])) cs =
        Some (rc, [SfMeta [0x61] 0]) \<and> sf_rx_state rc = SF_RX_DATA)"
    by (auto simp: vtp_lens)
  then show ?thesis by (metis concat.simps append_Nil2)
qed

end
