(* ===== verification/DfileFrame.thy ===== *)
theory DfileFrame
  imports SoftbusCrypto
begin

text \<open>
  The frame codec of DFile, the file transfer protocol (\<open>src/proto/dfile_frame.c\<close>): the 8-byte
  header, the encoders and the decoders.

  An encoder is given the caller's buffer \<open>out\<close>, whose length is the capacity, and returns the
  frame it leaves at its front, or \<open>None\<close> for -1.  When the header cannot be packed the first eight
  bytes keep what the buffer held.  A decoder is given a frame with its length and has the two
  layers of option of \<open>Prelude\<close>.  A character array is the C string it holds.
\<close>

definition DFILE_FRAME_HEADER_LEN :: nat where "DFILE_FRAME_HEADER_LEN = 8"
definition DFILE_FRAME_MAX_LEN :: nat where "DFILE_FRAME_MAX_LEN = 29433"
definition DFILE_FRAME_MAX_SIZE :: nat where "DFILE_FRAME_MAX_SIZE = 14720"
definition DFILE_DEFAULT_FRAME_SIZE :: nat where "DFILE_DEFAULT_FRAME_SIZE = 1472"
definition DFILE_MIN_MTU_SIZE :: u32 where "DFILE_MIN_MTU_SIZE = 64"
definition DFILE_MAX_FILE_NUM :: nat where "DFILE_MAX_FILE_NUM = 500"
definition DFILE_MAX_FILE_NAME_LEN :: nat where "DFILE_MAX_FILE_NAME_LEN = 256"
definition DFILE_MAX_ACK_ENTRIES :: nat where "DFILE_MAX_ACK_ENTRIES = 39"
definition DFILE_SETTING_PAYLOAD_LEN :: nat where "DFILE_SETTING_PAYLOAD_LEN = 100"

lemmas dfile_lens = DFILE_FRAME_HEADER_LEN_def DFILE_FRAME_MAX_LEN_def DFILE_FRAME_MAX_SIZE_def
  DFILE_DEFAULT_FRAME_SIZE_def DFILE_MIN_MTU_SIZE_def DFILE_MAX_FILE_NUM_def
  DFILE_MAX_FILE_NAME_LEN_def DFILE_MAX_ACK_ENTRIES_def DFILE_SETTING_PAYLOAD_LEN_def

text \<open>\<open>DFileFrameType\<close>, compared with a received byte.\<close>

definition DFILE_FRAME_FILE_HEADER :: byte where "DFILE_FRAME_FILE_HEADER = 1"
definition DFILE_FRAME_FILE_HEADER_CONFIRM :: byte where "DFILE_FRAME_FILE_HEADER_CONFIRM = 2"
definition DFILE_FRAME_FILE_TRANSFER_REQ :: byte where "DFILE_FRAME_FILE_TRANSFER_REQ = 3"
definition DFILE_FRAME_FILE_DATA :: byte where "DFILE_FRAME_FILE_DATA = 4"
definition DFILE_FRAME_FILE_DATA_ACK :: byte where "DFILE_FRAME_FILE_DATA_ACK = 5"
definition DFILE_FRAME_FILE_TRANSFER_DONE :: byte where "DFILE_FRAME_FILE_TRANSFER_DONE = 6"
definition DFILE_FRAME_FILE_TRANSFER_DONE_ACK :: byte where "DFILE_FRAME_FILE_TRANSFER_DONE_ACK = 7"
definition DFILE_FRAME_SETTING :: byte where "DFILE_FRAME_SETTING = 8"
definition DFILE_FRAME_RST :: byte where "DFILE_FRAME_RST = 9"
definition DFILE_FRAME_FILE_BACK_PRESSURE :: byte where "DFILE_FRAME_FILE_BACK_PRESSURE = 13"

lemmas dfile_types = DFILE_FRAME_FILE_HEADER_def DFILE_FRAME_FILE_HEADER_CONFIRM_def
  DFILE_FRAME_FILE_TRANSFER_REQ_def DFILE_FRAME_FILE_DATA_def DFILE_FRAME_FILE_DATA_ACK_def
  DFILE_FRAME_FILE_TRANSFER_DONE_def DFILE_FRAME_FILE_TRANSFER_DONE_ACK_def
  DFILE_FRAME_SETTING_def DFILE_FRAME_RST_def DFILE_FRAME_FILE_BACK_PRESSURE_def

record dfile_header =
  df_type :: byte
  df_flag :: byte
  df_session_id :: u16
  df_trans_id :: u16
  df_length :: u16

record dfile_header_entry =
  fe_file_id :: u16
  fe_file_size :: u64
  fe_name :: cstr

record dfile_setting =
  ds_mtu :: u16
  ds_conn_type :: u16
  ds_dfile_version :: u32
  ds_abm_capability :: u32
  ds_capability :: u32
  ds_data_frame_size :: u32
  ds_caps_check :: u32
  ds_product_version :: cstr
  ds_is_support_160m :: byte
  ds_is_support_mtp :: byte
  ds_mtp_port :: byte
  ds_header_enc :: byte
  ds_mtp_capability :: u32
  ds_cipher_capability :: u32

record dfile_ack_entry =
  ae_file_id :: u16
  ae_last_seq :: u32
  ae_c :: u32
  ae_d :: u16

section \<open>Bounds-checked writer and reader\<close>

text \<open>
  The writer \<open>W\<close> is the payload placed so far behind the header, or \<open>None\<close> when \<open>ok\<close> is false; the
  reader \<open>R\<close> is what is left to read, or \<open>None\<close>.
\<close>

definition w_at :: "nat \<Rightarrow> bytes \<Rightarrow> bytes option \<Rightarrow> bytes option" where
  "w_at cap bs w =
     (case w of
        None \<Rightarrow> None
      | Some p \<Rightarrow> if cap < DFILE_FRAME_HEADER_LEN + length p + length bs then None else Some (p @ bs))"

definition r_take :: "nat \<Rightarrow> bytes option \<Rightarrow> bytes option \<times> bytes option" where
  "r_take n r =
     (case r of
        None \<Rightarrow> (None, None)
      | Some bs \<Rightarrow> if length bs < n then (None, None) else (Some (take n bs), Some (drop n bs)))"

definition r_u16 :: "bytes option \<Rightarrow> u16 \<times> bytes option" where
  "r_u16 r = (case r_take 2 r of (None, r') \<Rightarrow> (0, r') | (Some p, r') \<Rightarrow> (the (get_u16 p 0), r'))"

definition r_u32 :: "bytes option \<Rightarrow> u32 \<times> bytes option" where
  "r_u32 r = (case r_take 4 r of (None, r') \<Rightarrow> (0, r') | (Some p, r') \<Rightarrow> (the (get_u32 p 0), r'))"

definition r_u64 :: "bytes option \<Rightarrow> u64 \<times> bytes option" where
  "r_u64 r = (case r_take 8 r of (None, r') \<Rightarrow> (0, r') | (Some p, r') \<Rightarrow> (the (get_u64 p 0), r'))"

section \<open>Header\<close>

definition dfile_frame_header_pack :: "dfile_header \<Rightarrow> bytes option" where
  "dfile_frame_header_pack h =
     (if df_length h = 0 \<or> DFILE_FRAME_MAX_LEN < unat (df_length h) then None
      else Some ([df_type h, df_flag h] @ put_u16 (df_session_id h) @ put_u16 (df_trans_id h) @
                 put_u16 (df_length h)))"

text \<open>The results 0, -1 and -2.\<close>

datatype dfile_unpacked = UnpackOk dfile_header | UnpackShort | UnpackBad

definition dfile_frame_header_unpack :: "bytes \<Rightarrow> dfile_unpacked option" where
  "dfile_frame_header_unpack bs =
     (if length bs < DFILE_FRAME_HEADER_LEN then Some UnpackShort
      else do {
        ty \<leftarrow> get_u8 bs 0;
        fl \<leftarrow> get_u8 bs 1;
        se \<leftarrow> get_u16 bs 2;
        tr \<leftarrow> get_u16 bs 4;
        le \<leftarrow> get_u16 bs 6;
        if le = 0 \<or> DFILE_FRAME_MAX_LEN < unat le then Some UnpackBad
        else Some (UnpackOk \<lparr>df_type = ty, df_flag = fl, df_session_id = se, df_trans_id = tr,
                             df_length = le\<rparr>) })"

text \<open>The decoders' prelude; it also gives the header, which they unpack a second time.\<close>

definition frame_payload :: "bytes \<Rightarrow> byte \<Rightarrow> (dfile_header \<times> bytes) option option" where
  "frame_payload frame ty = do {
     u \<leftarrow> dfile_frame_header_unpack frame;
     case u of
       UnpackOk h \<Rightarrow>
         if df_type h \<noteq> ty then Some None
         else if length frame \<noteq> DFILE_FRAME_HEADER_LEN + unat (df_length h) then Some None
         else Some (Some (h, drop DFILE_FRAME_HEADER_LEN frame))
     | UnpackShort \<Rightarrow> Some None
     | UnpackBad \<Rightarrow> Some None }"

definition write_header :: "bytes \<Rightarrow> byte \<Rightarrow> byte \<Rightarrow> u16 \<Rightarrow> u16 \<Rightarrow> bytes" where
  "write_header out ty flag trans_id len =
     (case dfile_frame_header_pack \<lparr>df_type = ty, df_flag = flag, df_session_id = 0,
             df_trans_id = trans_id, df_length = len\<rparr> of
        Some h \<Rightarrow> h
      | None \<Rightarrow> take DFILE_FRAME_HEADER_LEN out)"

section \<open>Encoders\<close>

definition dfile_encode_setting :: "bytes \<Rightarrow> dfile_setting \<Rightarrow> bytes option" where
  "dfile_encode_setting out s =
     (if length out < DFILE_FRAME_HEADER_LEN + DFILE_SETTING_PAYLOAD_LEN then None
      else
        let w = w_at (length out);
            n = min (length (ds_product_version s)) 63;
            pv = take n (ds_product_version s) @ replicate (64 - n) 0
        in case
          w (put_u32 (ds_cipher_capability s))
          (w (put_u32 (ds_mtp_capability s))
          (w [ds_is_support_160m s, ds_is_support_mtp s, ds_mtp_port s, ds_header_enc s]
          (w pv
          (w (put_u32 (ds_caps_check s))
          (w (put_u32 (ds_data_frame_size s))
          (w (put_u32 (ds_capability s))
          (w (put_u32 (ds_abm_capability s))
          (w (put_u32 (ds_dfile_version s))
          (w (put_u16 (ds_conn_type s))
          (w (put_u16 (ds_mtu s)) (Some [])))))))))))
        of None \<Rightarrow> None
         | Some p \<Rightarrow>
             if length p \<noteq> DFILE_SETTING_PAYLOAD_LEN then None
             else Some (write_header out DFILE_FRAME_SETTING 0 0 (of_nat DFILE_SETTING_PAYLOAD_LEN) @ p))"

text \<open>How many of the entries fit behind position \<open>pos\<close>; \<open>None\<close> for a name that is too long.\<close>

fun fh_fit :: "nat \<Rightarrow> nat \<Rightarrow> dfile_header_entry list \<Rightarrow> nat option" where
  "fh_fit cap pos [] = Some 0"
| "fh_fit cap pos (e # es) =
     (let name_len = length (fe_name e); entry_size = 2 + 8 + 2 + name_len in
      if DFILE_MAX_FILE_NAME_LEN \<le> name_len then None
      else if cap < pos + entry_size then Some 0
      else map_option Suc (fh_fit cap (pos + entry_size) es))"

fun fh_write :: "nat \<Rightarrow> dfile_header_entry list \<Rightarrow> bytes option \<Rightarrow> bytes option" where
  "fh_write cap [] w = w"
| "fh_write cap (e # es) w =
     fh_write cap es
       (w_at cap (fe_name e)
       (w_at cap (put_u16 (of_nat (length (fe_name e))))
       (w_at cap (put_u64 (fe_file_size e))
       (w_at cap (put_u16 (fe_file_id e)) w))))"

text \<open>\<open>es\<close> are the \<open>count\<close> entries from \<open>start\<close> on.\<close>

definition dfile_encode_file_header ::
  "bytes \<Rightarrow> u16 \<Rightarrow> u16 \<Rightarrow> nat \<Rightarrow> dfile_header_entry list \<Rightarrow> (bytes \<times> nat) option" where
  "dfile_encode_file_header out trans_id node_number start es =
     (if es = [] \<or> DFILE_MAX_FILE_NUM < start + length es then None
      else case fh_fit (length out) (DFILE_FRAME_HEADER_LEN + 2) es of
        None \<Rightarrow> None
      | Some written \<Rightarrow>
          if written = 0 then None
          else case fh_write (length out) (take written es)
                      (w_at (length out) (put_u16 node_number) (Some [])) of
            None \<Rightarrow> None
          | Some p \<Rightarrow> Some (write_header out DFILE_FRAME_FILE_HEADER 0 trans_id (of_nat (length p)) @ p,
                            written))"

definition w_ids :: "nat \<Rightarrow> u16 list \<Rightarrow> bytes option \<Rightarrow> bytes option" where
  "w_ids cap ids w = foldl (\<lambda>w i. w_at cap (put_u16 i) w) w ids"

definition dfile_encode_idlist :: "bytes \<Rightarrow> byte \<Rightarrow> byte \<Rightarrow> u16 \<Rightarrow> u16 list \<Rightarrow> bytes option" where
  "dfile_encode_idlist out ty flag trans_id ids =
     (let payload = 2 * length ids in
      if DFILE_MAX_FILE_NUM < length ids then None
      else if length out < DFILE_FRAME_HEADER_LEN + payload then None
      else case w_ids (length out) ids (Some []) of
             None \<Rightarrow> None
           | Some p \<Rightarrow> Some (write_header out ty flag trans_id (of_nat payload) @ p))"

definition dfile_encode_data ::
  "bytes \<Rightarrow> u16 \<Rightarrow> byte \<Rightarrow> u16 \<Rightarrow> u32 \<Rightarrow> bytes \<Rightarrow> bytes option" where
  "dfile_encode_data out trans_id flag file_id block_seq payload =
     (let frame_len = DFILE_FRAME_HEADER_LEN + 6 + length payload; w = w_at (length out) in
      if DFILE_FRAME_MAX_SIZE < frame_len then None
      else if length out < frame_len then None
      else case w payload (w (put_u32 block_seq) (w (put_u16 file_id) (Some []))) of
             None \<Rightarrow> None
           | Some p \<Rightarrow> Some (write_header out DFILE_FRAME_FILE_DATA flag trans_id
                               (of_nat (6 + length payload)) @ p))"

text \<open>The acknowledgement is written at fixed offsets into a zeroed payload.\<close>

definition ack_count_field :: "bool \<Rightarrow> nat \<Rightarrow> u16" where
  "ack_count_field v2 n = of_nat ((if v2 then 12 else 6) + 37 * n)"

definition ack_entry :: "dfile_ack_entry \<Rightarrow> bytes" where
  "ack_entry e = put_u16 (ae_file_id e) @ put_u32 (ae_last_seq e)"

definition ack_body :: "bool \<Rightarrow> dfile_ack_entry list \<Rightarrow> bytes" where
  "ack_body v2 entries =
     (case entries of
        [] \<Rightarrow> []
      | e # es \<Rightarrow>
          ack_entry e @
          (if v2 then put_u16 (ucast (ae_c e AND 0xffff)) @ put_u16 (ae_d e) @ [0, 0] else []) @
          concat (map ack_entry es))"

definition dfile_encode_ack ::
  "bytes \<Rightarrow> bool \<Rightarrow> u16 \<Rightarrow> byte \<Rightarrow> dfile_ack_entry list \<Rightarrow> bytes option" where
  "dfile_encode_ack out v2 trans_id flag entries =
     (if DFILE_MAX_ACK_ENTRIES < length entries then None
      else
        let count_field = ack_count_field v2 (length entries);
            body = ack_body v2 entries
        in if length out < DFILE_FRAME_HEADER_LEN + unat count_field then None
           else Some (write_header out DFILE_FRAME_FILE_DATA_ACK flag trans_id count_field @
                      body @ replicate (unat count_field - length body) 0))"

definition dfile_encode_rst :: "bytes \<Rightarrow> u16 \<Rightarrow> u16 \<Rightarrow> u16 list \<Rightarrow> bytes option" where
  "dfile_encode_rst out trans_id code ids =
     (let payload = 2 + 2 * length ids in
      if DFILE_MAX_FILE_NUM < length ids then None
      else if length out < DFILE_FRAME_HEADER_LEN + payload then None
      else case w_ids (length out) ids (w_at (length out) (put_u16 code) (Some [])) of
             None \<Rightarrow> None
           | Some p \<Rightarrow> Some (write_header out DFILE_FRAME_RST 0 trans_id (of_nat payload) @ p))"

definition dfile_encode_backpressure :: "bytes \<Rightarrow> u16 \<Rightarrow> byte \<Rightarrow> byte \<Rightarrow> u32 \<Rightarrow> bytes option" where
  "dfile_encode_backpressure out trans_id recv_list_over_io recv_buf_threshold stop_send_period =
     (if length out < DFILE_FRAME_HEADER_LEN + 6 then None
      else case w_at (length out) (put_u32 stop_send_period)
                  (w_at (length out) [recv_list_over_io, recv_buf_threshold] (Some [])) of
             None \<Rightarrow> None
           | Some p \<Rightarrow> Some (write_header out DFILE_FRAME_FILE_BACK_PRESSURE 0 trans_id 6 @ p))"

section \<open>Decoders\<close>

definition dfile_decode_setting :: "bytes \<Rightarrow> dfile_setting option option" where
  "dfile_decode_setting frame = do {
     fp \<leftarrow> frame_payload frame DFILE_FRAME_SETTING;
     case fp of
       None \<Rightarrow> Some None
     | Some (h, p) \<Rightarrow>
         if length p \<noteq> DFILE_SETTING_PAYLOAD_LEN then Some None
         else
           let (mtu, r) = r_u16 (Some p);
               (conn, r) = r_u16 r;
               (ver, r) = r_u32 r;
               (abm, r) = r_u32 r;
               (cap, r) = r_u32 r;
               (dfs, r) = r_u32 r;
               (caps, r) = r_u32 r
           in case r_take 64 r of
                (None, r) \<Rightarrow> Some None
              | (Some pv, r) \<Rightarrow>
                  (case r_take 4 r of
                     (None, r) \<Rightarrow> Some None
                   | (Some b, r) \<Rightarrow>
                       let (mtpc, r) = r_u32 r;
                           (cip, r) = r_u32 r
                       in case r of
                            None \<Rightarrow> Some None
                          | Some _ \<Rightarrow>
                              Some (Some \<lparr>ds_mtu = mtu, ds_conn_type = conn, ds_dfile_version = ver,
                                ds_abm_capability = abm, ds_capability = cap,
                                ds_data_frame_size = dfs, ds_caps_check = caps,
                                ds_product_version = c_string (take 63 pv),
                                ds_is_support_160m = b ! 0, ds_is_support_mtp = b ! 1,
                                ds_mtp_port = b ! 2, ds_header_enc = b ! 3,
                                ds_mtp_capability = mtpc, ds_cipher_capability = cip\<rparr>)) }"

text \<open>
  The entries of a FILE_HEADER: \<open>n\<close> of at most \<open>cap_entries\<close> are stored, \<open>bs\<close> is what is left of the
  payload.  An entry with id 0 ends them.
\<close>

function fh_entries :: "nat \<Rightarrow> nat \<Rightarrow> bytes \<Rightarrow> dfile_header_entry list option" where
  "fh_entries cap_entries n bs =
     (if bs = [] then Some []
      else if length bs < 12 then None
      else
        let (id, r) = r_u16 (Some bs);
            (sz, r) = r_u64 r;
            (name_len, r) = r_u16 r
        in if id = 0 then (if length bs - 12 < 2 then None else Some [])
           else if name_len = 0 \<or> DFILE_MAX_FILE_NAME_LEN < unat name_len then None
           else case r_take (unat name_len) r of
                  (None, r) \<Rightarrow> None
                | (Some name, r) \<Rightarrow>
                    if cap_entries \<le> n then None
                    else case r of
                      None \<Rightarrow> None
                    | Some rest \<Rightarrow>
                        map_option (\<lambda>es. \<lparr>fe_file_id = id, fe_file_size = sz, fe_name = c_string name\<rparr> # es)
                          (fh_entries cap_entries (n + 1) rest))"
  by pat_completeness auto
termination
  by (relation "measure (\<lambda>(cap, n, bs). length bs)")
    (auto simp: r_u16_def r_u64_def r_take_def split: if_splits)

declare fh_entries.simps [simp del]

text \<open>The transaction id, the announced number of files and the entries.\<close>

definition dfile_decode_file_header :: "bytes \<Rightarrow> (u16 \<times> u16 \<times> dfile_header_entry list) option option" where
  "dfile_decode_file_header frame = do {
     fp \<leftarrow> frame_payload frame DFILE_FRAME_FILE_HEADER;
     case fp of
       None \<Rightarrow> Some None
     | Some (h, p) \<Rightarrow>
         if length p < 2 then Some None
         else case r_u16 (Some p) of
           (node, None) \<Rightarrow> Some None
         | (node, Some rest) \<Rightarrow>
             let cap_entries = (if 0 < node then unat node else DFILE_MAX_FILE_NUM)
             in Some (map_option (\<lambda>es. (df_trans_id h, node, es)) (fh_entries cap_entries 0 rest)) }"

fun r_ids :: "nat \<Rightarrow> bytes option \<Rightarrow> u16 list \<times> bytes option" where
  "r_ids 0 r = ([], r)"
| "r_ids (Suc n) r = (case r_u16 r of (i, r1) \<Rightarrow> case r_ids n r1 of (is, r2) \<Rightarrow> (i # is, r2))"

definition dfile_decode_idlist :: "bytes \<Rightarrow> byte \<Rightarrow> (u16 \<times> byte \<times> u16 list) option option" where
  "dfile_decode_idlist frame expect_type = do {
     fp \<leftarrow> frame_payload frame expect_type;
     case fp of
       None \<Rightarrow> Some None
     | Some (h, p) \<Rightarrow>
         if length p mod 2 \<noteq> 0 then Some None
         else if DFILE_MAX_FILE_NUM < length p div 2 then Some None
         else case r_ids (length p div 2) (Some p) of
                (ids, None) \<Rightarrow> Some None
              | (ids, Some _) \<Rightarrow> Some (Some (df_trans_id h, df_flag h, ids)) }"

definition dfile_decode_data :: "bytes \<Rightarrow> (u16 \<times> byte \<times> u16 \<times> u32 \<times> bytes) option option" where
  "dfile_decode_data frame = do {
     fp \<leftarrow> frame_payload frame DFILE_FRAME_FILE_DATA;
     case fp of
       None \<Rightarrow> Some None
     | Some (h, p) \<Rightarrow>
         if length p < 6 then Some None
         else
           let (id, r) = r_u16 (Some p);
               (seq, r) = r_u32 r
           in case r of
                None \<Rightarrow> Some None
              | Some rest \<Rightarrow> Some (Some (df_trans_id h, df_flag h, id, seq, rest)) }"

text \<open>Entries \<open>1..n-1\<close>, six bytes each from \<open>off\<close> on; these reads are not bounds-checked.\<close>

fun ack_rest :: "bytes \<Rightarrow> nat \<Rightarrow> nat \<Rightarrow> dfile_ack_entry list option option" where
  "ack_rest p off 0 = Some (Some [])"
| "ack_rest p off (Suc k) =
     (if length p < off + 6 then Some None
      else do {
        id \<leftarrow> get_u16 p off;
        seq \<leftarrow> get_u32 p (off + 2);
        r \<leftarrow> ack_rest p (off + 6) k;
        Some (map_option (\<lambda>es. \<lparr>ae_file_id = id, ae_last_seq = seq, ae_c = 0, ae_d = 0\<rparr> # es) r) })"

definition ack_first :: "bytes \<Rightarrow> bool \<Rightarrow> dfile_ack_entry option" where
  "ack_first p is_v2 = do {
     id \<leftarrow> get_u16 p 0;
     seq \<leftarrow> get_u32 p 2;
     if is_v2 then do {
       c \<leftarrow> get_u16 p 6;
       d \<leftarrow> get_u16 p 8;
       Some \<lparr>ae_file_id = id, ae_last_seq = seq, ae_c = ucast c, ae_d = d\<rparr> }
     else Some \<lparr>ae_file_id = id, ae_last_seq = seq, ae_c = 0, ae_d = 0\<rparr> }"

definition dfile_decode_ack :: "bytes \<Rightarrow> (u16 \<times> byte \<times> bool \<times> dfile_ack_entry list) option option" where
  "dfile_decode_ack frame = do {
     fp \<leftarrow> frame_payload frame DFILE_FRAME_FILE_DATA_ACK;
     case fp of
       None \<Rightarrow> Some None
     | Some (h, p) \<Rightarrow>
         let len_field = unat (df_length h);
             is_v2 = (len_field mod 37 = 12);
             is_v1 = (len_field mod 37 = 6)
         in if \<not> is_v1 \<and> \<not> is_v2 then Some None
            else if 0x5c1 \<le> len_field then Some None
            else
              let n = (len_field - (if is_v2 then 12 else 6)) div 37 in
              if n = 0 then Some (Some (df_trans_id h, df_flag h, is_v2, []))
              else do {
                e \<leftarrow> ack_first p is_v2;
                r \<leftarrow> ack_rest p (if is_v2 then 12 else 6) (n - 1);
                Some (map_option (\<lambda>es. (df_trans_id h, df_flag h, is_v2, e # es)) r) } }"

definition dfile_decode_rst :: "bytes \<Rightarrow> (u16 \<times> u16 \<times> u16 list) option option" where
  "dfile_decode_rst frame = do {
     fp \<leftarrow> frame_payload frame DFILE_FRAME_RST;
     case fp of
       None \<Rightarrow> Some None
     | Some (h, p) \<Rightarrow>
         if length p < 2 \<or> length p mod 2 \<noteq> 0 then Some None
         else
           let (code, r) = r_u16 (Some p); n = (length p - 2) div 2
           in if DFILE_MAX_FILE_NUM < n then Some None
              else case r_ids n r of
                     (ids, None) \<Rightarrow> Some None
                   | (ids, Some _) \<Rightarrow> Some (Some (df_trans_id h, code, ids)) }"

section \<open>Lemmas\<close>

text \<open>Reading what was written.\<close>

named_theorems wire

lemma r_take_app [wire]: "length x = n \<Longrightarrow> r_take n (Some (x @ r)) = (Some x, Some r)"
  by (simp add: r_take_def)

lemma r_put [wire]:
  "r_u16 (Some (put_u16 a @ r)) = (a, Some r)"
  "r_u32 (Some (put_u32 b @ r)) = (b, Some r)"
  "r_u64 (Some (put_u64 c @ r)) = (c, Some r)"
  using get_u16_put [of a "[]"] get_u32_put [of b "[]"] get_u64_put [of c "[]"]
  by (simp_all add: r_u16_def r_u32_def r_u64_def r_take_app)

lemmas r_put_Nil [wire] = r_put [where r = "[]", simplified]

lemma w_at_fits [wire]: "DFILE_FRAME_HEADER_LEN + length p + length bs \<le> cap \<Longrightarrow> w_at cap bs (Some p) = Some (p @ bs)"
  by (simp add: w_at_def)

lemma w_at_Some: "w_at cap bs w = Some q \<longleftrightarrow>
    (\<exists>p. w = Some p \<and> q = p @ bs \<and> DFILE_FRAME_HEADER_LEN + length p + length bs \<le> cap)"
  by (auto simp: w_at_def not_less split: option.splits if_splits)

lemma write_header_length: "DFILE_FRAME_HEADER_LEN \<le> length out \<Longrightarrow> length (write_header out ty fl tr len) = 8"
  by (simp add: write_header_def dfile_frame_header_pack_def dfile_lens)

text \<open>A frame whose header was written decodes to its payload.\<close>

lemma frame_payload_written [wire]:
  assumes "unat len = length p" "len \<noteq> 0" "length p \<le> DFILE_FRAME_MAX_LEN"
  shows "frame_payload (write_header out ty fl tr len @ p) ty =
    Some (Some (\<lparr>df_type = ty, df_flag = fl, df_session_id = 0, df_trans_id = tr, df_length = len\<rparr>, p))"
  using assms
  by (simp add: frame_payload_def dfile_frame_header_unpack_def write_header_def dfile_frame_header_pack_def
      dfile_lens codec)

lemma frame_payload_okay [okay_rules]:
  "okay (frame_payload frame ty) P \<longleftrightarrow> (\<forall>r. frame_payload frame ty = Some r \<longrightarrow> P r)"
proof -
  have "okay (frame_payload frame ty) (\<lambda>_. True)"
    by (auto simp: frame_payload_def dfile_frame_header_unpack_def okay_rules dfile_lens split: dfile_unpacked.splits)
  then show ?thesis by (auto simp: okay_def split: option.splits)
qed

lemma frame_payload_length:
  "frame_payload frame ty = Some (Some (h, p)) \<Longrightarrow>
   length p = unat (df_length h) \<and> df_type h = ty \<and> 0 < length p \<and> length p \<le> DFILE_FRAME_MAX_LEN \<and>
   length frame = 8 + length p"
  by (auto simp: frame_payload_def dfile_frame_header_unpack_def bind_eq_Some_conv dfile_lens unat_eq_0
      split: if_splits dfile_unpacked.splits)

lemmas dfile_write = w_at_Some frame_payload_written

text \<open>Each kind of frame: what the encoder wrote, the decoder reads.\<close>

definition setting_ok :: "dfile_setting \<Rightarrow> bool" where
  "setting_ok s \<longleftrightarrow> length (ds_product_version s) \<le> 63 \<and> 0 \<notin> set (ds_product_version s)"

lemma decode_encode_setting:
  assumes "dfile_encode_setting out s = Some w" "setting_ok s"
  shows "dfile_decode_setting w = Some (Some s)"
proof -
  define n where "n = length (ds_product_version s)"
  have n: "n \<le> 63" using assms(2) by (simp add: n_def setting_ok_def)
  have pv: "c_string (take 63 (ds_product_version s @ replicate (64 - n) 0)) = ds_product_version s"
  proof (cases "n = 63")
    case True
    then have "take 63 (ds_product_version s @ replicate (64 - n) 0) = ds_product_version s" by (simp add: n_def)
    then show ?thesis using assms(2) by (simp add: c_string_id setting_ok_def)
  next
    case False
    then have "63 - n = Suc (62 - n)" using n by simp
    then have "take 63 (ds_product_version s @ replicate (64 - n) 0) = ds_product_version s @ 0 # replicate (62 - n) 0"
      using n by (simp add: n_def)
    then show ?thesis using assms(2) by (simp add: c_string_pad setting_ok_def)
  qed
  let ?p = "put_u16 (ds_mtu s) @ put_u16 (ds_conn_type s) @ put_u32 (ds_dfile_version s) @
     put_u32 (ds_abm_capability s) @ put_u32 (ds_capability s) @ put_u32 (ds_data_frame_size s) @
     put_u32 (ds_caps_check s) @ (ds_product_version s @ replicate (64 - n) 0) @
     [ds_is_support_160m s, ds_is_support_mtp s, ds_mtp_port s, ds_header_enc s] @
     put_u32 (ds_mtp_capability s) @ put_u32 (ds_cipher_capability s)"
  have len: "length ?p = 100" using n by (simp add: n_def)
  have w: "w = write_header out DFILE_FRAME_SETTING 0 0 100 @ ?p"
    using assms n by (auto simp: dfile_encode_setting_def w_at_Some Let_def min_def n_def [symmetric] dfile_lens
        split: if_splits option.splits)
  have fp: "frame_payload w DFILE_FRAME_SETTING = Some (Some (\<lparr>df_type = DFILE_FRAME_SETTING, df_flag = 0, df_session_id = 0,
      df_trans_id = 0, df_length = 100\<rparr>, ?p))"
    unfolding w using n by (intro frame_payload_written) (simp_all add: n_def dfile_lens)
  have t: "r_take 64 (Some ((ds_product_version s @ replicate (64 - n) 0) @ r)) =
      (Some (ds_product_version s @ replicate (64 - n) 0), Some r)" for r
    by (rule r_take_app) (use n in \<open>simp add: n_def\<close>)
  have t': "r_take 4 (Some (a # b # c # d # r)) = (Some [a, b, c, d], Some r)" for a b c d r
    using r_take_app [of "[a, b, c, d]" 4 r] by simp
  have pv': "c_string (take 63 (ds_product_version s) @ replicate (63 - length (ds_product_version s)) 0) = ds_product_version s"
    using pv n by (simp add: n_def min_def split: if_splits)
  show ?thesis
    using len by (simp add: dfile_decode_setting_def fp dfile_lens r_put r_put_Nil t t' pv' del: append_assoc)
qed

lemma r_ids_put: "r_ids (length ids) (Some (concat (map put_u16 ids) @ r)) = (ids, Some r)"
  by (induction ids) (simp_all add: r_put)

lemma w_ids_Some: "w_ids cap ids w = Some q \<Longrightarrow> \<exists>p. w = Some p \<and> q = p @ concat (map put_u16 ids)"
proof (induction ids arbitrary: w)
  case (Cons i ids)
  then show ?case by (fastforce simp: w_ids_def w_at_Some)
qed (simp add: w_ids_def)

lemma ids_length: "length (concat (map put_u16 ids)) = 2 * length ids"
  by (induction ids) simp_all

lemma decode_encode_idlist:
  assumes "dfile_encode_idlist out ty flag tr ids = Some w" "ids \<noteq> []"
  shows "dfile_decode_idlist w ty = Some (Some (tr, flag, ids))"
proof -
  let ?p = "concat (map put_u16 ids)"
  have n: "length ids \<le> 500" and w: "w = write_header out ty flag tr (of_nat (2 * length ids)) @ ?p"
    using assms by (auto simp: dfile_encode_idlist_def Let_def dfile_lens dest: w_ids_Some split: if_splits option.splits)
  have u: "unat (of_nat (2 * length ids) :: u16) = 2 * length ids" using n by (intro unat_of_nat_small) simp
  have "frame_payload w ty = Some (Some (\<lparr>df_type = ty, df_flag = flag, df_session_id = 0,
      df_trans_id = tr, df_length = of_nat (2 * length ids)\<rparr>, ?p))"
    unfolding w
  proof (rule frame_payload_written)
    show "of_nat (2 * length ids) \<noteq> (0 :: u16)" using u assms(2) by (metis length_greater_0_conv mult_pos_pos not_gr_zero unat_0 zero_less_numeral)
  qed (use n u in \<open>simp_all add: ids_length dfile_lens\<close>)
  then show ?thesis using n r_ids_put [of ids "[]"] by (simp add: dfile_decode_idlist_def ids_length dfile_lens)
qed

lemma decode_encode_rst:
  assumes "dfile_encode_rst out tr code ids = Some w"
  shows "dfile_decode_rst w = Some (Some (tr, code, ids))"
proof -
  let ?p = "put_u16 code @ concat (map put_u16 ids)"
  have n: "length ids \<le> 500" and w: "w = write_header out DFILE_FRAME_RST 0 tr (of_nat (2 + 2 * length ids)) @ ?p"
    using assms by (auto simp: dfile_encode_rst_def Let_def dfile_lens w_at_Some dest: w_ids_Some split: if_splits option.splits)
  have u: "unat (of_nat (2 + 2 * length ids) :: u16) = 2 + 2 * length ids" using n by (intro unat_of_nat_small) simp
  have "frame_payload w DFILE_FRAME_RST = Some (Some (\<lparr>df_type = DFILE_FRAME_RST, df_flag = 0, df_session_id = 0,
      df_trans_id = tr, df_length = of_nat (2 + 2 * length ids)\<rparr>, ?p))"
    unfolding w
  proof (rule frame_payload_written)
    show "of_nat (2 + 2 * length ids) \<noteq> (0 :: u16)" using u by (metis add_eq_0_iff_both_eq_0 unat_0 zero_neq_numeral)
  qed (use n u in \<open>simp_all add: ids_length dfile_lens\<close>)
  then show ?thesis using n r_ids_put [of ids "[]"] by (simp add: dfile_decode_rst_def ids_length dfile_lens r_put)
qed

lemma decode_encode_data:
  assumes "dfile_encode_data out tr flag fid seq d = Some w"
  shows "dfile_decode_data w = Some (Some (tr, flag, fid, seq, d)) \<and> length w = 14 + length d"
proof -
  let ?p = "put_u16 fid @ put_u32 seq @ d"
  have n: "14 + length d \<le> 14720" "8 \<le> length out" and w: "w = write_header out DFILE_FRAME_FILE_DATA flag tr (of_nat (6 + length d)) @ ?p"
    using assms by (auto simp: dfile_encode_data_def Let_def dfile_lens w_at_Some split: if_splits option.splits)
  have u: "unat (of_nat (6 + length d) :: u16) = 6 + length d" using n by (intro unat_of_nat_small) simp
  have "frame_payload w DFILE_FRAME_FILE_DATA = Some (Some (\<lparr>df_type = DFILE_FRAME_FILE_DATA, df_flag = flag, df_session_id = 0,
      df_trans_id = tr, df_length = of_nat (6 + length d)\<rparr>, ?p))"
    unfolding w
  proof (rule frame_payload_written)
    show "of_nat (6 + length d) \<noteq> (0 :: u16)" using u by (metis add_eq_0_iff_both_eq_0 unat_0 zero_neq_numeral)
  qed (use n u in \<open>simp_all add: dfile_lens\<close>)
  then show ?thesis using n by (simp add: dfile_decode_data_def r_put w write_header_length dfile_lens)
qed

text \<open>Acknowledgements: only the first entry of the second layout carries the feedback words.\<close>

definition ack_ok :: "bool \<Rightarrow> dfile_ack_entry list \<Rightarrow> bool" where
  "ack_ok v2 es \<longleftrightarrow> length es \<le> DFILE_MAX_ACK_ENTRIES \<and>
     (\<forall>e \<in> set (if v2 then tl es else es). ae_c e = 0 \<and> ae_d e = 0) \<and>
     (v2 \<longrightarrow> es \<noteq> [] \<longrightarrow> unat (ae_c (hd es)) < 2 ^ 16)"

lemma ack_entry_length [simp]: "length (ack_entry e) = 6"
  by (simp add: ack_entry_def)

lemma ack_entries_length: "length (concat (map ack_entry es)) = 6 * length es"
  by (induction es) simp_all

lemma ack_rest_written:
  "\<forall>e \<in> set es. ae_c e = 0 \<and> ae_d e = 0 \<Longrightarrow> off = length pre \<Longrightarrow>
   ack_rest (pre @ concat (map ack_entry es) @ post) off (length es) = Some (Some es)"
proof (induction es arbitrary: pre off)
  case (Cons e es)
  have r: "get_u16 (pre @ ack_entry e @ x) off = Some (ae_file_id e)"
    "get_u32 (pre @ ack_entry e @ x) (off + 2) = Some (ae_last_seq e)" for x
    using Cons.prems(2) by (simp_all add: ack_entry_def codec)
  have "ack_rest ((pre @ ack_entry e) @ concat (map ack_entry es) @ post) (off + 6) (length es) = Some (Some es)"
    using Cons.prems by (intro Cons.IH) auto
  then show ?case using Cons.prems r by simp
qed simp

lemma ucast_low16: "unat (c :: u32) < 2 ^ 16 \<Longrightarrow> ucast (ucast (c AND 0xffff) :: u16) = c"
proof -
  assume c: "unat c < 2 ^ 16"
  have m: "(0xffff :: u32) = mask 16" by (simp add: mask_eq_exp_minus_1)
  have "int (unat c) < 2 ^ 16" using c unfolding of_nat_less_iff [where 'a = int, symmetric] by (simp del: of_nat_unat)
  then have "uint c < 2 ^ 16" by (simp only: uint_nat)
  then have "c AND 0xffff = c" unfolding m by (simp only: mask_eq_iff)
  moreover have "ucast (ucast c :: u16) = c AND mask 16"
    by (rule bit_word_eqI) (auto simp: bit_simps)
  ultimately show ?thesis unfolding m by simp
qed

lemma ack_first_written:
  assumes "if v2 then unat (ae_c e) < 2 ^ 16 else ae_c e = 0 \<and> ae_d e = 0"
  shows "ack_first (ack_entry e @ (if v2 then put_u16 (ucast (ae_c e AND 0xffff)) @ put_u16 (ae_d e) @ z else []) @ x) v2 = Some e"
  using assms by (cases v2) (simp_all add: ack_first_def ack_entry_def codec ucast_low16)

lemma decode_encode_ack:
  assumes "dfile_encode_ack out v2 tr flag es = Some w" "ack_ok v2 es"
  shows "dfile_decode_ack w = Some (Some (tr, flag, v2, es))"
proof -
  define cf where "cf = (if v2 then 12 else 6) + 37 * length es"
  have n: "length es \<le> 39" using assms(2) by (simp add: ack_ok_def dfile_lens)
  then have "cf < 2 ^ 16" "cf < 0x5c1" by (simp_all add: cf_def)
  then have u: "unat (ack_count_field v2 (length es)) = cf"
    by (simp only: ack_count_field_def cf_def) (rule unat_of_nat_small, simp)
  let ?p = "ack_body v2 es @ replicate (cf - length (ack_body v2 es)) 0"
  have bl: "length (ack_body v2 es) \<le> cf"
    by (cases es) (auto simp: ack_body_def ack_entries_length cf_def)
  have w: "w = write_header out DFILE_FRAME_FILE_DATA_ACK flag tr (ack_count_field v2 (length es)) @ ?p"
    using assms(1) u by (auto simp: dfile_encode_ack_def Let_def split: if_splits)
  have "frame_payload w DFILE_FRAME_FILE_DATA_ACK = Some (Some (\<lparr>df_type = DFILE_FRAME_FILE_DATA_ACK, df_flag = flag,
      df_session_id = 0, df_trans_id = tr, df_length = ack_count_field v2 (length es)\<rparr>, ?p))"
    unfolding w
  proof (rule frame_payload_written)
    show "ack_count_field v2 (length es) \<noteq> 0" using u by (metis cf_def add_is_0 unat_0 zero_neq_numeral)
  qed (use bl u \<open>cf < 0x5c1\<close> in \<open>simp_all add: dfile_lens\<close>)
  moreover have "cf mod 37 = (if v2 then 12 else 6)" "(cf - (if v2 then 12 else 6)) div 37 = length es"
    by (simp_all add: cf_def)
  ultimately have d: "dfile_decode_ack w =
     (if length es = 0 then Some (Some (tr, flag, v2, []))
      else do {
        e \<leftarrow> ack_first ?p v2;
        r \<leftarrow> ack_rest ?p (if v2 then 12 else 6) (length es - 1);
        Some (map_option (\<lambda>es. (tr, flag, v2, e # es)) r) })"
    using u \<open>cf < 0x5c1\<close> by (cases v2; cases "es = []") (simp_all add: dfile_decode_ack_def Let_def)
  show ?thesis
  proof (cases es)
    case (Cons e es')
    let ?x = "if v2 then put_u16 (ucast (ae_c e AND 0xffff)) @ put_u16 (ae_d e) @ [0, 0] else []"
    have p: "?p = ack_entry e @ ?x @ concat (map ack_entry es') @ replicate (cf - length (ack_body v2 es)) 0"
      by (simp add: Cons ack_body_def)
    have "ack_first ?p v2 = Some e"
      unfolding p using assms(2) by (intro ack_first_written) (auto simp: ack_ok_def Cons)
    moreover have "ack_rest ((ack_entry e @ ?x) @ concat (map ack_entry es') @ replicate (cf - length (ack_body v2 es)) 0)
        (if v2 then 12 else 6) (length es') = Some (Some es')"
      using assms(2) by (intro ack_rest_written) (auto simp: ack_ok_def Cons)
    then have "ack_rest ?p (if v2 then 12 else 6) (length es') = Some (Some es')"
      unfolding p by (simp only: append_assoc)
    ultimately show ?thesis unfolding d by (cases v2) (simp_all add: Cons)
  qed (simp add: d)
qed

text \<open>File headers: the entries that were written come back.\<close>

definition entry_ok :: "dfile_header_entry \<Rightarrow> bool" where
  "entry_ok e \<longleftrightarrow> fe_file_id e \<noteq> 0 \<and> fe_name e \<noteq> [] \<and> 0 \<notin> set (fe_name e) \<and> length (fe_name e) < DFILE_MAX_FILE_NAME_LEN"

definition entry_bytes :: "dfile_header_entry \<Rightarrow> bytes" where
  "entry_bytes e = put_u16 (fe_file_id e) @ put_u64 (fe_file_size e) @ put_u16 (of_nat (length (fe_name e))) @ fe_name e"

lemma fh_write_Some:
  "fh_write cap es w = Some q \<Longrightarrow> \<exists>p. w = Some p \<and> q = p @ concat (map entry_bytes es) \<and> (es \<noteq> [] \<longrightarrow> 8 + length q \<le> cap)"
proof (induction es arbitrary: w)
  case (Cons e es)
  let ?w = "w_at cap (fe_name e) (w_at cap (put_u16 (of_nat (length (fe_name e))))
       (w_at cap (put_u64 (fe_file_size e)) (w_at cap (put_u16 (fe_file_id e)) w)))"
  obtain p where p: "?w = Some p" "q = p @ concat (map entry_bytes es)" "es \<noteq> [] \<longrightarrow> 8 + length q \<le> cap"
    using Cons.IH [of ?w] Cons.prems by auto
  then obtain p0 where "w = Some p0" "p = p0 @ entry_bytes e" "8 + length p \<le> cap"
    by (auto simp: w_at_Some entry_bytes_def dfile_lens)
  then show ?case using p by (cases "es = []") auto
qed simp

lemma fh_entries_written:
  "\<forall>e \<in> set es. entry_ok e \<Longrightarrow> n + length es \<le> cap \<Longrightarrow>
   fh_entries cap n (concat (map entry_bytes es)) = Some es"
proof (induction es arbitrary: n)
  case Nil
  then show ?case by (simp add: fh_entries.simps)
next
  case (Cons e es)
  let ?r = "concat (map entry_bytes es)"
  have e: "fe_file_id e \<noteq> 0" "fe_name e \<noteq> []" "0 \<notin> set (fe_name e)" "length (fe_name e) < 256"
    using Cons.prems(1) by (simp_all add: entry_ok_def dfile_lens)
  have u: "unat (of_nat (length (fe_name e)) :: u16) = length (fe_name e)"
    using e(4) by (intro unat_of_nat_small) simp
  then have nz: "of_nat (length (fe_name e)) \<noteq> (0 :: u16)" using e(2) by (metis length_0_conv unat_0)
  have ih: "fh_entries cap (n + 1) ?r = Some es" using Cons by simp
  have t: "r_take (length (fe_name e)) (Some (fe_name e @ ?r)) = (Some (fe_name e), Some ?r)"
    by (rule r_take_app) simp
  have c: "concat (map entry_bytes (e # es)) = put_u16 (fe_file_id e) @ put_u64 (fe_file_size e) @
     put_u16 (of_nat (length (fe_name e))) @ fe_name e @ ?r" by (simp add: entry_bytes_def)
  show ?case
    unfolding c using e nz ih Cons.prems(2)
    by (subst fh_entries.simps) (simp add: r_put u t c_string_id dfile_lens)
qed

lemma fh_fit_le: "fh_fit cap pos es = Some k \<Longrightarrow> k \<le> length es"
  by (induction cap pos es arbitrary: k rule: fh_fit.induct) (auto simp: Let_def split: if_splits)

lemma decode_encode_file_header:
  assumes "dfile_encode_file_header out tr node start es = Some (w, k)"
    and "\<forall>e \<in> set es. entry_ok e" "length out \<le> DFILE_FRAME_HEADER_LEN + DFILE_FRAME_MAX_LEN"
    and "node = 0 \<or> length es \<le> unat node"
  shows "dfile_decode_file_header w = Some (Some (tr, node, take k es)) \<and> 0 < k \<and> k \<le> length es"
proof -
  have es: "es \<noteq> []" "length es \<le> 500" and k: "fh_fit (length out) (DFILE_FRAME_HEADER_LEN + 2) es = Some k" "k \<noteq> 0"
    using assms(1) by (auto simp: dfile_encode_file_header_def dfile_lens split: if_splits option.splits)
  note le = fh_fit_le [OF k(1)]
  let ?p = "put_u16 node @ concat (map entry_bytes (take k es))"
  obtain q where q: "fh_write (length out) (take k es) (w_at (length out) (put_u16 node) (Some [])) = Some q"
    "w = write_header out DFILE_FRAME_FILE_HEADER 0 tr (of_nat (length q)) @ q"
    using assms(1) k by (auto simp: dfile_encode_file_header_def split: if_splits option.splits)
  have p: "q = ?p" "8 + length q \<le> length out"
    using fh_write_Some [OF q(1)] k(2) es(1) by (auto simp: w_at_Some)
  have len: "length q \<le> 29433" using p(2) assms(3) by (simp add: dfile_lens)
  then have u: "unat (of_nat (length q) :: u16) = length q" by (intro unat_of_nat_small) simp
  have "frame_payload w DFILE_FRAME_FILE_HEADER = Some (Some (\<lparr>df_type = DFILE_FRAME_FILE_HEADER, df_flag = 0, df_session_id = 0,
      df_trans_id = tr, df_length = of_nat (length q)\<rparr>, q))"
    unfolding q(2)
  proof (rule frame_payload_written)
    show "of_nat (length q) \<noteq> (0 :: u16)" using u p(1) by (metis add_is_0 length_append length_put(1) unat_0 zero_neq_numeral)
  qed (use len u in \<open>simp_all add: dfile_lens\<close>)
  moreover have "fh_entries (if 0 < node then unat node else 500) 0 (concat (map entry_bytes (take k es))) = Some (take k es)"
    using assms(2,4) le es(2) by (intro fh_entries_written) (auto dest: in_set_takeD simp: word_gt_0)
  ultimately show ?thesis using k(2) le by (simp add: dfile_decode_file_header_def p(1) r_put dfile_lens split: if_splits)
qed

text \<open>No decoder reads outside the frame.\<close>

lemma ack_rest_okay: "okay (ack_rest p off k) (\<lambda>_. True)"
  by (induction p off k rule: ack_rest.induct) (auto simp: okay_rules elim: okay_mono)

lemma ack_rest_length: "ack_rest p off k = Some (Some es) \<Longrightarrow> length es = k"
  by (induction p off k arbitrary: es rule: ack_rest.induct) (auto simp: bind_eq_Some_conv split: if_splits)

lemma r_ids_length: "r_ids n r = (ids, r') \<Longrightarrow> length ids = n"
  by (induction n r arbitrary: ids r' rule: r_ids.induct) (auto split: prod.splits)

lemma decode_setting_okay: "okay (dfile_decode_setting f) (\<lambda>_. True)"
  by (auto simp: dfile_decode_setting_def okay_rules Let_def split: option.splits prod.splits)

lemma decode_file_header_okay: "okay (dfile_decode_file_header f) (\<lambda>_. True)"
  by (auto simp: dfile_decode_file_header_def okay_rules split: option.splits prod.splits)

lemma decode_lists_okay: "okay (dfile_decode_idlist f ty) (\<lambda>_. True)" "okay (dfile_decode_rst f) (\<lambda>_. True)"
  "okay (dfile_decode_data f) (\<lambda>_. True)"
  by (auto simp: dfile_decode_idlist_def dfile_decode_rst_def dfile_decode_data_def okay_rules Let_def
      split: option.splits prod.splits)

lemma decode_ack_okay: "okay (dfile_decode_ack f) (\<lambda>_. True)"
proof -
  have first: "43 \<le> length p \<Longrightarrow> okay (ack_first p v2) (\<lambda>_. True)" for p v2
    by (auto simp: ack_first_def okay_rules)
  have big: "43 \<le> length p"
    if "frame_payload f DFILE_FRAME_FILE_DATA_ACK = Some (Some (h, p))" "(unat (df_length h) - (if v2 then 12 else 6)) div 37 \<noteq> 0" for h p v2
    using frame_payload_length [OF that(1)] that(2) by (cases v2) (simp_all add: div_eq_0_iff)
  show ?thesis
  proof (cases "frame_payload f DFILE_FRAME_FILE_DATA_ACK")
    case (Some fp)
    show ?thesis
    proof (cases fp)
      case None
      then show ?thesis using Some by (simp add: dfile_decode_ack_def okay_rules)
    next
      case hp: (Some hp)
      obtain h p where "hp = (h, p)" by (cases hp)
      then have f: "frame_payload f DFILE_FRAME_FILE_DATA_ACK = Some (Some (h, p))" using Some hp by simp
      let ?v2 = "unat (df_length h) mod 37 = 12"
      show ?thesis
      proof (cases "(unat (df_length h) - (if ?v2 then 12 else 6)) div 37 = 0")
        case True
        then show ?thesis by (cases ?v2) (simp_all add: dfile_decode_ack_def f Let_def okay_rules)
      next
        case False
        obtain e where e: "ack_first p ?v2 = Some e" using okayD [OF first [OF big [OF f False]]] by auto
        have r: "okay (ack_rest p off k) (\<lambda>r. P)" if P for off k P
          using ack_rest_okay that by (rule okay_mono)
        show ?thesis using False r e by (cases ?v2) (simp_all add: dfile_decode_ack_def f Let_def okay_rules)
      qed
    qed
  qed (use frame_payload_okay [of f DFILE_FRAME_FILE_DATA_ACK "\<lambda>_. True"] in \<open>simp add: okay_def\<close>)
qed

lemma fh_entries_bound:
  "fh_entries cap n bs = Some es \<Longrightarrow> n \<le> cap \<Longrightarrow> n + length es \<le> cap \<and> (\<forall>e \<in> set es. fe_file_id e \<noteq> 0 \<and>
     length (fe_name e) \<le> DFILE_MAX_FILE_NAME_LEN \<and> 0 \<notin> set (fe_name e))"
proof (induction cap n bs arbitrary: es rule: fh_entries.induct)
  case (1 cap n bs)
  show ?case
  proof (cases "es = []")
    case True
    then show ?thesis using 1(3) by simp
  next
    case False
    obtain i r1 where r1: "r_u16 (Some bs) = (i, r1)" by (cases "r_u16 (Some bs)")
    obtain sz r2 where r2: "r_u64 r1 = (sz, r2)" by (cases "r_u64 r1")
    obtain l r3 where r3: "r_u16 r2 = (l, r3)" by (cases "r_u16 r2")
    note r = r1 r2 r3
    obtain nm rest es' where e: "i \<noteq> 0" "unat l \<le> DFILE_MAX_FILE_NAME_LEN" "r_take (unat l) r3 = (Some nm, Some rest)"
      "n < cap" "fh_entries cap (n + 1) rest = Some es'" "es = \<lparr>fe_file_id = i, fe_file_size = sz, fe_name = c_string nm\<rparr> # es'"
      "bs \<noteq> []" "\<not> length bs < 12" "l \<noteq> 0"
      using 1(2) False by (subst (asm) fh_entries.simps) (auto simp: r Let_def split: if_splits option.splits prod.splits)
    have "length nm = unat l" using e(3) by (auto simp: r_take_def split: option.splits if_splits)
    then have nm: "length (c_string nm) \<le> DFILE_MAX_FILE_NAME_LEN"
      using e(2) length_takeWhile_le [of "\<lambda>c. c \<noteq> 0" nm] by (simp add: c_string_def)
    have "(n + 1) + length es' \<le> cap \<and> (\<forall>e \<in> set es'. fe_file_id e \<noteq> 0 \<and>
       length (fe_name e) \<le> DFILE_MAX_FILE_NAME_LEN \<and> 0 \<notin> set (fe_name e))"
      using 1(1) [OF e(7,8) r1 [symmetric] refl r2 [symmetric] refl r3 [symmetric] refl] e by simp
    then show ?thesis using e nm c_string_nul by simp
  qed
qed

lemma okay_total: "okay m P \<Longrightarrow> m \<noteq> None"
  by (cases m) (auto simp: okay_def)

lemmas decode_total = decode_setting_okay [THEN okay_total] decode_file_header_okay [THEN okay_total]
  decode_lists_okay [THEN okay_total] decode_ack_okay [THEN okay_total]

lemma decode_ack_bound:
  assumes "dfile_decode_ack f = Some (Some (tr, fl, v2, es))"
  shows "length es \<le> DFILE_MAX_ACK_ENTRIES"
proof -
  obtain h p where f: "frame_payload f DFILE_FRAME_FILE_DATA_ACK = Some (Some (h, p))"
    using assms by (auto simp: dfile_decode_ack_def bind_eq_Some_conv split: option.splits)
  define L where "L = unat (df_length h)"
  define c where "c = (if L mod 37 = 12 then 12 else 6 :: nat)"
  have L: "L < 0x5c1" using assms by (auto simp: dfile_decode_ack_def f Let_def L_def [symmetric] split: if_splits)
  then have n: "(L - c) div 37 \<le> 39" by (simp add: c_def)
  consider "es = []" | e es' where "es = e # es'" "(L - c) div 37 \<noteq> 0"
      "\<exists>off. ack_rest p off ((L - c) div 37 - 1) = Some (Some es')"
    using assms by (auto simp: dfile_decode_ack_def f Let_def L_def [symmetric] c_def bind_eq_Some_conv split: if_splits)
  then show ?thesis
  proof cases
    case 2
    then have "length es' = (L - c) div 37 - 1" using ack_rest_length by blast
    then show ?thesis using 2(1) n by (simp add: dfile_lens)
  qed simp
qed

lemma decode_rst_bound:
  assumes "dfile_decode_rst f = Some (Some (tr, code, ids))"
  shows "length ids \<le> DFILE_MAX_FILE_NUM"
proof -
  obtain h p where f: "frame_payload f DFILE_FRAME_RST = Some (Some (h, p))"
    using assms by (auto simp: dfile_decode_rst_def bind_eq_Some_conv split: option.splits)
  define n where "n = (length p - 2) div 2"
  obtain c r where c: "r_u16 (Some p) = (c, r)" by (cases "r_u16 (Some p)")
  obtain ids' r' where i: "r_ids n r = (ids', r')" by (cases "r_ids n r")
  have "n \<le> DFILE_MAX_FILE_NUM \<and> ids = ids'"
    using assms by (simp add: dfile_decode_rst_def f c Let_def n_def [symmetric] i split: if_splits option.splits)
  then show ?thesis using r_ids_length [OF i] by simp
qed

lemma decode_file_header_bound:
  assumes "dfile_decode_file_header f = Some (Some (tr, node, es))"
  shows "length es \<le> (if 0 < node then unat node else DFILE_MAX_FILE_NUM) \<and>
      (\<forall>e \<in> set es. fe_file_id e \<noteq> 0 \<and> length (fe_name e) \<le> DFILE_MAX_FILE_NAME_LEN \<and> 0 \<notin> set (fe_name e))"
proof -
  obtain h p where f: "frame_payload f DFILE_FRAME_FILE_HEADER = Some (Some (h, p))"
    using assms by (auto simp: dfile_decode_file_header_def bind_eq_Some_conv split: option.splits)
  obtain nd r where c: "r_u16 (Some p) = (nd, r)" by (cases "r_u16 (Some p)")
  define cap where "cap = (if 0 < nd then unat nd else DFILE_MAX_FILE_NUM)"
  obtain rest where "nd = node" "fh_entries cap 0 rest = Some es"
    using assms by (cases r) (auto simp: dfile_decode_file_header_def f c Let_def cap_def [symmetric] split: if_splits)
  then show ?thesis using fh_entries_bound [of cap 0 rest es] unfolding cap_def by auto
qed

lemma decode_data_bound:
  assumes "dfile_decode_data f = Some (Some (tr, fl, i, sq, d))"
  shows "length d + 14 = length f"
proof -
  obtain h p where f: "frame_payload f DFILE_FRAME_FILE_DATA = Some (Some (h, p))"
    using assms by (auto simp: dfile_decode_data_def bind_eq_Some_conv split: option.splits)
  have l: "6 \<le> length p" using assms by (auto simp: dfile_decode_data_def f split: if_splits)
  obtain a where a: "r_u16 (Some p) = (a, Some (drop 2 p))" using l by (simp add: r_u16_def r_take_def)
  obtain b where b: "r_u32 (Some (drop 2 p)) = (b, Some (drop 6 p))"
  proof -
    have "r_take 4 (Some (drop 2 p)) = (Some (take 4 (drop 2 p)), Some (drop 6 p))" using l by (simp add: r_take_def)
    then show ?thesis using that by (simp add: r_u32_def)
  qed
  have "d = drop 6 p" using assms l by (simp add: dfile_decode_data_def f a b Let_def)
  then show ?thesis using frame_payload_length [OF f] l by simp
qed

section \<open>The codecs as datagram codecs\<close>

definition dfile_buffer :: bytes where
  "dfile_buffer = replicate DFILE_FRAME_MAX_SIZE 0"

interpretation df_setting: datagram_codec "dfile_encode_setting dfile_buffer" dfile_decode_setting setting_ok
  by unfold_locales (use decode_total in \<open>auto dest: decode_encode_setting\<close>)

interpretation df_data: datagram_codec
  "\<lambda>(tr, fl, i, seq, d). dfile_encode_data dfile_buffer tr fl i seq d" dfile_decode_data "\<lambda>_. True"
  by unfold_locales (use decode_total in \<open>auto dest: decode_encode_data\<close>)

interpretation df_ack: datagram_codec
  "\<lambda>(tr, fl, v2, es). dfile_encode_ack dfile_buffer v2 tr fl es" dfile_decode_ack "\<lambda>(tr, fl, v2, es). ack_ok v2 es"
  by unfold_locales (use decode_total in \<open>auto dest: decode_encode_ack\<close>)

interpretation df_rst: datagram_codec
  "\<lambda>(tr, code, ids). dfile_encode_rst dfile_buffer tr code ids" dfile_decode_rst "\<lambda>_. True"
  by unfold_locales (use decode_total in \<open>auto dest: decode_encode_rst\<close>)

interpretation df_ids: datagram_codec
  "\<lambda>(tr, fl, ids). dfile_encode_idlist dfile_buffer ty fl tr ids" "\<lambda>f. dfile_decode_idlist f ty" "\<lambda>(tr, fl, ids). ids \<noteq> []"
  for ty
  by unfold_locales (use decode_total in \<open>auto dest: decode_encode_idlist\<close>)

section \<open>Properties\<close>



text \<open>
  File headers are written in batches: an encoder that accepts writes at least one entry, and
  the frame it writes decodes to exactly the entries it says it has written.
\<close>

lemma dfile_header_batch:
  assumes "dfile_encode_file_header out tr node start es = Some (w, k)"
    and "\<forall>e \<in> set es. entry_ok e" "length out \<le> DFILE_FRAME_HEADER_LEN + DFILE_FRAME_MAX_LEN"
    and "node = 0 \<or> length es \<le> unat node"
  shows "dfile_decode_file_header w = Some (Some (tr, node, take k es)) \<and> 0 < k \<and> k \<le> length es"
  using assms by (rule decode_encode_file_header)

lemma dfile_header_batch_witness:
  "\<exists>w. dfile_encode_file_header (replicate 40 0) 7 2 0 [\<lparr>fe_file_id = 1, fe_file_size = 9, fe_name = [0x61]\<rparr>,
        \<lparr>fe_file_id = 2, fe_file_size = 8, fe_name = replicate 20 0x62\<rparr>] = Some (w, 1) \<and>
     dfile_decode_file_header w = Some (Some (7, 2, [\<lparr>fe_file_id = 1, fe_file_size = 9, fe_name = [0x61]\<rparr>]))"
proof -
  let ?es = "[\<lparr>fe_file_id = 1, fe_file_size = 9, fe_name = [0x61]\<rparr>, \<lparr>fe_file_id = 2, fe_file_size = 8, fe_name = replicate 20 0x62\<rparr>]"
  obtain w where w: "dfile_encode_file_header (replicate 40 0) 7 2 0 ?es = Some (w, 1)"
    by (simp add: dfile_encode_file_header_def w_at_def Let_def dfile_lens)
  have ok: "\<forall>e \<in> set ?es. entry_ok e" by (simp add: entry_ok_def dfile_lens)
  show ?thesis using dfile_header_batch [OF w ok] w by (simp add: dfile_lens)
qed

text \<open>
  Whatever frame a peer sends, no decoder reads outside it, and what it hands out is within the
  limits the rest of the program relies on: at most 500 ids, at most 39 acknowledgements, entries
  with a non-zero id and a bounded name without NUL, no more of them than announced, and a data
  block inside the frame.
\<close>

lemma dfile_decoders_safe:
  "(\<exists>r. dfile_decode_setting f = Some r) \<and>
   (\<exists>r. dfile_decode_file_header f = Some r \<and> (\<forall>tr node es. r = Some (tr, node, es) \<longrightarrow>
      length es \<le> (if 0 < node then unat node else DFILE_MAX_FILE_NUM) \<and>
      (\<forall>e \<in> set es. fe_file_id e \<noteq> 0 \<and> length (fe_name e) \<le> DFILE_MAX_FILE_NAME_LEN \<and> 0 \<notin> set (fe_name e)))) \<and>
   (\<exists>r. dfile_decode_idlist f ty = Some r \<and> (\<forall>tr fl ids. r = Some (tr, fl, ids) \<longrightarrow> length ids \<le> DFILE_MAX_FILE_NUM)) \<and>
   (\<exists>r. dfile_decode_data f = Some r \<and> (\<forall>tr fl i seq d. r = Some (tr, fl, i, seq, d) \<longrightarrow> length d + 14 = length f)) \<and>
   (\<exists>r. dfile_decode_ack f = Some r \<and> (\<forall>tr fl v2 es. r = Some (tr, fl, v2, es) \<longrightarrow> length es \<le> DFILE_MAX_ACK_ENTRIES)) \<and>
   (\<exists>r. dfile_decode_rst f = Some r \<and> (\<forall>tr code ids. r = Some (tr, code, ids) \<longrightarrow> length ids \<le> DFILE_MAX_FILE_NUM))"
proof (intro conjI)
  obtain r where r: "dfile_decode_file_header f = Some r" using decode_total(2) by auto
  have "length es \<le> (if 0 < node then unat node else DFILE_MAX_FILE_NUM) \<and>
      (\<forall>e \<in> set es. fe_file_id e \<noteq> 0 \<and> length (fe_name e) \<le> DFILE_MAX_FILE_NAME_LEN \<and> 0 \<notin> set (fe_name e))"
    if "r = Some (tr, node, es)" for tr node es
    using r that decode_file_header_bound by blast
  then show "\<exists>r. dfile_decode_file_header f = Some r \<and> (\<forall>tr node es. r = Some (tr, node, es) \<longrightarrow>
      length es \<le> (if 0 < node then unat node else DFILE_MAX_FILE_NUM) \<and>
      (\<forall>e \<in> set es. fe_file_id e \<noteq> 0 \<and> length (fe_name e) \<le> DFILE_MAX_FILE_NAME_LEN \<and> 0 \<notin> set (fe_name e)))"
    using r by blast
next
  obtain r where r: "dfile_decode_idlist f ty = Some r" using decode_total(3) by auto
  have "length ids \<le> DFILE_MAX_FILE_NUM" if "r = Some (tr, fl, ids)" for tr fl ids
    using r that
    by (cases "frame_payload f ty")
      (auto simp: dfile_decode_idlist_def dest: r_ids_length split: option.splits if_splits prod.splits)
  then show "\<exists>r. dfile_decode_idlist f ty = Some r \<and> (\<forall>tr fl ids. r = Some (tr, fl, ids) \<longrightarrow> length ids \<le> DFILE_MAX_FILE_NUM)"
    using r by blast
next
  obtain r where r: "dfile_decode_data f = Some r" using decode_total(5) by auto
  have "length d + 14 = length f" if "r = Some (tr, fl, i, sq, d)" for tr fl i sq d
    using r that decode_data_bound by blast
  then show "\<exists>r. dfile_decode_data f = Some r \<and> (\<forall>tr fl i seq d. r = Some (tr, fl, i, seq, d) \<longrightarrow> length d + 14 = length f)"
    using r by blast
next
  obtain r where r: "dfile_decode_ack f = Some r" using decode_total(6) by auto
  have "length es \<le> DFILE_MAX_ACK_ENTRIES" if "r = Some (tr, fl, v2, es)" for tr fl v2 es
    using r that decode_ack_bound by blast
  then show "\<exists>r. dfile_decode_ack f = Some r \<and> (\<forall>tr fl v2 es. r = Some (tr, fl, v2, es) \<longrightarrow> length es \<le> DFILE_MAX_ACK_ENTRIES)"
    using r by blast
next
  obtain r where r: "dfile_decode_rst f = Some r" using decode_total(4) by auto
  have "length ids \<le> DFILE_MAX_FILE_NUM" if "r = Some (tr, code, ids)" for tr code ids
    using r that decode_rst_bound by blast
  then show "\<exists>r. dfile_decode_rst f = Some r \<and> (\<forall>tr code ids. r = Some (tr, code, ids) \<longrightarrow> length ids \<le> DFILE_MAX_FILE_NUM)"
    using r by blast
qed (use decode_total(1) in auto)

lemma dfile_decoders_safe_witness:
  "length [9 :: byte] + 14 = length [4 :: byte, 0, 0, 0, 0, 1, 0, 7, 0, 5, 0, 0, 0, 0, 9] \<and>
   dfile_decode_data [4, 0, 0, 0, 0, 1, 0, 7, 0, 5, 0, 0, 0, 0, 9] = Some (Some (1, 0, 5, 0, [9]))"
proof -
  let ?f = "[4, 0, 0, 0, 0, 1, 0, 7, 0, 5, 0, 0, 0, 0, 9] :: bytes"
  have d: "dfile_decode_data ?f = Some (Some (1, 0, 5, 0, [9]))"
    by (simp add: dfile_decode_data_def frame_payload_def dfile_frame_header_unpack_def get_u8_def
        get_u16_def get_u32_def r_u16_def r_u32_def r_take_def dfile_lens dfile_types)
  have "\<exists>r. dfile_decode_data ?f = Some r \<and>
      (\<forall>tr fl i seq d. r = Some (tr, fl, i, seq, d) \<longrightarrow> length d + 14 = length ?f)"
    using dfile_decoders_safe [of ?f] by blast
  then show ?thesis using d by auto
qed

text \<open>
  An id list without ids is announced as a frame of eight bytes whose header was never written:
  what goes out is whatever the caller's buffer held.
\<close>

lemma dfile_empty_idlist:
  assumes "DFILE_FRAME_HEADER_LEN \<le> length out"
  shows "dfile_encode_idlist out ty fl tr [] = Some (take DFILE_FRAME_HEADER_LEN out)"
  using assms by (simp add: dfile_encode_idlist_def w_ids_def write_header_def dfile_frame_header_pack_def dfile_lens)

lemma dfile_empty_idlist_witness: "dfile_encode_idlist (replicate 9 0xee) 6 0 1 [] = Some (replicate 8 0xee)"
  using dfile_empty_idlist [of "replicate 9 0xee" 6 0 1] by (simp add: dfile_lens)

end
