(* ===== verification/DfileConn.thy ===== *)
theory DfileConn
  imports DfileFrame TestFiles
begin

text \<open>
  The DFile connection engine (\<open>src/proto/dfile_conn.c\<close>): negotiation, the sender and the receiver
  of a file transfer, timers and teardown, as functions on one record.

  Every handler runs on the engine's thread, so a handler is a function of the state, and \<open>dc_io\<close>
  holds what the outside answers during it: the clock, the socket, the file system and the digest.
  Sent frames and callbacks are appended to \<open>dc_out\<close>.  An open file is the number of its inode,
  and \<open>dc_disk\<close> holds the content of the inodes the receiver writes, so that two names for one file
  are one file.  The handlers return \<open>None\<close> for undefined behaviour.  Message texts are not
  modelled; memory is never exhausted.
\<close>

definition DC_NEGOTIATE_TIMEOUT_MS :: u64 where "DC_NEGOTIATE_TIMEOUT_MS = 5000"
definition DC_TRANSFER_TIMEOUT_MS :: u64 where "DC_TRANSFER_TIMEOUT_MS = 30000"
definition DC_CTRL_RETRY_INTERVAL_MS :: u64 where "DC_CTRL_RETRY_INTERVAL_MS = 3000"
definition DC_CTRL_MAX_RETRIES :: u32 where "DC_CTRL_MAX_RETRIES = 3"
definition DC_RETRAN_INTERVAL_MS :: u64 where "DC_RETRAN_INTERVAL_MS = 500"
definition DC_SEND_BUDGET :: nat where "DC_SEND_BUDGET = 64"

lemmas dc_times = DC_NEGOTIATE_TIMEOUT_MS_def DC_TRANSFER_TIMEOUT_MS_def
  DC_CTRL_RETRY_INTERVAL_MS_def DC_CTRL_MAX_RETRIES_def DC_RETRAN_INTERVAL_MS_def DC_SEND_BUDGET_def

definition DFILE_MAX_FILE_SIZE :: u64 where "DFILE_MAX_FILE_SIZE = 0x7FFFFFFFFF"
definition DFILE_VERSION :: u32 where "DFILE_VERSION = 1"
definition DFILE_FLAG_DATA_CONTINUE :: byte where "DFILE_FLAG_DATA_CONTINUE = 1"
definition DFILE_FLAG_DATA_END :: byte where "DFILE_FLAG_DATA_END = 2"
definition DFILE_FLAG_DATA_RETRAN :: byte where "DFILE_FLAG_DATA_RETRAN = 4"
definition DFILE_RST_WITHOUT_SETTING :: u16 where "DFILE_RST_WITHOUT_SETTING = 201"
definition DFILE_RST_FILE_WRITE_ERROR :: u16 where "DFILE_RST_FILE_WRITE_ERROR = 202"
definition DFILE_RST_NO_ENOUGH_STORAGE :: u16 where "DFILE_RST_NO_ENOUGH_STORAGE = 204"
definition DFILE_RST_INTERNAL_ERROR :: u16 where "DFILE_RST_INTERNAL_ERROR = 209"
definition DFILE_RST_CANCEL :: u16 where "DFILE_RST_CANCEL = 210"

section \<open>State\<close>

datatype dc_state = DC_ST_NEGOTIATING | DC_ST_READY | DC_ST_CLOSING

datatype dc_phase =
    DC_PH_IDLE
  | DC_PH_TX_WAIT_CONFIRM_REQ
  | DC_PH_TX_SENDING
  | DC_PH_TX_WAIT_DONE
  | DC_PH_TX_DONE
  | DC_PH_RX_WAIT_DATA
  | DC_PH_RX_WAIT_DONEACK
  | DC_PH_RX_DONE
  | DC_PH_FAILED

text \<open>A path of the receiver is the pair that \<open>g_build_filename\<close> joins; \<open>cf_sha\<close> is what the
  digest has been fed.\<close>

record dc_file =
  cf_file_id :: u16
  cf_size :: u64
  cf_name :: cstr
  cf_fd :: "nat option"
  cf_total_blocks :: u32
  cf_next_seq :: u32
  cf_retrans :: "u32 list"
  cf_last_acked :: u32
  cf_acked_all :: bool
  cf_confirmed :: bool
  cf_dst_path :: "(cstr \<times> cstr) option"
  cf_expected_seq :: u32
  cf_write_complete :: bool
  cf_sha :: bytes
  cf_expected_sha :: "cstr option"

record dc_trans =
  dt_is_sender :: bool
  dt_trans_id :: u16
  dt_phase :: dc_phase
  dt_files :: "dc_file list"
  dt_node_number :: u16
  dt_hdr :: "dfile_header_entry list"
  dt_t0_ms :: u64
  dt_last_ctrl_ms :: u64
  dt_ctrl_retries :: u32
  dt_last_ack_ms :: u64
  dt_last_retran_ms :: u64
  dt_req_received :: bool
  dt_all_confirmed :: bool
  dt_done_received :: bool
  dt_doneack_sent :: bool
  dt_ack_pending :: bool
  dt_done_sent :: bool

text \<open>\<open>DcResult is_send ok\<close> is \<open>on_result\<close>.\<close>

datatype dc_out =
  DcFrame bytes | DcNegotiated | DcFileList "dfile_header_entry list" | DcResult bool bool | DcClosed

record dfile_conn =
  dc_state :: dc_state
  dc_t_connect_ms :: u64
  dc_local_setting_sent :: bool
  dc_peer_setting :: "dfile_setting option"
  dc_negotiated :: bool
  dc_block_size :: u32
  dc_tx :: "dc_trans option"
  dc_rx :: "dc_trans option"
  dc_next_trans_id :: u16
  dc_recv_dir :: "cstr option"
  dc_disk :: "nat \<Rightarrow> bytes"
  dc_out :: "dc_out list"

record dc_item =
  di_path :: cstr
  di_name :: "cstr option"
  di_size :: u64

text \<open>
  \<open>dio_fstat\<close> gives the size of a regular file, \<open>dio_pread\<close> what was read, \<open>dio_pwrite\<close> whether
  all was written; \<open>dio_send_back\<close> are the files the application's \<open>on_file_list\<close> passes to
  \<open>dfile_conn_send_files\<close>, if it does.
\<close>

record dc_io =
  dio_now :: u64
  dio_send :: "bytes \<Rightarrow> bool"
  dio_open_read :: "cstr \<Rightarrow> nat option"
  dio_fstat :: "nat \<Rightarrow> u64 option"
  dio_pread :: "nat \<Rightarrow> u64 \<Rightarrow> nat \<Rightarrow> bytes option"
  dio_create :: "cstr \<times> cstr \<Rightarrow> nat option"
  dio_truncate :: "nat \<Rightarrow> u64 \<Rightarrow> bool"
  dio_pwrite :: "nat \<Rightarrow> u64 \<Rightarrow> bytes \<Rightarrow> bool"
  dio_sha :: "bytes \<Rightarrow> cstr"
  dio_send_back :: "dc_item list option"

section \<open>Helpers\<close>

definition dc_emit :: "dc_out \<Rightarrow> dfile_conn \<Rightarrow> dfile_conn" where
  "dc_emit x c = c\<lparr>dc_out := dc_out c @ [x]\<rparr>"

text \<open>A buffer on the stack.  Its initial bytes never reach the wire, since no id list sent here is
  empty.\<close>

definition dc_buf :: "nat \<Rightarrow> bytes" where
  "dc_buf n = replicate n 0"

definition trans_new :: "bool \<Rightarrow> u16 \<Rightarrow> u64 \<Rightarrow> dc_trans" where
  "trans_new is_sender trans_id now =
     \<lparr>dt_is_sender = is_sender, dt_trans_id = trans_id, dt_phase = DC_PH_IDLE, dt_files = [],
      dt_node_number = 0, dt_hdr = [], dt_t0_ms = now, dt_last_ctrl_ms = now, dt_ctrl_retries = 0,
      dt_last_ack_ms = now, dt_last_retran_ms = 0, dt_req_received = False,
      dt_all_confirmed = False, dt_done_received = False, dt_doneack_sent = False,
      dt_ack_pending = False, dt_done_sent = False\<rparr>"

definition dc_send :: "dc_io \<Rightarrow> bytes \<Rightarrow> dfile_conn \<Rightarrow> dfile_conn \<times> bool" where
  "dc_send io frame c = (if dio_send io frame then (dc_emit (DcFrame frame) c, True) else (c, False))"

text \<open>Sending the frame an encoder returned, if it did.\<close>

definition dc_send_opt :: "dc_io \<Rightarrow> bytes option \<Rightarrow> dfile_conn \<Rightarrow> dfile_conn \<times> bool" where
  "dc_send_opt io frame c = (case frame of None \<Rightarrow> (c, False) | Some f \<Rightarrow> dc_send io f c)"

definition dc_send_rst :: "dc_io \<Rightarrow> u16 \<Rightarrow> u16 \<Rightarrow> u16 list \<Rightarrow> dfile_conn \<Rightarrow> dfile_conn" where
  "dc_send_rst io trans_id code ids c =
     fst (dc_send_opt io (dfile_encode_rst
       (dc_buf (DFILE_FRAME_HEADER_LEN + 2 + 2 * DFILE_MAX_FILE_NUM)) trans_id code ids) c)"

definition find_file :: "dc_trans \<Rightarrow> u16 \<Rightarrow> dc_file option" where
  "find_file t file_id = find (\<lambda>f. cf_file_id f = file_id) (dt_files t)"

text \<open>Writing through the pointer \<open>find_file\<close> returned: the first file of that id.\<close>

fun put_file :: "dc_file \<Rightarrow> dc_file list \<Rightarrow> dc_file list" where
  "put_file g [] = []"
| "put_file g (f # fs) = (if cf_file_id f = cf_file_id g then g # fs else f # put_file g fs)"

definition dc_trans_of :: "bool \<Rightarrow> dfile_conn \<Rightarrow> dc_trans option" where
  "dc_trans_of sender c = (if sender then dc_tx c else dc_rx c)"

definition dc_set_trans :: "bool \<Rightarrow> dc_trans \<Rightarrow> dfile_conn \<Rightarrow> dfile_conn" where
  "dc_set_trans sender t c = (if sender then c\<lparr>dc_tx := Some t\<rparr> else c\<lparr>dc_rx := Some t\<rparr>)"

definition dc_final :: "dc_phase \<Rightarrow> bool" where
  "dc_final ph \<longleftrightarrow> ph = DC_PH_FAILED \<or> ph = DC_PH_TX_DONE \<or> ph = DC_PH_RX_DONE"

text \<open>\<open>trans_fail\<close> on \<open>c->tx\<close> or \<open>c->rx\<close>.\<close>

definition trans_fail :: "dc_io \<Rightarrow> bool \<Rightarrow> bool \<Rightarrow> dfile_conn \<Rightarrow> dfile_conn" where
  "trans_fail io sender send_rst c =
     (case dc_trans_of sender c of
        None \<Rightarrow> c
      | Some t \<Rightarrow>
          if dc_final (dt_phase t) then c
          else
            let c1 = dc_set_trans sender (t\<lparr>dt_phase := DC_PH_FAILED\<rparr>) c;
                c2 = (if send_rst then dc_send_rst io (dt_trans_id t) DFILE_RST_CANCEL [] c1 else c1)
            in dc_emit (DcResult (dt_is_sender t) False) c2)"

definition shutdown_common :: "dc_io \<Rightarrow> dfile_conn \<Rightarrow> dfile_conn" where
  "shutdown_common io c =
     (if dc_state c = DC_ST_CLOSING then c
      else
        let c1 = c\<lparr>dc_state := DC_ST_CLOSING\<rparr>;
            c2 = trans_fail io True False c1;
            c3 = trans_fail io False False c2
        in dc_emit DcClosed c3)"

text \<open>\<open>(guint32)((size + block_size - 1) / block_size)\<close>, undefined for a block size of 0.\<close>

definition dc_blocks :: "u32 \<Rightarrow> u64 \<Rightarrow> u32 option" where
  "dc_blocks bs sz = (if bs = 0 then None else Some (ucast ((sz + ucast bs - 1) div ucast bs)))"

text \<open>The offset and the length of a block.\<close>

definition dc_block_off :: "u32 \<Rightarrow> u32 \<Rightarrow> u64" where
  "dc_block_off bs seq = ucast seq * ucast bs"

definition dc_block_want :: "u32 \<Rightarrow> u64 \<Rightarrow> u32 \<Rightarrow> nat" where
  "dc_block_want bs sz seq =
     (let want = sz - dc_block_off bs seq in if ucast bs < want then unat bs else unat want)"

section \<open>Sender\<close>

definition tx_all_sent :: "dc_trans \<Rightarrow> bool" where
  "tx_all_sent t \<longleftrightarrow> (\<forall>f \<in> set (dt_files t). \<not> (cf_next_seq f < cf_total_blocks f \<or> cf_retrans f \<noteq> []))"

definition tx_all_acked :: "dc_trans \<Rightarrow> bool" where
  "tx_all_acked t \<longleftrightarrow> (\<forall>f \<in> set (dt_files t). cf_acked_all f)"

text \<open>\<open>es\<close> are the entries from \<open>start\<close> on.\<close>

function tx_header_loop ::
  "dc_io \<Rightarrow> u16 \<Rightarrow> u16 \<Rightarrow> nat \<Rightarrow> dfile_header_entry list \<Rightarrow> dfile_conn \<Rightarrow> dfile_conn \<times> bool" where
  "tx_header_loop io tr node start es c =
     (if es = [] then (c, True)
      else case dfile_encode_file_header (dc_buf (DFILE_FRAME_MAX_SIZE + 16)) tr node start es of
        None \<Rightarrow> (c, False)
      | Some (frame, written) \<Rightarrow>
          if written = 0 then (c, False)
          else case dc_send io frame c of
            (c', ok) \<Rightarrow>
              if \<not> ok then (c', False)
              else tx_header_loop io tr node (start + written) (drop written es) c')"
  by pat_completeness auto
termination
  by (relation "measure (\<lambda>(io, tr, node, start, es, c). length es)") auto

declare tx_header_loop.simps [simp del]

definition cf_entry :: "dc_file \<Rightarrow> dfile_header_entry" where
  "cf_entry f = \<lparr>fe_file_id = cf_file_id f, fe_file_size = cf_size f, fe_name = cf_name f\<rparr>"

definition tx_send_header :: "dc_io \<Rightarrow> dc_trans \<Rightarrow> dfile_conn \<Rightarrow> dfile_conn \<times> bool" where
  "tx_send_header io t c =
     tx_header_loop io (dt_trans_id t) (of_nat (length (dt_files t))) 0 (map cf_entry (dt_files t)) c"

text \<open>The files of \<open>send_files_impl\<close>; the inner \<open>None\<close> is one of its errors.\<close>

fun dc_open_items :: "dc_io \<Rightarrow> u32 \<Rightarrow> nat \<Rightarrow> dc_item list \<Rightarrow> dc_file list option option" where
  "dc_open_items io bs i [] = Some (Some [])"
| "dc_open_items io bs i (it # its) =
     (case dio_open_read io (di_path it) of
        None \<Rightarrow> Some None
      | Some fd \<Rightarrow>
          (case dio_fstat io fd of
             None \<Rightarrow> Some None
           | Some sz \<Rightarrow>
               if di_size it \<noteq> 0 \<and> di_size it \<noteq> sz then Some None
               else if DFILE_MAX_FILE_SIZE < sz then Some None
               else do {
                 total_blocks \<leftarrow> dc_blocks bs sz;
                 r \<leftarrow> dc_open_items io bs (i + 1) its;
                 Some (map_option (\<lambda>fs.
                   \<lparr>cf_file_id = of_nat (i + 1), cf_size = sz,
                    cf_name = (case di_name it of Some n \<Rightarrow> n | None \<Rightarrow> bytes_of ''unnamed''),
                    cf_fd = Some fd, cf_total_blocks = total_blocks, cf_next_seq = 0,
                    cf_retrans = [], cf_last_acked = -1, cf_acked_all = (total_blocks = 0),
                    cf_confirmed = False, cf_dst_path = None, cf_expected_seq = 0,
                    cf_write_complete = False, cf_sha = [], cf_expected_sha = None\<rparr> # fs) r) }))"

definition send_files_impl ::
  "dc_io \<Rightarrow> dc_item list \<Rightarrow> dfile_conn \<Rightarrow> (dfile_conn \<times> bool) option" where
  "send_files_impl io items c =
     (if dc_state c \<noteq> DC_ST_READY then Some (c, False)
      else if dc_tx c \<noteq> None then Some (c, False)
      else if items = [] \<or> DFILE_MAX_FILE_NUM < length items then Some (c, False)
      else
        let t = trans_new True (dc_next_trans_id c) (dio_now io);
            c = c\<lparr>dc_next_trans_id := dc_next_trans_id c + 1\<rparr>
        in do {
          r \<leftarrow> dc_open_items io (dc_block_size c) 0 items;
          Some (case r of
            None \<Rightarrow> (c, False)
          | Some fs \<Rightarrow>
              let t = t\<lparr>dt_files := fs\<rparr>
              in case tx_send_header io t (c\<lparr>dc_tx := Some t\<rparr>) of
                (c, ok) \<Rightarrow>
                  if \<not> ok then (c\<lparr>dc_tx := None\<rparr>, False)
                  else (c\<lparr>dc_tx := Some (t\<lparr>dt_phase := DC_PH_TX_WAIT_CONFIRM_REQ,
                          dt_t0_ms := dio_now io, dt_last_ctrl_ms := dio_now io\<rparr>)\<rparr>, True)) })"

definition tx_block_flag :: "u32 \<Rightarrow> u32 \<Rightarrow> byte" where
  "tx_block_flag seq total_blocks =
     (let flag = (if seq \<noteq> 0 then DFILE_FLAG_DATA_CONTINUE else 0)
      in if seq + 1 = total_blocks then flag OR DFILE_FLAG_DATA_END else flag)"

text \<open>
  The loops of \<open>tx_pump\<close>.  The last result tells why a pump gave up: \<open>Some rst\<close> for a call of
  \<open>trans_fail\<close> with that \<open>send_rst\<close>.
\<close>

fun tx_new_blocks ::
  "dc_io \<Rightarrow> u32 \<Rightarrow> u16 \<Rightarrow> nat \<Rightarrow> dc_file \<Rightarrow> dfile_conn \<Rightarrow> dc_file \<times> dfile_conn \<times> nat \<times> bool option" where
  "tx_new_blocks io bs tr 0 f c = (f, c, 0, None)"
| "tx_new_blocks io bs tr (Suc budget) f c =
     (if \<not> cf_next_seq f < cf_total_blocks f then (f, c, Suc budget, None)
      else
        let seq = cf_next_seq f;
            off = dc_block_off bs seq;
            want = dc_block_want bs (cf_size f) seq
        in case dio_pread io (the (cf_fd f)) off want of
             None \<Rightarrow> (f, c, Suc budget, Some True)
           | Some block \<Rightarrow>
               if length block \<noteq> want then (f, c, Suc budget, Some True)
               else
                 case dc_send_opt io (dfile_encode_data (dc_buf (DFILE_FRAME_MAX_SIZE + 16)) tr
                        (tx_block_flag seq (cf_total_blocks f)) (cf_file_id f) seq block) c of
                   (c', ok) \<Rightarrow>
                     if \<not> ok then (f, c', Suc budget, Some False)
                     else tx_new_blocks io bs tr budget
                            (f\<lparr>cf_retrans := cf_retrans f @ [seq], cf_next_seq := seq + 1\<rparr>) c')"

definition tx_retransmit ::
  "dc_io \<Rightarrow> u32 \<Rightarrow> u16 \<Rightarrow> nat \<Rightarrow> u64 \<Rightarrow> dc_file \<Rightarrow> dfile_conn \<Rightarrow>
   dc_file \<times> dfile_conn \<times> nat \<times> u64 \<times> bool option" where
  "tx_retransmit io bs tr budget lastm f c =
     (case cf_retrans f of
        [] \<Rightarrow> (f, c, budget, lastm, None)
      | seq # rest \<Rightarrow>
          if 0 < budget \<and> (lastm = 0 \<or> DC_RETRAN_INTERVAL_MS \<le> dio_now io - lastm) then
            let off = dc_block_off bs seq;
                want = dc_block_want bs (cf_size f) seq
            in case dio_pread io (the (cf_fd f)) off want of
                 None \<Rightarrow> (f, c, budget, lastm, Some True)
               | Some block \<Rightarrow>
                   if length block \<noteq> want then (f, c, budget, lastm, Some True)
                   else case dc_send_opt io (dfile_encode_data (dc_buf (DFILE_FRAME_MAX_SIZE + 16)) tr
                               (DFILE_FLAG_DATA_RETRAN OR DFILE_FLAG_DATA_CONTINUE)
                               (cf_file_id f) seq block) c of
                     (c', ok) \<Rightarrow>
                       if \<not> ok then (f, c', budget, lastm, Some False)
                       else (f\<lparr>cf_retrans := rest\<rparr>, c', budget - 1, dio_now io, None)
          else (f, c, budget, lastm, None))"

fun tx_pump_files ::
  "dc_io \<Rightarrow> u32 \<Rightarrow> u16 \<Rightarrow> nat \<Rightarrow> u64 \<Rightarrow> dc_file list \<Rightarrow> dfile_conn \<Rightarrow>
   dc_file list \<times> dfile_conn \<times> u64 \<times> bool option" where
  "tx_pump_files io bs tr budget lastm [] c = ([], c, lastm, None)"
| "tx_pump_files io bs tr budget lastm (f # fs) c =
     (if budget = 0 then (f # fs, c, lastm, None)
      else if cf_total_blocks f \<le> cf_next_seq f \<and> cf_retrans f = [] then
        (case tx_pump_files io bs tr budget lastm fs c of (fs', r) \<Rightarrow> (f # fs', r))
      else case tx_new_blocks io bs tr budget f c of
        (f1, c1, budget1, Some rst) \<Rightarrow> (f1 # fs, c1, lastm, Some rst)
      | (f1, c1, budget1, None) \<Rightarrow>
          (case tx_retransmit io bs tr budget1 lastm f1 c1 of
             (f2, c2, budget2, lastm2, Some rst) \<Rightarrow> (f2 # fs, c2, lastm2, Some rst)
           | (f2, c2, budget2, lastm2, None) \<Rightarrow>
               (case tx_pump_files io bs tr budget2 lastm2 fs c2 of (fs', r) \<Rightarrow> (f2 # fs', r))))"

definition tx_pump :: "dc_io \<Rightarrow> dfile_conn \<Rightarrow> dfile_conn" where
  "tx_pump io c =
     (case dc_tx c of
        None \<Rightarrow> c
      | Some t \<Rightarrow>
          (case tx_pump_files io (dc_block_size c) (dt_trans_id t) DC_SEND_BUDGET (dt_last_retran_ms t)
                  (dt_files t) c of
             (fs, c1, lastm, failed) \<Rightarrow>
               let c2 = c1\<lparr>dc_tx := Some (t\<lparr>dt_files := fs, dt_last_retran_ms := lastm\<rparr>)\<rparr>
               in case failed of None \<Rightarrow> c2 | Some rst \<Rightarrow> trans_fail io True rst c2))"

definition dc_idlist :: "byte \<Rightarrow> u16 \<Rightarrow> u16 list \<Rightarrow> bytes option" where
  "dc_idlist ty tr ids =
     dfile_encode_idlist (dc_buf (DFILE_FRAME_HEADER_LEN + 2 * DFILE_MAX_FILE_NUM)) ty 0 tr ids"

definition tx_finish :: "dc_io \<Rightarrow> dfile_conn \<Rightarrow> dfile_conn" where
  "tx_finish io c =
     (case dc_tx c of
        None \<Rightarrow> c
      | Some t \<Rightarrow>
          if dt_doneack_sent t \<or> dt_phase t = DC_PH_TX_DONE \<or> dt_phase t = DC_PH_FAILED then c
          else case dc_send_opt io (dc_idlist DFILE_FRAME_FILE_TRANSFER_DONE_ACK (dt_trans_id t)
                      (map cf_file_id (dt_files t))) c of
            (c, ok) \<Rightarrow>
              if \<not> ok then trans_fail io True False c
              else dc_emit (DcResult True True)
                     (c\<lparr>dc_tx := Some (t\<lparr>dt_doneack_sent := True, dt_phase := DC_PH_TX_DONE\<rparr>)\<rparr>))"

definition dc_confirm :: "u16 list \<Rightarrow> dc_file list \<Rightarrow> dc_file list" where
  "dc_confirm ids fs =
     foldl (\<lambda>fs i. case find (\<lambda>f. cf_file_id f = i) fs of
              None \<Rightarrow> fs | Some f \<Rightarrow> put_file (f\<lparr>cf_confirmed := True\<rparr>) fs) fs ids"

definition tx_ctrl_update :: "dc_io \<Rightarrow> byte \<Rightarrow> u16 list \<Rightarrow> dc_trans \<Rightarrow> dc_trans" where
  "tx_ctrl_update io ty ids t =
     (let t1 = (if ty = DFILE_FRAME_FILE_HEADER_CONFIRM then
                  let fs = dc_confirm ids (dt_files t)
                  in t\<lparr>dt_files := fs, dt_all_confirmed := (\<forall>f \<in> set fs. cf_confirmed f)\<rparr>
                else t\<lparr>dt_req_received := True\<rparr>);
          t2 = t1\<lparr>dt_last_ctrl_ms := dio_now io\<rparr>
      in if dt_all_confirmed t2 \<and> dt_req_received t2 then t2\<lparr>dt_phase := DC_PH_TX_SENDING\<rparr> else t2)"

definition handle_tx_ctrl :: "dc_io \<Rightarrow> byte \<Rightarrow> bytes \<Rightarrow> dfile_conn \<Rightarrow> dfile_conn option" where
  "handle_tx_ctrl io ty frame c =
     (case dc_tx c of
        None \<Rightarrow> Some c
      | Some t \<Rightarrow>
          if dt_phase t \<noteq> DC_PH_TX_WAIT_CONFIRM_REQ then Some c
          else do {
            r \<leftarrow> dfile_decode_idlist frame ty;
            case r of
              None \<Rightarrow> Some (shutdown_common io c)
            | Some (trans_id, flag, ids) \<Rightarrow>
                if trans_id \<noteq> dt_trans_id t then Some (shutdown_common io c)
                else Some (c\<lparr>dc_tx := Some (tx_ctrl_update io ty ids t)\<rparr>) })"

definition dc_ack_file :: "u32 \<Rightarrow> dc_file \<Rightarrow> dc_file" where
  "dc_ack_file last_seq f =
     (if cf_last_acked f = -1 \<or> cf_last_acked f < last_seq then
        f\<lparr>cf_last_acked := last_seq,
          cf_retrans := dropWhile (\<lambda>s. s \<le> last_seq) (cf_retrans f),
          cf_acked_all := (cf_acked_all f \<or> cf_total_blocks f = 0 \<or> cf_total_blocks f \<le> last_seq + 1)\<rparr>
      else f)"

definition dc_ack_entries :: "dfile_ack_entry list \<Rightarrow> dc_file list \<Rightarrow> dc_file list" where
  "dc_ack_entries es fs =
     foldl (\<lambda>fs e. case find (\<lambda>f. cf_file_id f = ae_file_id e) fs of
              None \<Rightarrow> fs
            | Some f \<Rightarrow> if ae_last_seq e = -1 then fs else put_file (dc_ack_file (ae_last_seq e) f) fs)
       fs es"

definition handle_ack :: "dc_io \<Rightarrow> bytes \<Rightarrow> dfile_conn \<Rightarrow> dfile_conn option" where
  "handle_ack io frame c =
     (case dc_tx c of
        None \<Rightarrow> Some c
      | Some t \<Rightarrow>
          if dt_phase t \<noteq> DC_PH_TX_SENDING \<and> dt_phase t \<noteq> DC_PH_TX_WAIT_DONE then Some c
          else do {
            r \<leftarrow> dfile_decode_ack frame;
            case r of
              None \<Rightarrow> Some (shutdown_common io c)
            | Some (trans_id, flag, v2, es) \<Rightarrow>
                if trans_id \<noteq> dt_trans_id t then Some (shutdown_common io c)
                else
                  let t1 = t\<lparr>dt_last_ack_ms := dio_now io, dt_files := dc_ack_entries es (dt_files t)\<rparr>;
                      c1 = c\<lparr>dc_tx := Some t1\<rparr>
                  in Some (if dt_done_received t1 \<and> tx_all_acked t1 then tx_finish io c1 else c1) })"

definition handle_done :: "dc_io \<Rightarrow> bytes \<Rightarrow> dfile_conn \<Rightarrow> dfile_conn option" where
  "handle_done io frame c =
     (case dc_tx c of
        None \<Rightarrow> Some c
      | Some t \<Rightarrow>
          if dt_phase t = DC_PH_FAILED \<or> dt_phase t = DC_PH_TX_DONE then Some c
          else do {
            r \<leftarrow> dfile_decode_idlist frame DFILE_FRAME_FILE_TRANSFER_DONE;
            case r of
              None \<Rightarrow> Some (shutdown_common io c)
            | Some (trans_id, flag, ids) \<Rightarrow>
                if trans_id \<noteq> dt_trans_id t then Some (shutdown_common io c)
                else
                  let t1 = t\<lparr>dt_done_received := True\<rparr>;
                      t2 = (if dt_phase t1 = DC_PH_TX_SENDING then t1\<lparr>dt_phase := DC_PH_TX_WAIT_DONE\<rparr>
                            else t1);
                      c1 = c\<lparr>dc_tx := Some t2\<rparr>
                  in Some (if tx_all_acked t2 then tx_finish io c1 else c1) })"

section \<open>Receiver\<close>

definition rx_flush_ack :: "dc_io \<Rightarrow> dfile_conn \<Rightarrow> dfile_conn" where
  "rx_flush_ack io c =
     (case dc_rx c of
        None \<Rightarrow> c
      | Some t \<Rightarrow>
          let c1 = c\<lparr>dc_rx := Some (t\<lparr>dt_ack_pending := False\<rparr>)\<rparr>;
              es = take DFILE_MAX_ACK_ENTRIES
                     (map (\<lambda>f. \<lparr>ae_file_id = cf_file_id f, ae_last_seq = cf_expected_seq f - 1,
                                ae_c = 0, ae_d = 0\<rparr>)
                       (filter (\<lambda>f. 0 < cf_expected_seq f) (dt_files t)))
          in if es = [] then c1
             else case dc_send_opt io (dfile_encode_ack
                         (dc_buf (DFILE_FRAME_HEADER_LEN + 12 + 37 * DFILE_MAX_ACK_ENTRIES))
                         False (dt_trans_id t) 0 es) c1 of
               (c2, ok) \<Rightarrow> if \<not> ok then trans_fail io False False c2 else c2)"

definition ascii_tolower :: "byte \<Rightarrow> byte" where
  "ascii_tolower b = (if 0x41 \<le> b \<and> b \<le> 0x5a then b + 0x20 else b)"

text \<open>No file's digest differs from the one in its name, by \<open>g_ascii_strcasecmp\<close>.\<close>

definition rx_sha_ok :: "dc_io \<Rightarrow> dc_file \<Rightarrow> bool" where
  "rx_sha_ok io f =
     (case cf_expected_sha f of
        None \<Rightarrow> True
      | Some e \<Rightarrow> map ascii_tolower (dio_sha io (cf_sha f)) = map ascii_tolower e)"

definition rx_send_done :: "dc_io \<Rightarrow> dfile_conn \<Rightarrow> dfile_conn" where
  "rx_send_done io c =
     (case dc_rx c of
        None \<Rightarrow> c
      | Some t \<Rightarrow>
          if dt_done_sent t then c
          else if \<not> (\<forall>f \<in> set (dt_files t). rx_sha_ok io f) then
            trans_fail io False False (dc_send_rst io (dt_trans_id t) DFILE_RST_INTERNAL_ERROR [] c)
          else case dc_send_opt io (dc_idlist DFILE_FRAME_FILE_TRANSFER_DONE (dt_trans_id t)
                      (map cf_file_id (dt_files t))) c of
            (c1, ok) \<Rightarrow>
              if \<not> ok then trans_fail io False False c1
              else c1\<lparr>dc_rx := Some (t\<lparr>dt_done_sent := True, dt_phase := DC_PH_RX_WAIT_DONEACK\<rparr>)\<rparr>)"

definition handle_doneack :: "dc_io \<Rightarrow> bytes \<Rightarrow> dfile_conn \<Rightarrow> dfile_conn option" where
  "handle_doneack io frame c =
     (case dc_rx c of
        None \<Rightarrow> Some c
      | Some t \<Rightarrow>
          if dt_phase t \<noteq> DC_PH_RX_WAIT_DONEACK then Some c
          else do {
            r \<leftarrow> dfile_decode_idlist frame DFILE_FRAME_FILE_TRANSFER_DONE_ACK;
            case r of
              None \<Rightarrow> Some (shutdown_common io c)
            | Some (trans_id, flag, ids) \<Rightarrow>
                if trans_id \<noteq> dt_trans_id t then Some (shutdown_common io c)
                else Some (dc_emit (DcResult False True)
                       (c\<lparr>dc_rx := Some (t\<lparr>dt_phase := DC_PH_RX_DONE\<rparr>)\<rparr>)) })"

text \<open>The inner \<open>None\<close> is the failure of \<open>rx_open_file\<close>.\<close>

definition rx_open_file ::
  "dc_io \<Rightarrow> cstr \<Rightarrow> dfile_header_entry \<Rightarrow> dfile_conn \<Rightarrow> (dc_file option \<times> dfile_conn) option" where
  "rx_open_file io dir he c =
     (let path = (dir, fe_name he) in
      if DFILE_MAX_FILE_SIZE < fe_file_size he then Some (None, c)
      else case dio_create io path of
        None \<Rightarrow> Some (None, c)
      | Some fd \<Rightarrow>
          if \<not> dio_truncate io fd (fe_file_size he) then
            Some (None, c\<lparr>dc_disk := (dc_disk c)(fd := [])\<rparr>)
          else do {
            total_blocks \<leftarrow> dc_blocks (dc_block_size c) (fe_file_size he);
            Some (Some \<lparr>cf_file_id = fe_file_id he, cf_size = fe_file_size he, cf_name = fe_name he,
                        cf_fd = Some fd, cf_total_blocks = total_blocks, cf_next_seq = 0,
                        cf_retrans = [], cf_last_acked = 0, cf_acked_all = False,
                        cf_confirmed = False, cf_dst_path = Some path, cf_expected_seq = 0,
                        cf_write_complete = (total_blocks = 0), cf_sha = [],
                        cf_expected_sha = ft_testfile_name_sha (Some (fe_name he))\<rparr>,
                  c\<lparr>dc_disk := (dc_disk c)(fd := replicate (unat (fe_file_size he)) 0)\<rparr>) })"

text \<open>The loop of \<open>rx_header_complete\<close>: the files opened and whether it went through.\<close>

fun rx_open_files ::
  "dc_io \<Rightarrow> cstr \<Rightarrow> dfile_header_entry list \<Rightarrow> dfile_conn \<Rightarrow> (dc_file list \<times> bool \<times> dfile_conn) option" where
  "rx_open_files io dir [] c = Some ([], True, c)"
| "rx_open_files io dir (he # hes) c = do {
     (r, c1) \<leftarrow> rx_open_file io dir he c;
     case r of
       None \<Rightarrow> Some ([], False, c1)
     | Some f \<Rightarrow> do {
         (fs, ok, c2) \<leftarrow> rx_open_files io dir hes c1;
         Some (f # fs, ok, c2) } }"

text \<open>\<open>on_file_list\<close>, and what the application does in it.\<close>

definition rx_file_list :: "dc_io \<Rightarrow> dc_trans \<Rightarrow> dfile_conn \<Rightarrow> dfile_conn option" where
  "rx_file_list io t c =
     (let c1 = dc_emit (DcFileList (dt_hdr t)) c
      in case dio_send_back io of
           None \<Rightarrow> Some c1
         | Some items \<Rightarrow> map_option fst (send_files_impl io items c1))"

definition rx_confirm :: "dc_io \<Rightarrow> dc_trans \<Rightarrow> dfile_conn \<Rightarrow> dfile_conn" where
  "rx_confirm io t c =
     (let ids = map fe_file_id (dt_hdr t);
          (c1, sent1) = dc_send_opt io
            (dc_idlist DFILE_FRAME_FILE_HEADER_CONFIRM (dt_trans_id t) ids) c
      in if \<not> sent1 then trans_fail io False False c1
         else case dc_send_opt io
                     (dc_idlist DFILE_FRAME_FILE_TRANSFER_REQ (dt_trans_id t) ids) c1 of
           (c2, sent2) \<Rightarrow>
             if \<not> sent2 then trans_fail io False False c2
             else c2\<lparr>dc_rx := Some (t\<lparr>dt_phase := DC_PH_RX_WAIT_DATA\<rparr>)\<rparr>)"

definition rx_header_complete :: "dc_io \<Rightarrow> dfile_conn \<Rightarrow> dfile_conn option" where
  "rx_header_complete io c =
     (case dc_rx c of
        None \<Rightarrow> Some c
      | Some t \<Rightarrow>
          if dt_phase t \<noteq> DC_PH_IDLE then Some c
          else case dc_recv_dir c of
            None \<Rightarrow> Some (trans_fail io False False c)
          | Some dir \<Rightarrow> do {
              (fs, ok, c1) \<leftarrow> rx_open_files io dir (dt_hdr t) c;
              let t1 = t\<lparr>dt_files := fs\<rparr>;
                  c2 = c1\<lparr>dc_rx := Some t1\<rparr>
              in if \<not> ok then
                   Some (trans_fail io False False
                     (dc_send_rst io (dt_trans_id t) DFILE_RST_NO_ENOUGH_STORAGE [] c2))
                 else map_option (rx_confirm io t1) (rx_file_list io t1 c2) })"

text \<open>The accumulation of entries; \<open>False\<close> when there are more than announced.\<close>

fun rx_accept :: "nat \<Rightarrow> dfile_header_entry list \<Rightarrow> dfile_header_entry list \<Rightarrow>
    dfile_header_entry list \<times> bool" where
  "rx_accept node hdr [] = (hdr, True)"
| "rx_accept node hdr (e # es) =
     (if \<exists>h \<in> set hdr. fe_file_id h = fe_file_id e then rx_accept node hdr es
      else if node < length hdr + 1 then (hdr, False)
      else rx_accept node (hdr @ [e]) es)"

definition handle_file_header :: "dc_io \<Rightarrow> bytes \<Rightarrow> dfile_conn \<Rightarrow> dfile_conn option" where
  "handle_file_header io frame c =
     (if (case dc_rx c of None \<Rightarrow> False
          | Some t \<Rightarrow> dt_phase t = DC_PH_FAILED \<or> dt_phase t = DC_PH_RX_DONE) then Some c
      else do {
        r \<leftarrow> dfile_decode_file_header frame;
        case r of
          None \<Rightarrow> Some (shutdown_common io c)
        | Some (trans_id, node, ents) \<Rightarrow>
            if node = 0 then Some (shutdown_common io c)
            else
              let t = (case dc_rx c of
                         None \<Rightarrow> (trans_new False trans_id (dio_now io))\<lparr>dt_node_number := node\<rparr>
                       | Some t \<Rightarrow> t)
              in if dt_trans_id t \<noteq> trans_id \<or> dt_node_number t \<noteq> node then Some (shutdown_common io c)
                 else case rx_accept (unat node) (dt_hdr t) ents of
                   (hdr, ok) \<Rightarrow>
                     let c1 = c\<lparr>dc_rx := Some (t\<lparr>dt_hdr := hdr\<rparr>)\<rparr>
                     in if \<not> ok then Some (shutdown_common io c1)
                        else if unat node \<le> length hdr then rx_header_complete io c1
                        else Some c1 })"

text \<open>Refusing a data frame: a reset and the end of the connection.\<close>

definition rx_refuse :: "dc_io \<Rightarrow> u16 \<Rightarrow> u16 \<Rightarrow> dfile_conn \<Rightarrow> dfile_conn" where
  "rx_refuse io trans_id code c = shutdown_common io (dc_send_rst io trans_id code [] c)"

text \<open>What \<open>pwrite\<close> at an offset makes of a file.\<close>

definition dc_pwrite :: "bytes \<Rightarrow> nat \<Rightarrow> bytes \<Rightarrow> bytes" where
  "dc_pwrite file off d = take off (file @ replicate (off - length file) 0) @ d @ drop (off + length d) file"

definition handle_data :: "dc_io \<Rightarrow> bytes \<Rightarrow> dfile_conn \<Rightarrow> dfile_conn option" where
  "handle_data io frame c = do {
     r \<leftarrow> dfile_decode_data frame;
     case r of
       None \<Rightarrow> Some (shutdown_common io c)
     | Some (trans_id, flag, file_id, seq, pay) \<Rightarrow>
         (case dc_rx c of
            None \<Rightarrow> Some (rx_refuse io trans_id DFILE_RST_INTERNAL_ERROR c)
          | Some t \<Rightarrow>
              if dt_phase t \<noteq> DC_PH_RX_WAIT_DATA \<or> trans_id \<noteq> dt_trans_id t then
                Some (rx_refuse io trans_id DFILE_RST_INTERNAL_ERROR c)
              else case find_file t file_id of
                None \<Rightarrow> Some (rx_refuse io (dt_trans_id t) DFILE_RST_INTERNAL_ERROR c)
              | Some f \<Rightarrow>
                  if cf_total_blocks f \<le> seq then
                    Some (rx_refuse io (dt_trans_id t) DFILE_RST_INTERNAL_ERROR c)
                  else if seq < cf_expected_seq f then Some c
                  else if cf_expected_seq f < seq then
                    Some (rx_refuse io (dt_trans_id t) DFILE_RST_INTERNAL_ERROR c)
                  else
                    let off = dc_block_off (dc_block_size c) seq;
                        want = dc_block_want (dc_block_size c) (cf_size f) seq
                    in if length pay \<noteq> want then
                         Some (rx_refuse io (dt_trans_id t) DFILE_RST_INTERNAL_ERROR c)
                       else case cf_fd f of
                         None \<Rightarrow> Some (rx_refuse io (dt_trans_id t) DFILE_RST_FILE_WRITE_ERROR c)
                       | Some fd \<Rightarrow>
                           if \<not> dio_pwrite io fd off pay then
                             Some (rx_refuse io (dt_trans_id t) DFILE_RST_FILE_WRITE_ERROR c)
                           else
                             let f1 = f\<lparr>cf_sha := cf_sha f @ pay, cf_expected_seq := seq + 1\<rparr>;
                                 f2 = (if cf_total_blocks f \<le> seq + 1
                                       then f1\<lparr>cf_write_complete := True, cf_fd := None\<rparr> else f1)
                             in Some (c\<lparr>dc_disk := (dc_disk c)(fd := dc_pwrite (dc_disk c fd) (unat off) pay),
                                        dc_rx := Some (t\<lparr>dt_files := put_file f2 (dt_files t),
                                                         dt_ack_pending := True\<rparr>)\<rparr>)) }"

section \<open>Settings, resets and dispatch\<close>

definition dc_local_setting :: dfile_setting where
  "dc_local_setting =
     \<lparr>ds_mtu = of_nat DFILE_DEFAULT_FRAME_SIZE, ds_conn_type = 1, ds_dfile_version = DFILE_VERSION,
      ds_abm_capability = 0, ds_capability = 0, ds_data_frame_size = 0, ds_caps_check = 0,
      ds_product_version = bytes_of ''hwphonelink 0.1.0'', ds_is_support_160m = 0,
      ds_is_support_mtp = 0, ds_mtp_port = 0, ds_header_enc = 0, ds_mtp_capability = 0,
      ds_cipher_capability = 0\<rparr>"

definition dc_send_local_setting :: "dc_io \<Rightarrow> dfile_conn \<Rightarrow> dfile_conn" where
  "dc_send_local_setting io c =
     (if dc_local_setting_sent c then c
      else case dc_send_opt io (dfile_encode_setting
                  (dc_buf (DFILE_FRAME_HEADER_LEN + DFILE_SETTING_PAYLOAD_LEN)) dc_local_setting) c of
        (c1, ok) \<Rightarrow> if ok then c1\<lparr>dc_local_setting_sent := True\<rparr> else shutdown_common io c1)"

definition dc_pick_block :: "dfile_setting \<Rightarrow> u32" where
  "dc_pick_block s =
     (let max_block = of_nat (DFILE_FRAME_MAX_SIZE - DFILE_FRAME_HEADER_LEN - 6)
      in if DFILE_MIN_MTU_SIZE \<le> ds_data_frame_size s \<and> ds_data_frame_size s \<le> max_block
         then ds_data_frame_size s else of_nat DFILE_DEFAULT_FRAME_SIZE)"

definition handle_setting :: "dc_io \<Rightarrow> bytes \<Rightarrow> dfile_conn \<Rightarrow> dfile_conn option" where
  "handle_setting io frame c =
     (if dc_negotiated c then Some c
      else do {
        r \<leftarrow> dfile_decode_setting frame;
        case r of
          None \<Rightarrow> Some (shutdown_common io c)
        | Some s \<Rightarrow>
            if ds_mtu s = 0 then
              Some (shutdown_common io (dc_send_rst io 0 DFILE_RST_WITHOUT_SETTING [] c))
            else Some (dc_emit DcNegotiated
              (c\<lparr>dc_peer_setting := Some s, dc_block_size := dc_pick_block s, dc_negotiated := True,
                 dc_state := DC_ST_READY\<rparr>)) })"

definition handle_rst :: "dc_io \<Rightarrow> bytes \<Rightarrow> dfile_conn \<Rightarrow> dfile_conn option" where
  "handle_rst io frame c = do {
     r \<leftarrow> dfile_decode_rst frame;
     case r of
       None \<Rightarrow> Some (shutdown_common io c)
     | Some (trans_id, code, ids) \<Rightarrow>
         Some (if (case dc_tx c of None \<Rightarrow> False | Some t \<Rightarrow> dt_trans_id t = trans_id)
               then trans_fail io True False c
               else if (case dc_rx c of None \<Rightarrow> False | Some t \<Rightarrow> dt_trans_id t = trans_id)
               then trans_fail io False False c
               else c) }"

definition handle_frame :: "dc_io \<Rightarrow> bytes \<Rightarrow> dfile_conn \<Rightarrow> dfile_conn option" where
  "handle_frame io frame c = do {
     u \<leftarrow> dfile_frame_header_unpack frame;
     case u of
       UnpackShort \<Rightarrow> Some (shutdown_common io c)
     | UnpackBad \<Rightarrow> Some (shutdown_common io c)
     | UnpackOk h \<Rightarrow>
         let ty = df_type h in
         if ty = DFILE_FRAME_SETTING then handle_setting io frame c
         else if ty = DFILE_FRAME_FILE_HEADER then handle_file_header io frame c
         else if ty = DFILE_FRAME_FILE_HEADER_CONFIRM \<or> ty = DFILE_FRAME_FILE_TRANSFER_REQ
           then handle_tx_ctrl io ty frame c
         else if ty = DFILE_FRAME_FILE_DATA then handle_data io frame c
         else if ty = DFILE_FRAME_FILE_DATA_ACK then handle_ack io frame c
         else if ty = DFILE_FRAME_FILE_TRANSFER_DONE then handle_done io frame c
         else if ty = DFILE_FRAME_FILE_TRANSFER_DONE_ACK then handle_doneack io frame c
         else if ty = DFILE_FRAME_RST then handle_rst io frame c
         else Some c }"

section \<open>Tick\<close>

definition dc_expired :: "dc_io \<Rightarrow> dc_trans option \<Rightarrow> dc_phase \<Rightarrow> bool" where
  "dc_expired io tr done_phase =
     (case tr of
        None \<Rightarrow> False
      | Some t \<Rightarrow> dt_phase t \<noteq> done_phase \<and> dt_phase t \<noteq> DC_PH_FAILED \<and>
                  DC_TRANSFER_TIMEOUT_MS < dio_now io - dt_t0_ms t)"

definition dc_in_phase :: "dc_trans option \<Rightarrow> dc_phase set \<Rightarrow> bool" where
  "dc_in_phase tr phs = (case tr of None \<Rightarrow> False | Some t \<Rightarrow> dt_phase t \<in> phs)"

text \<open>The receiver's and the sender's part of \<open>on_tick\<close>.\<close>

definition on_tick_rx :: "dc_io \<Rightarrow> dfile_conn \<Rightarrow> dfile_conn" where
  "on_tick_rx io c =
     (if dc_in_phase (dc_rx c) {DC_PH_RX_WAIT_DATA} then
        let c1 = (if dt_ack_pending (the (dc_rx c)) then rx_flush_ack io c else c) in
        if dc_state c1 = DC_ST_CLOSING then c1
        else
          let t = the (dc_rx c1) in
          if \<not> dt_done_sent t \<and> dt_files t \<noteq> [] \<and> (\<forall>f \<in> set (dt_files t). cf_write_complete f)
          then rx_send_done io c1 else c1
      else c)"

definition on_tick_tx :: "dc_io \<Rightarrow> dfile_conn \<Rightarrow> dfile_conn" where
  "on_tick_tx io c =
     (if dc_in_phase (dc_tx c) {DC_PH_TX_SENDING, DC_PH_TX_WAIT_DONE} then
        let c1 = tx_pump io c in
        if dc_state c1 = DC_ST_CLOSING then c1
        else
          let t = the (dc_tx c1);
              t1 = (if dt_phase t = DC_PH_TX_SENDING \<and> tx_all_sent t
                    then t\<lparr>dt_phase := DC_PH_TX_WAIT_DONE\<rparr> else t);
              c2 = c1\<lparr>dc_tx := Some t1\<rparr>
          in if dt_done_received t1 \<and> tx_all_acked t1 then tx_finish io c2 else c2
      else c)"

definition on_tick_retry :: "dc_io \<Rightarrow> dfile_conn \<Rightarrow> dfile_conn" where
  "on_tick_retry io c =
     (case dc_tx c of
        None \<Rightarrow> c
      | Some t \<Rightarrow>
          if dt_phase t = DC_PH_TX_WAIT_CONFIRM_REQ \<and>
             DC_CTRL_RETRY_INTERVAL_MS < dio_now io - dt_last_ctrl_ms t then
            let t1 = t\<lparr>dt_ctrl_retries := dt_ctrl_retries t + 1\<rparr>;
                c1 = c\<lparr>dc_tx := Some t1\<rparr>
            in if DC_CTRL_MAX_RETRIES < dt_ctrl_retries t1 then trans_fail io True True c1
               else case tx_send_header io t1 c1 of
                 (c2, ok) \<Rightarrow>
                   if ok then c2\<lparr>dc_tx := Some (t1\<lparr>dt_last_ctrl_ms := dio_now io\<rparr>)\<rparr>
                   else trans_fail io True False c2
          else c)"

definition on_tick :: "dc_io \<Rightarrow> dfile_conn \<Rightarrow> dfile_conn" where
  "on_tick io c =
     (if dc_state c = DC_ST_CLOSING then c
      else if \<not> dc_negotiated c \<and> DC_NEGOTIATE_TIMEOUT_MS < dio_now io - dc_t_connect_ms c
      then shutdown_common io c
      else
        let c1 = (if dc_expired io (dc_tx c) DC_PH_TX_DONE then trans_fail io True True c else c);
            c2 = (if dc_expired io (dc_rx c1) DC_PH_RX_DONE then trans_fail io False True c1 else c1)
        in if dc_state c2 = DC_ST_CLOSING then c2
           else
             let c3 = on_tick_rx io c2 in
             if dc_state c3 = DC_ST_CLOSING then c3
             else
               let c4 = on_tick_tx io c3 in
               if dc_state c4 = DC_ST_CLOSING then c4 else on_tick_retry io c4)"

section \<open>Input\<close>

text \<open>
  The inner loop of \<open>dc_drain\<close>.  Only \<open>dc_drain\<close> uses \<open>rxbuf\<close>, which therefore stands beside the
  record: the loops return the connection and what is left in the buffer.
\<close>

function dc_frames :: "dc_io \<Rightarrow> bytes \<Rightarrow> dfile_conn \<Rightarrow> (dfile_conn \<times> bytes) option" where
  "dc_frames io buf c =
     (case dfile_frame_header_unpack buf of
        None \<Rightarrow> None
      | Some UnpackShort \<Rightarrow> Some (c, buf)
      | Some UnpackBad \<Rightarrow> Some (shutdown_common io c, buf)
      | Some (UnpackOk h) \<Rightarrow>
          let n = DFILE_FRAME_HEADER_LEN + unat (df_length h) in
          if length buf < n then Some (c, buf)
          else case handle_frame io (take n buf) c of
            None \<Rightarrow> None
          | Some c1 \<Rightarrow>
              if dc_state c1 = DC_ST_CLOSING then Some (c1, buf)
              else dc_frames io (drop n buf) c1)"
  by pat_completeness auto
termination
  by (relation "measure (\<lambda>(io, buf, c). length buf)") (auto simp: DFILE_FRAME_HEADER_LEN_def)

declare dc_frames.simps [simp del]

text \<open>What \<open>g_socket_receive\<close> returns until it would block.\<close>

datatype dc_recv = RecvData bytes | RecvEof | RecvError

fun dc_drain :: "dc_io \<Rightarrow> dc_recv list \<Rightarrow> dfile_conn \<times> bytes \<Rightarrow> (dfile_conn \<times> bytes) option" where
  "dc_drain io [] (c, buf) = Some (c, buf)"
| "dc_drain io (RecvData d # rs) (c, buf) =
     (case dc_frames io (buf @ d) c of
        None \<Rightarrow> None
      | Some (c1, buf1) \<Rightarrow>
          if dc_state c1 = DC_ST_CLOSING then Some (c1, buf1) else dc_drain io rs (c1, buf1))"
| "dc_drain io (RecvEof # rs) (c, buf) = Some (shutdown_common io c, buf)"
| "dc_drain io (RecvError # rs) (c, buf) = Some (shutdown_common io c, buf)"

section \<open>Life of a connection\<close>

definition dc_alloc :: "u64 \<Rightarrow> dfile_conn" where
  "dc_alloc now =
     \<lparr>dc_state = DC_ST_NEGOTIATING, dc_t_connect_ms = now,
      dc_local_setting_sent = False, dc_peer_setting = None, dc_negotiated = False,
      dc_block_size = 0, dc_tx = None, dc_rx = None, dc_next_trans_id = 1, dc_recv_dir = None,
      dc_disk = (\<lambda>_. []), dc_out = []\<rparr>"

definition dfile_conn_set_recv_dir :: "cstr option \<Rightarrow> dfile_conn \<Rightarrow> dfile_conn" where
  "dfile_conn_set_recv_dir dir c = c\<lparr>dc_recv_dir := dir\<rparr>"

definition close_impl :: "dc_io \<Rightarrow> dfile_conn \<Rightarrow> dfile_conn" where
  "close_impl io c = shutdown_common io c"

text \<open>What the engine's thread runs, one at a time.  \<open>shutdown_common\<close> destroys the sources of the
  input and of the tick, so a closing connection sees no more of them.\<close>

datatype dc_event = DcStart | DcInput "dc_recv list" | DcTick | DcSendFiles "dc_item list" | DcClose

definition dc_step :: "dc_io \<Rightarrow> dc_event \<Rightarrow> dfile_conn \<times> bytes \<Rightarrow> (dfile_conn \<times> bytes) option" where
  "dc_step io ev s =
     (let (c, buf) = s in
      case ev of
        DcStart \<Rightarrow> Some (dc_send_local_setting io c, buf)
      | DcInput rs \<Rightarrow> if dc_state c = DC_ST_CLOSING then Some s else dc_drain io rs s
      | DcTick \<Rightarrow> Some (on_tick io c, buf)
      | DcSendFiles items \<Rightarrow> map_option (\<lambda>(c1, ok). (c1, buf)) (send_files_impl io items c)
      | DcClose \<Rightarrow> Some (close_impl io c, buf))"

fun dc_run :: "(dc_io \<times> dc_event) list \<Rightarrow> dfile_conn \<times> bytes \<Rightarrow> (dfile_conn \<times> bytes) option" where
  "dc_run [] s = Some s"
| "dc_run ((io, ev) # evs) s = (case dc_step io ev s of None \<Rightarrow> None | Some s1 \<Rightarrow> dc_run evs s1)"

text \<open>A connection before its engine's thread has started.\<close>

definition dc_fresh :: "cstr option \<Rightarrow> u64 \<Rightarrow> dfile_conn \<times> bytes" where
  "dc_fresh dir now = (dfile_conn_set_recv_dir dir (dc_alloc now), [])"

text \<open>What evaluates a step on concrete input.\<close>

named_theorems dc_eval

lemmas [dc_eval] =
  handle_frame_def handle_setting_def handle_file_header_def handle_data_def handle_ack_def handle_done_def
  handle_doneack_def handle_tx_ctrl_def handle_rst_def tx_ctrl_update_def rx_header_complete_def rx_file_list_def
  rx_confirm_def rx_open_file_def dc_blocks_def dc_send_opt_def dc_send_def dc_emit_def dc_idlist_def
  dc_pick_block_def trans_new_def find_file_def dc_confirm_def dc_ack_entries_def dc_ack_file_def tx_all_acked_def
  tx_all_sent_def tx_finish_def rx_refuse_def dc_send_rst_def shutdown_common_def trans_fail_def dc_trans_of_def
  dc_set_trans_def dc_final_def dc_block_off_def dc_block_want_def dc_pwrite_def on_tick_def on_tick_rx_def
  on_tick_tx_def on_tick_retry_def dc_expired_def dc_in_phase_def rx_flush_ack_def rx_send_done_def rx_sha_ok_def
  tx_pump_def tx_retransmit_def tx_block_flag_def send_files_impl_def tx_send_header_def tx_header_loop.simps
  cf_entry_def dc_send_local_setting_def close_impl_def dc_step_def dc_fresh_def dc_alloc_def
  dfile_conn_set_recv_dir_def dc_frames.simps dc_times DFILE_MAX_FILE_SIZE_def DFILE_FLAG_DATA_CONTINUE_def
  DFILE_FLAG_DATA_END_def DFILE_FLAG_DATA_RETRAN_def DFILE_RST_CANCEL_def DFILE_RST_INTERNAL_ERROR_def Let_def

lemmas [dc_eval] =
  dfile_encode_idlist_def w_ids_def w_at_def write_header_def dfile_frame_header_pack_def
  dfile_encode_data_def dfile_encode_rst_def dfile_encode_ack_def ack_count_field_def ack_body_def ack_entry_def
  dfile_encode_file_header_def dfile_frame_header_unpack_def frame_payload_def dfile_decode_setting_def
  dfile_decode_file_header_def dfile_decode_idlist_def dfile_decode_data_def dfile_decode_ack_def
  dfile_decode_rst_def ack_first_def fh_entries.simps r_u16_def r_u32_def r_u64_def r_take_def c_string_def
  put_u16_def put_u32_def put_u64_def get_u8_def get_u16_def get_u32_def get_u64_def dfile_lens dfile_types
  ft_testfile_name_sha_def name_sha_def

lemma new_blocks_eval [dc_eval]:
  "tx_new_blocks io bs tr (numeral k) f c =
     (if \<not> cf_next_seq f < cf_total_blocks f then (f, c, numeral k, None)
      else case dio_pread io (the (cf_fd f)) (dc_block_off bs (cf_next_seq f)) (dc_block_want bs (cf_size f) (cf_next_seq f)) of
             None \<Rightarrow> (f, c, numeral k, Some True)
           | Some block \<Rightarrow>
               if length block \<noteq> dc_block_want bs (cf_size f) (cf_next_seq f) then (f, c, numeral k, Some True)
               else case dc_send_opt io (dfile_encode_data (dc_buf (DFILE_FRAME_MAX_SIZE + 16)) tr
                      (tx_block_flag (cf_next_seq f) (cf_total_blocks f)) (cf_file_id f) (cf_next_seq f) block) c of
                 (c', ok) \<Rightarrow>
                   if \<not> ok then (f, c', numeral k, Some False)
                   else tx_new_blocks io bs tr (pred_numeral k)
                          (f\<lparr>cf_retrans := cf_retrans f @ [cf_next_seq f], cf_next_seq := cf_next_seq f + 1\<rparr>) c')"
  by (simp only: numeral_eq_Suc tx_new_blocks.simps Let_def)

end
