(* ===== verification/DfileSafety.thy ===== *)
theory DfileSafety
  imports DfileConn
begin

text \<open>
  What every run of the connection engine keeps, whatever the peer sends and whatever the operating
  system answers: callbacks are reported once and agree with the phases, data is sent only behind
  the receiver's gate, the block size stays in its range and no handler runs into undefined
  behaviour once the settings have been exchanged.
\<close>

section \<open>Readings of the output\<close>

definition results :: "bool \<Rightarrow> dc_out list \<Rightarrow> bool list" where
  "results s os = concat (map (\<lambda>x. case x of DcResult s' ok \<Rightarrow> if s' = s then [ok] else [] | _ \<Rightarrow> []) os)"

definition sent_frames :: "dc_out list \<Rightarrow> bytes list" where
  "sent_frames os = concat (map (\<lambda>x. case x of DcFrame f \<Rightarrow> [f] | _ \<Rightarrow> []) os)"

definition closes :: "dc_out list \<Rightarrow> nat" where
  "closes os = length (filter (\<lambda>x. x = DcClosed) os)"

lemma outputs_Nil [simp]: "results s [] = []" "sent_frames [] = []" "closes [] = 0"
  by (simp_all add: results_def sent_frames_def closes_def)

lemma outputs_append [simp]:
  "results s (xs @ ys) = results s xs @ results s ys"
  "sent_frames (xs @ ys) = sent_frames xs @ sent_frames ys"
  "closes (xs @ ys) = closes xs + closes ys"
  by (simp_all add: results_def sent_frames_def closes_def)

lemma outputs_one [simp]:
  "results s [DcFrame f] = []" "results s [DcNegotiated] = []" "results s [DcFileList es] = []"
  "results s [DcClosed] = []" "results s [DcResult s' ok] = (if s' = s then [ok] else [])"
  "sent_frames [DcFrame f] = [f]" "sent_frames [DcNegotiated] = []" "sent_frames [DcFileList es] = []"
  "sent_frames [DcClosed] = []" "sent_frames [DcResult s' ok] = []"
  "closes [DcFrame f] = 0" "closes [DcNegotiated] = 0" "closes [DcFileList es] = 0"
  "closes [DcClosed] = 1" "closes [DcResult s' ok] = 0"
  by (simp_all add: results_def sent_frames_def closes_def)

lemma outputs_more [simp]:
  "results s (x # y # zs) = results s [x] @ results s (y # zs)"
  "sent_frames (x # y # zs) = sent_frames [x] @ sent_frames (y # zs)"
  "closes (x # y # zs) = closes [x] + closes (y # zs)"
  by (simp_all add: results_def sent_frames_def closes_def)

text \<open>The first byte of a frame is its type, or 0 when the header was not written.\<close>

lemma hd_dc_buf [simp]: "0 < n \<Longrightarrow> hd (dc_buf n) = 0" "length (dc_buf n) = n"
  by (cases n; simp add: dc_buf_def)+

lemma hd_write_header: "8 \<le> length out \<Longrightarrow> hd (write_header out ty fl tr len @ p) \<in> {ty, hd out}"
  by (cases out) (auto simp: write_header_def dfile_frame_header_pack_def dfile_lens split: option.splits)

lemma hd_frame:
  "8 \<le> n \<Longrightarrow> hd (write_header (dc_buf n) ty fl tr len @ p) \<noteq> 0 \<Longrightarrow>
   hd (write_header (dc_buf n) ty fl tr len @ p) = ty"
  using hd_write_header [of "dc_buf n" ty fl tr len p] by simp

lemma unpack_type: "dfile_frame_header_unpack f = Some (UnpackOk h) \<Longrightarrow> df_type h = hd f"
  by (cases f) (auto simp: dfile_frame_header_unpack_def bind_eq_Some_conv get_u8_def split: if_splits)

lemma idlist_type: "dc_idlist ty tr ids = Some w \<Longrightarrow> hd w \<in> {ty, 0}"
  by (auto intro!: hd_frame simp: dc_idlist_def dfile_encode_idlist_def Let_def dfile_lens split: if_splits option.splits)

lemma rst_type: "dfile_encode_rst (dc_buf n) tr code ids = Some w \<Longrightarrow> hd w \<in> {DFILE_FRAME_RST, 0}"
  by (auto intro!: hd_frame simp: dfile_encode_rst_def Let_def dfile_lens split: if_splits option.splits)

lemma data_type: "dfile_encode_data (dc_buf n) tr fl i s d = Some w \<Longrightarrow> hd w \<in> {DFILE_FRAME_FILE_DATA, 0}"
  by (auto intro!: hd_frame simp: dfile_encode_data_def Let_def dfile_lens split: if_splits option.splits)

lemma ack_type: "dfile_encode_ack (dc_buf n) v2 tr fl es = Some w \<Longrightarrow> hd w \<in> {DFILE_FRAME_FILE_DATA_ACK, 0}"
  by (auto intro!: hd_frame simp: dfile_encode_ack_def Let_def dfile_lens split: if_splits option.splits)

lemma setting_type: "dfile_encode_setting (dc_buf n) s = Some w \<Longrightarrow> hd w \<in> {DFILE_FRAME_SETTING, 0}"
  by (auto intro!: hd_frame simp: dfile_encode_setting_def Let_def dfile_lens split: if_splits option.splits)

lemma header_type:
  "dfile_encode_file_header (dc_buf n) tr node st es = Some (w, k) \<Longrightarrow> hd w \<in> {DFILE_FRAME_FILE_HEADER, 0}"
  by (auto intro!: hd_frame simp: dfile_encode_file_header_def dfile_lens w_at_Some dest!: fh_write_Some split: if_splits option.splits)

lemmas frame_types = idlist_type rst_type data_type ack_type setting_type header_type

section \<open>The invariant\<close>

definition outcome :: "dc_trans option \<Rightarrow> bool list" where
  "outcome tr =
     (case tr of
        None \<Rightarrow> []
      | Some t \<Rightarrow>
          if dt_phase t = DC_PH_FAILED then [False]
          else if dt_phase t = DC_PH_TX_DONE \<or> dt_phase t = DC_PH_RX_DONE then [True] else [])"

text \<open>The receiver's gate: every file confirmed and the transfer requested.\<close>

definition armed :: "dc_trans \<Rightarrow> bool" where
  "armed t \<longleftrightarrow> dt_req_received t \<and> dt_all_confirmed t \<and> (\<forall>f \<in> set (dt_files t). cf_confirmed f)"

definition tx_wf :: "dc_trans \<Rightarrow> bool" where
  "tx_wf t \<longleftrightarrow> dt_is_sender t \<and> (dt_all_confirmed t \<longrightarrow> (\<forall>f \<in> set (dt_files t). cf_confirmed f)) \<and>
     dt_phase t \<in> {DC_PH_IDLE, DC_PH_TX_WAIT_CONFIRM_REQ, DC_PH_TX_SENDING, DC_PH_TX_WAIT_DONE,
                   DC_PH_TX_DONE, DC_PH_FAILED} \<and>
     (dt_phase t \<in> {DC_PH_TX_SENDING, DC_PH_TX_WAIT_DONE} \<longrightarrow> armed t)"

definition rx_wf :: "dc_trans \<Rightarrow> bool" where
  "rx_wf t \<longleftrightarrow> \<not> dt_is_sender t \<and>
     dt_phase t \<in> {DC_PH_IDLE, DC_PH_RX_WAIT_DATA, DC_PH_RX_WAIT_DONEACK, DC_PH_RX_DONE, DC_PH_FAILED}"

definition opt_all :: "('a \<Rightarrow> bool) \<Rightarrow> 'a option \<Rightarrow> bool" where
  "opt_all P x \<longleftrightarrow> (\<forall>y. x = Some y \<longrightarrow> P y)"

lemma opt_all_simps [simp]: "opt_all P None" "opt_all P (Some y) = P y"
  by (simp_all add: opt_all_def)

definition gate_ok :: "dfile_conn \<Rightarrow> bool" where
  "gate_ok c \<longleftrightarrow> (\<forall>f \<in> set (sent_frames (dc_out c)). hd f = DFILE_FRAME_FILE_DATA \<longrightarrow>
     (\<exists>t. dc_tx c = Some t \<and> armed t))"

definition block_ok :: "dfile_conn \<Rightarrow> bool" where
  "block_ok c \<longleftrightarrow> (dc_negotiated c \<longrightarrow> 64 \<le> dc_block_size c \<and> dc_block_size c \<le> 14706) \<and>
     (\<not> dc_negotiated c \<longrightarrow> dc_block_size c = 0 \<and> dc_state c \<noteq> DC_ST_READY)"

definition dc_core :: "dfile_conn \<Rightarrow> bool" where
  "dc_core c \<longleftrightarrow> results True (dc_out c) = outcome (dc_tx c) \<and>
     results False (dc_out c) = outcome (dc_rx c) \<and> opt_all tx_wf (dc_tx c) \<and>
     opt_all rx_wf (dc_rx c) \<and> gate_ok c \<and> block_ok c"

definition dc_closing :: "dfile_conn \<Rightarrow> bool" where
  "dc_closing c \<longleftrightarrow> closes (dc_out c) = (if dc_state c = DC_ST_CLOSING then 1 else 0) \<and>
     (dc_state c = DC_ST_CLOSING \<longrightarrow> opt_all (\<lambda>t. dc_final (dt_phase t)) (dc_tx c) \<and>
        opt_all (\<lambda>t. dc_final (dt_phase t)) (dc_rx c))"

definition dc_inv :: "dfile_conn \<Rightarrow> bool" where
  "dc_inv c \<longleftrightarrow> dc_core c \<and> dc_closing c"

lemmas inv_defs = dc_core_def outcome_def gate_ok_def block_ok_def tx_wf_def rx_wf_def armed_def

text \<open>Emitting a frame that carries no data.\<close>

lemma emit_same [simp]:
  "dc_state (dc_emit x c) = dc_state c" "dc_tx (dc_emit x c) = dc_tx c" "dc_rx (dc_emit x c) = dc_rx c"
  "dc_block_size (dc_emit x c) = dc_block_size c" "dc_negotiated (dc_emit x c) = dc_negotiated c"
  "dc_out (dc_emit x c) = dc_out c @ [x]" "dc_recv_dir (dc_emit x c) = dc_recv_dir c"
  "dc_disk (dc_emit x c) = dc_disk c"
  "dc_next_trans_id (dc_emit x c) = dc_next_trans_id c"
  by (simp_all add: dc_emit_def)

lemma core_frame: "dc_core c \<Longrightarrow> hd f \<noteq> DFILE_FRAME_FILE_DATA \<Longrightarrow> dc_core (dc_emit (DcFrame f) c)"
  by (auto simp: dc_core_def gate_ok_def block_ok_def)

lemma closing_frame: "dc_closing c \<Longrightarrow> dc_closing (dc_emit (DcFrame f) c)"
  by (simp add: dc_closing_def)

text \<open>What a send leaves: the state, with the frame in the output when it went through.\<close>

lemma send_opt_cases:
  assumes "dc_send_opt io fo c = (c', ok)"
  obtains "c' = c" "\<not> ok" | f where "fo = Some f" "dio_send io f" "ok" "c' = dc_emit (DcFrame f) c"
  using assms by (auto simp: dc_send_opt_def dc_send_def split: option.splits if_splits)

lemma inv_send_opt:
  assumes "dc_send_opt io fo c = (c', ok)" "\<And>f. fo = Some f \<Longrightarrow> hd f \<noteq> DFILE_FRAME_FILE_DATA"
  shows "dc_core c \<Longrightarrow> dc_core c'" "dc_closing c \<Longrightarrow> dc_closing c'"
    "dc_state c' = dc_state c" "dc_tx c' = dc_tx c" "dc_rx c' = dc_rx c"
    "dc_block_size c' = dc_block_size c" "dc_negotiated c' = dc_negotiated c"
    "results s (dc_out c') = results s (dc_out c)" "closes (dc_out c') = closes (dc_out c)"
  using assms(2) by (cases rule: send_opt_cases [OF assms(1)]; auto simp: core_frame closing_frame)+

lemma not_data: "hd f \<in> {ty, 0} \<Longrightarrow> ty \<noteq> DFILE_FRAME_FILE_DATA \<Longrightarrow> hd f \<noteq> DFILE_FRAME_FILE_DATA"
  by (auto simp: dfile_types)

lemma idlist_not_data: "dc_idlist ty tr ids = Some f \<Longrightarrow> ty \<noteq> DFILE_FRAME_FILE_DATA \<Longrightarrow> hd f \<noteq> DFILE_FRAME_FILE_DATA"
  by (rule not_data [OF idlist_type])

lemma rst_not_data: "dfile_encode_rst (dc_buf n) tr code ids = Some f \<Longrightarrow> hd f \<noteq> DFILE_FRAME_FILE_DATA"
  by (rule not_data [OF rst_type]) (auto simp: dfile_types)

lemma ack_not_data: "dfile_encode_ack (dc_buf n) v2 tr fl es = Some f \<Longrightarrow> hd f \<noteq> DFILE_FRAME_FILE_DATA"
  by (rule not_data [OF ack_type]) (auto simp: dfile_types)

lemma header_not_data: "dfile_encode_file_header (dc_buf n) tr node st es = Some (f, k) \<Longrightarrow> hd f \<noteq> DFILE_FRAME_FILE_DATA"
  by (rule not_data [OF header_type]) (auto simp: dfile_types)

lemma setting_not_data: "dfile_encode_setting (dc_buf n) s = Some f \<Longrightarrow> hd f \<noteq> DFILE_FRAME_FILE_DATA"
  by (rule not_data [OF setting_type]) (auto simp: dfile_types)

lemma inv_send_rst:
  shows "dc_core c \<Longrightarrow> dc_core (dc_send_rst io tr code ids c)"
    "dc_closing c \<Longrightarrow> dc_closing (dc_send_rst io tr code ids c)"
    "dc_state (dc_send_rst io tr code ids c) = dc_state c" "dc_tx (dc_send_rst io tr code ids c) = dc_tx c"
    "dc_rx (dc_send_rst io tr code ids c) = dc_rx c"
    "dc_block_size (dc_send_rst io tr code ids c) = dc_block_size c"
    "dc_negotiated (dc_send_rst io tr code ids c) = dc_negotiated c"
    "results s (dc_out (dc_send_rst io tr code ids c)) = results s (dc_out c)"
    "closes (dc_out (dc_send_rst io tr code ids c)) = closes (dc_out c)"
proof -
  obtain c' ok where s: "dc_send_opt io (dfile_encode_rst (dc_buf (DFILE_FRAME_HEADER_LEN + 2 + 2 * DFILE_MAX_FILE_NUM)) tr code ids) c = (c', ok)"
    by fastforce
  have "dc_send_rst io tr code ids c = c'" by (simp only: dc_send_rst_def s fst_conv)
  note this [simp]
  note i = inv_send_opt [OF s rst_not_data]
  show "dc_core c \<Longrightarrow> dc_core (dc_send_rst io tr code ids c)"
    "dc_closing c \<Longrightarrow> dc_closing (dc_send_rst io tr code ids c)"
    "dc_state (dc_send_rst io tr code ids c) = dc_state c" "dc_tx (dc_send_rst io tr code ids c) = dc_tx c"
    "dc_rx (dc_send_rst io tr code ids c) = dc_rx c"
    "dc_block_size (dc_send_rst io tr code ids c) = dc_block_size c"
    "dc_negotiated (dc_send_rst io tr code ids c) = dc_negotiated c"
    "results s (dc_out (dc_send_rst io tr code ids c)) = results s (dc_out c)"
    "closes (dc_out (dc_send_rst io tr code ids c)) = closes (dc_out c)"
    using i by simp_all
qed

lemmas rst_same [simp] = inv_send_rst(3-9)

text \<open>A failed transfer.\<close>

lemma fail_cases:
  obtains "trans_fail io s rst c = c" "opt_all (\<lambda>t. dc_final (dt_phase t)) (dc_trans_of s c)"
  | t c1 where "dc_trans_of s c = Some t" "\<not> dc_final (dt_phase t)"
      "c1 = dc_set_trans s (t\<lparr>dt_phase := DC_PH_FAILED\<rparr>) c"
      "trans_fail io s rst c = dc_emit (DcResult (dt_is_sender t) False)
         (if rst then dc_send_rst io (dt_trans_id t) DFILE_RST_CANCEL [] c1 else c1)"
  by (cases "dc_trans_of s c") (auto simp: trans_fail_def Let_def)

lemma fail_same [simp]:
  "dc_state (trans_fail io s rst c) = dc_state c"
  "dc_block_size (trans_fail io s rst c) = dc_block_size c"
  "dc_negotiated (trans_fail io s rst c) = dc_negotiated c"
  "closes (dc_out (trans_fail io s rst c)) = closes (dc_out c)"
  "dc_trans_of (\<not> s) (trans_fail io s rst c) = dc_trans_of (\<not> s) c"
  by (cases rule: fail_cases [of io s rst c]; simp add: dc_set_trans_def dc_trans_of_def)+

lemma fail_final: "opt_all (\<lambda>t. dc_final (dt_phase t)) (dc_trans_of s (trans_fail io s rst c))"
  by (cases rule: fail_cases [of io s rst c]; simp add: dc_set_trans_def dc_trans_of_def dc_final_def)

lemma final_tx_wf: "tx_wf t \<Longrightarrow> tx_wf (t\<lparr>dt_phase := DC_PH_FAILED\<rparr>)"
  by (auto simp: tx_wf_def)

lemma core_set_failed:
  assumes "dc_core c" "dc_trans_of s c = Some t" "\<not> dc_final (dt_phase t)"
  shows "dc_core (dc_emit (DcResult (dt_is_sender t) False) (dc_set_trans s (t\<lparr>dt_phase := DC_PH_FAILED\<rparr>) c))"
  using assms by (cases s) (auto simp: dc_core_def outcome_def gate_ok_def block_ok_def tx_wf_def rx_wf_def armed_def
      dc_set_trans_def dc_trans_of_def dc_final_def)

lemma core_swap:
  "dc_core (dc_emit x c) \<Longrightarrow> hd f \<noteq> DFILE_FRAME_FILE_DATA \<Longrightarrow> dc_core (dc_emit x (dc_emit (DcFrame f) c))"
  by (auto simp: dc_core_def gate_ok_def block_ok_def)

lemma core_swap_rst: "dc_core (dc_emit x c) \<Longrightarrow> dc_core (dc_emit x (dc_send_rst io tr code ids c))"
proof -
  assume a: "dc_core (dc_emit x c)"
  obtain c' ok where s: "dc_send_opt io (dfile_encode_rst (dc_buf (DFILE_FRAME_HEADER_LEN + 2 + 2 * DFILE_MAX_FILE_NUM)) tr code ids) c = (c', ok)"
    by fastforce
  then have "dc_send_rst io tr code ids c = c'" by (simp only: dc_send_rst_def s fst_conv)
  then show ?thesis
    by (cases rule: send_opt_cases [OF s]) (use a in \<open>auto intro!: core_swap dest: rst_not_data\<close>)
qed

lemma inv_fail:
  shows "dc_core c \<Longrightarrow> dc_core (trans_fail io s rst c)"
    and "dc_closing c \<Longrightarrow> dc_closing (trans_fail io s rst c)"
proof -
  show "dc_core (trans_fail io s rst c)" if "dc_core c"
    by (cases rule: fail_cases [of io s rst c]) (use that core_set_failed core_swap_rst in auto)
  show "dc_closing (trans_fail io s rst c)" if c: "dc_closing c"
  proof (cases "dc_state c = DC_ST_CLOSING")
    case True
    then have "opt_all (\<lambda>t. dc_final (dt_phase t)) (dc_trans_of s c)"
      using c by (simp add: dc_closing_def dc_trans_of_def)
    then have "trans_fail io s rst c = c"
      by (cases rule: fail_cases [of io s rst c]) auto
    then show ?thesis using c by simp
  qed (use c in \<open>simp add: dc_closing_def\<close>)
qed

lemma inv_shutdown: "dc_core c \<Longrightarrow> dc_closing c \<Longrightarrow> dc_inv (shutdown_common io c)"
proof (cases "dc_state c = DC_ST_CLOSING")
  case True
  then show "dc_core c \<Longrightarrow> dc_closing c \<Longrightarrow> dc_inv (shutdown_common io c)"
    by (simp add: shutdown_common_def dc_inv_def)
next
  case False
  assume c: "dc_core c" "dc_closing c"
  define c1 where "c1 = c\<lparr>dc_state := DC_ST_CLOSING\<rparr>"
  define c2 where "c2 = trans_fail io True False c1"
  define c3 where "c3 = trans_fail io False False c2"
  have s: "shutdown_common io c = dc_emit DcClosed c3"
    using False by (simp add: shutdown_common_def c1_def c2_def c3_def)
  have "dc_core c1" using c(1) by (auto simp: dc_core_def gate_ok_def block_ok_def c1_def)
  then have core: "dc_core c3" unfolding c2_def c3_def by (intro inv_fail)
  have tx: "opt_all (\<lambda>t. dc_final (dt_phase t)) (dc_trans_of True c3)"
    using fail_final [of True io False c1] fail_same(5) [of False io False c2]
    by (simp only: c2_def [symmetric] c3_def [symmetric] simp_thms)
  have rx: "opt_all (\<lambda>t. dc_final (dt_phase t)) (dc_trans_of False c3)"
    using fail_final [of False io False c2] by (simp add: c3_def)
  have "closes (dc_out c3) = 0" "dc_state c3 = DC_ST_CLOSING"
    using c(2) False by (simp_all add: c3_def c2_def c1_def dc_closing_def)
  then have "dc_closing (dc_emit DcClosed c3)" using tx rx by (simp add: dc_closing_def dc_trans_of_def)
  moreover have "dc_core (dc_emit DcClosed c3)" using core by (auto simp: dc_core_def gate_ok_def block_ok_def)
  ultimately show "dc_inv (shutdown_common io c)" by (simp add: s dc_inv_def)
qed

lemma shutdown_closing [simp]: "dc_state (shutdown_common io c) = DC_ST_CLOSING"
  by (simp add: shutdown_common_def Let_def)

lemma invE: "dc_inv c \<Longrightarrow> (dc_core c \<Longrightarrow> dc_closing c \<Longrightarrow> P) \<Longrightarrow> P"
  by (simp add: dc_inv_def)

lemma inv_rules:
  "dc_inv c \<Longrightarrow> dc_inv (trans_fail io s rst c)"
  "dc_inv c \<Longrightarrow> dc_inv (shutdown_common io c)"
  "dc_inv c \<Longrightarrow> dc_inv (dc_send_rst io tr code ids c)"
  "dc_inv c \<Longrightarrow> hd f \<noteq> DFILE_FRAME_FILE_DATA \<Longrightarrow> dc_inv (dc_emit (DcFrame f) c)"
  by (auto elim!: invE intro: inv_shutdown simp: inv_fail inv_send_rst core_frame closing_frame dc_inv_def [of "trans_fail io s rst c"]
      dc_inv_def [of "dc_send_rst io tr code ids c"] dc_inv_def [of "dc_emit (DcFrame f) c"])

lemma inv_send:
  "dc_send_opt io fo c = (c', ok) \<Longrightarrow> (\<And>f. fo = Some f \<Longrightarrow> hd f \<noteq> DFILE_FRAME_FILE_DATA) \<Longrightarrow> dc_inv c \<Longrightarrow>
   dc_inv c' \<and> dc_tx c' = dc_tx c \<and> dc_rx c' = dc_rx c \<and> dc_state c' = dc_state c \<and>
   dc_negotiated c' = dc_negotiated c \<and> dc_block_size c' = dc_block_size c"
  by (simp add: dc_inv_def inv_send_opt)

text \<open>Replacing a transfer by one with the same outcome.\<close>

lemma inv_set_tx:
  assumes "dc_inv c" "outcome (Some t) = outcome (dc_tx c)" "tx_wf t"
    and "\<And>t0. dc_tx c = Some t0 \<Longrightarrow> armed t0 \<Longrightarrow> armed t"
    and "dc_state c = DC_ST_CLOSING \<Longrightarrow> dc_final (dt_phase t)"
  shows "dc_inv (c\<lparr>dc_tx := Some t\<rparr>)"
  using assms by (auto simp: dc_inv_def dc_core_def dc_closing_def gate_ok_def block_ok_def)

lemma inv_set_rx:
  assumes "dc_inv c" "outcome (Some t) = outcome (dc_rx c)" "rx_wf t"
    and "dc_state c = DC_ST_CLOSING \<Longrightarrow> dc_final (dt_phase t)"
  shows "dc_inv (c\<lparr>dc_rx := Some t\<rparr>)"
  using assms by (auto simp: dc_inv_def dc_core_def dc_closing_def gate_ok_def block_ok_def)

section \<open>What the sending routines emit\<close>

definition emits :: "(bytes \<Rightarrow> bool) \<Rightarrow> dfile_conn \<Rightarrow> dfile_conn \<Rightarrow> bool" where
  "emits P c c' \<longleftrightarrow> (\<exists>fs. c' = c\<lparr>dc_out := dc_out c @ map DcFrame fs\<rparr> \<and> (\<forall>f \<in> set fs. P f))"

lemma emits_refl [intro, simp]: "emits P c c"
  unfolding emits_def by (rule exI [of _ "[]"]) simp

lemma emits_trans: "emits P a b \<Longrightarrow> emits P b c \<Longrightarrow> emits P a c"
  unfolding emits_def by (elim exE conjE, rule_tac x = "fs @ fsa" in exI) auto

lemma emits_mono: "emits P a b \<Longrightarrow> (\<And>f. P f \<Longrightarrow> Q f) \<Longrightarrow> emits Q a b"
  unfolding emits_def by blast

lemma emits_frame: "P f \<Longrightarrow> emits P c (dc_emit (DcFrame f) c)"
  unfolding emits_def by (rule exI [of _ "[f]"]) (simp add: dc_emit_def)

lemma emits_send_opt:
  assumes "dc_send_opt io fo c = (c', ok)"
  shows "emits (\<lambda>f. fo = Some f) c c'"
  by (cases rule: send_opt_cases [OF assms]) (auto intro: emits_frame)

lemma sent_map [simp]: "sent_frames (map DcFrame fs) = fs" "results s (map DcFrame fs) = []" "closes (map DcFrame fs) = 0"
  by (induction fs) (auto simp: sent_frames_def results_def closes_def)

lemma emits_same:
  assumes "emits P c c'"
  shows "dc_tx c' = dc_tx c" "dc_rx c' = dc_rx c" "dc_state c' = dc_state c" "dc_negotiated c' = dc_negotiated c"
    "dc_block_size c' = dc_block_size c" "dc_disk c' = dc_disk c" "dc_recv_dir c' = dc_recv_dir c"
    "results s (dc_out c') = results s (dc_out c)" "closes (dc_out c') = closes (dc_out c)"
    "f \<in> set (sent_frames (dc_out c')) \<Longrightarrow> f \<in> set (sent_frames (dc_out c)) \<or> P f"
  using assms by (auto simp: emits_def)

lemma emits_inv:
  assumes "emits P c c'" "dc_inv c" "\<And>f. P f \<Longrightarrow> hd f = DFILE_FRAME_FILE_DATA \<Longrightarrow> \<exists>t. dc_tx c = Some t \<and> armed t"
  shows "dc_inv c'"
proof -
  note e = emits_same [OF assms(1)]
  have "gate_ok c'" using assms(2,3) e(1,10) by (fastforce simp: gate_ok_def dc_inv_def dc_core_def)
  then show ?thesis using assms(2) e(1-9) by (simp add: dc_inv_def dc_core_def block_ok_def dc_closing_def)
qed

lemma header_loop_emits:
  "tx_header_loop io tr node st es c = (c', ok) \<Longrightarrow>
   emits (\<lambda>f. \<exists>j k. dfile_encode_file_header (dc_buf (DFILE_FRAME_MAX_SIZE + 16)) tr node (st + j) (drop j es) = Some (f, k)) c c'"
proof (induction io tr node st es c arbitrary: c' ok rule: tx_header_loop.induct)
  case (1 io tr node st es c)
  let ?buf = "dc_buf (DFILE_FRAME_MAX_SIZE + 16)"
  let ?P = "\<lambda>f. \<exists>j k. dfile_encode_file_header ?buf tr node (st + j) (drop j es) = Some (f, k)"
  show ?case
  proof (cases "\<exists>f k. es \<noteq> [] \<and> dfile_encode_file_header ?buf tr node st es = Some (f, k) \<and> k \<noteq> 0 \<and> dio_send io f")
    case True
    then obtain f k where f: "es \<noteq> []" "dfile_encode_file_header ?buf tr node st es = Some (f, k)" "k \<noteq> 0" "dio_send io f"
      by blast
    have s: "dc_send io f c = (dc_emit (DcFrame f) c, True)" using f by (simp add: dc_send_def)
    have P: "?P f" using f(2) by (intro exI [of _ 0] exI [of _ k]) simp
    have "tx_header_loop io tr node (st + k) (drop k es) (dc_emit (DcFrame f) c) = (c', ok)"
      using 1(2) f s by (subst (asm) tx_header_loop.simps) simp
    then have "emits (\<lambda>f. \<exists>j k'. dfile_encode_file_header ?buf tr node (st + k + j) (drop j (drop k es)) = Some (f, k')) (dc_emit (DcFrame f) c) c'"
      using 1(1) [OF f(1,2) refl f(3) s [symmetric]] by simp
    then have "emits ?P (dc_emit (DcFrame f) c) c'"
      by (rule emits_mono) (metis add.assoc drop_drop add.commute)
    then show ?thesis using emits_trans [OF emits_frame [of ?P]] P by blast
  next
    case False
    then have "c' = c" using 1(2) by (subst (asm) tx_header_loop.simps) (auto simp: dc_send_def split: if_splits option.splits)
    then show ?thesis by simp
  qed
qed

text \<open>The block of file \<open>g\<close> that a data frame holds.\<close>

definition block_frame :: "dc_io \<Rightarrow> u32 \<Rightarrow> u16 \<Rightarrow> dc_file \<Rightarrow> bytes \<Rightarrow> bool" where
  "block_frame io bs tr g f \<longleftrightarrow> (\<exists>seq fl block.
     dio_pread io (the (cf_fd g)) (dc_block_off bs seq) (dc_block_want bs (cf_size g) seq) = Some block \<and>
     length block = dc_block_want bs (cf_size g) seq \<and>
     dfile_encode_data (dc_buf (DFILE_FRAME_MAX_SIZE + 16)) tr fl (cf_file_id g) seq block = Some f)"

definition same_file :: "dc_file \<Rightarrow> dc_file \<Rightarrow> bool" where
  "same_file f g \<longleftrightarrow> g = f\<lparr>cf_retrans := cf_retrans g, cf_next_seq := cf_next_seq g\<rparr>"

lemma same_file_fields:
  "same_file f g \<Longrightarrow> cf_file_id g = cf_file_id f \<and> cf_size g = cf_size f \<and> cf_fd g = cf_fd f \<and>
     cf_name g = cf_name f \<and> cf_total_blocks g = cf_total_blocks f \<and> cf_confirmed g = cf_confirmed f"
  unfolding same_file_def by (metis dc_file.select_convs dc_file.surjective dc_file.update_convs)

lemma same_file_refl [simp]: "same_file f f"
  by (simp add: same_file_def)

lemma same_file_trans: "same_file f g \<Longrightarrow> same_file g h \<Longrightarrow> same_file f h"
  unfolding same_file_def by (cases f; cases g; cases h) auto

lemma block_frame_same: "same_file g h \<Longrightarrow> block_frame io bs tr h f = block_frame io bs tr g f"
  using same_file_fields [of g h] by (simp add: block_frame_def)

lemma new_blocks_emits:
  "tx_new_blocks io bs tr b f c = (f', c', b', r) \<Longrightarrow> emits (block_frame io bs tr f) c c' \<and> same_file f f'"
proof (induction io bs tr b f c arbitrary: f' c' b' r rule: tx_new_blocks.induct)
  case (1 io bs tr f c)
  then show ?case by simp
next
  case (2 io bs tr b f c)
  define seq where "seq = cf_next_seq f"
  define want where "want = dc_block_want bs (cf_size f) seq"
  define flag where "flag = tx_block_flag seq (cf_total_blocks f)"
  let ?enc = "\<lambda>d. dfile_encode_data (dc_buf (DFILE_FRAME_MAX_SIZE + 16)) tr flag (cf_file_id f) seq d"
  let ?g = "f\<lparr>cf_retrans := cf_retrans f @ [seq], cf_next_seq := seq + 1\<rparr>"
  have g: "same_file f ?g" by (simp add: same_file_def)
  have eq: "tx_new_blocks io bs tr (Suc b) f c =
      (if \<not> seq < cf_total_blocks f then (f, c, Suc b, None)
       else case dio_pread io (the (cf_fd f)) (dc_block_off bs seq) want of
         None \<Rightarrow> (f, c, Suc b, Some True)
       | Some block \<Rightarrow> if length block \<noteq> want then (f, c, Suc b, Some True)
           else case dc_send_opt io (?enc block) c of
             (c', ok) \<Rightarrow> if \<not> ok then (f, c', Suc b, Some False) else tx_new_blocks io bs tr b ?g c')"
    by (simp only: tx_new_blocks.simps Let_def seq_def want_def flag_def)
  show ?case
  proof (cases "dio_pread io (the (cf_fd f)) (dc_block_off bs seq) want")
    case None
    then show ?thesis using "2.prems" unfolding eq by (auto split: if_splits)
  next
    case (Some block)
    show ?thesis
    proof (cases "seq < cf_total_blocks f \<and> length block = want")
      case True
      obtain c1 ok where s: "dc_send_opt io (?enc block) c = (c1, ok)" by fastforce
      have e: "emits (block_frame io bs tr f) c c1"
        by (rule emits_mono [OF emits_send_opt [OF s]]) (use Some True in \<open>auto simp: block_frame_def want_def\<close>)
      show ?thesis
      proof (cases ok)
        case True': True
        have next': "tx_new_blocks io bs tr b ?g c1 = (f', c', b', r)"
          using "2.prems" Some True True' s unfolding eq by simp
        have "emits (block_frame io bs tr ?g) c1 c' \<and> same_file ?g f'"
          using "2.IH" [OF _ seq_def refl want_def Some _ s [unfolded flag_def, symmetric] _ next'] True True' by (simp add: seq_def)
        then show ?thesis using e g block_frame_same [OF g] emits_trans same_file_trans by (metis (mono_tags, lifting) emits_mono)
      qed (use "2.prems" [unfolded eq] Some True s e in simp)
    qed (use "2.prems" [unfolded eq] Some in \<open>auto split: if_splits\<close>)
  qed
qed

lemma retransmit_emits:
  assumes "tx_retransmit io bs tr b lastm f c = (f', c', b', l', r)"
  shows "emits (block_frame io bs tr f) c c' \<and> same_file f f'"
proof (cases "cf_retrans f")
  case Nil
  then show ?thesis using assms by (simp add: tx_retransmit_def)
next
  case (Cons seq rest)
  let ?want = "dc_block_want bs (cf_size f) seq"
  let ?enc = "\<lambda>d. dfile_encode_data (dc_buf (DFILE_FRAME_MAX_SIZE + 16)) tr (DFILE_FLAG_DATA_RETRAN OR DFILE_FLAG_DATA_CONTINUE) (cf_file_id f) seq d"
  show ?thesis
  proof (cases "dio_pread io (the (cf_fd f)) (dc_block_off bs seq) ?want")
    case None
    then show ?thesis using assms Cons by (auto simp: tx_retransmit_def split: if_splits)
  next
    case (Some block)
    obtain c1 ok where s: "dc_send_opt io (?enc block) c = (c1, ok)" by fastforce
    have "(c' = c \<or> length block = ?want \<and> c' = c1) \<and> same_file f f'"
      using assms Cons Some s by (auto simp: tx_retransmit_def same_file_def Let_def split: if_splits)
    moreover have "emits (block_frame io bs tr f) c c1" if "length block = ?want"
      by (rule emits_mono [OF emits_send_opt [OF s]]) (use Some that in \<open>auto simp: block_frame_def\<close>)
    ultimately show ?thesis by auto
  qed
qed

lemma pump_files_emits:
  "tx_pump_files io bs tr b lastm fs c = (fs', c', l', r) \<Longrightarrow>
   emits (\<lambda>w. \<exists>f \<in> set fs. block_frame io bs tr f w) c c' \<and> list_all2 same_file fs fs'"
proof (induction io bs tr b lastm fs c arbitrary: fs' c' l' r rule: tx_pump_files.induct)
  case (1 io bs tr b lastm c)
  then show ?case by simp
next
  case (2 io bs tr b lastm f fs c)
  let ?P = "\<lambda>fs w. \<exists>f \<in> set fs. block_frame io bs tr f w"
  have refl2: "list_all2 same_file xs xs" for xs by (simp add: list_all2_same)
  obtain f1 c1 b1 r1 where n: "tx_new_blocks io bs tr b f c = (f1, c1, b1, r1)" by (metis prod_cases4)
  obtain f2 c2 b2 l2 r2 where t: "tx_retransmit io bs tr b1 lastm f1 c1 = (f2, c2, b2, l2, r2)" by (metis prod_cases5)
  note e1 = new_blocks_emits [OF n]
  have e2: "emits (block_frame io bs tr f) c1 c2 \<and> same_file f f2"
    using retransmit_emits [OF t] e1 block_frame_same same_file_trans by (metis (no_types, lifting) emits_mono)
  have e12: "emits (block_frame io bs tr f) c c2" using e1 e2 emits_trans by blast
  consider "b = 0" | "b \<noteq> 0" "cf_total_blocks f \<le> cf_next_seq f \<and> cf_retrans f = []"
    | q where "b \<noteq> 0" "\<not> (cf_total_blocks f \<le> cf_next_seq f \<and> cf_retrans f = [])" "r1 = Some q"
    | q where "b \<noteq> 0" "\<not> (cf_total_blocks f \<le> cf_next_seq f \<and> cf_retrans f = [])" "r1 = None" "r2 = Some q"
    | "b \<noteq> 0" "\<not> (cf_total_blocks f \<le> cf_next_seq f \<and> cf_retrans f = [])" "r1 = None" "r2 = None"
    by fastforce
  then show ?case
  proof cases
    case 1
    then show ?thesis using "2.prems" refl2 by simp
  next
    case 2
    obtain gs c3 l3 r3 where p: "tx_pump_files io bs tr b lastm fs c = (gs, c3, l3, r3)" by (metis prod_cases4)
    have "emits (?P fs) c c3 \<and> list_all2 same_file fs gs" using "2.IH"(1) [OF 2 p] .
    then show ?thesis using "2.prems" 2 p by (auto intro: emits_mono)
  next
    case 3
    then show ?thesis using "2.prems" n e1 refl2 by (auto intro: emits_mono)
  next
    case 4
    then show ?thesis using "2.prems" n t e2 e12 refl2 by (auto intro: emits_mono)
  next
    case 5
    obtain gs c3 l3 r3 where p: "tx_pump_files io bs tr b2 l2 fs c2 = (gs, c3, l3, r3)" by (metis prod_cases4)
    have e3: "emits (?P fs) c2 c3 \<and> list_all2 same_file fs gs"
      using "2.IH"(2) [OF 5(1,2) n [symmetric] refl refl 5(3) t [symmetric] refl refl refl 5(4) p] .
    have "emits (?P (f # fs)) c c2" using e12 by (rule emits_mono) simp
    moreover have "emits (?P (f # fs)) c2 c3" using e3 by (auto intro: emits_mono)
    ultimately show ?thesis using "2.prems" 5 n t p e2 e3 emits_trans by auto
  qed
qed

section \<open>The sender keeps the invariant\<close>

definition header_frame :: "dc_trans \<Rightarrow> bytes \<Rightarrow> bool" where
  "header_frame t f \<longleftrightarrow> (\<exists>j k. dfile_encode_file_header (dc_buf (DFILE_FRAME_MAX_SIZE + 16)) (dt_trans_id t)
     (of_nat (length (dt_files t))) j (drop j (map cf_entry (dt_files t))) = Some (f, k))"

lemma header_emits: "tx_send_header io t c = (c', ok) \<Longrightarrow> emits (header_frame t) c c'"
  unfolding tx_send_header_def by (drule header_loop_emits) (simp add: header_frame_def [abs_def])

lemma header_inv: "tx_send_header io t c = (c', ok) \<Longrightarrow> dc_inv c \<Longrightarrow> dc_inv c'"
  by (rule emits_inv [OF header_emits]) (auto simp: header_frame_def dest: header_not_data)

text \<open>An idle sender may appear where there was none.\<close>

lemma send_files_inv:
  assumes "dc_inv c" "send_files_impl io items c = Some (c', ok)"
  shows "dc_inv c' \<and> dc_rx c' = dc_rx c \<and> dc_state c' = dc_state c \<and>
    dc_negotiated c' = dc_negotiated c \<and> dc_block_size c' = dc_block_size c"
proof (cases "dc_state c = DC_ST_READY \<and> dc_tx c = None \<and> items \<noteq> [] \<and> length items \<le> DFILE_MAX_FILE_NUM")
  case True
  define t where "t = trans_new True (dc_next_trans_id c) (dio_now io)"
  define c1 where "c1 = c\<lparr>dc_next_trans_id := dc_next_trans_id c + 1\<rparr>"
  have c1: "dc_inv c1" "dc_tx c1 = None" "dc_state c1 = DC_ST_READY"
    using assms(1) True by (auto simp: c1_def dc_inv_def dc_core_def dc_closing_def gate_ok_def block_ok_def)
  obtain r where r: "dc_open_items io (dc_block_size c) 0 items = Some r"
    using assms(2) True by (auto simp: send_files_impl_def Let_def bind_eq_Some_conv)
  show ?thesis
  proof (cases r)
    case None
    then have "c' = c1" using assms(2) True r by (simp add: send_files_impl_def c1_def Let_def)
    then show ?thesis using c1 by (simp add: c1_def)
  next
    case (Some fs)
    define t1 where "t1 = t\<lparr>dt_files := fs\<rparr>"
    define c2 where "c2 = c1\<lparr>dc_tx := Some t1\<rparr>"
    have t1: "tx_wf t1" "outcome (Some t1) = []" by (simp_all add: t1_def t_def trans_new_def tx_wf_def outcome_def)
    have c2: "dc_inv c2" unfolding c2_def using c1 t1 by (intro inv_set_tx) (auto simp: outcome_def)
    obtain c3 ok3 where h: "tx_send_header io t1 c2 = (c3, ok3)" by fastforce
    have c3: "dc_inv c3" "dc_tx c3 = Some t1" "dc_rx c3 = dc_rx c" "dc_state c3 = DC_ST_READY"
      "dc_negotiated c3 = dc_negotiated c" "dc_block_size c3 = dc_block_size c"
      using header_inv [OF h c2] emits_same [OF header_emits [OF h]] True by (simp_all add: c2_def c1_def)
    have no_data: "\<forall>f \<in> set (sent_frames (dc_out c3)). hd f \<noteq> DFILE_FRAME_FILE_DATA"
      using c3(1,2) by (auto simp: dc_inv_def dc_core_def gate_ok_def armed_def t1_def t_def trans_new_def)
    have c': "c' = (if ok3 then c3\<lparr>dc_tx := Some (t1\<lparr>dt_phase := DC_PH_TX_WAIT_CONFIRM_REQ,
                          dt_t0_ms := dio_now io, dt_last_ctrl_ms := dio_now io\<rparr>)\<rparr> else c3\<lparr>dc_tx := None\<rparr>)"
      using assms(2) True r Some h by (simp add: send_files_impl_def Let_def c2_def c1_def t1_def t_def split: if_splits)
    have "dc_inv (c3\<lparr>dc_tx := None\<rparr>)"
      using c3 no_data t1(2) by (auto simp: dc_inv_def dc_core_def dc_closing_def gate_ok_def block_ok_def outcome_def)
    moreover have "dc_inv (c3\<lparr>dc_tx := Some (t1\<lparr>dt_phase := DC_PH_TX_WAIT_CONFIRM_REQ,
                          dt_t0_ms := dio_now io, dt_last_ctrl_ms := dio_now io\<rparr>)\<rparr>)"
      using c3 t1 by (intro inv_set_tx) (auto simp: outcome_def tx_wf_def armed_def t1_def t_def trans_new_def)
    ultimately show ?thesis using c3 by (simp add: c' True)
  qed
next
  case False
  then have "c' = c" using assms(2) by (auto simp: send_files_impl_def split: if_splits)
  then show ?thesis using assms(1) by simp
qed

lemma armed_same: "armed t \<Longrightarrow> list_all2 same_file (dt_files t) fs \<Longrightarrow> armed (t\<lparr>dt_files := fs, dt_last_retran_ms := x\<rparr>)"
  using same_file_fields by (fastforce simp: armed_def list_all2_conv_all_nth in_set_conv_nth)

lemma pump_inv:
  assumes "dc_inv c" "dc_tx c = Some t" "dt_phase t \<in> {DC_PH_TX_SENDING, DC_PH_TX_WAIT_DONE}"
  shows "dc_inv (tx_pump io c)"
proof -
  obtain fs c1 l r where p: "tx_pump_files io (dc_block_size c) (dt_trans_id t) DC_SEND_BUDGET (dt_last_retran_ms t) (dt_files t) c = (fs, c1, l, r)"
    by (metis prod_cases4)
  note e = pump_files_emits [OF p]
  define t1 where "t1 = t\<lparr>dt_files := fs, dt_last_retran_ms := l\<rparr>"
  have wf: "tx_wf t" "armed t" using assms by (auto simp: dc_inv_def dc_core_def tx_wf_def)
  have "dc_inv c1" using emits_inv [OF conjunct1 [OF e] assms(1)] assms(2) wf(2) by blast
  moreover have "armed t1" unfolding t1_def using armed_same wf(2) e by blast
  then have "tx_wf t1" using wf(1) by (auto simp: tx_wf_def t1_def armed_def)
  ultimately have "dc_inv (c1\<lparr>dc_tx := Some t1\<rparr>)"
    using assms \<open>armed t1\<close> emits_same(1,3) [OF conjunct1 [OF e]]
    by (intro inv_set_tx) (auto simp: outcome_def t1_def dc_inv_def dc_closing_def dc_final_def)
  then show ?thesis using assms(2) p
    by (auto simp: tx_pump_def Let_def t1_def [symmetric] intro: inv_rules split: option.splits)
qed

lemma finish_inv:
  assumes "dc_inv c"
  shows "dc_inv (tx_finish io c)"
proof (cases "\<exists>t. dc_tx c = Some t \<and> \<not> (dt_doneack_sent t \<or> dt_phase t = DC_PH_TX_DONE \<or> dt_phase t = DC_PH_FAILED)")
  case True
  then obtain t where t: "dc_tx c = Some t" "\<not> dt_doneack_sent t" "dt_phase t \<noteq> DC_PH_TX_DONE" "dt_phase t \<noteq> DC_PH_FAILED"
    by blast
  have wf: "tx_wf t" using assms t by (auto simp: dc_inv_def dc_core_def)
  obtain c1 ok where s: "dc_send_opt io (dc_idlist DFILE_FRAME_FILE_TRANSFER_DONE_ACK (dt_trans_id t) (map cf_file_id (dt_files t))) c = (c1, ok)"
    by fastforce
  have c1: "dc_inv c1" "dc_tx c1 = Some t" "dc_state c1 = dc_state c"
    using inv_send [OF s _ assms] idlist_not_data t by (auto simp: dfile_types)
  have "dc_state c1 \<noteq> DC_ST_CLOSING" using c1 wf t by (auto simp: dc_inv_def dc_closing_def tx_wf_def dc_final_def)
  then have "dc_inv (dc_emit (DcResult True True) (c1\<lparr>dc_tx := Some (t\<lparr>dt_doneack_sent := True, dt_phase := DC_PH_TX_DONE\<rparr>)\<rparr>))"
    using c1 wf t by (auto simp: dc_inv_def dc_core_def dc_closing_def gate_ok_def block_ok_def tx_wf_def outcome_def armed_def)
  then show ?thesis using t s c1 by (auto simp: tx_finish_def intro: inv_rules)
qed (use assms in \<open>auto simp: tx_finish_def split: option.splits\<close>)

lemma set_put_file: "set (put_file g fs) \<subseteq> insert g (set fs)"
  by (induction fs) auto

lemma find_in: "find P xs = Some x \<Longrightarrow> x \<in> set xs \<and> P x"
  by (induction xs) (auto split: if_splits)

text \<open>Files changed one by one keep what each change keeps.\<close>

lemma fold_files:
  assumes "\<And>fs x f. f \<in> set (g fs x) \<Longrightarrow> (\<forall>f \<in> set fs. P f) \<Longrightarrow> P f"
  shows "\<forall>f \<in> set fs. P f \<Longrightarrow> \<forall>f \<in> set (foldl g fs xs). P f"
proof (induction xs arbitrary: fs)
  case (Cons x xs)
  have "\<forall>f \<in> set (g fs x). P f" using assms Cons.prems by blast
  then show ?case using Cons.IH by simp
qed simp

lemma confirm_all: "\<forall>f \<in> set fs. cf_confirmed f \<Longrightarrow> \<forall>f \<in> set (dc_confirm ids fs). cf_confirmed f"
  unfolding dc_confirm_def
  by (rule fold_files) (use set_put_file in \<open>fastforce split: option.splits\<close>)+

lemma ack_all: "\<forall>f \<in> set fs. cf_confirmed f \<Longrightarrow> \<forall>f \<in> set (dc_ack_entries es fs). cf_confirmed f"
  unfolding dc_ack_entries_def
proof (rule fold_files)
  fix fs and e :: dfile_ack_entry and f
  assume a: "f \<in> set (case find (\<lambda>f. cf_file_id f = ae_file_id e) fs of None \<Rightarrow> fs
     | Some f \<Rightarrow> if ae_last_seq e = - 1 then fs else put_file (dc_ack_file (ae_last_seq e) f) fs)"
    and all: "\<forall>f \<in> set fs. cf_confirmed f"
  show "cf_confirmed f"
  proof (cases "find (\<lambda>f. cf_file_id f = ae_file_id e) fs")
    case (Some g)
    then have "f \<in> set fs \<or> f = dc_ack_file (ae_last_seq e) g" "cf_confirmed g"
      using a all find_in [OF Some] set_put_file [of "dc_ack_file (ae_last_seq e) g" fs] by (auto split: if_splits)
    then show ?thesis using all by (auto simp: dc_ack_file_def)
  qed (use a all in auto)
qed simp

lemma tx_ctrl_inv:
  assumes "dc_inv c" "handle_tx_ctrl io ty f c = Some c'"
  shows "dc_inv c'"
proof (cases "\<exists>t. dc_tx c = Some t \<and> dt_phase t = DC_PH_TX_WAIT_CONFIRM_REQ")
  case True
  then obtain t where t: "dc_tx c = Some t" "dt_phase t = DC_PH_TX_WAIT_CONFIRM_REQ" by blast
  have wf: "tx_wf t" using assms t by (auto simp: dc_inv_def dc_core_def)
  define t3 where "t3 = (\<lambda>ids. tx_ctrl_update io ty ids t)"
  have c': "c' = shutdown_common io c \<or> (\<exists>ids. c' = c\<lparr>dc_tx := Some (t3 ids)\<rparr>)"
  proof -
    obtain r where "dfile_decode_idlist f ty = Some r" using decode_total by blast
    then show ?thesis using assms(2) t by (cases r) (auto simp: handle_tx_ctrl_def t3_def split: if_splits)
  qed
  have "dc_inv (c\<lparr>dc_tx := Some (t3 ids)\<rparr>)" for ids
  proof (rule inv_set_tx [OF assms(1)])
    show "outcome (Some (t3 ids)) = outcome (dc_tx c)" using t by (simp add: outcome_def t3_def tx_ctrl_update_def Let_def)
    show "tx_wf (t3 ids)" using wf t by (auto simp: tx_wf_def armed_def t3_def tx_ctrl_update_def Let_def)
    show "armed t0 \<Longrightarrow> armed (t3 ids)" if "dc_tx c = Some t0" for t0
      using that t confirm_all [of "dt_files t" ids] by (auto simp: armed_def t3_def tx_ctrl_update_def Let_def)
    show "dc_state c = DC_ST_CLOSING \<Longrightarrow> dc_final (dt_phase (t3 ids))"
      using assms(1) t by (auto simp: dc_inv_def dc_closing_def dc_final_def)
  qed
  then show ?thesis using c' assms(1) inv_rules(2) by blast
qed (use assms in \<open>auto simp: handle_tx_ctrl_def split: option.splits if_splits\<close>)

lemma tx_ack_inv:
  assumes "dc_inv c" "handle_ack io f c = Some c'"
  shows "dc_inv c'"
proof (cases "\<exists>t. dc_tx c = Some t \<and> (dt_phase t = DC_PH_TX_SENDING \<or> dt_phase t = DC_PH_TX_WAIT_DONE)")
  case True
  then obtain t where t: "dc_tx c = Some t" "dt_phase t = DC_PH_TX_SENDING \<or> dt_phase t = DC_PH_TX_WAIT_DONE" by blast
  have wf: "tx_wf t" using assms t by (auto simp: dc_inv_def dc_core_def)
  define t1 where "t1 es = t\<lparr>dt_last_ack_ms := dio_now io, dt_files := dc_ack_entries es (dt_files t)\<rparr>" for es
  have "dc_inv (c\<lparr>dc_tx := Some (t1 es)\<rparr>)" for es
  proof (rule inv_set_tx [OF assms(1)])
    have "armed t" using wf t by (auto simp: tx_wf_def)
    then have a: "armed (t1 es)" using ack_all [of "dt_files t" es] by (auto simp: armed_def t1_def)
    then show "tx_wf (t1 es)" using wf t by (auto simp: tx_wf_def t1_def armed_def)
    show "armed (t1 es)" by (rule a)
    show "outcome (Some (t1 es)) = outcome (dc_tx c)" using t by (simp add: outcome_def t1_def)
    show "dc_state c = DC_ST_CLOSING \<Longrightarrow> dc_final (dt_phase (t1 es))"
      using assms(1) t by (auto simp: dc_inv_def dc_closing_def dc_final_def)
  qed
  moreover have "c' = shutdown_common io c \<or>
      (\<exists>es. c' = c\<lparr>dc_tx := Some (t1 es)\<rparr> \<or> c' = tx_finish io (c\<lparr>dc_tx := Some (t1 es)\<rparr>))"
  proof -
    obtain r where "dfile_decode_ack f = Some r" using decode_total by blast
    then show ?thesis using assms(2) t by (cases r) (auto simp: handle_ack_def t1_def Let_def split: if_splits)
  qed
  ultimately show ?thesis using assms(1) inv_rules(2) finish_inv by blast
qed (use assms in \<open>auto simp: handle_ack_def split: option.splits if_splits\<close>)

lemma tx_done_inv:
  assumes "dc_inv c" "handle_done io f c = Some c'"
  shows "dc_inv c'"
proof (cases "\<exists>t. dc_tx c = Some t \<and> dt_phase t \<noteq> DC_PH_FAILED \<and> dt_phase t \<noteq> DC_PH_TX_DONE")
  case True
  then obtain t where t: "dc_tx c = Some t" "dt_phase t \<noteq> DC_PH_FAILED \<and> dt_phase t \<noteq> DC_PH_TX_DONE" by blast
  have wf: "tx_wf t" using assms t by (auto simp: dc_inv_def dc_core_def)
  define t1 where "t1 = (if dt_phase t = DC_PH_TX_SENDING then t\<lparr>dt_done_received := True, dt_phase := DC_PH_TX_WAIT_DONE\<rparr>
     else t\<lparr>dt_done_received := True\<rparr>)"
  have "dc_inv (c\<lparr>dc_tx := Some t1\<rparr>)"
  proof (rule inv_set_tx [OF assms(1)])
    show "tx_wf t1" using wf by (auto simp: tx_wf_def t1_def armed_def)
    show "armed t0 \<Longrightarrow> armed t1" if "dc_tx c = Some t0" for t0 using that t by (auto simp: armed_def t1_def)
    show "outcome (Some t1) = outcome (dc_tx c)" using t by (simp add: outcome_def t1_def)
    show "dc_state c = DC_ST_CLOSING \<Longrightarrow> dc_final (dt_phase t1)"
      using assms(1) t by (auto simp: dc_inv_def dc_closing_def dc_final_def t1_def)
  qed
  moreover have "c' = shutdown_common io c \<or> c' = c\<lparr>dc_tx := Some t1\<rparr> \<or> c' = tx_finish io (c\<lparr>dc_tx := Some t1\<rparr>)"
  proof -
    obtain r where "dfile_decode_idlist f DFILE_FRAME_FILE_TRANSFER_DONE = Some r" using decode_total by blast
    then show ?thesis using assms(2) t by (cases r) (auto simp: handle_done_def t1_def Let_def split: if_splits)
  qed
  ultimately show ?thesis using assms(1) inv_rules(2) finish_inv by blast
qed (use assms in \<open>auto simp: handle_done_def split: option.splits if_splits\<close>)

section \<open>The receiver keeps it\<close>

text \<open>Opening files touches the disk only.\<close>

lemma open_file_disk: "rx_open_file io dir he c = Some (r, c') \<Longrightarrow> c' = c\<lparr>dc_disk := dc_disk c'\<rparr>"
  by (auto simp: rx_open_file_def bind_eq_Some_conv Let_def split: if_splits option.splits)

lemma open_files_disk: "rx_open_files io dir hes c = Some (fs, ok, c') \<Longrightarrow> c' = c\<lparr>dc_disk := dc_disk c'\<rparr>"
proof (induction hes arbitrary: c fs ok c')
  case (Cons he hes)
  then obtain r c1 where r: "rx_open_file io dir he c = Some (r, c1)" by (auto simp: bind_eq_Some_conv)
  have c1: "c1 = c\<lparr>dc_disk := dc_disk c1\<rparr>" by (rule open_file_disk [OF r])
  show ?case
  proof (cases r)
    case None
    then show ?thesis using Cons.prems r c1 by simp
  next
    case (Some f)
    then obtain gs where "rx_open_files io dir hes c1 = Some (gs, ok, c')"
      using Cons.prems r by (auto simp: bind_eq_Some_conv)
    then have "c' = c1\<lparr>dc_disk := dc_disk c'\<rparr>" by (rule Cons.IH)
    then show ?thesis using c1 by (metis dfile_conn.update_convs(11) dfile_conn.surjective dfile_conn.select_convs(11))
  qed
qed simp

lemma inv_disk: "dc_inv c \<Longrightarrow> dc_inv (c\<lparr>dc_disk := d\<rparr>)"
  by (simp add: dc_inv_def dc_core_def dc_closing_def gate_ok_def block_ok_def)

lemma inv_list: "dc_inv c \<Longrightarrow> dc_inv (dc_emit (DcFileList es) c)"
  by (simp add: dc_inv_def dc_core_def dc_closing_def gate_ok_def block_ok_def)

text \<open>What becomes of the negotiated settings.\<close>

definition same_setting :: "dfile_conn \<Rightarrow> dfile_conn \<Rightarrow> bool" where
  "same_setting c c' \<longleftrightarrow> dc_negotiated c' = dc_negotiated c \<and> dc_block_size c' = dc_block_size c"

lemma flush_ack_inv:
  assumes "dc_inv c" "dc_rx c = Some t" "dt_phase t = DC_PH_RX_WAIT_DATA"
  shows "dc_inv (rx_flush_ack io c)"
proof -
  define c1 where "c1 = c\<lparr>dc_rx := Some (t\<lparr>dt_ack_pending := False\<rparr>)\<rparr>"
  have c1: "dc_inv c1" unfolding c1_def
    using assms by (intro inv_set_rx) (auto simp: dc_inv_def dc_core_def dc_closing_def rx_wf_def outcome_def dc_final_def)
  have "dc_inv c2" if "dc_send_opt io (dfile_encode_ack (dc_buf n) False tr 0 es) c1 = (c2, ok)" for n tr es c2 ok
    using inv_send [OF that _ c1] ack_not_data by blast
  then show ?thesis using c1 assms(2)
    by (auto simp: rx_flush_ack_def c1_def [symmetric] Let_def intro: inv_rules split: prod.splits)
qed

lemma send_done_inv:
  assumes "dc_inv c" "dc_rx c = Some t" "dt_phase t = DC_PH_RX_WAIT_DATA \<or> (\<forall>f. \<not> dio_send io f)"
  shows "dc_inv (rx_send_done io c)"
proof -
  obtain c1 ok where s: "dc_send_opt io (dc_idlist DFILE_FRAME_FILE_TRANSFER_DONE (dt_trans_id t) (map cf_file_id (dt_files t))) c = (c1, ok)"
    by fastforce
  have c1: "dc_inv c1" "dc_rx c1 = Some t" "dc_state c1 = dc_state c"
    using inv_send [OF s _ assms(1)] idlist_not_data assms(2) by (auto simp: dfile_types)
  have "\<exists>f. dio_send io f" if ok using that by (cases rule: send_opt_cases [OF s]) auto
  then have ph: "dt_phase t = DC_PH_RX_WAIT_DATA" if ok using that assms(3) by blast
  have "dc_inv (c1\<lparr>dc_rx := Some (t\<lparr>dt_done_sent := True, dt_phase := DC_PH_RX_WAIT_DONEACK\<rparr>)\<rparr>)" if ok
    using c1 assms(1,2) ph [OF that] by (intro inv_set_rx) (auto simp: dc_inv_def dc_core_def dc_closing_def rx_wf_def outcome_def dc_final_def)
  then show ?thesis using assms s c1 by (auto simp: rx_send_done_def intro: inv_rules)
qed

lemma doneack_inv:
  assumes "dc_inv c" "handle_doneack io f c = Some c'"
  shows "dc_inv c'"
proof (cases "\<exists>t. dc_rx c = Some t \<and> dt_phase t = DC_PH_RX_WAIT_DONEACK")
  case True
  then obtain t where t: "dc_rx c = Some t" "dt_phase t = DC_PH_RX_WAIT_DONEACK" by blast
  have "dc_inv (dc_emit (DcResult False True) (c\<lparr>dc_rx := Some (t\<lparr>dt_phase := DC_PH_RX_DONE\<rparr>)\<rparr>))"
    using assms(1) t by (auto simp: dc_inv_def dc_core_def dc_closing_def gate_ok_def block_ok_def rx_wf_def outcome_def dc_final_def)
  moreover obtain r where "dfile_decode_idlist f DFILE_FRAME_FILE_TRANSFER_DONE_ACK = Some r" using decode_total by blast
  ultimately show ?thesis using assms t inv_rules(2) [OF assms(1)]
    by (cases r) (auto simp: handle_doneack_def split: if_splits)
qed (use assms in \<open>auto simp: handle_doneack_def split: option.splits if_splits\<close>)

lemma file_list_inv:
  assumes "dc_inv c" "rx_file_list io t c = Some c'"
  shows "dc_inv c' \<and> dc_rx c' = dc_rx c \<and> dc_state c' = dc_state c \<and> same_setting c c'"
proof -
  define d where "d = dc_emit (DcFileList (dt_hdr t)) c"
  have d: "dc_inv d" "dc_rx d = dc_rx c" "dc_state d = dc_state c" "same_setting c d"
    unfolding d_def using inv_list [OF assms(1)] by (simp_all add: same_setting_def)
  consider "c' = d" | items ok where "send_files_impl io items d = Some (c', ok)"
    using assms(2) by (auto simp: rx_file_list_def Let_def d_def [symmetric] split: option.splits)
  then show ?thesis
  proof cases
    case 2
    then show ?thesis using send_files_inv [OF d(1)] d(2-4) unfolding same_setting_def by metis
  qed (use d in simp)
qed

lemma confirm_inv:
  assumes "dc_inv c" "dc_rx c = Some t" "dt_phase t = DC_PH_IDLE"
  shows "dc_inv (rx_confirm io t c)"
proof -
  obtain c1 s1 where s1: "dc_send_opt io (dc_idlist DFILE_FRAME_FILE_HEADER_CONFIRM (dt_trans_id t) (map fe_file_id (dt_hdr t))) c = (c1, s1)"
    by fastforce
  have c1: "dc_inv c1 \<and> dc_rx c1 = Some t \<and> dc_state c1 = dc_state c"
    using inv_send [OF s1] assms idlist_not_data by (auto simp: dfile_types)
  obtain c2 s2 where s2: "dc_send_opt io (dc_idlist DFILE_FRAME_FILE_TRANSFER_REQ (dt_trans_id t) (map fe_file_id (dt_hdr t))) c1 = (c2, s2)"
    by fastforce
  have c2: "dc_inv c2 \<and> dc_rx c2 = Some t \<and> dc_state c2 = dc_state c"
    using inv_send [OF s2] c1 idlist_not_data by (auto simp: dfile_types)
  have "dc_inv (c2\<lparr>dc_rx := Some (t\<lparr>dt_phase := DC_PH_RX_WAIT_DATA\<rparr>)\<rparr>)"
    using c2 assms by (intro inv_set_rx) (auto simp: dc_inv_def dc_core_def dc_closing_def rx_wf_def outcome_def dc_final_def)
  then show ?thesis using c1 c2 s1 s2 by (auto simp: rx_confirm_def Let_def intro: inv_rules)
qed

lemma header_complete_inv:
  assumes "dc_inv c" "rx_header_complete io c = Some c'"
  shows "dc_inv c'"
proof (cases "\<exists>t dir. dc_rx c = Some t \<and> dt_phase t = DC_PH_IDLE \<and> dc_recv_dir c = Some dir")
  case True
  then obtain t dir where t: "dc_rx c = Some t" "dt_phase t = DC_PH_IDLE" "dc_recv_dir c = Some dir" by blast
  obtain fs ok c1 where o: "rx_open_files io dir (dt_hdr t) c = Some (fs, ok, c1)"
    using assms(2) t by (auto simp: rx_header_complete_def bind_eq_Some_conv)
  define t1 where "t1 = t\<lparr>dt_files := fs\<rparr>"
  define c2 where "c2 = c1\<lparr>dc_rx := Some t1\<rparr>"
  obtain d where d: "c1 = c\<lparr>dc_disk := d\<rparr>" using open_files_disk [OF o] by blast
  have wf: "rx_wf t1" "dc_state c \<noteq> DC_ST_CLOSING" "outcome (Some t1) = outcome (dc_rx c)"
    using assms(1) t by (auto simp: dc_inv_def dc_core_def dc_closing_def rx_wf_def t1_def outcome_def dc_final_def)
  have c2: "dc_inv c2" unfolding c2_def d
    using inv_set_rx [OF inv_disk [OF assms(1)], of t1] wf by simp
  have "c' = trans_fail io False False (dc_send_rst io (dt_trans_id t) DFILE_RST_NO_ENOUGH_STORAGE [] c2) \<or>
      (\<exists>c3. rx_file_list io t1 c2 = Some c3 \<and> c' = rx_confirm io t1 c3)"
    using assms(2) t o by (auto simp: rx_header_complete_def Let_def t1_def c2_def split: if_splits)
  then show ?thesis
    using file_list_inv [OF c2] confirm_inv [of _ t1] c2 inv_rules(1,3) t by (auto simp: c2_def t1_def)
qed (use assms in \<open>auto simp: rx_header_complete_def intro: inv_rules split: option.splits if_splits\<close>)

lemma file_header_inv:
  assumes "dc_inv c" "dc_state c \<noteq> DC_ST_CLOSING" "handle_file_header io f c = Some c'"
  shows "dc_inv c'"
proof (cases "\<exists>t. dc_rx c = Some t \<and> (dt_phase t = DC_PH_FAILED \<or> dt_phase t = DC_PH_RX_DONE)")
  case True
  then have "c' = c" using assms(3) by (auto simp: handle_file_header_def)
  then show ?thesis using assms(1) by simp
next
  case False
  obtain r where r: "dfile_decode_file_header f = Some r" using decode_total by blast
  show ?thesis
  proof (cases r)
    case None
    then have "c' = shutdown_common io c"
      using assms(3) False r by (cases "dc_rx c") (auto simp: handle_file_header_def)
    then show ?thesis using assms(1) by (auto intro: inv_rules)
  next
    case (Some x)
    then obtain tr node es where x: "r = Some (tr, node, es)" by (cases x) auto
    define t where "t = (case dc_rx c of None \<Rightarrow> (trans_new False tr (dio_now io))\<lparr>dt_node_number := node\<rparr> | Some t \<Rightarrow> t)"
    obtain hdr ok where a: "rx_accept (unat node) (dt_hdr t) es = (hdr, ok)" by fastforce
    define c1 where "c1 = c\<lparr>dc_rx := Some (t\<lparr>dt_hdr := hdr\<rparr>)\<rparr>"
    have "rx_wf t" "outcome (Some t) = outcome (dc_rx c)"
      using assms(1) False
      by (auto simp: t_def dc_inv_def dc_core_def rx_wf_def trans_new_def outcome_def split: option.splits)
    then have c1: "dc_inv c1" unfolding c1_def using assms(1,2)
      by (intro inv_set_rx) (auto simp: rx_wf_def outcome_def)
    have "c' = shutdown_common io c \<or> c' = shutdown_common io c1 \<or> c' = c1 \<or> rx_header_complete io c1 = Some c'"
      using assms(3) False r x a [unfolded t_def] unfolding c1_def t_def
      by (cases "dc_rx c") (auto simp: handle_file_header_def Let_def split: if_splits)
    then show ?thesis using assms(1) c1 inv_rules(2) header_complete_inv by blast
  qed
qed

text \<open>An accepted block changes the disk and the file it belongs to; anything else ends the
  connection or is ignored.\<close>

lemma data_cases:
  assumes "handle_data io frame c = Some c'"
  obtains "c' = c" | "c' = shutdown_common io c" | tr code where "c' = rx_refuse io tr code c"
  | t f fd tr fl seq pay f1 where "dc_rx c = Some t" "dt_phase t = DC_PH_RX_WAIT_DATA"
      "dfile_decode_data frame = Some (Some (tr, fl, cf_file_id f, seq, pay))" "tr = dt_trans_id t"
      "find_file t (cf_file_id f) = Some f" "seq < cf_total_blocks f" "seq = cf_expected_seq f"
      "length pay = dc_block_want (dc_block_size c) (cf_size f) seq" "cf_fd f = Some fd"
      "f1 = f\<lparr>cf_sha := cf_sha f @ pay, cf_expected_seq := seq + 1\<rparr>"
      "c' = c\<lparr>dc_disk := (dc_disk c)(fd := dc_pwrite (dc_disk c fd) (unat (dc_block_off (dc_block_size c) seq)) pay),
              dc_rx := Some (t\<lparr>dt_files := put_file
                (if cf_total_blocks f \<le> seq + 1 then f1\<lparr>cf_write_complete := True, cf_fd := None\<rparr> else f1)
                (dt_files t), dt_ack_pending := True\<rparr>)\<rparr>"
proof -
  obtain r where r: "dfile_decode_data frame = Some r" using decode_total by blast
  show thesis
  proof (cases r)
    case None
    then show thesis using assms r that(2) by (simp add: handle_data_def)
  next
    case (Some x)
    then obtain tr fl i seq pay where x: "r = Some (tr, fl, i, seq, pay)" by (cases x) auto
    show thesis
    proof (cases "\<exists>t f. dc_rx c = Some t \<and> dt_phase t = DC_PH_RX_WAIT_DATA \<and> tr = dt_trans_id t \<and> find_file t i = Some f")
      case False
      then show thesis using assms r x that(3)
        by (auto simp: handle_data_def split: option.splits if_splits)
    next
      case True
      then obtain t f where t: "dc_rx c = Some t" "dt_phase t = DC_PH_RX_WAIT_DATA" "tr = dt_trans_id t" "find_file t i = Some f"
        by blast
      have i: "cf_file_id f = i" using find_in [of _ "dt_files t" f] t(4) by (auto simp: find_file_def)
      show thesis
      proof (cases "seq < cf_total_blocks f \<and> seq = cf_expected_seq f \<and>
          length pay = dc_block_want (dc_block_size c) (cf_size f) seq \<and>
          (\<exists>fd. cf_fd f = Some fd \<and> dio_pwrite io fd (dc_block_off (dc_block_size c) seq) pay)")
        case False
        then show thesis using assms r x t that(1,3)
          by (auto simp: handle_data_def Let_def not_less split: if_splits option.splits)
      next
        case True
        then obtain fd where fd: "cf_fd f = Some fd" "dio_pwrite io fd (dc_block_off (dc_block_size c) seq) pay" by blast
        have q: "seq < cf_total_blocks f" "seq = cf_expected_seq f"
          "length pay = dc_block_want (dc_block_size c) (cf_size f) seq" using True by auto
        define f1 where "f1 = f\<lparr>cf_sha := cf_sha f @ pay, cf_expected_seq := seq + 1\<rparr>"
        have c': "c' = c\<lparr>dc_disk := (dc_disk c)(fd := dc_pwrite (dc_disk c fd) (unat (dc_block_off (dc_block_size c) seq)) pay),
              dc_rx := Some (t\<lparr>dt_files := put_file
                (if cf_total_blocks f \<le> seq + 1 then f1\<lparr>cf_write_complete := True, cf_fd := None\<rparr> else f1)
                (dt_files t), dt_ack_pending := True\<rparr>)\<rparr>"
        proof -
          have n: "\<not> cf_total_blocks f \<le> seq" "\<not> seq < cf_expected_seq f" "\<not> cf_expected_seq f < seq"
            using q(1,2) by auto
          show ?thesis using assms r x t fd q(3) unfolding f1_def by (simp add: handle_data_def Let_def n del: not_le not_less)
        qed
        have d: "dfile_decode_data frame = Some (Some (tr, fl, cf_file_id f, seq, pay))" using r x i by simp
        show thesis by (rule that(4) [OF t(1,2) d t(3) t(4) [folded i] q fd(1) f1_def c'])
      qed
    qed
  qed
qed

lemma refuse_inv: "dc_inv c \<Longrightarrow> dc_inv (rx_refuse io tr code c)"
  unfolding rx_refuse_def by (intro inv_rules)

lemma data_inv:
  assumes "dc_inv c" "handle_data io f c = Some c'"
  shows "dc_inv c'"
  using assms(2)
proof (cases rule: data_cases)
  case (4 t g fd tr fl seq pay f1)
  have "dc_inv (c\<lparr>dc_disk := d, dc_rx := Some (t\<lparr>dt_files := fs, dt_ack_pending := True\<rparr>)\<rparr>)" for d fs
    using assms(1) 4 by (intro inv_set_rx inv_disk)
      (auto simp: dc_inv_def dc_core_def dc_closing_def rx_wf_def outcome_def dc_final_def)
  then show ?thesis using 4 by simp
qed (use assms(1) in \<open>auto intro: inv_rules refuse_inv\<close>)

section \<open>Every step keeps it\<close>

lemma pick_block: "64 \<le> dc_pick_block s \<and> dc_pick_block s \<le> 14706"
  by (auto simp: dc_pick_block_def dfile_lens Let_def)

lemma setting_inv:
  assumes "dc_inv c" "dc_state c \<noteq> DC_ST_CLOSING" "handle_setting io f c = Some c'"
  shows "dc_inv c'"
proof -
  obtain r where r: "dfile_decode_setting f = Some r" using decode_total by blast
  consider "c' = c" | "c' = shutdown_common io c" | "c' = shutdown_common io (dc_send_rst io 0 DFILE_RST_WITHOUT_SETTING [] c)"
    | s where "c' = dc_emit DcNegotiated
          (c\<lparr>dc_peer_setting := Some s, dc_block_size := dc_pick_block s, dc_negotiated := True, dc_state := DC_ST_READY\<rparr>)"
    using assms(3) r by (cases r) (auto simp: handle_setting_def split: if_splits)
  then show ?thesis
  proof cases
    case 4
    then show ?thesis using assms(1,2) pick_block [of s]
      by (auto simp: dc_inv_def dc_core_def dc_closing_def gate_ok_def block_ok_def)
  qed (use assms(1) in \<open>auto intro: inv_rules\<close>)
qed

lemma rst_cases:
  assumes "handle_rst io f c = Some c'"
  shows "c' \<in> {c, shutdown_common io c, trans_fail io True False c, trans_fail io False False c}"
proof -
  obtain r where "dfile_decode_rst f = Some r" using decode_total by blast
  then show ?thesis using assms by (cases r) (auto simp: handle_rst_def split: if_splits)
qed

lemma rst_inv: "dc_inv c \<Longrightarrow> handle_rst io f c = Some c' \<Longrightarrow> dc_inv c'"
  using rst_cases [of io f c c'] by (auto intro: inv_rules)

lemma frame_cases:
  assumes "handle_frame io f c = Some c'"
  shows "c' = c \<or> c' = shutdown_common io c \<or> handle_setting io f c = Some c' \<or>
    handle_file_header io f c = Some c' \<or> handle_tx_ctrl io (hd f) f c = Some c' \<or>
    handle_data io f c = Some c' \<or> handle_ack io f c = Some c' \<or>
    hd f = DFILE_FRAME_FILE_TRANSFER_DONE \<and> handle_done io f c = Some c' \<or>
    handle_doneack io f c = Some c' \<or> handle_rst io f c = Some c'"
proof -
  obtain u where u: "dfile_frame_header_unpack f = Some u" using assms by (auto simp: handle_frame_def bind_eq_Some_conv)
  then show ?thesis using assms unpack_type by (cases u) (auto simp: handle_frame_def Let_def split: if_splits)
qed

lemma frame_inv:
  assumes "dc_inv c" "dc_state c \<noteq> DC_ST_CLOSING" "handle_frame io f c = Some c'"
  shows "dc_inv c'"
  using frame_cases [OF assms(3)]
  by (elim disjE conjE) (use assms(1,2) in \<open>auto intro: inv_rules setting_inv file_header_inv tx_ctrl_inv
      data_inv tx_ack_inv tx_done_inv doneack_inv rst_inv\<close>)

text \<open>The tick.  The sender's results need no assumption; a receiver's acknowledgement that fails
  must not be followed by a \<open>DONE\<close> that goes through.\<close>

definition socket_steady :: "dc_io \<Rightarrow> bool" where
  "socket_steady io \<longleftrightarrow> (\<forall>f. dio_send io f) \<or> (\<forall>f. \<not> dio_send io f)"

lemma fail_again: "opt_all (\<lambda>t. dc_final (dt_phase t)) (dc_trans_of s c) \<Longrightarrow> trans_fail io s r c = c"
  by (cases "dc_trans_of s c") (auto simp: trans_fail_def)

lemma ack_encodes:
  assumes "length es \<le> DFILE_MAX_ACK_ENTRIES"
  shows "\<exists>w. dfile_encode_ack (dc_buf (DFILE_FRAME_HEADER_LEN + 12 + 37 * DFILE_MAX_ACK_ENTRIES)) False tr 0 es = Some w"
proof -
  have "unat (ack_count_field False (length es)) = 6 + 37 * length es"
    using assms unfolding ack_count_field_def by (subst unat_of_nat_small) (simp_all add: dfile_lens)
  then show ?thesis using assms by (simp add: dfile_encode_ack_def dfile_lens Let_def)
qed

text \<open>The phase of the receiver after the acknowledgements were flushed.\<close>

lemma flush_ack_phase:
  assumes "dc_rx c = Some t" "dt_phase t = DC_PH_RX_WAIT_DATA" "socket_steady io"
  obtains t1 where "dc_rx (rx_flush_ack io c) = Some t1" "dt_phase t1 = DC_PH_RX_WAIT_DATA \<or> (\<forall>f. \<not> dio_send io f)"
proof -
  define d where "d = c\<lparr>dc_rx := Some (t\<lparr>dt_ack_pending := False\<rparr>)\<rparr>"
  define es where "es = take DFILE_MAX_ACK_ENTRIES
     (map (\<lambda>f. \<lparr>ae_file_id = cf_file_id f, ae_last_seq = cf_expected_seq f - 1, ae_c = 0, ae_d = 0\<rparr>)
       (filter (\<lambda>f. 0 < cf_expected_seq f) (dt_files t)))"
  have "length es \<le> DFILE_MAX_ACK_ENTRIES" by (simp add: es_def)
  then obtain w where w: "dfile_encode_ack (dc_buf (DFILE_FRAME_HEADER_LEN + 12 + 37 * DFILE_MAX_ACK_ENTRIES)) False (dt_trans_id t) 0 es = Some w"
    using ack_encodes by blast
  have d: "dc_rx d = Some (t\<lparr>dt_ack_pending := False\<rparr>)" by (simp add: d_def)
  have "rx_flush_ack io c = (if es = [] then d else if dio_send io w then dc_emit (DcFrame w) d else trans_fail io False False d)"
    using w by (simp add: rx_flush_ack_def assms(1) d_def [symmetric] es_def [symmetric] Let_def dc_send_opt_def dc_send_def)
  moreover have "dc_rx (trans_fail io False False d) = Some (t\<lparr>dt_ack_pending := False, dt_phase := DC_PH_FAILED\<rparr>)"
    using assms(2) d by (simp add: trans_fail_def dc_trans_of_def dc_final_def dc_set_trans_def)
  ultimately show thesis using that assms(2,3) d by (auto simp: socket_steady_def split: if_splits)
qed

lemma tick_rx_inv:
  assumes "dc_inv c" "socket_steady io"
  shows "dc_inv (on_tick_rx io c)"
proof (cases "\<exists>t. dc_rx c = Some t \<and> dt_phase t = DC_PH_RX_WAIT_DATA")
  case True
  then obtain t where t: "dc_rx c = Some t" "dt_phase t = DC_PH_RX_WAIT_DATA" by blast
  define c1 where "c1 = (if dt_ack_pending t then rx_flush_ack io c else c)"
  have c1: "dc_inv c1" unfolding c1_def using assms(1) flush_ack_inv [OF assms(1) t] by simp
  have tick: "on_tick_rx io c = c1 \<or> on_tick_rx io c = rx_send_done io c1"
    using t by (simp add: on_tick_rx_def dc_in_phase_def c1_def [symmetric] Let_def)
  obtain t1 where "dc_rx c1 = Some t1" "dt_phase t1 = DC_PH_RX_WAIT_DATA \<or> (\<forall>f. \<not> dio_send io f)"
  proof (cases "dt_ack_pending t")
    case True
    then show thesis using flush_ack_phase [OF t assms(2)] that unfolding c1_def by auto
  qed (use t that c1_def in simp)
  then show ?thesis using send_done_inv [OF c1] tick c1 by auto
qed (use assms in \<open>auto simp: on_tick_rx_def dc_in_phase_def split: option.splits\<close>)

lemma tick_tx_inv:
  assumes "dc_inv c"
  shows "dc_inv (on_tick_tx io c)"
proof (cases "\<exists>t. dc_tx c = Some t \<and> dt_phase t \<in> {DC_PH_TX_SENDING, DC_PH_TX_WAIT_DONE}")
  case True
  then obtain t where t: "dc_tx c = Some t" "dt_phase t \<in> {DC_PH_TX_SENDING, DC_PH_TX_WAIT_DONE}" by blast
  define c1 where "c1 = tx_pump io c"
  have c1: "dc_inv c1" unfolding c1_def by (rule pump_inv [OF assms t])
  define u where "u = the (dc_tx c1)"
  define t1 where "t1 = (if dt_phase u = DC_PH_TX_SENDING \<and> tx_all_sent u then u\<lparr>dt_phase := DC_PH_TX_WAIT_DONE\<rparr> else u)"
  have u: "dc_tx c1 = Some u" unfolding u_def c1_def
    by (auto simp: tx_pump_def t Let_def trans_fail_def dc_trans_of_def dc_set_trans_def split: option.splits prod.splits)
  have "dc_inv (c1\<lparr>dc_tx := Some t1\<rparr>)"
  proof (cases "t1 = u")
    case True
    then have "c1\<lparr>dc_tx := Some t1\<rparr> = c1" using u by (cases c1) simp
    then show ?thesis using c1 by simp
  next
    case False
    then show ?thesis using c1 u
      by (intro inv_set_tx) (auto simp: t1_def dc_inv_def dc_core_def dc_closing_def tx_wf_def armed_def outcome_def dc_final_def split: if_splits)
  qed
  moreover have "on_tick_tx io c = c1 \<or> on_tick_tx io c = c1\<lparr>dc_tx := Some t1\<rparr> \<or> on_tick_tx io c = tx_finish io (c1\<lparr>dc_tx := Some t1\<rparr>)"
    using t by (simp add: on_tick_tx_def dc_in_phase_def c1_def [symmetric] u_def [symmetric] t1_def [symmetric] Let_def)
  ultimately show ?thesis using c1 finish_inv by metis
qed (use assms in \<open>auto simp: on_tick_tx_def dc_in_phase_def split: option.splits\<close>)

lemma tick_retry_inv:
  assumes "dc_inv c"
  shows "dc_inv (on_tick_retry io c)"
proof (cases "\<exists>t. dc_tx c = Some t \<and> dt_phase t = DC_PH_TX_WAIT_CONFIRM_REQ \<and> DC_CTRL_RETRY_INTERVAL_MS < dio_now io - dt_last_ctrl_ms t")
  case True
  then obtain t where t: "dc_tx c = Some t" "dt_phase t = DC_PH_TX_WAIT_CONFIRM_REQ"
    "DC_CTRL_RETRY_INTERVAL_MS < dio_now io - dt_last_ctrl_ms t" by blast
  define t1 where "t1 = t\<lparr>dt_ctrl_retries := dt_ctrl_retries t + 1\<rparr>"
  define c1 where "c1 = c\<lparr>dc_tx := Some t1\<rparr>"
  have wf: "tx_wf t" "dc_state c \<noteq> DC_ST_CLOSING"
    using assms t by (auto simp: dc_inv_def dc_core_def dc_closing_def dc_final_def)
  have set_tx: "dc_inv (d\<lparr>dc_tx := Some (t1\<lparr>dt_last_ctrl_ms := x\<rparr>)\<rparr>)" if "dc_inv d" "dc_tx d = Some t \<or> dc_tx d = Some t1" "dc_state d = dc_state c" for d x
    using that wf t by (intro inv_set_tx) (auto simp: t1_def tx_wf_def armed_def outcome_def)
  have c1: "dc_inv c1" unfolding c1_def
    using assms wf t by (intro inv_set_tx) (auto simp: t1_def tx_wf_def armed_def outcome_def)
  obtain c2 ok where h: "tx_send_header io t1 c1 = (c2, ok)" by fastforce
  have c2: "dc_inv c2" "dc_tx c2 = Some t1" "dc_state c2 = dc_state c"
    using header_inv [OF h c1] emits_same(1,3) [OF header_emits [OF h]] by (simp_all add: c1_def)
  have "on_tick_retry io c = trans_fail io True True c1 \<or>
      on_tick_retry io c = c2\<lparr>dc_tx := Some (t1\<lparr>dt_last_ctrl_ms := dio_now io\<rparr>)\<rparr> \<or> on_tick_retry io c = trans_fail io True False c2"
    using t h by (simp add: on_tick_retry_def t1_def [symmetric] c1_def [symmetric] Let_def)
  then show ?thesis using c1 c2 set_tx [OF c2(1)] by (auto intro: inv_rules)
qed (use assms in \<open>auto simp: on_tick_retry_def split: option.splits\<close>)

lemma tick_inv:
  assumes "dc_inv c" "socket_steady io"
  shows "dc_inv (on_tick io c)"
  unfolding on_tick_def Let_def
  by (auto intro!: inv_rules tick_rx_inv tick_tx_inv tick_retry_inv assms)

text \<open>The receive buffer as a frame reader.\<close>

definition df_verdict :: "bytes \<Rightarrow> verdict" where
  "df_verdict buf =
     (case dfile_frame_header_unpack buf of
        Some (UnpackOk h) \<Rightarrow>
          if length buf < DFILE_FRAME_HEADER_LEN + unat (df_length h) then NeedMore
          else Frame (DFILE_FRAME_HEADER_LEN + unat (df_length h))
      | Some UnpackShort \<Rightarrow> NeedMore
      | _ \<Rightarrow> Corrupt)"

lemma unpack_total: "dfile_frame_header_unpack buf \<noteq> None"
  by (auto simp: dfile_frame_header_unpack_def bind_eq_None_conv get_u8_def get_u16_def dfile_lens)

interpretation dffr: framer df_verdict
proof
  fix b n r
  show "df_verdict b = Frame n \<Longrightarrow> 0 < n \<and> n \<le> length b"
    by (auto simp: df_verdict_def dfile_lens split: option.splits dfile_unpacked.splits if_splits)
  have ext: "dfile_frame_header_unpack (b @ r) = dfile_frame_header_unpack b" if "8 \<le> length b"
    using that by (simp add: dfile_frame_header_unpack_def get_append dfile_lens)
  have short: "8 \<le> length b" if "dfile_frame_header_unpack b \<noteq> Some UnpackShort"
    using that by (auto simp: dfile_frame_header_unpack_def dfile_lens split: if_splits)
  show "df_verdict b = Frame n \<Longrightarrow> df_verdict (b @ r) = Frame n"
    using ext short by (auto simp: df_verdict_def split: option.splits dfile_unpacked.splits if_splits)
  show "df_verdict b = Corrupt \<Longrightarrow> df_verdict (b @ r) = Corrupt"
    using ext short unpack_total [of b] by (auto simp: df_verdict_def split: option.splits dfile_unpacked.splits if_splits)
qed

lemma frames_eq:
  "dc_frames io buf c =
     (case df_verdict buf of
        NeedMore \<Rightarrow> Some (c, buf)
      | Corrupt \<Rightarrow> Some (shutdown_common io c, buf)
      | Frame n \<Rightarrow>
          (case handle_frame io (take n buf) c of
             None \<Rightarrow> None
           | Some c1 \<Rightarrow> if dc_state c1 = DC_ST_CLOSING then Some (c1, buf) else dc_frames io (drop n buf) c1))"
proof -
  obtain u where "dfile_frame_header_unpack buf = Some u" using unpack_total by blast
  then show ?thesis by (subst dc_frames.simps) (cases u; simp add: df_verdict_def Let_def)
qed

lemma frames_inv:
  "dc_inv c \<Longrightarrow> dc_state c \<noteq> DC_ST_CLOSING \<Longrightarrow> dc_frames io buf c = Some (c', r) \<Longrightarrow> dc_inv c'"
proof (induction "length buf" arbitrary: buf c rule: less_induct)
  case less
  show ?case
  proof (cases "df_verdict buf")
    case (Frame n)
    then obtain c1 where h: "handle_frame io (take n buf) c = Some c1"
      using less.prems(3) by (subst (asm) frames_eq) (auto split: option.splits)
    have c1: "dc_inv c1" by (rule frame_inv [OF less.prems(1,2) h])
    show ?thesis
    proof (cases "dc_state c1 = DC_ST_CLOSING")
      case True
      then show ?thesis using less.prems(3) Frame h c1 by (subst (asm) frames_eq) auto
    next
      case False
      then have "dc_frames io (drop n buf) c1 = Some (c', r)" using less.prems(3) Frame h by (subst (asm) frames_eq) simp
      moreover have "length (drop n buf) < length buf" using dffr.frame_pos [OF Frame] by auto
      ultimately show ?thesis using less.hyps c1 False by blast
    qed
  qed (use less.prems inv_rules(2) in \<open>subst (asm) frames_eq, auto\<close>)+
qed

lemma drain_inv:
  "dc_inv (fst s) \<Longrightarrow> dc_state (fst s) \<noteq> DC_ST_CLOSING \<Longrightarrow> dc_drain io rs s = Some s' \<Longrightarrow> dc_inv (fst s')"
proof (induction io rs s rule: dc_drain.induct)
  case (2 io d rs c buf)
  then obtain c1 r where c1: "dc_frames io (buf @ d) c = Some (c1, r)" by (auto split: option.splits)
  then have "dc_inv c1" using frames_inv 2 by fastforce
  then show ?case using 2 c1 by (auto split: if_splits)
qed (auto intro: inv_rules)

lemma step_inv:
  assumes "dc_inv (fst s)" "socket_steady io" "dc_step io ev s = Some s'"
  shows "dc_inv (fst s')"
proof -
  obtain c buf where s: "s = (c, buf)" by (cases s)
  have c: "dc_inv c" using assms(1) s by simp
  have start: "dc_inv (dc_send_local_setting io c)"
  proof (cases "dc_local_setting_sent c")
    case False
    obtain c1 ok where e: "dc_send_opt io (dfile_encode_setting (dc_buf (DFILE_FRAME_HEADER_LEN + DFILE_SETTING_PAYLOAD_LEN)) dc_local_setting) c = (c1, ok)"
      by fastforce
    have c1: "dc_inv c1" using inv_send [OF e _ c] setting_not_data by blast
    moreover have "dc_inv (c1\<lparr>dc_local_setting_sent := True\<rparr>)"
      using c1 by (simp add: dc_inv_def dc_core_def dc_closing_def gate_ok_def block_ok_def)
    ultimately show ?thesis using e False by (auto simp: dc_send_local_setting_def intro: inv_rules)
  qed (use c in \<open>simp add: dc_send_local_setting_def\<close>)
  show ?thesis
  proof (cases ev)
    case (DcInput rs)
    then show ?thesis using assms(3) c drain_inv [of s io rs s'] by (auto simp: dc_step_def s split: if_splits)
  next
    case (DcSendFiles items)
    then show ?thesis using assms(3) send_files_inv [OF c] by (fastforce simp: dc_step_def s)
  qed (use assms(2,3) c start in \<open>auto simp: dc_step_def s close_impl_def intro: inv_rules tick_inv\<close>)
qed

lemma fresh_inv: "dc_inv (fst (dc_fresh dir now))"
  by (simp add: dc_fresh_def dfile_conn_set_recv_dir_def dc_alloc_def dc_inv_def dc_core_def dc_closing_def gate_ok_def
      block_ok_def outcome_def)

lemma run_inv:
  "dc_inv (fst s) \<Longrightarrow> \<forall>(io, ev) \<in> set evs. socket_steady io \<Longrightarrow> dc_run evs s = Some s' \<Longrightarrow> dc_inv (fst s')"
proof (induction evs arbitrary: s)
  case (Cons e evs)
  obtain io ev where e: "e = (io, ev)" by (cases e)
  obtain s1 where "dc_step io ev s = Some s1" "dc_run evs s1 = Some s'" using Cons.prems(3) e by (auto split: option.splits)
  then show ?case using Cons.IH [of s1] Cons.prems(1,2) e step_inv [of s io ev s1] by auto
qed simp

section \<open>Settings and totality\<close>

lemma setting_refl [simp]: "same_setting c c"
  by (simp add: same_setting_def)

lemma setting_trans: "same_setting a b \<Longrightarrow> same_setting b c \<Longrightarrow> same_setting a c"
  by (simp add: same_setting_def)

lemma setting_update [simp]:
  "same_setting c (d\<lparr>dc_tx := x\<rparr>) = same_setting c d" "same_setting c (d\<lparr>dc_rx := y\<rparr>) = same_setting c d"
  "same_setting c (d\<lparr>dc_disk := k\<rparr>) = same_setting c d" "same_setting c (dc_emit e d) = same_setting c d"
  "same_setting c (d\<lparr>dc_state := st\<rparr>) = same_setting c d"
  "same_setting c (d\<lparr>dc_local_setting_sent := v\<rparr>) = same_setting c d"
  "same_setting c (d\<lparr>dc_next_trans_id := i\<rparr>) = same_setting c d"
  by (simp_all add: same_setting_def)

lemma setting_emits: "emits P c c' \<Longrightarrow> same_setting c c'"
  by (simp add: same_setting_def emits_same)

lemma setting_send: "dc_send_opt io fo c = (c', ok) \<Longrightarrow> same_setting c c'"
  by (drule emits_send_opt) (rule setting_emits)

lemma setting_fail [simp]:
  "same_setting c (trans_fail io s rst d) = same_setting c d"
  "same_setting c (dc_send_rst io tr code ids d) = same_setting c d"
  "same_setting c (shutdown_common io d) = same_setting c d"
  "same_setting c (rx_refuse io tr code d) = same_setting c d"
  by (simp_all add: same_setting_def shutdown_common_def rx_refuse_def Let_def)

lemma shutdown_setting [simp]:
  "dc_negotiated (shutdown_common io c) = dc_negotiated c" "dc_block_size (shutdown_common io c) = dc_block_size c"
  by (simp_all add: shutdown_common_def Let_def)

lemma setting_finish: "same_setting c (tx_finish io c)"
  by (auto simp: tx_finish_def split: option.splits prod.splits dest: setting_send)

lemma setting_pump: "same_setting c (tx_pump io c)"
proof (cases "dc_tx c")
  case (Some t)
  obtain fs c1 l r where p: "tx_pump_files io (dc_block_size c) (dt_trans_id t) DC_SEND_BUDGET (dt_last_retran_ms t) (dt_files t) c = (fs, c1, l, r)"
    by (metis prod_cases4)
  have "same_setting c c1" using pump_files_emits [OF p] setting_emits by blast
  then show ?thesis using p by (simp add: tx_pump_def Some Let_def split: option.splits)
qed (simp add: tx_pump_def)

lemma setting_send_files: "send_files_impl io items c = Some (c', ok) \<Longrightarrow> same_setting c c'"
proof (cases "dc_open_items io (dc_block_size c) 0 items")
  case (Some r)
  assume a: "send_files_impl io items c = Some (c', ok)"
  have h: "same_setting c d'" if "tx_send_header io t d = (d', k)" "same_setting c d" for t d d' k
    using setting_emits [OF header_emits [OF that(1)]] that(2) setting_trans by blast
  show ?thesis using a Some
    by (cases r) (auto simp: send_files_impl_def Let_def split: if_splits prod.splits dest!: h)
qed (auto simp: send_files_impl_def Let_def split: if_splits)

lemma setting_file_list: "rx_file_list io t c = Some c' \<Longrightarrow> same_setting c c'"
proof -
  assume a: "rx_file_list io t c = Some c'"
  define d where "d = dc_emit (DcFileList (dt_hdr t)) c"
  have "same_setting c d" by (simp add: d_def)
  moreover have "c' = d \<or> (\<exists>items ok. send_files_impl io items d = Some (c', ok))"
    using a by (auto simp: rx_file_list_def Let_def d_def [symmetric] split: option.splits)
  ultimately show ?thesis using setting_send_files setting_trans by blast
qed

lemma setting_confirm: "same_setting c (rx_confirm io t c)"
proof -
  obtain c1 s1 where s1: "dc_send_opt io (dc_idlist DFILE_FRAME_FILE_HEADER_CONFIRM (dt_trans_id t) (map fe_file_id (dt_hdr t))) c = (c1, s1)"
    by fastforce
  obtain c2 s2 where s2: "dc_send_opt io (dc_idlist DFILE_FRAME_FILE_TRANSFER_REQ (dt_trans_id t) (map fe_file_id (dt_hdr t))) c1 = (c2, s2)"
    by fastforce
  show ?thesis using setting_send [OF s1] setting_send [OF s2] setting_trans by (auto simp: rx_confirm_def Let_def s1 s2)
qed

lemma setting_header_complete: "rx_header_complete io c = Some c' \<Longrightarrow> same_setting c c'"
proof (cases "\<exists>t dir. dc_rx c = Some t \<and> dt_phase t = DC_PH_IDLE \<and> dc_recv_dir c = Some dir")
  case True
  assume a: "rx_header_complete io c = Some c'"
  obtain t dir where t: "dc_rx c = Some t" "dt_phase t = DC_PH_IDLE" "dc_recv_dir c = Some dir" using True by blast
  obtain fs ok c1 where o: "rx_open_files io dir (dt_hdr t) c = Some (fs, ok, c1)"
    using a t by (auto simp: rx_header_complete_def bind_eq_Some_conv)
  define t1 where "t1 = t\<lparr>dt_files := fs\<rparr>"
  define c2 where "c2 = c1\<lparr>dc_rx := Some t1\<rparr>"
  have "same_setting c c2" using open_files_disk [OF o] by (metis c2_def setting_refl setting_update(2,3))
  moreover have "c' = trans_fail io False False (dc_send_rst io (dt_trans_id t) DFILE_RST_NO_ENOUGH_STORAGE [] c2) \<or>
      (\<exists>c3. rx_file_list io t1 c2 = Some c3 \<and> c' = rx_confirm io t1 c3)"
    using a t o by (auto simp: rx_header_complete_def Let_def t1_def c2_def split: if_splits)
  ultimately show ?thesis using setting_file_list setting_confirm setting_trans by (metis setting_fail(1,2))
qed (auto simp: rx_header_complete_def split: option.splits if_splits)

lemma setting_frame:
  assumes "dc_negotiated c" "handle_frame io f c = Some c'"
  shows "same_setting c c'"
proof -
  have hdr: "same_setting c c'" if h: "handle_file_header io f c = Some c'"
  proof -
    have "c' = c \<or> c' = shutdown_common io c \<or> (\<exists>t. c' = shutdown_common io (c\<lparr>dc_rx := t\<rparr>)) \<or> (\<exists>t. c' = c\<lparr>dc_rx := t\<rparr>) \<or>
        (\<exists>t. rx_header_complete io (c\<lparr>dc_rx := t\<rparr>) = Some c')"
    proof -
      obtain r where "dfile_decode_file_header f = Some r" using decode_total by blast
      then show ?thesis using h by (cases r) (auto simp: handle_file_header_def Let_def split: if_splits prod.splits)
    qed
    then show ?thesis using setting_header_complete [of io] by (elim disjE exE) (auto simp: same_setting_def)
  qed
  have ctrl: "same_setting c c'" if "handle_tx_ctrl io ty f c = Some c'" for ty
    using that decode_total(3) [of f ty]
    by (auto simp: handle_tx_ctrl_def bind_eq_Some_conv split: option.splits if_splits)
  have fin: "same_setting c (tx_finish io (c\<lparr>dc_tx := x\<rparr>))" for x
    using setting_finish [of "c\<lparr>dc_tx := x\<rparr>" io] by (simp add: same_setting_def)
  have ack: "same_setting c c'" if h: "handle_ack io f c = Some c'"
  proof -
    obtain r where "dfile_decode_ack f = Some r" using decode_total by blast
    then show ?thesis using h fin by (cases r) (auto simp: handle_ack_def Let_def split: option.splits if_splits)
  qed
  have dn: "same_setting c c'" if h: "handle_done io f c = Some c'"
  proof -
    obtain r where "dfile_decode_idlist f DFILE_FRAME_FILE_TRANSFER_DONE = Some r" using decode_total by blast
    then show ?thesis using h fin by (cases r) (auto simp: handle_done_def Let_def split: option.splits if_splits)
  qed
  have da: "same_setting c c'" if "handle_doneack io f c = Some c'"
    using that by (auto simp: handle_doneack_def bind_eq_Some_conv split: option.splits if_splits)
  have dat: "same_setting c c'" if "handle_data io f c = Some c'"
    using that by (cases rule: data_cases) auto
  have rst: "same_setting c c'" if "handle_rst io f c = Some c'"
    using rst_cases [OF that] by auto
  have set: "same_setting c c'" if "handle_setting io f c = Some c'"
    using that assms(1) by (simp add: handle_setting_def)
  show ?thesis using frame_cases [OF assms(2)] hdr ctrl ack dn da dat rst set by (elim disjE conjE) simp_all
qed

text \<open>With a block size there is no undefined behaviour.\<close>

lemma blocks_some: "bs \<noteq> 0 \<Longrightarrow> \<exists>n. dc_blocks bs sz = Some n"
  by (simp add: dc_blocks_def)

lemma open_items_total: "bs \<noteq> 0 \<Longrightarrow> \<exists>r. dc_open_items io bs i its = Some r"
proof (induction its arbitrary: i)
  case (Cons it its)
  obtain r where "dc_open_items io bs (i + 1) its = Some r" using Cons by blast
  then show ?case using Cons.prems by (auto simp: dc_blocks_def split: option.splits)
qed simp

lemma send_files_total: "dc_block_size c \<noteq> 0 \<Longrightarrow> \<exists>r. send_files_impl io items c = Some r"
  using open_items_total [of "dc_block_size c" io 0 items] by (auto simp: send_files_impl_def Let_def)

lemma open_file_total: "dc_block_size c \<noteq> 0 \<Longrightarrow> \<exists>r c'. rx_open_file io dir he c = Some (r, c')"
  by (auto simp: rx_open_file_def dc_blocks_def Let_def split: option.splits)

lemma open_files_total: "dc_block_size c \<noteq> 0 \<Longrightarrow> \<exists>r. rx_open_files io dir hes c = Some r"
proof (induction hes arbitrary: c)
  case (Cons he hes)
  obtain r c1 where r: "rx_open_file io dir he c = Some (r, c1)" using open_file_total Cons.prems by blast
  have "dc_block_size c1 \<noteq> 0"
    using open_file_disk [OF r] Cons.prems by (metis setting_refl setting_update(3) same_setting_def)
  then obtain q where "rx_open_files io dir hes c1 = Some q" using Cons.IH by blast
  then show ?case using r by (cases r; cases q) auto
qed auto

lemma header_complete_total:
  assumes "dc_block_size c \<noteq> 0"
  shows "\<exists>c'. rx_header_complete io c = Some c'"
proof (cases "\<exists>t dir. dc_rx c = Some t \<and> dt_phase t = DC_PH_IDLE \<and> dc_recv_dir c = Some dir")
  case True
  then obtain t dir where t: "dc_rx c = Some t" "dt_phase t = DC_PH_IDLE" "dc_recv_dir c = Some dir" by blast
  obtain fs ok c1 where o: "rx_open_files io dir (dt_hdr t) c = Some (fs, ok, c1)"
    using open_files_total [OF assms] by (metis prod_cases3)
  define c2 where "c2 = dc_emit (DcFileList (dt_hdr t)) (c1\<lparr>dc_rx := Some (t\<lparr>dt_files := fs\<rparr>)\<rparr>)"
  have "dc_block_size c2 \<noteq> 0"
    using open_files_disk [OF o] assms unfolding c2_def by (metis same_setting_def setting_refl setting_update(2,3,4))
  then have "\<exists>c3. rx_file_list io (t\<lparr>dt_files := fs\<rparr>) (c1\<lparr>dc_rx := Some (t\<lparr>dt_files := fs\<rparr>)\<rparr>) = Some c3"
    using send_files_total [of c2 io] by (auto simp: rx_file_list_def c2_def Let_def split: option.splits)
  then show ?thesis using t o by (auto simp: rx_header_complete_def Let_def)
qed (auto simp: rx_header_complete_def split: option.splits)

lemma frame_total:
  assumes "dc_block_size c \<noteq> 0"
  shows "\<exists>c'. handle_frame io f c = Some c'"
proof -
  have hdr: "\<exists>c'. handle_file_header io f c = Some c'"
  proof (cases "dfile_decode_file_header f = Some None")
    case False
    then obtain tr node es where d: "dfile_decode_file_header f = Some (Some (tr, node, es))"
      using decode_total(2) [of f] by auto
    have "\<exists>c'. rx_header_complete io (c\<lparr>dc_rx := x\<rparr>) = Some c'" for x by (rule header_complete_total) (simp add: assms)
    then show ?thesis using d by (auto simp: handle_file_header_def Let_def split: prod.splits option.splits)
  qed (simp add: handle_file_header_def)
  have ctrl: "\<exists>c'. handle_tx_ctrl io ty f c = Some c'" for ty
    using decode_total(3) [of f ty] by (auto simp: handle_tx_ctrl_def split: option.splits prod.splits)
  have "\<exists>c'. handle_setting io f c = Some c'" "\<exists>c'. handle_rst io f c = Some c'" "\<exists>c'. handle_ack io f c = Some c'"
    using decode_total [of f]
    by (auto simp: handle_setting_def handle_rst_def handle_ack_def Let_def split: option.splits prod.splits)
  moreover have "\<exists>c'. handle_done io f c = Some c'" "\<exists>c'. handle_doneack io f c = Some c'"
    using decode_total(3) [of f DFILE_FRAME_FILE_TRANSFER_DONE] decode_total(3) [of f DFILE_FRAME_FILE_TRANSFER_DONE_ACK]
    by (auto simp: handle_done_def handle_doneack_def Let_def split: option.splits prod.splits)
  moreover obtain r where "dfile_decode_data f = Some r" using decode_total by blast
  then have "\<exists>c'. handle_data io f c = Some c'"
    by (cases r) (auto simp: handle_data_def Let_def split: option.splits)
  moreover obtain u where "dfile_frame_header_unpack f = Some u" using unpack_total by blast
  ultimately show ?thesis using hdr ctrl by (cases u) (auto simp: handle_frame_def Let_def)
qed

lemma frames_total:
  "dc_negotiated c \<Longrightarrow> dc_block_size c \<noteq> 0 \<Longrightarrow> \<exists>c' r. dc_frames io buf c = Some (c', r) \<and> same_setting c c'"
proof (induction "length buf" arbitrary: buf c rule: less_induct)
  case less
  show ?case
  proof (cases "df_verdict buf")
    case (Frame n)
    obtain c1 where h: "handle_frame io (take n buf) c = Some c1" using frame_total less.prems by blast
    have s: "same_setting c c1" by (rule setting_frame [OF less.prems(1) h])
    have "length (drop n buf) < length buf" using dffr.frame_pos [OF Frame] by auto
    then have "\<exists>c' r. dc_frames io (drop n buf) c1 = Some (c', r) \<and> same_setting c1 c'"
      using less.hyps less.prems s unfolding same_setting_def by metis
    then show ?thesis using s setting_trans by (subst frames_eq) (auto simp: Frame h)
  qed (subst frames_eq, simp)+
qed

lemma drain_total:
  "dc_negotiated (fst s) \<Longrightarrow> dc_block_size (fst s) \<noteq> 0 \<Longrightarrow>
   \<exists>s'. dc_drain io rs s = Some s' \<and> same_setting (fst s) (fst s')"
proof (induction io rs s rule: dc_drain.induct)
  case (2 io d rs c buf)
  obtain c1 r where c1: "dc_frames io (buf @ d) c = Some (c1, r)" "same_setting c c1" using frames_total 2(2,3) by fastforce
  then show ?case using 2(1) [OF c1(1)] 2(2,3) setting_trans by (auto simp: same_setting_def)
qed simp_all

lemma setting_tick: "same_setting c (on_tick io c)"
proof -
  have rx: "same_setting d (on_tick_rx io d)" for d
  proof -
    have fl: "same_setting x (rx_flush_ack io x)" for x
      by (auto simp: rx_flush_ack_def Let_def split: option.splits prod.splits dest!: setting_send simp: same_setting_def)
    have dn: "same_setting x (rx_send_done io x)" for x
      by (auto simp: rx_send_done_def split: option.splits prod.splits dest!: setting_send)
    have "same_setting d (rx_send_done io (rx_flush_ack io d))" using fl dn setting_trans by blast
    then show ?thesis using fl dn by (simp add: on_tick_rx_def Let_def)
  qed
  have tx: "same_setting d (on_tick_tx io d)" for d
    using setting_pump [of d io] setting_finish setting_trans by (auto simp: on_tick_tx_def Let_def same_setting_def)
  have re: "same_setting d (on_tick_retry io d)" for d
    by (auto simp: on_tick_retry_def Let_def split: option.splits prod.splits dest!: setting_emits [OF header_emits])
      (simp_all add: same_setting_def)
  show ?thesis unfolding on_tick_def Let_def using rx tx re by (simp add: same_setting_def)
qed

lemma step_total:
  assumes "dc_negotiated (fst s)" "dc_block_size (fst s) \<noteq> 0"
  shows "\<exists>s'. dc_step io ev s = Some s' \<and> same_setting (fst s) (fst s')"
proof -
  obtain c buf where s: "s = (c, buf)" by (cases s)
  have start: "same_setting c (dc_send_local_setting io c)"
    by (auto simp: dc_send_local_setting_def split: prod.splits dest!: setting_send)
  show ?thesis
  proof (cases ev)
    case (DcSendFiles items)
    then show ?thesis using send_files_total [of c io items] setting_send_files [of io items c] assms
      by (fastforce simp: dc_step_def s)
  qed (use assms start drain_total setting_tick in \<open>auto simp: dc_step_def s close_impl_def\<close>)
qed

lemma run_total:
  "dc_negotiated (fst s) \<Longrightarrow> dc_block_size (fst s) \<noteq> 0 \<Longrightarrow> \<exists>s'. dc_run evs s = Some s' \<and> same_setting (fst s) (fst s')"
proof (induction evs arbitrary: s)
  case (Cons e evs)
  obtain io ev where e: "e = (io, ev)" by (cases e)
  obtain s1 where s1: "dc_step io ev s = Some s1" "same_setting (fst s) (fst s1)" using step_total Cons.prems by blast
  then have "\<exists>s'. dc_run evs s1 = Some s' \<and> same_setting (fst s1) (fst s')"
    using Cons.IH [of s1] Cons.prems unfolding same_setting_def by metis
  then show ?case using s1 e setting_trans by auto
qed simp

end
