(* ===== verification/DfileRuns.thy ===== *)
theory DfileRuns
  imports DfileSafety
begin

text \<open>
  Properties of the DFile connection engine on its own: how it reports, when it may send data, that
  it stays inside its limits, how it reads the stream, when a transfer ends, and four behaviours of
  the code that a reader of its comments would not expect.
\<close>

section \<open>Reading the stream\<close>

text \<open>The reference: the frames of a stream, handled one after the other until the connection is
  closing.\<close>

fun handle_frames :: "dc_io \<Rightarrow> bytes list \<Rightarrow> dfile_conn \<Rightarrow> dfile_conn option" where
  "handle_frames io [] c = Some c"
| "handle_frames io (f # fs) c =
     (case handle_frame io f c of
        None \<Rightarrow> None
      | Some c1 \<Rightarrow> if dc_state c1 = DC_ST_CLOSING then Some c1 else handle_frames io fs c1)"

definition df_reads :: "dc_io \<Rightarrow> bytes \<Rightarrow> dfile_conn \<Rightarrow> (dfile_conn \<times> bytes) option" where
  "df_reads io buf c =
     (case cut_frames df_verdict buf of
        (fs, rest, bad) \<Rightarrow>
          (case handle_frames io fs c of
             None \<Rightarrow> None
           | Some c1 \<Rightarrow>
               if dc_state c1 = DC_ST_CLOSING then Some (c1, [])
               else if bad then Some (shutdown_common io c1, [])
               else Some (c1, rest)))"

text \<open>A closing connection reads no more: its buffer does not matter.\<close>

definition dc_seen :: "dfile_conn \<times> bytes \<Rightarrow> dfile_conn \<times> bytes" where
  "dc_seen s = (if dc_state (fst s) = DC_ST_CLOSING then (fst s, []) else s)"

lemma frames_reads:
  "dc_state c \<noteq> DC_ST_CLOSING \<Longrightarrow> map_option dc_seen (dc_frames io buf c) = df_reads io buf c"
proof (induction "length buf" arbitrary: buf c rule: less_induct)
  case less
  show ?case
  proof (cases "df_verdict buf")
    case (Frame n)
    have l: "length (drop n buf) < length buf" using dffr.frame_pos [OF Frame] by auto
    show ?thesis
    proof (cases "handle_frame io (take n buf) c")
      case None
      then show ?thesis
        by (subst frames_eq) (simp add: df_reads_def Frame dffr.cut_frame [OF Frame] split: prod.splits)
    next
      case (Some c1)
      show ?thesis
      proof (cases "dc_state c1 = DC_ST_CLOSING")
        case True
        then show ?thesis using Some
          by (subst frames_eq) (simp add: df_reads_def dc_seen_def Frame dffr.cut_frame [OF Frame] split: prod.splits)
      next
        case False
        then show ?thesis using Some less.hyps [OF l False]
          by (subst frames_eq) (simp add: df_reads_def Frame dffr.cut_frame [OF Frame] split: prod.splits)
      qed
    qed
  qed (use less.prems in \<open>subst frames_eq, simp add: df_reads_def dc_seen_def dffr.cut_need dffr.cut_corrupt\<close>)+
qed

lemma handle_frames_append:
  "handle_frames io (fs @ gs) c =
     (case handle_frames io fs c of
        None \<Rightarrow> None
      | Some c1 \<Rightarrow> if fs \<noteq> [] \<and> dc_state c1 = DC_ST_CLOSING then Some c1 else handle_frames io gs c1)"
  by (induction fs arbitrary: c) (auto split: option.splits)


lemma reads_append:
  assumes "dc_state c \<noteq> DC_ST_CLOSING"
  shows "df_reads io (buf @ d) c =
    (case df_reads io buf c of
       None \<Rightarrow> None
     | Some (c1, rest) \<Rightarrow> if dc_state c1 = DC_ST_CLOSING then Some (c1, rest) else df_reads io (rest @ d) c1)"
proof -
  obtain fs rest bad where a: "cut_frames df_verdict buf = (fs, rest, bad)" by (metis prod_cases3)
  obtain gs rest' bad' where b: "cut_frames df_verdict (rest @ d) = (gs, rest', bad')" by (metis prod_cases3)
  have ab: "cut_frames df_verdict (buf @ d) = (if bad then (fs, rest @ d, True) else (fs @ gs, rest', bad'))"
    using dffr.cut_append [of buf d] by (simp add: a b)
  show ?thesis
  proof (cases "handle_frames io fs c")
    case None
    then show ?thesis by (simp add: df_reads_def a ab handle_frames_append)
  next
    case (Some c1)
    show ?thesis using assms Some
      by (cases "fs = []"; cases bad; cases "dc_state c1 = DC_ST_CLOSING")
        (auto simp: df_reads_def a b ab handle_frames_append split: option.splits)
  qed
qed

lemma drain_reads:
  "dc_state c \<noteq> DC_ST_CLOSING \<Longrightarrow> df_verdict buf = NeedMore \<Longrightarrow>
   map_option dc_seen (dc_drain io (map RecvData ds) (c, buf)) = df_reads io (buf @ concat ds) c"
proof (induction ds arbitrary: c buf)
  case Nil
  then show ?case by (simp add: df_reads_def dffr.cut_need dc_seen_def)
next
  case (Cons d ds)
  note r = frames_reads [OF Cons.prems(1), of io "buf @ d"]
  have app: "df_reads io (buf @ concat (d # ds)) c =
      (case df_reads io (buf @ d) c of None \<Rightarrow> None
       | Some (c1, rest) \<Rightarrow> if dc_state c1 = DC_ST_CLOSING then Some (c1, rest) else df_reads io (rest @ concat ds) c1)"
    using reads_append [OF Cons.prems(1), of io "buf @ d" "concat ds"] by simp
  show ?case
  proof (cases "dc_frames io (buf @ d) c")
    case None
    then show ?thesis using r app by simp
  next
    case (Some x)
    obtain c1 rest where x: "x = (c1, rest)" by (cases x)
    show ?thesis
    proof (cases "dc_state c1 = DC_ST_CLOSING")
      case True
      then have "df_reads io (buf @ d) c = Some (c1, [])" using Some x r by (simp add: dc_seen_def)
      then show ?thesis using Some x True app by (simp add: dc_seen_def)
    next
      case False
      then have d: "df_reads io (buf @ d) c = Some (c1, rest)" using Some x r by (simp add: dc_seen_def)
      then have "df_verdict rest = NeedMore"
        using dffr.cut_rest_no_frame False by (auto simp: df_reads_def split: prod.splits option.splits if_splits)
      then show ?thesis using Cons.IH [OF False] Some x False app d by simp
    qed
  qed
qed

section \<open>Properties\<close>

definition toy_io :: dc_io where
  "toy_io = \<lparr>dio_now = 1, dio_send = (\<lambda>_. True), dio_open_read = (\<lambda>_. Some 5), dio_fstat = (\<lambda>_. Some 3),
     dio_pread = (\<lambda>fd off n. Some (take n (drop (unat off) [7, 8, 9]))), dio_create = (\<lambda>_. Some 6),
     dio_truncate = (\<lambda>_ _. True), dio_pwrite = (\<lambda>_ _ _. True), dio_sha = (\<lambda>_. []), dio_send_back = None\<rparr>"

text \<open>
  How the stream is cut into reads does not matter: the engine handles the frames of the whole
  stream one after the other, until it is closing, and keeps what is left for the next read.
\<close>

lemma dfile_stream_cut:
  assumes "dc_state c \<noteq> DC_ST_CLOSING"
  shows "map_option dc_seen (dc_drain io (map RecvData ds) (c, [])) =
    (case cut_frames df_verdict (concat ds) of
       (fs, rest, bad) \<Rightarrow>
         (case handle_frames io fs c of
            None \<Rightarrow> None
          | Some c1 \<Rightarrow>
              if dc_state c1 = DC_ST_CLOSING then Some (c1, [])
              else if bad then Some (shutdown_common io c1, [])
              else Some (c1, rest)))"
  using drain_reads [OF assms, of "[]" io ds] by (simp add: df_reads_def df_verdict_def dfile_frame_header_unpack_def dfile_lens)

lemma dfile_stream_cut_witness:
  "map_option dc_seen (dc_drain toy_io [RecvData [13, 0, 0], RecvData [0, 0, 0, 0, 1, 7, 13]] (dc_alloc 0, [])) = Some (dc_alloc 0, [13])"
proof -
  have "cut_frames df_verdict [13, 0, 0, 0, 0, 0, 0, 1, 7, 13] = ([[13, 0, 0, 0, 0, 0, 0, 1, 7]], [13], False)"
    by (simp add: cut_frames.simps df_verdict_def dfile_frame_header_unpack_def get_u8_def get_u16_def dfile_lens)
  moreover have "handle_frame toy_io [13, 0, 0, 0, 0, 0, 0, 1, 7] (dc_alloc 0) = Some (dc_alloc 0)"
    by (simp add: handle_frame_def dfile_frame_header_unpack_def get_u8_def get_u16_def dfile_lens dfile_types)
  ultimately show ?thesis
    using dfile_stream_cut [of "dc_alloc 0" toy_io "[[13, 0, 0], [0, 0, 0, 0, 1, 7, 13]]"]
    by (simp add: dc_alloc_def)
qed


text \<open>The peer's SETTING, and a FILE_HEADER with one empty file.\<close>

definition toy_setting :: bytes where
  "toy_setting = [8, 0, 0, 0, 0, 0, 0, 100, 5, 0xc0] @ replicate 98 0"

definition toy_header :: bytes where
  "toy_header = [1, 0, 0, 0, 0, 1, 0, 15, 0, 1, 0, 1, 0, 0, 0, 0, 0, 0, 0, 0, 0, 1, 0x61]"



definition toy_confirm :: bytes where "toy_confirm = [2, 0, 0, 0, 0, 1, 0, 2, 0, 1]"
definition toy_req :: bytes where "toy_req = [3, 0, 0, 0, 0, 1, 0, 2, 0, 1]"
definition toy_item :: dc_item where "toy_item = \<lparr>di_path = [], di_name = Some [0x61], di_size = 0\<rparr>"

definition toy_send_run :: "(dc_io \<times> dc_event) list" where
  "toy_send_run = [(toy_io, DcInput [RecvData toy_setting]), (toy_io, DcSendFiles [toy_item]),
     (toy_io, DcInput [RecvData toy_confirm, RecvData toy_req]), (toy_io, DcTick)]"

lemma toy_send_run_data:
  "\<exists>c buf. dc_run toy_send_run (dc_fresh None 0) = Some (c, buf) \<and>
     [4, 2, 0, 0, 0, 1, 0, 9, 0, 1, 0, 0, 0, 0, 7, 8, 9] \<in> set (sent_frames (dc_out c)) \<and>
     sent_frames (dc_out c) = [[1, 0, 0, 0, 0, 1, 0, 15, 0, 1, 0, 1, 0, 0, 0, 0, 0, 0, 0, 3, 0, 1, 97],
       [4, 2, 0, 0, 0, 1, 0, 9, 0, 1, 0, 0, 0, 0, 7, 8, 9], [4, 5, 0, 0, 0, 1, 0, 9, 0, 1, 0, 0, 0, 0, 7, 8, 9]]"
  by (simp add: dc_eval toy_io_def toy_setting_def toy_send_run_def toy_item_def toy_confirm_def toy_req_def)




text \<open>
  A FILE_HEADER before the SETTING divides by zero: the block size is 0 until the settings are
  exchanged, and \<open>rx_open_file\<close> divides by it as soon as the destination file is open.
\<close>

lemma dfile_header_before_setting:
  assumes "dc_block_size c = 0" "dc_rx c = None" "dc_recv_dir c = Some dir"
    and "dfile_decode_file_header f = Some (Some (tr, 1, [e]))"
    and "fe_file_size e \<le> DFILE_MAX_FILE_SIZE" "dio_create io (dir, fe_name e) = Some fd" "dio_truncate io fd (fe_file_size e)"
  shows "handle_frame io f c = None"
proof -
  obtain h p where "frame_payload f DFILE_FRAME_FILE_HEADER = Some (Some (h, p))"
    using assms(4) by (auto simp: dfile_decode_file_header_def bind_eq_Some_conv split: option.splits)
  moreover obtain u where "dfile_frame_header_unpack f = Some u" using unpack_total by blast
  ultimately have "\<exists>h. dfile_frame_header_unpack f = Some (UnpackOk h) \<and> df_type h = DFILE_FRAME_FILE_HEADER"
    by (cases u) (auto simp: frame_payload_def split: if_splits)
  moreover have "handle_file_header io f c = None"
    using assms by (simp add: handle_file_header_def trans_new_def rx_header_complete_def rx_open_file_def dc_blocks_def Let_def)
  ultimately show ?thesis by (auto simp: handle_frame_def Let_def dfile_types)
qed

lemma dfile_header_before_setting_witness: "handle_frame toy_io toy_header (fst (dc_fresh (Some []) 0)) = None"
proof (rule dfile_header_before_setting [where fd = 6])
  show "dfile_decode_file_header toy_header = Some (Some (1, 1, [\<lparr>fe_file_id = 1, fe_file_size = 0, fe_name = [0x61]\<rparr>]))"
    by (simp add: dc_eval toy_header_def)
qed (simp_all add: dc_eval toy_io_def)

text \<open>The two directions of a connection.\<close>

lemma fail_other [simp]:
  "dc_rx (trans_fail io True r c) = dc_rx c" "dc_tx (trans_fail io False r c) = dc_tx c"
  using fail_same(5) [of True io r c] fail_same(5) [of False io r c] by (simp_all add: dc_trans_of_def)

lemma finish_rx [simp]: "dc_rx (tx_finish io c) = dc_rx c"
  by (auto simp: tx_finish_def split: option.splits prod.splits dest!: emits_send_opt emits_same(2))

lemma pump_keeps_rx [simp]: "dc_rx (tx_pump io c) = dc_rx c"
proof (cases "dc_tx c")
  case (Some t)
  obtain fs c1 l r where p: "tx_pump_files io (dc_block_size c) (dt_trans_id t) DC_SEND_BUDGET (dt_last_retran_ms t) (dt_files t) c = (fs, c1, l, r)"
    by (metis prod_cases4)
  have "dc_rx c1 = dc_rx c" using pump_files_emits [OF p] emits_same(2) by blast
  then show ?thesis using p by (simp add: tx_pump_def Some Let_def split: option.splits)
qed (simp add: tx_pump_def)

lemma tick_tx_rx [simp]: "dc_rx (on_tick_tx io c) = dc_rx c" "dc_rx (on_tick_retry io c) = dc_rx c"
  by (auto simp: on_tick_tx_def on_tick_retry_def Let_def split: option.splits prod.splits dest!: header_emits emits_same(2))

lemma flush_ack_tx [simp]: "dc_tx (rx_flush_ack io c) = dc_tx c"
  by (auto simp: rx_flush_ack_def Let_def split: option.splits prod.splits dest!: emits_send_opt emits_same(1))

lemma tick_rx_tx [simp]: "dc_tx (on_tick_rx io c) = dc_tx c"
proof -
  have "dc_tx (rx_send_done io x) = dc_tx x" for x
    by (auto simp: rx_send_done_def split: option.splits prod.splits dest!: emits_send_opt emits_same(1))
  then show ?thesis by (simp add: on_tick_rx_def Let_def)
qed

definition done_with :: "dc_trans option \<Rightarrow> bool" where
  "done_with tr \<longleftrightarrow> (\<exists>t. tr = Some t \<and> dc_final (dt_phase t))"

lemma fail_some: "dc_trans_of s c = Some t \<Longrightarrow> done_with (dc_trans_of s (trans_fail io s r c))"
  by (cases rule: fail_cases [of io s r c]) (auto simp: done_with_def dc_set_trans_def dc_trans_of_def dc_final_def opt_all_def)

lemma fail_keeps: "done_with (dc_trans_of s c) \<Longrightarrow> trans_fail io s r c = c"
  by (auto simp: done_with_def intro: fail_again)

lemma tick_tx_done: "done_with (dc_tx c) \<Longrightarrow> on_tick_tx io c = c" "done_with (dc_tx c) \<Longrightarrow> on_tick_retry io c = c"
  by (auto simp: done_with_def on_tick_tx_def on_tick_retry_def dc_in_phase_def dc_final_def)

lemma tick_rx_done: "done_with (dc_rx c) \<Longrightarrow> on_tick_rx io c = c"
  by (auto simp: done_with_def on_tick_rx_def dc_in_phase_def dc_final_def)

lemma expire:
  assumes "dc_trans_of s c = Some t" "DC_TRANSFER_TIMEOUT_MS < dio_now io - dt_t0_ms t" "ph = DC_PH_TX_DONE \<or> ph = DC_PH_RX_DONE"
  shows "done_with (dc_trans_of s (if dc_expired io (dc_trans_of s c) ph then trans_fail io s True c else c))"
  using assms fail_some [OF assms(1)] by (auto simp: dc_expired_def done_with_def dc_final_def)

text \<open>
  No transfer outlives its budget: after a tick more than 30 seconds after its start a transfer
  is finished, and a tick more than 5 seconds after the connection without the peer's settings
  closes it.
\<close>

lemma dfile_deadlines:
  assumes "dc_state c \<noteq> DC_ST_CLOSING"
  shows "(\<not> dc_negotiated c \<and> DC_NEGOTIATE_TIMEOUT_MS < dio_now io - dc_t_connect_ms c \<longrightarrow>
      dc_state (on_tick io c) = DC_ST_CLOSING) \<and>
    (\<forall>s t. dc_trans_of s c = Some t \<longrightarrow> DC_TRANSFER_TIMEOUT_MS < dio_now io - dt_t0_ms t \<longrightarrow>
      (\<exists>t'. dc_trans_of s (on_tick io c) = Some t' \<and> dc_final (dt_phase t')))"
proof (cases "\<not> dc_negotiated c \<and> DC_NEGOTIATE_TIMEOUT_MS < dio_now io - dc_t_connect_ms c")
  case True
  then have t: "on_tick io c = shutdown_common io c" using assms by (simp add: on_tick_def)
  have "done_with (dc_trans_of s (shutdown_common io c))" if "dc_trans_of s c = Some t" for s t
  proof -
    have c1: "dc_trans_of s (c\<lparr>dc_state := DC_ST_CLOSING\<rparr>) = Some t" using that by (cases s) (simp_all add: dc_trans_of_def)
    show ?thesis
      using assms fail_some [OF c1, of io False] fail_some [of False "trans_fail io True False (c\<lparr>dc_state := DC_ST_CLOSING\<rparr>)" t io False] that
      by (cases s) (simp_all add: shutdown_common_def Let_def dc_trans_of_def)
  qed
  then show ?thesis by (auto simp: t done_with_def)
next
  case False
  define c1 where "c1 = (if dc_expired io (dc_tx c) DC_PH_TX_DONE then trans_fail io True True c else c)"
  define c2 where "c2 = (if dc_expired io (dc_rx c1) DC_PH_RX_DONE then trans_fail io False True c1 else c1)"
  have t: "on_tick io c = (if dc_state (on_tick_rx io c2) = DC_ST_CLOSING then on_tick_rx io c2
      else if dc_state (on_tick_tx io (on_tick_rx io c2)) = DC_ST_CLOSING then on_tick_tx io (on_tick_rx io c2)
      else on_tick_retry io (on_tick_tx io (on_tick_rx io c2)))"
  proof -
    have n: "dc_state c2 \<noteq> DC_ST_CLOSING" using assms by (simp add: c1_def c2_def)
    show ?thesis unfolding on_tick_def if_not_P [OF assms] if_not_P [OF False] Let_def c1_def [symmetric] c2_def [symmetric]
      if_not_P [OF n] ..
  qed
  have rx: "dc_rx c1 = dc_rx c" "dc_tx c2 = dc_tx c1" by (simp_all add: c1_def c2_def)
  have "done_with (dc_trans_of s (on_tick io c))"
    if a: "dc_trans_of s c = Some t" "DC_TRANSFER_TIMEOUT_MS < dio_now io - dt_t0_ms t" for s t
  proof (cases s)
    case True
    then have "done_with (dc_tx c2)"
      using expire [of True c t io DC_PH_TX_DONE] a rx by (simp add: c1_def dc_trans_of_def)
    then have "done_with (dc_tx (on_tick_rx io c2))" by simp
    then show ?thesis using True by (simp add: t tick_tx_done dc_trans_of_def)
  next
    case False
    then have "done_with (dc_rx c2)"
      using expire [of False c1 t io DC_PH_RX_DONE] a rx by (simp add: c2_def dc_trans_of_def)
    then show ?thesis using False by (simp add: t tick_rx_done dc_trans_of_def)
  qed
  then show ?thesis using False by (auto simp: done_with_def)
qed

lemma dfile_deadlines_witness:
  "dc_state (on_tick (toy_io\<lparr>dio_now := 5001\<rparr>) (fst (dc_fresh None 0))) = DC_ST_CLOSING"
  using dfile_deadlines [of "fst (dc_fresh None 0)" "toy_io\<lparr>dio_now := 5001\<rparr>"]
  by (simp add: dc_fresh_def dc_alloc_def dfile_conn_set_recv_dir_def toy_io_def dc_times)

text \<open>
  The receiver that has written everything refuses any further block of the transfer: a block
  sent once more, as \<open>tx_pump\<close> does, that arrives after the tick which sent DONE fails a complete
  transfer and closes the connection.
\<close>

lemma dfile_late_block_fails:
  assumes "dc_run evs (dc_fresh dir now) = Some (c, buf)"
    and "\<forall>(io, ev) \<in> set evs. (\<forall>f. dio_send io f) \<or> (\<forall>f. \<not> dio_send io f)"
    and "dc_rx c = Some t" "dt_phase t = DC_PH_RX_WAIT_DONEACK"
    and "dfile_decode_data f = Some (Some (tr, fl, i, seq, d))"
  shows "\<exists>c'. handle_data io f c = Some c' \<and> dc_state c' = DC_ST_CLOSING \<and>
    results False (dc_out c) = [] \<and> results False (dc_out c') = [False]"
proof -
  define c1 where "c1 = dc_send_rst io tr DFILE_RST_INTERNAL_ERROR [] c"
  have inv: "dc_inv c" using run_inv [OF fresh_inv _ assms(1)] assms(2) by (simp add: socket_steady_def)
  then have st: "dc_state c \<noteq> DC_ST_CLOSING" using assms(3,4) by (auto simp: dc_inv_def dc_closing_def dc_final_def)
  have h: "handle_data io f c = Some (shutdown_common io c1)"
    using assms by (simp add: handle_data_def rx_refuse_def c1_def)
  have "dc_rx (shutdown_common io c1) = Some (t\<lparr>dt_phase := DC_PH_FAILED\<rparr>)"
    using st assms(3,4) by (simp add: shutdown_common_def Let_def c1_def trans_fail_def [of io False] dc_trans_of_def
        dc_final_def dc_set_trans_def)
  moreover have "dc_inv (shutdown_common io c1)" unfolding c1_def by (intro inv_rules inv)
  ultimately show ?thesis using h inv assms(3,4) by (auto simp: dc_inv_def dc_core_def outcome_def)
qed

definition toy_file_header :: bytes where
  "toy_file_header = [1, 0, 0, 0, 0, 1, 0, 15, 0, 1, 0, 1, 0, 0, 0, 0, 0, 0, 0, 3, 0, 1, 97]"
definition toy_block :: bytes where "toy_block = [4, 2, 0, 0, 0, 1, 0, 9, 0, 1, 0, 0, 0, 0, 7, 8, 9]"
definition toy_block_again :: bytes where "toy_block_again = [4, 5, 0, 0, 0, 1, 0, 9, 0, 1, 0, 0, 0, 0, 7, 8, 9]"

definition toy_receive_run :: "(dc_io \<times> dc_event) list" where
  "toy_receive_run = [(toy_io, DcInput [RecvData (toy_setting @ toy_file_header @ toy_block)]), (toy_io, DcTick)]"

lemma toy_receive_run_done:
  "\<exists>c buf t. dc_run toy_receive_run (dc_fresh (Some []) 0) = Some (c, buf) \<and> dc_rx c = Some t \<and>
     dt_phase t = DC_PH_RX_WAIT_DONEACK \<and> dc_disk c 6 = [7, 8, 9]"
  by (simp add: dc_eval toy_io_def toy_setting_def toy_receive_run_def toy_file_header_def toy_block_def)

lemma dfile_late_block_fails_witness:
  "\<exists>c buf c'. dc_run toy_receive_run (dc_fresh (Some []) 0) = Some (c, buf) \<and> dc_disk c 6 = [7, 8, 9] \<and>
     handle_data toy_io toy_block_again c = Some c' \<and> results False (dc_out c') = [False]"
proof -
  obtain c buf t where c: "dc_run toy_receive_run (dc_fresh (Some []) 0) = Some (c, buf)" "dc_rx c = Some t"
    "dt_phase t = DC_PH_RX_WAIT_DONEACK" "dc_disk c 6 = [7, 8, 9]"
    using toy_receive_run_done by blast
  have d: "dfile_decode_data toy_block_again = Some (Some (1, 5, 1, 0, [7, 8, 9]))"
    by (simp add: dc_eval toy_block_again_def)
  show ?thesis using dfile_late_block_fails [OF c(1) _ c(2,3) d, of toy_io] c(1,4)
    by (auto simp: toy_receive_run_def toy_io_def)
qed

text \<open>
  A file that fills \<open>2 ^ 32\<close> blocks exactly counts as having none: the number of blocks is cut to
  32 bits, and the receiver takes the file as completely written before a byte of it has arrived.
\<close>

lemma dfile_huge_file_complete:
  assumes "dc_block_size c = 64" "fe_file_size e = 0x4000000000" "dio_create io (dir, fe_name e) = Some fd"
    and "dio_truncate io fd (fe_file_size e)"
  shows "fe_file_size e \<le> DFILE_MAX_FILE_SIZE \<and>
    (\<exists>g c'. rx_open_file io dir e c = Some (Some g, c') \<and> cf_total_blocks g = 0 \<and> cf_write_complete g)"
  using assms by (simp add: rx_open_file_def dc_blocks_def Let_def DFILE_MAX_FILE_SIZE_def)

lemma dfile_huge_file_complete_witness:
  "\<exists>g c'. rx_open_file toy_io [] \<lparr>fe_file_id = 1, fe_file_size = 0x4000000000, fe_name = [0x61]\<rparr>
      ((dc_alloc 0)\<lparr>dc_block_size := 64\<rparr>) = Some (Some g, c') \<and> cf_write_complete g"
  using dfile_huge_file_complete [of "(dc_alloc 0)\<lparr>dc_block_size := 64\<rparr>"
      "\<lparr>fe_file_id = 1, fe_file_size = 0x4000000000, fe_name = [0x61]\<rparr>" toy_io "[]" 6]
  by (auto simp: toy_io_def)

text \<open>
  A reset names a transfer by its number only, and both directions start counting at 1: when a
  file goes each way, the peer's reset of the transfer it sends fails the one it receives, and the
  receiver of the reset transfer is not told.
\<close>

lemma dfile_reset_hits_sender:
  assumes "dc_tx c = Some t" "dt_is_sender t" "dt_trans_id t = tr" "dc_rx c = Some r" "dt_trans_id r = tr"
    and "dfile_decode_rst f = Some (Some (tr, code, ids))" "\<not> dc_final (dt_phase t)"
  shows "\<exists>c'. handle_rst io f c = Some c' \<and> dc_rx c' = dc_rx c \<and> results True (dc_out c') = results True (dc_out c) @ [False] \<and>
    results False (dc_out c') = results False (dc_out c)"
  using assms by (simp add: handle_rst_def trans_fail_def dc_trans_of_def dc_set_trans_def)

lemma dfile_reset_hits_sender_witness:
  "\<exists>c c'. handle_rst toy_io [9, 0, 0, 0, 0, 1, 0, 2, 0, 210] c = Some c' \<and>
     map_option dt_phase (dc_rx c') = Some DC_PH_RX_WAIT_DATA \<and> results True (dc_out c') = [False]"
proof -
  let ?c = "(dc_alloc 0)\<lparr>dc_tx := Some (trans_new True 1 0), dc_rx := Some ((trans_new False 1 0)\<lparr>dt_phase := DC_PH_RX_WAIT_DATA\<rparr>)\<rparr>"
  have d: "dfile_decode_rst [9, 0, 0, 0, 0, 1, 0, 2, 0, 210] = Some (Some (1, 210, []))" by (simp add: dc_eval)
  obtain c' where "handle_rst toy_io [9, 0, 0, 0, 0, 1, 0, 2, 0, 210] ?c = Some c'" "dc_rx c' = dc_rx ?c" "results True (dc_out c') = [False]"
    using dfile_reset_hits_sender [OF _ _ _ _ _ d, of ?c "trans_new True 1 0" "(trans_new False 1 0)\<lparr>dt_phase := DC_PH_RX_WAIT_DATA\<rparr>" toy_io]
    by (auto simp: trans_new_def dc_final_def dc_alloc_def)
  then show ?thesis by (intro exI [of _ ?c] exI [of _ c']) simp
qed

end
