(* ===== verification/DfileReceive.thy ===== *)
theory DfileReceive
  imports DfileRuns
begin

text \<open>
  What the receiver of DFile has on its disk when it reports success: every announced file with its
  announced size and, when its name carries a digest, with that digest.
\<close>

section \<open>Steps that leave the receiver alone\<close>

definition rx_keep :: "dfile_conn \<Rightarrow> dfile_conn \<Rightarrow> bool" where
  "rx_keep c c' \<longleftrightarrow> dc_recv_dir c' = dc_recv_dir c \<and> dc_disk c' = dc_disk c \<and> dc_block_size c' = dc_block_size c \<and>
     dc_negotiated c' = dc_negotiated c \<and> (dc_rx c' = dc_rx c \<or> (\<exists>t. dc_rx c' = Some t \<and> dt_phase t = DC_PH_FAILED))"

lemma keep_refl [simp, intro]: "rx_keep c c"
  by (simp add: rx_keep_def)

lemma keep_trans: "rx_keep a b \<Longrightarrow> rx_keep b c \<Longrightarrow> rx_keep a c"
  by (auto simp: rx_keep_def)

lemma keep_update [simp]:
  "rx_keep c (d\<lparr>dc_tx := x\<rparr>) = rx_keep c d" "rx_keep (c\<lparr>dc_tx := x\<rparr>) d = rx_keep c d" "rx_keep c (dc_emit e d) = rx_keep c d"
  "rx_keep c (d\<lparr>dc_state := st\<rparr>) = rx_keep c d" "rx_keep c (d\<lparr>dc_local_setting_sent := v\<rparr>) = rx_keep c d"
  "rx_keep c (d\<lparr>dc_next_trans_id := i\<rparr>) = rx_keep c d" "rx_keep (c\<lparr>dc_next_trans_id := i\<rparr>) d = rx_keep c d"
  "rx_keep (dc_emit e c) d = rx_keep c d"
  by (simp_all add: rx_keep_def)

lemma keep_emits: "emits P c c' \<Longrightarrow> rx_keep c c'"
  by (simp add: rx_keep_def emits_same)

lemma keep_send: "dc_send_opt io fo c = (c', ok) \<Longrightarrow> rx_keep c c'"
  by (drule emits_send_opt) (rule keep_emits)

lemma keep_rst: "rx_keep c (dc_send_rst io tr code ids c)"
  unfolding dc_send_rst_def by (metis keep_send prod.collapse)

lemma keep_fail: "rx_keep c (trans_fail io s rst c)"
proof (cases rule: fail_cases [of io s rst c])
  case (2 t c1)
  have "rx_keep c c1" using 2(3) by (cases s) (simp_all add: dc_set_trans_def rx_keep_def)
  then show ?thesis using 2(4) keep_rst keep_trans by auto
qed simp

lemma keep_shutdown: "rx_keep c (shutdown_common io c)"
proof -
  have "rx_keep (c\<lparr>dc_state := DC_ST_CLOSING\<rparr>) (trans_fail io False False (trans_fail io True False (c\<lparr>dc_state := DC_ST_CLOSING\<rparr>)))"
    using keep_fail keep_trans by blast
  moreover have "rx_keep c (c\<lparr>dc_state := DC_ST_CLOSING\<rparr>)" by simp
  ultimately have "rx_keep c (trans_fail io False False (trans_fail io True False (c\<lparr>dc_state := DC_ST_CLOSING\<rparr>)))"
    using keep_trans by blast
  then show ?thesis by (simp add: shutdown_common_def Let_def)
qed

lemma keep_into:
  "rx_keep c d \<Longrightarrow> rx_keep c (trans_fail io s rst d)" "rx_keep c d \<Longrightarrow> rx_keep c (shutdown_common io d)"
  "rx_keep c d \<Longrightarrow> rx_keep c (dc_send_rst io tr code ids d)"
  using keep_fail keep_shutdown keep_rst keep_trans by blast+

lemma keep_refuse: "rx_keep c (rx_refuse io tr code c)"
  unfolding rx_refuse_def using keep_rst keep_shutdown keep_trans by blast

lemma keep_finish: "rx_keep c (tx_finish io c)"
  using keep_fail keep_trans by (auto simp: tx_finish_def split: option.splits prod.splits dest!: keep_send)

lemma keep_pump: "rx_keep c (tx_pump io c)"
proof (cases "dc_tx c")
  case (Some t)
  obtain fs c1 l r where p: "tx_pump_files io (dc_block_size c) (dt_trans_id t) DC_SEND_BUDGET (dt_last_retran_ms t) (dt_files t) c = (fs, c1, l, r)"
    by (metis prod_cases4)
  have "rx_keep c (c1\<lparr>dc_tx := x\<rparr>)" for x using pump_files_emits [OF p] keep_emits by fastforce
  then show ?thesis using p by (auto simp: tx_pump_def Some Let_def intro!: keep_into split: option.splits)
qed (simp add: tx_pump_def)

lemma keep_send_files: "send_files_impl io items c = Some (c', ok) \<Longrightarrow> rx_keep c c'"
proof (cases "dc_open_items io (dc_block_size c) 0 items")
  case (Some r)
  assume a: "send_files_impl io items c = Some (c', ok)"
  have h: "rx_keep c d'" if "tx_send_header io t d = (d', k)" "rx_keep c d" for t d d' k
    using keep_emits [OF header_emits [OF that(1)]] that(2) keep_trans by blast
  show ?thesis using a Some
    by (cases r) (auto simp: send_files_impl_def Let_def split: if_splits prod.splits dest!: h)
qed (auto simp: send_files_impl_def Let_def split: if_splits)

lemma keep_file_list: "rx_file_list io t c = Some c' \<Longrightarrow> rx_keep c c'"
proof -
  assume a: "rx_file_list io t c = Some c'"
  define d where "d = dc_emit (DcFileList (dt_hdr t)) c"
  have "rx_keep c d" by (simp add: d_def)
  moreover have "c' = d \<or> (\<exists>items ok. send_files_impl io items d = Some (c', ok))"
    using a by (auto simp: rx_file_list_def Let_def d_def [symmetric] split: option.splits)
  ultimately show ?thesis using keep_send_files keep_trans by blast
qed

lemma keep_ctrl: "handle_tx_ctrl io ty f c = Some c' \<Longrightarrow> rx_keep c c'"
  using keep_shutdown decode_total(3) [of f ty]
  by (auto simp: handle_tx_ctrl_def bind_eq_Some_conv split: option.splits if_splits)

lemma keep_finish_tx: "rx_keep c (tx_finish io (c\<lparr>dc_tx := x\<rparr>))"
  using keep_finish [of "c\<lparr>dc_tx := x\<rparr>" io] by simp

lemma keep_ack: "handle_ack io f c = Some c' \<Longrightarrow> rx_keep c c'"
proof -
  assume h: "handle_ack io f c = Some c'"
  obtain r where "dfile_decode_ack f = Some r" using decode_total by blast
  then show ?thesis using h keep_finish_tx keep_shutdown
    by (cases r) (auto simp: handle_ack_def Let_def split: option.splits if_splits)
qed

lemma keep_done: "handle_done io f c = Some c' \<Longrightarrow> rx_keep c c'"
proof -
  assume h: "handle_done io f c = Some c'"
  obtain r where "dfile_decode_idlist f DFILE_FRAME_FILE_TRANSFER_DONE = Some r" using decode_total by blast
  then show ?thesis using h keep_finish_tx keep_shutdown
    by (cases r) (auto simp: handle_done_def Let_def split: option.splits if_splits)
qed

lemma keep_handle_rst: "handle_rst io f c = Some c' \<Longrightarrow> rx_keep c c'"
  using rst_cases [of io f c c'] keep_fail keep_shutdown by auto

lemma keep_tick_tx: "rx_keep c (on_tick_tx io c)"
proof -
  have "rx_keep c (tx_finish io (tx_pump io c\<lparr>dc_tx := x\<rparr>))" for x
    using keep_pump keep_finish_tx keep_trans by blast
  then show ?thesis using keep_pump by (simp add: on_tick_tx_def Let_def)
qed

lemma keep_tick_retry: "rx_keep c (on_tick_retry io c)"
  by (auto simp: on_tick_retry_def Let_def intro!: keep_into split: option.splits prod.splits dest!: keep_emits [OF header_emits])

lemma keep_start: "rx_keep c (dc_send_local_setting io c)"
  using keep_shutdown keep_trans by (auto simp: dc_send_local_setting_def split: prod.splits dest!: keep_send)

section \<open>What a file holds\<close>

text \<open>The disk has the announced size, and what the digest was fed is the part that has arrived.\<close>

definition file_good :: "u32 \<Rightarrow> bytes \<Rightarrow> dc_file \<Rightarrow> bool" where
  "file_good bs d f \<longleftrightarrow> length d = unat (cf_size f) \<and> cf_sha f = take (unat (cf_expected_seq f) * unat bs) d \<and>
     unat (cf_total_blocks f) = (unat (cf_size f) + unat bs - 1) div unat bs"

definition file_ino :: "(cstr \<times> cstr \<Rightarrow> nat) \<Rightarrow> cstr \<Rightarrow> dc_file \<Rightarrow> nat" where
  "file_ino ino dir f = ino (dir, cf_name f)"

definition file_known :: "(cstr \<times> cstr \<Rightarrow> nat) \<Rightarrow> cstr \<Rightarrow> dc_file \<Rightarrow> bool" where
  "file_known ino dir f \<longleftrightarrow> cf_expected_sha f = ft_testfile_name_sha (Some (cf_name f)) \<and>
     (cf_fd f = None \<or> cf_fd f = Some (file_ino ino dir f)) \<and> (cf_write_complete f \<longrightarrow> cf_total_blocks f \<le> cf_expected_seq f)"

text \<open>Sizes for which the number of blocks fits its 32 bits whatever the block size.\<close>

definition size_fits :: "u64 \<Rightarrow> bool" where
  "size_fits sz \<longleftrightarrow> sz \<le> 2 ^ 38 - 64"

definition files_ok :: "(cstr \<times> cstr \<Rightarrow> nat) \<Rightarrow> cstr \<Rightarrow> u32 \<Rightarrow> (nat \<Rightarrow> bytes) \<Rightarrow> dc_file list \<Rightarrow> bool" where
  "files_ok ino dir bs disk fs \<longleftrightarrow> (\<forall>f \<in> set fs. file_known ino dir f) \<and>
     (distinct (map (file_ino ino dir) fs) \<longrightarrow>
        (\<forall>f \<in> set fs. size_fits (cf_size f) \<longrightarrow> file_good bs (disk (file_ino ino dir f)) f))"

lemma blocks_fit:
  assumes "dc_blocks bs sz = Some n" "64 \<le> bs" "size_fits sz"
  shows "unat n = (unat sz + unat bs - 1) div unat bs"
proof -
  have bs: "64 \<le> unat bs" using assms(2) by (simp add: word_le_nat_alt)
  have sz: "unat sz \<le> 2 ^ 38 - 64" using assms(3) by (simp add: size_fits_def word_le_nat_alt)
  have b32: "unat bs < 2 ^ 32" using unsigned_less [of bs, where 'a = nat] by simp
  have u: "unat (ucast bs :: u64) = unat bs" by (simp add: unat_ucast_up)
  have a: "unat (sz + ucast bs) = unat sz + unat bs" using sz b32 u by (subst unat_add_lem [THEN iffD1]) simp_all
  have "unat (sz + ucast bs - 1) = unat sz + unat bs - 1"
    using a bs by (subst unat_minus_one) (auto simp: unat_eq_zero [symmetric])
  then have d: "unat ((sz + ucast bs - 1) div ucast bs) = (unat sz + unat bs - 1) div unat bs"
    by (simp add: unat_div u)
  have "(unat sz + unat bs - 1) div unat bs \<le> (2 ^ 38 - 65 + unat bs) div unat bs" using sz bs by (intro div_le_mono) simp
  also have "\<dots> = (2 ^ 38 - 65) div unat bs + 1" using bs div_add_self2 [of "unat bs" "2 ^ 38 - 65"] by simp
  also have "\<dots> \<le> (2 ^ 38 - 65) div 64 + 1" using bs by (intro add_right_mono div_le_mono2) simp_all
  also have "\<dots> < 2 ^ 32" by simp
  finally have "unat (ucast ((sz + ucast bs - 1) div ucast bs) :: u32) = (unat sz + unat bs - 1) div unat bs"
    using d by (simp add: unsigned_ucast_eq take_bit_nat_eq_self_iff)
  then show ?thesis using assms(1) by (auto simp: dc_blocks_def split: if_splits)
qed

text \<open>A block that is accepted.\<close>

lemma block_offset:
  assumes "size_fits sz" "unat seq < (unat sz + unat bs - 1) div unat bs" "64 \<le> bs"
  shows "unat (dc_block_off bs seq) = unat seq * unat bs" "unat seq * unat bs < unat sz"
    "dc_block_want bs sz seq = min (unat bs) (unat sz - unat seq * unat bs)"
proof -
  have bs: "64 \<le> unat bs" using assms(3) by (simp add: word_le_nat_alt)
  have u: "unat (ucast bs :: u64) = unat bs" "unat (ucast seq :: u64) = unat seq" by (simp_all add: unat_ucast_up)
  have sz: "unat sz \<le> 2 ^ 38 - 64" using assms(1) by (simp add: size_fits_def word_le_nat_alt)
  have "Suc (unat seq) * unat bs \<le> unat sz + unat bs - 1"
  proof -
    have "Suc (unat seq) * unat bs \<le> (unat sz + unat bs - 1) div unat bs * unat bs" using assms(2) by (intro mult_le_mono1) simp
    then show ?thesis using div_times_less_eq_dividend le_trans by blast
  qed
  then show lt: "unat seq * unat bs < unat sz" using bs by (simp add: algebra_simps)
  then show off: "unat (dc_block_off bs seq) = unat seq * unat bs"
    using u sz by (simp add: dc_block_off_def unat_mult_lem [THEN iffD1])
  have "unat (sz - dc_block_off bs seq) = unat sz - unat seq * unat bs" using lt off by (subst unat_sub) (simp_all add: word_le_nat_alt)
  then show "dc_block_want bs sz seq = min (unat bs) (unat sz - unat seq * unat bs)"
    by (simp add: dc_block_want_def Let_def word_less_nat_alt u)
qed

lemma pwrite_good:
  assumes "length d = n" "off + length b \<le> n"
  shows "length (dc_pwrite d off b) = n" "take (off + length b) (dc_pwrite d off b) = take off d @ b"
  using assms by (simp_all add: dc_pwrite_def)

lemma block_good:
  assumes "file_good bs d f" "64 \<le> bs" "size_fits (cf_size f)" "cf_expected_seq f < cf_total_blocks f"
    and "length b = dc_block_want bs (cf_size f) (cf_expected_seq f)"
  shows "file_good bs (dc_pwrite d (unat (dc_block_off bs (cf_expected_seq f))) b)
     (f\<lparr>cf_sha := cf_sha f @ b, cf_expected_seq := cf_expected_seq f + 1\<rparr>)"
proof -
  let ?s = "cf_expected_seq f" let ?n = "unat (cf_size f)" let ?o = "unat ?s * unat bs"
  have g: "length d = ?n" "cf_sha f = take ?o d" "unat (cf_total_blocks f) = (?n + unat bs - 1) div unat bs"
    using assms(1) by (simp_all add: file_good_def)
  have s: "unat ?s < (?n + unat bs - 1) div unat bs" using assms(4) g(3) by (simp add: word_less_nat_alt)
  note o = block_offset [OF assms(3) s assms(2)]
  have len: "length b = min (unat bs) (?n - ?o)" using assms(5) o(3) by simp
  have s1: "unat (?s + 1) = Suc (unat ?s)"
  proof -
    have "unat ?s < unat (cf_total_blocks f)" using assms(4) by (simp add: word_less_nat_alt)
    moreover have "unat (cf_total_blocks f) < 2 ^ 32" using unsigned_less [of "cf_total_blocks f", where 'a = nat] by simp
    ultimately show ?thesis by (subst unat_add_lem [THEN iffD1]) simp_all
  qed
  have fits: "?o + length b \<le> ?n" using len o(2) by simp
  note w = pwrite_good [OF g(1) fits]
  have "take (Suc (unat ?s) * unat bs) (dc_pwrite d ?o b) = take (?o + length b) (dc_pwrite d ?o b)"
  proof (cases "unat bs \<le> ?n - ?o")
    case True
    then show ?thesis using len by (simp add: add.commute)
  next
    case False
    then have "?o + length b = ?n" using len o(2) by simp
    then show ?thesis using w(1) False by (simp add: add.commute)
  qed
  then show ?thesis using w g o(1) s1 by (simp add: file_good_def)
qed

lemma complete_good:
  assumes "file_good bs d f" "cf_total_blocks f \<le> cf_expected_seq f" "64 \<le> bs"
  shows "cf_sha f = d"
proof -
  have bs: "0 < unat bs" using assms(3) by (simp add: word_le_nat_alt)
  have "(unat (cf_size f) + unat bs - 1) div unat bs \<le> unat (cf_expected_seq f)"
    using assms(1,2) by (simp add: file_good_def word_le_nat_alt)
  moreover have "unat (cf_size f) \<le> (unat (cf_size f) + unat bs - 1) div unat bs * unat bs"
  proof -
    have "(unat (cf_size f) + unat bs - 1) mod unat bs < unat bs" using bs by simp
    moreover have "(unat (cf_size f) + unat bs - 1) div unat bs * unat bs + (unat (cf_size f) + unat bs - 1) mod unat bs =
        unat (cf_size f) + unat bs - 1" by simp
    ultimately show ?thesis by linarith
  qed
  ultimately have "unat (cf_size f) \<le> unat (cf_expected_seq f) * unat bs" by (meson le_trans mult_le_mono1)
  then show ?thesis using assms(1) by (simp add: file_good_def)
qed

section \<open>The invariant\<close>

definition rx_open :: "dc_trans \<Rightarrow> bool" where
  "rx_open t \<longleftrightarrow> dt_phase t \<in> {DC_PH_RX_WAIT_DATA, DC_PH_RX_WAIT_DONEACK, DC_PH_RX_DONE}"

definition rx_verified :: "(bytes \<Rightarrow> cstr) \<Rightarrow> dc_file \<Rightarrow> bool" where
  "rx_verified sha f \<longleftrightarrow> cf_write_complete f \<and>
     (case cf_expected_sha f of None \<Rightarrow> True | Some e \<Rightarrow> map ascii_tolower (sha (cf_sha f)) = map ascii_tolower e)"

definition trans_ok :: "(cstr \<times> cstr \<Rightarrow> nat) \<Rightarrow> cstr \<Rightarrow> u32 \<Rightarrow> (nat \<Rightarrow> bytes) \<Rightarrow> dc_trans \<Rightarrow> bool" where
  "trans_ok ino dir bs disk t \<longleftrightarrow> map cf_entry (dt_files t) = dt_hdr t \<and> files_ok ino dir bs disk (dt_files t)"

definition content_inv :: "(cstr \<times> cstr \<Rightarrow> nat) \<Rightarrow> (bytes \<Rightarrow> cstr) \<Rightarrow> cstr \<Rightarrow> dfile_conn \<Rightarrow> bool" where
  "content_inv ino sha dir c \<longleftrightarrow> dc_recv_dir c = Some dir \<and>
     (if dc_negotiated c then 64 \<le> dc_block_size c else dc_block_size c = 0) \<and>
     opt_all (\<lambda>t. (rx_open t \<longrightarrow> unat (dt_node_number t) \<le> length (dt_hdr t) \<and> (dc_negotiated c \<or> dt_files t = []) \<and> trans_ok ino dir (dc_block_size c) (dc_disk c) t) \<and>
       (dt_phase t \<in> {DC_PH_RX_WAIT_DONEACK, DC_PH_RX_DONE} \<longrightarrow> (\<forall>f \<in> set (dt_files t). rx_verified sha f))) (dc_rx c)"

text \<open>What the environment gives in a run: one inode per path, one digest.\<close>

definition io_fits :: "(cstr \<times> cstr \<Rightarrow> nat) \<Rightarrow> (bytes \<Rightarrow> cstr) \<Rightarrow> dc_io \<Rightarrow> bool" where
  "io_fits ino sha io \<longleftrightarrow> dio_sha io = sha \<and> (\<forall>p fd. dio_create io p = Some fd \<longrightarrow> fd = ino p)"

text \<open>Opening the files.\<close>

lemma open_file_good:
  assumes "rx_open_file io dir he c = Some (Some f, c')" "io_fits ino sha io" "64 \<le> dc_block_size c"
  shows "cf_entry f = he \<and> file_known ino dir f \<and> cf_name f = fe_name he \<and>
     (size_fits (cf_size f) \<longrightarrow> file_good (dc_block_size c) (dc_disk c' (file_ino ino dir f)) f) \<and>
     c' = c\<lparr>dc_disk := (dc_disk c)(file_ino ino dir f := replicate (unat (fe_file_size he)) 0)\<rparr>"
proof -
  obtain fd n where fd: "dio_create io (dir, fe_name he) = Some fd" and n: "dc_blocks (dc_block_size c) (fe_file_size he) = Some n"
    and f: "f = \<lparr>cf_file_id = fe_file_id he, cf_size = fe_file_size he, cf_name = fe_name he, cf_fd = Some fd,
        cf_total_blocks = n, cf_next_seq = 0, cf_retrans = [], cf_last_acked = 0, cf_acked_all = False,
        cf_confirmed = False, cf_dst_path = Some (dir, fe_name he), cf_expected_seq = 0, cf_write_complete = (n = 0),
        cf_sha = [], cf_expected_sha = ft_testfile_name_sha (Some (fe_name he))\<rparr>"
    and c': "c' = c\<lparr>dc_disk := (dc_disk c)(fd := replicate (unat (fe_file_size he)) 0)\<rparr>"
    using assms(1) by (auto simp: rx_open_file_def bind_eq_Some_conv Let_def split: if_splits option.splits)
  have "fd = ino (dir, fe_name he)" using assms(2) fd by (simp add: io_fits_def)
  moreover have "size_fits (fe_file_size he) \<longrightarrow> unat n = (unat (fe_file_size he) + unat (dc_block_size c) - 1) div unat (dc_block_size c)"
    using blocks_fit [OF n assms(3)] by blast
  ultimately show ?thesis by (simp add: f c' cf_entry_def file_known_def file_ino_def file_good_def)
qed

lemma open_files_good:
  assumes "rx_open_files io dir hes c = Some (fs, True, c')" "io_fits ino sha io" "64 \<le> dc_block_size c"
  shows "map cf_entry fs = hes \<and> files_ok ino dir (dc_block_size c) (dc_disk c') fs \<and>
     (\<forall>i. i \<notin> set (map (file_ino ino dir) fs) \<longrightarrow> dc_disk c' i = dc_disk c i)"
  using assms(1,3)
proof (induction hes arbitrary: c fs c')
  case Nil
  then show ?case by (simp add: files_ok_def)
next
  case (Cons he hes)
  obtain f c1 gs where f: "rx_open_file io dir he c = Some (Some f, c1)" and g: "rx_open_files io dir hes c1 = Some (gs, True, c')"
    and fs: "fs = f # gs"
    using Cons.prems(1) by (auto simp: bind_eq_Some_conv split: option.splits)
  note h = open_file_good [OF f assms(2) Cons.prems(2)]
  have bs: "dc_block_size c1 = dc_block_size c" using h by simp
  have ih: "map cf_entry gs = hes \<and> files_ok ino dir (dc_block_size c) (dc_disk c') gs \<and>
     (\<forall>i. i \<notin> set (map (file_ino ino dir) gs) \<longrightarrow> dc_disk c' i = dc_disk c1 i)"
    using Cons.IH [OF g] Cons.prems(2) bs by simp
  have "dc_disk c' (file_ino ino dir f) = dc_disk c1 (file_ino ino dir f)" if "file_ino ino dir f \<notin> set (map (file_ino ino dir) gs)"
    using ih that by blast
  then have "files_ok ino dir (dc_block_size c) (dc_disk c') (f # gs)"
    using ih h by (auto simp: files_ok_def)
  then show ?case using ih h fs by auto
qed

text \<open>An accepted block.\<close>

lemma put_split:
  "find (\<lambda>x. cf_file_id x = i) fs = Some f \<Longrightarrow> cf_file_id g = i \<Longrightarrow> \<exists>as bs. fs = as @ f # bs \<and> put_file g fs = as @ g # bs"
proof (induction fs)
  case (Cons x fs)
  show ?case
  proof (cases "cf_file_id x = i")
    case True
    then show ?thesis using Cons.prems by (intro exI [of _ "[]"] exI [of _ fs]) simp
  next
    case False
    then obtain as bs where "fs = as @ f # bs" "put_file g fs = as @ g # bs" using Cons by auto
    then show ?thesis using False Cons.prems(2) by (intro exI [of _ "x # as"] exI [of _ bs]) simp
  qed
qed simp

lemma files_replace:
  assumes "files_ok ino dir bs disk (as @ f # cs)" "file_ino ino dir g = file_ino ino dir f" "file_known ino dir g"
    and "distinct (map (file_ino ino dir) (as @ f # cs)) \<Longrightarrow> size_fits (cf_size g) \<Longrightarrow> file_good bs d g"
  shows "files_ok ino dir bs (disk(file_ino ino dir f := d)) (as @ g # cs)"
proof -
  let ?i = "file_ino ino dir"
  have ne: "?i x \<noteq> ?i f" if "distinct (map ?i (as @ f # cs))" "x \<in> set as \<union> set cs" for x
    using that by (auto dest: sym simp: image_iff)
  have "size_fits (cf_size x) \<longrightarrow> file_good bs ((disk(?i f := d)) (?i x)) x"
    if di: "distinct (map ?i (as @ g # cs))" and x: "x \<in> set (as @ g # cs)" for x
  proof (cases "x = g")
    case True
    then show ?thesis using assms(2,4) di by simp
  next
    case False
    then have "x \<in> set as \<union> set cs" "distinct (map ?i (as @ f # cs))" using x di assms(2) by auto
    then show ?thesis using ne assms(1) by (simp add: files_ok_def)
  qed
  moreover have "\<forall>x \<in> set (as @ g # cs). file_known ino dir x" using assms(1,3) by (auto simp: files_ok_def)
  ultimately show ?thesis unfolding files_ok_def by blast
qed

section \<open>Every step keeps it\<close>

text \<open>A receiving transfer whose content is right.\<close>

definition rx_good :: "(cstr \<times> cstr \<Rightarrow> nat) \<Rightarrow> cstr \<Rightarrow> dfile_conn \<Rightarrow> dc_trans \<Rightarrow> bool" where
  "rx_good ino dir c t \<longleftrightarrow> unat (dt_node_number t) \<le> length (dt_hdr t) \<and> (dc_negotiated c \<or> dt_files t = []) \<and>
     trans_ok ino dir (dc_block_size c) (dc_disk c) t"

definition conn_good :: "cstr \<Rightarrow> dfile_conn \<Rightarrow> bool" where
  "conn_good dir c \<longleftrightarrow> dc_recv_dir c = Some dir \<and> (if dc_negotiated c then 64 \<le> dc_block_size c else dc_block_size c = 0)"

lemma content_inv_eq:
  "content_inv ino sha dir c \<longleftrightarrow> conn_good dir c \<and>
     opt_all (\<lambda>t. (rx_open t \<longrightarrow> rx_good ino dir c t) \<and>
       (dt_phase t \<in> {DC_PH_RX_WAIT_DONEACK, DC_PH_RX_DONE} \<longrightarrow> (\<forall>f \<in> set (dt_files t). rx_verified sha f))) (dc_rx c)"
  by (auto simp: content_inv_def conn_good_def rx_good_def opt_all_def)

lemma keep_good: "rx_keep c c' \<Longrightarrow> rx_good ino dir c' t = rx_good ino dir c t" "rx_keep c c' \<Longrightarrow> conn_good dir c' = conn_good dir c"
  by (simp_all add: rx_keep_def rx_good_def conn_good_def)

lemma good_update [simp]:
  "conn_good dir (c\<lparr>dc_rx := x\<rparr>) = conn_good dir c" "rx_good ino dir (c\<lparr>dc_rx := x\<rparr>) t = rx_good ino dir c t"
  "rx_good ino dir c (t\<lparr>dt_phase := ph\<rparr>) = rx_good ino dir c t"
  "conn_good dir (c\<lparr>dc_disk := k\<rparr>) = conn_good dir c" "conn_good dir (dc_emit e c) = conn_good dir c"
  "rx_good ino dir (dc_emit e c) t = rx_good ino dir c t"
  by (simp_all add: conn_good_def rx_good_def trans_ok_def)

lemma rx_good_same:
  "dt_files t' = dt_files t \<Longrightarrow> dt_hdr t' = dt_hdr t \<Longrightarrow> dt_node_number t' = dt_node_number t \<Longrightarrow>
   rx_good ino dir c t' = rx_good ino dir c t"
  by (simp add: rx_good_def trans_ok_def)

lemma content_keep:
  assumes "content_inv ino sha dir c" "rx_keep c c'"
  shows "content_inv ino sha dir c'"
proof -
  note k = keep_good [OF assms(2)]
  consider "dc_rx c' = dc_rx c" | t where "dc_rx c' = Some t" "dt_phase t = DC_PH_FAILED"
    using assms(2) by (auto simp: rx_keep_def)
  then show ?thesis using assms(1) by cases (simp_all add: content_inv_eq k rx_open_def)
qed

lemma content_idle:
  assumes "conn_good dir c" "dc_rx c = Some t" "\<not> rx_open t"
  shows "content_inv ino sha dir c"
  using assms by (auto simp: content_inv_eq rx_open_def)

lemma setting_content:
  assumes "content_inv ino sha dir c" "handle_setting io f c = Some c'"
  shows "content_inv ino sha dir c'"
proof (cases "dc_negotiated c")
  case True
  then show ?thesis using assms by (simp add: handle_setting_def)
next
  case False
  obtain r where r: "dfile_decode_setting f = Some r" using decode_total by blast
  consider "rx_keep c c'" | s where "c' = dc_emit DcNegotiated
          (c\<lparr>dc_peer_setting := Some s, dc_block_size := dc_pick_block s, dc_negotiated := True, dc_state := DC_ST_READY\<rparr>)"
    using assms(2) r by (cases r) (auto simp: handle_setting_def intro!: keep_into split: if_splits)
  then show ?thesis
  proof cases
    case 2
    then show ?thesis using assms(1) False pick_block [of s]
      by (auto simp: content_inv_eq conn_good_def rx_good_def trans_ok_def files_ok_def opt_all_def)
  qed (use assms(1) content_keep in blast)
qed

lemma open_files_zero: "rx_open_files io dir hes c = Some (fs, True, c') \<Longrightarrow> dc_block_size c = 0 \<Longrightarrow> hes = [] \<and> fs = []"
  by (cases hes) (auto simp: rx_open_file_def bind_eq_Some_conv dc_blocks_def Let_def split: option.splits if_splits)

lemma confirm_content:
  assumes "conn_good dir c" "rx_good ino dir c t" "dc_rx c = Some t \<or> (\<exists>u. dc_rx c = Some u \<and> dt_phase u = DC_PH_FAILED)" "dt_phase t = DC_PH_IDLE"
  shows "content_inv ino sha dir (rx_confirm io t c)"
proof -
  have cc: "content_inv ino sha dir c" using assms(1,3,4) content_idle [of dir c] by (auto simp: rx_open_def)
  obtain c1 s1 where s1: "dc_send_opt io (dc_idlist DFILE_FRAME_FILE_HEADER_CONFIRM (dt_trans_id t) (map fe_file_id (dt_hdr t))) c = (c1, s1)"
    by fastforce
  obtain c2 s2 where s2: "dc_send_opt io (dc_idlist DFILE_FRAME_FILE_TRANSFER_REQ (dt_trans_id t) (map fe_file_id (dt_hdr t))) c1 = (c2, s2)"
    by fastforce
  have k: "rx_keep c c1" "rx_keep c c2" using keep_send [OF s1] keep_send [OF s2] keep_trans by blast+
  have "content_inv ino sha dir (c2\<lparr>dc_rx := Some (t\<lparr>dt_phase := DC_PH_RX_WAIT_DATA\<rparr>)\<rparr>)"
    using assms(1,2) keep_good [OF k(2)] by (simp add: content_inv_eq)
  moreover have "content_inv ino sha dir (trans_fail io False False d)" if "rx_keep c d" for d
    using content_keep [OF cc keep_into(1) [OF that]] .
  ultimately show ?thesis using k by (simp add: rx_confirm_def Let_def s1 s2)
qed

lemma header_complete_content:
  assumes "conn_good dir c" "dc_rx c = Some t" "dt_phase t = DC_PH_IDLE" "unat (dt_node_number t) \<le> length (dt_hdr t)"
    and "io_fits ino sha io" "rx_header_complete io c = Some c'"
  shows "content_inv ino sha dir c'"
proof -
  have d: "dc_recv_dir c = Some dir" using assms(1) by (simp add: conn_good_def)
  obtain fs ok c1 where o: "rx_open_files io dir (dt_hdr t) c = Some (fs, ok, c1)"
    using assms(2,3,6) d by (auto simp: rx_header_complete_def bind_eq_Some_conv)
  define t1 where "t1 = t\<lparr>dt_files := fs\<rparr>"
  define c2 where "c2 = c1\<lparr>dc_rx := Some t1\<rparr>"
  obtain k where k: "c1 = c\<lparr>dc_disk := k\<rparr>" using open_files_disk [OF o] by blast
  have g2: "conn_good dir c2" using assms(1) by (simp add: c2_def k conn_good_def)
  have cc: "content_inv ino sha dir c2" using assms(3) by (intro content_idle [OF g2, of t1]) (simp_all add: c2_def t1_def rx_open_def)
  have "c' = trans_fail io False False (dc_send_rst io (dt_trans_id t) DFILE_RST_NO_ENOUGH_STORAGE [] c2) \<and> \<not> ok \<or>
      ok \<and> (\<exists>c3. rx_file_list io t1 c2 = Some c3 \<and> c' = rx_confirm io t1 c3)"
    using assms(2,3,6) d o by (auto simp: rx_header_complete_def Let_def t1_def c2_def split: if_splits)
  then consider "rx_keep c2 c'" | c3 where ok "rx_keep c2 c3" "c' = rx_confirm io t1 c3"
    using keep_file_list keep_into keep_refl by blast
  then show ?thesis
  proof cases
    case 1
    then show ?thesis using content_keep cc by blast
  next
    case (2 c3)
    have o': "rx_open_files io dir (dt_hdr t) c = Some (fs, True, c1)" using o 2(1) by simp
    have "rx_good ino dir c2 t1"
    proof (cases "dc_negotiated c")
      case True
      then have "64 \<le> dc_block_size c" using assms(1) by (simp add: conn_good_def)
      from open_files_good [OF o' assms(5) this] show ?thesis
        using True assms(4) by (simp add: rx_good_def trans_ok_def t1_def c2_def k)
    next
      case False
      then have "dt_hdr t = []" "fs = []" using open_files_zero [OF o'] assms(1) by (simp_all add: conn_good_def)
      then show ?thesis using assms(4) by (simp add: rx_good_def trans_ok_def files_ok_def t1_def c2_def)
    qed
    moreover have "dc_rx c3 = Some t1 \<or> (\<exists>u. dc_rx c3 = Some u \<and> dt_phase u = DC_PH_FAILED)"
      using 2(2) by (auto simp: rx_keep_def c2_def)
    ultimately show ?thesis using confirm_content [of dir c3 ino t1] keep_good [OF 2(2)] g2 2(3) assms(3) by (simp add: t1_def)
  qed
qed

lemma accept_full: "node \<le> length hdr \<Longrightarrow> rx_accept node hdr es = (hdr', ok) \<Longrightarrow> hdr' = hdr"
  by (induction es) (auto split: if_splits)

lemma file_header_content:
  assumes "content_inv ino sha dir c" "io_fits ino sha io" "handle_file_header io f c = Some c'"
  shows "content_inv ino sha dir c'"
proof (cases "\<exists>t. dc_rx c = Some t \<and> (dt_phase t = DC_PH_FAILED \<or> dt_phase t = DC_PH_RX_DONE)")
  case True
  then have "c' = c" using assms(3) by (auto simp: handle_file_header_def)
  then show ?thesis using assms(1) by simp
next
  case False
  obtain r where r: "dfile_decode_file_header f = Some r" using decode_total by blast
  show ?thesis
  proof (cases r)
    case None
    then have "c' = shutdown_common io c"
      using assms(3) False r by (cases "dc_rx c") (auto simp: handle_file_header_def)
    then show ?thesis using content_keep assms(1) keep_shutdown by blast
  next
    case (Some x)
    then obtain tr node es where x: "r = Some (tr, node, es)" by (cases x) auto
    define t where "t = (case dc_rx c of None \<Rightarrow> (trans_new False tr (dio_now io))\<lparr>dt_node_number := node\<rparr> | Some t \<Rightarrow> t)"
    obtain hdr ok where a: "rx_accept (unat node) (dt_hdr t) es = (hdr, ok)" by fastforce
    define c1 where "c1 = c\<lparr>dc_rx := Some (t\<lparr>dt_hdr := hdr\<rparr>)\<rparr>"
    have cg: "conn_good dir c1" using assms(1) by (simp add: content_inv_eq c1_def conn_good_def)
    have c': "c' = shutdown_common io c \<or> dt_node_number t = node \<and>
        (c' = shutdown_common io c1 \<or> c' = c1 \<or> unat node \<le> length hdr \<and> rx_header_complete io c1 = Some c')"
      using assms(3) False r x a [unfolded t_def] unfolding c1_def t_def
      by (cases "dc_rx c") (auto simp: handle_file_header_def Let_def split: if_splits)
    show ?thesis
    proof (cases "rx_open t \<and> dt_node_number t = node")
      case True
      then have rx: "dc_rx c = Some t" by (auto simp: t_def rx_open_def trans_new_def split: option.splits)
      then have "unat node \<le> length (dt_hdr t)" using assms(1) True by (simp add: content_inv_eq rx_good_def)
      then have "hdr = dt_hdr t" using accept_full a by blast
      then have "c1 = c" using rx by (simp add: c1_def)
      moreover have "c' = c1" if "rx_header_complete io c1 = Some c'"
        using that True by (auto simp: rx_header_complete_def c1_def rx_open_def)
      ultimately show ?thesis using c' assms(1) content_keep keep_shutdown by blast
    next
      case no: False
      show ?thesis
      proof (cases "dt_node_number t = node")
        case False
        then show ?thesis using c' assms(1) content_keep keep_shutdown by blast
      next
        case True
        then have "\<not> rx_open t" using no by blast
        then have cc: "content_inv ino sha dir c1" by (intro content_idle [OF cg, of "t\<lparr>dt_hdr := hdr\<rparr>"]) (simp_all add: c1_def rx_open_def)
        have "content_inv ino sha dir c'" if h: "unat node \<le> length hdr" "rx_header_complete io c1 = Some c'"
        proof (cases "dt_phase t = DC_PH_IDLE")
          case ph: True
          show ?thesis
            by (rule header_complete_content [OF cg, of "t\<lparr>dt_hdr := hdr\<rparr>", OF _ _ _ assms(2) h(2)])
              (use ph h(1) True in \<open>simp_all add: c1_def\<close>)
        next
          case ph: False
          then have "c' = c1" using h(2) by (simp add: rx_header_complete_def c1_def)
          then show ?thesis using cc by simp
        qed
        then show ?thesis using c' cc assms(1) content_keep keep_shutdown by blast
      qed
    qed
  qed
qed

lemma data_content:
  assumes "content_inv ino sha dir c" "handle_data io frame c = Some c'"
  shows "content_inv ino sha dir c'"
  using assms(2)
proof (cases rule: data_cases)
  case 2
  then show ?thesis using content_keep assms(1) keep_shutdown by blast
next
  case 3
  then show ?thesis using content_keep assms(1) keep_refuse by blast
next
  case (4 t f fd tr fl seq pay f1)
  define g where "g = (if cf_total_blocks f \<le> seq + 1 then f1\<lparr>cf_write_complete := True, cf_fd := None\<rparr> else f1)"
  define d where "d = dc_pwrite (dc_disk c fd) (unat (dc_block_off (dc_block_size c) seq)) pay"
  have r: "rx_good ino dir c t" "conn_good dir c" using assms(1) 4(1,2) by (simp_all add: content_inv_eq rx_open_def)
  have e: "cf_entry g = cf_entry f" "cf_file_id g = cf_file_id f" "file_ino ino dir g = file_ino ino dir f" "cf_size g = cf_size f"
    by (simp_all add: g_def 4(10) cf_entry_def file_ino_def)
  obtain as cs where s: "dt_files t = as @ f # cs" "put_file g (dt_files t) = as @ g # cs"
    using put_split [OF 4(5) [unfolded find_file_def] e(2)] by blast
  have ok: "files_ok ino dir (dc_block_size c) (dc_disk c) (as @ f # cs)" using r(1) s(1) by (simp add: rx_good_def trans_ok_def)
  then have k: "file_known ino dir f" by (simp add: files_ok_def)
  then have fd: "fd = file_ino ino dir f" using 4(9) by (simp add: file_known_def)
  have bs: "64 \<le> dc_block_size c" using r s(1) by (auto simp: conn_good_def rx_good_def)
  have "file_known ino dir g"
    using k 4(6,7) by (auto simp: g_def 4(10) file_known_def file_ino_def)
  moreover have "file_good (dc_block_size c) d g"
    if "distinct (map (file_ino ino dir) (as @ f # cs))" "size_fits (cf_size g)"
  proof -
    have "file_good (dc_block_size c) (dc_disk c fd) f" using ok that fd e(4) by (simp add: files_ok_def)
    from block_good [OF this bs] have "file_good (dc_block_size c) d f1" using that(2) e(4) 4(6-8) by (simp add: d_def 4(10))
    then show ?thesis by (simp add: g_def file_good_def)
  qed
  ultimately have "files_ok ino dir (dc_block_size c) ((dc_disk c)(fd := d)) (as @ g # cs)"
    unfolding fd by (intro files_replace [OF ok e(3)])
  then have "content_inv ino sha dir (c\<lparr>dc_disk := (dc_disk c)(fd := d), dc_rx := Some (t\<lparr>dt_files := as @ g # cs, dt_ack_pending := True\<rparr>)\<rparr>)"
    using r s(1) e(1) 4(2) by (simp add: content_inv_eq rx_good_def trans_ok_def conn_good_def)
  then show ?thesis using 4(11) s(2) by (simp add: g_def d_def)
qed (use assms(1) in simp)

lemma doneack_content:
  assumes "content_inv ino sha dir c" "handle_doneack io f c = Some c'"
  shows "content_inv ino sha dir c'"
proof (cases "\<exists>t. dc_rx c = Some t \<and> dt_phase t = DC_PH_RX_WAIT_DONEACK")
  case True
  then obtain t where t: "dc_rx c = Some t" "dt_phase t = DC_PH_RX_WAIT_DONEACK" by blast
  have "content_inv ino sha dir (dc_emit (DcResult False True) (c\<lparr>dc_rx := Some (t\<lparr>dt_phase := DC_PH_RX_DONE\<rparr>)\<rparr>))"
    using assms(1) t by (simp add: content_inv_eq rx_open_def)
  moreover obtain r where "dfile_decode_idlist f DFILE_FRAME_FILE_TRANSFER_DONE_ACK = Some r" using decode_total by blast
  ultimately show ?thesis using assms t content_keep [OF assms(1) keep_shutdown]
    by (cases r) (auto simp: handle_doneack_def split: if_splits)
qed (use assms in \<open>auto simp: handle_doneack_def split: option.splits if_splits\<close>)

lemma frame_content:
  assumes "content_inv ino sha dir c" "io_fits ino sha io" "handle_frame io f c = Some c'"
  shows "content_inv ino sha dir c'"
proof -
  consider "rx_keep c c'" | "handle_setting io f c = Some c'" | "handle_file_header io f c = Some c'" | "handle_data io f c = Some c'"
    | "handle_doneack io f c = Some c'"
    using frame_cases [OF assms(3)] keep_refl keep_shutdown keep_ctrl keep_ack keep_done keep_handle_rst by metis
  then show ?thesis
    by cases (rule content_keep [OF assms(1)] setting_content [OF assms(1)] file_header_content [OF assms(1,2)]
      data_content [OF assms(1)] doneack_content [OF assms(1)], assumption)+
qed

text \<open>The tick: a flush that fails leaves the files of the transfer as they were.\<close>

lemma flush_same:
  assumes "dc_rx c = Some t"
  obtains t' where "dc_rx (rx_flush_ack io c) = Some t'" "dt_files t' = dt_files t" "dt_hdr t' = dt_hdr t"
    "dt_node_number t' = dt_node_number t" "dt_phase t' \<in> {dt_phase t, DC_PH_FAILED}"
    "rx_keep (c\<lparr>dc_rx := Some t'\<rparr>) (rx_flush_ack io c)"
proof -
  define d where "d = c\<lparr>dc_rx := Some (t\<lparr>dt_ack_pending := False\<rparr>)\<rparr>"
  have "rx_flush_ack io c = d \<or> (\<exists>fo c2 ok. dc_send_opt io fo d = (c2, ok) \<and> rx_flush_ack io c = (if ok then c2 else trans_fail io False False c2))"
    unfolding rx_flush_ack_def assms d_def Let_def by (auto split: prod.splits)
  then obtain e where e: "emits (\<lambda>_. True) d e" "rx_flush_ack io c = e \<or> rx_flush_ack io c = trans_fail io False False e"
    using emits_send_opt emits_mono by (metis emits_refl)
  have rx: "dc_rx e = Some (t\<lparr>dt_ack_pending := False\<rparr>)" using emits_same(2) [OF e(1)] by (simp add: d_def)
  have k: "rx_keep d e" by (rule keep_emits [OF e(1)])
  show thesis
  proof (cases "rx_flush_ack io c = e")
    case True
    then show thesis using that [of "t\<lparr>dt_ack_pending := False\<rparr>"] rx k by (simp add: d_def)
  next
    case False
    then have f: "rx_flush_ack io c = trans_fail io False False e" using e(2) by blast
    show thesis
    proof (cases "dc_final (dt_phase t)")
      case True
      then have "trans_fail io False False e = e" using rx by (simp add: trans_fail_def dc_trans_of_def)
      then show thesis using False f by simp
    next
      case nf: False
      let ?t = "t\<lparr>dt_ack_pending := False, dt_phase := DC_PH_FAILED\<rparr>"
      have x: "dc_rx (trans_fail io False False e) = Some ?t"
        using rx nf by (simp add: trans_fail_def dc_trans_of_def dc_set_trans_def Let_def)
      have "rx_keep d (trans_fail io False False e)" using k keep_into(1) by blast
      then have "rx_keep (c\<lparr>dc_rx := Some ?t\<rparr>) (trans_fail io False False e)" using x by (simp add: rx_keep_def d_def)
      then show thesis using that [of ?t] x f by simp
    qed
  qed
qed

lemma send_done_content:
  assumes "conn_good dir c" "rx_good ino dir c t" "dc_rx c = Some t" "dt_phase t \<in> {DC_PH_RX_WAIT_DATA, DC_PH_FAILED}"
    and "dio_sha io = sha" "\<forall>f \<in> set (dt_files t). cf_write_complete f"
  shows "content_inv ino sha dir (rx_send_done io c)"
proof -
  have cc: "content_inv ino sha dir c" using assms(1-4) by (auto simp: content_inv_eq)
  obtain c1 ok where s: "dc_send_opt io (dc_idlist DFILE_FRAME_FILE_TRANSFER_DONE (dt_trans_id t) (map cf_file_id (dt_files t))) c = (c1, ok)"
    by fastforce
  have k: "rx_keep c c1" by (rule keep_send [OF s])
  have "content_inv ino sha dir (c1\<lparr>dc_rx := Some (t\<lparr>dt_done_sent := True, dt_phase := DC_PH_RX_WAIT_DONEACK\<rparr>)\<rparr>)"
    if "\<forall>f \<in> set (dt_files t). rx_sha_ok io f"
  proof -
    have "rx_good ino dir c1 (t\<lparr>dt_done_sent := True\<rparr>)" using assms(2) keep_good(1) [OF k, of ino dir t] by (simp add: rx_good_def trans_ok_def)
    moreover have "\<forall>f \<in> set (dt_files t). rx_verified sha f" using that assms(6) by (simp add: rx_sha_ok_def rx_verified_def assms(5) [symmetric])
    ultimately show ?thesis using assms(1) keep_good(2) [OF k, of dir] by (simp add: content_inv_eq)
  qed
  moreover have "content_inv ino sha dir (trans_fail io False False d)" if "rx_keep c d" for d
    using content_keep [OF cc keep_into(1) [OF that]] .
  ultimately show ?thesis using cc k keep_rst by (auto simp: rx_send_done_def assms(3) s)
qed

lemma tick_rx_content:
  assumes "content_inv ino sha dir c" "dio_sha io = sha"
  shows "content_inv ino sha dir (on_tick_rx io c)"
proof (cases "\<exists>t. dc_rx c = Some t \<and> dt_phase t = DC_PH_RX_WAIT_DATA")
  case True
  then obtain t where t: "dc_rx c = Some t" "dt_phase t = DC_PH_RX_WAIT_DATA" by blast
  have g: "conn_good dir c" "rx_good ino dir c t" using assms(1) t by (simp_all add: content_inv_eq rx_open_def)
  define c1 where "c1 = (if dt_ack_pending t then rx_flush_ack io c else c)"
  obtain t' where t': "dc_rx c1 = Some t'" "dt_files t' = dt_files t" "dt_hdr t' = dt_hdr t" "dt_node_number t' = dt_node_number t"
    "dt_phase t' \<in> {dt_phase t, DC_PH_FAILED}" "rx_keep (c\<lparr>dc_rx := Some t'\<rparr>) c1"
  proof (cases "dt_ack_pending t")
    case True
    then have "c1 = rx_flush_ack io c" by (simp add: c1_def)
    then show thesis using flush_same [OF t(1), of io] that by auto
  next
    case False
    then have "c1 = c" by (simp add: c1_def)
    moreover have "rx_keep (c\<lparr>dc_rx := Some t\<rparr>) c" using t(1) by (simp add: rx_keep_def)
    ultimately show thesis using that [of t] t(1) by simp
  qed
  have g1: "conn_good dir c1" "rx_good ino dir c1 t'"
    using g keep_good [OF t'(6)] rx_good_same [OF t'(2-4), of ino dir c] by simp_all
  then have c1: "content_inv ino sha dir c1" using t'(1,5) t(2) by (auto simp: content_inv_eq)
  have "on_tick_rx io c = c1 \<or> (\<forall>f \<in> set (dt_files t'). cf_write_complete f) \<and> on_tick_rx io c = rx_send_done io c1"
    using t t'(1) by (simp add: on_tick_rx_def dc_in_phase_def c1_def [symmetric] Let_def)
  then show ?thesis using c1 send_done_content [OF g1 t'(1) _ assms(2)] t'(5) t(2) by auto
qed (use assms in \<open>auto simp: on_tick_rx_def dc_in_phase_def split: option.splits\<close>)

lemma tick_content:
  assumes "content_inv ino sha dir c" "dio_sha io = sha"
  shows "content_inv ino sha dir (on_tick io c)"
proof -
  define a where "a = (if dc_expired io (dc_tx c) DC_PH_TX_DONE then trans_fail io True True c else c)"
  define b where "b = (if dc_expired io (dc_rx a) DC_PH_RX_DONE then trans_fail io False True a else a)"
  have "rx_keep c b" unfolding b_def a_def by (auto intro!: keep_into)
  then have b: "content_inv ino sha dir b" using content_keep assms(1) by blast
  then have "content_inv ino sha dir (on_tick_tx io (on_tick_rx io b))" "content_inv ino sha dir (on_tick_rx io b)"
      "content_inv ino sha dir (on_tick_retry io (on_tick_tx io (on_tick_rx io b)))"
    using tick_rx_content [OF _ assms(2)] content_keep keep_tick_tx keep_tick_retry by blast+
  then show ?thesis using b assms(1) content_keep [OF assms(1) keep_shutdown]
    unfolding on_tick_def Let_def a_def [symmetric] b_def [symmetric] by simp
qed

lemma frames_content:
  "content_inv ino sha dir c \<Longrightarrow> io_fits ino sha io \<Longrightarrow> dc_frames io buf c = Some (c', r) \<Longrightarrow> content_inv ino sha dir c'"
proof (induction "length buf" arbitrary: buf c rule: less_induct)
  case less
  show ?case
  proof (cases "df_verdict buf")
    case (Frame n)
    then obtain c1 where h: "handle_frame io (take n buf) c = Some c1"
      using less.prems(3) by (subst (asm) frames_eq) (auto split: option.splits)
    have c1: "content_inv ino sha dir c1" by (rule frame_content [OF less.prems(1,2) h])
    show ?thesis
    proof (cases "dc_state c1 = DC_ST_CLOSING")
      case True
      then show ?thesis using less.prems(3) Frame h c1 by (subst (asm) frames_eq) auto
    next
      case False
      then have "dc_frames io (drop n buf) c1 = Some (c', r)" using less.prems(3) Frame h by (subst (asm) frames_eq) simp
      moreover have "length (drop n buf) < length buf" using dffr.frame_pos [OF Frame] by auto
      ultimately show ?thesis using less.hyps c1 less.prems(2) by blast
    qed
  qed (use less.prems content_keep [OF less.prems(1) keep_shutdown] in \<open>subst (asm) frames_eq, auto\<close>)+
qed

lemma drain_content:
  "content_inv ino sha dir (fst s) \<Longrightarrow> io_fits ino sha io \<Longrightarrow> dc_drain io rs s = Some s' \<Longrightarrow> content_inv ino sha dir (fst s')"
proof (induction io rs s rule: dc_drain.induct)
  case (2 io d rs c buf)
  then obtain c1 r where c1: "dc_frames io (buf @ d) c = Some (c1, r)" by (auto split: option.splits)
  then have "content_inv ino sha dir c1" using frames_content 2 by fastforce
  then show ?case using 2 c1 by (auto split: if_splits)
qed (auto intro: content_keep [OF _ keep_shutdown])

lemma step_content:
  assumes "content_inv ino sha dir (fst s)" "io_fits ino sha io" "dc_step io ev s = Some s'"
  shows "content_inv ino sha dir (fst s')"
proof -
  obtain c buf where s: "s = (c, buf)" by (cases s)
  have c: "content_inv ino sha dir c" using assms(1) s by simp
  note k = content_keep [OF c]
  show ?thesis
  proof (cases ev)
    case (DcInput rs)
    then show ?thesis using assms(2,3) c drain_content [of ino sha dir s io rs s'] by (auto simp: dc_step_def s split: if_splits)
  next
    case (DcSendFiles items)
    then show ?thesis using assms(3) k keep_send_files by (fastforce simp: dc_step_def s)
  next
    case DcTick
    then show ?thesis using assms(2,3) tick_content [OF c] by (auto simp: dc_step_def s io_fits_def)
  qed (use assms(3) k keep_start keep_shutdown in \<open>auto simp: dc_step_def s close_impl_def\<close>)
qed

lemma run_content:
  "content_inv ino sha dir (fst s) \<Longrightarrow> \<forall>(io, ev) \<in> set evs. io_fits ino sha io \<Longrightarrow> dc_run evs s = Some s' \<Longrightarrow> content_inv ino sha dir (fst s')"
proof (induction evs arbitrary: s)
  case (Cons e evs)
  obtain io ev where e: "e = (io, ev)" by (cases e)
  obtain s1 where "dc_step io ev s = Some s1" "dc_run evs s1 = Some s'" using Cons.prems(3) e by (auto split: option.splits)
  then show ?case using Cons.IH [of s1] Cons.prems(1,2) e step_content [of ino sha dir s io ev s1] by auto
qed simp

lemma fresh_content: "content_inv ino sha dir (fst (dc_fresh (Some dir) now))"
  by (simp add: dc_fresh_def dfile_conn_set_recv_dir_def dc_alloc_def content_inv_def)

section \<open>The property\<close>


definition toy_receive_run :: "(dc_io \<times> dc_event) list" where
  "toy_receive_run = [(toy_io, DcInput [RecvData toy_setting,
       RecvData [1, 0, 0, 0, 0, 1, 0, 15, 0, 1, 0, 1, 0, 0, 0, 0, 0, 0, 0, 3, 0, 1, 97],
       RecvData [4, 2, 0, 0, 0, 1, 0, 9, 0, 1, 0, 0, 0, 0, 7, 8, 9]]), (toy_io, DcTick),
     (toy_io, DcInput [RecvData [7, 0, 0, 0, 0, 1, 0, 2, 0, 1]])]"

lemma toy_receive:
  "\<exists>c buf t. dc_run toy_receive_run (dc_fresh (Some []) 0) = Some (c, buf) \<and> results False (dc_out c) = [True] \<and>
     dc_rx c = Some t \<and> dt_hdr t = [\<lparr>fe_file_id = 1, fe_file_size = 3, fe_name = [97]\<rparr>]"
  by (simp add: toy_receive_run_def dc_eval toy_io_def toy_setting_def results_def)


end
