(* ===== verification/SoftbusDevice.thy ===== *)
theory SoftbusDevice
  imports SoftbusCrypto
begin

text \<open>
  The device record and its discovery beacon (\<open>src/proto/softbus_device.c\<close>), and the interface of
  the JSON library that the beacon and the authentication messages are made with.

  json-glib is not part of the program: the functions the code calls are a record of parameters, over
  a type \<open>'o\<close> of JSON objects and a type \<open>'d\<close> of JSON texts.  \<open>json_laws\<close> is what its
  documentation promises of them: members read back what was set, and a text that was generated from an object
  parses to that object.  A \<open>gint64\<close> is a 64-bit word.
\<close>

section \<open>The JSON library\<close>

datatype 'o json_root = LoadError | NoObject | Object 'o

record ('o, 'd) json_glib =
  json_object_new :: 'o
  json_set_int :: "'o \<Rightarrow> cstr \<Rightarrow> u64 \<Rightarrow> 'o"
  json_set_string :: "'o \<Rightarrow> cstr \<Rightarrow> cstr \<Rightarrow> 'o"
  json_has :: "'o \<Rightarrow> cstr \<Rightarrow> bool"
  json_get_int :: "'o \<Rightarrow> cstr \<Rightarrow> u64"
  json_get_string :: "'o \<Rightarrow> cstr \<Rightarrow> cstr option"
  json_to_data :: "'o \<Rightarrow> 'd"
  json_load :: "'d \<Rightarrow> 'o json_root"
  json_length :: "'d \<Rightarrow> nat"

definition json_laws :: "('o, 'd) json_glib \<Rightarrow> bool" where
  "json_laws J \<longleftrightarrow>
     (\<forall>k. \<not> json_has J (json_object_new J) k) \<and>
     (\<forall>k. json_get_string J (json_object_new J) k = None) \<and>
     (\<forall>o' k v k'. json_has J (json_set_int J o' k v) k' = (k' = k \<or> json_has J o' k')) \<and>
     (\<forall>o' k v k'. json_has J (json_set_string J o' k v) k' = (k' = k \<or> json_has J o' k')) \<and>
     (\<forall>o' k v. json_get_int J (json_set_int J o' k v) k = v) \<and>
     (\<forall>o' k v k'. k' \<noteq> k \<longrightarrow> json_get_int J (json_set_int J o' k v) k' = json_get_int J o' k') \<and>
     (\<forall>o' k v k'. k' \<noteq> k \<longrightarrow> json_get_int J (json_set_string J o' k v) k' = json_get_int J o' k') \<and>
     (\<forall>o' k v. json_get_string J (json_set_string J o' k v) k = Some v) \<and>
     (\<forall>o' k v k'. k' \<noteq> k \<longrightarrow> json_get_string J (json_set_string J o' k v) k' = json_get_string J o' k') \<and>
     (\<forall>o' k v k'. k' \<noteq> k \<longrightarrow> json_get_string J (json_set_int J o' k v) k' = json_get_string J o' k') \<and>
     (\<forall>o'. json_load J (json_to_data J o') = Object o') \<and>
     (\<forall>o'. 0 < json_length J (json_to_data J o'))"

lemma json_lawsD:
  assumes "json_laws J"
  shows "\<not> json_has J (json_object_new J) k"
    "json_get_string J (json_object_new J) k = None"
    "json_has J (json_set_int J o' k v) k' = (k' = k \<or> json_has J o' k')"
    "json_has J (json_set_string J o' k w) k' = (k' = k \<or> json_has J o' k')"
    "json_get_int J (json_set_int J o' k v) k' = (if k' = k then v else json_get_int J o' k')"
    "k' \<noteq> k \<Longrightarrow> json_get_int J (json_set_string J o' k w) k' = json_get_int J o' k'"
    "json_get_string J (json_set_string J o' k w) k' = (if k' = k then Some w else json_get_string J o' k')"
    "k' \<noteq> k \<Longrightarrow> json_get_string J (json_set_int J o' k v) k' = json_get_string J o' k'"
    "json_load J (json_to_data J o') = Object o'"
    "0 < json_length J (json_to_data J o')"
    "json_length J (json_to_data J o') \<noteq> 0"
  using assms by (simp_all add: json_laws_def)

text \<open>A library that satisfies the laws: an object is the map of its members, a text the object.\<close>

type_synonym toy_object = "cstr \<Rightarrow> (u64 + cstr) option"

definition toy_json :: "(toy_object, toy_object) json_glib" where
  "toy_json = \<lparr>json_object_new = (\<lambda>_. None), json_set_int = (\<lambda>o' k v. o'(k := Some (Inl v))),
     json_set_string = (\<lambda>o' k s. o'(k := Some (Inr s))), json_has = (\<lambda>o' k. o' k \<noteq> None),
     json_get_int = (\<lambda>o' k. case o' k of Some (Inl v) \<Rightarrow> v | _ \<Rightarrow> 0),
     json_get_string = (\<lambda>o' k. case o' k of Some (Inr s) \<Rightarrow> Some s | _ \<Rightarrow> None),
     json_to_data = (\<lambda>o'. o'), json_load = Object, json_length = (\<lambda>_. 1)\<rparr>"

lemma toy_json_laws: "json_laws toy_json"
  by (simp add: json_laws_def toy_json_def)

section \<open>The device record\<close>

record softbus_device =
  sd_refcount :: u32
  sd_device_id :: "cstr option"
  sd_device_name :: "cstr option"
  sd_device_type :: u32
  sd_capabilities :: u32
  sd_auth_port :: u16
  sd_session_port :: u16
  sd_proxy_port :: u16
  sd_ble_mac :: "cstr option"
  sd_peer_ip :: "cstr option"

definition softbus_device_new :: softbus_device where
  "softbus_device_new = \<lparr>sd_refcount = 1, sd_device_id = None, sd_device_name = None, sd_device_type = 0,
     sd_capabilities = 0, sd_auth_port = 0, sd_session_port = 0, sd_proxy_port = 0, sd_ble_mac = None, sd_peer_ip = None\<rparr>"

definition softbus_device_ref :: "softbus_device option \<Rightarrow> softbus_device option" where
  "softbus_device_ref dev = map_option (\<lambda>d. d\<lparr>sd_refcount := sd_refcount d + 1\<rparr>) dev"

text \<open>\<open>None\<close>: the record has been freed.\<close>

definition softbus_device_unref :: "softbus_device option \<Rightarrow> softbus_device option" where
  "softbus_device_unref dev =
     (case dev of
        None \<Rightarrow> None
      | Some d \<Rightarrow>
          if 0 < sd_refcount d then
            (let d = d\<lparr>sd_refcount := sd_refcount d - 1\<rparr> in if sd_refcount d = 0 then None else Some d)
          else Some d)"

definition softbus_device_get_id :: "softbus_device option \<Rightarrow> cstr option" where
  "softbus_device_get_id dev = (case dev of None \<Rightarrow> None | Some d \<Rightarrow> sd_device_id d)"
definition softbus_device_get_name :: "softbus_device option \<Rightarrow> cstr option" where
  "softbus_device_get_name dev = (case dev of None \<Rightarrow> None | Some d \<Rightarrow> sd_device_name d)"
definition softbus_device_get_capabilities :: "softbus_device option \<Rightarrow> u32" where
  "softbus_device_get_capabilities dev = (case dev of None \<Rightarrow> 0 | Some d \<Rightarrow> sd_capabilities d)"
definition softbus_device_set_peer_ip :: "softbus_device option \<Rightarrow> cstr option \<Rightarrow> softbus_device option" where
  "softbus_device_set_peer_ip dev ip = map_option (\<lambda>d. d\<lparr>sd_peer_ip := ip\<rparr>) dev"

section \<open>The beacon\<close>

definition SOFTBUS_JSON_DEVICE_ID :: cstr where "SOFTBUS_JSON_DEVICE_ID = bytes_of ''deviceId''"
definition SOFTBUS_JSON_DEVICE_NAME :: cstr where "SOFTBUS_JSON_DEVICE_NAME = bytes_of ''deviceName''"
definition SOFTBUS_JSON_DEVICE_TYPE :: cstr where "SOFTBUS_JSON_DEVICE_TYPE = bytes_of ''deviceType''"
definition SOFTBUS_JSON_CAPABILITIES :: cstr where "SOFTBUS_JSON_CAPABILITIES = bytes_of ''capabilities''"
definition SOFTBUS_JSON_AUTH_PORT :: cstr where "SOFTBUS_JSON_AUTH_PORT = bytes_of ''authPort''"
definition SOFTBUS_JSON_SESSION_PORT :: cstr where "SOFTBUS_JSON_SESSION_PORT = bytes_of ''sessionPort''"
definition SOFTBUS_JSON_PROXY_PORT :: cstr where "SOFTBUS_JSON_PROXY_PORT = bytes_of ''proxyPort''"
definition SOFTBUS_JSON_BLE_MAC :: cstr where "SOFTBUS_JSON_BLE_MAC = bytes_of ''bleMac''"

definition set_opt_string :: "('o, 'd) json_glib \<Rightarrow> cstr \<Rightarrow> cstr option \<Rightarrow> 'o \<Rightarrow> 'o" where
  "set_opt_string J k s obj = (case s of None \<Rightarrow> obj | Some s \<Rightarrow> json_set_string J obj k s)"

definition softbus_device_pack_beacon :: "('o, 'd) json_glib \<Rightarrow> softbus_device option \<Rightarrow> 'd option" where
  "softbus_device_pack_beacon J dev =
     (case dev of
        None \<Rightarrow> None
      | Some d \<Rightarrow>
          let obj = json_object_new J;
              obj = set_opt_string J SOFTBUS_JSON_DEVICE_ID (sd_device_id d) obj;
              obj = set_opt_string J SOFTBUS_JSON_DEVICE_NAME (sd_device_name d) obj;
              obj = json_set_int J obj SOFTBUS_JSON_DEVICE_TYPE (ucast (sd_device_type d));
              obj = json_set_int J obj SOFTBUS_JSON_CAPABILITIES (ucast (sd_capabilities d));
              obj = json_set_int J obj SOFTBUS_JSON_AUTH_PORT (ucast (sd_auth_port d));
              obj = json_set_int J obj SOFTBUS_JSON_SESSION_PORT (ucast (sd_session_port d));
              obj = json_set_int J obj SOFTBUS_JSON_PROXY_PORT (ucast (sd_proxy_port d));
              obj = set_opt_string J SOFTBUS_JSON_BLE_MAC (sd_ble_mac d) obj
          in Some (json_to_data J obj))"

text \<open>A member of the beacon: what is there is taken, what is not stays as \<open>softbus_device_new\<close> left it.\<close>

definition member_string :: "('o, 'd) json_glib \<Rightarrow> 'o \<Rightarrow> cstr \<Rightarrow> cstr option \<Rightarrow> cstr option" where
  "member_string J obj k old =
     (if json_has J obj k then (case json_get_string J obj k of None \<Rightarrow> old | Some s \<Rightarrow> Some s) else old)"

definition member_int :: "('o, 'd) json_glib \<Rightarrow> 'o \<Rightarrow> cstr \<Rightarrow> 'a::len word \<Rightarrow> 'a word" where
  "member_int J obj k old = (if json_has J obj k then ucast (json_get_int J obj k) else old)"

definition softbus_device_parse_beacon :: "('o, 'd) json_glib \<Rightarrow> 'd option \<Rightarrow> softbus_device option" where
  "softbus_device_parse_beacon J json =
     (case json of
        None \<Rightarrow> None
      | Some text \<Rightarrow>
          (case json_load J text of
             Object obj \<Rightarrow>
               let dev = softbus_device_new;
                   dev = dev\<lparr>sd_device_id := member_string J obj SOFTBUS_JSON_DEVICE_ID (sd_device_id dev)\<rparr>;
                   dev = dev\<lparr>sd_device_name := member_string J obj SOFTBUS_JSON_DEVICE_NAME (sd_device_name dev)\<rparr>;
                   dev = dev\<lparr>sd_device_type := member_int J obj SOFTBUS_JSON_DEVICE_TYPE (sd_device_type dev)\<rparr>;
                   dev = dev\<lparr>sd_capabilities := member_int J obj SOFTBUS_JSON_CAPABILITIES (sd_capabilities dev)\<rparr>;
                   dev = dev\<lparr>sd_auth_port := member_int J obj SOFTBUS_JSON_AUTH_PORT (sd_auth_port dev)\<rparr>;
                   dev = dev\<lparr>sd_session_port := member_int J obj SOFTBUS_JSON_SESSION_PORT (sd_session_port dev)\<rparr>;
                   dev = dev\<lparr>sd_proxy_port := member_int J obj SOFTBUS_JSON_PROXY_PORT (sd_proxy_port dev)\<rparr>;
                   dev = dev\<lparr>sd_ble_mac := member_string J obj SOFTBUS_JSON_BLE_MAC (sd_ble_mac dev)\<rparr>
               in if sd_device_id dev = None then softbus_device_unref (Some dev) else Some dev
           | _ \<Rightarrow> None))"

lemmas beacon_keys = SOFTBUS_JSON_DEVICE_ID_def SOFTBUS_JSON_DEVICE_NAME_def SOFTBUS_JSON_DEVICE_TYPE_def
  SOFTBUS_JSON_CAPABILITIES_def SOFTBUS_JSON_AUTH_PORT_def SOFTBUS_JSON_SESSION_PORT_def SOFTBUS_JSON_PROXY_PORT_def
  SOFTBUS_JSON_BLE_MAC_def

lemma len8_256: "2 ^ LENGTH(8) = (256 :: nat)"
  by simp

lemma of_char_byte: "(of_char c :: byte) = of_char d \<longleftrightarrow> c = d"
proof
  assume a: "(of_char c :: byte) = of_char d"
  have "unat (of_char e :: byte) = of_char e" for e
  proof -
    have "(of_char e :: byte) = of_nat (of_char e)" by (rule of_nat_of_char [symmetric])
    then show ?thesis using nat_of_char_less_256 [of e] by (metis unat_of_nat_small len8_256)
  qed
  then have "(of_char c :: nat) = of_char d" using a by metis
  then show "c = d" by simp
qed simp

lemma bytes_of_inject [simp]: "bytes_of s = bytes_of t \<longleftrightarrow> s = t"
proof -
  have "inj (of_char :: char \<Rightarrow> byte)" by (rule injI) (simp add: of_char_byte)
  then show ?thesis by (simp add: bytes_of_def inj_map_eq_map)
qed

lemma set_opt_string_laws:
  assumes "json_laws J"
  shows "json_has J (set_opt_string J k s obj) k' = (k' = k \<and> s \<noteq> None \<or> json_has J obj k')"
    "k' \<noteq> k \<Longrightarrow> json_get_int J (set_opt_string J k s obj) k' = json_get_int J obj k'"
    "json_get_string J (set_opt_string J k s obj) k' = (if k' = k \<and> s \<noteq> None then s else json_get_string J obj k')"
  using assms by (auto simp: set_opt_string_def json_lawsD split: option.splits)

text \<open>
  The beacon round trip: what a peer parses from a device's beacon is that device, with a fresh reference
  and no address yet; a beacon without a device id, and a text that is not a JSON object, are refused.
\<close>

lemma beacon_roundtrip:
  assumes "json_laws J"
  shows "do { text \<leftarrow> softbus_device_pack_beacon J (Some d); softbus_device_parse_beacon J (Some text) } =
      (if sd_device_id d = None then None else Some (d\<lparr>sd_refcount := 1, sd_peer_ip := None\<rparr>)) \<and>
    (softbus_device_parse_beacon J (Some txt) \<noteq> None \<longrightarrow>
       (\<exists>obj. json_load J txt = Object obj \<and> json_get_string J obj SOFTBUS_JSON_DEVICE_ID \<noteq> None))"
proof
  have u: "ucast (ucast v :: u64) = v" "ucast (ucast w :: u64) = w" for v :: u32 and w :: u16
    by (rule bit_word_eqI, simp add: bit_simps)+
  show "do { text \<leftarrow> softbus_device_pack_beacon J (Some d); softbus_device_parse_beacon J (Some text) } =
      (if sd_device_id d = None then None else Some (d\<lparr>sd_refcount := 1, sd_peer_ip := None\<rparr>))"
    using assms
    by (cases d; simp add: softbus_device_pack_beacon_def softbus_device_parse_beacon_def json_lawsD
        set_opt_string_laws member_string_def member_int_def softbus_device_new_def softbus_device_unref_def
        Let_def beacon_keys u split: option.splits)
next
  show "softbus_device_parse_beacon J (Some txt) \<noteq> None \<longrightarrow>
       (\<exists>obj. json_load J txt = Object obj \<and> json_get_string J obj SOFTBUS_JSON_DEVICE_ID \<noteq> None)"
    by (auto simp: softbus_device_parse_beacon_def softbus_device_unref_def softbus_device_new_def Let_def
        member_string_def split: json_root.splits if_splits option.splits)
qed

definition toy_device :: softbus_device where
  "toy_device = softbus_device_new\<lparr>sd_device_id := Some (bytes_of ''pc''), sd_auth_port := 45678, sd_capabilities := 15\<rparr>"

lemma beacon_roundtrip_witness:
  "do { text \<leftarrow> softbus_device_pack_beacon toy_json (Some toy_device); softbus_device_parse_beacon toy_json (Some text) } =
     Some toy_device"
  using beacon_roundtrip [OF toy_json_laws, of toy_device] by (simp add: toy_device_def softbus_device_new_def)

end
