(* ===== verification/SoftbusAuth.thy ===== *)
theory SoftbusAuth
  imports SoftbusDevice
begin

text \<open>
  The authentication state machine (\<open>src/proto/softbus_auth.c\<close>) in its pre-shared-key mode.

  A call of the machine takes an environment: the clock, the 16 bytes that
  \<open>softbus_random_bytes\<close> leaves in the nonce, and what the stack holds where the received signature is
  decoded to, since the code does not initialise it.  The primitives of OpenSSL are parameters.
  A call gives the new state, the result and the message the caller is to send.
\<close>

section \<open>Constants\<close>

definition AUTH_NONCE_LEN :: nat where "AUTH_NONCE_LEN = 16"
definition SOFTBUS_AUTH_STATE_TIMEOUT_MS :: u64 where "SOFTBUS_AUTH_STATE_TIMEOUT_MS = 30000"
definition SOFTBUS_AUTH_RETRIES :: int where "SOFTBUS_AUTH_RETRIES = 3"
definition SOFTBUS_AUTH_TYPE_PSK :: u64 where "SOFTBUS_AUTH_TYPE_PSK = 3"
definition SOFTBUS_PROTO_VERSION :: u64 where "SOFTBUS_PROTO_VERSION = 1"

definition SOFTBUS_JSON_AUTH_STATE :: cstr where "SOFTBUS_JSON_AUTH_STATE = bytes_of ''authState''"
definition SOFTBUS_JSON_AUTH_ID :: cstr where "SOFTBUS_JSON_AUTH_ID = bytes_of ''authId''"
definition SOFTBUS_JSON_PROTO_VERSION :: cstr where "SOFTBUS_JSON_PROTO_VERSION = bytes_of ''protoVersion''"
definition SOFTBUS_JSON_DEVICE_ID_SHORT :: cstr where "SOFTBUS_JSON_DEVICE_ID_SHORT = bytes_of ''deviceId''"
definition SOFTBUS_JSON_AUTH_TYPE :: cstr where "SOFTBUS_JSON_AUTH_TYPE = bytes_of ''authType''"
definition SOFTBUS_JSON_NONCE :: cstr where "SOFTBUS_JSON_NONCE = bytes_of ''nonce''"
definition SOFTBUS_JSON_SIG :: cstr where "SOFTBUS_JSON_SIG = bytes_of ''signature''"
definition SOFTBUS_JSON_SESSION_KEY_LEN :: cstr where "SOFTBUS_JSON_SESSION_KEY_LEN = bytes_of ''sessionKeyLen''"

lemmas auth_keys = SOFTBUS_JSON_AUTH_STATE_def SOFTBUS_JSON_AUTH_ID_def SOFTBUS_JSON_PROTO_VERSION_def
  SOFTBUS_JSON_DEVICE_ID_SHORT_def SOFTBUS_JSON_AUTH_TYPE_def SOFTBUS_JSON_NONCE_def SOFTBUS_JSON_SIG_def
  SOFTBUS_JSON_SESSION_KEY_LEN_def SOFTBUS_JSON_DEVICE_NAME_def SOFTBUS_JSON_CAPABILITIES_def

section \<open>State\<close>

datatype auth_state = AUTH_IDLE | AUTH_SYNC_NEGOTIATION | AUTH_SYNC_DEVICE_ID | AUTH_DEVICE_AUTH |
  AUTH_SYNC_DEVICE_INFO | AUTH_DONE | AUTH_FAILED

fun state_code :: "auth_state \<Rightarrow> u32" where
  "state_code AUTH_IDLE = 0"
| "state_code AUTH_SYNC_NEGOTIATION = 1"
| "state_code AUTH_SYNC_DEVICE_ID = 2"
| "state_code AUTH_DEVICE_AUTH = 3"
| "state_code AUTH_SYNC_DEVICE_INFO = 4"
| "state_code AUTH_DONE = 5"
| "state_code AUTH_FAILED = 6"

datatype auth_result = AUTH_NOOP | AUTH_SEND | AUTH_COMPLETE | AUTH_RESULT_FAILED

record softbus_auth =
  au_local :: softbus_device
  au_psk :: "bytes option"
  au_state :: auth_state
  au_is_active :: bool
  au_awaiting_reply :: bool
  au_auth_id :: u64
  au_retry_count :: int
  au_state_entered_ms :: u64
  au_peer_device_id :: "cstr option"
  au_active_nonce :: bytes
  au_control_key :: bytes
  au_data_key :: bytes
  au_keys_ready :: bool

record auth_env =
  ae_now_ms :: u64
  ae_nonce :: bytes
  ae_stack :: bytes
  ae_hmac :: "bytes \<Rightarrow> bytes \<Rightarrow> bytes option"
  ae_kdf :: kdf

definition softbus_auth_new :: "softbus_device option \<Rightarrow> bytes option \<Rightarrow> u32 \<Rightarrow> bytes \<Rightarrow> softbus_auth option" where
  "softbus_auth_new local psk rnd nonce =
     (case local of
        None \<Rightarrow> None
      | Some d \<Rightarrow> Some \<lparr>au_local = d, au_psk = psk, au_state = AUTH_IDLE, au_is_active = False,
          au_awaiting_reply = False, au_auth_id = ucast (rnd AND 0x7fffffff) OR 1, au_retry_count = 0,
          au_state_entered_ms = 0, au_peer_device_id = None, au_active_nonce = nonce,
          au_control_key = replicate SOFTBUS_SESSION_KEY_LEN 0, au_data_key = replicate SOFTBUS_SESSION_KEY_LEN 0,
          au_keys_ready = False\<rparr>)"

definition softbus_auth_get_control_key :: "softbus_auth \<Rightarrow> bytes option" where
  "softbus_auth_get_control_key a = (if au_keys_ready a then Some (au_control_key a) else None)"
definition softbus_auth_get_data_key :: "softbus_auth \<Rightarrow> bytes option" where
  "softbus_auth_get_data_key a = (if au_keys_ready a then Some (au_data_key a) else None)"

section \<open>Helpers\<close>

definition enter_state :: "auth_env \<Rightarrow> auth_state \<Rightarrow> softbus_auth \<Rightarrow> softbus_auth" where
  "enter_state E s a = a\<lparr>au_state := s, au_retry_count := 0, au_state_entered_ms := ae_now_ms E\<rparr>"

definition auth_fail :: "softbus_auth \<Rightarrow> softbus_auth" where
  "auth_fail a = a\<lparr>au_state := AUTH_FAILED, au_awaiting_reply := False\<rparr>"

definition new_msg :: "('o, 'd) json_glib \<Rightarrow> softbus_auth \<Rightarrow> auth_state \<Rightarrow> 'o" where
  "new_msg J a s =
     json_set_int J (json_set_int J (json_object_new J) SOFTBUS_JSON_AUTH_STATE (ucast (state_code s)))
       SOFTBUS_JSON_AUTH_ID (au_auth_id a)"

text \<open>The header of a message: the object, its state (cut to 32 bits) and its authentication id.\<close>

definition parse_header :: "('o, 'd) json_glib \<Rightarrow> 'd \<Rightarrow> ('o \<times> u32 \<times> u64) option" where
  "parse_header J text =
     (case json_load J text of
        Object obj \<Rightarrow> Some (obj, ucast (json_get_int J obj SOFTBUS_JSON_AUTH_STATE), json_get_int J obj SOFTBUS_JSON_AUTH_ID)
      | _ \<Rightarrow> None)"

definition softbus_hmac_sha256 :: "auth_env \<Rightarrow> bytes option \<Rightarrow> bytes \<Rightarrow> bytes option" where
  "softbus_hmac_sha256 E key data =
     (case key of
        None \<Rightarrow> None
      | Some k \<Rightarrow> (case ae_hmac E k data of None \<Rightarrow> None | Some h \<Rightarrow> if length h = 32 then Some h else None))"

definition compute_sig ::
  "auth_env \<Rightarrow> softbus_auth \<Rightarrow> bytes \<Rightarrow> bytes \<Rightarrow> cstr option \<Rightarrow> cstr option \<Rightarrow> bytes option" where
  "compute_sig E a nonce_a nonce_p id_a id_p =
     (case (au_psk a, id_a, id_p) of
        (Some _, Some ia, Some ip) \<Rightarrow>
          softbus_hmac_sha256 E (au_psk a) (take AUTH_NONCE_LEN nonce_a @ take AUTH_NONCE_LEN nonce_p @ ia @ ip)
      | _ \<Rightarrow> None)"

fun const_time_diff :: "byte \<Rightarrow> bytes \<Rightarrow> bytes \<Rightarrow> byte" where
  "const_time_diff diff (x # xs) (y # ys) = const_time_diff (diff OR (x XOR y)) xs ys"
| "const_time_diff diff _ _ = diff"

definition const_time_eq :: "bytes \<Rightarrow> bytes \<Rightarrow> nat \<Rightarrow> bool" where
  "const_time_eq x y n \<longleftrightarrow> const_time_diff 0 (take n x) (take n y) = 0"

definition derive_keys :: "auth_env \<Rightarrow> softbus_auth \<Rightarrow> softbus_auth" where
  "derive_keys E a =
     (case (au_psk a, au_peer_device_id a, softbus_device_get_id (Some (au_local a))) of
        (Some _, Some peer, Some local_id) \<Rightarrow>
          (case softbus_hkdf_session_keys (ae_kdf E) (Some local_id) (Some peer) (au_psk a) of
             None \<Rightarrow> a
           | Some (ck, dk) \<Rightarrow> a\<lparr>au_control_key := ck, au_data_key := dk, au_keys_ready := True\<rparr>)
      | _ \<Rightarrow> a)"

text \<open>Decoding hex into a buffer that holds something already: only the decoded bytes are overwritten.\<close>

definition from_hex_into :: "cstr option \<Rightarrow> bytes \<Rightarrow> bytes option" where
  "from_hex_into hex buf =
     (case softbus_from_hex hex (length buf) of None \<Rightarrow> None | Some d \<Rightarrow> Some (d @ drop (length d) buf))"

definition nonce_from_hex :: "cstr option \<Rightarrow> bytes option" where
  "nonce_from_hex hex =
     (case softbus_from_hex hex AUTH_NONCE_LEN of
        None \<Rightarrow> None
      | Some d \<Rightarrow> if length d = AUTH_NONCE_LEN then Some d else None)"

section \<open>The active side starts\<close>

definition softbus_auth_begin_active ::
  "('o, 'd) json_glib \<Rightarrow> auth_env \<Rightarrow> softbus_auth \<Rightarrow> bool \<Rightarrow> softbus_auth \<times> auth_result \<times> 'd option" where
  "softbus_auth_begin_active J E a want =
     (if au_state a \<noteq> AUTH_IDLE then (a, AUTH_NOOP, None)
      else
        let a = enter_state E AUTH_SYNC_NEGOTIATION (a\<lparr>au_is_active := True, au_awaiting_reply := True\<rparr>)
        in if want then
             (a, AUTH_SEND, Some (json_to_data J
                (json_set_int J (new_msg J a AUTH_SYNC_NEGOTIATION) SOFTBUS_JSON_PROTO_VERSION SOFTBUS_PROTO_VERSION)))
           else (a, AUTH_NOOP, None))"

section \<open>A message arrives\<close>

text \<open>Each case of the switch: what a message object does in one state.\<close>

definition refused :: "softbus_auth \<Rightarrow> softbus_auth \<times> auth_result \<times> 'd option" where
  "refused a = (auth_fail a, AUTH_RESULT_FAILED, None)"

definition reply :: "bool \<Rightarrow> softbus_auth \<Rightarrow> 'd \<Rightarrow> softbus_auth \<times> auth_result \<times> 'd option" where
  "reply want a text = (if want then (a, AUTH_SEND, Some text) else (a, AUTH_NOOP, None))"

definition rx_negotiation ::
  "('o, 'd) json_glib \<Rightarrow> auth_env \<Rightarrow> 'o \<Rightarrow> u32 \<Rightarrow> bool \<Rightarrow> softbus_auth \<Rightarrow> softbus_auth \<times> auth_result \<times> 'd option" where
  "rx_negotiation J E obj rstate want a =
     (if au_is_active a \<or> rstate \<noteq> state_code AUTH_SYNC_NEGOTIATION then refused a
      else if json_has J obj SOFTBUS_JSON_PROTO_VERSION \<and>
              json_get_int J obj SOFTBUS_JSON_PROTO_VERSION \<noteq> SOFTBUS_PROTO_VERSION then refused a
      else
        let a = enter_state E AUTH_SYNC_DEVICE_ID (a\<lparr>au_is_active := False, au_awaiting_reply := True\<rparr>)
        in reply want a (json_to_data J
             (set_opt_string J SOFTBUS_JSON_DEVICE_ID_SHORT (softbus_device_get_id (Some (au_local a)))
               (new_msg J a AUTH_SYNC_DEVICE_ID))))"

definition rx_device_id ::
  "('o, 'd) json_glib \<Rightarrow> auth_env \<Rightarrow> 'o \<Rightarrow> u32 \<Rightarrow> bool \<Rightarrow> softbus_auth \<Rightarrow> softbus_auth \<times> auth_result \<times> 'd option" where
  "rx_device_id J E obj rstate want a =
     (if \<not> au_is_active a \<or> rstate \<noteq> state_code AUTH_SYNC_DEVICE_ID then refused a
      else
        (case json_get_string J obj SOFTBUS_JSON_DEVICE_ID_SHORT of
           None \<Rightarrow> refused a
         | Some peer_id \<Rightarrow>
             let a = enter_state E AUTH_DEVICE_AUTH (a\<lparr>au_peer_device_id := Some peer_id, au_awaiting_reply := True\<rparr>);
                 obj = json_set_int J (new_msg J a AUTH_DEVICE_AUTH) SOFTBUS_JSON_AUTH_TYPE SOFTBUS_AUTH_TYPE_PSK;
                 obj = json_set_string J obj SOFTBUS_JSON_NONCE (softbus_to_hex (au_active_nonce a))
             in reply want a (json_to_data J
                  (set_opt_string J SOFTBUS_JSON_DEVICE_ID_SHORT (softbus_device_get_id (Some (au_local a))) obj))))"

definition rx_auth_request ::
  "('o, 'd) json_glib \<Rightarrow> auth_env \<Rightarrow> 'o \<Rightarrow> u32 \<Rightarrow> bool \<Rightarrow> softbus_auth \<Rightarrow> softbus_auth \<times> auth_result \<times> 'd option" where
  "rx_auth_request J E obj rstate want a =
     (if au_is_active a \<or> rstate \<noteq> state_code AUTH_DEVICE_AUTH then refused a
      else if softbus_device_get_id (Some (au_local a)) = None then refused a
      else if json_get_string J obj SOFTBUS_JSON_NONCE = None then refused a
      else
        (case nonce_from_hex (json_get_string J obj SOFTBUS_JSON_NONCE) of
           None \<Rightarrow> refused a
         | Some nonce_a \<Rightarrow>
             let a = (case json_get_string J obj SOFTBUS_JSON_DEVICE_ID_SHORT of
                        None \<Rightarrow> a | Some req_id \<Rightarrow> a\<lparr>au_peer_device_id := Some req_id\<rparr>)
             in if au_peer_device_id a = None then refused a
                else
                  (case compute_sig E a nonce_a (ae_nonce E) (au_peer_device_id a)
                          (softbus_device_get_id (Some (au_local a))) of
                     None \<Rightarrow> refused a
                   | Some sig \<Rightarrow>
                       let a = enter_state E AUTH_SYNC_DEVICE_INFO ((derive_keys E a)\<lparr>au_awaiting_reply := True\<rparr>);
                           obj = json_set_int J (new_msg J a AUTH_DEVICE_AUTH) SOFTBUS_JSON_AUTH_TYPE SOFTBUS_AUTH_TYPE_PSK;
                           obj = json_set_string J obj SOFTBUS_JSON_NONCE (softbus_to_hex (take AUTH_NONCE_LEN (ae_nonce E)));
                           obj = json_set_string J obj SOFTBUS_JSON_SIG (softbus_to_hex sig)
                       in reply want a (json_to_data J obj))))"

definition device_info :: "('o, 'd) json_glib \<Rightarrow> softbus_auth \<Rightarrow> 'o" where
  "device_info J a =
     (let obj = new_msg J a AUTH_SYNC_DEVICE_INFO;
          obj = set_opt_string J SOFTBUS_JSON_DEVICE_NAME (softbus_device_get_name (Some (au_local a))) obj;
          obj = json_set_int J obj SOFTBUS_JSON_CAPABILITIES (ucast (softbus_device_get_capabilities (Some (au_local a))))
      in json_set_int J obj SOFTBUS_JSON_SESSION_KEY_LEN (of_nat SOFTBUS_SESSION_KEY_LEN))"

definition rx_auth_response ::
  "('o, 'd) json_glib \<Rightarrow> auth_env \<Rightarrow> 'o \<Rightarrow> u32 \<Rightarrow> bool \<Rightarrow> softbus_auth \<Rightarrow> softbus_auth \<times> auth_result \<times> 'd option" where
  "rx_auth_response J E obj rstate want a =
     (let local_id = softbus_device_get_id (Some (au_local a));
          nonce_hex = json_get_string J obj SOFTBUS_JSON_NONCE;
          sig_hex = json_get_string J obj SOFTBUS_JSON_SIG
      in if \<not> au_is_active a \<or> rstate \<noteq> state_code AUTH_DEVICE_AUTH then refused a
         else if local_id = None \<or> au_peer_device_id a = None then refused a
         else if nonce_hex = None \<or> sig_hex = None then refused a
         else
           (case nonce_from_hex nonce_hex of
              None \<Rightarrow> refused a
            | Some nonce_p \<Rightarrow>
                (case from_hex_into sig_hex (take 32 (ae_stack E)) of
                   None \<Rightarrow> refused a
                 | Some rx_sig \<Rightarrow>
                     (case compute_sig E a (au_active_nonce a) nonce_p local_id (au_peer_device_id a) of
                        None \<Rightarrow> refused a
                      | Some exp_sig \<Rightarrow>
                          if \<not> const_time_eq rx_sig exp_sig 32 then refused a
                          else
                            let a = derive_keys E a
                            in if \<not> au_keys_ready a then refused a
                               else
                                 let a = a\<lparr>au_awaiting_reply := False\<rparr>
                                 in (a\<lparr>au_state := AUTH_DONE\<rparr>, AUTH_COMPLETE,
                                     if want then Some (json_to_data J (device_info J a)) else None)))))"

definition rx_device_info ::
  "auth_env \<Rightarrow> u32 \<Rightarrow> softbus_auth \<Rightarrow> softbus_auth \<times> auth_result \<times> 'd option" where
  "rx_device_info E rstate a =
     (if au_is_active a \<or> rstate \<noteq> state_code AUTH_SYNC_DEVICE_INFO then refused a
      else if \<not> au_keys_ready a then refused a
      else (enter_state E AUTH_DONE (a\<lparr>au_awaiting_reply := False\<rparr>), AUTH_COMPLETE, None))"

definition auth_dispatch ::
  "('o, 'd) json_glib \<Rightarrow> auth_env \<Rightarrow> 'o \<Rightarrow> u32 \<Rightarrow> bool \<Rightarrow> softbus_auth \<Rightarrow> softbus_auth \<times> auth_result \<times> 'd option" where
  "auth_dispatch J E obj rstate want a =
     (case au_state a of
        AUTH_IDLE \<Rightarrow> rx_negotiation J E obj rstate want a
      | AUTH_SYNC_NEGOTIATION \<Rightarrow> rx_device_id J E obj rstate want a
      | AUTH_SYNC_DEVICE_ID \<Rightarrow> rx_auth_request J E obj rstate want a
      | AUTH_DEVICE_AUTH \<Rightarrow> rx_auth_response J E obj rstate want a
      | AUTH_SYNC_DEVICE_INFO \<Rightarrow> rx_device_info E rstate a
      | _ \<Rightarrow> (a, AUTH_NOOP, None))"

text \<open>\<open>json\<close> is \<open>None\<close> for a NULL text; \<open>want\<close> says whether the caller passed a place for the reply.\<close>

definition softbus_auth_feed ::
  "('o, 'd) json_glib \<Rightarrow> auth_env \<Rightarrow> 'd option \<Rightarrow> bool \<Rightarrow> softbus_auth \<Rightarrow> softbus_auth \<times> auth_result \<times> 'd option" where
  "softbus_auth_feed J E json want a =
     (case json of
        None \<Rightarrow> (a, AUTH_NOOP, None)
      | Some text \<Rightarrow>
          if json_length J text = 0 then (a, AUTH_NOOP, None)
          else if au_is_active a \<and> au_state a = AUTH_IDLE then (a, AUTH_NOOP, None)
          else if au_state a = AUTH_DONE \<or> au_state a = AUTH_FAILED then (a, AUTH_NOOP, None)
          else
            (case parse_header J text of
               None \<Rightarrow> (a, AUTH_NOOP, None)
             | Some (obj, rstate, rauth_id) \<Rightarrow>
                 if \<not> au_is_active a \<and> au_state a = AUTH_IDLE then
                   auth_dispatch J E obj rstate want (a\<lparr>au_auth_id := rauth_id\<rparr>)
                 else if rauth_id \<noteq> au_auth_id a then refused a
                 else auth_dispatch J E obj rstate want a))"

section \<open>Retries\<close>

definition softbus_auth_retry_due :: "softbus_auth \<Rightarrow> u64 \<Rightarrow> softbus_auth \<times> bool" where
  "softbus_auth_retry_due a now_ms =
     (if au_state a = AUTH_FAILED \<or> au_state a = AUTH_DONE then (a, False)
      else if \<not> au_awaiting_reply a then (a, False)
      else if now_ms < au_state_entered_ms a then (a, False)
      else if now_ms - au_state_entered_ms a < SOFTBUS_AUTH_STATE_TIMEOUT_MS then (a, False)
      else if SOFTBUS_AUTH_RETRIES \<le> au_retry_count a then (auth_fail a, False)
      else (a\<lparr>au_retry_count := au_retry_count a + 1, au_state_entered_ms := now_ms\<rparr>, True))"

section \<open>Lemmas\<close>

lemma const_time_diff_zero:
  "length x = length y \<Longrightarrow> const_time_diff d x y = 0 \<longleftrightarrow> d = 0 \<and> x = y"
proof (induction d x y rule: const_time_diff.induct)
  case (1 d x xs y ys)
  then show ?case by (auto simp: or_eq_0_iff xor_zero_iff)
qed auto

lemma const_time_eq_iff:
  "length x = n \<Longrightarrow> length y = n \<Longrightarrow> const_time_eq x y n \<longleftrightarrow> x = y"
  by (simp add: const_time_eq_def const_time_diff_zero)

lemma compute_sig_length: "compute_sig E a na np ia ip = Some s \<Longrightarrow> length s = 32"
  by (auto simp: compute_sig_def softbus_hmac_sha256_def split: option.splits if_splits)

lemma from_hex_pairs_length: "even (length h) \<Longrightarrow> from_hex_pairs h = Some d \<Longrightarrow> length d = length h div 2"
  by (induction h arbitrary: d rule: from_hex_pairs.induct) (auto simp: bind_eq_Some_conv)

lemma from_hex_length: "softbus_from_hex hex n = Some d \<Longrightarrow> length d \<le> n"
  by (auto simp: softbus_from_hex_def split: option.splits if_splits dest!: from_hex_pairs_length [rotated])

lemma from_hex_into_length: "from_hex_into hex buf = Some d \<Longrightarrow> length d = length buf"
  using from_hex_length by (fastforce simp: from_hex_into_def split: option.splits)

lemma state_code_inject [simp]: "state_code s = state_code t \<longleftrightarrow> s = t"
  by (cases s; cases t) simp_all

lemma state_code_cut [simp]: "ucast (ucast (v :: u32) :: u64) = v"
  by (rule bit_word_eqI) (simp add: bit_simps)

text \<open>What no call changes.\<close>

definition auth_fixed :: "softbus_auth \<Rightarrow> softbus_auth \<Rightarrow> bool" where
  "auth_fixed a b \<longleftrightarrow> au_local b = au_local a \<and> au_psk b = au_psk a \<and> au_active_nonce b = au_active_nonce a"

lemma derive_keys_simps [simp]:
  "au_state (derive_keys E a) = au_state a" "au_is_active (derive_keys E a) = au_is_active a"
  "au_awaiting_reply (derive_keys E a) = au_awaiting_reply a" "au_auth_id (derive_keys E a) = au_auth_id a"
  "au_peer_device_id (derive_keys E a) = au_peer_device_id a" "au_local (derive_keys E a) = au_local a"
  "au_psk (derive_keys E a) = au_psk a" "au_active_nonce (derive_keys E a) = au_active_nonce a"
  "au_retry_count (derive_keys E a) = au_retry_count a"
  by (simp_all add: derive_keys_def split: option.splits prod.splits)

section \<open>The reachable states\<close>

inductive auth_step :: "('o, 'd) json_glib \<Rightarrow> kdf \<Rightarrow> softbus_auth \<Rightarrow> softbus_auth \<Rightarrow> bool" for J K where
  begin_active: "ae_kdf E = K \<Longrightarrow> auth_step J K a (fst (softbus_auth_begin_active J E a want))"
| feed: "ae_kdf E = K \<Longrightarrow> auth_step J K a (fst (softbus_auth_feed J E json want a))"
| retry: "auth_step J K a (fst (softbus_auth_retry_due a now))"

definition auth_keys_of :: "kdf \<Rightarrow> softbus_auth \<Rightarrow> (bytes \<times> bytes) option" where
  "auth_keys_of K a =
     softbus_hkdf_session_keys K (softbus_device_get_id (Some (au_local a))) (au_peer_device_id a) (au_psk a)"

definition active_states :: "auth_state set" where
  "active_states = {AUTH_SYNC_NEGOTIATION, AUTH_DEVICE_AUTH, AUTH_DONE, AUTH_FAILED}"

definition passive_states :: "auth_state set" where
  "passive_states = {AUTH_IDLE, AUTH_SYNC_DEVICE_ID, AUTH_SYNC_DEVICE_INFO, AUTH_DONE, AUTH_FAILED}"

definition auth_inv :: "kdf \<Rightarrow> softbus_auth \<Rightarrow> bool" where
  "auth_inv K a \<longleftrightarrow>
     au_state a \<in> (if au_is_active a then active_states else passive_states) \<and>
     (au_keys_ready a \<longrightarrow> au_psk a \<noteq> None \<and> auth_keys_of K a = Some (au_control_key a, au_data_key a) \<and>
        au_state a \<in> {AUTH_SYNC_DEVICE_INFO, AUTH_DONE, AUTH_FAILED}) \<and>
     (au_state a = AUTH_DONE \<longrightarrow> au_keys_ready a) \<and>
     (au_awaiting_reply a \<longrightarrow> au_state a \<notin> {AUTH_IDLE, AUTH_DONE, AUTH_FAILED}) \<and>
     0 \<le> au_retry_count a \<and> au_retry_count a \<le> SOFTBUS_AUTH_RETRIES"

lemma auth_inv_new: "softbus_auth_new local psk rnd nonce = Some a \<Longrightarrow> auth_inv K a"
  by (auto simp: softbus_auth_new_def auth_inv_def passive_states_def SOFTBUS_AUTH_RETRIES_def split: option.splits)

lemma auth_inv_fail [simp]: "auth_inv K a \<Longrightarrow> auth_inv K (auth_fail a)"
  by (auto simp: auth_inv_def auth_fail_def auth_keys_of_def active_states_def passive_states_def)

lemma auth_inv_begin:
  assumes "auth_inv K a"
  shows "auth_inv K (fst (softbus_auth_begin_active J E a want))"
  using assms by (auto simp: softbus_auth_begin_active_def Let_def auth_inv_def enter_state_def active_states_def SOFTBUS_AUTH_RETRIES_def)

lemma auth_inv_retry:
  assumes "auth_inv K a"
  shows "auth_inv K (fst (softbus_auth_retry_due a now))"
proof -
  have "auth_inv K (a\<lparr>au_retry_count := au_retry_count a + 1, au_state_entered_ms := now\<rparr>)"
    if "\<not> SOFTBUS_AUTH_RETRIES \<le> au_retry_count a"
    using assms that by (simp add: auth_inv_def auth_keys_of_def)
  then show ?thesis using assms by (simp add: softbus_auth_retry_due_def)
qed

lemma derive_keys_inv:
  assumes "ae_kdf E = K" "au_keys_ready (derive_keys E a)" "\<not> au_keys_ready a"
  shows "au_psk a \<noteq> None \<and> auth_keys_of K a = Some (au_control_key (derive_keys E a), au_data_key (derive_keys E a))"
  using assms by (auto simp: derive_keys_def auth_keys_of_def split: option.splits)

lemma rx_inv:
  assumes "ae_kdf E = K" "auth_inv K a"
  shows "au_state a = AUTH_IDLE \<Longrightarrow> auth_inv K (fst (rx_negotiation J E obj rs want a))"
    "au_state a = AUTH_SYNC_NEGOTIATION \<Longrightarrow> auth_inv K (fst (rx_device_id J E obj rs want a))"
    "au_state a = AUTH_SYNC_DEVICE_INFO \<Longrightarrow> auth_inv K (fst (rx_device_info E rs a))"
  using assms
  by (auto simp: rx_negotiation_def rx_device_id_def rx_device_info_def refused_def reply_def Let_def auth_inv_def
      enter_state_def auth_fail_def auth_keys_of_def active_states_def passive_states_def SOFTBUS_AUTH_RETRIES_def
      split: option.splits if_splits)

lemma rx_request_inv:
  assumes "ae_kdf E = K" "auth_inv K a" "au_state a = AUTH_SYNC_DEVICE_ID"
  shows "auth_inv K (fst (rx_auth_request J E obj rs want a))"
proof -
  have a: "\<not> au_is_active a" "\<not> au_keys_ready a" "0 \<le> au_retry_count a"
    using assms by (auto simp: auth_inv_def active_states_def split: if_splits)
  let ?b = "case json_get_string J obj SOFTBUS_JSON_DEVICE_ID_SHORT of None \<Rightarrow> a | Some i \<Rightarrow> a\<lparr>au_peer_device_id := Some i\<rparr>"
  have b: "auth_inv K ?b" "\<not> au_is_active ?b" "\<not> au_keys_ready ?b" "au_state ?b = au_state a"
    using assms a by (auto simp: auth_inv_def split: option.splits)
  have "auth_inv K (enter_state E AUTH_SYNC_DEVICE_INFO ((derive_keys E ?b)\<lparr>au_awaiting_reply := True\<rparr>))"
    using b derive_keys_inv [OF assms(1), of ?b]
    by (auto simp: auth_inv_def enter_state_def passive_states_def auth_keys_of_def SOFTBUS_AUTH_RETRIES_def)
  then show ?thesis using assms b(1)
    by (auto simp: rx_auth_request_def refused_def reply_def Let_def split: option.splits)
qed

lemma rx_response_inv:
  assumes "ae_kdf E = K" "auth_inv K a" "au_state a = AUTH_DEVICE_AUTH"
  shows "auth_inv K (fst (rx_auth_response J E obj rs want a))"
proof -
  have a: "\<not> au_keys_ready a" "au_is_active a"
    using assms by (auto simp: auth_inv_def passive_states_def split: if_splits)
  have f: "auth_inv K (auth_fail (derive_keys E a))"
    using assms a derive_keys_inv [OF assms(1), of a]
    by (auto simp: auth_inv_def auth_fail_def active_states_def auth_keys_of_def)
  have "auth_inv K ((derive_keys E a)\<lparr>au_awaiting_reply := False, au_state := AUTH_DONE\<rparr>)" if "au_keys_ready (derive_keys E a)"
    using assms a that derive_keys_inv [OF assms(1) that a(1)]
    by (auto simp: auth_inv_def active_states_def auth_keys_of_def)
  then show ?thesis using assms f
    by (auto simp: rx_auth_response_def refused_def Let_def split: option.splits)
qed

lemma auth_inv_feed:
  assumes "ae_kdf E = K" "auth_inv K a"
  shows "auth_inv K (fst (softbus_auth_feed J E json want a))"
proof -
  have d: "auth_inv K (fst (auth_dispatch J E obj rs want b))" if "auth_inv K b" for b obj rs
    using that
    by (simp add: auth_dispatch_def rx_inv [OF assms(1) that] rx_request_inv [OF assms(1) that]
        rx_response_inv [OF assms(1) that] split: auth_state.splits)
  have "auth_inv K (a\<lparr>au_auth_id := i\<rparr>)" for i using assms(2) by (simp add: auth_inv_def auth_keys_of_def)
  then show ?thesis using assms(2) d
    by (simp add: softbus_auth_feed_def refused_def split: option.splits prod.splits)
qed

lemma auth_step_inv: "auth_step J K a b \<Longrightarrow> auth_inv K a \<Longrightarrow> auth_inv K b"
  by (induction rule: auth_step.induct) (simp_all add: auth_inv_begin auth_inv_feed auth_inv_retry)

lemma auth_step_over: "auth_step J K a b \<Longrightarrow> au_state a \<in> {AUTH_DONE, AUTH_FAILED} \<Longrightarrow> b = a"
  by (induction rule: auth_step.induct)
    (auto simp: softbus_auth_begin_active_def softbus_auth_feed_def softbus_auth_retry_due_def split: option.splits)

section \<open>Two machines that talk to each other\<close>

text \<open>The message \<open>m\<close> of \<open>x\<close> is delivered to \<open>y\<close>, whose answer is delivered to \<open>x\<close>, and so on, at most
  \<open>n\<close> times; \<open>E n\<close> is the environment of the call with \<open>n\<close> deliveries to go.\<close>

fun auth_talk ::
  "('o, 'd) json_glib \<Rightarrow> (nat \<Rightarrow> auth_env) \<Rightarrow> nat \<Rightarrow> 'd option \<Rightarrow> softbus_auth \<Rightarrow> softbus_auth \<Rightarrow> softbus_auth \<times> softbus_auth" where
  "auth_talk J E 0 m x y = (x, y)"
| "auth_talk J E (Suc n) None x y = (x, y)"
| "auth_talk J E (Suc n) (Some m) x y =
     (case softbus_auth_feed J (E n) (Some m) True y of
        (y', r, m') \<Rightarrow> (case auth_talk J E n m' y' x of (p, q) \<Rightarrow> (q, p)))"

lemma auth_talk_deliver:
  "0 < n \<Longrightarrow> auth_talk J E n (Some m) x y =
     (case softbus_auth_feed J (E (n - 1)) (Some m) True y of
        (y', r, m') \<Rightarrow> (case auth_talk J E (n - 1) m' y' x of (p, q) \<Rightarrow> (q, p)))"
  by (cases n) simp_all

text \<open>The messages of a run without interference, as objects.\<close>

definition msg_negotiation :: "('o, 'd) json_glib \<Rightarrow> softbus_auth \<Rightarrow> 'o" where
  "msg_negotiation J a = json_set_int J (new_msg J a AUTH_SYNC_NEGOTIATION) SOFTBUS_JSON_PROTO_VERSION SOFTBUS_PROTO_VERSION"

definition msg_device_id :: "('o, 'd) json_glib \<Rightarrow> softbus_auth \<Rightarrow> 'o" where
  "msg_device_id J a = set_opt_string J SOFTBUS_JSON_DEVICE_ID_SHORT (sd_device_id (au_local a))
     (new_msg J a AUTH_SYNC_DEVICE_ID)"

definition msg_request :: "('o, 'd) json_glib \<Rightarrow> softbus_auth \<Rightarrow> 'o" where
  "msg_request J a = set_opt_string J SOFTBUS_JSON_DEVICE_ID_SHORT (sd_device_id (au_local a))
     (json_set_string J (json_set_int J (new_msg J a AUTH_DEVICE_AUTH) SOFTBUS_JSON_AUTH_TYPE SOFTBUS_AUTH_TYPE_PSK)
       SOFTBUS_JSON_NONCE (softbus_to_hex (au_active_nonce a)))"

definition msg_response :: "('o, 'd) json_glib \<Rightarrow> softbus_auth \<Rightarrow> bytes \<Rightarrow> bytes \<Rightarrow> 'o" where
  "msg_response J a nonce sig =
     json_set_string J (json_set_string J (json_set_int J (new_msg J a AUTH_DEVICE_AUTH) SOFTBUS_JSON_AUTH_TYPE
       SOFTBUS_AUTH_TYPE_PSK) SOFTBUS_JSON_NONCE (softbus_to_hex nonce)) SOFTBUS_JSON_SIG (softbus_to_hex sig)"

lemma nonce_round: "length n = AUTH_NONCE_LEN \<Longrightarrow> nonce_from_hex (Some (softbus_to_hex n)) = Some n"
  by (simp add: nonce_from_hex_def hex_roundtrip)

lemma sig_round: "length s = 32 \<Longrightarrow> length b = 32 \<Longrightarrow> from_hex_into (Some (softbus_to_hex s)) b = Some s"
  by (simp add: from_hex_into_def softbus_from_hex_def from_hex_to_hex)

lemma msg_headers:
  assumes "json_laws J"
  shows "json_get_int J (msg_negotiation J a) SOFTBUS_JSON_AUTH_STATE = 1"
    "json_get_int J (msg_negotiation J a) SOFTBUS_JSON_AUTH_ID = au_auth_id a"
    "json_get_int J (msg_device_id J a) SOFTBUS_JSON_AUTH_STATE = 2"
    "json_get_int J (msg_device_id J a) SOFTBUS_JSON_AUTH_ID = au_auth_id a"
    "json_get_int J (msg_request J a) SOFTBUS_JSON_AUTH_STATE = 3"
    "json_get_int J (msg_request J a) SOFTBUS_JSON_AUTH_ID = au_auth_id a"
    "json_get_int J (msg_response J a n sig) SOFTBUS_JSON_AUTH_STATE = 3"
    "json_get_int J (msg_response J a n sig) SOFTBUS_JSON_AUTH_ID = au_auth_id a"
    "json_get_int J (device_info J a) SOFTBUS_JSON_AUTH_STATE = 4"
    "json_get_int J (device_info J a) SOFTBUS_JSON_AUTH_ID = au_auth_id a"
  using assms
  by (simp_all add: msg_negotiation_def msg_device_id_def msg_request_def msg_response_def device_info_def
      new_msg_def json_lawsD set_opt_string_laws auth_keys Let_def)

lemma msg_members:
  assumes "json_laws J"
  shows "json_get_int J (msg_negotiation J a) SOFTBUS_JSON_PROTO_VERSION = SOFTBUS_PROTO_VERSION"
    "sd_device_id (au_local a) = Some i \<Longrightarrow> json_get_string J (msg_device_id J a) SOFTBUS_JSON_DEVICE_ID_SHORT = Some i"
    "sd_device_id (au_local a) = Some i \<Longrightarrow> json_get_string J (msg_request J a) SOFTBUS_JSON_DEVICE_ID_SHORT = Some i"
    "json_get_string J (msg_request J a) SOFTBUS_JSON_NONCE = Some (softbus_to_hex (au_active_nonce a))"
    "json_get_string J (msg_response J a n sig) SOFTBUS_JSON_NONCE = Some (softbus_to_hex n)"
    "json_get_string J (msg_response J a n sig) SOFTBUS_JSON_SIG = Some (softbus_to_hex sig)"
  using assms
  by (simp_all add: msg_negotiation_def msg_device_id_def msg_request_def msg_response_def
      new_msg_def json_lawsD set_opt_string_laws auth_keys)

text \<open>A message that was generated from an object reaches the switch.\<close>

lemma feed_object:
  assumes "json_laws J" "au_state a \<notin> {AUTH_DONE, AUTH_FAILED}" "\<not> (au_is_active a \<and> au_state a = AUTH_IDLE)"
    "au_state a = AUTH_IDLE \<or> json_get_int J obj SOFTBUS_JSON_AUTH_ID = au_auth_id a"
  shows "softbus_auth_feed J E (Some (json_to_data J obj)) want a =
    auth_dispatch J E obj (ucast (json_get_int J obj SOFTBUS_JSON_AUTH_STATE)) want
      (a\<lparr>au_auth_id := json_get_int J obj SOFTBUS_JSON_AUTH_ID\<rparr>)"
proof -
  have "a\<lparr>au_auth_id := au_auth_id a\<rparr> = a" by (cases a) simp
  then show ?thesis using assms by (auto simp: softbus_auth_feed_def parse_header_def json_lawsD)
qed

lemma step_negotiation:
  assumes "json_laws J" "au_state b = AUTH_IDLE" "\<not> au_is_active b"
  shows "softbus_auth_feed J E (Some (json_to_data J (msg_negotiation J a))) True b =
    (let b' = enter_state E AUTH_SYNC_DEVICE_ID (b\<lparr>au_auth_id := au_auth_id a, au_is_active := False, au_awaiting_reply := True\<rparr>)
     in (b', AUTH_SEND, Some (json_to_data J (msg_device_id J b'))))"
  using assms by (simp add: feed_object auth_dispatch_def rx_negotiation_def msg_headers msg_members reply_def Let_def
      msg_device_id_def softbus_device_get_id_def)

lemma step_device_id:
  assumes "json_laws J" "au_state a = AUTH_SYNC_NEGOTIATION" "au_is_active a" "au_auth_id b = au_auth_id a"
    "sd_device_id (au_local b) = Some i"
  shows "softbus_auth_feed J E (Some (json_to_data J (msg_device_id J b))) True a =
    (let a' = enter_state E AUTH_DEVICE_AUTH (a\<lparr>au_peer_device_id := Some i, au_awaiting_reply := True\<rparr>)
     in (a', AUTH_SEND, Some (json_to_data J (msg_request J a'))))"
proof -
  have "a\<lparr>au_auth_id := au_auth_id a\<rparr> = a" by (cases a) simp
  then show ?thesis
    using assms by (simp add: feed_object auth_dispatch_def rx_device_id_def msg_headers msg_members reply_def Let_def
      msg_request_def softbus_device_get_id_def enter_state_def)
qed

lemma step_request:
  assumes "json_laws J" "au_state b = AUTH_SYNC_DEVICE_ID" "\<not> au_is_active b" "au_auth_id a = au_auth_id b"
    "sd_device_id (au_local a) = Some i" "sd_device_id (au_local b) = Some j" "length (au_active_nonce a) = 16"
    "compute_sig E b (au_active_nonce a) (ae_nonce E) (Some i) (Some j) = Some sig" "length (ae_nonce E) = 16"
  shows "softbus_auth_feed J E (Some (json_to_data J (msg_request J a))) True b =
    (let b' = enter_state E AUTH_SYNC_DEVICE_INFO ((derive_keys E (b\<lparr>au_peer_device_id := Some i\<rparr>))\<lparr>au_awaiting_reply := True\<rparr>)
     in (b', AUTH_SEND, Some (json_to_data J (msg_response J b' (ae_nonce E) sig))))"
proof -
  have b: "b\<lparr>au_auth_id := au_auth_id b\<rparr> = b" by (cases b) simp
  have c: "compute_sig E (b\<lparr>au_peer_device_id := x\<rparr>) n n' y z = compute_sig E b n n' y z" for x n n' y z
    by (simp add: compute_sig_def split: option.splits)
  show ?thesis using assms b c
    by (simp add: feed_object auth_dispatch_def rx_auth_request_def msg_headers msg_members reply_def Let_def
      msg_response_def softbus_device_get_id_def nonce_round AUTH_NONCE_LEN_def)
qed

lemma step_response:
  assumes "json_laws J" "au_state a = AUTH_DEVICE_AUTH" "au_is_active a" "au_auth_id b = au_auth_id a"
    "sd_device_id (au_local a) = Some i" "au_peer_device_id a = Some j" "length n = 16" "length (ae_stack E) = 32"
    "compute_sig E a (au_active_nonce a) n (Some i) (Some j) = Some sig" "au_keys_ready (derive_keys E a)"
  shows "softbus_auth_feed J E (Some (json_to_data J (msg_response J b n sig))) True a =
    (let a' = (derive_keys E a)\<lparr>au_awaiting_reply := False\<rparr>
     in (a'\<lparr>au_state := AUTH_DONE\<rparr>, AUTH_COMPLETE, Some (json_to_data J (device_info J a'))))"
proof -
  have b: "a\<lparr>au_auth_id := au_auth_id a\<rparr> = a" by (cases a) simp
  show ?thesis using assms b
    by (simp add: feed_object auth_dispatch_def rx_auth_response_def msg_headers msg_members Let_def
      softbus_device_get_id_def nonce_round AUTH_NONCE_LEN_def sig_round compute_sig_length const_time_eq_iff)
qed

lemma step_device_info:
  assumes "json_laws J" "au_state b = AUTH_SYNC_DEVICE_INFO" "\<not> au_is_active b" "au_auth_id a = au_auth_id b" "au_keys_ready b"
  shows "softbus_auth_feed J E (Some (json_to_data J (device_info J a))) True b =
    (enter_state E AUTH_DONE (b\<lparr>au_awaiting_reply := False\<rparr>), AUTH_COMPLETE, None)"
proof -
  have b: "b\<lparr>au_auth_id := au_auth_id b\<rparr> = b" by (cases b) simp
  show ?thesis using assms b by (simp add: feed_object auth_dispatch_def rx_device_info_def msg_headers)
qed

text \<open>
  C6. Two machines with the same pre-shared key that exchange their messages undisturbed both complete: each has learnt the
  other's device id, and both hold the session keys of those two ids, the same on both sides.
\<close>

lemma auth_completes:
  assumes J: "json_laws J"
    and E: "\<forall>n. ae_hmac (E n) = H \<and> ae_kdf (E n) = K \<and> length (ae_nonce (E n)) = 16 \<and> length (ae_stack (E n)) = 32"
    and H: "\<forall>k d. \<exists>h. H k d = Some h \<and> length h = 32"
    and keys: "softbus_hkdf_session_keys K (Some ia) (Some ib) (Some psk) = Some (ck, dk)"
    and a: "softbus_auth_new (Some da) (Some psk) ra na = Some a" "sd_device_id da = Some ia" "length na = 16"
    and b: "softbus_auth_new (Some db) (Some psk) rb nb = Some b" "sd_device_id db = Some ib"
    and start: "softbus_auth_begin_active J (E 5) a True = (a1, AUTH_SEND, m)"
    and run: "auth_talk J E 5 m a1 b = (a', b')"
  shows "au_state a' = AUTH_DONE \<and> au_state b' = AUTH_DONE \<and>
    au_peer_device_id a' = Some ib \<and> au_peer_device_id b' = Some ia \<and> au_auth_id b' = au_auth_id a' \<and>
    softbus_auth_get_control_key a' = Some ck \<and> softbus_auth_get_control_key b' = Some ck \<and>
    softbus_auth_get_data_key a' = Some dk \<and> softbus_auth_get_data_key b' = Some dk"
proof -
  have env: "ae_hmac (E n) = H" "ae_kdf (E n) = K" "length (ae_nonce (E n)) = 16" "length (ae_stack (E n)) = 32" for n
    using E by auto
  obtain sig where sig: "H psk (na @ ae_nonce (E 2) @ ia @ ib) = Some sig" "length sig = 32" using H by blast
  have keys': "softbus_hkdf_session_keys K (Some ib) (Some ia) (Some psk) = Some (ck, dk)"
    using keys session_keys_agree by metis
  have c: "compute_sig (E n) x na (ae_nonce (E 2)) (Some ia) (Some ib) = Some sig" if "au_psk x = Some psk" for x n
    using sig that a(3) env by (simp add: compute_sig_def softbus_hmac_sha256_def AUTH_NONCE_LEN_def)
  have d: "derive_keys (E n) x = x\<lparr>au_control_key := ck, au_data_key := dk, au_keys_ready := True\<rparr>"
    if "au_psk x = Some psk" "sd_device_id (au_local x) = Some ia \<and> au_peer_device_id x = Some ib \<or>
      sd_device_id (au_local x) = Some ib \<and> au_peer_device_id x = Some ia" for x n
    using that keys keys' env(2) by (auto simp: derive_keys_def softbus_device_get_id_def)
  have "a1 = enter_state (E 5) AUTH_SYNC_NEGOTIATION (a\<lparr>au_is_active := True, au_awaiting_reply := True\<rparr>)"
    "m = Some (json_to_data J (msg_negotiation J a1))"
    using start a(1) by (auto simp: softbus_auth_begin_active_def softbus_auth_new_def Let_def msg_negotiation_def)
  moreover have "au_local a = da" "au_psk a = Some psk" "au_active_nonce a = na"
    "au_local b = db" "au_psk b = Some psk" "au_state b = AUTH_IDLE" "\<not> au_is_active b"
    using a(1) b(1) by (auto simp: softbus_auth_new_def)
  ultimately show ?thesis using run a(2,3) b(2)
    by (simp add: auth_talk_deliver enter_state_def Let_def
        step_negotiation [OF J] step_device_id [OF J, where i = ib] step_request [OF J, where i = ia and j = ib and sig = sig]
        step_response [OF J, where i = ia and j = ib and sig = sig] c
        step_device_info [OF J] d env
        softbus_auth_get_control_key_def softbus_auth_get_data_key_def) auto
qed

definition toy_env :: auth_env where
  "toy_env = \<lparr>ae_now_ms = 1, ae_nonce = replicate 16 2, ae_stack = replicate 32 5,
     ae_hmac = (\<lambda>k d. Some (replicate 32 (if k = [1] then 5 else 6))), ae_kdf = (\<lambda>k s i n. Some (replicate n 4))\<rparr>"

lemma toy_env_ok:
  "\<forall>n. ae_hmac ((\<lambda>_. toy_env) n) = ae_hmac toy_env \<and> ae_kdf ((\<lambda>_. toy_env) n) = ae_kdf toy_env \<and>
     length (ae_nonce ((\<lambda>_. toy_env) n)) = 16 \<and> length (ae_stack ((\<lambda>_. toy_env) n)) = 32"
  "\<forall>k d. \<exists>h. ae_hmac toy_env k d = Some h \<and> length h = 32"
  "softbus_hkdf_session_keys (ae_kdf toy_env) (Some [65]) (Some [66]) (Some [1]) = Some (replicate 32 4, replicate 32 4)"
  by (simp_all add: toy_env_def softbus_hkdf_session_keys_def softbus_hkdf_sha256_def SOFTBUS_SESSION_KEY_LEN_def Let_def)

definition toy_machine :: "cstr \<Rightarrow> softbus_auth" where
  "toy_machine i = the (softbus_auth_new (Some (softbus_device_new\<lparr>sd_device_id := Some i\<rparr>)) (Some [1]) 6 (replicate 16 3))"

lemma toy_machine_new:
  "softbus_auth_new (Some (softbus_device_new\<lparr>sd_device_id := Some i\<rparr>)) (Some [1]) 6 (replicate 16 3) = Some (toy_machine i)"
  by (simp add: toy_machine_def softbus_auth_new_def)

lemma auth_completes_witness:
  "case softbus_auth_begin_active toy_json toy_env (toy_machine [65]) True of
     (a1, r, m) \<Rightarrow>
       (case auth_talk toy_json (\<lambda>_. toy_env) 5 m a1 (toy_machine [66]) of
          (a', b') \<Rightarrow> au_state a' = AUTH_DONE \<and> au_state b' = AUTH_DONE \<and>
            softbus_auth_get_data_key a' = Some (replicate 32 4) \<and> softbus_auth_get_data_key b' = Some (replicate 32 4))"
proof -
  obtain a1 m where s: "softbus_auth_begin_active toy_json toy_env (toy_machine [65]) True = (a1, AUTH_SEND, m)"
    by (simp add: softbus_auth_begin_active_def toy_machine_def softbus_auth_new_def Let_def)
  obtain a' b' where r: "auth_talk toy_json (\<lambda>_. toy_env) 5 m a1 (toy_machine [66]) = (a', b')" by fastforce
  show ?thesis
    using auth_completes [OF toy_json_laws toy_env_ok toy_machine_new _ _ toy_machine_new _ s r]
    by (simp add: s r)
qed

text \<open>
  C15. Whatever calls are made in whatever order, the two roles stay in their own states, keys are held exactly when they are the
  session keys of the local id, the peer's id and the pre-shared key, a machine that is done has them, and
  one that is done or has failed never changes again.
\<close>

lemma auth_reachable:
  assumes "softbus_auth_new local psk rnd nonce = Some a0" "(auth_step J K)\<^sup>*\<^sup>* a0 a"
  shows "au_state a \<in> (if au_is_active a then active_states else passive_states) \<and>
    (au_keys_ready a \<longrightarrow> auth_keys_of K a = Some (au_control_key a, au_data_key a)) \<and>
    (au_state a = AUTH_DONE \<longrightarrow> au_keys_ready a \<and> au_psk a \<noteq> None) \<and>
    0 \<le> au_retry_count a \<and> au_retry_count a \<le> SOFTBUS_AUTH_RETRIES \<and>
    (au_state a \<in> {AUTH_DONE, AUTH_FAILED} \<longrightarrow> (\<forall>b. auth_step J K a b \<longrightarrow> b = a))"
proof -
  have "auth_inv K a" using assms(2)
  proof induction
    case base
    then show ?case by (rule auth_inv_new [OF assms(1)])
  qed (rule auth_step_inv)
  then show ?thesis unfolding auth_inv_def by (auto dest: auth_step_over)
qed

lemma auth_reachable_witness:
  "au_is_active (fst (softbus_auth_begin_active toy_json toy_env (toy_machine [65]) True)) \<and>
   au_state (fst (softbus_auth_begin_active toy_json toy_env (toy_machine [65]) True)) \<in> active_states"
proof -
  let ?a = "fst (softbus_auth_begin_active toy_json toy_env (toy_machine [65]) True)"
  have st: "auth_step toy_json (ae_kdf toy_env) (toy_machine [65]) ?a" by (rule auth_step.begin_active [OF refl])
  have "au_is_active ?a"
    by (simp add: softbus_auth_begin_active_def toy_machine_def softbus_auth_new_def Let_def enter_state_def)
  then show ?thesis
    using auth_reachable [OF toy_machine_new r_into_rtranclp [of "auth_step toy_json (ae_kdf toy_env)", OF st]] by simp
qed

text \<open>
  C9. The active side completes exactly on an answer with its authentication id and a nonce of 16 bytes, when the
  signature that was received, with what the stack held behind it, is the HMAC of both nonces and both ids.  The
  received signature may be shorter than the HMAC: an empty one is accepted if the stack happens to hold the right one.
\<close>

lemma auth_active_accepts:
  assumes "au_state a = AUTH_DEVICE_AUTH" "au_is_active a" "length (ae_stack E) = 32"
  shows "(fst (snd (softbus_auth_feed J E (Some text) want a)) = AUTH_COMPLETE) =
    (json_length J text \<noteq> 0 \<and>
     (\<exists>obj i p n hex d. json_load J text = Object obj \<and>
        json_get_int J obj SOFTBUS_JSON_AUTH_ID = au_auth_id a \<and>
        ucast (json_get_int J obj SOFTBUS_JSON_AUTH_STATE) = state_code AUTH_DEVICE_AUTH \<and>
        sd_device_id (au_local a) = Some i \<and> au_peer_device_id a = Some p \<and>
        nonce_from_hex (json_get_string J obj SOFTBUS_JSON_NONCE) = Some n \<and>
        json_get_string J obj SOFTBUS_JSON_SIG = Some hex \<and> softbus_from_hex (Some hex) 32 = Some d \<and>
        compute_sig E a (au_active_nonce a) n (Some i) (Some p) = Some (d @ drop (length d) (ae_stack E)) \<and>
        au_keys_ready (derive_keys E a)))"
proof (cases "json_load J text")
  case (Object obj)
  have n: "nonce_from_hex None = None" by (simp add: nonce_from_hex_def softbus_from_hex_def)
  have *: "(fst (snd (rx_auth_response J E obj rs want a)) = AUTH_COMPLETE) =
     (rs = state_code AUTH_DEVICE_AUTH \<and> (\<exists>i p n hex d. sd_device_id (au_local a) = Some i \<and> au_peer_device_id a = Some p \<and>
        nonce_from_hex (json_get_string J obj SOFTBUS_JSON_NONCE) = Some n \<and>
        json_get_string J obj SOFTBUS_JSON_SIG = Some hex \<and> softbus_from_hex (Some hex) 32 = Some d \<and>
        compute_sig E a (au_active_nonce a) n (Some i) (Some p) = Some (d @ drop (length d) (ae_stack E)) \<and>
        au_keys_ready (derive_keys E a)))" for rs
    using assms from_hex_length
    by (auto simp: rx_auth_response_def refused_def softbus_device_get_id_def Let_def from_hex_into_def n
        const_time_eq_iff compute_sig_length split: option.splits if_splits)
  show ?thesis using assms
    by (auto simp: softbus_auth_feed_def parse_header_def Object auth_dispatch_def * refused_def)
qed (use assms in \<open>auto simp: softbus_auth_feed_def parse_header_def refused_def\<close>)

lemma auth_active_accepts_witness:
  "let a = (toy_machine [65])\<lparr>au_state := AUTH_DEVICE_AUTH, au_is_active := True, au_peer_device_id := Some [66]\<rparr>;
       text = json_to_data toy_json (msg_response toy_json a (replicate 16 2) [])
   in fst (snd (softbus_auth_feed toy_json toy_env (Some text) True a)) = AUTH_COMPLETE"
proof -
  let ?a = "(toy_machine [65])\<lparr>au_state := AUTH_DEVICE_AUTH, au_is_active := True, au_peer_device_id := Some [66]\<rparr>"
  let ?obj = "msg_response toy_json ?a (replicate 16 2) []"
  have "sd_device_id (au_local ?a) = Some [65]" "au_psk ?a = Some [1]" "au_active_nonce ?a = replicate 16 3"
    by (simp_all add: toy_machine_def softbus_auth_new_def)
  then have "compute_sig toy_env ?a (au_active_nonce ?a) (replicate 16 2) (Some [65]) (Some [66]) = Some (ae_stack toy_env)"
    "au_keys_ready (derive_keys toy_env ?a)" "sd_device_id (au_local ?a) = Some [65]"
    using toy_env_ok(3) by (simp_all add: compute_sig_def softbus_hmac_sha256_def toy_env_def derive_keys_def softbus_device_get_id_def)
  moreover have "nonce_from_hex (json_get_string toy_json ?obj SOFTBUS_JSON_NONCE) = Some (replicate 16 2)"
    "json_get_string toy_json ?obj SOFTBUS_JSON_SIG = Some []" "softbus_from_hex (Some []) 32 = Some []"
    using toy_json_laws nonce_round [of "replicate 16 2"]
    by (simp_all add: msg_members AUTH_NONCE_LEN_def) (simp_all add: softbus_to_hex_def softbus_from_hex_def)
  ultimately have "fst (snd (softbus_auth_feed toy_json toy_env (Some (json_to_data toy_json ?obj)) True ?a)) = AUTH_COMPLETE"
    using auth_active_accepts [of ?a toy_env toy_json "json_to_data toy_json ?obj" True] toy_json_laws
    by (auto simp: toy_env_ok(1) [rule_format] json_lawsD msg_headers)
  then show ?thesis by (simp add: Let_def)
qed

text \<open>
  The passive side completes for anybody: three messages that are made without the pre-shared key take it to
  DONE, whatever the key is.
\<close>

lemma auth_passive_trusts:
  assumes J: "json_laws J" and H: "\<forall>k d. \<exists>h. ae_hmac E k d = Some h \<and> length h = 32"
    and keys: "softbus_hkdf_session_keys (ae_kdf E) (Some ib) (Some ia) (Some psk) = Some (ck, dk)"
    and b: "softbus_auth_new (Some db) (Some psk) rb nb = Some b" "sd_device_id db = Some ib"
    and x: "sd_device_id (au_local x) = Some ia" "length (au_active_nonce x) = 16" "length (ae_nonce E) = 16"
  shows "let b1 = fst (softbus_auth_feed J E (Some (json_to_data J (msg_negotiation J x))) True b);
             b2 = fst (softbus_auth_feed J E (Some (json_to_data J (msg_request J x))) True b1);
             r = softbus_auth_feed J E (Some (json_to_data J (device_info J x))) True b2
         in au_state (fst r) = AUTH_DONE \<and> fst (snd r) = AUTH_COMPLETE"
proof -
  obtain sig where sig: "ae_hmac E psk (au_active_nonce x @ ae_nonce E @ ia @ ib) = Some sig" "length sig = 32" using H by blast
  have c: "compute_sig E y (au_active_nonce x) (ae_nonce E) (Some ia) (Some ib) = Some sig" if "au_psk y = Some psk" for y
    using sig that x by (simp add: compute_sig_def softbus_hmac_sha256_def AUTH_NONCE_LEN_def)
  have d: "derive_keys E y = y\<lparr>au_control_key := ck, au_data_key := dk, au_keys_ready := True\<rparr>"
    if "au_psk y = Some psk" "sd_device_id (au_local y) = Some ib" "au_peer_device_id y = Some ia" for y
    using that keys by (auto simp: derive_keys_def softbus_device_get_id_def)
  have "au_local b = db" "au_psk b = Some psk" "au_state b = AUTH_IDLE" "\<not> au_is_active b"
    using b(1) by (auto simp: softbus_auth_new_def)
  then show ?thesis using x b(2)
    by (simp add: enter_state_def Let_def step_negotiation [OF J] step_request [OF J, where i = ia and j = ib and sig = sig]
        step_device_info [OF J] c d)
qed

lemma auth_passive_trusts_witness:
  "\<exists>b2. fst (snd (softbus_auth_feed toy_json toy_env (Some (json_to_data toy_json (device_info toy_json (toy_machine [65])))) True b2)) =
     AUTH_COMPLETE"
proof -
  have k: "softbus_hkdf_session_keys (ae_kdf toy_env) (Some [66]) (Some [65]) (Some [1]) = Some (replicate 32 4, replicate 32 4)"
    using toy_env_ok(3) by (simp add: session_keys_agree)
  have x: "sd_device_id (au_local (toy_machine [65])) = Some [65]" "length (au_active_nonce (toy_machine [65])) = 16"
    "length (ae_nonce toy_env) = 16"
    by (simp_all add: toy_machine_def softbus_auth_new_def toy_env_def)
  show ?thesis using auth_passive_trusts [OF toy_json_laws toy_env_ok(2) k toy_machine_new _ x] by (auto simp: Let_def)
qed

section \<open>Retries are bounded\<close>

fun retries :: "softbus_auth \<Rightarrow> u64 list \<Rightarrow> softbus_auth \<times> nat" where
  "retries a [] = (a, 0)"
| "retries a (t # ts) =
     (case softbus_auth_retry_due a t of (a', due) \<Rightarrow>
        (case retries a' ts of (b, n) \<Rightarrow> (b, if due then Suc n else n)))"

text \<open>
  However often and whenever the owner asks, at most three retries are granted in one state; the request that
  finds the timeout passed after the third one fails the machine.
\<close>

lemma auth_retry_bound:
  assumes "retries a ts = (b, n)" "0 \<le> au_retry_count a" "au_retry_count a \<le> SOFTBUS_AUTH_RETRIES"
  shows "int n = au_retry_count b - au_retry_count a \<and> n \<le> 3 \<and> au_retry_count b \<le> SOFTBUS_AUTH_RETRIES \<and>
    (n = 3 \<longrightarrow> au_state_entered_ms b \<le> now \<longrightarrow>
       SOFTBUS_AUTH_STATE_TIMEOUT_MS \<le> now - au_state_entered_ms b \<longrightarrow> au_awaiting_reply b \<longrightarrow>
       au_state b \<notin> {AUTH_DONE, AUTH_FAILED} \<longrightarrow> softbus_auth_retry_due b now = (auth_fail b, False))"
proof -
  have "int n = au_retry_count b - au_retry_count a \<and> au_retry_count b \<le> SOFTBUS_AUTH_RETRIES" using assms
  proof (induction ts arbitrary: a n)
    case (Cons t ts)
    obtain a' due where r: "softbus_auth_retry_due a t = (a', due)" by fastforce
    obtain m where m: "retries a' ts = (b, m)" "n = (if due then Suc m else m)"
      using Cons.prems(1) r by (auto split: prod.splits)
    have "au_retry_count a' = au_retry_count a + (if due then 1 else 0) \<and> au_retry_count a' \<le> SOFTBUS_AUTH_RETRIES"
      using r Cons.prems(3) by (auto simp: softbus_auth_retry_due_def auth_fail_def split: if_splits)
    then show ?case using Cons.IH [OF m(1)] m(2) Cons.prems(2) by auto
  qed auto
  then show ?thesis using assms(2) by (auto simp: SOFTBUS_AUTH_RETRIES_def softbus_auth_retry_due_def)
qed

lemma auth_retry_bound_witness:
  "let a = fst (softbus_auth_begin_active toy_json toy_env (toy_machine [65]) True) in
   snd (retries a [30001, 30002, 60001, 90001, 120001]) = 3 \<and>
   au_retry_count (fst (retries a [30001, 30002, 60001, 90001])) = 3"
proof -
  let ?a = "fst (softbus_auth_begin_active toy_json toy_env (toy_machine [65]) True)"
  have "snd (retries ?a [30001, 30002, 60001, 90001, 120001]) = 3" "snd (retries ?a [30001, 30002, 60001, 90001]) = 3"
    "au_retry_count ?a = 0"
    by (simp_all add: softbus_auth_begin_active_def toy_machine_def softbus_auth_new_def Let_def enter_state_def
      softbus_auth_retry_due_def toy_env_def SOFTBUS_AUTH_STATE_TIMEOUT_MS_def SOFTBUS_AUTH_RETRIES_def auth_fail_def)
  then show ?thesis
    using auth_retry_bound [of ?a "[30001, 30002, 60001, 90001]" "fst (retries ?a [30001, 30002, 60001, 90001])" 3]
    by (cases "retries ?a [30001, 30002, 60001, 90001]") (simp add: Let_def SOFTBUS_AUTH_RETRIES_def)
qed

end
