(* ===== verification/Dmsdp.thy ===== *)
theory Dmsdp
  imports SoftbusDevice
begin

text \<open>
  The parser of the DMSDP control text (\<open>src/proto/dmsdp.c\<close>).

  A text is the list of its bytes.  \<open>atoi\<close> and the \<open>%d\<close> of \<open>sscanf\<close> are the ones of glibc: the
  number is read as a \<open>long\<close>, which saturates, and cut to 32 bits.  A call gives its return code and the
  structure as far as it was filled.  A string of the structure is the C string in its buffer.
\<close>

section \<open>Strings\<close>

definition CR :: byte where "CR = 13"
definition LF :: byte where "LF = 10"
definition SP :: byte where "SP = 32"
definition CRLF :: bytes where "CRLF = [13, 10]"

text \<open>\<open>memmem(s, len, "\r\n", 2)\<close> and \<open>memchr(s, c, len)\<close> as offsets.\<close>

fun find_crlf :: "bytes \<Rightarrow> nat option" where
  "find_crlf (a # b # r) = (if a = CR \<and> b = LF then Some 0 else map_option Suc (find_crlf (b # r)))"
| "find_crlf _ = None"

fun find_byte :: "byte \<Rightarrow> bytes \<Rightarrow> nat option" where
  "find_byte c [] = None"
| "find_byte c (b # r) = (if b = c then Some 0 else map_option Suc (find_byte c r))"

text \<open>\<open>strncmp(s, t, n) == 0\<close> for a literal \<open>t\<close>, when \<open>s\<close> has at least \<open>n\<close> bytes.\<close>

definition strncmp_eq :: "bytes \<Rightarrow> cstr \<Rightarrow> nat \<Rightarrow> bool" where
  "strncmp_eq s t n \<longleftrightarrow> c_string (take n s) = take n t"

definition is_digit :: "byte \<Rightarrow> bool" where
  "is_digit c \<longleftrightarrow> 0x30 \<le> c \<and> c \<le> 0x39"

definition is_space :: "byte \<Rightarrow> bool" where
  "is_space c \<longleftrightarrow> c = 0x20 \<or> 9 \<le> c \<and> c \<le> 13"

definition digits_value :: "bytes \<Rightarrow> nat" where
  "digits_value ds = foldl (\<lambda>n c. 10 * n + (unat c - 0x30)) 0 ds"

definition long_cut :: "int \<Rightarrow> u32" where
  "long_cut v = word_of_int (max (- (2 ^ 63)) (min (2 ^ 63 - 1) v))"

text \<open>A decimal number at the front of a C string, and what is behind it.\<close>

definition scan_int :: "cstr \<Rightarrow> (u32 \<times> cstr) option" where
  "scan_int s =
     (let s = dropWhile is_space s;
          (neg, s) = (case s of c # r \<Rightarrow> if c = 0x2d then (True, r) else if c = 0x2b then (False, r) else (False, s)
                              | [] \<Rightarrow> (False, s));
          ds = takeWhile is_digit s
      in if ds = [] then None
         else Some (long_cut (if neg then - int (digits_value ds) else int (digits_value ds)), drop (length ds) s))"

definition c_atoi :: "cstr \<Rightarrow> u32" where
  "c_atoi s = (case scan_int s of None \<Rightarrow> 0 | Some (v, _) \<Rightarrow> v)"

section \<open>Tables\<close>

definition dmsdp_method_lines :: "cstr list" where
  "dmsdp_method_lines = map bytes_of
     [''OPTIONS * DMSDP/1.0'', ''SETUP * DMSDP/1.0'', ''PLAY * DMSDP/1.0'', ''TEARDOWN * DMSDP/1.0'',
      ''SET_PARAMETER * DMSDP/1.0'', ''GET_PARAMETER * DMSDP/1.0'', ''RESETUP * DMSDP/1.0'', ''TRIGGER_RECONN * DMSDP/1.0'']"

definition dmsdp_trigger_bodies :: "cstr list" where
  "dmsdp_trigger_bodies = map (\<lambda>s. bytes_of s @ CRLF)
     [''msdp_trigger_method: SETUP'', ''msdp_trigger_method: TEARDOWN'', ''msdp_trigger_method: OPTIONS'',
      ''msdp_trigger_method: CLOSE'', ''msdp_trigger_method: RESETUP'']"

definition dmsdp_names :: "cstr list" where
  "dmsdp_names = map bytes_of
     [''CSeq'', ''Content-Length'', ''Content-Type'', ''ServiceID'', ''ServiceType'', ''DataSessionID'',
      ''CryptoVer'', ''CryptoSwitch'', ''CryptoAlg'', ''CryptoAbility'', ''UdpKA'', ''UdpKAport'',
      ''Fillp'', ''Codec'', ''TCP'', ''VideoParameter'', ''AudioParameter'', ''GpsParameter'',
      ''VideoMetaParameter'', ''Transport'', ''TimeServerPort'', ''TimeUsHigh'', ''TimeUsLow'', ''DeviceTraceId'',
      ''KaRetry'', ''MultiTrans'', ''Backup'', ''ReplyType'', ''Simple'', ''PolyPackage'']"

definition dmsdp_flag1 :: "u32 list" where
  "dmsdp_flag1 =
     [0x00000001, 0, 0, 0x00000400, 0x00000800,
      0x00001000, 0x00000002, 0x00000004, 0x00000008, 0x00000010,
      0x00000020, 0x00000040, 0x00000080, 0x00000100, 0x00000200,
      0x00008000, 0x00010000, 0x00020000, 0x00040000, 0x00080000,
      0x00100000, 0, 0, 0x00200000, 0x00400000,
      0, 0, 0, 0, 0]"

definition dmsdp_flag2 :: "u32 list" where
  "dmsdp_flag2 =
     [0, 0, 0, 0, 0, 0, 0, 0, 0, 0, 0, 0, 0, 0, 0,
      0, 0, 0, 0, 0, 0, 0, 0, 0, 0, 0x1, 0x2, 0x4, 0x8, 0x10]"

definition dmsdp_special :: "bool list" where
  "dmsdp_special =
     [False, False, True, True, False, False, False, False, True, False, False, False, False, False, False,
      True, True, True, True, True, False, False, False, True, False, False, False, False, False, False]"

section \<open>The parsed structure\<close>

record dmsdp_parsed =
  dp_type :: u32
  dp_flags1 :: u32
  dp_flags2 :: u32
  dp_trigger_idx :: u32
  dp_response_fail :: u32
  dp_cseq :: u32
  dp_content_length :: u32
  dp_crypto_ver :: byte
  dp_crypto_switch :: byte
  dp_crypto_alg :: "cstr option"
  dp_crypto_ability :: byte
  dp_udp_ka :: byte
  dp_udp_ka_port :: u32
  dp_gps_server_port :: u32
  dp_fillp :: byte
  dp_tcp :: byte
  dp_service_id :: "cstr option"
  dp_service_type :: u32
  dp_data_session_id :: u32
  dp_client_port_lo :: u32
  dp_client_port_hi :: u32
  dp_server_port_lo :: u32
  dp_server_port_hi :: u32
  dp_time_server_port :: u32
  dp_time_us_high :: u32
  dp_time_us_low :: u32
  dp_av_param :: "cstr option"
  dp_video_meta :: "cstr option"
  dp_device_trace_id :: "cstr option"
  dp_multi_trans :: u32
  dp_backup :: byte
  dp_reply_type :: byte
  dp_simple :: byte
  dp_poly_package :: byte

definition dmsdp_parsed_init :: dmsdp_parsed where
  "dmsdp_parsed_init = \<lparr>dp_type = 0, dp_flags1 = 0, dp_flags2 = 0, dp_trigger_idx = 0, dp_response_fail = 0, dp_cseq = 0,
     dp_content_length = 0, dp_crypto_ver = 0, dp_crypto_switch = 0, dp_crypto_alg = None, dp_crypto_ability = 0,
     dp_udp_ka = 0, dp_udp_ka_port = 0, dp_gps_server_port = 0, dp_fillp = 0, dp_tcp = 0, dp_service_id = None,
     dp_service_type = 0, dp_data_session_id = 0, dp_client_port_lo = 0, dp_client_port_hi = 0, dp_server_port_lo = 0,
     dp_server_port_hi = 0, dp_time_server_port = 0, dp_time_us_high = 0, dp_time_us_low = 0, dp_av_param = None,
     dp_video_meta = None, dp_device_trace_id = None, dp_multi_trans = 0, dp_backup = 0, dp_reply_type = 0,
     dp_simple = 0, dp_poly_package = 0\<rparr>"

section \<open>Values\<close>

text \<open>\<open>dmsdp_parse_integer\<close>: \<open>Inl\<close> the error code.\<close>

definition dmsdp_parse_integer :: "bytes \<Rightarrow> int + u32" where
  "dmsdp_parse_integer str =
     (if 16 < length str then Inl (-9)
      else
        let buf = c_string str;
            sl = length buf
        in if sl < 1 then Inl (-1)
           else
             let sp = length (takeWhile (\<lambda>c. c = SP) buf);
                 c = (if sp < sl then buf ! sp else 0);
                 sign = ((c - 0x2b) AND 0xfd = 0);
                 sp = (if sign then sp + 1 else sp)
             in if sign \<and> sl = 1 then Inl (-1)
                else if \<not> list_all is_digit (drop sp buf) then Inl (-1)
                else Inr (c_atoi buf))"

definition dmsdp_parse_port_range :: "bytes \<Rightarrow> (u32 \<times> u32) option" where
  "dmsdp_parse_port_range s =
     (if 32 \<le> length s then None
      else
        (case scan_int (c_string s) of
           None \<Rightarrow> None
         | Some (a, r) \<Rightarrow>
             (case r of
                c # r' \<Rightarrow>
                  if c = 0x2d then (case scan_int r' of Some (b, _) \<Rightarrow> Some (a, b) | None \<Rightarrow> Some (a, 0)) else Some (a, 0)
              | [] \<Rightarrow> Some (a, 0))))"

text \<open>The first matching segment: not there, malformed, or a range.\<close>

datatype attr_result = NoAttr | BadRange | Range u32 u32

function dmsdp_parse_transport_attr :: "bytes \<Rightarrow> cstr \<Rightarrow> attr_result" where
  "dmsdp_parse_transport_attr p name =
     (if p = [] then NoAttr
      else
        let seg_len = length (takeWhile (\<lambda>c. c \<noteq> 0x3b) p)
        in if 12 \<le> seg_len \<and> p ! 11 = 0x3d \<and> strncmp_eq p name 11 then
             (case dmsdp_parse_port_range (take (seg_len - 12) (drop 12 p)) of
                None \<Rightarrow> BadRange | Some (lo, hi) \<Rightarrow> Range lo hi)
           else if seg_len < length p then dmsdp_parse_transport_attr (drop (seg_len + 1) p) name
           else NoAttr)"
  by pat_completeness auto
termination by (relation "measure (\<lambda>(p, _). length p)") auto

declare dmsdp_parse_transport_attr.simps [simp del]

definition dmsdp_parse_transport :: "bytes \<Rightarrow> dmsdp_parsed \<Rightarrow> int \<times> dmsdp_parsed" where
  "dmsdp_parse_transport val p =
     (if length val < 20 \<or> \<not> strncmp_eq val (bytes_of ''RTP/AVP/UDP;unicast;'') 20 then (0, p)
      else
        (case dmsdp_parse_transport_attr val (bytes_of ''client_port'') of
           BadRange \<Rightarrow> (0, p)
         | r \<Rightarrow>
             let p = (case r of Range lo hi \<Rightarrow> p\<lparr>dp_client_port_lo := lo, dp_client_port_hi := hi\<rparr> | _ \<Rightarrow> p)
             in (0, case dmsdp_parse_transport_attr val (bytes_of ''server_port'') of
                      Range lo hi \<Rightarrow> p\<lparr>dp_server_port_lo := lo, dp_server_port_hi := hi\<rparr> | _ \<Rightarrow> p)))"

text \<open>What follows the first occurrence of the needle.\<close>

fun after_needle :: "cstr \<Rightarrow> bytes \<Rightarrow> bytes option" where
  "after_needle needle [] = None"
| "after_needle needle (b # r) =
     (if length needle \<le> length (b # r) \<and> take (length needle) (b # r) = needle then Some (drop (length needle) (b # r))
      else after_needle needle r)"

definition dmsdp_parse_gps :: "bytes \<Rightarrow> dmsdp_parsed \<Rightarrow> int \<times> dmsdp_parsed" where
  "dmsdp_parse_gps val p =
     (case after_needle (bytes_of ''ServerUdpPort'') val of
        None \<Rightarrow> (-5, p)
      | Some r \<Rightarrow>
          let r = dropWhile (\<lambda>c. c = 0x20 \<or> c = 9 \<or> c = 10 \<or> c = 13 \<or> c = 0x3d) r;
              seg = takeWhile (\<lambda>c. c \<noteq> 0x3b) r
          in if 20 \<le> length seg then (-5, p)
             else
               let v = c_atoi (c_string seg)
               in if sint v \<le> 0 then (-5, p) else (0, p\<lparr>dp_gps_server_port := v\<rparr>))"

section \<open>Lines\<close>

definition dmsdp_analyze_string :: "nat \<Rightarrow> bytes \<Rightarrow> dmsdp_parsed \<Rightarrow> int \<times> dmsdp_parsed" where
  "dmsdp_analyze_string idx val p =
     (if idx = 2 then (0, p)
      else if idx = 3 then (0, p\<lparr>dp_service_id := Some (c_string val)\<rparr>)
      else if idx = 8 then (0, p\<lparr>dp_crypto_alg := Some (c_string val)\<rparr>)
      else if idx = 15 \<or> idx = 16 then (0, p\<lparr>dp_av_param := Some (c_string val)\<rparr>)
      else if idx = 17 then dmsdp_parse_gps val p
      else if idx = 18 then (0, p\<lparr>dp_video_meta := Some (c_string val)\<rparr>)
      else if idx = 19 then dmsdp_parse_transport val p
      else if idx = 23 then (0, p\<lparr>dp_device_trace_id := Some (c_string val)\<rparr>)
      else (-10, p))"

definition store_int :: "bytes \<Rightarrow> (u32 \<Rightarrow> dmsdp_parsed) \<Rightarrow> dmsdp_parsed \<Rightarrow> int \<times> dmsdp_parsed" where
  "store_int val upd p = (case dmsdp_parse_integer val of Inl e \<Rightarrow> (e, p) | Inr v \<Rightarrow> (0, upd v))"

definition dmsdp_analyze_integer :: "nat \<Rightarrow> bytes \<Rightarrow> dmsdp_parsed \<Rightarrow> int \<times> dmsdp_parsed" where
  "dmsdp_analyze_integer idx val p =
     (if idx = 0 then store_int val (\<lambda>v. p\<lparr>dp_cseq := v\<rparr>) p
      else if idx = 1 then store_int val (\<lambda>v. p\<lparr>dp_content_length := v\<rparr>) p
      else if idx = 4 then store_int val (\<lambda>v. p\<lparr>dp_service_type := v\<rparr>) p
      else if idx = 5 then store_int val (\<lambda>v. p\<lparr>dp_data_session_id := v\<rparr>) p
      else if idx = 6 then store_int val (\<lambda>v. p\<lparr>dp_crypto_ver := ucast v\<rparr>) p
      else if idx = 7 then store_int val (\<lambda>v. p\<lparr>dp_crypto_switch := ucast v\<rparr>) p
      else if idx = 9 then store_int val (\<lambda>v. p\<lparr>dp_crypto_ability := ucast v\<rparr>) p
      else if idx = 10 then store_int val (\<lambda>v. p\<lparr>dp_udp_ka := ucast v\<rparr>) p
      else if idx = 11 then store_int val (\<lambda>v. p\<lparr>dp_udp_ka_port := v\<rparr>) p
      else if idx = 12 then store_int val (\<lambda>v. p\<lparr>dp_fillp := ucast v\<rparr>) p
      else if idx = 13 then (-10, p)
      else if idx = 14 then store_int val (\<lambda>v. p\<lparr>dp_tcp := ucast v\<rparr>) p
      else if idx = 20 then store_int val (\<lambda>v. p\<lparr>dp_time_server_port := v\<rparr>) p
      else if idx = 21 then store_int val (\<lambda>v. p\<lparr>dp_time_us_high := v\<rparr>) p
      else if idx = 22 then store_int val (\<lambda>v. p\<lparr>dp_time_us_low := v\<rparr>) p
      else if idx = 24 then (-10, p)
      else if idx = 25 then store_int val (\<lambda>v. p\<lparr>dp_multi_trans := v\<rparr>) p
      else if idx = 26 then store_int val (\<lambda>v. p\<lparr>dp_backup := ucast v\<rparr>) p
      else if idx = 27 then store_int val (\<lambda>v. p\<lparr>dp_reply_type := ucast v\<rparr>) p
      else if idx = 28 then store_int val (\<lambda>v. p\<lparr>dp_simple := ucast v\<rparr>) p
      else if idx = 29 then store_int val (\<lambda>v. p\<lparr>dp_poly_package := ucast v\<rparr>) p
      else (-10, p))"

text \<open>The first name that the trimmed key is a prefix of.\<close>

fun keyword_from :: "bytes \<Rightarrow> nat \<Rightarrow> cstr list \<Rightarrow> nat option" where
  "keyword_from key i [] = None"
| "keyword_from key i (n # ns) = (if strncmp_eq key n (length key) then Some i else keyword_from key (i + 1) ns)"

definition trim_spaces :: "bytes \<Rightarrow> bytes" where
  "trim_spaces key = rev (dropWhile (\<lambda>c. c = SP) (rev (dropWhile (\<lambda>c. c = SP) key)))"

definition dmsdp_get_keyword :: "bytes \<Rightarrow> nat option" where
  "dmsdp_get_keyword key = (let k = trim_spaces key in if k = [] then None else keyword_from k 0 dmsdp_names)"

definition dmsdp_analyze_line :: "bytes \<Rightarrow> dmsdp_parsed \<Rightarrow> int \<times> dmsdp_parsed" where
  "dmsdp_analyze_line line p =
     (case find_byte 0x3a line of
        None \<Rightarrow> (-5, p)
      | Some keylen \<Rightarrow>
          if keylen = 0 \<or> length line \<le> 1 \<or> length line - 1 \<le> keylen then (-5, p)
          else
            (case dmsdp_get_keyword (take keylen line) of
               None \<Rightarrow> (0, p)
             | Some idx \<Rightarrow>
                 let f1 = dmsdp_flag1 ! idx;
                     f2 = dmsdp_flag2 ! idx;
                     p = p\<lparr>dp_flags1 := dp_flags1 p OR f1, dp_flags2 := dp_flags2 p OR f2\<rparr>;
                     val = drop (keylen + 1) line;
                     (rc, p) = (if dmsdp_special ! idx then dmsdp_analyze_string idx (dropWhile (\<lambda>c. c = SP) val) p
                                else dmsdp_analyze_integer idx val p)
                 in if rc = -10 then (0, p\<lparr>dp_flags1 := dp_flags1 p AND NOT f1, dp_flags2 := dp_flags2 p AND NOT f2\<rparr>)
                    else (rc, p)))"

section \<open>Packets\<close>

text \<open>The start line: the type and whether it is a failure response.\<close>

fun method_from :: "bytes \<Rightarrow> nat \<Rightarrow> cstr list \<Rightarrow> nat option" where
  "method_from line i [] = None"
| "method_from line i (m # ms) = (if line = m then Some i else method_from line (i + 1) ms)"

definition dmsdp_start_line :: "bytes \<Rightarrow> (u32 \<times> u32) option" where
  "dmsdp_start_line line =
     (case method_from line 0 dmsdp_method_lines of
        Some i \<Rightarrow> Some (of_nat i, 0)
      | None \<Rightarrow>
          if length line < 10 \<or> take 10 line \<noteq> bytes_of ''DMSDP/1.0 '' \<or> 12 < length line - 10 then None
          else
            let ds = takeWhile is_digit (drop 10 line);
                d = 10 + length ds
            in if d = 10 \<or> d = length line \<or> line ! d \<noteq> SP then None
               else
                 (case dmsdp_parse_integer ds of
                    Inl _ \<Rightarrow> None
                  | Inr status \<Rightarrow> Some (8, if status \<noteq> 200 then 1 else 0)))"

text \<open>The header lines in what is left of the text, up to the blank line; the last component is the body.\<close>

function dmsdp_headers :: "bytes \<Rightarrow> dmsdp_parsed \<Rightarrow> int \<times> dmsdp_parsed \<times> bytes" where
  "dmsdp_headers r p =
     (if r = [] then (0, p, [])
      else
        (case find_crlf r of
           Some ll \<Rightarrow>
             if ll = 0 then (0, p, drop 2 r)
             else
               (case dmsdp_analyze_line (take ll r) p of
                  (rc, p) \<Rightarrow> if rc \<noteq> 0 then (rc, p, []) else dmsdp_headers (drop (ll + 2) r) p)
         | None \<Rightarrow>
             if length r < 2 then (-2, p, [])
             else (case dmsdp_analyze_line r p of (rc, p) \<Rightarrow> (rc, p, []))))"
  by pat_completeness auto
termination by (relation "measure (\<lambda>(r, _). length r)") auto

declare dmsdp_headers.simps [simp del]

fun trigger_from :: "bytes \<Rightarrow> nat \<Rightarrow> cstr list \<Rightarrow> nat option" where
  "trigger_from body i [] = None"
| "trigger_from body i (t # ts) = (if body = t then Some i else trigger_from body (i + 1) ts)"

definition dmsdp_parse :: "bytes option \<Rightarrow> int \<times> dmsdp_parsed option" where
  "dmsdp_parse text =
     (case text of
        None \<Rightarrow> (-2, None)
      | Some buf \<Rightarrow>
          if buf = [] then (-2, None)
          else
            let p = dmsdp_parsed_init
            in (case find_crlf buf of
                  None \<Rightarrow> (-2, Some p)
                | Some line1 \<Rightarrow>
                    (case dmsdp_start_line (take line1 buf) of
                       None \<Rightarrow> (-2, Some p)
                     | Some (ty, fail) \<Rightarrow>
                         (case dmsdp_headers (drop (line1 + 2) buf) (p\<lparr>dp_type := ty, dp_response_fail := fail\<rparr>) of
                            (rc, p, body) \<Rightarrow>
                              if rc \<noteq> 0 then (rc, Some p)
                              else if 0 < dp_content_length p then
                                if length body \<noteq> unat (dp_content_length p) then (-2, Some p)
                                else
                                  (case trigger_from body 1 dmsdp_trigger_bodies of
                                     None \<Rightarrow> (-2, Some p)
                                   | Some i \<Rightarrow> (0, Some (p\<lparr>dp_trigger_idx := of_nat i\<rparr>)))
                              else if length buf - length body = 0 then (-2, Some p)
                              else (0, Some p)))))"

end
