(* ===== verification/DmsdpBuild.thy ===== *)
theory DmsdpBuild
  imports Dmsdp
begin

text \<open>
  The builder of the DMSDP control text, its frame, the messages of a data session and the client
  state machine (\<open>src/proto/dmsdp.c\<close>), and what the parser makes of a text that was built.
\<close>

definition DMSDP_FRAME_TYPE_NOCRYPTO :: byte where "DMSDP_FRAME_TYPE_NOCRYPTO = 0"
definition DMSDP_FRAME_MAX_PAYLOAD :: nat where "DMSDP_FRAME_MAX_PAYLOAD = 1500"
definition DMSDP_TEXT_MAX :: nat where "DMSDP_TEXT_MAX = 1400"

definition DMSDP_TYPE_SETUP :: u32 where "DMSDP_TYPE_SETUP = 1"
definition DMSDP_TYPE_PLAY :: u32 where "DMSDP_TYPE_PLAY = 2"
definition DMSDP_TYPE_RESPONSE :: u32 where "DMSDP_TYPE_RESPONSE = 8"

definition DMSDP_FLAG_CSEQ :: u32 where "DMSDP_FLAG_CSEQ = 0x00000001"
definition DMSDP_FLAG_CRYPTO_VER :: u32 where "DMSDP_FLAG_CRYPTO_VER = 0x00000002"
definition DMSDP_FLAG_CRYPTO_SWITCH :: u32 where "DMSDP_FLAG_CRYPTO_SWITCH = 0x00000004"
definition DMSDP_FLAG_CRYPTO_ALG :: u32 where "DMSDP_FLAG_CRYPTO_ALG = 0x00000008"
definition DMSDP_FLAG_CRYPTO_ABILITY :: u32 where "DMSDP_FLAG_CRYPTO_ABILITY = 0x00000010"
definition DMSDP_FLAG_UDP_KA :: u32 where "DMSDP_FLAG_UDP_KA = 0x00000020"
definition DMSDP_FLAG_FILLP :: u32 where "DMSDP_FLAG_FILLP = 0x00000080"
definition DMSDP_FLAG_CODEC :: u32 where "DMSDP_FLAG_CODEC = 0x00000100"
definition DMSDP_FLAG_TCP :: u32 where "DMSDP_FLAG_TCP = 0x00000200"
definition DMSDP_FLAG_SERVICE_ID :: u32 where "DMSDP_FLAG_SERVICE_ID = 0x00000400"
definition DMSDP_FLAG_SERVICE_TYPE :: u32 where "DMSDP_FLAG_SERVICE_TYPE = 0x00000800"
definition DMSDP_FLAG_DATA_SESSION_ID :: u32 where "DMSDP_FLAG_DATA_SESSION_ID = 0x00001000"
definition DMSDP_FLAG_TRANSPORT_CLIENT :: u32 where "DMSDP_FLAG_TRANSPORT_CLIENT = 0x00002000"
definition DMSDP_FLAG_TRANSPORT_COMBINED :: u32 where "DMSDP_FLAG_TRANSPORT_COMBINED = 0x00004000"
definition DMSDP_FLAG_KA_RETRY :: u32 where "DMSDP_FLAG_KA_RETRY = 0x00400000"
definition DMSDP_FLAG2_BACKUP :: u32 where "DMSDP_FLAG2_BACKUP = 0x2"
definition DMSDP_FLAG2_SIMPLE :: u32 where "DMSDP_FLAG2_SIMPLE = 0x8"
definition DMSDP_FLAG2_POLY_PACKAGE :: u32 where "DMSDP_FLAG2_POLY_PACKAGE = 0x10"

record dmsdp_msg =
  dm_type :: u32
  dm_status :: u32
  dm_flags1 :: u32
  dm_flags2 :: u32
  dm_cseq :: u32
  dm_service_id :: "cstr option"
  dm_service_type :: u32
  dm_data_session_id :: u32
  dm_crypto_ver :: byte
  dm_crypto_switch :: byte
  dm_crypto_ability :: byte
  dm_crypto_alg :: "cstr option"
  dm_udp_ka :: byte
  dm_fillp :: byte
  dm_tcp :: byte
  dm_codec :: u32
  dm_ka_retry :: u32
  dm_backup :: u32
  dm_simple :: u32
  dm_poly_package :: u32
  dm_client_port_lo :: u32
  dm_client_port_hi :: u32
  dm_server_port_lo :: u32
  dm_server_port_hi :: u32

section \<open>Building a text\<close>

text \<open>\<open>%u\<close>\<close>

fun dec_nat :: "nat \<Rightarrow> bytes" where
  "dec_nat n = (if n < 10 then [of_nat (0x30 + n)] else dec_nat (n div 10) @ [of_nat (0x30 + n mod 10)])"

declare dec_nat.simps [simp del]

definition dec :: "'a::len word \<Rightarrow> bytes" where
  "dec v = dec_nat (unat v)"

text \<open>\<open>EMIT\<close>: \<open>None\<close> is the \<open>return -1\<close> when the buffer of 1400 bytes cannot hold the text and its NUL.\<close>

definition emit :: "bytes \<Rightarrow> bytes option \<Rightarrow> bytes option" where
  "emit s acc =
     (case acc of
        None \<Rightarrow> None
      | Some t \<Rightarrow> if DMSDP_TEXT_MAX - length t \<le> length s then None else Some (t @ s))"

definition emit_if :: "u32 \<Rightarrow> u32 \<Rightarrow> bytes \<Rightarrow> bytes option \<Rightarrow> bytes option" where
  "emit_if f flag s acc = (if f AND flag \<noteq> 0 then emit s acc else acc)"

definition emit_string :: "u32 \<Rightarrow> u32 \<Rightarrow> string \<Rightarrow> cstr option \<Rightarrow> bytes option \<Rightarrow> bytes option" where
  "emit_string f flag name v acc =
     (if f AND flag \<noteq> 0 then (case v of None \<Rightarrow> None | Some s \<Rightarrow> emit (bytes_of name @ s @ CRLF) acc) else acc)"

definition dmsdp_transport :: "dmsdp_msg \<Rightarrow> bytes" where
  "dmsdp_transport m = bytes_of ''Transport: RTP/AVP/UDP;unicast;client_port='' @ dec (dm_client_port_lo m) @ [0x2d] @ dec (dm_client_port_hi m)"

definition emit_transport :: "dmsdp_msg \<Rightarrow> bytes option \<Rightarrow> bytes option" where
  "emit_transport m acc =
     (if dm_flags1 m AND DMSDP_FLAG_TRANSPORT_COMBINED \<noteq> 0 then
        emit (dmsdp_transport m @ bytes_of '';server_port='' @ dec (dm_server_port_lo m) @ [0x2d] @ dec (dm_server_port_hi m) @ CRLF) acc
      else if dm_flags1 m AND DMSDP_FLAG_TRANSPORT_CLIENT \<noteq> 0 then emit (dmsdp_transport m @ CRLF) acc
      else acc)"

definition dmsdp_build_text :: "dmsdp_msg \<Rightarrow> bytes option" where
  "dmsdp_build_text m =
     (let f = dm_flags1 m;
          f2 = dm_flags2 m;
          acc = emit (if dm_type m = 8 then bytes_of ''DMSDP/1.0 200 OK'' @ CRLF
                      else dmsdp_method_lines ! unat (dm_type m) @ CRLF) (Some []);
          acc = emit_if f DMSDP_FLAG_CSEQ (bytes_of ''CSeq: '' @ dec (dm_cseq m) @ CRLF) acc;
          acc = emit_string f DMSDP_FLAG_SERVICE_ID ''ServiceID: '' (dm_service_id m) acc;
          acc = emit_if f DMSDP_FLAG_SERVICE_TYPE (bytes_of ''ServiceType: '' @ dec (dm_service_type m) @ CRLF) acc;
          acc = emit_if f DMSDP_FLAG_DATA_SESSION_ID (bytes_of ''DataSessionID: '' @ dec (dm_data_session_id m) @ CRLF) acc;
          acc = emit_if f DMSDP_FLAG_CRYPTO_VER (bytes_of ''CryptoVer: '' @ dec (dm_crypto_ver m) @ CRLF) acc;
          acc = emit_if f DMSDP_FLAG_CRYPTO_SWITCH (bytes_of ''CryptoSwitch: '' @ dec (dm_crypto_switch m) @ CRLF) acc;
          acc = emit_if f DMSDP_FLAG_CRYPTO_ABILITY (bytes_of ''CryptoAbility: '' @ dec (dm_crypto_ability m) @ CRLF) acc;
          acc = emit_string f DMSDP_FLAG_CRYPTO_ALG ''CryptoAlg: '' (dm_crypto_alg m) acc;
          acc = emit_if f DMSDP_FLAG_FILLP (bytes_of ''Fillp: '' @ dec (dm_fillp m) @ CRLF) acc;
          acc = emit_if f DMSDP_FLAG_CODEC (bytes_of ''Codec: '' @ dec (dm_codec m) @ CRLF) acc;
          acc = emit_if f DMSDP_FLAG_TCP (bytes_of ''TCP: '' @ dec (dm_tcp m) @ CRLF) acc;
          acc = emit_if f2 DMSDP_FLAG2_BACKUP (bytes_of ''Backup: '' @ dec (dm_backup m) @ CRLF) acc;
          acc = emit_if f2 DMSDP_FLAG2_SIMPLE (bytes_of ''Simple: '' @ dec (dm_simple m) @ CRLF) acc;
          acc = emit_if f2 DMSDP_FLAG2_POLY_PACKAGE (bytes_of ''PolyPackage: '' @ dec (dm_poly_package m) @ CRLF) acc;
          acc = emit_if f DMSDP_FLAG_UDP_KA (bytes_of ''UdpKA: '' @ dec (dm_udp_ka m) @ CRLF) acc;
          acc = emit_if f DMSDP_FLAG_KA_RETRY (bytes_of ''KaRetry: '' @ dec (dm_ka_retry m) @ CRLF) acc;
          acc = emit_transport m acc
      in emit CRLF acc)"

definition dmsdp_build :: "dmsdp_msg option \<Rightarrow> nat \<Rightarrow> bytes option" where
  "dmsdp_build msg cap =
     (case msg of
        None \<Rightarrow> None
      | Some m \<Rightarrow>
          if 8 < dm_type m then None
          else if dm_type m = 8 \<and> dm_status m \<noteq> 200 then None
          else
            (case dmsdp_build_text m of
               None \<Rightarrow> None
             | Some t \<Rightarrow> if cap < length t then None else Some t))"

definition dmsdp_frame :: "bytes option \<Rightarrow> nat \<Rightarrow> bytes option" where
  "dmsdp_frame text cap =
     (case text of
        None \<Rightarrow> None
      | Some t \<Rightarrow>
          if DMSDP_FRAME_MAX_PAYLOAD < length t then None
          else if cap < 3 + length t then None
          else Some ([DMSDP_FRAME_TYPE_NOCRYPTO, of_nat (length t div 256), of_nat (length t mod 256)] @ t))"

section \<open>The messages of a data session\<close>

definition dmsdp_msg_zero :: dmsdp_msg where
  "dmsdp_msg_zero = \<lparr>dm_type = 0, dm_status = 0, dm_flags1 = 0, dm_flags2 = 0, dm_cseq = 0, dm_service_id = None,
     dm_service_type = 0, dm_data_session_id = 0, dm_crypto_ver = 0, dm_crypto_switch = 0, dm_crypto_ability = 0,
     dm_crypto_alg = None, dm_udp_ka = 0, dm_fillp = 0, dm_tcp = 0, dm_codec = 0, dm_ka_retry = 0, dm_backup = 0,
     dm_simple = 0, dm_poly_package = 0, dm_client_port_lo = 0, dm_client_port_hi = 0, dm_server_port_lo = 0,
     dm_server_port_hi = 0\<rparr>"

definition dmsdp_msg_setup :: "u32 \<Rightarrow> cstr option \<Rightarrow> u32 \<Rightarrow> u32 \<Rightarrow> u32 \<Rightarrow> u32 \<Rightarrow> u32 \<Rightarrow> dmsdp_msg" where
  "dmsdp_msg_setup cseq service_id service_type data_session_id backup lo hi =
     dmsdp_msg_zero\<lparr>dm_type := DMSDP_TYPE_SETUP, dm_flags1 := 0x3c01, dm_flags2 := DMSDP_FLAG2_BACKUP, dm_cseq := cseq,
       dm_service_id := service_id, dm_service_type := service_type, dm_data_session_id := data_session_id,
       dm_backup := backup, dm_client_port_lo := lo, dm_client_port_hi := hi\<rparr>"

definition dmsdp_msg_setup_reply ::
  "u32 \<Rightarrow> cstr option \<Rightarrow> u32 \<Rightarrow> u32 \<Rightarrow> u32 \<Rightarrow> u32 \<Rightarrow> u32 \<Rightarrow> u32 \<Rightarrow> dmsdp_msg" where
  "dmsdp_msg_setup_reply cseq service_id service_type data_session_id clo chi slo shi =
     dmsdp_msg_zero\<lparr>dm_type := DMSDP_TYPE_RESPONSE, dm_status := 200, dm_flags1 := 0x5c01, dm_cseq := cseq,
       dm_service_id := service_id, dm_service_type := service_type, dm_data_session_id := data_session_id,
       dm_client_port_lo := clo, dm_client_port_hi := chi, dm_server_port_lo := slo, dm_server_port_hi := shi\<rparr>"

definition dmsdp_msg_play :: "u32 \<Rightarrow> cstr option \<Rightarrow> u32 \<Rightarrow> u32 \<Rightarrow> dmsdp_msg" where
  "dmsdp_msg_play cseq service_id service_type data_session_id =
     dmsdp_msg_zero\<lparr>dm_type := DMSDP_TYPE_PLAY, dm_flags1 := 0x1c01, dm_cseq := cseq, dm_service_id := service_id,
       dm_service_type := service_type, dm_data_session_id := data_session_id\<rparr>"

definition dmsdp_msg_common_reply :: "u32 \<Rightarrow> cstr option \<Rightarrow> u32 \<Rightarrow> u32 \<Rightarrow> dmsdp_msg" where
  "dmsdp_msg_common_reply cseq service_id service_type data_session_id =
     dmsdp_msg_zero\<lparr>dm_type := DMSDP_TYPE_RESPONSE, dm_status := 200, dm_flags1 := 0x1c01, dm_cseq := cseq,
       dm_service_id := service_id, dm_service_type := service_type, dm_data_session_id := data_session_id\<rparr>"

section \<open>The client\<close>

datatype dmsdp_client_state = CL_INIT | CL_WAIT_SETUP_REPLY | CL_SEND_PLAY | CL_WAIT_PLAY_REPLY | CL_READY | CL_ERROR

record dmsdp_client =
  cl_state :: dmsdp_client_state
  cl_pending_cseq :: u32

definition dmsdp_client_new :: dmsdp_client where
  "dmsdp_client_new = \<lparr>cl_state = CL_INIT, cl_pending_cseq = 0\<rparr>"

text \<open>The second half of \<open>dmsdp_client_send\<close>: build and frame.\<close>

definition client_emit :: "dmsdp_client \<Rightarrow> dmsdp_msg \<Rightarrow> nat \<Rightarrow> dmsdp_client \<times> bytes option" where
  "client_emit c m cap =
     (case dmsdp_build (Some m) DMSDP_TEXT_MAX of
        None \<Rightarrow> (c\<lparr>cl_state := CL_ERROR\<rparr>, None)
      | Some t \<Rightarrow>
          (case dmsdp_frame (Some t) cap of
             None \<Rightarrow> (c\<lparr>cl_state := CL_ERROR\<rparr>, None)
           | Some w \<Rightarrow> (c, Some w)))"

definition dmsdp_client_send :: "dmsdp_client \<Rightarrow> dmsdp_msg \<Rightarrow> nat \<Rightarrow> dmsdp_client \<times> bytes option" where
  "dmsdp_client_send c m cap =
     (if cl_state c = CL_INIT then
        if dm_type m \<noteq> DMSDP_TYPE_SETUP \<or> dm_cseq m \<noteq> 0 then (c\<lparr>cl_state := CL_ERROR\<rparr>, None)
        else client_emit (c\<lparr>cl_state := CL_WAIT_SETUP_REPLY, cl_pending_cseq := 0\<rparr>) m cap
      else if cl_state c = CL_SEND_PLAY then
        if dm_type m \<noteq> DMSDP_TYPE_PLAY \<or> dm_cseq m \<noteq> 1 then (c\<lparr>cl_state := CL_ERROR\<rparr>, None)
        else client_emit (c\<lparr>cl_state := CL_WAIT_PLAY_REPLY, cl_pending_cseq := 1\<rparr>) m cap
      else (c, None))"

definition dmsdp_client_recv :: "dmsdp_client \<Rightarrow> dmsdp_parsed \<Rightarrow> dmsdp_client \<times> int" where
  "dmsdp_client_recv c p =
     (if cl_state c = CL_READY then (c, 0)
      else if cl_state c = CL_WAIT_SETUP_REPLY \<or> cl_state c = CL_WAIT_PLAY_REPLY then
        if dp_type p = DMSDP_TYPE_RESPONSE \<and> dp_response_fail p = 0 \<and> dp_cseq p = cl_pending_cseq c then
          (c\<lparr>cl_state := if cl_state c = CL_WAIT_SETUP_REPLY then CL_SEND_PLAY else CL_READY\<rparr>, 0)
        else (c\<lparr>cl_state := CL_ERROR\<rparr>, -1)
      else if cl_state c = CL_ERROR then (c, -1)
      else (c\<lparr>cl_state := CL_ERROR\<rparr>, -1))"

section \<open>Decimal numbers\<close>

lemma digit_byte: "k < 10 \<Longrightarrow> unat (of_nat (0x30 + k) :: byte) = 0x30 + k"
  by (rule unat_of_nat_small) simp

lemma digit_is_digit: "k < 10 \<Longrightarrow> is_digit (of_nat (0x30 + k))"
  unfolding is_digit_def word_le_nat_alt by (simp only: digit_byte) simp

lemma dec_nat_digits: "list_all is_digit (dec_nat n)"
proof (induction n rule: dec_nat.induct)
  case (1 n)
  then show ?case using digit_is_digit [of n] digit_is_digit [of "n mod 10"]
    by (subst dec_nat.simps) (simp del: of_nat_add)
qed

lemma dec_nat_value: "digits_value (dec_nat n) = n"
proof (induction n rule: dec_nat.induct)
  case (1 n)
  have "digits_value (xs @ [c]) = 10 * digits_value xs + (unat c - 0x30)" for xs c
    by (simp add: digits_value_def)
  moreover have "digits_value [c] = unat c - 0x30" for c by (simp add: digits_value_def)
  ultimately show ?case using 1 digit_byte [of n] digit_byte [of "n mod 10"]
    by (subst dec_nat.simps) (simp del: of_nat_add)
qed

lemma dec_nat_not_Nil [simp]: "dec_nat n \<noteq> []"
  by (subst dec_nat.simps) simp

lemma dec_not_Nil [simp]: "dec v \<noteq> []"
  by (simp add: dec_def)

lemma dec_nat_length: "n < 10 ^ Suc k \<Longrightarrow> length (dec_nat n) \<le> Suc k"
proof (induction k arbitrary: n)
  case (Suc k)
  then show ?case using Suc.IH [of "n div 10"] by (subst dec_nat.simps) (auto simp: div_less_iff_less_mult)
qed (subst dec_nat.simps, simp)

lemma dec_length: "length (dec (v :: 'a::len word)) \<le> 10" if "LENGTH('a) \<le> 32"
proof -
  have "unat v < 2 ^ LENGTH('a)" by (rule unsigned_less)
  also have "\<dots> \<le> 2 ^ 32" using that by (intro power_increasing) auto
  finally show ?thesis using dec_nat_length [of "unat v" 9] by (simp add: dec_def)
qed

lemma is_digit_chars: "is_digit c \<Longrightarrow> c \<noteq> 0 \<and> c \<noteq> 13 \<and> c \<noteq> 0x20 \<and> c \<noteq> 0x2b \<and> c \<noteq> 0x2d \<and> c \<noteq> 0x3a \<and> c \<noteq> 0x3b \<and> \<not> is_space c"
  by (auto simp: is_digit_def is_space_def word_le_nat_alt)

lemma dec_chars: "c \<in> set (dec v) \<Longrightarrow> is_digit c"
  using dec_nat_digits by (auto simp: dec_def list_all_iff)

lemma scan_dec:
  assumes "LENGTH('a) \<le> 32" "r = [] \<or> \<not> is_digit (hd r)"
  shows "scan_int (dec (v :: 'a::len word) @ r) = Some (ucast v, r)"
proof -
  obtain c ds where d: "dec v = c # ds" by (cases "dec v") auto
  have c: "is_digit c" using dec_chars [of c v] d by simp
  have t: "takeWhile is_digit (dec v @ r) = dec v"
    using assms(2) dec_chars by (cases r) (auto simp: takeWhile_append)
  have "unat v < 2 ^ LENGTH('a)" by (rule unsigned_less)
  also have "\<dots> \<le> 2 ^ 32" using assms(1) by (intro power_increasing) auto
  finally have u: "unat v < 2 ^ 32" .
  have v: "long_cut (int (digits_value (dec v))) = ucast v"
  proof -
    have "max (- (2 ^ 63)) (min (2 ^ 63 - 1) (int n)) = int n" if "n < 2 ^ 32" for n using that by simp
    from this [OF u] show ?thesis unfolding dec_def dec_nat_value long_cut_def by simp
  qed
  show ?thesis using is_digit_chars [OF c] t v
    by (simp add: scan_int_def Let_def d split: if_splits)
qed

lemma c_string_digits: "c_string (dec v) = dec v" "c_string (SP # dec v) = SP # dec v"
  using is_digit_chars dec_chars by (fastforce intro!: c_string_id simp: SP_def)+

lemma parse_dec:
  assumes "LENGTH('a) \<le> 32"
  shows "dmsdp_parse_integer (SP # dec (v :: 'a::len word)) = Inr (ucast v)"
proof -
  obtain c ds where d: "dec v = c # ds" by (cases "dec v") auto
  have c: "is_digit c" "c \<noteq> SP" "(c - 0x2b) AND 0xfd \<noteq> 0"
  proof -
    show "is_digit c" using dec_chars [of c v] d by simp
    then show "c \<noteq> SP" using is_digit_chars by (auto simp: SP_def)
    have "c = of_nat (unat c)" "0x30 \<le> unat c" "unat c \<le> 0x39"
      using \<open>is_digit c\<close> by (simp_all add: is_digit_def word_le_nat_alt)
    then have "c \<in> {0x30, 0x31, 0x32, 0x33, 0x34, 0x35, 0x36, 0x37, 0x38, 0x39}"
      by (auto simp: word_unat_eq_iff) arith
    then show "(c - 0x2b) AND 0xfd \<noteq> 0" by auto
  qed
  have t: "takeWhile (\<lambda>c. c = SP) (SP # dec v) = [SP]" using c d by simp
  have a: "list_all is_digit (dec v)" by (simp add: dec_def dec_nat_digits)
  have i: "c_atoi (SP # dec v) = ucast v"
    using scan_dec [OF assms, of "[]" v] by (simp add: c_atoi_def scan_int_def SP_def is_space_def)
  show ?thesis using dec_length [OF assms, of v] t a i c d c_string_digits(2) [of v]
    by (simp add: dmsdp_parse_integer_def Let_def)
qed

lemma port_range_dec:
  "dmsdp_parse_port_range (dec (lo :: u32) @ 0x2d # dec (hi :: u32)) = Some (lo, hi)"
proof -
  have "0 \<notin> set (dec lo @ 0x2d # dec hi)" using is_digit_chars dec_chars by fastforce
  then have c: "c_string (dec lo @ 0x2d # dec hi) = dec lo @ 0x2d # dec hi" by (rule c_string_id)
  have "scan_int (dec lo @ 0x2d # dec hi) = Some (lo, 0x2d # dec hi)" "scan_int (dec hi) = Some (hi, [])"
    using scan_dec [of "0x2d # dec hi" lo] scan_dec [of "[]" hi] by (simp_all add: is_digit_def)
  then show ?thesis using dec_length [of lo] dec_length [of hi] by (simp add: dmsdp_parse_port_range_def c)
qed

section \<open>Reading a line that was built\<close>

lemma bytes_of_append [simp]: "bytes_of (s @ t) = bytes_of s @ bytes_of t"
  by (simp add: bytes_of_def)

lemma bytes_of_length [simp]: "length (bytes_of s) = length s"
  by (simp add: bytes_of_def)

lemma bytes_of_take: "take n (bytes_of s) = bytes_of (take n s)"
  by (simp add: bytes_of_def take_map)

lemma bytes_of_Nil [simp]: "bytes_of s = [] \<longleftrightarrow> s = []"
  by (simp add: bytes_of_def)

lemma bytes_of_set: "c \<in> set s \<Longrightarrow> of_char c \<in> set (bytes_of s)"
  by (simp add: bytes_of_def)

lemma bytes_of_mem: "b \<in> set (bytes_of s) \<longleftrightarrow> (\<exists>c \<in> set s. b = of_char c)"
  by (auto simp: bytes_of_def)

lemma char_bytes:
  "(of_char c = (0 :: byte)) = (c = CHR 0x00)" "(of_char c = SP) = (c = CHR '' '')" "(of_char c = (0x3a :: byte)) = (c = CHR '':'')"
  "(of_char c = (0x3b :: byte)) = (c = CHR '';'')" "(of_char c = CR) = (c = CHR 0x0D)" "(of_char c = (0x3d :: byte)) = (c = CHR ''='')"
  using of_char_byte [of c "CHR 0x00"] of_char_byte [of c "CHR '' ''"] of_char_byte [of c "CHR '':''"]
    of_char_byte [of c "CHR '';''"] of_char_byte [of c "CHR 0x0D"] of_char_byte [of c "CHR ''=''"]
  by (simp_all add: SP_def CR_def of_char_def)

text \<open>A name without NULs, blanks and colons, as a key.\<close>

definition plain_name :: "string \<Rightarrow> bool" where
  "plain_name n \<longleftrightarrow> n \<noteq> [] \<and> list_all (\<lambda>c. c \<notin> {CHR 0x00, CHR '' '', CHR '':'', CHR '';'', CHR 0x0D}) n"

fun prefix_index :: "string \<Rightarrow> nat \<Rightarrow> string list \<Rightarrow> nat option" where
  "prefix_index n i [] = None"
| "prefix_index n i (m # ms) = (if n = take (length n) m then Some i else prefix_index n (i + 1) ms)"

lemma keyword_names:
  assumes "plain_name n"
  shows "keyword_from (bytes_of n) i (map bytes_of ms) = prefix_index n i ms"
proof (induction ms arbitrary: i)
  case (Cons m ms)
  have "0 \<notin> set (bytes_of n)" using assms by (auto simp: plain_name_def bytes_of_mem char_bytes list_all_iff eq_commute [of 0])
  then have "strncmp_eq (bytes_of n) (bytes_of m) (length n) = (n = take (length n) m)"
    by (simp add: strncmp_eq_def c_string_id bytes_of_take)
  then show ?case using Cons by simp
qed simp

lemma trim_plain: "plain_name n \<Longrightarrow> trim_spaces (bytes_of n) = bytes_of n"
proof -
  assume p: "plain_name n"
  have *: "dropWhile (\<lambda>c. c = SP) xs = xs" if "SP \<notin> set xs" for xs
    using that by (cases xs) auto
  have "SP \<notin> set (bytes_of n)" using p by (auto simp: plain_name_def bytes_of_mem char_bytes list_all_iff eq_commute [of SP])
  then show ?thesis by (simp add: trim_spaces_def *)
qed

lemma find_colon: "plain_name n \<Longrightarrow> find_byte 0x3a (bytes_of n @ 0x3a # r) = Some (length n)"
proof (induction n)
  case (Cons c n)
  then show ?case by (cases "n = []") (auto simp: plain_name_def bytes_of_def char_bytes)
qed (simp add: plain_name_def)

text \<open>The effect of a line on the structure, given the name's index.\<close>

lemma analyze_named:
  assumes "plain_name n" "dmsdp_get_keyword (bytes_of n) = Some idx" "val \<noteq> []"
  shows "dmsdp_analyze_line (bytes_of n @ 0x3a # val) p =
    (let f1 = dmsdp_flag1 ! idx; f2 = dmsdp_flag2 ! idx;
         p = p\<lparr>dp_flags1 := dp_flags1 p OR f1, dp_flags2 := dp_flags2 p OR f2\<rparr>;
         (rc, p) = (if dmsdp_special ! idx then dmsdp_analyze_string idx (dropWhile (\<lambda>c. c = SP) val) p
                    else dmsdp_analyze_integer idx val p)
     in if rc = -10 then (0, p\<lparr>dp_flags1 := dp_flags1 p AND NOT f1, dp_flags2 := dp_flags2 p AND NOT f2\<rparr>) else (rc, p))"
proof -
  have "n \<noteq> []" using assms(1) by (simp add: plain_name_def)
  then show ?thesis using assms find_colon [OF assms(1)] by (cases val) (simp_all add: dmsdp_analyze_line_def Let_def)
qed

lemma name_index: "plain_name n \<Longrightarrow> dmsdp_get_keyword (bytes_of n) = prefix_index n 0
     [''CSeq'', ''Content-Length'', ''Content-Type'', ''ServiceID'', ''ServiceType'', ''DataSessionID'',
      ''CryptoVer'', ''CryptoSwitch'', ''CryptoAlg'', ''CryptoAbility'', ''UdpKA'', ''UdpKAport'',
      ''Fillp'', ''Codec'', ''TCP'', ''VideoParameter'', ''AudioParameter'', ''GpsParameter'',
      ''VideoMetaParameter'', ''Transport'', ''TimeServerPort'', ''TimeUsHigh'', ''TimeUsLow'', ''DeviceTraceId'',
      ''KaRetry'', ''MultiTrans'', ''Backup'', ''ReplyType'', ''Simple'', ''PolyPackage'']"
proof -
  assume p: "plain_name n"
  then have "bytes_of n \<noteq> []" by (simp add: plain_name_def)
  then show ?thesis
    unfolding dmsdp_get_keyword_def Let_def trim_plain [OF p] dmsdp_names_def keyword_names [OF p] by (rule if_not_P)
qed

lemma names_found:
  "dmsdp_get_keyword (bytes_of ''CSeq'') = Some 0"
  "dmsdp_get_keyword (bytes_of ''ServiceID'') = Some 3"
  "dmsdp_get_keyword (bytes_of ''ServiceType'') = Some 4"
  "dmsdp_get_keyword (bytes_of ''DataSessionID'') = Some 5"
  "dmsdp_get_keyword (bytes_of ''CryptoVer'') = Some 6"
  "dmsdp_get_keyword (bytes_of ''CryptoSwitch'') = Some 7"
  "dmsdp_get_keyword (bytes_of ''CryptoAlg'') = Some 8"
  "dmsdp_get_keyword (bytes_of ''CryptoAbility'') = Some 9"
  "dmsdp_get_keyword (bytes_of ''UdpKA'') = Some 10"
  "dmsdp_get_keyword (bytes_of ''Fillp'') = Some 12"
  "dmsdp_get_keyword (bytes_of ''Codec'') = Some 13"
  "dmsdp_get_keyword (bytes_of ''TCP'') = Some 14"
  "dmsdp_get_keyword (bytes_of ''Transport'') = Some 19"
  "dmsdp_get_keyword (bytes_of ''KaRetry'') = Some 24"
  "dmsdp_get_keyword (bytes_of ''Backup'') = Some 26"
  "dmsdp_get_keyword (bytes_of ''Simple'') = Some 28"
  "dmsdp_get_keyword (bytes_of ''PolyPackage'') = Some 29"
  by (simp_all add: name_index plain_name_def)

lemma name_split: "bytes_of (n @ '': '') @ v = bytes_of n @ 0x3a # SP # v"
  by (simp add: bytes_of_def of_char_def SP_def)

definition set_flags :: "u32 \<Rightarrow> u32 \<Rightarrow> dmsdp_parsed \<Rightarrow> dmsdp_parsed" where
  "set_flags a b p = p\<lparr>dp_flags1 := dp_flags1 p OR a, dp_flags2 := dp_flags2 p OR b\<rparr>"

lemma int_line:
  assumes "plain_name n" "dmsdp_get_keyword (bytes_of n) = Some idx" "\<not> dmsdp_special ! idx"
  shows "dmsdp_analyze_line (bytes_of (n @ '': '') @ dec (v :: 'a::len word)) p =
    (let f1 = dmsdp_flag1 ! idx; f2 = dmsdp_flag2 ! idx;
         (rc, p) = dmsdp_analyze_integer idx (SP # dec v) (set_flags f1 f2 p)
     in if rc = -10 then (0, p\<lparr>dp_flags1 := dp_flags1 p AND NOT f1, dp_flags2 := dp_flags2 p AND NOT f2\<rparr>) else (rc, p))"
  unfolding name_split analyze_named [OF assms(1,2) list.discI [OF refl]]
  using assms(3) by (simp add: set_flags_def Let_def)

lemmas line_eval = names_found plain_name_def dmsdp_flag1_def dmsdp_flag2_def dmsdp_special_def Let_def
  dmsdp_analyze_integer_def store_int_def parse_dec

lemma built_int_lines:
  "dmsdp_analyze_line (bytes_of ''CSeq: '' @ dec (v :: u32)) p = (0, (set_flags 1 0 p)\<lparr>dp_cseq := v\<rparr>)"
  "dmsdp_analyze_line (bytes_of ''ServiceType: '' @ dec v) p = (0, (set_flags 0x800 0 p)\<lparr>dp_service_type := v\<rparr>)"
  "dmsdp_analyze_line (bytes_of ''DataSessionID: '' @ dec v) p = (0, (set_flags 0x1000 0 p)\<lparr>dp_data_session_id := v\<rparr>)"
  "dmsdp_analyze_line (bytes_of ''Codec: '' @ dec v) p =
     (0, (set_flags 0x100 0 p)\<lparr>dp_flags1 := (dp_flags1 p OR 0x100) AND NOT 0x100, dp_flags2 := dp_flags2 p\<rparr>)"
  "dmsdp_analyze_line (bytes_of ''KaRetry: '' @ dec v) p =
     (0, (set_flags 0x400000 0 p)\<lparr>dp_flags1 := (dp_flags1 p OR 0x400000) AND NOT 0x400000, dp_flags2 := dp_flags2 p\<rparr>)"
  "dmsdp_analyze_line (bytes_of ''Backup: '' @ dec v) p = (0, (set_flags 0 2 p)\<lparr>dp_backup := ucast v\<rparr>)"
  "dmsdp_analyze_line (bytes_of ''Simple: '' @ dec v) p = (0, (set_flags 0 8 p)\<lparr>dp_simple := ucast v\<rparr>)"
  "dmsdp_analyze_line (bytes_of ''PolyPackage: '' @ dec v) p = (0, (set_flags 0 0x10 p)\<lparr>dp_poly_package := ucast v\<rparr>)"
  using int_line [of "''CSeq''" 0 v p] int_line [of "''ServiceType''" 4 v p] int_line [of "''DataSessionID''" 5 v p]
    int_line [of "''Codec''" 13 v p] int_line [of "''KaRetry''" 24 v p] int_line [of "''Backup''" 26 v p]
    int_line [of "''Simple''" 28 v p] int_line [of "''PolyPackage''" 29 v p]
  by (simp_all add: line_eval set_flags_def)

lemma ucast_byte [simp]: "ucast (ucast (b :: byte) :: u32) = b"
  by (rule bit_word_eqI) (simp add: bit_simps)

lemma built_byte_lines:
  "dmsdp_analyze_line (bytes_of ''CryptoVer: '' @ dec (v :: byte)) p = (0, (set_flags 2 0 p)\<lparr>dp_crypto_ver := v\<rparr>)"
  "dmsdp_analyze_line (bytes_of ''CryptoSwitch: '' @ dec v) p = (0, (set_flags 4 0 p)\<lparr>dp_crypto_switch := v\<rparr>)"
  "dmsdp_analyze_line (bytes_of ''CryptoAbility: '' @ dec v) p = (0, (set_flags 0x10 0 p)\<lparr>dp_crypto_ability := v\<rparr>)"
  "dmsdp_analyze_line (bytes_of ''Fillp: '' @ dec v) p = (0, (set_flags 0x80 0 p)\<lparr>dp_fillp := v\<rparr>)"
  "dmsdp_analyze_line (bytes_of ''TCP: '' @ dec v) p = (0, (set_flags 0x200 0 p)\<lparr>dp_tcp := v\<rparr>)"
  "dmsdp_analyze_line (bytes_of ''UdpKA: '' @ dec v) p = (0, (set_flags 0x20 0 p)\<lparr>dp_udp_ka := v\<rparr>)"
  using int_line [of "''CryptoVer''" 6 v p] int_line [of "''CryptoSwitch''" 7 v p] int_line [of "''CryptoAbility''" 9 v p]
    int_line [of "''Fillp''" 12 v p] int_line [of "''TCP''" 14 v p] int_line [of "''UdpKA''" 10 v p]
  by (simp_all add: line_eval)

text \<open>A string that survives the trip: no NUL, no line break, no blank at its front.\<close>

definition text_value :: "cstr \<Rightarrow> bool" where
  "text_value s \<longleftrightarrow> 0 \<notin> set s \<and> find_crlf s = None \<and> (s = [] \<or> hd s \<noteq> SP)"

lemma string_line:
  assumes "plain_name n" "dmsdp_get_keyword (bytes_of n) = Some idx" "dmsdp_special ! idx" "s = [] \<or> hd s \<noteq> SP"
  shows "dmsdp_analyze_line (bytes_of (n @ '': '') @ s) p =
    (let f1 = dmsdp_flag1 ! idx; f2 = dmsdp_flag2 ! idx;
         (rc, p) = dmsdp_analyze_string idx s (set_flags f1 f2 p)
     in if rc = -10 then (0, p\<lparr>dp_flags1 := dp_flags1 p AND NOT f1, dp_flags2 := dp_flags2 p AND NOT f2\<rparr>) else (rc, p))"
proof -
  have "dropWhile (\<lambda>c. c = SP) (SP # s) = s" using assms(4) by (cases s) auto
  then show ?thesis
    unfolding name_split analyze_named [OF assms(1,2) list.discI [OF refl]]
    using assms(3) by (simp add: set_flags_def Let_def)
qed

lemma built_string_lines:
  assumes "text_value s"
  shows "dmsdp_analyze_line (bytes_of ''ServiceID: '' @ s) p = (0, (set_flags 0x400 0 p)\<lparr>dp_service_id := Some s\<rparr>)"
    "dmsdp_analyze_line (bytes_of ''CryptoAlg: '' @ s) p = (0, (set_flags 8 0 p)\<lparr>dp_crypto_alg := Some s\<rparr>)"
  using string_line [of "''ServiceID''" 3 s p] string_line [of "''CryptoAlg''" 8 s p] assms
  by (simp_all add: line_eval text_value_def dmsdp_analyze_string_def c_string_id)

section \<open>Reading the transport\<close>

lemma seg_take: "0x3b \<notin> set s \<Longrightarrow> takeWhile (\<lambda>c. c \<noteq> 0x3b) (s @ 0x3b # r) = s" "0x3b \<notin> set s \<Longrightarrow> takeWhile (\<lambda>c. c \<noteq> 0x3b) s = s"
  by (auto simp: takeWhile_append takeWhile_eq_all_conv)

lemma attr_skip:
  assumes "0x3b \<notin> set s" "length s < 12 \<or> s ! 11 \<noteq> 0x3d \<or> \<not> strncmp_eq s name 11"
  shows "dmsdp_parse_transport_attr (s @ 0x3b # r) name = dmsdp_parse_transport_attr r name"
proof -
  have "12 \<le> length s \<Longrightarrow> strncmp_eq (s @ 0x3b # r) name 11 = strncmp_eq s name 11" by (simp add: strncmp_eq_def)
  then show ?thesis using assms by (subst dmsdp_parse_transport_attr.simps) (auto simp: Let_def seg_take nth_append)
qed

lemma attr_end:
  assumes "0x3b \<notin> set s" "length s < 12 \<or> s ! 11 \<noteq> 0x3d \<or> \<not> strncmp_eq s name 11"
  shows "dmsdp_parse_transport_attr s name = NoAttr"
  using assms by (subst dmsdp_parse_transport_attr.simps) (auto simp: Let_def seg_take)

lemma attr_found:
  assumes "length name = 11" "0 \<notin> set name" "0x3b \<notin> set name" "r = [] \<or> hd r = 0x3b"
  shows "dmsdp_parse_transport_attr (name @ 0x3d # dec (lo :: u32) @ 0x2d # dec (hi :: u32) @ r) name = Range lo hi"
proof -
  let ?s = "name @ 0x3d # dec lo @ 0x2d # dec hi"
  have "0x3b \<notin> set (dec lo)" "0x3b \<notin> set (dec hi)" using is_digit_chars dec_chars by blast+
  then have n: "0x3b \<notin> set ?s" using assms(3) by simp
  then have "takeWhile (\<lambda>c. c \<noteq> 0x3b) (?s @ r) = ?s"
    using assms(4) by (cases r) (auto simp: takeWhile_append takeWhile_eq_all_conv)
  moreover have "strncmp_eq (?s @ r) name 11" "(?s @ r) ! 11 = 0x3d"
    using assms by (simp_all add: strncmp_eq_def c_string_id nth_append)
  moreover have "take (length ?s - 12) (drop 12 (?s @ r)) = dec lo @ 0x2d # dec hi" using assms(1) by simp
  ultimately show ?thesis using assms(1) port_range_dec [of lo hi]
    by (subst dmsdp_parse_transport_attr.simps) (simp add: Let_def)
qed

text \<open>The value of a transport line, segment by segment.\<close>

lemma transport_value:
  "bytes_of ''RTP/AVP/UDP;unicast;client_port='' @ v =
   bytes_of ''RTP/AVP/UDP'' @ 0x3b # bytes_of ''unicast'' @ 0x3b # bytes_of ''client_port'' @ 0x3d # v"
  "bytes_of '';server_port='' @ w = 0x3b # bytes_of ''server_port'' @ 0x3d # w"
  by (simp_all add: bytes_of_def of_char_def)

lemma transport_names:
  "0 \<notin> set (bytes_of ''client_port'')" "0x3b \<notin> set (bytes_of ''client_port'')"
  "0 \<notin> set (bytes_of ''server_port'')" "0x3b \<notin> set (bytes_of ''server_port'')"
  "0x3b \<notin> set (bytes_of ''RTP/AVP/UDP'')" "0x3b \<notin> set (bytes_of ''unicast'')"
  by (simp_all add: bytes_of_mem char_bytes eq_commute [of 0] eq_commute [of "0x3b"])

lemma built_transport:
  assumes "r = [] \<or> r = bytes_of '';server_port='' @ dec (slo :: u32) @ 0x2d # dec (shi :: u32)"
  shows "dmsdp_parse_transport (bytes_of ''RTP/AVP/UDP;unicast;client_port='' @ dec (clo :: u32) @ 0x2d # dec (chi :: u32) @ r) p =
    (0, if r = [] then p\<lparr>dp_client_port_lo := clo, dp_client_port_hi := chi\<rparr>
        else p\<lparr>dp_client_port_lo := clo, dp_client_port_hi := chi, dp_server_port_lo := slo, dp_server_port_hi := shi\<rparr>)"
proof -
  let ?c = "bytes_of ''client_port'' @ 0x3d # dec clo @ 0x2d # dec chi"
  let ?v = "bytes_of ''RTP/AVP/UDP;unicast;client_port='' @ dec clo @ 0x2d # dec chi @ r"
  have v: "?v = bytes_of ''RTP/AVP/UDP'' @ 0x3b # bytes_of ''unicast'' @ 0x3b # ?c @ r"
    using transport_value(1) [of "dec clo @ 0x2d # dec chi @ r"] by simp
  have skip: "dmsdp_parse_transport_attr ?v name = dmsdp_parse_transport_attr (?c @ r) name" for name
  proof -
    have "dmsdp_parse_transport_attr (bytes_of ''RTP/AVP/UDP'' @ 0x3b # x) name = dmsdp_parse_transport_attr x name"
      "dmsdp_parse_transport_attr (bytes_of ''unicast'' @ 0x3b # x) name = dmsdp_parse_transport_attr x name" for x
      by (rule attr_skip; simp add: transport_names)+
    then show ?thesis unfolding v by (simp only:)
  qed
  have client: "dmsdp_parse_transport_attr (?c @ r) (bytes_of ''client_port'') = Range clo chi"
    using attr_found [of "bytes_of ''client_port''" r clo chi] assms transport_names
    by (auto simp: transport_value(2))
  have n: "\<not> strncmp_eq ?c (bytes_of ''server_port'') 11"
    using transport_names by (simp add: strncmp_eq_def c_string_id)
  have d: "0x3b \<notin> set ?c" using is_digit_chars dec_chars transport_names by auto
  have server: "dmsdp_parse_transport_attr (?c @ r) (bytes_of ''server_port'') = (if r = [] then NoAttr else Range slo shi)"
    using assms attr_end [OF d, of "bytes_of ''server_port''"] n attr_skip [OF d, of "bytes_of ''server_port''"]
      attr_found [of "bytes_of ''server_port''" "[]" slo shi] transport_names
    by (auto simp: transport_value(2))
  have "strncmp_eq ?v (bytes_of ''RTP/AVP/UDP;unicast;'') 20"
  proof -
    have "take 20 ?v = bytes_of ''RTP/AVP/UDP;unicast;''" by (simp add: bytes_of_take)
    moreover have "0 \<notin> set (bytes_of ''RTP/AVP/UDP;unicast;'')" by (simp add: bytes_of_mem char_bytes eq_commute [of 0])
    ultimately show ?thesis by (simp add: strncmp_eq_def c_string_id)
  qed
  then show ?thesis unfolding dmsdp_parse_transport_def skip client server by simp
qed

section \<open>Reading a text that was built\<close>

lemma find_crlf_line: "find_crlf l = None \<Longrightarrow> find_crlf (l @ CRLF @ r) = Some (length l)"
proof (induction l rule: find_crlf.induct)
  case (1 a b l)
  then show ?case by (cases l) (auto split: if_splits)
qed (auto simp: CRLF_def CR_def LF_def)

lemma find_crlf_plain: "CR \<notin> set xs \<Longrightarrow> find_crlf (xs @ s) = None \<longleftrightarrow> find_crlf s = None"
proof (induction xs)
  case (Cons a xs)
  then show ?case by (cases "xs @ s") auto
qed simp

definition line_ok :: "bytes \<Rightarrow> bool" where
  "line_ok l \<longleftrightarrow> l \<noteq> [] \<and> find_crlf l = None \<and> (\<forall>p. fst (dmsdp_analyze_line l p) = 0)"

definition read_line :: "bytes \<Rightarrow> dmsdp_parsed \<Rightarrow> dmsdp_parsed" where
  "read_line l p = snd (dmsdp_analyze_line l p)"

definition text_lines :: "bytes list \<Rightarrow> bytes" where
  "text_lines ls = concat (map (\<lambda>l. l @ CRLF) ls)"

lemma headers_lines:
  assumes "\<forall>l \<in> set ls. line_ok l"
  shows "dmsdp_headers (text_lines ls @ CRLF @ body) p = (0, fold read_line ls p, body)"
  using assms
proof (induction ls arbitrary: p)
  case Nil
  show ?case by (subst dmsdp_headers.simps) (simp add: text_lines_def CRLF_def CR_def LF_def)
next
  case (Cons l ls)
  have l: "l \<noteq> []" "find_crlf (l @ CRLF @ text_lines ls @ CRLF @ body) = Some (length l)"
    "dmsdp_analyze_line l p = (0, read_line l p)"
    using Cons.prems find_crlf_line by (auto simp: line_ok_def read_line_def prod_eq_iff)
  have t: "text_lines (l # ls) @ CRLF @ body = l @ CRLF @ text_lines ls @ CRLF @ body" by (simp add: text_lines_def)
  have d: "drop (length l + 2) (l @ CRLF @ text_lines ls @ CRLF @ body) = text_lines ls @ CRLF @ body"
    by (simp add: CRLF_def)
  have "dmsdp_headers (l @ CRLF @ text_lines ls @ CRLF @ body) p = dmsdp_headers (text_lines ls @ CRLF @ body) (read_line l p)"
    using l(1,3) by (subst dmsdp_headers.simps) (simp only: l(2) d option.case, simp)
  then show ?case using Cons.IH [of "read_line l p"] Cons.prems t by simp
qed

section \<open>The round trip\<close>

text \<open>The header lines of a message, in the order of the builder.\<close>

definition line_if :: "u32 \<Rightarrow> u32 \<Rightarrow> bytes \<Rightarrow> bytes list" where
  "line_if f flag l = (if f AND flag \<noteq> 0 then [l] else [])"

definition server_ports :: "dmsdp_msg \<Rightarrow> bytes" where
  "server_ports m = (if dm_flags1 m AND DMSDP_FLAG_TRANSPORT_COMBINED = 0 then []
     else bytes_of '';server_port='' @ dec (dm_server_port_lo m) @ 0x2d # dec (dm_server_port_hi m))"

definition dmsdp_lines :: "dmsdp_msg \<Rightarrow> bytes list" where
  "dmsdp_lines m =
     (let f = dm_flags1 m; f2 = dm_flags2 m in
      line_if f DMSDP_FLAG_CSEQ (bytes_of ''CSeq: '' @ dec (dm_cseq m)) @
      line_if f DMSDP_FLAG_SERVICE_ID (bytes_of ''ServiceID: '' @ the (dm_service_id m)) @
      line_if f DMSDP_FLAG_SERVICE_TYPE (bytes_of ''ServiceType: '' @ dec (dm_service_type m)) @
      line_if f DMSDP_FLAG_DATA_SESSION_ID (bytes_of ''DataSessionID: '' @ dec (dm_data_session_id m)) @
      line_if f DMSDP_FLAG_CRYPTO_VER (bytes_of ''CryptoVer: '' @ dec (dm_crypto_ver m)) @
      line_if f DMSDP_FLAG_CRYPTO_SWITCH (bytes_of ''CryptoSwitch: '' @ dec (dm_crypto_switch m)) @
      line_if f DMSDP_FLAG_CRYPTO_ABILITY (bytes_of ''CryptoAbility: '' @ dec (dm_crypto_ability m)) @
      line_if f DMSDP_FLAG_CRYPTO_ALG (bytes_of ''CryptoAlg: '' @ the (dm_crypto_alg m)) @
      line_if f DMSDP_FLAG_FILLP (bytes_of ''Fillp: '' @ dec (dm_fillp m)) @
      line_if f DMSDP_FLAG_CODEC (bytes_of ''Codec: '' @ dec (dm_codec m)) @
      line_if f DMSDP_FLAG_TCP (bytes_of ''TCP: '' @ dec (dm_tcp m)) @
      line_if f2 DMSDP_FLAG2_BACKUP (bytes_of ''Backup: '' @ dec (dm_backup m)) @
      line_if f2 DMSDP_FLAG2_SIMPLE (bytes_of ''Simple: '' @ dec (dm_simple m)) @
      line_if f2 DMSDP_FLAG2_POLY_PACKAGE (bytes_of ''PolyPackage: '' @ dec (dm_poly_package m)) @
      line_if f DMSDP_FLAG_UDP_KA (bytes_of ''UdpKA: '' @ dec (dm_udp_ka m)) @
      line_if f DMSDP_FLAG_KA_RETRY (bytes_of ''KaRetry: '' @ dec (dm_ka_retry m)) @
      line_if f (DMSDP_FLAG_TRANSPORT_COMBINED OR DMSDP_FLAG_TRANSPORT_CLIENT) (dmsdp_transport m @ server_ports m))"

definition start_text :: "dmsdp_msg \<Rightarrow> bytes" where
  "start_text m = (if dm_type m = 8 then bytes_of ''DMSDP/1.0 200 OK'' else dmsdp_method_lines ! unat (dm_type m))"

lemma emitE:
  assumes "emit s acc = Some t" obtains u where "acc = Some u" "t = u @ s" "length t < DMSDP_TEXT_MAX"
  using assms by (auto simp: emit_def split: option.splits if_splits)

lemma emit_ifE:
  assumes "emit_if f flag (n @ l @ CRLF) acc = Some t"
  obtains u where "acc = Some u" "t = u @ text_lines (line_if f flag (n @ l))"
  using assms by (auto simp: emit_if_def line_if_def text_lines_def elim: emitE split: if_splits)

lemma emit_stringE:
  assumes "emit_string f flag n v acc = Some t"
  obtains u where "acc = Some u" "t = u @ text_lines (line_if f flag (bytes_of n @ the v))" "f AND flag \<noteq> 0 \<longrightarrow> v \<noteq> None"
  using assms by (auto simp: emit_string_def line_if_def text_lines_def elim: emitE split: if_splits option.splits)

lemma emit_transportE:
  assumes "emit_transport m acc = Some t"
  obtains u where "acc = Some u" "t = u @ text_lines (line_if (dm_flags1 m)
      (DMSDP_FLAG_TRANSPORT_COMBINED OR DMSDP_FLAG_TRANSPORT_CLIENT) (dmsdp_transport m @ server_ports m))"
  using assms
  by (auto simp: emit_transport_def line_if_def text_lines_def server_ports_def bit.conj_disj_distrib or_eq_0_iff
      elim: emitE split: if_splits)

lemma build_lines:
  assumes "dmsdp_build_text m = Some t"
  shows "t = start_text m @ CRLF @ text_lines (dmsdp_lines m) @ CRLF"
    "dm_flags1 m AND DMSDP_FLAG_SERVICE_ID \<noteq> 0 \<longrightarrow> dm_service_id m \<noteq> None"
    "dm_flags1 m AND DMSDP_FLAG_CRYPTO_ALG \<noteq> 0 \<longrightarrow> dm_crypto_alg m \<noteq> None" "length t < DMSDP_TEXT_MAX"
proof -
  have a: "text_lines (xs @ ys) = text_lines xs @ text_lines ys" for xs ys by (simp add: text_lines_def)
  have s: "(if dm_type m = 8 then bytes_of ''DMSDP/1.0 200 OK'' @ CRLF else dmsdp_method_lines ! unat (dm_type m) @ CRLF) =
      start_text m @ CRLF" by (simp add: start_text_def)
  have "t = start_text m @ CRLF @ text_lines (dmsdp_lines m) @ CRLF \<and>
    (dm_flags1 m AND DMSDP_FLAG_SERVICE_ID \<noteq> 0 \<longrightarrow> dm_service_id m \<noteq> None) \<and>
    (dm_flags1 m AND DMSDP_FLAG_CRYPTO_ALG \<noteq> 0 \<longrightarrow> dm_crypto_alg m \<noteq> None) \<and> length t < DMSDP_TEXT_MAX"
    using assms unfolding dmsdp_build_text_def Let_def s
    apply -
    apply (erule emitE)
    apply (erule emit_transportE)
    apply (elim emit_ifE emit_stringE emitE)
    apply (simp add: dmsdp_lines_def Let_def a)
    done
  then show "t = start_text m @ CRLF @ text_lines (dmsdp_lines m) @ CRLF"
    "dm_flags1 m AND DMSDP_FLAG_SERVICE_ID \<noteq> 0 \<longrightarrow> dm_service_id m \<noteq> None"
    "dm_flags1 m AND DMSDP_FLAG_CRYPTO_ALG \<noteq> 0 \<longrightarrow> dm_crypto_alg m \<noteq> None" "length t < DMSDP_TEXT_MAX" by blast+
qed

text \<open>What the parser is to find in a message.\<close>

definition dmsdp_expected :: "dmsdp_msg \<Rightarrow> dmsdp_parsed" where
  "dmsdp_expected m =
     (let f = dm_flags1 m; f2 = dm_flags2 m; has = (\<lambda>flag. f AND flag \<noteq> 0); has2 = (\<lambda>flag. f2 AND flag \<noteq> 0);
          ports = has (DMSDP_FLAG_TRANSPORT_COMBINED OR DMSDP_FLAG_TRANSPORT_CLIENT)
      in dmsdp_parsed_init\<lparr>dp_type := dm_type m,
           dp_flags1 := (f AND 0x1ebf) OR (if ports then 0x80000 else 0), dp_flags2 := f2 AND 0x1a,
           dp_cseq := (if has DMSDP_FLAG_CSEQ then dm_cseq m else 0),
           dp_service_id := (if has DMSDP_FLAG_SERVICE_ID then dm_service_id m else None),
           dp_service_type := (if has DMSDP_FLAG_SERVICE_TYPE then dm_service_type m else 0),
           dp_data_session_id := (if has DMSDP_FLAG_DATA_SESSION_ID then dm_data_session_id m else 0),
           dp_crypto_ver := (if has DMSDP_FLAG_CRYPTO_VER then dm_crypto_ver m else 0),
           dp_crypto_switch := (if has DMSDP_FLAG_CRYPTO_SWITCH then dm_crypto_switch m else 0),
           dp_crypto_ability := (if has DMSDP_FLAG_CRYPTO_ABILITY then dm_crypto_ability m else 0),
           dp_crypto_alg := (if has DMSDP_FLAG_CRYPTO_ALG then dm_crypto_alg m else None),
           dp_fillp := (if has DMSDP_FLAG_FILLP then dm_fillp m else 0),
           dp_tcp := (if has DMSDP_FLAG_TCP then dm_tcp m else 0),
           dp_backup := (if has2 DMSDP_FLAG2_BACKUP then ucast (dm_backup m) else 0),
           dp_simple := (if has2 DMSDP_FLAG2_SIMPLE then ucast (dm_simple m) else 0),
           dp_poly_package := (if has2 DMSDP_FLAG2_POLY_PACKAGE then ucast (dm_poly_package m) else 0),
           dp_udp_ka := (if has DMSDP_FLAG_UDP_KA then dm_udp_ka m else 0),
           dp_client_port_lo := (if ports then dm_client_port_lo m else 0),
           dp_client_port_hi := (if ports then dm_client_port_hi m else 0),
           dp_server_port_lo := (if has DMSDP_FLAG_TRANSPORT_COMBINED then dm_server_port_lo m else 0),
           dp_server_port_hi := (if has DMSDP_FLAG_TRANSPORT_COMBINED then dm_server_port_hi m else 0)\<rparr>)"

lemmas dmsdp_flags = DMSDP_FLAG_CSEQ_def DMSDP_FLAG_CRYPTO_VER_def DMSDP_FLAG_CRYPTO_SWITCH_def DMSDP_FLAG_CRYPTO_ALG_def
  DMSDP_FLAG_CRYPTO_ABILITY_def DMSDP_FLAG_UDP_KA_def DMSDP_FLAG_FILLP_def DMSDP_FLAG_CODEC_def DMSDP_FLAG_TCP_def
  DMSDP_FLAG_SERVICE_ID_def DMSDP_FLAG_SERVICE_TYPE_def DMSDP_FLAG_DATA_SESSION_ID_def DMSDP_FLAG_TRANSPORT_CLIENT_def
  DMSDP_FLAG_TRANSPORT_COMBINED_def DMSDP_FLAG_KA_RETRY_def DMSDP_FLAG2_BACKUP_def DMSDP_FLAG2_SIMPLE_def
  DMSDP_FLAG2_POLY_PACKAGE_def

lemma single_bit: "(f :: u32) AND push_bit k 1 = 0 \<or> f AND push_bit k 1 = push_bit k 1"
proof (cases "f AND push_bit k 1 = 0")
  case False
  then obtain n where "bit (f AND push_bit k 1) n" by (auto simp: bit_eq_iff)
  then have "bit f k" "k < 32" by (auto simp: bit_simps)
  then have "f AND push_bit k 1 = push_bit k 1" by (intro bit_word_eqI) (auto simp: bit_simps)
  then show ?thesis by simp
qed simp

lemma single_bits:
  fixes f :: u32
  shows "f AND 1 = 0 \<or> f AND 1 = 1" "f AND 2 = 0 \<or> f AND 2 = 2" "f AND 4 = 0 \<or> f AND 4 = 4"
    "f AND 8 = 0 \<or> f AND 8 = 8" "f AND 0x10 = 0 \<or> f AND 0x10 = 0x10" "f AND 0x20 = 0 \<or> f AND 0x20 = 0x20"
    "f AND 0x80 = 0 \<or> f AND 0x80 = 0x80" "f AND 0x200 = 0 \<or> f AND 0x200 = 0x200"
    "f AND 0x400 = 0 \<or> f AND 0x400 = 0x400" "f AND 0x800 = 0 \<or> f AND 0x800 = 0x800"
    "f AND 0x1000 = 0 \<or> f AND 0x1000 = 0x1000"
  using single_bit [of f 0] single_bit [of f 1] single_bit [of f 2] single_bit [of f 3] single_bit [of f 4]
    single_bit [of f 5] single_bit [of f 7] single_bit [of f 9] single_bit [of f 10] single_bit [of f 11] single_bit [of f 12]
  by (simp_all add: push_bit_eq_mult)

lemma set_flags_none: "set_flags 0 0 p = p"
  by (cases p) (simp add: set_flags_def)

lemma fold_line: "fold read_line (line_if f flag l) p = (if f AND flag \<noteq> 0 then read_line l p else p)"
  by (simp add: line_if_def)

lemma same_fields:
  "p\<lparr>dp_cseq := dp_cseq p\<rparr> = p" "p\<lparr>dp_service_id := dp_service_id p\<rparr> = p" "p\<lparr>dp_service_type := dp_service_type p\<rparr> = p"
  "p\<lparr>dp_data_session_id := dp_data_session_id p\<rparr> = p" "p\<lparr>dp_crypto_ver := dp_crypto_ver p\<rparr> = p"
  "p\<lparr>dp_crypto_switch := dp_crypto_switch p\<rparr> = p" "p\<lparr>dp_crypto_ability := dp_crypto_ability p\<rparr> = p"
  "p\<lparr>dp_crypto_alg := dp_crypto_alg p\<rparr> = p" "p\<lparr>dp_fillp := dp_fillp p\<rparr> = p" "p\<lparr>dp_tcp := dp_tcp p\<rparr> = p"
  "p\<lparr>dp_backup := dp_backup p\<rparr> = p" "p\<lparr>dp_simple := dp_simple p\<rparr> = p" "p\<lparr>dp_poly_package := dp_poly_package p\<rparr> = p"
  "p\<lparr>dp_udp_ka := dp_udp_ka p\<rparr> = p"
  by (cases p; simp)+

text \<open>Every header line as one update, whether it is there or not.\<close>

lemma read_step:
  assumes "\<And>q. dmsdp_analyze_line l q = (0, upd v (set_flags flag 0 q))" "f AND flag = 0 \<or> f AND flag = flag" "upd (get p) p = p"
  shows "fold read_line (line_if f flag l) p = upd (if f AND flag \<noteq> 0 then v else get p) (set_flags (f AND flag) 0 p)"
  using assms by (cases "f AND flag = 0") (simp_all add: fold_line read_line_def set_flags_none)

lemma read_step2:
  assumes "\<And>q. dmsdp_analyze_line l q = (0, upd v (set_flags 0 flag q))" "f AND flag = 0 \<or> f AND flag = flag" "upd (get p) p = p"
  shows "fold read_line (line_if f flag l) p = upd (if f AND flag \<noteq> 0 then v else get p) (set_flags 0 (f AND flag) p)"
  using assms by (cases "f AND flag = 0") (simp_all add: fold_line read_line_def set_flags_none)

lemma read_steps:
  fixes f :: u32
  shows
  "fold read_line (line_if f DMSDP_FLAG_CSEQ (bytes_of ''CSeq: '' @ dec (v :: u32))) p =
     (set_flags (f AND 1) 0 p)\<lparr>dp_cseq := if f AND 1 \<noteq> 0 then v else dp_cseq p\<rparr>"
  "fold read_line (line_if f DMSDP_FLAG_SERVICE_TYPE (bytes_of ''ServiceType: '' @ dec (v :: u32))) p =
     (set_flags (f AND 0x800) 0 p)\<lparr>dp_service_type := if f AND 0x800 \<noteq> 0 then v else dp_service_type p\<rparr>"
  "fold read_line (line_if f DMSDP_FLAG_DATA_SESSION_ID (bytes_of ''DataSessionID: '' @ dec (v :: u32))) p =
     (set_flags (f AND 0x1000) 0 p)\<lparr>dp_data_session_id := if f AND 0x1000 \<noteq> 0 then v else dp_data_session_id p\<rparr>"
  "fold read_line (line_if f DMSDP_FLAG_CRYPTO_VER (bytes_of ''CryptoVer: '' @ dec (b :: byte))) p =
     (set_flags (f AND 2) 0 p)\<lparr>dp_crypto_ver := if f AND 2 \<noteq> 0 then b else dp_crypto_ver p\<rparr>"
  "fold read_line (line_if f DMSDP_FLAG_CRYPTO_SWITCH (bytes_of ''CryptoSwitch: '' @ dec (b :: byte))) p =
     (set_flags (f AND 4) 0 p)\<lparr>dp_crypto_switch := if f AND 4 \<noteq> 0 then b else dp_crypto_switch p\<rparr>"
  "fold read_line (line_if f DMSDP_FLAG_CRYPTO_ABILITY (bytes_of ''CryptoAbility: '' @ dec (b :: byte))) p =
     (set_flags (f AND 0x10) 0 p)\<lparr>dp_crypto_ability := if f AND 0x10 \<noteq> 0 then b else dp_crypto_ability p\<rparr>"
  "fold read_line (line_if f DMSDP_FLAG_FILLP (bytes_of ''Fillp: '' @ dec (b :: byte))) p =
     (set_flags (f AND 0x80) 0 p)\<lparr>dp_fillp := if f AND 0x80 \<noteq> 0 then b else dp_fillp p\<rparr>"
  "fold read_line (line_if f DMSDP_FLAG_TCP (bytes_of ''TCP: '' @ dec (b :: byte))) p =
     (set_flags (f AND 0x200) 0 p)\<lparr>dp_tcp := if f AND 0x200 \<noteq> 0 then b else dp_tcp p\<rparr>"
  "fold read_line (line_if f DMSDP_FLAG_UDP_KA (bytes_of ''UdpKA: '' @ dec (b :: byte))) p =
     (set_flags (f AND 0x20) 0 p)\<lparr>dp_udp_ka := if f AND 0x20 \<noteq> 0 then b else dp_udp_ka p\<rparr>"
  "fold read_line (line_if f DMSDP_FLAG2_BACKUP (bytes_of ''Backup: '' @ dec (v :: u32))) p =
     (set_flags 0 (f AND 2) p)\<lparr>dp_backup := if f AND 2 \<noteq> 0 then ucast v else dp_backup p\<rparr>"
  "fold read_line (line_if f DMSDP_FLAG2_SIMPLE (bytes_of ''Simple: '' @ dec (v :: u32))) p =
     (set_flags 0 (f AND 8) p)\<lparr>dp_simple := if f AND 8 \<noteq> 0 then ucast v else dp_simple p\<rparr>"
  "fold read_line (line_if f DMSDP_FLAG2_POLY_PACKAGE (bytes_of ''PolyPackage: '' @ dec (v :: u32))) p =
     (set_flags 0 (f AND 0x10) p)\<lparr>dp_poly_package := if f AND 0x10 \<noteq> 0 then ucast v else dp_poly_package p\<rparr>"
  unfolding dmsdp_flags
  by (-, rule
read_step [of "bytes_of ''CSeq: '' @ dec v" "\<lambda>x q. q\<lparr>dp_cseq := x\<rparr>" "v" "1" f dp_cseq p, OF built_int_lines(1) single_bits(1) same_fields(1)],
    rule read_step [of "bytes_of ''ServiceType: '' @ dec v" "\<lambda>x q. q\<lparr>dp_service_type := x\<rparr>" "v" "0x800" f dp_service_type p, OF built_int_lines(2) single_bits(10) same_fields(3)],
    rule read_step [of "bytes_of ''DataSessionID: '' @ dec v" "\<lambda>x q. q\<lparr>dp_data_session_id := x\<rparr>" "v" "0x1000" f dp_data_session_id p, OF built_int_lines(3) single_bits(11) same_fields(4)],
    rule read_step [of "bytes_of ''CryptoVer: '' @ dec b" "\<lambda>x q. q\<lparr>dp_crypto_ver := x\<rparr>" "b" "2" f dp_crypto_ver p, OF built_byte_lines(1) single_bits(2) same_fields(5)],
    rule read_step [of "bytes_of ''CryptoSwitch: '' @ dec b" "\<lambda>x q. q\<lparr>dp_crypto_switch := x\<rparr>" "b" "4" f dp_crypto_switch p, OF built_byte_lines(2) single_bits(3) same_fields(6)],
    rule read_step [of "bytes_of ''CryptoAbility: '' @ dec b" "\<lambda>x q. q\<lparr>dp_crypto_ability := x\<rparr>" "b" "0x10" f dp_crypto_ability p, OF built_byte_lines(3) single_bits(5) same_fields(7)],
    rule read_step [of "bytes_of ''Fillp: '' @ dec b" "\<lambda>x q. q\<lparr>dp_fillp := x\<rparr>" "b" "0x80" f dp_fillp p, OF built_byte_lines(4) single_bits(7) same_fields(9)],
    rule read_step [of "bytes_of ''TCP: '' @ dec b" "\<lambda>x q. q\<lparr>dp_tcp := x\<rparr>" "b" "0x200" f dp_tcp p, OF built_byte_lines(5) single_bits(8) same_fields(10)],
    rule read_step [of "bytes_of ''UdpKA: '' @ dec b" "\<lambda>x q. q\<lparr>dp_udp_ka := x\<rparr>" "b" "0x20" f dp_udp_ka p, OF built_byte_lines(6) single_bits(6) same_fields(14)],
    rule read_step2 [of "bytes_of ''Backup: '' @ dec v" "\<lambda>x q. q\<lparr>dp_backup := x\<rparr>" "ucast v" "2" f dp_backup p, OF built_int_lines(6) single_bits(2) same_fields(11)],
    rule read_step2 [of "bytes_of ''Simple: '' @ dec v" "\<lambda>x q. q\<lparr>dp_simple := x\<rparr>" "ucast v" "8" f dp_simple p, OF built_int_lines(7) single_bits(4) same_fields(12)],
    rule read_step2 [of "bytes_of ''PolyPackage: '' @ dec v" "\<lambda>x q. q\<lparr>dp_poly_package := x\<rparr>" "ucast v" "0x10" f dp_poly_package p, OF built_int_lines(8) single_bits(5) same_fields(13)])

lemma read_strings:
  fixes f :: u32
  shows "f AND 0x400 \<noteq> 0 \<longrightarrow> v \<noteq> None \<and> text_value (the v) \<Longrightarrow>
    fold read_line (line_if f DMSDP_FLAG_SERVICE_ID (bytes_of ''ServiceID: '' @ the v)) p =
     (set_flags (f AND 0x400) 0 p)\<lparr>dp_service_id := if f AND 0x400 \<noteq> 0 then v else dp_service_id p\<rparr>"
  "f AND 8 \<noteq> 0 \<longrightarrow> v \<noteq> None \<and> text_value (the v) \<Longrightarrow>
    fold read_line (line_if f DMSDP_FLAG_CRYPTO_ALG (bytes_of ''CryptoAlg: '' @ the v)) p =
     (set_flags (f AND 8) 0 p)\<lparr>dp_crypto_alg := if f AND 8 \<noteq> 0 then v else dp_crypto_alg p\<rparr>"
  unfolding dmsdp_flags
  using single_bits(9) [of f] single_bits(4) [of f]
  by (cases "f AND 0x400 = 0", simp_all add: fold_line read_line_def built_string_lines set_flags_none same_fields)
    (cases "f AND 8 = 0", simp_all add: fold_line read_line_def built_string_lines set_flags_none same_fields)

lemma clear_absent: "(x :: u32) AND b = 0 \<Longrightarrow> (x OR b) AND NOT b = x"
  by (simp add: bit_eq_iff bit_simps) blast

lemma read_ignored:
  "dp_flags1 p AND 0x100 = 0 \<Longrightarrow> fold read_line (line_if f DMSDP_FLAG_CODEC (bytes_of ''Codec: '' @ dec (v :: u32))) p = p"
  "dp_flags1 p AND 0x400000 = 0 \<Longrightarrow> fold read_line (line_if f DMSDP_FLAG_KA_RETRY (bytes_of ''KaRetry: '' @ dec v)) p = p"
proof -
  have same: "(set_flags a 0 r)\<lparr>dp_flags1 := dp_flags1 r, dp_flags2 := dp_flags2 r\<rparr> = r" for a r
    by (cases r) (simp add: set_flags_def)
  show "dp_flags1 p AND 0x100 = 0 \<Longrightarrow> fold read_line (line_if f DMSDP_FLAG_CODEC (bytes_of ''Codec: '' @ dec v)) p = p"
    "dp_flags1 p AND 0x400000 = 0 \<Longrightarrow> fold read_line (line_if f DMSDP_FLAG_KA_RETRY (bytes_of ''KaRetry: '' @ dec v)) p = p"
    by (simp_all only: fold_line read_line_def built_int_lines clear_absent snd_conv same if_cancel)
qed

lemma transport_line:
  "dmsdp_analyze_line (dmsdp_transport m @ server_ports m) p =
     (0, let p = (set_flags 0x80000 0 p)\<lparr>dp_client_port_lo := dm_client_port_lo m, dp_client_port_hi := dm_client_port_hi m\<rparr> in
       if dm_flags1 m AND DMSDP_FLAG_TRANSPORT_COMBINED = 0 then p
       else p\<lparr>dp_server_port_lo := dm_server_port_lo m, dp_server_port_hi := dm_server_port_hi m\<rparr>)"
proof -
  let ?v = "bytes_of ''RTP/AVP/UDP;unicast;client_port='' @ dec (dm_client_port_lo m) @ 0x2d # dec (dm_client_port_hi m) @ server_ports m"
  have v: "hd ?v \<noteq> SP" by (simp add: bytes_of_def of_char_def SP_def)
  have s: "bytes_of '';server_port='' \<noteq> []" by simp
  have "dmsdp_transport m @ server_ports m = bytes_of (''Transport'' @ '': '') @ ?v"
  proof -
    have "bytes_of ''Transport: RTP/AVP/UDP;unicast;client_port='' =
        bytes_of (''Transport'' @ '': '') @ bytes_of ''RTP/AVP/UDP;unicast;client_port=''"
      by (simp add: bytes_of_append [symmetric] del: bytes_of_append)
    then show ?thesis by (simp add: dmsdp_transport_def)
  qed
  then show ?thesis
    using string_line [of "''Transport''" 19 ?v p] v built_transport [of "server_ports m" "dm_server_port_lo m" "dm_server_port_hi m"]
    by (simp add: line_eval dmsdp_analyze_string_def server_ports_def del: bytes_of_append)
qed

text \<open>A message whose strings survive the trip.\<close>

definition strings_ok :: "dmsdp_msg \<Rightarrow> bool" where
  "strings_ok m \<longleftrightarrow> (\<forall>s. dm_service_id m = Some s \<longrightarrow> text_value s) \<and> (\<forall>s. dm_crypto_alg m = Some s \<longrightarrow> text_value s)"

lemma line_if_ok: "(f AND flag \<noteq> 0 \<Longrightarrow> line_ok l) \<Longrightarrow> \<forall>x \<in> set (line_if f flag l). line_ok x"
  by (simp add: line_if_def)

lemma cr_free: "CR \<notin> set (dec v)" "CR \<notin> set (bytes_of n) \<longleftrightarrow> CHR 0x0D \<notin> set n"
  using is_digit_chars dec_chars by (fastforce simp: CR_def, auto simp: bytes_of_mem char_bytes eq_commute [of CR])

lemma plain_crlf: "CR \<notin> set xs \<Longrightarrow> find_crlf xs = None"
  using find_crlf_plain [of xs "[]"] by simp

lemma lines_ok:
  assumes "strings_ok m" "dm_flags1 m AND DMSDP_FLAG_SERVICE_ID \<noteq> 0 \<longrightarrow> dm_service_id m \<noteq> None"
    "dm_flags1 m AND DMSDP_FLAG_CRYPTO_ALG \<noteq> 0 \<longrightarrow> dm_crypto_alg m \<noteq> None"
  shows "\<forall>l \<in> set (dmsdp_lines m). line_ok l"
proof -
  have i: "line_ok (bytes_of n @ dec v)" if "\<And>p. fst (dmsdp_analyze_line (bytes_of n @ dec v) p) = 0" "CHR 0x0D \<notin> set n"
    for n and v :: "'b::len word"
    using that by (simp add: line_ok_def plain_crlf cr_free)
  have s: "line_ok (bytes_of n @ s)" if "\<And>p. fst (dmsdp_analyze_line (bytes_of n @ s) p) = 0" "CHR 0x0D \<notin> set n" "n \<noteq> []" "text_value s"
    for n s using that by (simp add: line_ok_def find_crlf_plain cr_free text_value_def)
  have t: "line_ok (dmsdp_transport m @ server_ports m)"
  proof -
    have "CR \<notin> set (dmsdp_transport m @ server_ports m)"
      by (simp add: dmsdp_transport_def server_ports_def cr_free) (simp add: CR_def)
    moreover have "dmsdp_transport m \<noteq> []" by (simp add: dmsdp_transport_def)
    ultimately show ?thesis by (simp add: line_ok_def plain_crlf transport_line)
  qed
  have v: "dm_flags1 m AND DMSDP_FLAG_SERVICE_ID \<noteq> 0 \<Longrightarrow> text_value (the (dm_service_id m))"
    "dm_flags1 m AND DMSDP_FLAG_CRYPTO_ALG \<noteq> 0 \<Longrightarrow> text_value (the (dm_crypto_alg m))"
    using assms by (auto simp: strings_ok_def)
  show ?thesis unfolding dmsdp_lines_def Let_def set_append ball_Un
    by (intro conjI line_if_ok i s t v; simp add: built_int_lines built_byte_lines built_string_lines v)
qed

lemma start_line_ok:
  assumes "dm_type m \<le> 8"
  shows "find_crlf (start_text m) = None" "dmsdp_start_line (start_text m) = Some (dm_type m, 0)"
proof -
  have "unat (dm_type m) \<le> 8" using assms by (simp add: word_le_nat_alt)
  then have "unat (dm_type m) \<in> {0, 1, 2, 3, 4, 5, 6, 7, 8}" by auto
  then have c: "dm_type m \<in> {0, 1, 2, 3, 4, 5, 6, 7, 8}" by (auto simp: word_unat_eq_iff)
  then show "find_crlf (start_text m) = None"
    by (elim insertE emptyE) (simp_all add: start_text_def dmsdp_method_lines_def plain_crlf cr_free)
  have r: "dmsdp_start_line (bytes_of ''DMSDP/1.0 200 OK'') = Some (8, 0)"
    by (simp add: dmsdp_start_line_def dmsdp_method_lines_def bytes_of_def of_char_def is_digit_def SP_def
        dmsdp_parse_integer_def c_string_def Let_def c_atoi_def scan_int_def is_space_def digits_value_def long_cut_def)
  show "dmsdp_start_line (start_text m) = Some (dm_type m, 0)" using c r
    by (elim insertE emptyE) (simp_all add: start_text_def dmsdp_start_line_def dmsdp_method_lines_def)
qed

lemma or_clear: "x AND b = 0 \<Longrightarrow> a AND b = 0 \<Longrightarrow> (x OR (f AND a)) AND b = (0 :: u32)"
proof -
  assume a: "x AND b = 0" "a AND b = 0"
  have "(x OR (f AND a)) AND b = (x AND b) OR (f AND (a AND b))" by (rule bit_word_eqI) (auto simp: bit_simps)
  then show ?thesis using a by simp
qed

lemma join_flags: "(f AND a) OR (f AND b) = f AND (a OR b)" "((f AND a) OR x) OR (f AND b) = (f AND (a OR b)) OR (x :: u32)"
  by (rule bit_word_eqI; auto simp: bit_simps)+

lemma set_flags_simps [simp]:
  "dp_flags1 (set_flags a b p) = dp_flags1 p OR a" "dp_flags2 (set_flags a b p) = dp_flags2 p OR b"
  by (simp_all add: set_flags_def)

definition read_first :: "dmsdp_msg \<Rightarrow> dmsdp_parsed \<Rightarrow> dmsdp_parsed" where
  "read_first m p = (let f = dm_flags1 m; h = (\<lambda>flag. f AND flag \<noteq> 0) in
     p\<lparr>dp_flags1 := dp_flags1 p OR (f AND 0x1c9f),
       dp_cseq := (if h 1 then dm_cseq m else dp_cseq p),
       dp_service_id := (if h 0x400 then dm_service_id m else dp_service_id p),
       dp_service_type := (if h 0x800 then dm_service_type m else dp_service_type p),
       dp_data_session_id := (if h 0x1000 then dm_data_session_id m else dp_data_session_id p),
       dp_crypto_ver := (if h 2 then dm_crypto_ver m else dp_crypto_ver p),
       dp_crypto_switch := (if h 4 then dm_crypto_switch m else dp_crypto_switch p),
       dp_crypto_ability := (if h 0x10 then dm_crypto_ability m else dp_crypto_ability p),
       dp_crypto_alg := (if h 8 then dm_crypto_alg m else dp_crypto_alg p),
       dp_fillp := (if h 0x80 then dm_fillp m else dp_fillp p)\<rparr>)"

lemma fold_first:
  assumes "strings_ok m" "dm_flags1 m AND DMSDP_FLAG_SERVICE_ID \<noteq> 0 \<longrightarrow> dm_service_id m \<noteq> None"
    "dm_flags1 m AND DMSDP_FLAG_CRYPTO_ALG \<noteq> 0 \<longrightarrow> dm_crypto_alg m \<noteq> None"
  shows "fold read_line (let f = dm_flags1 m in
      line_if f DMSDP_FLAG_CSEQ (bytes_of ''CSeq: '' @ dec (dm_cseq m)) @
      line_if f DMSDP_FLAG_SERVICE_ID (bytes_of ''ServiceID: '' @ the (dm_service_id m)) @
      line_if f DMSDP_FLAG_SERVICE_TYPE (bytes_of ''ServiceType: '' @ dec (dm_service_type m)) @
      line_if f DMSDP_FLAG_DATA_SESSION_ID (bytes_of ''DataSessionID: '' @ dec (dm_data_session_id m)) @
      line_if f DMSDP_FLAG_CRYPTO_VER (bytes_of ''CryptoVer: '' @ dec (dm_crypto_ver m)) @
      line_if f DMSDP_FLAG_CRYPTO_SWITCH (bytes_of ''CryptoSwitch: '' @ dec (dm_crypto_switch m)) @
      line_if f DMSDP_FLAG_CRYPTO_ABILITY (bytes_of ''CryptoAbility: '' @ dec (dm_crypto_ability m)) @
      line_if f DMSDP_FLAG_CRYPTO_ALG (bytes_of ''CryptoAlg: '' @ the (dm_crypto_alg m)) @
      line_if f DMSDP_FLAG_FILLP (bytes_of ''Fillp: '' @ dec (dm_fillp m))) p = read_first m p"
proof -
  have s: "dm_flags1 m AND 0x400 \<noteq> 0 \<longrightarrow> dm_service_id m \<noteq> None \<and> text_value (the (dm_service_id m))"
    "dm_flags1 m AND 8 \<noteq> 0 \<longrightarrow> dm_crypto_alg m \<noteq> None \<and> text_value (the (dm_crypto_alg m))"
    using assms by (auto simp: strings_ok_def dmsdp_flags)
  show ?thesis unfolding Let_def fold_append o_apply read_steps read_strings(1) [OF s(1)] read_strings(2) [OF s(2)] read_first_def
    by (rule dmsdp_parsed.equality; simp add: set_flags_def or.assoc join_flags)
qed

definition read_second :: "dmsdp_msg \<Rightarrow> dmsdp_parsed \<Rightarrow> dmsdp_parsed" where
  "read_second m p = (let f = dm_flags1 m; h = (\<lambda>flag. f AND flag \<noteq> 0); h2 = (\<lambda>flag. dm_flags2 m AND flag \<noteq> 0) in
     p\<lparr>dp_flags1 := dp_flags1 p OR (f AND 0x220), dp_flags2 := dp_flags2 p OR (dm_flags2 m AND 0x1a),
       dp_tcp := (if h 0x200 then dm_tcp m else dp_tcp p),
       dp_backup := (if h2 2 then ucast (dm_backup m) else dp_backup p),
       dp_simple := (if h2 8 then ucast (dm_simple m) else dp_simple p),
       dp_poly_package := (if h2 0x10 then ucast (dm_poly_package m) else dp_poly_package p),
       dp_udp_ka := (if h 0x20 then dm_udp_ka m else dp_udp_ka p)\<rparr>)"

lemma fold_second:
  "fold read_line (let f = dm_flags1 m; f2 = dm_flags2 m in
      line_if f DMSDP_FLAG_TCP (bytes_of ''TCP: '' @ dec (dm_tcp m)) @
      line_if f2 DMSDP_FLAG2_BACKUP (bytes_of ''Backup: '' @ dec (dm_backup m)) @
      line_if f2 DMSDP_FLAG2_SIMPLE (bytes_of ''Simple: '' @ dec (dm_simple m)) @
      line_if f2 DMSDP_FLAG2_POLY_PACKAGE (bytes_of ''PolyPackage: '' @ dec (dm_poly_package m)) @
      line_if f DMSDP_FLAG_UDP_KA (bytes_of ''UdpKA: '' @ dec (dm_udp_ka m))) p = read_second m p"
  unfolding Let_def fold_append o_apply read_steps read_second_def
  by (rule dmsdp_parsed.equality; simp add: set_flags_def or.assoc join_flags)

lemma fold_lines:
  assumes "strings_ok m" "dm_flags1 m AND DMSDP_FLAG_SERVICE_ID \<noteq> 0 \<longrightarrow> dm_service_id m \<noteq> None"
    "dm_flags1 m AND DMSDP_FLAG_CRYPTO_ALG \<noteq> 0 \<longrightarrow> dm_crypto_alg m \<noteq> None"
  shows "fold read_line (dmsdp_lines m) (dmsdp_parsed_init\<lparr>dp_type := dm_type m, dp_response_fail := 0\<rparr>) = dmsdp_expected m"
proof -
  let ?p = "dmsdp_parsed_init\<lparr>dp_type := dm_type m, dp_response_fail := 0\<rparr>" let ?f = "dm_flags1 m"
  have a: "fold read_line (xs @ ys) p = fold read_line ys (fold read_line xs p)" for xs ys p by simp
  note first = fold_first [OF assms, of ?p, unfolded Let_def fold_append o_apply]
  have c: "fold read_line (line_if ?f DMSDP_FLAG_CODEC (bytes_of ''Codec: '' @ dec (dm_codec m))) (read_first m ?p) = read_first m ?p"
    by (rule read_ignored(1)) (simp_all add: read_first_def dmsdp_parsed_init_def Let_def and.assoc)
  have k: "fold read_line (line_if ?f DMSDP_FLAG_KA_RETRY (bytes_of ''KaRetry: '' @ dec (dm_ka_retry m)))
      (read_second m (read_first m ?p)) = read_second m (read_first m ?p)"
    by (rule read_ignored(2))
      (simp_all add: read_first_def read_second_def dmsdp_parsed_init_def Let_def join_flags and.assoc)
  have "fold read_line (dmsdp_lines m) ?p =
    fold read_line (line_if ?f (DMSDP_FLAG_TRANSPORT_COMBINED OR DMSDP_FLAG_TRANSPORT_CLIENT) (dmsdp_transport m @ server_ports m))
      (read_second m (read_first m ?p))"
    unfolding dmsdp_lines_def Let_def fold_append o_apply first c
      fold_second [unfolded Let_def fold_append o_apply] k ..
  also have "\<dots> = dmsdp_expected m"
  proof -
    have d: "?f AND 0x6000 = 0 \<Longrightarrow> ?f AND 0x4000 = 0"
    proof -
      assume "?f AND 0x6000 = (0 :: u32)"
      then have "(?f AND 0x6000) AND 0x4000 = 0" by simp
      then show "?f AND 0x4000 = 0" by (simp add: and.assoc)
    qed
    show ?thesis unfolding fold_line read_line_def transport_line snd_conv dmsdp_expected_def Let_def dmsdp_flags read_first_def
        read_second_def dmsdp_parsed_init_def
      by (rule dmsdp_parsed.equality; use d in \<open>simp add: set_flags_def join_flags\<close>)
  qed
  finally show ?thesis .
qed

lemma build_parse:
  assumes "dmsdp_build (Some m) cap = Some t" "strings_ok m"
  shows "dmsdp_parse (Some t) = (0, Some (dmsdp_expected m)) \<and> length t < DMSDP_TEXT_MAX \<and> length t \<le> cap"
proof -
  have b: "dmsdp_build_text m = Some t" "dm_type m \<le> 8" "length t \<le> cap"
    using assms(1) by (auto simp: dmsdp_build_def not_less split: if_splits option.splits)
  note l = build_lines [OF b(1)]
  note st = start_line_ok [OF b(2)]
  let ?p = "dmsdp_parsed_init\<lparr>dp_type := dm_type m, dp_response_fail := 0\<rparr>"
  have f: "find_crlf t = Some (length (start_text m))" unfolding l(1) by (rule find_crlf_line [OF st(1)])
  have d: "take (length (start_text m)) t = start_text m"
    "drop (length (start_text m) + 2) t = text_lines (dmsdp_lines m) @ CRLF @ []"
    unfolding l(1) by (simp_all add: CRLF_def)
  have h: "dmsdp_headers (drop (length (start_text m) + 2) t) ?p = (0, dmsdp_expected m, [])"
    unfolding d(2) headers_lines [OF lines_ok [OF assms(2) l(2,3)]] fold_lines [OF assms(2) l(2,3)] ..
  have "t \<noteq> []" "dp_content_length (dmsdp_expected m) = 0"
    unfolding l(1) by (simp_all add: CRLF_def dmsdp_expected_def dmsdp_parsed_init_def Let_def)
  then show ?thesis using b(3) l(4) f d(1) st(2) h by (simp add: dmsdp_parse_def Let_def)
qed

text \<open>
  C12. The round trip: whatever message the builder accepts, the parser reads back from its text exactly the fields the message
  announced, as long as the strings contain no line break or NUL and do not start with a blank.  Codec and KaRetry
  are built but not read, and Backup, Simple and PolyPackage are cut to a byte.
\<close>

lemma dmsdp_roundtrip:
  assumes "dmsdp_build (Some m) cap = Some t" "strings_ok m"
  shows "dmsdp_parse (Some t) = (0, Some (dmsdp_expected m)) \<and> length t < DMSDP_TEXT_MAX \<and> length t \<le> cap"
  by (rule build_parse [OF assms])

lemmas build_eval = dmsdp_build_def dmsdp_build_text_def emit_def emit_if_def emit_string_def emit_transport_def dmsdp_flags
  dmsdp_msg_setup_def dmsdp_msg_play_def dmsdp_msg_zero_def dmsdp_method_lines_def dec_def dec_nat.simps CRLF_def Let_def
  DMSDP_TEXT_MAX_def DMSDP_TYPE_SETUP_def DMSDP_TYPE_PLAY_def dmsdp_transport_def

lemma dmsdp_roundtrip_witness:
  "\<exists>t. dmsdp_build (Some (dmsdp_msg_setup 0 (Some (bytes_of ''svc'')) 4 17 1 5000 5001)) 1400 = Some t \<and>
     dmsdp_parse (Some t) = (0, Some (dmsdp_parsed_init\<lparr>dp_type := 1, dp_flags1 := 0x81c01, dp_flags2 := 2,
       dp_service_id := Some (bytes_of ''svc''), dp_service_type := 4, dp_data_session_id := 17, dp_backup := 1,
       dp_client_port_lo := 5000, dp_client_port_hi := 5001\<rparr>))"
proof -
  let ?m = "dmsdp_msg_setup 0 (Some (bytes_of ''svc'')) 4 17 1 5000 5001"
  obtain t where t: "dmsdp_build (Some ?m) 1400 = Some t" by (simp add: build_eval)
  have "strings_ok ?m"
    by (simp add: strings_ok_def dmsdp_msg_setup_def dmsdp_msg_zero_def text_value_def bytes_of_def of_char_def SP_def CR_def)
  then show ?thesis using dmsdp_roundtrip [OF t] t
    by (simp add: dmsdp_expected_def dmsdp_msg_setup_def dmsdp_msg_zero_def dmsdp_flags DMSDP_TYPE_SETUP_def
        dmsdp_parsed_init_def Let_def)
qed

end
