(* ===== verification/DmsdpSession.thy ===== *)
theory DmsdpSession
  imports DmsdpBuild
begin

text \<open>
  What the parts of \<open>src/proto/dmsdp.c\<close> promise together: the parser on any text, the order of a client
  session, and a session of the client with a peer that answers with the reply messages of the file.
\<close>

section \<open>The parser on any text\<close>

text \<open>What every header line keeps: the flags stay inside the ones the parser knows, without Codec and KaRetry.\<close>

definition parsed_flags_ok :: "dmsdp_parsed \<Rightarrow> bool" where
  "parsed_flags_ok p \<longleftrightarrow> dp_flags1 p AND NOT 0x3ffeff = 0 \<and> dp_flags2 p AND NOT 0x1f = 0"

definition same_start :: "dmsdp_parsed \<Rightarrow> dmsdp_parsed \<Rightarrow> bool" where
  "same_start p q \<longleftrightarrow> dp_type q = dp_type p \<and> dp_response_fail q = dp_response_fail p \<and> dp_trigger_idx q = dp_trigger_idx p"

definition parse_codes :: "int set" where
  "parse_codes = {0, -1, -2, -5, -9}"

lemma parse_integer_codes: "dmsdp_parse_integer s = Inl e \<Longrightarrow> e = -1 \<or> e = -9"
  by (auto simp: dmsdp_parse_integer_def Let_def split: if_splits)

lemma store_int_keeps:
  assumes "store_int val upd p = (rc, q)"
  shows "rc = -1 \<or> rc = -9 \<or> rc = 0" "q = p \<or> (\<exists>v. q = upd v)"
  using assms parse_integer_codes by (auto simp: store_int_def split: sum.splits)

lemma analyze_integer_keeps:
  assumes "dmsdp_analyze_integer idx val p = (rc, q)"
  shows "rc \<in> {-1, -9, 0, -10} \<and> same_start p q \<and> dp_flags1 q = dp_flags1 p \<and> dp_flags2 q = dp_flags2 p \<and>
    (idx = 13 \<or> idx = 24 \<longrightarrow> rc = -10)"
  using assms unfolding dmsdp_analyze_integer_def same_start_def
  by (auto split: if_splits dest: store_int_keeps)

lemma parse_transport_keeps:
  "dmsdp_parse_transport val p = (rc, q) \<Longrightarrow>
     rc = 0 \<and> same_start p q \<and> dp_flags1 q = dp_flags1 p \<and> dp_flags2 q = dp_flags2 p"
  by (auto simp: dmsdp_parse_transport_def Let_def same_start_def split: if_splits attr_result.splits)

lemma parse_gps_keeps:
  "dmsdp_parse_gps val p = (rc, q) \<Longrightarrow>
     rc \<in> {0, -5} \<and> same_start p q \<and> dp_flags1 q = dp_flags1 p \<and> dp_flags2 q = dp_flags2 p"
  by (auto simp: dmsdp_parse_gps_def Let_def same_start_def split: if_splits option.splits)

lemma analyze_string_keeps:
  assumes "dmsdp_analyze_string idx val p = (rc, q)"
  shows "rc \<in> {0, -5, -10} \<and> same_start p q \<and> dp_flags1 q = dp_flags1 p \<and> dp_flags2 q = dp_flags2 p"
  using assms parse_transport_keeps [of val p rc q] parse_gps_keeps [of val p rc q]
  unfolding dmsdp_analyze_string_def by (auto simp: same_start_def split: if_splits)

lemma keyword_from_bound: "keyword_from k i ns = Some j \<Longrightarrow> i \<le> j \<and> j < i + length ns"
  by (induction ns arbitrary: i) (fastforce split: if_splits)+

lemma get_keyword_bound: "dmsdp_get_keyword k = Some j \<Longrightarrow> j < 30"
  using keyword_from_bound [of "trim_spaces k" 0 dmsdp_names j]
  by (simp add: dmsdp_get_keyword_def Let_def dmsdp_names_def split: if_splits)

lemma below_30:
  "(j :: nat) < 30 \<Longrightarrow> j \<in> {0,1,2,3,4,5,6,7,8,9,10,11,12,13,14,15,16,17,18,19,20,21,22,23,24,25,26,27,28,29}"
proof -
  assume "j < 30"
  then have "j \<in> set [0..<30]" by simp
  then show ?thesis by (simp add: upt_rec [of _ 30] eval_nat_numeral del: set_upt)
qed

lemma table_flags:
  assumes "j < 30"
  shows "dmsdp_flag1 ! j AND NOT 0x7fffff = 0" "dmsdp_flag2 ! j AND NOT 0x1f = 0"
    "j \<noteq> 13 \<Longrightarrow> j \<noteq> 24 \<Longrightarrow> dmsdp_flag1 ! j AND NOT 0x3ffeff = 0" "j = 13 \<or> j = 24 \<Longrightarrow> \<not> dmsdp_special ! j"
  using below_30 [OF assms] by (elim insertE emptyE; simp add: dmsdp_flag1_def dmsdp_flag2_def dmsdp_special_def)+

lemma or_masked: "a AND m = 0 \<Longrightarrow> b AND m = 0 \<Longrightarrow> (a OR b) AND m = (0 :: 'a::len word)"
  by (simp add: bit.conj_disj_distrib2)

lemma clear_masked: "a AND m = 0 \<Longrightarrow> ((a OR b) AND NOT b) AND m = (0 :: 'a::len word)"
proof -
  assume a: "a AND m = 0"
  have "((a OR b) AND NOT b) AND m = (a AND m) AND NOT b" by (rule bit_word_eqI) (auto simp: bit_simps)
  then show ?thesis using a by simp
qed

lemma analyze_line_keeps:
  assumes "dmsdp_analyze_line line p = (rc, q)" "parsed_flags_ok p"
  shows "rc \<in> parse_codes \<and> same_start p q \<and> parsed_flags_ok q"
proof -
  consider "find_byte 0x3a line = None" | k where "find_byte 0x3a line = Some k" "dmsdp_get_keyword (take k line) = None"
    | k j where "find_byte 0x3a line = Some k" "dmsdp_get_keyword (take k line) = Some j" by fastforce
  then show ?thesis
  proof cases
    case (3 k j)
    let ?p = "p\<lparr>dp_flags1 := dp_flags1 p OR dmsdp_flag1 ! j, dp_flags2 := dp_flags2 p OR dmsdp_flag2 ! j\<rparr>"
    let ?v = "drop (k + 1) line"
    obtain rc' q' where r: "(if dmsdp_special ! j then dmsdp_analyze_string j (dropWhile (\<lambda>c. c = SP) ?v) ?p
        else dmsdp_analyze_integer j ?v ?p) = (rc', q')" by fastforce
    have j: "j < 30" using 3 get_keyword_bound by blast
    have k: "rc' \<in> insert (-10) parse_codes" "same_start ?p q'" "dp_flags1 q' = dp_flags1 ?p" "dp_flags2 q' = dp_flags2 ?p"
      "j = 13 \<or> j = 24 \<Longrightarrow> rc' = -10"
      using r analyze_string_keeps [of j _ ?p rc' q'] analyze_integer_keeps [of j ?v ?p rc' q'] table_flags(4) [OF j]
      by (auto simp: parse_codes_def split: if_splits)
    have o: "rc' \<noteq> -10 \<Longrightarrow> parsed_flags_ok q'"
      using k(3-5) assms(2) table_flags(2,3) [OF j] by (auto simp: parsed_flags_ok_def intro!: or_masked)
    have c: "parsed_flags_ok (q'\<lparr>dp_flags1 := dp_flags1 q' AND NOT (dmsdp_flag1 ! j), dp_flags2 := dp_flags2 q' AND NOT (dmsdp_flag2 ! j)\<rparr>)"
      using k(3,4) assms(2) by (simp add: parsed_flags_ok_def clear_masked)
    show ?thesis
      using assms 3 r k(1,2) o c
      by (auto simp: dmsdp_analyze_line_def Let_def parse_codes_def same_start_def split: if_splits)
  qed (use assms in \<open>auto simp: dmsdp_analyze_line_def parse_codes_def same_start_def split: if_splits\<close>)
qed

lemma headers_keep:
  "dmsdp_headers r p = (rc, q, body) \<Longrightarrow> parsed_flags_ok p \<Longrightarrow>
     rc \<in> parse_codes \<and> same_start p q \<and> parsed_flags_ok q \<and> (\<exists>hs. r = hs @ body)"
proof (induction r p rule: dmsdp_headers.induct)
  case (1 r p)
  show ?case
  proof -
    consider "r = []" | "r \<noteq> []" "find_crlf r = Some 0" | "r \<noteq> []" "find_crlf r = None" "length r < 2"
      | "r \<noteq> []" "find_crlf r = None" "\<not> length r < 2" | ll where "r \<noteq> []" "find_crlf r = Some ll" "ll \<noteq> 0"
      by (cases "find_crlf r") auto
    then show ?thesis
    proof cases
      case a: 1
      then show ?thesis using 1(2,3) by (subst (asm) dmsdp_headers.simps) (simp add: parse_codes_def same_start_def)
    next
      case a: 2
      then have "rc = 0" "q = p" "body = drop 2 r" using 1(2) by (subst (asm) dmsdp_headers.simps, simp)+
      then show ?thesis using 1(3) append_take_drop_id [of 2 r, symmetric] by (auto simp only: parse_codes_def same_start_def insert_iff)
    next
      case a: 3
      then show ?thesis using 1(2,3) by (subst (asm) dmsdp_headers.simps) (simp add: parse_codes_def same_start_def)
    next
      case a: 4
      have "dmsdp_analyze_line r p = (rc, q)" "body = []"
        using a 1(2) by (subst (asm) dmsdp_headers.simps, simp split: prod.splits)+
      then show ?thesis using analyze_line_keeps [of r p rc q] 1(3) by simp
    next
      case l: (5 ll)
      obtain rc' p' where an: "dmsdp_analyze_line (take ll r) p = (rc', p')" by fastforce
      have k: "rc' \<in> parse_codes" "same_start p p'" "parsed_flags_ok p'" using analyze_line_keeps [OF an 1(3)] by auto
      show ?thesis
      proof (cases "rc' = 0")
        case True
        have n: "dmsdp_headers (drop (ll + 2) r) p' = (rc, q, body)"
          using 1(2) l an True by (subst (asm) dmsdp_headers.simps) simp
        have i: "rc \<in> parse_codes \<and> same_start p' q \<and> parsed_flags_ok q \<and> (\<exists>hs. drop (ll + 2) r = hs @ body)"
          by (rule 1(1) [OF l an [symmetric] _ n k(3)]) (use True in simp)
        then obtain hs where "drop (ll + 2) r = hs @ body" by blast
        then have "r = (take (ll + 2) r @ hs) @ body" by (metis append_assoc append_take_drop_id)
        then have "\<exists>hs. r = hs @ body" by blast
        then show ?thesis using i k(2) by (simp add: same_start_def)
      next
        case False
        then show ?thesis using 1(2) l an k by (subst (asm) dmsdp_headers.simps) auto
      qed
    qed
  qed
qed

lemma start_line_values:
  "dmsdp_start_line line = Some (ty, fail) \<Longrightarrow> ty \<le> 8 \<and> (fail = 0 \<or> fail = 1 \<and> ty = 8)"
proof -
  have m: "method_from l i ms = Some j \<Longrightarrow> j < i + length ms" for l i ms j
    by (induction ms arbitrary: i) (fastforce split: if_splits)+
  have b: "j < 8 \<Longrightarrow> (of_nat j :: u32) \<le> 8" for j
    by (simp add: word_le_nat_alt unat_of_nat_small)
  show "dmsdp_start_line line = Some (ty, fail) \<Longrightarrow> ?thesis"
    using m [of line 0 dmsdp_method_lines] b
    by (auto simp: dmsdp_start_line_def Let_def dmsdp_method_lines_def split: option.splits if_splits sum.splits)
qed

lemma trigger_values: "trigger_from body 1 dmsdp_trigger_bodies = Some i \<Longrightarrow> 1 \<le> i \<and> i \<le> 5 \<and> body = dmsdp_trigger_bodies ! (i - 1)"
proof -
  have m: "trigger_from body i ts = Some j \<Longrightarrow> i \<le> j \<and> j < i + length ts \<and> body = ts ! (j - i)" for i ts j
  proof (induction ts arbitrary: i)
    case (Cons t ts)
    show ?case
    proof (cases "body = t")
      case False
      then have "i + 1 \<le> j" "j < i + 1 + length ts" "body = ts ! (j - (i + 1))" using Cons.IH [of "i + 1"] Cons.prems by simp_all
      moreover from this have "j - i = Suc (j - (i + 1))" by simp
      ultimately show ?thesis by simp
    qed (use Cons.prems in simp)
  qed simp
  show "trigger_from body 1 dmsdp_trigger_bodies = Some i \<Longrightarrow> ?thesis"
    using m [of 1 dmsdp_trigger_bodies i] by (simp add: dmsdp_trigger_bodies_def)
qed

lemma init_flags_ok: "parsed_flags_ok (dmsdp_parsed_init\<lparr>dp_type := ty, dp_response_fail := fail\<rparr>)"
  by (simp add: parsed_flags_ok_def dmsdp_parsed_init_def)

text \<open>
  C29. Whatever bytes arrive, the parser returns one of five codes.  When it accepts, the type is one of the nine it
  knows, only a response is marked as failed, no flag is set outside the fields it stores (Codec and KaRetry, which it
  knows by name and does not store, leave no flag), and a content length announces exactly one of the five trigger bodies, which the text
  ends with.
\<close>

lemma dmsdp_parse_total:
  assumes "dmsdp_parse (Some text) = (rc, r)"
  shows "rc \<in> {0, -1, -2, -5, -9} \<and>
    (rc = 0 \<longrightarrow> (\<exists>p. r = Some p \<and> dp_type p \<le> 8 \<and> (dp_response_fail p = 0 \<or> dp_response_fail p = 1 \<and> dp_type p = 8) \<and>
       dp_flags1 p AND NOT 0x3ffeff = 0 \<and> dp_flags2 p AND NOT 0x1f = 0 \<and>
       (if dp_content_length p = 0 then dp_trigger_idx p = 0
        else 1 \<le> unat (dp_trigger_idx p) \<and> unat (dp_trigger_idx p) \<le> 5 \<and>
          (\<exists>head. text = head @ dmsdp_trigger_bodies ! (unat (dp_trigger_idx p) - 1)) \<and>
          unat (dp_content_length p) = length (dmsdp_trigger_bodies ! (unat (dp_trigger_idx p) - 1)))))"
proof (cases "text = [] \<or> find_crlf text = None \<or> (\<exists>l. find_crlf text = Some l \<and> dmsdp_start_line (take l text) = None)")
  case True
  then have "rc = -2" using assms by (elim disjE exE conjE; cases "text"; simp add: dmsdp_parse_def Let_def)
  then show ?thesis by simp
next
  case False
  then obtain l ty fail where s: "text \<noteq> []" "find_crlf text = Some l" "dmsdp_start_line (take l text) = Some (ty, fail)" by auto
  let ?p = "dmsdp_parsed_init\<lparr>dp_type := ty, dp_response_fail := fail\<rparr>"
  obtain hrc p body where h: "dmsdp_headers (drop (l + 2) text) ?p = (hrc, p, body)" using prod_cases3 by blast
  have k: "hrc \<in> parse_codes" "same_start ?p p" "parsed_flags_ok p" "\<exists>hs. drop (l + 2) text = hs @ body"
    using headers_keep [OF h init_flags_ok] by auto
  have e: "\<exists>head. text = head @ body" using k(4) by (metis append_assoc append_take_drop_id)
  have st: "dp_type p = ty" "dp_response_fail p = fail" "dp_trigger_idx p = 0"
    using k(2) by (simp_all add: same_start_def dmsdp_parsed_init_def)
  note v = start_line_values [OF s(3)]
  have o: "unat (of_nat i :: u32) = i" if "i \<le> 5" for i using that by (simp add: unat_of_nat_small)
  show ?thesis
  proof (cases "hrc = 0 \<and> 0 < dp_content_length p \<and> length body = unat (dp_content_length p)")
    case True
    show ?thesis
    proof (cases "trigger_from body 1 dmsdp_trigger_bodies")
      case None
      then show ?thesis using assms s h True by (simp add: dmsdp_parse_def Let_def)
    next
      case (Some i)
      note t = trigger_values [OF Some]
      have "rc = 0" "r = Some (p\<lparr>dp_trigger_idx := of_nat i\<rparr>)" using assms s h True Some by (simp_all add: dmsdp_parse_def Let_def)
      then show ?thesis using t o [of i] True k(3) st v e by (auto simp: parsed_flags_ok_def)
    qed
  next
    case False
    then have "rc \<in> parse_codes" "rc = 0 \<Longrightarrow> r = Some p \<and> dp_content_length p = 0"
      using assms s h k(1) by (auto simp: dmsdp_parse_def Let_def parse_codes_def word_gt_0 split: if_splits option.splits)
    then show ?thesis using k(3) st v by (auto simp: parsed_flags_ok_def parse_codes_def)
  qed
qed

text \<open>A trigger request, parsed to the end.\<close>

lemma dmsdp_parse_total_witness:
  "(let r = dmsdp_parse (Some (bytes_of ''SET_PARAMETER * DMSDP/1.0'' @ CRLF @ bytes_of ''Content-Length:28'' @ CRLF @ CRLF @
      bytes_of ''msdp_trigger_method: CLOSE'' @ CRLF)) in fst r = 0 \<and> fst r \<in> {0, -1, -2, -5, -9} \<and>
      map_option dp_trigger_idx (snd r) = Some 4)"
proof -
  let ?t = "bytes_of ''SET_PARAMETER * DMSDP/1.0'' @ CRLF @ bytes_of ''Content-Length:28'' @ CRLF @ CRLF @
      bytes_of ''msdp_trigger_method: CLOSE'' @ CRLF"
  have "fst (dmsdp_parse (Some ?t)) \<in> {0, -1, -2, -5, -9}"
    using dmsdp_parse_total [of ?t "fst (dmsdp_parse (Some ?t))" "snd (dmsdp_parse (Some ?t))"] by simp
  moreover have "fst (dmsdp_parse (Some ?t)) = 0 \<and> map_option dp_trigger_idx (snd (dmsdp_parse (Some ?t))) = Some 4"
    by code_simp
  ultimately show ?thesis by (simp add: Let_def)
qed

section \<open>The order of a client session\<close>

datatype client_event = ClSend dmsdp_msg nat | ClRecv dmsdp_parsed

definition client_event :: "client_event \<Rightarrow> dmsdp_client \<Rightarrow> dmsdp_client" where
  "client_event e c = (case e of ClSend m cap \<Rightarrow> fst (dmsdp_client_send c m cap) | ClRecv p \<Rightarrow> fst (dmsdp_client_recv c p))"

definition client_run :: "client_event list \<Rightarrow> dmsdp_client \<Rightarrow> dmsdp_client" where
  "client_run es c = fold client_event es c"

definition only_sends :: "client_event list \<Rightarrow> bool" where
  "only_sends es \<longleftrightarrow> list_all (\<lambda>e. case e of ClSend _ _ \<Rightarrow> True | ClRecv _ \<Rightarrow> False) es"

definition good_reply :: "u32 \<Rightarrow> dmsdp_parsed \<Rightarrow> bool" where
  "good_reply cseq p \<longleftrightarrow> dp_type p = 8 \<and> dp_response_fail p = 0 \<and> dp_cseq p = cseq"

lemma client_run_simps [simp]:
  "client_run [] c = c" "client_run (e # es) c = client_run es (client_event e c)"
  by (simp_all add: client_run_def)

lemma client_error_stays: "cl_state c = CL_ERROR \<Longrightarrow> client_run es c = c"
  by (induction es) (simp_all add: client_event_def dmsdp_client_send_def dmsdp_client_recv_def split: client_event.split)

lemma client_ready_stays: "cl_state c = CL_READY \<Longrightarrow> client_run es c = c"
  by (induction es) (simp_all add: client_event_def dmsdp_client_send_def dmsdp_client_recv_def split: client_event.split)

lemma client_emit_state: "client_emit c m cap = (c', w) \<Longrightarrow> c' = c \<and> w \<noteq> None \<or> cl_state c' = CL_ERROR \<and> w = None"
  by (auto simp: client_emit_def split: option.splits)

lemma client_error_not_ready: "cl_state c = CL_ERROR \<Longrightarrow> cl_state (client_run es c) \<noteq> CL_READY"
  by (simp add: client_error_stays)

text \<open>In a waiting state sends are ignored, and the first reply decides.\<close>

lemma client_waits:
  assumes "cl_state c = CL_WAIT_SETUP_REPLY \<or> cl_state c = CL_WAIT_PLAY_REPLY" "cl_state (client_run es c) = CL_READY"
  shows "\<exists>ss p rest. es = ss @ ClRecv p # rest \<and> only_sends ss \<and> good_reply (cl_pending_cseq c) p \<and>
    client_run es c = client_run rest (c\<lparr>cl_state := if cl_state c = CL_WAIT_SETUP_REPLY then CL_SEND_PLAY else CL_READY\<rparr>)"
  using assms(2)
proof (induction es)
  case Nil
  then show ?case using assms(1) by auto
next
  case (Cons e es)
  show ?case
  proof (cases e)
    case (ClSend m cap)
    then have "client_event e c = c" using assms(1) by (auto simp: client_event_def dmsdp_client_send_def)
    then obtain ss p rest where r: "es = ss @ ClRecv p # rest" "only_sends ss" "good_reply (cl_pending_cseq c) p"
      "client_run es c = client_run rest (c\<lparr>cl_state := if cl_state c = CL_WAIT_SETUP_REPLY then CL_SEND_PLAY else CL_READY\<rparr>)"
      using Cons by auto
    then have "e # es = (e # ss) @ ClRecv p # rest" "only_sends (e # ss)" using ClSend by (simp_all add: only_sends_def)
    then show ?thesis using r(3,4) \<open>client_event e c = c\<close> by (metis client_run_simps(2))
  next
    case (ClRecv p)
    have g: "good_reply (cl_pending_cseq c) p"
    proof (rule ccontr)
      assume "\<not> ?thesis"
      then have "cl_state (client_event e c) = CL_ERROR"
        using assms(1) ClRecv by (auto simp: client_event_def dmsdp_client_recv_def good_reply_def DMSDP_TYPE_RESPONSE_def)
      then show False using Cons.prems by (simp add: client_error_not_ready)
    qed
    then have "client_event e c = c\<lparr>cl_state := if cl_state c = CL_WAIT_SETUP_REPLY then CL_SEND_PLAY else CL_READY\<rparr>"
      using assms(1) ClRecv by (auto simp: client_event_def dmsdp_client_recv_def good_reply_def DMSDP_TYPE_RESPONSE_def)
    then show ?thesis using g ClRecv by (intro exI [of _ "[]"] exI [of _ p] exI [of _ es]) (simp add: only_sends_def)
  qed
qed

text \<open>In a sending state the next event is the one good send.\<close>

lemma client_sends:
  assumes "cl_state c = CL_INIT \<and> ty = 1 \<and> n = 0 \<and> s = CL_WAIT_SETUP_REPLY \<or>
      cl_state c = CL_SEND_PLAY \<and> ty = 2 \<and> n = 1 \<and> s = CL_WAIT_PLAY_REPLY" "cl_state (client_run es c) = CL_READY"
  shows "\<exists>m cap rest. es = ClSend m cap # rest \<and> dm_type m = ty \<and> dm_cseq m = n \<and> snd (dmsdp_client_send c m cap) \<noteq> None \<and>
    client_run es c = client_run rest \<lparr>cl_state = s, cl_pending_cseq = n\<rparr>"
proof (cases es)
  case Nil
  then show ?thesis using assms by auto
next
  case (Cons e rest)
  have nr: "cl_state (client_event e c) \<noteq> CL_ERROR" using assms(2) Cons client_error_not_ready [of "client_event e c" rest] by auto
  show ?thesis
  proof (cases e)
    case (ClSend m cap)
    let ?c = "\<lparr>cl_state = s, cl_pending_cseq = n\<rparr>"
    have u: "c\<lparr>cl_state := a, cl_pending_cseq := b\<rparr> = \<lparr>cl_state = a, cl_pending_cseq = b\<rparr>" for a b by (cases c) simp
    have m: "dm_type m = ty \<and> dm_cseq m = n"
      using nr assms(1) ClSend by (auto simp: client_event_def dmsdp_client_send_def DMSDP_TYPE_SETUP_def DMSDP_TYPE_PLAY_def split: if_splits)
    then have s: "dmsdp_client_send c m cap = client_emit ?c m cap"
      using assms(1) by (elim disjE conjE) (simp_all add: dmsdp_client_send_def u DMSDP_TYPE_SETUP_def DMSDP_TYPE_PLAY_def)
    obtain c' w where e: "client_emit ?c m cap = (c', w)" by fastforce
    then have "c' = ?c \<and> w \<noteq> None" using client_emit_state [OF e] nr ClSend s by (simp add: client_event_def)
    then show ?thesis using Cons ClSend m s e by (simp add: client_event_def)
  next
    case (ClRecv p)
    then show ?thesis using nr assms(1) by (auto simp: client_event_def dmsdp_client_recv_def)
  qed
qed

text \<open>
  C28. A client that is ready got there in one order only: it sent SETUP with sequence number 0, then a good reply with that
  number arrived, then PLAY with number 1 went out, then its good reply arrived; in between it refused further sends and
  nothing else happened, and what came later changed nothing.
\<close>

lemma dmsdp_client_order:
  assumes "cl_state (client_run es dmsdp_client_new) = CL_READY"
  shows "\<exists>m1 cap1 s1 p1 m2 cap2 s2 p2 rest.
    es = ClSend m1 cap1 # s1 @ ClRecv p1 # ClSend m2 cap2 # s2 @ ClRecv p2 # rest \<and> only_sends s1 \<and> only_sends s2 \<and>
    dm_type m1 = DMSDP_TYPE_SETUP \<and> dm_cseq m1 = 0 \<and> good_reply 0 p1 \<and>
    dm_type m2 = DMSDP_TYPE_PLAY \<and> dm_cseq m2 = 1 \<and> good_reply 1 p2 \<and>
    snd (dmsdp_client_send dmsdp_client_new m1 cap1) \<noteq> None"
proof -
  obtain m1 cap1 r1 where a: "es = ClSend m1 cap1 # r1" "dm_type m1 = 1" "dm_cseq m1 = 0"
    "snd (dmsdp_client_send dmsdp_client_new m1 cap1) \<noteq> None"
    "client_run es dmsdp_client_new = client_run r1 \<lparr>cl_state = CL_WAIT_SETUP_REPLY, cl_pending_cseq = 0\<rparr>"
    using client_sends [OF _ assms, of 1 0 CL_WAIT_SETUP_REPLY] by (auto simp: dmsdp_client_new_def)
  obtain s1 p1 r2 where b: "r1 = s1 @ ClRecv p1 # r2" "only_sends s1" "good_reply 0 p1"
    "client_run es dmsdp_client_new = client_run r2 \<lparr>cl_state = CL_SEND_PLAY, cl_pending_cseq = 0\<rparr>"
    using client_waits [of "\<lparr>cl_state = CL_WAIT_SETUP_REPLY, cl_pending_cseq = 0\<rparr>" r1] assms a(5) by auto
  obtain m2 cap2 r3 where c: "r2 = ClSend m2 cap2 # r3" "dm_type m2 = 2" "dm_cseq m2 = 1"
    "client_run es dmsdp_client_new = client_run r3 \<lparr>cl_state = CL_WAIT_PLAY_REPLY, cl_pending_cseq = 1\<rparr>"
    using client_sends [of "\<lparr>cl_state = CL_SEND_PLAY, cl_pending_cseq = 0\<rparr>" 2 1 CL_WAIT_PLAY_REPLY r2] assms b(4) by auto
  obtain s2 p2 r4 where d: "r3 = s2 @ ClRecv p2 # r4" "only_sends s2" "good_reply 1 p2"
    using client_waits [of "\<lparr>cl_state = CL_WAIT_PLAY_REPLY, cl_pending_cseq = 1\<rparr>" r3] assms c(4) by auto
  show ?thesis using a(1-4) b(1-3) c(1-3) d by (simp add: DMSDP_TYPE_SETUP_def DMSDP_TYPE_PLAY_def) blast
qed

section \<open>A session with a peer\<close>

lemma emit_fits: "length t + length s < 1400 \<Longrightarrow> emit s (Some t) = Some (t @ s)"
  by (simp add: emit_def DMSDP_TEXT_MAX_def)

lemma dec_length_bound: "length (dec (v :: u32)) \<le> 10"
  by (rule dec_length) simp

lemma session_messages:
  "\<exists>t. dmsdp_build (Some (dmsdp_msg_setup n (Some s) ty sid b clo chi)) 1400 = Some t"
  "\<exists>t. dmsdp_build (Some (dmsdp_msg_setup_reply n (Some s) ty sid clo chi slo shi)) 1400 = Some t"
  "\<exists>t. dmsdp_build (Some (dmsdp_msg_play n (Some s) ty sid)) 1400 = Some t"
  "\<exists>t. dmsdp_build (Some (dmsdp_msg_common_reply n (Some s) ty sid)) 1400 = Some t"
  if "length s \<le> 1000"
proof -
  note lens = dec_length_bound [of n] dec_length_bound [of ty] dec_length_bound [of sid] dec_length_bound [of b]
    dec_length_bound [of clo] dec_length_bound [of chi] dec_length_bound [of slo] dec_length_bound [of shi] that
  note ev = dmsdp_build_def dmsdp_build_text_def emit_if_def emit_string_def emit_transport_def dmsdp_flags
    dmsdp_msg_setup_def dmsdp_msg_setup_reply_def dmsdp_msg_common_reply_def dmsdp_msg_play_def dmsdp_msg_zero_def
    dmsdp_method_lines_def CRLF_def Let_def DMSDP_TYPE_SETUP_def DMSDP_TYPE_PLAY_def DMSDP_TYPE_RESPONSE_def dmsdp_transport_def
  show "\<exists>t. dmsdp_build (Some (dmsdp_msg_setup n (Some s) ty sid b clo chi)) 1400 = Some t" using lens by (simp add: ev emit_fits)
  show "\<exists>t. dmsdp_build (Some (dmsdp_msg_setup_reply n (Some s) ty sid clo chi slo shi)) 1400 = Some t" using lens by (simp add: ev emit_fits)
  show "\<exists>t. dmsdp_build (Some (dmsdp_msg_play n (Some s) ty sid)) 1400 = Some t" using lens by (simp add: ev emit_fits)
  show "\<exists>t. dmsdp_build (Some (dmsdp_msg_common_reply n (Some s) ty sid)) 1400 = Some t" using lens by (simp add: ev emit_fits)
qed

lemma message_strings:
  assumes "text_value s"
  shows "strings_ok (dmsdp_msg_setup n (Some s) ty sid b clo chi)" "strings_ok (dmsdp_msg_setup_reply n (Some s) ty sid clo chi slo shi)"
    "strings_ok (dmsdp_msg_play n (Some s) ty sid)" "strings_ok (dmsdp_msg_common_reply n (Some s) ty sid)"
  using assms by (simp_all add: strings_ok_def dmsdp_msg_setup_def dmsdp_msg_setup_reply_def dmsdp_msg_play_def
      dmsdp_msg_common_reply_def dmsdp_msg_zero_def)

lemmas message_eval = dmsdp_expected_def dmsdp_msg_setup_def dmsdp_msg_setup_reply_def dmsdp_msg_play_def
  dmsdp_msg_common_reply_def dmsdp_msg_zero_def dmsdp_flags dmsdp_parsed_init_def DMSDP_TYPE_SETUP_def DMSDP_TYPE_PLAY_def
  DMSDP_TYPE_RESPONSE_def Let_def

text \<open>Each message of a session is built, and read back with its fields.\<close>

lemma message_trips:
  assumes "text_value s" "length s \<le> 1000"
  shows "\<exists>t. dmsdp_build (Some (dmsdp_msg_setup n (Some s) ty sid b clo chi)) 1400 = Some t \<and> length t < 1400 \<and>
      dmsdp_parse (Some t) = (0, Some (dmsdp_expected (dmsdp_msg_setup n (Some s) ty sid b clo chi)))"
    "\<exists>t. dmsdp_build (Some (dmsdp_msg_setup_reply n (Some s) ty sid clo chi slo shi)) 1400 = Some t \<and> length t < 1400 \<and>
      dmsdp_parse (Some t) = (0, Some (dmsdp_expected (dmsdp_msg_setup_reply n (Some s) ty sid clo chi slo shi)))"
    "\<exists>t. dmsdp_build (Some (dmsdp_msg_play n (Some s) ty sid)) 1400 = Some t \<and> length t < 1400 \<and>
      dmsdp_parse (Some t) = (0, Some (dmsdp_expected (dmsdp_msg_play n (Some s) ty sid)))"
    "\<exists>t. dmsdp_build (Some (dmsdp_msg_common_reply n (Some s) ty sid)) 1400 = Some t \<and> length t < 1400 \<and>
      dmsdp_parse (Some t) = (0, Some (dmsdp_expected (dmsdp_msg_common_reply n (Some s) ty sid)))"
  using session_messages(1) [OF assms(2), of n ty sid b clo chi] session_messages(2) [OF assms(2), of n ty sid clo chi slo shi]
    session_messages(3,4) [OF assms(2), of n ty sid] message_strings(1) [OF assms(1), of n ty sid b clo chi]
    message_strings(2) [OF assms(1), of n ty sid clo chi slo shi] message_strings(3,4) [OF assms(1), of n ty sid]
    build_parse
  by (metis DMSDP_TEXT_MAX_def)+

text \<open>The frame of a text: its type byte, its length and the text.\<close>

definition dmsdp_wire :: "bytes \<Rightarrow> bytes" where
  "dmsdp_wire t = 0 # put_u16 (of_nat (length t)) @ t"

lemma frame_wire: "length t < 1400 \<Longrightarrow> 1403 \<le> cap \<Longrightarrow> dmsdp_frame (Some t) cap = Some (dmsdp_wire t)"
proof -
  assume a: "length t < 1400" "1403 \<le> cap"
  have "(of_nat (length t div 256) :: byte) = ucast (drop_bit 8 (of_nat (length t) :: u16))"
    "(of_nat (length t mod 256) :: byte) = ucast ((of_nat (length t) :: u16) AND 0xff)"
    using a less_mult_imp_div_less [of "length t" 6 256] unfolding mask_literals take_bit_eq_mask [symmetric]
    by (simp_all add: word_unat_eq_iff unat_of_nat unsigned_ucast_eq drop_bit_eq_div take_bit_eq_mod unat_div_distrib unat_mod_distrib)
  then show ?thesis using a by (simp add: dmsdp_frame_def dmsdp_wire_def put_u16_def DMSDP_FRAME_MAX_PAYLOAD_def DMSDP_FRAME_TYPE_NOCRYPTO_def)
qed

lemma expected_reply:
  "good_reply n (dmsdp_expected (dmsdp_msg_setup_reply n s ty sid clo chi slo shi))"
  "good_reply n (dmsdp_expected (dmsdp_msg_common_reply n s ty sid))"
  by (simp_all add: good_reply_def message_eval)

lemma send_accepted:
  assumes "text_value s" "length s \<le> 1000"
  shows "dmsdp_client_send \<lparr>cl_state = CL_INIT, cl_pending_cseq = k\<rparr> (dmsdp_msg_setup 0 (Some s) ty sid b lo hi) 1403 =
      (\<lparr>cl_state = CL_WAIT_SETUP_REPLY, cl_pending_cseq = 0\<rparr>,
       map_option dmsdp_wire (dmsdp_build (Some (dmsdp_msg_setup 0 (Some s) ty sid b lo hi)) 1400))"
    "dmsdp_client_send \<lparr>cl_state = CL_SEND_PLAY, cl_pending_cseq = k\<rparr> (dmsdp_msg_play 1 (Some s) ty sid) 1403 =
      (\<lparr>cl_state = CL_WAIT_PLAY_REPLY, cl_pending_cseq = 1\<rparr>, map_option dmsdp_wire (dmsdp_build (Some (dmsdp_msg_play 1 (Some s) ty sid)) 1400))"
proof -
  have t: "dm_type (dmsdp_msg_setup 0 (Some s) ty sid b lo hi) = 1" "dm_cseq (dmsdp_msg_setup 0 (Some s) ty sid b lo hi) = 0"
    "dm_type (dmsdp_msg_play 1 (Some s) ty sid) = 2" "dm_cseq (dmsdp_msg_play 1 (Some s) ty sid) = 1"
    by (simp_all add: dmsdp_msg_setup_def dmsdp_msg_play_def dmsdp_msg_zero_def DMSDP_TYPE_SETUP_def DMSDP_TYPE_PLAY_def)
  show "dmsdp_client_send \<lparr>cl_state = CL_INIT, cl_pending_cseq = k\<rparr> (dmsdp_msg_setup 0 (Some s) ty sid b lo hi) 1403 =
      (\<lparr>cl_state = CL_WAIT_SETUP_REPLY, cl_pending_cseq = 0\<rparr>,
       map_option dmsdp_wire (dmsdp_build (Some (dmsdp_msg_setup 0 (Some s) ty sid b lo hi)) 1400))"
    using message_trips(1) [OF assms, of 0 ty sid b lo hi] t frame_wire [of _ 1403]
    by (auto simp: dmsdp_client_send_def client_emit_def DMSDP_TYPE_SETUP_def DMSDP_TEXT_MAX_def)
  show "dmsdp_client_send \<lparr>cl_state = CL_SEND_PLAY, cl_pending_cseq = k\<rparr> (dmsdp_msg_play 1 (Some s) ty sid) 1403 =
      (\<lparr>cl_state = CL_WAIT_PLAY_REPLY, cl_pending_cseq = 1\<rparr>, map_option dmsdp_wire (dmsdp_build (Some (dmsdp_msg_play 1 (Some s) ty sid)) 1400))"
    using message_trips(3) [OF assms, of 1 ty sid] t frame_wire [of _ 1403]
    by (auto simp: dmsdp_client_send_def client_emit_def DMSDP_TYPE_PLAY_def DMSDP_TEXT_MAX_def)
qed

lemma dmsdp_client_order_witness:
  "let es = [ClSend (dmsdp_msg_setup 0 (Some [65]) 0 1 0 5 5) 1403, ClRecv (dmsdp_parsed_init\<lparr>dp_type := 8\<rparr>),
       ClSend (dmsdp_msg_play 1 (Some [65]) 0 1) 1403, ClRecv (dmsdp_parsed_init\<lparr>dp_type := 8, dp_cseq := 1\<rparr>)]
   in cl_state (client_run es dmsdp_client_new) = CL_READY \<and> (\<exists>m cap rest. es = ClSend m cap # rest \<and> dm_type m = DMSDP_TYPE_SETUP)"
proof -
  let ?es = "[ClSend (dmsdp_msg_setup 0 (Some [65]) 0 1 0 5 5) 1403, ClRecv (dmsdp_parsed_init\<lparr>dp_type := 8\<rparr>),
       ClSend (dmsdp_msg_play 1 (Some [65]) 0 1) 1403, ClRecv (dmsdp_parsed_init\<lparr>dp_type := 8, dp_cseq := 1\<rparr>)]"
  have "text_value [65]" "length [65 :: byte] \<le> 1000" by (simp_all add: text_value_def SP_def)
  from send_accepted [OF this] have "cl_state (client_run ?es dmsdp_client_new) = CL_READY"
    by (simp add: client_event_def dmsdp_client_new_def dmsdp_client_recv_def dmsdp_parsed_init_def DMSDP_TYPE_RESPONSE_def)
  with dmsdp_client_order [OF this] show ?thesis by (auto simp: Let_def)
qed

end
