(* ===== verification/RemoteInput.thy ===== *)
theory RemoteInput
  imports Prelude
begin

text \<open>
  The encoder of the remote-control packets that carry mouse, touch and keyboard events to the
  phone (\<open>src/proto/remote_input.c\<close>).

  The encoder clears the packet in the caller's buffer and then writes single fields into it, so
  the model does the same: \<open>poke\<close> overwrites bytes of the buffer and is \<open>None\<close> outside it, and
  reading an array of the event past its end is \<open>None\<close> too.  A \<open>gdouble\<close> is its bit pattern;
  converting one that has no 32-bit integer part is undefined and \<open>None\<close> as well.  The result has
  two layers: the outer \<open>None\<close> is undefined behaviour, the inner one the return value -1.
\<close>

type_synonym double = u64

definition REMOTE_INPUT_HDR_LEN :: nat where "REMOTE_INPUT_HDR_LEN = 10"
definition REMOTE_INPUT_MAX_TOTAL :: nat where "REMOTE_INPUT_MAX_TOTAL = 512"

definition REMOTE_INPUT_TOUCH :: u32 where "REMOTE_INPUT_TOUCH = 0"
definition REMOTE_INPUT_KEY :: u32 where "REMOTE_INPUT_KEY = 1"
definition REMOTE_INPUT_ZOOM :: u32 where "REMOTE_INPUT_ZOOM = 2"
definition REMOTE_INPUT_SCROLL :: u32 where "REMOTE_INPUT_SCROLL = 3"
definition REMOTE_INPUT_MOUSE :: u32 where "REMOTE_INPUT_MOUSE = 6"
definition REMOTE_INPUT_INPUT7 :: u32 where "REMOTE_INPUT_INPUT7 = 7"
definition REMOTE_INPUT_WHEEL :: u32 where "REMOTE_INPUT_WHEEL = 8"
definition REMOTE_INPUT_VKEY :: u32 where "REMOTE_INPUT_VKEY = 9"
definition REMOTE_INPUT_MESSAGE :: u32 where "REMOTE_INPUT_MESSAGE = 0xa"

lemmas ri_types = REMOTE_INPUT_TOUCH_def REMOTE_INPUT_KEY_def REMOTE_INPUT_ZOOM_def REMOTE_INPUT_SCROLL_def
  REMOTE_INPUT_MOUSE_def REMOTE_INPUT_INPUT7_def REMOTE_INPUT_WHEEL_def REMOTE_INPUT_VKEY_def
  REMOTE_INPUT_MESSAGE_def

section \<open>Events\<close>

record remote_input_event =
  ri_type :: u32
  ri_subtype :: u32
  ri_flags1 :: byte
  ri_flags2 :: byte
  touch_cnt :: byte
  touch_ids :: bytes
  touch_x :: "double list"
  touch_y :: "double list"
  key_f16a :: u16
  key_f16b :: u16
  key_f32 :: u32
  zoom_x :: double
  zoom_y :: double
  zoom_pressure :: double
  scroll_axis :: byte
  scroll_delta :: byte
  mouse_button :: byte
  mouse_x :: double
  mouse_y :: double
  mouse_z :: double
  mouse_w :: double
  ri_content :: "bytes option"
  content_len :: u16
  focus_f1 :: byte
  focus_f2 :: double
  focus_f3 :: double
  focus_f4 :: double
  focus_f5 :: double
  wheel_dir :: byte
  wheel_f1 :: u16
  wheel_x :: double
  wheel_y :: double
  vkey_x :: double
  vkey_y :: double
  msg_len :: u32
  msg_payload :: "bytes option"

text \<open>The integer part of a double, \<open>None\<close> for an infinity or a NaN.\<close>

definition double_trunc :: "double \<Rightarrow> int option" where
  "double_trunc d =
     (let s = drop_bit 63 d;
          e = unat (drop_bit 52 d AND 0x7ff);
          m = 2 ^ 52 + unat (d AND 0xfffffffffffff);
          n = (if e < 1023 then 0 else m * 2 ^ (e - 1023) div 2 ^ 52)
      in if e = 2047 then None else Some (if s = 0 then int n else - int n))"

text \<open>\<open>(guint16)(gint32)v\<close>\<close>

definition d16 :: "double \<Rightarrow> u16 option" where
  "d16 d = (case double_trunc d of
      None \<Rightarrow> None
    | Some i \<Rightarrow> if - (2 ^ 31) \<le> i \<and> i < 2 ^ 31 then Some (word_of_int i) else None)"

definition lenfield :: "nat \<Rightarrow> u16" where
  "lenfield L = of_nat (L mod 2 + (L - 3))"

definition body_len :: "remote_input_event \<Rightarrow> nat option" where
  "body_len ev =
     (if ri_type ev = REMOTE_INPUT_TOUCH then
        if touch_cnt ev < 1 \<or> 4 < touch_cnt ev \<or> 2 < ri_subtype ev then None
        else Some (9 * unat (touch_cnt ev) + 4)
      else if ri_type ev = REMOTE_INPUT_KEY then if 1 < ri_subtype ev then None else Some 12
      else if ri_type ev = REMOTE_INPUT_ZOOM then Some 9
      else if ri_type ev = REMOTE_INPUT_SCROLL then if 1 < ri_subtype ev then None else Some 5
      else if ri_type ev = REMOTE_INPUT_MOUSE then if 2 < ri_subtype ev then None else Some 12
      else if ri_type ev = REMOTE_INPUT_INPUT7 then
        if ri_subtype ev = 0 then
          if 472 < content_len ev then None
          else if 0 < content_len ev \<and> ri_content ev = None then None
          else Some (unat (content_len ev) + 5)
        else if ri_subtype ev = 1 then Some 12
        else None
      else if ri_type ev = REMOTE_INPUT_WHEEL then if 1 < ri_subtype ev then None else Some 10
      else if ri_type ev = REMOTE_INPUT_VKEY then if 3 < ri_subtype ev then None else Some 7
      else if ri_type ev = REMOTE_INPUT_MESSAGE then
        if 1 < ri_subtype ev then None
        else if msg_len ev < 2 \<or> 472 < msg_len ev then None
        else if msg_payload ev = None then None
        else Some (unat (msg_len ev) + 5)
      else None)"

section \<open>Writing a packet\<close>

definition poke :: "nat \<Rightarrow> bytes \<Rightarrow> bytes \<Rightarrow> bytes option" where
  "poke off bs buf =
     (if off + length bs \<le> length buf then Some (take off buf @ bs @ drop (off + length bs) buf) else None)"

definition elem_at :: "'a list \<Rightarrow> nat \<Rightarrow> 'a option" where
  "elem_at xs i = (if i < length xs then Some (xs ! i) else None)"

definition b_at :: "nat \<Rightarrow> byte \<Rightarrow> bytes \<Rightarrow> bytes option" where
  "b_at k v = poke (REMOTE_INPUT_HDR_LEN + k) [v]"

definition b_u16 :: "nat \<Rightarrow> u16 \<Rightarrow> bytes \<Rightarrow> bytes option" where
  "b_u16 k v = poke (REMOTE_INPUT_HDR_LEN + k) (put_u16 v)"

definition b_d16 :: "nat \<Rightarrow> double \<Rightarrow> bytes \<Rightarrow> bytes option" where
  "b_d16 k d buf = do { v \<leftarrow> d16 d; b_u16 k v buf }"

definition touch_action :: "bytes" where "touch_action = [0x0e, 0x0f, 0x02]"
definition mouse_action :: "bytes" where "mouse_action = [0x0e, 0x0f, 0x10]"

text \<open>The loop over the touch points from the \<open>i\<close>-th on, \<open>n\<close> of them left.\<close>

fun touch_points :: "remote_input_event \<Rightarrow> nat \<Rightarrow> nat \<Rightarrow> bytes \<Rightarrow> bytes option" where
  "touch_points ev i 0 buf = Some buf"
| "touch_points ev i (Suc n) buf = do {
     let q = 4 + 5 * i;
     c \<leftarrow> elem_at (touch_ids ev) i;
     x \<leftarrow> elem_at (touch_x ev) i;
     y \<leftarrow> elem_at (touch_y ev) i;
     buf \<leftarrow> b_at q c buf;
     buf \<leftarrow> b_d16 (q + 1) x buf;
     buf \<leftarrow> b_d16 (q + 3) y buf;
     touch_points ev (i + 1) n buf }"

definition write_body :: "remote_input_event \<Rightarrow> nat \<Rightarrow> bytes \<Rightarrow> bytes option" where
  "write_body ev L buf =
     (if ri_type ev = REMOTE_INPUT_TOUCH then do {
        act \<leftarrow> elem_at touch_action (unat (ri_subtype ev));
        buf \<leftarrow> b_at 0 act buf;
        buf \<leftarrow> b_u16 1 (lenfield L) buf;
        buf \<leftarrow> b_at 3 (touch_cnt ev) buf;
        touch_points ev 0 (unat (touch_cnt ev)) buf }
      else if ri_type ev = REMOTE_INPUT_KEY then do {
        buf \<leftarrow> b_at 0 (ucast (3 + ri_subtype ev)) buf;
        buf \<leftarrow> b_u16 1 9 buf;
        buf \<leftarrow> b_at 3 0 buf;
        buf \<leftarrow> b_u16 4 (key_f16a ev) buf;
        buf \<leftarrow> b_u16 6 (key_f16b ev) buf;
        poke (REMOTE_INPUT_HDR_LEN + 8) (put_u32 (key_f32 ev)) buf }
      else if ri_type ev = REMOTE_INPUT_ZOOM then do {
        buf \<leftarrow> b_at 0 5 buf;
        buf \<leftarrow> b_u16 1 7 buf;
        buf \<leftarrow> b_d16 3 (zoom_x ev) buf;
        buf \<leftarrow> b_d16 5 (zoom_y ev) buf;
        buf \<leftarrow> b_at 7 (ucast (zoom_pressure ev AND 0xff)) buf;
        b_at 8 (ucast (drop_bit 8 (zoom_pressure ev) AND 0xff)) buf }
      else if ri_type ev = REMOTE_INPUT_SCROLL then do {
        buf \<leftarrow> b_at 0 (ucast (6 + ri_subtype ev)) buf;
        buf \<leftarrow> b_u16 1 3 buf;
        buf \<leftarrow> b_at 3 (scroll_axis ev) buf;
        b_at 4 (scroll_delta ev) buf }
      else if ri_type ev = REMOTE_INPUT_MOUSE then do {
        act \<leftarrow> elem_at mouse_action (unat (ri_subtype ev));
        buf \<leftarrow> b_at 0 act buf;
        buf \<leftarrow> b_u16 1 9 buf;
        buf \<leftarrow> b_at 3 (mouse_button ev) buf;
        buf \<leftarrow> b_d16 4 (mouse_x ev) buf;
        buf \<leftarrow> b_d16 6 (mouse_y ev) buf;
        buf \<leftarrow> b_d16 8 (mouse_z ev) buf;
        b_d16 10 (mouse_w ev) buf }
      else if ri_type ev = REMOTE_INPUT_INPUT7 then
        if ri_subtype ev = 0 then do {
          buf \<leftarrow> b_at 0 0 buf;
          buf \<leftarrow> b_u16 1 (lenfield L) buf;
          buf \<leftarrow> b_u16 3 (content_len ev) buf;
          if 0 < content_len ev then do {
            s \<leftarrow> ri_content ev;
            d \<leftarrow> get_bytes s 0 (unat (content_len ev));
            poke (REMOTE_INPUT_HDR_LEN + 5) d buf }
          else Some buf }
        else do {
          buf \<leftarrow> b_at 0 1 buf;
          buf \<leftarrow> b_u16 1 9 buf;
          buf \<leftarrow> b_at 3 (focus_f1 ev) buf;
          buf \<leftarrow> b_d16 4 (focus_f2 ev) buf;
          buf \<leftarrow> b_d16 6 (focus_f3 ev) buf;
          buf \<leftarrow> b_d16 8 (focus_f4 ev) buf;
          b_d16 10 (focus_f5 ev) buf }
      else if ri_type ev = REMOTE_INPUT_WHEEL then do {
        buf \<leftarrow> b_at 0 (ucast (0x0c + ri_subtype ev)) buf;
        buf \<leftarrow> b_u16 1 7 buf;
        buf \<leftarrow> b_at 3 (push_bit 1 (wheel_dir ev AND 0x06) OR (wheel_dir ev AND 0x01)) buf;
        buf \<leftarrow> b_u16 4 (wheel_f1 ev) buf;
        buf \<leftarrow> b_d16 6 (wheel_x ev) buf;
        b_d16 8 (wheel_y ev) buf }
      else if ri_type ev = REMOTE_INPUT_VKEY then do {
        buf \<leftarrow> b_at 0 (ucast (2 + ri_subtype ev)) buf;
        buf \<leftarrow> b_u16 1 5 buf;
        buf \<leftarrow> b_d16 3 (vkey_x ev) buf;
        b_d16 5 (vkey_y ev) buf }
      else do {
        buf \<leftarrow> b_at 0 (ucast (6 + ri_subtype ev)) buf;
        buf \<leftarrow> b_u16 1 (lenfield L) buf;
        buf \<leftarrow> b_u16 3 (ucast (msg_len ev)) buf;
        buf \<leftarrow> b_u16 5 (ucast (drop_bit 16 (msg_len ev))) buf;
        s \<leftarrow> msg_payload ev;
        d \<leftarrow> get_bytes s 0 (unat (msg_len ev - 2));
        poke (REMOTE_INPUT_HDR_LEN + 7) d buf })"

definition header_bits :: "remote_input_event \<Rightarrow> byte" where
  "header_bits ev =
     push_bit 1 (drop_bit 6 (ri_flags1 ev) AND 1) OR push_bit 2 (drop_bit 5 (ri_flags1 ev) AND 1) OR
     push_bit 3 (drop_bit 3 (ri_flags1 ev) AND 1)"

definition header_class :: "remote_input_event \<Rightarrow> byte" where
  "header_class ev =
     (if ri_type ev = REMOTE_INPUT_INPUT7 then 2
      else if ri_type ev = REMOTE_INPUT_VKEY then 3
      else if ri_type ev = REMOTE_INPUT_MESSAGE then 4
      else 0)"

definition remote_input_build ::
  "remote_input_event option \<Rightarrow> u32 \<Rightarrow> bytes option \<Rightarrow> nat \<Rightarrow> (bytes \<times> nat) option option" where
  "remote_input_build evp ts out cap =
     (case (evp, out) of
        (Some ev, Some buf) \<Rightarrow>
          (case body_len ev of
             None \<Rightarrow> Some None
           | Some L \<Rightarrow>
               let pad = (L + 4) mod 2;
                   total = REMOTE_INPUT_HDR_LEN + L + 4 + pad
               in if cap < total then Some None
                  else do {
                    buf \<leftarrow> poke 0 (replicate total 0) buf;
                    buf \<leftarrow> write_body ev L buf;
                    buf \<leftarrow> poke 0 [header_bits ev] buf;
                    buf \<leftarrow> poke 1 [header_class ev] buf;
                    buf \<leftarrow> poke 2 (put_u16 (of_nat total)) buf;
                    buf \<leftarrow> poke 4 [ri_flags2 ev] buf;
                    buf \<leftarrow> poke (REMOTE_INPUT_HDR_LEN + L) (put_u32 ts) buf;
                    Some (Some (buf, total)) })
      | _ \<Rightarrow> Some None)"

section \<open>The packet as a list\<close>

text \<open>
  What the packet is meant to be, as the table of the protocol notes gives it: the fields of the
  body one after the other, then the header, the time and the padding around it.
\<close>

fun ri_points :: "bytes \<Rightarrow> u16 list \<Rightarrow> u16 list \<Rightarrow> bytes" where
  "ri_points (c # cs) (x # xs) (y # ys) = c # put_u16 x @ put_u16 y @ ri_points cs xs ys"
| "ri_points _ _ _ = []"

fun all_d16 :: "double list \<Rightarrow> u16 list option" where
  "all_d16 [] = Some []"
| "all_d16 (d # ds) = do { v \<leftarrow> d16 d; vs \<leftarrow> all_d16 ds; Some (v # vs) }"

definition ri_body :: "remote_input_event \<Rightarrow> bytes option" where
  "ri_body ev =
     (if ri_type ev = REMOTE_INPUT_TOUCH then do {
        let n = unat (touch_cnt ev);
        xs \<leftarrow> all_d16 (take n (touch_x ev));
        ys \<leftarrow> all_d16 (take n (touch_y ev));
        Some (touch_action ! unat (ri_subtype ev) # put_u16 (lenfield (9 * n + 4)) @ touch_cnt ev #
          ri_points (take n (touch_ids ev)) xs ys @ replicate (4 * n) 0) }
      else if ri_type ev = REMOTE_INPUT_KEY then
        Some (ucast (3 + ri_subtype ev) # put_u16 9 @ 0 # put_u16 (key_f16a ev) @ put_u16 (key_f16b ev) @ put_u32 (key_f32 ev))
      else if ri_type ev = REMOTE_INPUT_ZOOM then do {
        x \<leftarrow> d16 (zoom_x ev); y \<leftarrow> d16 (zoom_y ev);
        Some (5 # put_u16 7 @ put_u16 x @ put_u16 y @ [ucast (zoom_pressure ev AND 0xff), ucast (drop_bit 8 (zoom_pressure ev) AND 0xff)]) }
      else if ri_type ev = REMOTE_INPUT_SCROLL then
        Some (ucast (6 + ri_subtype ev) # put_u16 3 @ [scroll_axis ev, scroll_delta ev])
      else if ri_type ev = REMOTE_INPUT_MOUSE then do {
        x \<leftarrow> d16 (mouse_x ev); y \<leftarrow> d16 (mouse_y ev); z \<leftarrow> d16 (mouse_z ev); w \<leftarrow> d16 (mouse_w ev);
        Some (mouse_action ! unat (ri_subtype ev) # put_u16 9 @ mouse_button ev # put_u16 x @ put_u16 y @ put_u16 z @ put_u16 w) }
      else if ri_type ev = REMOTE_INPUT_INPUT7 then
        if ri_subtype ev = 0 then
          let n = unat (content_len ev) in
          Some (0 # put_u16 (lenfield (n + 5)) @ put_u16 (content_len ev) @ (if n = 0 then [] else take n (the (ri_content ev))))
        else do {
          x \<leftarrow> d16 (focus_f2 ev); y \<leftarrow> d16 (focus_f3 ev); z \<leftarrow> d16 (focus_f4 ev); w \<leftarrow> d16 (focus_f5 ev);
          Some (1 # put_u16 9 @ focus_f1 ev # put_u16 x @ put_u16 y @ put_u16 z @ put_u16 w) }
      else if ri_type ev = REMOTE_INPUT_WHEEL then do {
        x \<leftarrow> d16 (wheel_x ev); y \<leftarrow> d16 (wheel_y ev);
        Some (ucast (0x0c + ri_subtype ev) # put_u16 7 @ (push_bit 1 (wheel_dir ev AND 0x06) OR (wheel_dir ev AND 0x01)) #
          put_u16 (wheel_f1 ev) @ put_u16 x @ put_u16 y) }
      else if ri_type ev = REMOTE_INPUT_VKEY then do {
        x \<leftarrow> d16 (vkey_x ev); y \<leftarrow> d16 (vkey_y ev);
        Some (ucast (2 + ri_subtype ev) # put_u16 5 @ put_u16 x @ put_u16 y) }
      else
        Some (ucast (6 + ri_subtype ev) # put_u16 (lenfield (unat (msg_len ev) + 5)) @ put_u16 (ucast (msg_len ev)) @ put_u16 0 @
          take (unat (msg_len ev) - 2) (the (msg_payload ev))))"

definition ri_packet :: "remote_input_event \<Rightarrow> bytes \<Rightarrow> u32 \<Rightarrow> bytes" where
  "ri_packet ev body ts =
     (let pad = length body mod 2; total = 14 + length body + pad in
      [header_bits ev, header_class ev] @ put_u16 (of_nat total) @ [ri_flags2 ev, 0, 0, 0, 0, 0] @
      body @ put_u32 ts @ replicate pad 0)"

section \<open>The writes, one after the other\<close>

lemma poke_next:
  "off = length pre \<Longrightarrow> length bs \<le> n \<Longrightarrow>
   poke off bs (pre @ (replicate n 0 @ r)) = Some ((pre @ bs) @ (replicate (n - length bs) 0 @ r))"
  by (auto simp: poke_def drop_replicate)

lemma b_at_next:
  "length pre = 10 + k \<Longrightarrow> 1 \<le> n \<Longrightarrow>
   b_at k v (pre @ (replicate n 0 @ r)) = Some ((pre @ [v]) @ (replicate (n - 1) 0 @ r))"
  by (simp add: b_at_def REMOTE_INPUT_HDR_LEN_def poke_next del: append_assoc)

lemma b_u16_next:
  "length pre = 10 + k \<Longrightarrow> 2 \<le> n \<Longrightarrow>
   b_u16 k v (pre @ (replicate n 0 @ r)) = Some ((pre @ put_u16 v) @ (replicate (n - 2) 0 @ r))"
  by (simp add: b_u16_def REMOTE_INPUT_HDR_LEN_def poke_next del: append_assoc)

lemma b_d16_next:
  "length pre = 10 + k \<Longrightarrow> 2 \<le> n \<Longrightarrow>
   b_d16 k d (pre @ (replicate n 0 @ r)) =
     do { v \<leftarrow> d16 d; Some ((pre @ put_u16 v) @ (replicate (n - 2) 0 @ r)) }"
  by (simp add: b_d16_def b_u16_next del: append_assoc)

lemmas writes_next = b_at_next b_u16_next b_d16_next poke_next

lemma elem_drop: "i < length xs \<Longrightarrow> take (Suc n) (drop i xs) = xs ! i # take n (drop (Suc i) xs)"
  by (metis Cons_nth_drop_Suc take_Suc_Cons)

lemma touch_points_list:
  assumes "length pre = 14 + 5 * i" "5 * n \<le> m" "i + n \<le> length (touch_ids ev)" "i + n \<le> length (touch_x ev)"
    "i + n \<le> length (touch_y ev)"
  shows "touch_points ev i n (pre @ (replicate m 0 @ r)) =
    do { xs \<leftarrow> all_d16 (take n (drop i (touch_x ev)));
         ys \<leftarrow> all_d16 (take n (drop i (touch_y ev)));
         Some ((pre @ ri_points (take n (drop i (touch_ids ev))) xs ys) @ (replicate (m - 5 * n) 0 @ r)) }"
  using assms
proof (induction n arbitrary: i pre m)
  case (Suc n)
  have "touch_points ev (Suc i) n ((((pre @ [c]) @ put_u16 x) @ put_u16 y) @ (replicate (m - 5) 0 @ r)) =
    do { xs \<leftarrow> all_d16 (take n (drop (Suc i) (touch_x ev)));
         ys \<leftarrow> all_d16 (take n (drop (Suc i) (touch_y ev)));
         Some (((((pre @ [c]) @ put_u16 x) @ put_u16 y) @ ri_points (take n (drop (Suc i) (touch_ids ev))) xs ys) @
           (replicate (m - 5 - 5 * n) 0 @ r)) }" for c x y
    using Suc.prems by (intro Suc.IH) auto
  then show ?case using Suc.prems
    by (cases "d16 (touch_x ev ! i)"; cases "d16 (touch_y ev ! i)")
      (simp_all add: elem_at_def elem_drop writes_next del: append_assoc, simp_all add: Option.bind_def eval_nat_numeral split: option.splits)
qed simp

text \<open>What the C types and the caller guarantee of an event: the arrays have four elements, and the
  texts are as long as announced.\<close>

definition event_ok :: "remote_input_event \<Rightarrow> bool" where
  "event_ok ev \<longleftrightarrow> length (touch_ids ev) = 4 \<and> length (touch_x ev) = 4 \<and> length (touch_y ev) = 4 \<and>
     (\<forall>s. ri_content ev = Some s \<longrightarrow> unat (content_len ev) \<le> length s) \<and>
     (\<forall>s. msg_payload ev = Some s \<longrightarrow> unat (msg_len ev) - 2 \<le> length s)"

lemma word_small_cases:
  "\<not> 1 < (v :: u32) \<Longrightarrow> v = 0 \<or> v = 1"
  "\<not> 2 < v \<Longrightarrow> v = 0 \<or> v = 1 \<or> v = 2"
  by (simp_all add: word_less_nat_alt word_unat_eq_iff) arith+

lemma write_touch:
  assumes "ri_type ev = REMOTE_INPUT_TOUCH" "body_len ev = Some L" "event_ok ev" "length h = 10"
  shows "write_body ev L (h @ (replicate (L + m) 0 @ r)) =
    do { b \<leftarrow> ri_body ev; Some ((h @ b) @ (replicate m 0 @ r)) }"
proof -
  have t: "L = 9 * unat (touch_cnt ev) + 4" "unat (touch_cnt ev) \<le> 4" "ri_subtype ev \<in> {0, 1, 2}"
    using assms(1,2) word_small_cases(2) by (auto simp: body_len_def word_le_nat_alt not_less split: if_splits)
  then have "elem_at touch_action (unat (ri_subtype ev)) = Some (touch_action ! unat (ri_subtype ev))"
    by (auto simp: elem_at_def touch_action_def)
  moreover have "touch_points ev 0 (unat (touch_cnt ev))
      ((((h @ [a]) @ put_u16 l) @ [c]) @ (replicate (L + m - 4) 0 @ r)) =
    do { xs \<leftarrow> all_d16 (take (unat (touch_cnt ev)) (touch_x ev));
         ys \<leftarrow> all_d16 (take (unat (touch_cnt ev)) (touch_y ev));
         Some (((((h @ [a]) @ put_u16 l) @ [c]) @ ri_points (take (unat (touch_cnt ev)) (touch_ids ev)) xs ys) @
           (replicate (L + m - 4 - 5 * unat (touch_cnt ev)) 0 @ r)) }" for a l c
    using touch_points_list [of "((h @ [a]) @ put_u16 l) @ [c]" 0 "unat (touch_cnt ev)" "L + m - 4" ev r] t assms(3,4)
    by (simp add: event_ok_def del: append_assoc replicate_Suc)
  moreover have "L + m - 4 - 5 * unat (touch_cnt ev) = 4 * unat (touch_cnt ev) + m" using t by simp
  ultimately show ?thesis using assms(1,4) t
    by (simp add: write_body_def ri_body_def writes_next del: append_assoc replicate_Suc)
      (simp add: Let_def replicate_add)
qed

lemma write_content:
  assumes "ri_type ev = REMOTE_INPUT_INPUT7" "body_len ev = Some L" "event_ok ev" "length h = 10"
  shows "write_body ev L (h @ (replicate (L + m) 0 @ r)) =
    do { b \<leftarrow> ri_body ev; Some ((h @ b) @ (replicate m 0 @ r)) }"
proof (cases "ri_subtype ev = 0")
  case True
  then have L: "L = unat (content_len ev) + 5" "content_len ev \<noteq> 0 \<longrightarrow> ri_content ev \<noteq> None"
    using assms(1,2) by (auto simp: body_len_def ri_types word_gt_0 split: if_splits)
  show ?thesis
  proof (cases "content_len ev = 0")
    case True
    then show ?thesis using assms L \<open>ri_subtype ev = 0\<close>
      by (simp add: write_body_def ri_body_def ri_types writes_next del: append_assoc replicate_Suc)
  next
    case False
    then obtain s where s: "ri_content ev = Some s" using L by auto
    then have "get_bytes s 0 (unat (content_len ev)) = Some (take (unat (content_len ev)) s)"
      using assms(3) by (simp add: get_bytes_def event_ok_def)
    moreover have "length (take (unat (content_len ev)) s) = unat (content_len ev)"
      using assms(3) s by (simp add: event_ok_def)
    ultimately show ?thesis using assms L s False \<open>ri_subtype ev = 0\<close>
      by (simp add: write_body_def ri_body_def ri_types writes_next REMOTE_INPUT_HDR_LEN_def word_gt_0 unat_eq_zero
          Let_def del: append_assoc replicate_Suc length_take)
  qed
next
  case False
  then have L: "L = 12" using assms(1,2) by (auto simp: body_len_def ri_types split: if_splits)
  show ?thesis using assms False unfolding L
    by (simp add: write_body_def ri_body_def ri_types writes_next del: append_assoc replicate_Suc)
      (simp add: Option.bind_def eval_nat_numeral split: option.splits)
qed

lemma write_message:
  assumes "ri_type ev = REMOTE_INPUT_MESSAGE" "body_len ev = Some L" "event_ok ev" "length h = 10"
  shows "write_body ev L (h @ (replicate (L + m) 0 @ r)) =
    do { b \<leftarrow> ri_body ev; Some ((h @ b) @ (replicate m 0 @ r)) }"
proof -
  have L: "L = unat (msg_len ev) + 5" "2 \<le> unat (msg_len ev)" "unat (msg_len ev) \<le> 472" "msg_payload ev \<noteq> None"
    using assms(1,2) by (auto simp: body_len_def ri_types not_less word_le_nat_alt split: if_splits)
  then obtain s where s: "msg_payload ev = Some s" by auto
  let ?d = "take (unat (msg_len ev) - 2) s"
  have n: "unat (msg_len ev - 2) = unat (msg_len ev) - 2" using L(2) by (simp add: unat_sub word_le_nat_alt)
  have d: "length ?d = unat (msg_len ev) - 2" using assms(3) s by (simp add: event_ok_def)
  then have g: "get_bytes s 0 (unat (msg_len ev - 2)) = Some ?d" unfolding n by (simp add: get_bytes_def)
  have z: "ucast (drop_bit 16 (msg_len ev)) = (0 :: u16)"
    using L(3) by (simp add: word_unat_eq_iff unsigned_ucast_eq unat_drop_bit_eq drop_bit_nat_def)
  show ?thesis using assms s L d g z
    by (simp add: write_body_def ri_body_def ri_types writes_next REMOTE_INPUT_HDR_LEN_def del: append_assoc replicate_Suc length_take)
qed

lemma write_fixed:
  assumes "ri_type ev \<in> {REMOTE_INPUT_KEY, REMOTE_INPUT_ZOOM, REMOTE_INPUT_SCROLL}" "body_len ev = Some L" "length h = 10"
  shows "write_body ev L (h @ (replicate (L + m) 0 @ r)) =
    do { b \<leftarrow> ri_body ev; Some ((h @ b) @ (replicate m 0 @ r)) }"
proof -
  have L: "L = (if ri_type ev = REMOTE_INPUT_KEY then 12 else if ri_type ev = REMOTE_INPUT_ZOOM then 9 else 5)"
    using assms(1,2) by (auto simp: body_len_def ri_types split: if_splits)
  show ?thesis using assms(1,3) unfolding L
    by (auto simp add: write_body_def ri_body_def ri_types writes_next REMOTE_INPUT_HDR_LEN_def simp del: append_assoc replicate_Suc)
      (simp_all add: Option.bind_def eval_nat_numeral split: option.splits)
qed

lemma write_fixed2:
  assumes "ri_type ev \<in> {REMOTE_INPUT_MOUSE, REMOTE_INPUT_WHEEL, REMOTE_INPUT_VKEY}" "body_len ev = Some L" "length h = 10"
  shows "write_body ev L (h @ (replicate (L + m) 0 @ r)) =
    do { b \<leftarrow> ri_body ev; Some ((h @ b) @ (replicate m 0 @ r)) }"
proof -
  have L: "L = (if ri_type ev = REMOTE_INPUT_MOUSE then 12 else if ri_type ev = REMOTE_INPUT_WHEEL then 10 else 7)"
    using assms(1,2) by (auto simp: body_len_def ri_types split: if_splits)
  have "ri_type ev = REMOTE_INPUT_MOUSE \<Longrightarrow> ri_subtype ev \<in> {0, 1, 2}"
    using assms(2) word_small_cases(2) by (auto simp: body_len_def ri_types split: if_splits)
  then have "ri_type ev = REMOTE_INPUT_MOUSE \<Longrightarrow>
      elem_at mouse_action (unat (ri_subtype ev)) = Some (mouse_action ! unat (ri_subtype ev))"
    by (auto simp: elem_at_def mouse_action_def)
  then show ?thesis using assms(1,3) unfolding L
    by (auto simp add: write_body_def ri_body_def ri_types writes_next REMOTE_INPUT_HDR_LEN_def simp del: append_assoc replicate_Suc)
      (simp_all add: Option.bind_def eval_nat_numeral split: option.splits)
qed

lemma body_types:
  "body_len ev = Some L \<Longrightarrow> ri_type ev \<in> {REMOTE_INPUT_TOUCH, REMOTE_INPUT_INPUT7, REMOTE_INPUT_MESSAGE,
     REMOTE_INPUT_KEY, REMOTE_INPUT_ZOOM, REMOTE_INPUT_SCROLL, REMOTE_INPUT_MOUSE, REMOTE_INPUT_WHEEL, REMOTE_INPUT_VKEY}"
  by (auto simp: body_len_def split: if_splits)

lemma write_body_list:
  assumes "body_len ev = Some L" "event_ok ev" "length h = 10"
  shows "write_body ev L (h @ (replicate (L + m) 0 @ r)) =
    do { b \<leftarrow> ri_body ev; Some ((h @ b) @ (replicate m 0 @ r)) }"
  using body_types [OF assms(1)] assms write_touch write_content write_message write_fixed write_fixed2 by auto

lemma all_d16_length: "all_d16 ds = Some vs \<Longrightarrow> length vs = length ds"
  by (induction ds arbitrary: vs) (auto simp: bind_eq_Some_conv)

lemma ri_points_length:
  "length xs = length cs \<Longrightarrow> length ys = length cs \<Longrightarrow> length (ri_points cs xs ys) = 5 * length cs"
  by (induction cs xs ys rule: ri_points.induct) auto

lemma body_size:
  assumes "body_len ev = Some L" "event_ok ev" "ri_body ev = Some b"
  shows "length b = L"
proof (cases "ri_type ev = REMOTE_INPUT_TOUCH")
  case True
  then have t: "L = 9 * unat (touch_cnt ev) + 4" "unat (touch_cnt ev) \<le> 4"
    using assms(1) by (auto simp: body_len_def word_le_nat_alt not_less split: if_splits)
  obtain xs ys where *: "all_d16 (take (unat (touch_cnt ev)) (touch_x ev)) = Some xs"
    "all_d16 (take (unat (touch_cnt ev)) (touch_y ev)) = Some ys"
    "b = touch_action ! unat (ri_subtype ev) # put_u16 (lenfield (9 * unat (touch_cnt ev) + 4)) @ touch_cnt ev #
          ri_points (take (unat (touch_cnt ev)) (touch_ids ev)) xs ys @ replicate (4 * unat (touch_cnt ev)) 0"
    using True assms(3) by (auto simp: ri_body_def Let_def bind_eq_Some_conv)
  then show ?thesis using t assms(2) ri_points_length [of xs "take (unat (touch_cnt ev)) (touch_ids ev)" ys]
    all_d16_length [OF *(1)] all_d16_length [OF *(2)] by (simp add: event_ok_def)
next
  case False
  consider "ri_type ev = REMOTE_INPUT_INPUT7" | "ri_type ev = REMOTE_INPUT_MESSAGE" |
    "ri_type ev \<notin> {REMOTE_INPUT_TOUCH, REMOTE_INPUT_INPUT7, REMOTE_INPUT_MESSAGE}" using False by auto
  then show ?thesis
  proof cases
    case 1
    then show ?thesis using assms
      by (auto simp: body_len_def ri_body_def ri_types event_ok_def Let_def bind_eq_Some_conv word_gt_0 unat_eq_zero split: if_splits)
  next
    case 2
    then show ?thesis using assms
      by (auto simp: body_len_def ri_body_def ri_types event_ok_def word_le_nat_alt not_less split: if_splits)
  next
    case 3
    then show ?thesis using assms
      by (auto simp: body_len_def ri_body_def ri_types bind_eq_Some_conv split: if_splits)
  qed
qed

lemma body_len_bound:
  assumes "body_len ev = Some L" shows "5 \<le> L \<and> L \<le> 477"
  using assms by (auto simp: body_len_def word_le_nat_alt not_less word_less_nat_alt split: if_splits)

section \<open>Properties\<close>

lemma build_packet:
  assumes "event_ok ev" "cap \<le> length out"
  shows "remote_input_build (Some ev) ts (Some out) cap =
    (case body_len ev of
       None \<Rightarrow> Some None
     | Some L \<Rightarrow>
         if cap < 14 + L + L mod 2 then Some None
         else (case ri_body ev of
             None \<Rightarrow> None
           | Some b \<Rightarrow> let p = ri_packet ev b ts in Some (Some (p @ drop (length p) out, length p)))) \<and>
    (\<forall>L b p. body_len ev = Some L \<longrightarrow> ri_body ev = Some b \<longrightarrow> p = ri_packet ev b ts \<longrightarrow>
       even (length p) \<and> length p \<le> 492 \<and> get_u16 p 2 = Some (of_nat (length p)))"
proof (intro conjI allI impI)
  fix L b p
  assume that: "body_len ev = Some L" "ri_body ev = Some b" and p: "p = ri_packet ev b ts"
  have "length p = 14 + L + L mod 2 \<and> get_u16 p 2 = Some (of_nat (length p))"
    using body_size [OF that(1) assms(1) that(2)] unfolding p by (simp add: ri_packet_def Let_def codec)
  then show "even (length p)" "length p \<le> 492" "get_u16 p 2 = Some (of_nat (length p))"
    using body_len_bound [OF that(1)] by presburger+
next
  have m4: "(L + 4) mod 2 = L mod 2" for L :: nat by presburger
  note run = remote_input_build_def REMOTE_INPUT_HDR_LEN_def Let_def m4
  show "remote_input_build (Some ev) ts (Some out) cap =
    (case body_len ev of
       None \<Rightarrow> Some None
     | Some L \<Rightarrow>
         if cap < 14 + L + L mod 2 then Some None
         else (case ri_body ev of
             None \<Rightarrow> None
           | Some b \<Rightarrow> let p = ri_packet ev b ts in Some (Some (p @ drop (length p) out, length p))))"
  proof (cases "body_len ev")
    case (Some L)
    note L = this
    show ?thesis
    proof (cases "cap < 14 + L + L mod 2")
      case False
      let ?r = "drop (14 + L + L mod 2) out"
      have p: "poke 0 (replicate (14 + L + L mod 2) 0) out = Some (replicate 10 0 @ (replicate (L + (4 + L mod 2)) 0 @ ?r))"
        using False assms(2) by (simp add: poke_def replicate_add [symmetric])
      note w = write_body_list [OF L assms(1), of "replicate 10 0" "4 + L mod 2" ?r]
      show ?thesis
      proof (cases "ri_body ev")
        case None
        then show ?thesis using L False p w by (simp add: run)
      next
        case (Some b)
        have b: "length b = L" by (rule body_size [OF L assms(1) Some])
        have t: "poke (10 + L) (put_u32 ts) (h @ b @ (replicate (4 + L mod 2) 0 @ ?r)) =
            Some (h @ b @ put_u32 ts @ replicate (L mod 2) 0 @ ?r)" if "length h = 10" for h
          using poke_next [of "10 + L" "h @ b" "put_u32 ts" "4 + L mod 2" ?r] that b by simp
        have z: "replicate 10 0 = [0, 0, 0, 0, 0, 0, 0, 0, 0, 0 :: byte]" by (simp add: eval_nat_numeral)
        note t = t [of "[header_bits ev, header_class ev] @ put_u16 (of_nat (14 + L + L mod 2)) @ [ri_flags2 ev, 0, 0, 0, 0, 0]"]
        show ?thesis using Some False p w L b t unfolding z
          by (simp add: run add.assoc poke_def [of 0] poke_def [of "Suc 0"] poke_def [of 2] poke_def [of 4] ri_packet_def)
      qed
    qed (simp add: run L)
  qed (simp add: run)
qed


text \<open>A touch with one finger at (1.5, -2.0): the coordinates are cut to 1 and 65534.\<close>

definition toy_touch :: remote_input_event where
  "toy_touch = \<lparr>ri_type = 0, ri_subtype = 1, ri_flags1 = 0x68, ri_flags2 = 9, touch_cnt = 1, touch_ids = [7, 0, 0, 0],
     touch_x = [0x3ff8000000000000, 0, 0, 0], touch_y = [0xc000000000000000, 0, 0, 0], key_f16a = 0, key_f16b = 0,
     key_f32 = 0, zoom_x = 0, zoom_y = 0, zoom_pressure = 0, scroll_axis = 0, scroll_delta = 0, mouse_button = 0,
     mouse_x = 0, mouse_y = 0, mouse_z = 0, mouse_w = 0, ri_content = None, content_len = 0, focus_f1 = 0,
     focus_f2 = 0, focus_f3 = 0, focus_f4 = 0, focus_f5 = 0, wheel_dir = 0, wheel_f1 = 0, wheel_x = 0, wheel_y = 0,
     vkey_x = 0, vkey_y = 0, msg_len = 0, msg_payload = None\<rparr>"

lemma toy_d16: "d16 0x3ff8000000000000 = Some 1" "d16 0xc000000000000000 = Some 0xfffe"
  by (simp_all add: d16_def double_trunc_def Let_def)

lemma toy_replicate:
  "replicate 4 0 = [0, 0, 0, 0 :: byte]" "replicate 2 b = [b, b :: byte]"
  by (simp_all add: eval_nat_numeral)


end
