(* ===== verification/ControlSession.thy ===== *)
theory ControlSession
  imports SoftbusSession SoftbusAuth DmsdpSession RemoteInput
begin

text \<open>
  The dsoftbus sessions of the daemon (\<open>src/main.c\<close>): authentication first, then the DMSDP control
  session on the same socket, then the input events.

  The DMSDP client and its flags are globals (\<open>control\<close>); a session has its frame layer, its
  authentication and what it has written (\<open>control_session\<close>).  \<open>ce_write\<close> is the result of the
  \<open>n\<close>-th write on a session, \<open>ce_pkt\<close> what the packet buffer on the stack holds, and \<open>ce_text\<close> and
  \<open>ce_bytes\<close> turn the bytes of a JSON text into a text of the JSON library and back.
\<close>

section \<open>State\<close>

record control =
  g_dmsdp_cl :: "dmsdp_client option"
  g_dmsdp_ready :: bool
  g_dmsdp_failed :: bool
  g_dmsdp_client_port :: u32

definition control_init :: control where
  "control_init = \<lparr>g_dmsdp_cl = None, g_dmsdp_ready = False, g_dmsdp_failed = False, g_dmsdp_client_port = 54323\<rparr>"

record control_session =
  cs_session :: sb_session
  cs_auth :: softbus_auth
  cs_wire :: "bytes list"

record 'd control_env =
  ce_auth :: auth_env
  ce_write :: "nat \<Rightarrow> bool"
  ce_text :: "bytes \<Rightarrow> 'd"
  ce_bytes :: "'d \<Rightarrow> bytes"
  ce_pkt :: bytes

type_synonym control_state = "control \<times> control_session"

text \<open>One call of \<open>softbus_session_send\<close>; the flag is its result, \<open>None\<close> an access outside a buffer.\<close>

definition control_send :: "'d control_env \<Rightarrow> bytes \<Rightarrow> control_session \<Rightarrow> (control_session \<times> bool) option" where
  "control_send E data s =
     (case softbus_session_send (ce_write E (length (cs_wire s))) (cs_session s) (if data = [] then None else Some data) (length data) of
        None \<Rightarrow> None
      | Some (ss, wire, ok) \<Rightarrow>
          Some (s\<lparr>cs_session := ss, cs_wire := cs_wire s @ (if wire = [] then [] else [wire])\<rparr>, ok))"

section \<open>The input events\<close>

definition DMSDP_STAND_SERVICE :: cstr where "DMSDP_STAND_SERVICE = bytes_of ''hwphonelink-mirror''"
definition DMSDP_INPUT_EVENTS :: nat where "DMSDP_INPUT_EVENTS = 12"

definition input_event :: "u32 \<Rightarrow> u32 \<Rightarrow> remote_input_event" where
  "input_event ty sub = \<lparr>ri_type = ty, ri_subtype = sub, ri_flags1 = 0, ri_flags2 = 0, touch_cnt = 0, touch_ids = [0, 0, 0, 0],
     touch_x = [0, 0, 0, 0], touch_y = [0, 0, 0, 0], key_f16a = 0, key_f16b = 0, key_f32 = 0, zoom_x = 0, zoom_y = 0,
     zoom_pressure = 0, scroll_axis = 0, scroll_delta = 0, mouse_button = 0, mouse_x = 0, mouse_y = 0, mouse_z = 0,
     mouse_w = 0, ri_content = None, content_len = 0, focus_f1 = 0, focus_f2 = 0, focus_f3 = 0, focus_f4 = 0,
     focus_f5 = 0, wheel_dir = 0, wheel_f1 = 0, wheel_x = 0, wheel_y = 0, vkey_x = 0, vkey_y = 0, msg_len = 0,
     msg_payload = None\<rparr>"

text \<open>The table, with its doubles as bit patterns: 1234, 5678, 1300, 5700, 100.5, 200.25, 6250, 10, 20 and 1.\<close>

definition touch_at :: "u32 \<Rightarrow> double \<Rightarrow> double \<Rightarrow> remote_input_event" where
  "touch_at sub x y = (input_event REMOTE_INPUT_TOUCH sub)\<lparr>touch_cnt := 1, touch_ids := [1, 0, 0, 0],
     touch_x := [x, 0, 0, 0], touch_y := [y, 0, 0, 0]\<rparr>"

definition input_events :: "remote_input_event list" where
  "input_events =
     [touch_at 0 0x4093480000000000 0x40b62e0000000000,
      touch_at 1 0x4094500000000000 0x40b6440000000000,
      touch_at 2 0x4094500000000000 0x40b6440000000000,
      (input_event REMOTE_INPUT_KEY 0)\<lparr>key_f16a := 1\<rparr>,
      (input_event REMOTE_INPUT_KEY 1)\<lparr>key_f16a := 1\<rparr>,
      (input_event REMOTE_INPUT_MOUSE 1)\<lparr>mouse_button := 0, mouse_x := 0x4059200000000000, mouse_y := 0x4069080000000000,
        mouse_z := 0, mouse_w := 0x40b86a0000000000\<rparr>,
      (input_event REMOTE_INPUT_SCROLL 0)\<lparr>scroll_axis := 0, scroll_delta := 3\<rparr>,
      (input_event REMOTE_INPUT_VKEY 0)\<lparr>vkey_x := 0, vkey_y := 0\<rparr>,
      (input_event REMOTE_INPUT_WHEEL 0)\<lparr>wheel_dir := 1\<rparr>,
      (input_event REMOTE_INPUT_INPUT7 0)\<lparr>ri_content := Some (bytes_of ''hi'' @ [0]), content_len := 2\<rparr>,
      (input_event REMOTE_INPUT_MESSAGE 0)\<lparr>msg_len := 5, msg_payload := Some (bytes_of ''hi!'' @ [0])\<rparr>,
      (input_event REMOTE_INPUT_ZOOM 0)\<lparr>zoom_x := 0x4024000000000000, zoom_y := 0x4034000000000000,
        zoom_pressure := 0x3ff0000000000000\<rparr>]"

text \<open>The loop over the events that are left; \<open>None\<close> is undefined behaviour.\<close>

primrec send_inputs :: "'d control_env \<Rightarrow> nat \<Rightarrow> remote_input_event list \<Rightarrow> control_state \<Rightarrow> control_state option" where
  "send_inputs E i [] st = Some st"
| "send_inputs E i (ev # evs) st =
     (case remote_input_build (Some ev) (of_nat (1000 + 16 * i)) (Some (ce_pkt E)) REMOTE_INPUT_MAX_TOTAL of
        None \<Rightarrow> None
      | Some None \<Rightarrow> Some ((fst st)\<lparr>g_dmsdp_failed := True\<rparr>, snd st)
      | Some (Some (pkt, n)) \<Rightarrow>
          (case control_send E (take n pkt) (snd st) of
             None \<Rightarrow> None
           | Some (s, ok) \<Rightarrow>
               if ok then send_inputs E (i + 1) evs (fst st, s) else Some ((fst st)\<lparr>g_dmsdp_failed := True\<rparr>, s)))"

definition send_input_sequence :: "'d control_env \<Rightarrow> control_state \<Rightarrow> control_state option" where
  "send_input_sequence E st = send_inputs E 0 input_events st"

section \<open>The control session\<close>

text \<open>The client builds a message, and the session sends it: both failures set the flag.\<close>

definition dmsdp_send :: "'d control_env \<Rightarrow> dmsdp_msg \<Rightarrow> dmsdp_client \<Rightarrow> control_state \<Rightarrow> control_state option" where
  "dmsdp_send E msg cl st =
     (case dmsdp_client_send cl msg (3 + DMSDP_TEXT_MAX) of
        (cl, wire) \<Rightarrow>
          let g = (fst st)\<lparr>g_dmsdp_cl := Some cl\<rparr> in
          (case wire of
             None \<Rightarrow> Some (g\<lparr>g_dmsdp_failed := True\<rparr>, snd st)
           | Some w \<Rightarrow>
               (case control_send E w (snd st) of
                  None \<Rightarrow> None
                | Some (s, ok) \<Rightarrow> Some (if ok then g else g\<lparr>g_dmsdp_failed := True\<rparr>, s))))"

definition dmsdp_send_setup :: "'d control_env \<Rightarrow> dmsdp_client \<Rightarrow> control_state \<Rightarrow> control_state option" where
  "dmsdp_send_setup E cl st =
     dmsdp_send E (dmsdp_msg_setup 0 (Some DMSDP_STAND_SERVICE) 0 1 0 (g_dmsdp_client_port (fst st)) (g_dmsdp_client_port (fst st))) cl st"

definition dmsdp_handle_reply :: "'d control_env \<Rightarrow> dmsdp_parsed \<Rightarrow> dmsdp_client \<Rightarrow> control_state \<Rightarrow> control_state option" where
  "dmsdp_handle_reply E p cl st =
     (case dmsdp_client_recv cl p of
        (cl, rc) \<Rightarrow>
          let g = (fst st)\<lparr>g_dmsdp_cl := Some cl\<rparr> in
          if rc \<noteq> 0 then Some (g\<lparr>g_dmsdp_failed := True\<rparr>, snd st)
          else
            (case cl_state cl of
               CL_SEND_PLAY \<Rightarrow> dmsdp_send E (dmsdp_msg_play 1 (Some DMSDP_STAND_SERVICE) 0 1) cl (g, snd st)
             | CL_READY \<Rightarrow> send_input_sequence E (g\<lparr>g_dmsdp_ready := True\<rparr>, snd st)
             | _ \<Rightarrow> Some (g, snd st)))"

text \<open>The text in a frame without encryption, \<open>None\<close> when the data is not one.\<close>

definition nocrypto_text :: "bytes \<Rightarrow> bytes option" where
  "nocrypto_text data =
     (if 3 \<le> length data \<and> data ! 0 = DMSDP_FRAME_TYPE_NOCRYPTO then
        let n = unat (push_bit 8 (ucast (data ! 1)) OR ucast (data ! 2) :: u16) in
        if n \<le> DMSDP_FRAME_MAX_PAYLOAD \<and> 3 + n = length data then Some (drop 3 data) else None
      else None)"

text \<open>A message on a session that is not authenticated yet.\<close>

definition on_auth_data ::
  "('o, 'd) json_glib \<Rightarrow> 'd control_env \<Rightarrow> u32 \<Rightarrow> bytes \<Rightarrow> control_state \<Rightarrow> control_state option" where
  "on_auth_data J E stream_port data st =
     (case softbus_auth_feed J (ce_auth E) (if data = [] then None else Some (ce_text E data)) True (cs_auth (snd st)) of
        (a, result, answer) \<Rightarrow>
          let s = (snd st)\<lparr>cs_auth := a\<rparr> in
          (case (case answer of None \<Rightarrow> Some (s, True) | Some t \<Rightarrow> control_send E (ce_bytes E t) s) of
             None \<Rightarrow> None
           | Some (s, _) \<Rightarrow>
               if result = AUTH_COMPLETE \<and> 0 < stream_port then
                 dmsdp_send_setup E dmsdp_client_new ((fst st)\<lparr>g_dmsdp_client_port := stream_port\<rparr>, s)
               else Some (fst st, s)))"

definition on_session_data ::
  "('o, 'd) json_glib \<Rightarrow> 'd control_env \<Rightarrow> u32 \<Rightarrow> bytes \<Rightarrow> control_state \<Rightarrow> control_state option" where
  "on_session_data J E stream_port data st =
     (if au_state (cs_auth (snd st)) = AUTH_DONE then
        let echo = (case control_send E data (snd st) of None \<Rightarrow> None | Some (s, _) \<Rightarrow> Some (fst st, s)) in
        (case g_dmsdp_cl (fst st) of
           None \<Rightarrow> echo
         | Some cl \<Rightarrow>
             if cl_state cl = CL_ERROR then echo
             else
               (case nocrypto_text data of
                  None \<Rightarrow> echo
                | Some text \<Rightarrow>
                    (case dmsdp_parse (Some text) of
                       (rc, p) \<Rightarrow>
                         if rc = 0 then dmsdp_handle_reply E (the p) cl st
                         else Some ((fst st)\<lparr>g_dmsdp_failed := True\<rparr>, snd st))))
      else on_auth_data J E stream_port data st)"

text \<open>\<open>on_session_opened\<close>: \<open>None\<close> in the inner option when no authentication could be made, and the session gets no callback.\<close>

definition on_session_opened ::
  "('o, 'd) json_glib \<Rightarrow> 'd control_env \<Rightarrow> softbus_device option \<Rightarrow> bytes \<Rightarrow> u32 \<Rightarrow> bytes \<Rightarrow> sb_session \<Rightarrow> control_session option option" where
  "on_session_opened J E local psk rnd nonce ss =
     (case softbus_auth_new local (Some psk) rnd nonce of
        None \<Rightarrow> Some None
      | Some a \<Rightarrow>
          (case softbus_auth_begin_active J (ce_auth E) a True of
             (a, result, first) \<Rightarrow>
               let s = \<lparr>cs_session = ss, cs_auth = a, cs_wire = []\<rparr> in
               (case (result, first) of
                  (AUTH_SEND, Some t) \<Rightarrow> map_option (\<lambda>(s, _). Some s) (control_send E (ce_bytes E t) s)
                | _ \<Rightarrow> Some (Some s))))"

section \<open>What a session has sent\<close>

definition sent_messages :: "control_session \<Rightarrow> bytes list" where
  "sent_messages s = map sb_message (cs_wire s)"

definition session_live :: "control_session \<Rightarrow> bool" where
  "session_live s \<longleftrightarrow> sb_session_ok (cs_session s)"

lemma control_send_ok:
  assumes "session_live s" "m \<noteq> []" "length m \<le> SOFTBUS_FRAME_MAX_PAYLOAD" "\<forall>n. ce_write E n"
  shows "\<exists>s'. control_send E m s = Some (s', True) \<and> session_live s' \<and> cs_auth s' = cs_auth s \<and>
    sent_messages s' = sent_messages s @ [m]"
proof -
  obtain w where w: "softbus_session_send True (cs_session s) (Some m) (length m) =
      Some ((cs_session s)\<lparr>ss_seq := ss_seq (cs_session s) + 1\<rparr>, w, True)"
    "sb_verdict w = Frame (length w)" "sb_message w = m"
    using send_ok [of "cs_session s" m] assms by (auto simp: session_live_def)
  have "w \<noteq> []" using w(2) by auto
  then show ?thesis using w assms by (simp add: control_send_def session_live_def sb_session_ok_def sent_messages_def)
qed

text \<open>The packets of a list of events, numbered from \<open>i\<close>.\<close>

primrec input_packets :: "nat \<Rightarrow> remote_input_event list \<Rightarrow> bytes list" where
  "input_packets i [] = []"
| "input_packets i (ev # evs) = ri_packet ev (the (ri_body ev)) (of_nat (1000 + 16 * i)) # input_packets (i + 1) evs"

definition buildable :: "remote_input_event \<Rightarrow> bool" where
  "buildable ev \<longleftrightarrow> event_ok ev \<and> body_len ev \<noteq> None \<and> ri_body ev \<noteq> None"

lemma send_inputs_ok:
  assumes "list_all buildable evs" "session_live s" "\<forall>n. ce_write E n" "length (ce_pkt E) = REMOTE_INPUT_MAX_TOTAL"
  shows "\<exists>s'. send_inputs E i evs (g, s) = Some (g, s') \<and> session_live s' \<and> cs_auth s' = cs_auth s \<and>
    sent_messages s' = sent_messages s @ input_packets i evs"
  using assms
proof (induction evs arbitrary: i s)
  case (Cons ev evs)
  obtain L b where L: "body_len ev = Some L" "ri_body ev = Some b" "event_ok ev"
    using Cons.prems(1) by (auto simp: buildable_def)
  let ?ts = "of_nat (1000 + 16 * i) :: u32"
  let ?p = "ri_packet ev b ?ts"
  have n: "14 + L + L mod 2 \<le> 492" using body_len_bound [OF L(1)] by presburger
  have lp: "length ?p = 14 + L + L mod 2"
    using body_size [OF L(1,3,2)] by (simp add: ri_packet_def Let_def)
  have bp: "remote_input_build (Some ev) ?ts (Some (ce_pkt E)) REMOTE_INPUT_MAX_TOTAL = Some (Some (?p @ drop (length ?p) (ce_pkt E), length ?p))"
    using build_packet [OF L(3), of REMOTE_INPUT_MAX_TOTAL "ce_pkt E" ?ts] L n Cons.prems(4)
    by (simp add: Let_def REMOTE_INPUT_MAX_TOTAL_def)
  obtain s1 where s1: "control_send E ?p s = Some (s1, True)" "session_live s1" "cs_auth s1 = cs_auth s"
    "sent_messages s1 = sent_messages s @ [?p]"
    using control_send_ok [of s ?p E] lp n Cons.prems(2,3) by (force simp: SOFTBUS_FRAME_MAX_PAYLOAD_def)
  show ?case using Cons.IH [of s1 "i + 1"] Cons.prems s1 bp L(2) by auto
qed simp

lemma input_doubles:
  "d16 0 = Some 0" "d16 0x4093480000000000 = Some 1234" "d16 0x40b62e0000000000 = Some 5678" "d16 0x4094500000000000 = Some 1300"
  "d16 0x40b6440000000000 = Some 5700" "d16 0x4059200000000000 = Some 100" "d16 0x4069080000000000 = Some 200"
  "d16 0x40b86a0000000000 = Some 6250" "d16 0x4024000000000000 = Some 10" "d16 0x4034000000000000 = Some 20"
  by (simp_all add: d16_def double_trunc_def Let_def)

lemmas input_eval = input_events_def touch_at_def input_event_def ri_types

lemma input_table:
  "map body_len input_events = map Some [13, 13, 13, 12, 12, 12, 5, 7, 10, 7, 10, 9]"
  "list_all event_ok input_events"
  by (simp_all add: input_eval body_len_def event_ok_def bytes_of_def)

lemma input_bodies: "list_all (\<lambda>ev. ri_body ev \<noteq> None) input_events"
  by (simp add: input_eval ri_body_def input_doubles Let_def)

lemma input_events_buildable: "list_all buildable input_events"
proof -
  have "\<forall>x \<in> set (map body_len input_events). x \<noteq> None" unfolding input_table(1) by simp
  then show ?thesis using input_table(2) input_bodies by (auto simp: list_all_iff buildable_def)
qed

text \<open>A frame without encryption is recognised, with its text.\<close>

lemma nocrypto_wire: "length t < 1400 \<Longrightarrow> nocrypto_text (dmsdp_wire t) = Some t"
proof -
  assume l: "length t < 1400"
  have d: "dmsdp_wire t ! 0 = 0" "dmsdp_wire t ! 1 = put_u16 (of_nat (length t)) ! 0" "dmsdp_wire t ! 2 = put_u16 (of_nat (length t)) ! 1"
    "length (dmsdp_wire t) = 3 + length t" "drop 3 (dmsdp_wire t) = t"
    by (simp_all add: dmsdp_wire_def put_u16_def)
  have "(push_bit 8 (ucast (put_u16 v ! 0)) OR ucast (put_u16 v ! 1) :: u16) = v" for v
    using join16 [of v] by (simp add: put_u16_def)
  then show ?thesis using l unfolding nocrypto_text_def d
    by (simp add: DMSDP_FRAME_TYPE_NOCRYPTO_def DMSDP_FRAME_MAX_PAYLOAD_def unat_of_nat)
qed

lemma feed_complete:
  "softbus_auth_feed J E m want a = (a', AUTH_COMPLETE, r) \<Longrightarrow> au_state a' = AUTH_DONE"
  by (auto simp: softbus_auth_feed_def auth_dispatch_def rx_negotiation_def rx_device_id_def rx_auth_request_def
      rx_auth_response_def rx_device_info_def refused_def reply_def enter_state_def Let_def
      split: option.splits if_splits prod.splits auth_state.splits)

lemma service_ok: "text_value DMSDP_STAND_SERVICE" "length DMSDP_STAND_SERVICE \<le> 1000"
  by (simp_all add: DMSDP_STAND_SERVICE_def text_value_def bytes_of_def of_char_def SP_def CR_def)

lemmas max_payload = SOFTBUS_FRAME_MAX_PAYLOAD_def

text \<open>Each of the two requests goes out in one message.\<close>

lemma send_setup_ok:
  assumes "session_live s" "\<forall>n. ce_write E n" "g_dmsdp_client_port g = port"
  shows "\<exists>t s'. dmsdp_send_setup E dmsdp_client_new (g, s) =
      Some (g\<lparr>g_dmsdp_cl := Some \<lparr>cl_state = CL_WAIT_SETUP_REPLY, cl_pending_cseq = 0\<rparr>\<rparr>, s') \<and>
    session_live s' \<and> cs_auth s' = cs_auth s \<and> sent_messages s' = sent_messages s @ [dmsdp_wire t] \<and>
    dmsdp_parse (Some t) = (0, Some (dmsdp_expected (dmsdp_msg_setup 0 (Some DMSDP_STAND_SERVICE) 0 1 0 port port)))"
proof -
  let ?m = "dmsdp_msg_setup 0 (Some DMSDP_STAND_SERVICE) 0 1 0 port port"
  obtain t where t: "dmsdp_build (Some ?m) 1400 = Some t" "length t < 1400" "dmsdp_parse (Some t) = (0, Some (dmsdp_expected ?m))"
    using message_trips(1) [OF service_ok] by blast
  obtain s' where s': "control_send E (dmsdp_wire t) s = Some (s', True)" "session_live s'" "cs_auth s' = cs_auth s"
    "sent_messages s' = sent_messages s @ [dmsdp_wire t]"
    using control_send_ok [of s "dmsdp_wire t" E] assms t(2) by (force simp: dmsdp_wire_def max_payload)
  have m: "dm_type ?m = 1" "dm_cseq ?m = 0" by (simp_all add: dmsdp_msg_setup_def dmsdp_msg_zero_def DMSDP_TYPE_SETUP_def)
  show ?thesis using t s' m frame_wire [OF t(2), of 1403] assms(3)
    by (intro exI [of _ t] exI [of _ s']) (simp add: dmsdp_send_setup_def dmsdp_send_def dmsdp_client_send_def dmsdp_client_new_def client_emit_def
        DMSDP_TYPE_SETUP_def DMSDP_TEXT_MAX_def)
qed

lemma send_play_ok:
  assumes "session_live s" "\<forall>n. ce_write E n"
  shows "\<exists>t s'. dmsdp_send E (dmsdp_msg_play 1 (Some DMSDP_STAND_SERVICE) 0 1) \<lparr>cl_state = CL_SEND_PLAY, cl_pending_cseq = k\<rparr> (g, s) =
      Some (g\<lparr>g_dmsdp_cl := Some \<lparr>cl_state = CL_WAIT_PLAY_REPLY, cl_pending_cseq = 1\<rparr>\<rparr>, s') \<and>
    session_live s' \<and> cs_auth s' = cs_auth s \<and> sent_messages s' = sent_messages s @ [dmsdp_wire t] \<and>
    dmsdp_parse (Some t) = (0, Some (dmsdp_expected (dmsdp_msg_play 1 (Some DMSDP_STAND_SERVICE) 0 1)))"
proof -
  let ?m = "dmsdp_msg_play 1 (Some DMSDP_STAND_SERVICE) 0 1"
  obtain t where t: "dmsdp_build (Some ?m) 1400 = Some t" "length t < 1400" "dmsdp_parse (Some t) = (0, Some (dmsdp_expected ?m))"
    using message_trips(3) [OF service_ok] by blast
  obtain s' where s': "control_send E (dmsdp_wire t) s = Some (s', True)" "session_live s'" "cs_auth s' = cs_auth s"
    "sent_messages s' = sent_messages s @ [dmsdp_wire t]"
    using control_send_ok [of s "dmsdp_wire t" E] assms t(2) by (force simp: dmsdp_wire_def max_payload)
  have m: "dm_type ?m = 2" "dm_cseq ?m = 1" by (simp_all add: dmsdp_msg_play_def dmsdp_msg_zero_def DMSDP_TYPE_PLAY_def)
  show ?thesis using t s' m frame_wire [OF t(2), of 1403]
    by (intro exI [of _ t] exI [of _ s']) (simp add: dmsdp_send_def dmsdp_client_send_def client_emit_def DMSDP_TYPE_PLAY_def DMSDP_TEXT_MAX_def)
qed

text \<open>Authentication completes: the answer goes out, and the SETUP behind it.\<close>

lemma auth_starts_control:
  assumes "session_live s" "\<forall>n. ce_write E n" "0 < port" "data \<noteq> []" "au_state (cs_auth s) \<noteq> AUTH_DONE"
    "softbus_auth_feed J (ce_auth E) (Some (ce_text E data)) True (cs_auth s) = (a, AUTH_COMPLETE, Some answer)"
    "ce_bytes E answer \<noteq> []" "length (ce_bytes E answer) \<le> SOFTBUS_FRAME_MAX_PAYLOAD"
  shows "\<exists>t s'. on_session_data J E port data (g, s) =
      Some (g\<lparr>g_dmsdp_cl := Some \<lparr>cl_state = CL_WAIT_SETUP_REPLY, cl_pending_cseq = 0\<rparr>, g_dmsdp_client_port := port\<rparr>, s') \<and>
    session_live s' \<and> au_state (cs_auth s') = AUTH_DONE \<and>
    sent_messages s' = sent_messages s @ [ce_bytes E answer, dmsdp_wire t] \<and>
    dmsdp_parse (Some t) = (0, Some (dmsdp_expected (dmsdp_msg_setup 0 (Some DMSDP_STAND_SERVICE) 0 1 0 port port)))"
proof -
  have l: "session_live (s\<lparr>cs_auth := a\<rparr>)" "sent_messages (s\<lparr>cs_auth := a\<rparr>) = sent_messages s"
    using assms(1) by (simp_all add: session_live_def sent_messages_def)
  obtain s1 where s1: "control_send E (ce_bytes E answer) (s\<lparr>cs_auth := a\<rparr>) = Some (s1, True)" "session_live s1" "cs_auth s1 = a"
    "sent_messages s1 = sent_messages s @ [ce_bytes E answer]"
    using control_send_ok [OF l(1) assms(7,8,2)] l(2) by auto
  obtain t s' where t: "dmsdp_send_setup E dmsdp_client_new (g\<lparr>g_dmsdp_client_port := port\<rparr>, s1) =
      Some (g\<lparr>g_dmsdp_client_port := port, g_dmsdp_cl := Some \<lparr>cl_state = CL_WAIT_SETUP_REPLY, cl_pending_cseq = 0\<rparr>\<rparr>, s')"
    "session_live s'" "cs_auth s' = a" "sent_messages s' = sent_messages s1 @ [dmsdp_wire t]"
    "dmsdp_parse (Some t) = (0, Some (dmsdp_expected (dmsdp_msg_setup 0 (Some DMSDP_STAND_SERVICE) 0 1 0 port port)))"
    using send_setup_ok [OF s1(2) assms(2), of "g\<lparr>g_dmsdp_client_port := port\<rparr>" port] s1(3) by auto
  show ?thesis using assms(3-6) s1 t feed_complete [OF assms(6)]
    by (auto simp: on_session_data_def on_auth_data_def)
qed

text \<open>The two replies.\<close>

lemma setup_reply_sends_play:
  assumes "session_live s" "\<forall>n. ce_write E n" "au_state (cs_auth s) = AUTH_DONE"
    "g_dmsdp_cl g = Some \<lparr>cl_state = CL_WAIT_SETUP_REPLY, cl_pending_cseq = 0\<rparr>"
    "length t < 1400" "dmsdp_parse (Some t) = (0, Some p)" "good_reply 0 p"
  shows "\<exists>t' s'. on_session_data J E port (dmsdp_wire t) (g, s) =
      Some (g\<lparr>g_dmsdp_cl := Some \<lparr>cl_state = CL_WAIT_PLAY_REPLY, cl_pending_cseq = 1\<rparr>\<rparr>, s') \<and>
    session_live s' \<and> cs_auth s' = cs_auth s \<and> sent_messages s' = sent_messages s @ [dmsdp_wire t'] \<and>
    dmsdp_parse (Some t') = (0, Some (dmsdp_expected (dmsdp_msg_play 1 (Some DMSDP_STAND_SERVICE) 0 1)))"
proof -
  let ?g = "g\<lparr>g_dmsdp_cl := Some \<lparr>cl_state = CL_SEND_PLAY, cl_pending_cseq = 0\<rparr>\<rparr>"
  obtain t' s' where t: "dmsdp_send E (dmsdp_msg_play 1 (Some DMSDP_STAND_SERVICE) 0 1) \<lparr>cl_state = CL_SEND_PLAY, cl_pending_cseq = 0\<rparr> (?g, s) =
      Some (?g\<lparr>g_dmsdp_cl := Some \<lparr>cl_state = CL_WAIT_PLAY_REPLY, cl_pending_cseq = 1\<rparr>\<rparr>, s')"
    "session_live s'" "cs_auth s' = cs_auth s" "sent_messages s' = sent_messages s @ [dmsdp_wire t']"
    "dmsdp_parse (Some t') = (0, Some (dmsdp_expected (dmsdp_msg_play 1 (Some DMSDP_STAND_SERVICE) 0 1)))"
    using send_play_ok [OF assms(1,2), of 0 ?g] by blast
  show ?thesis using assms(3-7) t nocrypto_wire [OF assms(5)]
    by (auto simp: on_session_data_def dmsdp_handle_reply_def dmsdp_client_recv_def good_reply_def DMSDP_TYPE_RESPONSE_def)
qed

text \<open>Any frame that parses, once the client is ready, and the reply that makes it ready.\<close>

definition accepts_reply :: "dmsdp_client \<Rightarrow> dmsdp_parsed \<Rightarrow> bool" where
  "accepts_reply cl p \<longleftrightarrow> cl_state cl = CL_READY \<or> cl_state cl = CL_WAIT_PLAY_REPLY \<and> good_reply (cl_pending_cseq cl) p"

lemma ready_sends_inputs:
  assumes "session_live s" "\<forall>n. ce_write E n" "length (ce_pkt E) = REMOTE_INPUT_MAX_TOTAL" "au_state (cs_auth s) = AUTH_DONE"
    "g_dmsdp_cl g = Some cl" "accepts_reply cl p" "length t < 1400" "dmsdp_parse (Some t) = (0, Some p)"
  shows "\<exists>s'. on_session_data J E port (dmsdp_wire t) (g, s) =
      Some (g\<lparr>g_dmsdp_cl := Some (cl\<lparr>cl_state := CL_READY\<rparr>), g_dmsdp_ready := True\<rparr>, s') \<and>
    session_live s' \<and> cs_auth s' = cs_auth s \<and> sent_messages s' = sent_messages s @ input_packets 0 input_events"
proof -
  let ?g = "g\<lparr>g_dmsdp_cl := Some (cl\<lparr>cl_state := CL_READY\<rparr>), g_dmsdp_ready := True\<rparr>"
  obtain s' where s': "send_inputs E 0 input_events (?g, s) = Some (?g, s')" "session_live s'" "cs_auth s' = cs_auth s"
    "sent_messages s' = sent_messages s @ input_packets 0 input_events"
    using send_inputs_ok [OF input_events_buildable assms(1-3)] by blast
  have r: "dmsdp_client_recv cl p = (cl\<lparr>cl_state := CL_READY\<rparr>, 0)" "cl_state cl \<noteq> CL_ERROR"
    using assms(6) by (cases cl; auto simp: dmsdp_client_recv_def accepts_reply_def good_reply_def DMSDP_TYPE_RESPONSE_def)+
  show ?thesis using assms(4,5,8) nocrypto_wire [OF assms(7)] r s'
    by (simp add: on_session_data_def dmsdp_handle_reply_def send_input_sequence_def)
qed

section \<open>Properties\<close>

lemma input_packet_sizes: "map length (input_packets 0 input_events) = [28, 28, 28, 26, 26, 26, 20, 22, 24, 22, 24, 24]"
proof -
  have l: "length (ri_packet ev (the (ri_body ev)) ts) = 14 + L + L mod 2" if "body_len ev = Some L" "event_ok ev" "ri_body ev \<noteq> None"
    for ev L ts using body_size [OF that(1,2)] that(3) by (auto simp: ri_packet_def Let_def)
  have "length (input_packets i evs) = length evs" for i evs by (induction evs arbitrary: i) simp_all
  moreover have "length (input_packets i evs ! k) = 14 + the (body_len (evs ! k)) + the (body_len (evs ! k)) mod 2"
    if "k < length evs" "list_all buildable evs" for i evs k
    using that
  proof (induction evs arbitrary: i k)
    case (Cons ev evs)
    then show ?case using l by (cases k) (auto simp: buildable_def)
  qed simp
  ultimately have "map length (input_packets 0 input_events) = map (\<lambda>b. 14 + the b + the b mod 2) (map body_len input_events)"
    using input_events_buildable by (intro nth_equalityI) simp_all
  then show ?thesis unfolding input_table(1) by simp
qed

text \<open>
  C5. A whole session.  The message that completes the authentication makes the daemon answer it and send a SETUP with its
  service and its stream port; the peer reads it, its SetupReply makes the daemon send PLAY, and its CommonReply makes
  the session ready: the twelve input packets of the sizes 28, 28, 28, 26, 26, 26, 20, 22, 24, 22, 24, 24 follow,
  and nothing has failed on the way.
\<close>

lemma control_session_ready:
  assumes "session_live s" "\<forall>n. ce_write E n" "length (ce_pkt E) = REMOTE_INPUT_MAX_TOTAL" "0 < port" "data \<noteq> []"
    "au_state (cs_auth s) \<noteq> AUTH_DONE"
    "softbus_auth_feed J (ce_auth E) (Some (ce_text E data)) True (cs_auth s) = (a, AUTH_COMPLETE, Some answer)"
    "ce_bytes E answer \<noteq> []" "length (ce_bytes E answer) \<le> SOFTBUS_FRAME_MAX_PAYLOAD"
  shows "\<exists>t1 p1 g1 s1 t2 t3 p3 g2 s2 t4 g3 s3.
    on_session_data J E port data (g, s) = Some (g1, s1) \<and>
    sent_messages s1 = sent_messages s @ [ce_bytes E answer, dmsdp_wire t1] \<and> dmsdp_parse (Some t1) = (0, Some p1) \<and>
    dp_type p1 = DMSDP_TYPE_SETUP \<and> dp_service_id p1 = Some DMSDP_STAND_SERVICE \<and> dp_client_port_lo p1 = port \<and>
    dmsdp_build (Some (dmsdp_msg_setup_reply (dp_cseq p1) (dp_service_id p1) (dp_service_type p1) (dp_data_session_id p1)
      (dp_client_port_lo p1) (dp_client_port_hi p1) slo shi)) 1400 = Some t2 \<and>
    on_session_data J E port (dmsdp_wire t2) (g1, s1) = Some (g2, s2) \<and>
    sent_messages s2 = sent_messages s1 @ [dmsdp_wire t3] \<and> dmsdp_parse (Some t3) = (0, Some p3) \<and> dp_type p3 = DMSDP_TYPE_PLAY \<and>
    dmsdp_build (Some (dmsdp_msg_common_reply (dp_cseq p3) (dp_service_id p3) (dp_service_type p3) (dp_data_session_id p3))) 1400 =
      Some t4 \<and>
    on_session_data J E port (dmsdp_wire t4) (g2, s2) = Some (g3, s3) \<and>
    sent_messages s3 = sent_messages s2 @ input_packets 0 input_events \<and>
    map length (input_packets 0 input_events) = [28, 28, 28, 26, 26, 26, 20, 22, 24, 22, 24, 24] \<and>
    g_dmsdp_ready g3 \<and> g_dmsdp_failed g3 = g_dmsdp_failed g \<and>
    g_dmsdp_cl g3 = Some \<lparr>cl_state = CL_READY, cl_pending_cseq = 1\<rparr>"
proof -
  let ?p1 = "dmsdp_expected (dmsdp_msg_setup 0 (Some DMSDP_STAND_SERVICE) 0 1 0 port port)"
  let ?p3 = "dmsdp_expected (dmsdp_msg_play 1 (Some DMSDP_STAND_SERVICE) 0 1)"
  let ?m2 = "dmsdp_msg_setup_reply 0 (Some DMSDP_STAND_SERVICE) 0 1 port port slo shi"
  let ?m4 = "dmsdp_msg_common_reply 1 (Some DMSDP_STAND_SERVICE) 0 1"
  let ?g1 = "g\<lparr>g_dmsdp_cl := Some \<lparr>cl_state = CL_WAIT_SETUP_REPLY, cl_pending_cseq = 0\<rparr>, g_dmsdp_client_port := port\<rparr>"
  let ?g2 = "?g1\<lparr>g_dmsdp_cl := Some \<lparr>cl_state = CL_WAIT_PLAY_REPLY, cl_pending_cseq = 1\<rparr>\<rparr>"
  let ?g3 = "?g2\<lparr>g_dmsdp_cl := Some \<lparr>cl_state = CL_READY, cl_pending_cseq = 1\<rparr>, g_dmsdp_ready := True\<rparr>"
  have p: "dp_type ?p1 = 1" "dp_service_id ?p1 = Some DMSDP_STAND_SERVICE" "dp_service_type ?p1 = 0" "dp_data_session_id ?p1 = 1"
    "dp_cseq ?p1 = 0" "dp_client_port_lo ?p1 = port" "dp_client_port_hi ?p1 = port"
    "dp_type ?p3 = 2" "dp_service_id ?p3 = Some DMSDP_STAND_SERVICE" "dp_service_type ?p3 = 0" "dp_data_session_id ?p3 = 1" "dp_cseq ?p3 = 1"
    by (simp_all add: message_eval)
  obtain t1 s1 where 1: "on_session_data J E port data (g, s) = Some (?g1, s1)" "session_live s1" "au_state (cs_auth s1) = AUTH_DONE"
    "sent_messages s1 = sent_messages s @ [ce_bytes E answer, dmsdp_wire t1]" "dmsdp_parse (Some t1) = (0, Some ?p1)"
    using auth_starts_control [OF assms(1,2,4-9)] by blast
  obtain t2 where 2: "dmsdp_build (Some ?m2) 1400 = Some t2" "length t2 < 1400" "dmsdp_parse (Some t2) = (0, Some (dmsdp_expected ?m2))"
    using message_trips(2) [OF service_ok] by blast
  obtain t3 s2 where 3: "on_session_data J E port (dmsdp_wire t2) (?g1, s1) = Some (?g2, s2)" "session_live s2" "cs_auth s2 = cs_auth s1"
    "sent_messages s2 = sent_messages s1 @ [dmsdp_wire t3]" "dmsdp_parse (Some t3) = (0, Some ?p3)"
    using setup_reply_sends_play [OF 1(2) assms(2) 1(3) _ 2(2,3) expected_reply(1), of ?g1 J port] by auto
  obtain t4 where 4: "dmsdp_build (Some ?m4) 1400 = Some t4" "length t4 < 1400" "dmsdp_parse (Some t4) = (0, Some (dmsdp_expected ?m4))"
    using message_trips(4) [OF service_ok] by blast
  have r: "accepts_reply \<lparr>cl_state = CL_WAIT_PLAY_REPLY, cl_pending_cseq = 1\<rparr> (dmsdp_expected ?m4)"
    by (simp add: accepts_reply_def expected_reply)
  obtain s3 where 5: "on_session_data J E port (dmsdp_wire t4) (?g2, s2) =
      Some (?g3, s3)"
    "sent_messages s3 = sent_messages s2 @ input_packets 0 input_events"
    using ready_sends_inputs [OF 3(2) assms(2,3) _ _ r 4(2,3), of ?g2 J port] 1(3) 3(3) by auto
  show ?thesis
    by (rule exI [of _ t1], rule exI [of _ ?p1], rule exI [of _ ?g1], rule exI [of _ s1], rule exI [of _ t2], rule exI [of _ t3],
        rule exI [of _ ?p3], rule exI [of _ ?g2], rule exI [of _ s2], rule exI [of _ t4], rule exI [of _ ?g3], rule exI [of _ s3])
      (use 1 2 3 4 5 p input_packet_sizes in \<open>simp add: DMSDP_TYPE_SETUP_def DMSDP_TYPE_PLAY_def\<close>)
qed

definition toy_control_env :: "toy_object control_env" where
  "toy_control_env = \<lparr>ce_auth = toy_env, ce_write = (\<lambda>_. True),
     ce_text = (\<lambda>_. json_to_data toy_json (msg_response toy_json (toy_machine [65]) (replicate 16 2) (replicate 32 5))),
     ce_bytes = (\<lambda>_. [1]), ce_pkt = replicate 512 0\<rparr>"

definition toy_control_session :: control_session where
  "toy_control_session = \<lparr>cs_session = softbus_session_new 0 (replicate 8 7),
     cs_auth = (toy_machine [65])\<lparr>au_state := AUTH_DEVICE_AUTH, au_is_active := True, au_peer_device_id := Some [66]\<rparr>,
     cs_wire = []\<rparr>"

lemma toy_control_completes:
  "\<exists>a r. softbus_auth_feed toy_json (ce_auth toy_control_env) (Some (ce_text toy_control_env [9])) True (cs_auth toy_control_session) =
     (a, AUTH_COMPLETE, Some r)"
proof -
  let ?a = "(toy_machine [65])\<lparr>au_state := AUTH_DEVICE_AUTH, au_is_active := True, au_peer_device_id := Some [66]\<rparr>"
  have "sd_device_id (au_local ?a) = Some [65]" "au_psk ?a = Some [1]" "au_active_nonce ?a = replicate 16 3"
    by (simp_all add: toy_machine_def softbus_auth_new_def)
  then have "compute_sig toy_env ?a (au_active_nonce ?a) (replicate 16 2) (Some [65]) (Some [66]) = Some (replicate 32 5)"
    "au_keys_ready (derive_keys toy_env ?a)" "sd_device_id (au_local ?a) = Some [65]"
    using toy_env_ok(3) by (simp_all add: compute_sig_def softbus_hmac_sha256_def toy_env_def derive_keys_def softbus_device_get_id_def)
  then show ?thesis
    using step_response [OF toy_json_laws, of ?a "toy_machine [65]" "[65]" "[66]" "replicate 16 2" toy_env "replicate 32 5"]
    by (simp add: toy_control_env_def toy_control_session_def toy_env_ok(1) [rule_format] Let_def)
qed

lemma control_session_ready_witness:
  "\<exists>g1 s1. on_session_data toy_json toy_control_env 54323 [9] (control_init, toy_control_session) = Some (g1, s1) \<and>
     length (sent_messages s1) = 2"
proof -
  have "session_live toy_control_session" "\<forall>n. ce_write toy_control_env n" "length (ce_pkt toy_control_env) = REMOTE_INPUT_MAX_TOTAL"
    "au_state (cs_auth toy_control_session) \<noteq> AUTH_DONE" "sent_messages toy_control_session = []"
    "ce_bytes toy_control_env r \<noteq> []" "length (ce_bytes toy_control_env r) \<le> SOFTBUS_FRAME_MAX_PAYLOAD" for r
    by (simp_all add: session_live_def sb_session_ok_def toy_control_session_def toy_control_env_def softbus_session_new_def
        REMOTE_INPUT_MAX_TOTAL_def sent_messages_def max_payload)
  moreover obtain a r where "softbus_auth_feed toy_json (ce_auth toy_control_env) (Some (ce_text toy_control_env [9])) True
      (cs_auth toy_control_session) = (a, AUTH_COMPLETE, Some r)" using toy_control_completes by blast
  ultimately show ?thesis
    using control_session_ready [of toy_control_session toy_control_env 54323 "[9]" toy_json a r control_init 0 0] by auto
qed

text \<open>
  A ready session is not left alone: every further frame that parses, be it a request, a failure or a repeated reply,
  makes the daemon send its twelve input packets once more.
\<close>

lemma control_ready_resends:
  assumes "session_live s" "\<forall>n. ce_write E n" "length (ce_pkt E) = REMOTE_INPUT_MAX_TOTAL" "au_state (cs_auth s) = AUTH_DONE"
    "g_dmsdp_cl g = Some cl" "cl_state cl = CL_READY" "length t < 1400" "dmsdp_parse (Some t) = (0, Some p)"
  shows "\<exists>g' s'. on_session_data J E port (dmsdp_wire t) (g, s) = Some (g', s') \<and> g_dmsdp_cl g' = Some cl \<and>
    sent_messages s' = sent_messages s @ input_packets 0 input_events \<and> length (input_packets 0 input_events) = 12"
proof -
  have "cl\<lparr>cl_state := CL_READY\<rparr> = cl" using assms(6) by (cases cl) simp
  moreover have "length (input_packets 0 input_events) = 12" using arg_cong [OF input_packet_sizes, of length] by simp
  ultimately show ?thesis
    using ready_sends_inputs [OF assms(1-5) _ assms(7,8), of J port] assms(6) by (auto simp: accepts_reply_def)
qed

lemma control_ready_resends_witness:
  "\<exists>t g' s'. on_session_data toy_json toy_control_env 54323 (dmsdp_wire t)
      (control_init\<lparr>g_dmsdp_cl := Some \<lparr>cl_state = CL_READY, cl_pending_cseq = 1\<rparr>\<rparr>,
       toy_control_session\<lparr>cs_auth := (toy_machine [65])\<lparr>au_state := AUTH_DONE\<rparr>\<rparr>) = Some (g', s') \<and>
     length (sent_messages s') = 12"
proof -
  let ?s = "toy_control_session\<lparr>cs_auth := (toy_machine [65])\<lparr>au_state := AUTH_DONE\<rparr>\<rparr>"
  obtain t where t: "length t < 1400" "dmsdp_parse (Some t) = (0, Some (dmsdp_expected (dmsdp_msg_play 1 (Some DMSDP_STAND_SERVICE) 0 1)))"
    using message_trips(3) [OF service_ok] by blast
  have "session_live ?s" "\<forall>n. ce_write toy_control_env n" "length (ce_pkt toy_control_env) = REMOTE_INPUT_MAX_TOTAL"
    "au_state (cs_auth ?s) = AUTH_DONE" "sent_messages ?s = []"
    by (simp_all add: session_live_def sb_session_ok_def toy_control_session_def toy_control_env_def softbus_session_new_def
        REMOTE_INPUT_MAX_TOTAL_def sent_messages_def)
  then show ?thesis
    using control_ready_resends [of ?s toy_control_env "control_init\<lparr>g_dmsdp_cl := Some \<lparr>cl_state = CL_READY, cl_pending_cseq = 1\<rparr>\<rparr>"
        "\<lparr>cl_state = CL_READY, cl_pending_cseq = 1\<rparr>" t _ toy_json 54323] t by fastforce
qed

section \<open>Every run\<close>

text \<open>
  The daemon with all its sessions: a connection is opened, or data arrives on one of the sessions.  What the
  libraries and the writes give may differ from step to step.
\<close>

inductive control_step ::
  "('o, 'd) json_glib \<Rightarrow> u32 \<Rightarrow> control \<times> control_session list \<Rightarrow> control \<times> control_session list \<Rightarrow> bool" for J port where
  opened: "length rid = 8 \<Longrightarrow> on_session_opened J E local psk rnd nonce (softbus_session_new ty rid) = Some (Some s) \<Longrightarrow>
    control_step J port (g, sl) (g, sl @ [s])"
| data: "i < length sl \<Longrightarrow> length (ce_pkt E) = REMOTE_INPUT_MAX_TOTAL \<Longrightarrow> on_session_data J E port d (g, sl ! i) = Some (g', s') \<Longrightarrow> control_step J port (g, sl) (g', sl[i := s'])"

definition control_ok :: "control \<Rightarrow> bool" where
  "control_ok g \<longleftrightarrow> (g_dmsdp_ready g \<longrightarrow> g_dmsdp_cl g \<noteq> None) \<and>
     (\<forall>cl. g_dmsdp_cl g = Some cl \<longrightarrow> cl_state cl \<noteq> CL_INIT \<and> cl_state cl \<noteq> CL_SEND_PLAY \<and>
        (cl_state cl = CL_ERROR \<longrightarrow> g_dmsdp_failed g))"

lemma control_send_auth: "control_send E m s = Some (s', ok) \<Longrightarrow> cs_auth s' = cs_auth s"
  by (auto simp: control_send_def split: option.splits prod.splits)

lemma send_inputs_keeps:
  "send_inputs E i evs st = Some (g', s') \<Longrightarrow>
     cs_auth s' = cs_auth (snd st) \<and> (g' = fst st \<or> g' = (fst st)\<lparr>g_dmsdp_failed := True\<rparr>)"
proof (induction evs arbitrary: i st)
  case (Cons ev evs)
  then show ?case
    by (fastforce dest: control_send_auth split: option.splits prod.splits if_splits)
qed auto

lemma client_send_states:
  "dmsdp_client_send cl m cap = (cl', w) \<Longrightarrow> cl_state cl = CL_INIT \<or> cl_state cl = CL_SEND_PLAY \<Longrightarrow>
     cl_state cl' \<noteq> CL_INIT \<and> cl_state cl' \<noteq> CL_SEND_PLAY \<and> (cl_state cl' = CL_ERROR \<longrightarrow> w = None)"
  by (auto simp: dmsdp_client_send_def client_emit_def split: if_splits option.splits)

lemma dmsdp_send_keeps:
  assumes "dmsdp_send E m cl (g, s) = Some (g', s')" "cl_state cl = CL_INIT \<or> cl_state cl = CL_SEND_PLAY"
  shows "control_ok g' \<and> cs_auth s' = cs_auth s"
proof -
  obtain cl' w where c: "dmsdp_client_send cl m (3 + DMSDP_TEXT_MAX) = (cl', w)" by fastforce
  have "g_dmsdp_cl g' = Some cl' \<and> (w = None \<longrightarrow> g_dmsdp_failed g') \<and> cs_auth s' = cs_auth s"
    using assms(1) c by (auto simp: dmsdp_send_def Let_def dest: control_send_auth split: option.splits)
  then show ?thesis using client_send_states [OF c assms(2)] by (auto simp: control_ok_def)
qed

lemma handle_reply_keeps:
  assumes "dmsdp_handle_reply E p cl (g, s) = Some (g', s')" "control_ok g" "g_dmsdp_cl g = Some cl" "cl_state cl \<noteq> CL_ERROR"
  shows "control_ok g' \<and> cs_auth s' = cs_auth s"
proof -
  obtain cl' rc where r: "dmsdp_client_recv cl p = (cl', rc)" by fastforce
  let ?g = "g\<lparr>g_dmsdp_cl := Some cl'\<rparr>"
  have w: "cl_state cl = CL_WAIT_SETUP_REPLY \<or> cl_state cl = CL_WAIT_PLAY_REPLY \<or> cl_state cl = CL_READY"
    using assms(2-4) by (cases "cl_state cl") (auto simp: control_ok_def)
  then have st: "rc \<noteq> 0 \<and> cl_state cl' = CL_ERROR \<or> rc = 0 \<and> (cl_state cl' = CL_SEND_PLAY \<or> cl_state cl' = CL_READY)"
    using r by (auto simp: dmsdp_client_recv_def split: if_splits)
  show ?thesis
  proof (cases "rc = 0 \<and> cl_state cl' = CL_READY")
    case True
    then have "send_inputs E 0 input_events (?g\<lparr>g_dmsdp_ready := True\<rparr>, s) = Some (g', s')"
      using assms(1) r by (simp add: dmsdp_handle_reply_def send_input_sequence_def)
    from send_inputs_keeps [OF this] True show ?thesis by (auto simp: control_ok_def)
  next
    case False
    then show ?thesis using assms(1) r st dmsdp_send_keeps [of E _ cl' ?g s g' s']
      by (auto simp: dmsdp_handle_reply_def control_ok_def)
  qed
qed

lemma session_data_keeps:
  assumes "on_session_data J E port d (g, s) = Some (g', s')" "control_ok g"
  shows "control_ok g' \<and> (g' \<noteq> g \<longrightarrow> au_state (cs_auth s') = AUTH_DONE) \<and>
    (au_state (cs_auth s) = AUTH_DONE \<longrightarrow> cs_auth s' = cs_auth s)"
proof (cases "au_state (cs_auth s) = AUTH_DONE")
  case True
  show ?thesis
  proof (cases "\<exists>cl text p. g_dmsdp_cl g = Some cl \<and> cl_state cl \<noteq> CL_ERROR \<and> nocrypto_text d = Some text \<and> dmsdp_parse (Some text) = (0, Some p)")
    case h: True
    then show ?thesis using assms True handle_reply_keeps [of E _ _ g s g' s'] by (auto simp: on_session_data_def)
  next
    case False
    have p: "snd (dmsdp_parse (Some x)) = None \<Longrightarrow> fst (dmsdp_parse (Some x)) \<noteq> 0" for x
      by (auto simp: dmsdp_parse_def Let_def split: option.splits prod.splits if_splits)
    have "g' = g \<and> cs_auth s' = cs_auth s \<or> g' = g\<lparr>g_dmsdp_failed := True\<rparr> \<and> s' = s"
    proof (cases "\<exists>cl x. g_dmsdp_cl g = Some cl \<and> cl_state cl \<noteq> CL_ERROR \<and> nocrypto_text d = Some x")
      case c: True
      then obtain cl x where c: "g_dmsdp_cl g = Some cl" "cl_state cl \<noteq> CL_ERROR" "nocrypto_text d = Some x" by blast
      have "fst (dmsdp_parse (Some x)) \<noteq> 0" using False c p [of x] by (cases "dmsdp_parse (Some x)") auto
      then show ?thesis using assms(1) True c by (auto simp: on_session_data_def split: prod.splits)
    next
      case n: False
      then have "(case control_send E d s of None \<Rightarrow> None | Some (s, _) \<Rightarrow> Some (g, s)) = Some (g', s')"
        using assms(1) True by (cases "g_dmsdp_cl g"; cases "nocrypto_text d"; cases "control_send E d s") (auto simp: on_session_data_def Let_def split: if_splits)
      then show ?thesis by (auto dest: control_send_auth split: option.splits)
    qed
    then show ?thesis using assms(2) True by (auto simp: control_ok_def)
  qed
next
  case False
  obtain a r m where f: "softbus_auth_feed J (ce_auth E) (if d = [] then None else Some (ce_text E d)) True (cs_auth s) = (a, r, m)"
    using prod_cases3 by blast
  obtain s1 where s1: "(case m of None \<Rightarrow> Some (s\<lparr>cs_auth := a\<rparr>, True) | Some t \<Rightarrow> control_send E (ce_bytes E t) (s\<lparr>cs_auth := a\<rparr>)) = Some s1"
    "cs_auth (fst s1) = a"
    using assms(1) False f by (fastforce simp: on_session_data_def on_auth_data_def dest: control_send_auth split: option.splits)
  show ?thesis
  proof (cases "r = AUTH_COMPLETE \<and> 0 < port")
    case True
    then have "dmsdp_send_setup E dmsdp_client_new (g\<lparr>g_dmsdp_client_port := port\<rparr>, fst s1) = Some (g', s')"
      using assms(1) False f s1 by (simp add: on_session_data_def on_auth_data_def split: prod.splits)
    moreover have "au_state a = AUTH_DONE" using f True feed_complete by blast
    ultimately show ?thesis using dmsdp_send_keeps s1(2) False by (fastforce simp: dmsdp_send_setup_def dmsdp_client_new_def)
  next
    case n: False
    then have "g' = g" using assms(1) False f s1 by (auto simp: on_session_data_def on_auth_data_def split: prod.splits)
    then show ?thesis using assms(2) False by simp
  qed
qed

text \<open>No callback reads or writes outside a buffer.\<close>

definition sid_ok :: "control_session \<Rightarrow> bool" where
  "sid_ok s \<longleftrightarrow> length (ss_session_id (cs_session s)) = 8"

definition lands :: "('a \<times> control_session) option \<Rightarrow> bool" where
  "lands r \<longleftrightarrow> (case r of None \<Rightarrow> False | Some (_, s) \<Rightarrow> sid_ok s)"

lemma lands_simps [simp]: "lands (Some (x, s)) = sid_ok s" "\<not> lands None"
  by (simp_all add: lands_def)

lemma control_send_total: "sid_ok s \<Longrightarrow> \<exists>s' ok. control_send E m s = Some (s', ok) \<and> sid_ok s'"
  by (auto simp: control_send_def softbus_session_send_def softbus_frame_pack_def sb_send_frame_def sb_zero_def sid_ok_def
      get_bytes_def Let_def SOFTBUS_FRAME_SESSION_ID_SIZE_def split: option.splits)

lemma send_inputs_total:
  "list_all buildable evs \<Longrightarrow> length (ce_pkt E) = REMOTE_INPUT_MAX_TOTAL \<Longrightarrow> sid_ok s \<Longrightarrow> lands (send_inputs E i evs (g, s))"
proof (induction evs arbitrary: i s)
  case (Cons ev evs)
  obtain L b where L: "body_len ev = Some L" "ri_body ev = Some b" "event_ok ev"
    using Cons.prems(1) by (auto simp: buildable_def)
  have n: "14 + L + L mod 2 \<le> 492" using body_len_bound [OF L(1)] by presburger
  obtain pkt k where b: "remote_input_build (Some ev) (of_nat (1000 + 16 * i)) (Some (ce_pkt E)) REMOTE_INPUT_MAX_TOTAL = Some (Some (pkt, k))"
    using build_packet [OF L(3), of REMOTE_INPUT_MAX_TOTAL "ce_pkt E" "of_nat (1000 + 16 * i)"] L n Cons.prems(2)
    by (simp add: Let_def REMOTE_INPUT_MAX_TOTAL_def)
  obtain s' ok where s': "control_send E (take k pkt) s = Some (s', ok)" "sid_ok s'"
    using control_send_total [OF Cons.prems(3)] by blast
  then show ?case using Cons.IH [of s' "i + 1"] Cons.prems(1,2) b by simp
qed simp

lemma dmsdp_send_total: "sid_ok s \<Longrightarrow> lands (dmsdp_send E m cl (g, s))"
proof -
  assume s: "sid_ok s"
  obtain cl' w where "dmsdp_client_send cl m (3 + DMSDP_TEXT_MAX) = (cl', w)" by fastforce
  then show ?thesis using s control_send_total [OF s, of E "the w"] by (cases w) (auto simp: dmsdp_send_def Let_def)
qed

lemma session_data_total:
  assumes "sid_ok s" "length (ce_pkt E) = REMOTE_INPUT_MAX_TOTAL"
  shows "lands (on_session_data J E port d (g, s))"
proof -
  have r: "lands (dmsdp_handle_reply E p cl (g, s))" for p cl
    using assms(1) dmsdp_send_total [OF assms(1), of E] send_inputs_total [OF input_events_buildable assms(2,1)]
    by (simp add: dmsdp_handle_reply_def send_input_sequence_def Let_def split: prod.splits dmsdp_client_state.splits)
  obtain s' ok where e: "control_send E d s = Some (s', ok)" "sid_ok s'" using control_send_total [OF assms(1)] by blast
  obtain a x m where f: "softbus_auth_feed J (ce_auth E) (if d = [] then None else Some (ce_text E d)) True (cs_auth s) = (a, x, m)"
    using prod_cases3 by blast
  have i: "sid_ok (s\<lparr>cs_auth := a\<rparr>)" using assms(1) by (simp add: sid_ok_def)
  obtain s1 ok where s1: "(case m of None \<Rightarrow> Some (s\<lparr>cs_auth := a\<rparr>, True) | Some t \<Rightarrow> control_send E (ce_bytes E t) (s\<lparr>cs_auth := a\<rparr>)) = Some (s1, ok)"
    "sid_ok s1" using i control_send_total [OF i, of E "ce_bytes E (the m)"] by (cases m) auto
  have "lands (on_auth_data J E port d (g, s))"
    using f s1 dmsdp_send_total [OF s1(2), of E] by (simp add: on_auth_data_def dmsdp_send_setup_def Let_def)
  then show ?thesis using r e assms(1)
    by (simp add: on_session_data_def Let_def split: option.splits prod.splits)
qed

lemma control_send_sid: "control_send E m s = Some (s', ok) \<Longrightarrow> sid_ok s \<Longrightarrow> sid_ok s'"
  using control_send_total [of s E m] by auto

lemma session_opened_sid:
  assumes "on_session_opened J E local psk rnd nonce (softbus_session_new ty rid) = Some (Some s)" "length rid = 8"
  shows "sid_ok s"
proof -
  have "\<exists>a. s = \<lparr>cs_session = softbus_session_new ty rid, cs_auth = a, cs_wire = []\<rparr> \<or>
      (\<exists>t b. control_send E (ce_bytes E t) \<lparr>cs_session = softbus_session_new ty rid, cs_auth = a, cs_wire = []\<rparr> = Some (s, b))"
    using assms(1) by (auto simp: on_session_opened_def Let_def split: option.splits prod.splits auth_result.splits)
  then obtain a where "s = \<lparr>cs_session = softbus_session_new ty rid, cs_auth = a, cs_wire = []\<rparr> \<or>
      (\<exists>t b. control_send E (ce_bytes E t) \<lparr>cs_session = softbus_session_new ty rid, cs_auth = a, cs_wire = []\<rparr> = Some (s, b))" by blast
  moreover have "sid_ok \<lparr>cs_session = softbus_session_new ty rid, cs_auth = a, cs_wire = []\<rparr>"
    using assms(2) by (simp add: sid_ok_def softbus_session_new_def)
  ultimately show ?thesis by (auto dest: control_send_sid)
qed

text \<open>
  C10. Whatever connections are opened and whatever data arrives in whatever order: between two callbacks the DMSDP client is never in a
  state in which it would have to send, an error of the client is always flagged, there is no control session
  and nothing is ready before some session has completed its authentication, and a step that changes the control state
  belongs to a session that has.  No data makes a callback leave its buffers.
\<close>

lemma control_reachable:
  assumes "(control_step J port)\<^sup>*\<^sup>* (control_init, []) (g, sl)"
  shows "control_ok g \<and> (g \<noteq> control_init \<longrightarrow> (\<exists>s \<in> set sl. au_state (cs_auth s) = AUTH_DONE)) \<and>
    (\<forall>g' sl'. control_step J port (g, sl) (g', sl') \<longrightarrow> g' \<noteq> g \<longrightarrow>
       (\<exists>i < length sl. sl' = sl[i := sl' ! i] \<and> au_state (cs_auth (sl' ! i)) = AUTH_DONE)) \<and>
    (\<forall>E d i. i < length sl \<longrightarrow> length (ce_pkt E) = REMOTE_INPUT_MAX_TOTAL \<longrightarrow> on_session_data J E port d (g, sl ! i) \<noteq> None)"
proof -
  have "control_ok (fst st) \<and> (\<forall>s \<in> set (snd st). sid_ok s) \<and> (fst st \<noteq> control_init \<longrightarrow> (\<exists>s \<in> set (snd st). au_state (cs_auth s) = AUTH_DONE))"
    if "(control_step J port)\<^sup>*\<^sup>* (control_init, []) st" for st
    using that
  proof induction
    case base
    then show ?case by (simp add: control_ok_def control_init_def)
  next
    case (step st st')
    from step.hyps(2) show ?case
    proof cases
      case (opened rid E local psk rnd nonce ty s g sl)
      have "sid_ok s" by (rule session_opened_sid [OF opened(4,3)])
      then show ?thesis using opened(1,2) step.IH by auto
    next
      case (data i sl E d g g' s')
      have k: "control_ok g'" "g' \<noteq> g \<Longrightarrow> au_state (cs_auth s') = AUTH_DONE"
        "au_state (cs_auth (sl ! i)) = AUTH_DONE \<Longrightarrow> au_state (cs_auth s') = AUTH_DONE"
        using session_data_keeps [OF data(5)] step.IH data(1) by auto
      have i: "sid_ok s'" using session_data_total [OF _ data(4), of "sl ! i" J port d g] step.IH data(1,3,5) by simp
      have s': "s' \<in> set (sl[i := s'])" using data(3) by (rule set_update_memI)
      have "\<exists>s \<in> set (sl[i := s']). au_state (cs_auth s) = AUTH_DONE" if s: "s \<in> set sl" "au_state (cs_auth s) = AUTH_DONE" for s
      proof (cases "s = sl ! i")
        case True
        then show ?thesis using k(3) s(2) s' by blast
      next
        case False
        then have "s \<in> set (sl[i := s'])" using s(1) by (metis in_set_conv_nth length_list_update nth_list_update_neq)
        then show ?thesis using s(2) by blast
      qed
      moreover have "\<forall>s \<in> set (sl[i := s']). sid_ok s"
        using i step.IH data(1) set_update_subset_insert [of sl i s'] by auto
      ultimately show ?thesis using k(1,2) s' step.IH data(1,2) by auto
    qed
  qed
  from this [OF assms] have ok: "control_ok g" "\<forall>s \<in> set sl. sid_ok s" "g \<noteq> control_init \<longrightarrow> (\<exists>s \<in> set sl. au_state (cs_auth s) = AUTH_DONE)" by auto
  have "\<exists>i < length sl. sl' = sl[i := sl' ! i] \<and> au_state (cs_auth (sl' ! i)) = AUTH_DONE"
    if st: "control_step J port (g, sl) (g', sl')" "g' \<noteq> g" for g' sl'
    using st
  proof cases
    case (data i E d s')
    then show ?thesis using session_data_keeps [OF data(4) ok(1)] st(2) by (intro exI [of _ i]) simp
  qed simp
  moreover have "on_session_data J E port d (g, sl ! i) \<noteq> None"
    if "i < length sl" "length (ce_pkt E) = REMOTE_INPUT_MAX_TOTAL" for E d i
    using session_data_total [OF _ that(2), of "sl ! i" J port d g] ok(2) that(1)
    by (cases "on_session_data J E port d (g, sl ! i)") (simp_all add: lands_def)
  ultimately show ?thesis using ok(1,3) by blast
qed

lemma control_reachable_witness:
  "\<exists>g sl. (control_step toy_json 1)\<^sup>*\<^sup>* (control_init, []) (g, sl) \<and> length sl = 1 \<and> control_ok g"
proof -
  have c: "\<exists>s b. control_send toy_control_env [1] \<lparr>cs_session = softbus_session_new 0 (replicate 8 7), cs_auth = a, cs_wire = []\<rparr> = Some (s, b)"
    for a using control_send_ok [of "\<lparr>cs_session = softbus_session_new 0 (replicate 8 7), cs_auth = a, cs_wire = []\<rparr>" "[1]" toy_control_env]
    by (auto simp: session_live_def sb_session_ok_def softbus_session_new_def max_payload toy_control_env_def)
  have b: "ce_bytes toy_control_env x = [1]" for x by (simp add: toy_control_env_def)
  have "\<exists>s. on_session_opened toy_json toy_control_env (Some (softbus_device_new\<lparr>sd_device_id := Some [65]\<rparr>)) [1] 6 (replicate 16 3)
      (softbus_session_new 0 (replicate 8 7)) = Some (Some s)"
    using c by (simp add: on_session_opened_def softbus_auth_new_def softbus_auth_begin_active_def Let_def b)
  then obtain s where "control_step toy_json 1 (control_init, []) (control_init, [s])"
    using control_step.opened [of "replicate 8 7" toy_json _ _ _ _ _ 0 _ 1 control_init "[]"] by fastforce
  then have r: "(control_step toy_json 1)\<^sup>*\<^sup>* (control_init, []) (control_init, [s])" by (rule r_into_rtranclp)
  show ?thesis using control_reachable [OF r] r by (intro exI [of _ control_init] exI [of _ "[s]"]) simp
qed

end
