(* ===== verification/DaemonStream.thy ===== *)
theory DaemonStream
  imports TestFiles
begin

text \<open>
  The daemon's file and stream phases (\<open>src/main.c\<close>): the send specification, the DFile callbacks
  and the callbacks of the fillp engine that start, retry, run and end the stream.

  The globals are a record.  What the daemon asks of the engines is a list of outputs, and what it hands
  to the main loop (\<open>g_main_context_invoke\<close>, \<open>g_timeout_add_seconds\<close>) a list of tasks that are
  run one by one.  Whether a call of an engine succeeds is an input (\<open>daemon_env\<close>).  A peer and the
  \<open>StreamFile\<close> made for it have the same number.  A path is the pair of directory and name that
  \<open>g_build_filename\<close> joins.
\<close>

section \<open>The send specification\<close>

text \<open>\<open>g_strsplit(s, ":", n)\<close> for a string that is not empty.\<close>

fun g_strsplit_colon :: "nat \<Rightarrow> cstr \<Rightarrow> cstr list" where
  "g_strsplit_colon 0 s = []"
| "g_strsplit_colon (Suc 0) s = [s]"
| "g_strsplit_colon (Suc (Suc n)) s =
     (let a = takeWhile (\<lambda>c. c \<noteq> 0x3a) s
      in if length a = length s then [s] else a # g_strsplit_colon (Suc n) (drop (length a + 1) s))"

text \<open>\<open>g_ascii_strtoull(s, NULL, 10)\<close>: blanks, a sign, digits; too large a number gives the largest.\<close>

definition g_ascii_strtoull :: "cstr \<Rightarrow> u64" where
  "g_ascii_strtoull s =
     (let s = dropWhile (\<lambda>c. c = 0x20 \<or> 9 \<le> c \<and> c \<le> 13) s;
          neg = (s \<noteq> [] \<and> hd s = 0x2d);
          s = (if s \<noteq> [] \<and> (hd s = 0x2d \<or> hd s = 0x2b) then tl s else s);
          n = foldl (\<lambda>n c. 10 * n + (unat c - 0x30)) 0 (takeWhile (\<lambda>c. 0x30 \<le> c \<and> c \<le> 0x39) s)
      in if 2 ^ 64 \<le> n then - 1 else if neg then - (of_nat n) else of_nat n)"

type_synonym path = "cstr \<times> cstr"

datatype send_file = SendGenerated path bytes cstr | SendPath cstr cstr

record daemon_env =
  de_mkdir :: bool
  de_sha :: "bytes \<Rightarrow> cstr"
  de_opened :: bool
  de_write :: "nat \<Rightarrow> bytes \<Rightarrow> bool"
  de_basename :: "cstr \<Rightarrow> cstr"
  de_tmp :: cstr
  de_ft_new :: bool
  de_engine_new :: bool
  de_connect :: bool
  de_start_send :: bool
  de_send_files :: bool

text \<open>The seed and the size of \<open>gen:<seed>:<size>\<close>.\<close>

definition gen_parts :: "cstr \<Rightarrow> (u64 \<times> u64) option" where
  "gen_parts spec =
     (case g_strsplit_colon 3 spec of
        _ # a # b # _ \<Rightarrow> if a \<noteq> [] \<and> b \<noteq> [] then Some (g_ascii_strtoull a, g_ascii_strtoull b) else None
      | _ \<Rightarrow> None)"

definition is_gen :: "cstr \<Rightarrow> bool" where
  "is_gen spec \<longleftrightarrow> take 4 spec = bytes_of ''gen:''"

text \<open>The file a specification names; \<open>None\<close> when it cannot be made.\<close>

definition resolve_spec :: "daemon_env \<Rightarrow> cstr \<Rightarrow> cstr \<Rightarrow> send_file option" where
  "resolve_spec E sub spec =
     (if is_gen spec then
        (case gen_parts spec of
           None \<Rightarrow> None
         | Some (seed, sz) \<Rightarrow>
             if de_mkdir E then
               map_option (\<lambda>(d, w). SendGenerated (de_tmp E @ [0x2f] @ sub, bytes_of ''ftgen.bin'') d w)
                 (ft_testfile_generate (de_sha E) (de_opened E) (de_write E) (Some (de_tmp E @ [0x2f] @ sub)) seed sz)
             else None)
      else Some (SendPath spec (de_basename E spec)))"

section \<open>State\<close>

record daemon_config =
  dg_stream_port :: u32
  dg_stream_peer_port :: u32
  dg_stream_dir :: cstr
  dg_stream_send_spec :: "cstr option"
  dg_ft_send_spec :: "cstr option"

datatype daemon_out =
    OutEngineNew u32
  | OutConnect cstr u32
  | OutPeerClose nat
  | OutSfNew nat
  | OutSfAttach nat
  | OutSfSend nat send_file
  | OutSfClose nat
  | OutDecode path
  | OutFtServer nat
  | OutFtNone
  | OutFtSend nat send_file
  | OutFtUnref nat

datatype daemon_task = TaskStart | TaskRetry | TaskDecode path

text \<open>\<open>FtSession\<close>, the user data of a DFile connection, which \<open>on_ft_closed\<close> frees.\<close>

record ft_session =
  ft_sent_back :: bool
  ft_freed :: bool

record daemon =
  dm_ft :: "ft_session list"
  dm_engine :: bool
  dm_peer :: "nat option"
  dm_sf :: "nat option"
  dm_peer_ip :: "cstr option"
  dm_attempts :: int
  dm_tx_done :: bool
  dm_rx_done :: bool
  dm_failed :: bool
  dm_established :: bool
  dm_rx_name :: "cstr option"
  dm_tasks :: "daemon_task list"
  dm_out :: "daemon_out list"

definition daemon_init :: daemon where
  "daemon_init = \<lparr>dm_ft = [], dm_engine = False, dm_peer = None, dm_sf = None, dm_peer_ip = None, dm_attempts = 0, dm_tx_done = False,
     dm_rx_done = False, dm_failed = False, dm_established = False, dm_rx_name = None, dm_tasks = [], dm_out = []\<rparr>"

definition STREAM_CONNECT_MAX :: int where "STREAM_CONNECT_MAX = 3"

definition dm_emit :: "daemon_out \<Rightarrow> daemon \<Rightarrow> daemon" where
  "dm_emit x d = d\<lparr>dm_out := dm_out d @ [x]\<rparr>"

definition dm_invoke :: "daemon_task \<Rightarrow> daemon \<Rightarrow> daemon" where
  "dm_invoke t d = d\<lparr>dm_tasks := dm_tasks d @ [t]\<rparr>"

section \<open>The file phase\<close>

text \<open>A connection: the peer's address is remembered, and the engine gets a session of its own.\<close>

definition on_ft_connection :: "daemon_env \<Rightarrow> cstr option \<Rightarrow> daemon \<Rightarrow> daemon" where
  "on_ft_connection E ip d =
     (let d = d\<lparr>dm_peer_ip := ip\<rparr>
      in if \<not> de_ft_new E then dm_emit OutFtNone d
         else dm_emit (OutFtServer (length (dm_ft d))) (d\<lparr>dm_ft := dm_ft d @ [\<lparr>ft_sent_back = False, ft_freed = False\<rparr>]\<rparr>))"

definition ft_set_sent :: "nat \<Rightarrow> bool \<Rightarrow> daemon \<Rightarrow> daemon" where
  "ft_set_sent i b d = d\<lparr>dm_ft := (dm_ft d)[i := (dm_ft d ! i)\<lparr>ft_sent_back := b\<rparr>]\<rparr>"

definition on_ft_file_list :: "daemon_config \<Rightarrow> daemon_env \<Rightarrow> nat \<Rightarrow> daemon \<Rightarrow> daemon" where
  "on_ft_file_list C E i d =
     (case dg_ft_send_spec C of
        None \<Rightarrow> d
      | Some spec \<Rightarrow>
          if spec = [] \<or> ft_sent_back (dm_ft d ! i) then d
          else
            let d = ft_set_sent i True d
            in (case resolve_spec E (bytes_of ''hwphonelink-ft-send'') spec of
                  None \<Rightarrow> ft_set_sent i False d
                | Some item \<Rightarrow> if de_send_files E then dm_emit (OutFtSend i item) d else ft_set_sent i False d))"

definition on_ft_closed :: "nat \<Rightarrow> daemon \<Rightarrow> daemon" where
  "on_ft_closed i d = dm_emit (OutFtUnref i) (d\<lparr>dm_ft := (dm_ft d)[i := (dm_ft d ! i)\<lparr>ft_freed := True\<rparr>]\<rparr>)"

definition on_ft_result :: "daemon_config \<Rightarrow> bool \<Rightarrow> bool \<Rightarrow> daemon \<Rightarrow> daemon" where
  "on_ft_result C is_sender ok d =
     (if is_sender \<and> ok \<and> 0 < dg_stream_port C \<and> \<not> dm_failed d \<and> \<not> dm_established d then dm_invoke TaskStart d else d)"

section \<open>The stream phase\<close>

definition stream_connect :: "daemon_config \<Rightarrow> daemon_env \<Rightarrow> daemon \<Rightarrow> daemon" where
  "stream_connect C E d =
     (if \<not> dm_engine d then d
      else
        (case dm_peer_ip d of
           None \<Rightarrow> d\<lparr>dm_failed := True\<rparr>
         | Some ip \<Rightarrow>
             let d = d\<lparr>dm_attempts := dm_attempts d + 1\<rparr>
             in if STREAM_CONNECT_MAX < dm_attempts d then d\<lparr>dm_failed := True\<rparr>
                else
                  let d = dm_emit (OutConnect ip (dg_stream_peer_port C)) d
                  in if \<not> de_connect E then dm_invoke TaskRetry d else d))"

definition stream_start :: "daemon_config \<Rightarrow> daemon_env \<Rightarrow> daemon \<Rightarrow> daemon" where
  "stream_start C E d =
     (if dm_failed d then d
      else if dm_engine d then stream_connect C E d
      else if \<not> de_engine_new E then d\<lparr>dm_failed := True\<rparr>
      else stream_connect C E (dm_emit (OutEngineNew (dg_stream_port C)) (d\<lparr>dm_engine := True\<rparr>)))"

definition on_stream_rx_meta :: "cstr \<Rightarrow> daemon \<Rightarrow> daemon" where
  "on_stream_rx_meta name d = d\<lparr>dm_rx_name := Some name\<rparr>"

definition on_stream_done :: "daemon_config \<Rightarrow> bool \<Rightarrow> bool \<Rightarrow> daemon \<Rightarrow> daemon" where
  "on_stream_done C is_send ok d =
     (if \<not> ok then d\<lparr>dm_failed := True\<rparr>
      else
        let d = (if is_send then d\<lparr>dm_tx_done := True\<rparr> else d\<lparr>dm_rx_done := True\<rparr>);
            d = (if dm_tx_done d \<and> dm_rx_done d then
                   (case dm_peer d of None \<Rightarrow> d | Some p \<Rightarrow> dm_emit (OutPeerClose p) d)
                 else d)
        in (case dm_rx_name d of
              None \<Rightarrow> d
            | Some name \<Rightarrow>
                if \<not> is_send \<and> h264_testfile_name_sha (Some name) \<noteq> None then
                  dm_invoke (TaskDecode (dg_stream_dir C, name)) (d\<lparr>dm_rx_name := None\<rparr>)
                else d))"

definition on_stream_established :: "daemon_config \<Rightarrow> daemon_env \<Rightarrow> nat \<Rightarrow> daemon \<Rightarrow> daemon" where
  "on_stream_established C E peer d =
     (let d = dm_emit (OutSfNew peer) (d\<lparr>dm_established := True, dm_peer := Some peer, dm_sf := Some peer\<rparr>);
          item = (case dg_stream_send_spec C of
                    None \<Rightarrow> None
                  | Some spec \<Rightarrow>
                      if spec = [] \<or> spec = bytes_of ''none'' then None
                      else resolve_spec E (bytes_of ''hwphonelink-streamgen'') spec)
      in (case item of
            None \<Rightarrow> dm_emit (OutSfAttach peer) d
          | Some x \<Rightarrow>
              if de_start_send E then dm_emit (OutSfSend peer x) d
              else dm_emit (OutSfAttach peer) (d\<lparr>dm_failed := True\<rparr>)))"

definition on_stream_closed :: "nat \<Rightarrow> daemon \<Rightarrow> daemon" where
  "on_stream_closed peer d =
     (let d = (case dm_sf d of None \<Rightarrow> d | Some s \<Rightarrow> dm_emit (OutSfClose s) (d\<lparr>dm_sf := None\<rparr>));
          d = (if dm_peer d = Some peer then d\<lparr>dm_peer := None\<rparr> else d)
      in if dm_failed d \<or> (dm_tx_done d \<and> dm_rx_done d) then d
         else if dm_established d then d\<lparr>dm_failed := True\<rparr>
         else dm_invoke TaskStart d)"

section \<open>The main loop\<close>

definition run_task :: "daemon_config \<Rightarrow> daemon_env \<Rightarrow> daemon_task \<Rightarrow> daemon \<Rightarrow> daemon" where
  "run_task C E t d =
     (case t of
        TaskStart \<Rightarrow> stream_start C E d
      | TaskRetry \<Rightarrow> stream_connect C E d
      | TaskDecode p \<Rightarrow> dm_emit (OutDecode p) d)"

text \<open>A callback of an engine, or a task that the main loop takes out of its queue.\<close>

datatype daemon_event =
    EvConnection "cstr option"
  | EvFileList nat
  | EvFtClosed nat
  | EvFtResult bool bool
  | EvRxMeta cstr
  | EvDone bool bool
  | EvEstablished nat
  | EvClosed nat
  | EvTask nat

definition daemon_event :: "daemon_config \<Rightarrow> daemon_env \<Rightarrow> daemon_event \<Rightarrow> daemon \<Rightarrow> daemon" where
  "daemon_event C E e d =
     (case e of
        EvConnection ip \<Rightarrow> on_ft_connection E ip d
      | EvFileList i \<Rightarrow> if i < length (dm_ft d) \<and> \<not> ft_freed (dm_ft d ! i) then on_ft_file_list C E i d else d
      | EvFtClosed i \<Rightarrow> if i < length (dm_ft d) \<and> \<not> ft_freed (dm_ft d ! i) then on_ft_closed i d else d
      | EvFtResult is_sender ok \<Rightarrow> on_ft_result C is_sender ok d
      | EvRxMeta name \<Rightarrow> on_stream_rx_meta name d
      | EvDone is_send ok \<Rightarrow> on_stream_done C is_send ok d
      | EvEstablished p \<Rightarrow> on_stream_established C E p d
      | EvClosed p \<Rightarrow> on_stream_closed p d
      | EvTask i \<Rightarrow>
          if i < length (dm_tasks d) then
            run_task C E (dm_tasks d ! i) (d\<lparr>dm_tasks := take i (dm_tasks d) @ drop (Suc i) (dm_tasks d)\<rparr>)
          else d)"

definition daemon_run :: "daemon_config \<Rightarrow> (daemon_env \<times> daemon_event) list \<Rightarrow> daemon" where
  "daemon_run C es = fold (\<lambda>(E, e). daemon_event C E e) es daemon_init"

section \<open>Every run\<close>

fun is_connect :: "daemon_out \<Rightarrow> bool" where
  "is_connect (OutConnect _ _) = True"
| "is_connect _ = False"

fun is_engine_new :: "daemon_out \<Rightarrow> bool" where
  "is_engine_new (OutEngineNew _) = True"
| "is_engine_new _ = False"

fun is_ft_send :: "daemon_out \<Rightarrow> bool" where
  "is_ft_send (OutFtSend _ _) = True"
| "is_ft_send _ = False"

definition ft_sends :: "daemon \<Rightarrow> nat" where
  "ft_sends d = length (filter is_ft_send (dm_out d))"

definition connects :: "daemon \<Rightarrow> nat" where
  "connects d = length (filter is_connect (dm_out d))"

definition engines :: "daemon \<Rightarrow> nat" where
  "engines d = length (filter is_engine_new (dm_out d))"

lemma dm_emit_simps [simp]:
  "dm_out (dm_emit x d) = dm_out d @ [x]" "dm_engine (dm_emit x d) = dm_engine d" "dm_peer (dm_emit x d) = dm_peer d"
  "dm_sf (dm_emit x d) = dm_sf d" "dm_peer_ip (dm_emit x d) = dm_peer_ip d" "dm_attempts (dm_emit x d) = dm_attempts d"
  "dm_tx_done (dm_emit x d) = dm_tx_done d" "dm_rx_done (dm_emit x d) = dm_rx_done d" "dm_failed (dm_emit x d) = dm_failed d"
  "dm_established (dm_emit x d) = dm_established d" "dm_rx_name (dm_emit x d) = dm_rx_name d" "dm_tasks (dm_emit x d) = dm_tasks d" "dm_ft (dm_emit x d) = dm_ft d"
  by (simp_all add: dm_emit_def)

lemma dm_invoke_simps [simp]:
  "dm_out (dm_invoke t d) = dm_out d" "dm_engine (dm_invoke t d) = dm_engine d" "dm_peer (dm_invoke t d) = dm_peer d"
  "dm_sf (dm_invoke t d) = dm_sf d" "dm_peer_ip (dm_invoke t d) = dm_peer_ip d" "dm_attempts (dm_invoke t d) = dm_attempts d"
  "dm_tx_done (dm_invoke t d) = dm_tx_done d" "dm_rx_done (dm_invoke t d) = dm_rx_done d" "dm_failed (dm_invoke t d) = dm_failed d"
  "dm_established (dm_invoke t d) = dm_established d" "dm_rx_name (dm_invoke t d) = dm_rx_name d"
  "dm_tasks (dm_invoke t d) = dm_tasks d @ [t]" "dm_ft (dm_invoke t d) = dm_ft d"
  by (simp_all add: dm_invoke_def)

definition daemon_ok :: "daemon_config \<Rightarrow> cstr set \<Rightarrow> daemon \<Rightarrow> bool" where
  "daemon_ok C ips d \<longleftrightarrow>
     0 \<le> dm_attempts d \<and> int (connects d) = min (dm_attempts d) 3 \<and> (3 < dm_attempts d \<longrightarrow> dm_failed d) \<and>
     engines d = (if dm_engine d then 1 else 0) \<and> (0 < connects d \<longrightarrow> dm_engine d) \<and>
     (\<forall>ip. dm_peer_ip d = Some ip \<longrightarrow> ip \<in> ips) \<and>
     (\<forall>ip port. OutConnect ip port \<in> set (dm_out d) \<longrightarrow> ip \<in> ips \<and> port = dg_stream_peer_port C) \<and>
     (\<forall>p. OutPeerClose p \<in> set (dm_out d) \<longrightarrow> dm_tx_done d \<and> dm_rx_done d) \<and>
     ft_sends d = length (filter ft_sent_back (dm_ft d))"

lemma daemon_ok_init: "daemon_ok C ips daemon_init"
  by (simp add: daemon_ok_def daemon_init_def connects_def engines_def ft_sends_def)

lemma daemon_ok_same [simp]:
  "daemon_ok C ips (d\<lparr>dm_tasks := ts\<rparr>) = daemon_ok C ips d" "daemon_ok C ips (dm_invoke t d) = daemon_ok C ips d"
  "daemon_ok C ips (d\<lparr>dm_peer := x\<rparr>) = daemon_ok C ips d" "daemon_ok C ips (d\<lparr>dm_sf := x\<rparr>) = daemon_ok C ips d"
  "daemon_ok C ips (d\<lparr>dm_rx_name := y\<rparr>) = daemon_ok C ips d" "daemon_ok C ips (d\<lparr>dm_established := b\<rparr>) = daemon_ok C ips d"
  by (simp_all add: daemon_ok_def connects_def engines_def ft_sends_def)

lemma daemon_ok_flags:
  assumes "daemon_ok C ips d"
  shows "daemon_ok C ips (d\<lparr>dm_failed := True\<rparr>)" "daemon_ok C ips (d\<lparr>dm_tx_done := True\<rparr>)" "daemon_ok C ips (d\<lparr>dm_rx_done := True\<rparr>)"
  using assms by (simp_all add: daemon_ok_def connects_def engines_def ft_sends_def)

lemma daemon_ok_emit:
  "\<not> is_connect x \<Longrightarrow> \<not> is_engine_new x \<Longrightarrow> \<not> is_ft_send x \<Longrightarrow> (\<And>p. x \<noteq> OutPeerClose p) \<Longrightarrow> daemon_ok C ips (dm_emit x d) = daemon_ok C ips d"
  by (auto simp: daemon_ok_def connects_def engines_def ft_sends_def)

lemma daemon_ok_outs [simp]:
  "daemon_ok C ips (dm_emit (OutSfNew p) d) = daemon_ok C ips d" "daemon_ok C ips (dm_emit (OutSfAttach p) d) = daemon_ok C ips d"
  "daemon_ok C ips (dm_emit (OutSfSend p f) d) = daemon_ok C ips d" "daemon_ok C ips (dm_emit (OutSfClose p) d) = daemon_ok C ips d"
  "daemon_ok C ips (dm_emit (OutDecode q) d) = daemon_ok C ips d" "daemon_ok C ips (dm_emit OutFtNone d) = daemon_ok C ips d"
  "daemon_ok C ips (dm_emit (OutFtServer i) d) = daemon_ok C ips d" "daemon_ok C ips (dm_emit (OutFtUnref i) d) = daemon_ok C ips d"
  by (simp_all add: daemon_ok_emit)

lemma daemon_ok_new:
  "daemon_ok C ips (d\<lparr>dm_ft := dm_ft d @ [\<lparr>ft_sent_back = False, ft_freed = False\<rparr>]\<rparr>) = daemon_ok C ips d"
  by (simp add: daemon_ok_def connects_def engines_def ft_sends_def)

lemma filter_update_same:
  "i < length xs \<Longrightarrow> P x = P (xs ! i) \<Longrightarrow> length (filter P (xs[i := x])) = length (filter P xs)"
  by (induction xs arbitrary: i) (auto split: nat.split)

lemma filter_update_more:
  "i < length xs \<Longrightarrow> P x \<Longrightarrow> \<not> P (xs ! i) \<Longrightarrow> length (filter P (xs[i := x])) = Suc (length (filter P xs))"
  by (induction xs arbitrary: i) (auto split: nat.split)

lemma daemon_ok_file_list:
  assumes "daemon_ok C ips d" "i < length (dm_ft d)"
  shows "daemon_ok C ips (on_ft_file_list C E i d)"
proof (cases "dg_ft_send_spec C")
  case (Some spec)
  have f: "\<not> ft_sent_back (dm_ft d ! i) \<Longrightarrow> daemon_ok C ips (ft_set_sent i False (ft_set_sent i True d))"
    using assms by (simp add: daemon_ok_def connects_def engines_def ft_sends_def ft_set_sent_def filter_update_same)
  have t: "\<not> ft_sent_back (dm_ft d ! i) \<Longrightarrow> daemon_ok C ips (dm_emit (OutFtSend i x) (ft_set_sent i True d))" for x
    using assms by (simp add: daemon_ok_def connects_def engines_def ft_sends_def ft_set_sent_def filter_update_more)
  show ?thesis using f t assms(1) Some by (simp add: on_ft_file_list_def Let_def split: option.split)
qed (use assms in \<open>simp add: on_ft_file_list_def\<close>)

lemma daemon_ok_closed:
  assumes "daemon_ok C ips d" "i < length (dm_ft d)"
  shows "daemon_ok C ips (on_ft_closed i d)"
  using assms by (simp add: on_ft_closed_def) (simp add: daemon_ok_def connects_def engines_def ft_sends_def filter_update_same)

lemma daemon_ok_connect:
  assumes "daemon_ok C ips d"
  shows "daemon_ok C ips (stream_connect C E d)"
proof (cases "dm_engine d")
  case True
  show ?thesis
  proof (cases "dm_peer_ip d")
    case None
    then show ?thesis using True daemon_ok_flags [OF assms] by (simp add: stream_connect_def)
  next
    case (Some ip)
    let ?d = "d\<lparr>dm_attempts := dm_attempts d + 1\<rparr>"
    have "3 < dm_attempts d + 1 \<Longrightarrow> daemon_ok C ips (?d\<lparr>dm_failed := True\<rparr>)"
      "\<not> 3 < dm_attempts d + 1 \<Longrightarrow> daemon_ok C ips (dm_emit (OutConnect ip (dg_stream_peer_port C)) ?d)"
      using assms Some True by (auto simp: daemon_ok_def connects_def engines_def ft_sends_def)
    then show ?thesis using True Some by (simp add: stream_connect_def STREAM_CONNECT_MAX_def Let_def)
  qed
qed (use assms in \<open>simp add: stream_connect_def\<close>)

lemma daemon_ok_start:
  assumes "daemon_ok C ips d"
  shows "daemon_ok C ips (stream_start C E d)"
proof -
  have "\<not> dm_engine d \<Longrightarrow> daemon_ok C ips (dm_emit (OutEngineNew (dg_stream_port C)) (d\<lparr>dm_engine := True\<rparr>))"
    using assms by (auto simp: daemon_ok_def connects_def engines_def ft_sends_def)
  then show ?thesis using assms daemon_ok_connect [of C ips _ E] daemon_ok_flags(1) [OF assms] by (simp add: stream_start_def)
qed

lemma daemon_ok_done:
  assumes "daemon_ok C ips d"
  shows "daemon_ok C ips (on_stream_done C x ok d)"
proof -
  let ?d = "if x then d\<lparr>dm_tx_done := True\<rparr> else d\<lparr>dm_rx_done := True\<rparr>"
  have d: "daemon_ok C ips ?d" using daemon_ok_flags [OF assms] by simp
  then have "dm_tx_done ?d \<and> dm_rx_done ?d \<Longrightarrow> daemon_ok C ips (dm_emit (OutPeerClose p) ?d)" for p
    by (auto simp: daemon_ok_def connects_def engines_def ft_sends_def simp del: dm_emit_def)
  then show ?thesis using d daemon_ok_flags(1) [OF assms]
    unfolding on_stream_done_def Let_def by (auto split: option.splits)
qed

lemma daemon_ok_event:
  assumes "daemon_ok C ips d" "\<And>ip. e = EvConnection (Some ip) \<Longrightarrow> ip \<in> ips"
  shows "daemon_ok C ips (daemon_event C E e d)"
proof (cases e)
  case (EvConnection ip)
  have "daemon_ok C ips (d\<lparr>dm_peer_ip := ip\<rparr>)"
    using assms EvConnection by (auto simp: daemon_ok_def connects_def engines_def ft_sends_def)
  then show ?thesis using EvConnection daemon_ok_new [of C ips "d\<lparr>dm_peer_ip := ip\<rparr>"]
    by (simp add: daemon_event_def on_ft_connection_def Let_def)
next
  case (EvFileList i)
  then show ?thesis using assms(1) by (simp add: daemon_event_def daemon_ok_file_list)
next
  case (EvFtClosed i)
  then show ?thesis using assms(1) by (simp add: daemon_event_def daemon_ok_closed)
next
  case (EvEstablished p)
  then show ?thesis using assms(1)
    by (auto simp: daemon_event_def on_stream_established_def Let_def intro!: daemon_ok_flags split: option.split)
next
  case (EvClosed p)
  then show ?thesis using assms(1)
    by (auto simp: daemon_event_def on_stream_closed_def Let_def intro!: daemon_ok_flags split: option.split)
qed (use assms(1) daemon_ok_done daemon_ok_start daemon_ok_connect in
    \<open>auto simp: daemon_event_def run_task_def on_ft_result_def on_stream_rx_meta_def split: option.split daemon_task.split\<close>)

text \<open>
  C18. In every run of the daemon, whatever the engines report and in whatever order the main loop gets to its tasks: at
  most one engine is made and at most three connections are tried, only ever to an address a file-transfer
  connection came from, after the fourth attempt the stream has failed, and the daemon closes its
  peer only when both directions are verified; each file connection is sent at most one file.
\<close>

lemma daemon_stream_bounded:
  assumes "d = daemon_run C es"
  shows "connects d \<le> 3 \<and> engines d \<le> 1 \<and> (3 < dm_attempts d \<longrightarrow> dm_failed d) \<and>
    (\<forall>ip port. OutConnect ip port \<in> set (dm_out d) \<longrightarrow>
       port = dg_stream_peer_port C \<and> (\<exists>E. (E, EvConnection (Some ip)) \<in> set es)) \<and>
    (\<forall>p. OutPeerClose p \<in> set (dm_out d) \<longrightarrow> dm_tx_done d \<and> dm_rx_done d) \<and>
    ft_sends d \<le> length (dm_ft d)"
proof -
  let ?ips = "{ip. \<exists>E. (E, EvConnection (Some ip)) \<in> set es}"
  have "set xs \<subseteq> set es \<Longrightarrow> daemon_ok C ?ips (daemon_run C xs)" for xs
  proof (induction xs rule: rev_induct)
    case Nil
    then show ?case by (simp add: daemon_run_def daemon_ok_init)
  next
    case (snoc x xs)
    then have "daemon_ok C ?ips (daemon_event C (fst x) (snd x) (daemon_run C xs))"
      by (intro daemon_ok_event) (auto, metis prod.collapse)
    then show ?case by (simp add: daemon_run_def split_beta)
  qed
  from this [of es] show ?thesis unfolding assms
    by (auto simp: daemon_ok_def length_filter_le)
qed

definition toy_daemon_config :: daemon_config where
  "toy_daemon_config = \<lparr>dg_stream_port = 54323, dg_stream_peer_port = 54324, dg_stream_dir = [46], dg_stream_send_spec = None,
     dg_ft_send_spec = None\<rparr>"

definition toy_daemon_env :: daemon_env where
  "toy_daemon_env = \<lparr>de_mkdir = True, de_sha = toy_sha, de_opened = True, de_write = (\<lambda>_ _. True), de_basename = (\<lambda>x. x),
     de_tmp = [47], de_ft_new = True, de_engine_new = True, de_connect = True, de_start_send = True, de_send_files = True\<rparr>"

lemmas toy_daemon = toy_daemon_config_def toy_daemon_env_def

lemma daemon_stream_bounded_witness:
  "\<exists>C es. connects (daemon_run C es) = 1 \<and> connects (daemon_run C es) \<le> 3 \<and> engines (daemon_run C es) \<le> 1"
proof -
  let ?es = "map (\<lambda>e. (toy_daemon_env, e)) [EvConnection (Some [49]), EvFtResult True True, EvTask 0]"
  have "connects (daemon_run toy_daemon_config ?es) = 1"
    by (simp add: daemon_run_def daemon_event_def daemon_init_def on_ft_connection_def on_ft_result_def Let_def run_task_def stream_start_def
        stream_connect_def STREAM_CONNECT_MAX_def connects_def toy_daemon)
  then show ?thesis using daemon_stream_bounded [OF refl, of toy_daemon_config ?es] by blast
qed

section \<open>A whole stream phase\<close>

definition events :: "daemon_env \<Rightarrow> daemon_event list \<Rightarrow> (daemon_env \<times> daemon_event) list" where
  "events E es = map (\<lambda>e. (E, e)) es"

definition run_from :: "daemon_config \<Rightarrow> daemon_env \<Rightarrow> daemon_event list \<Rightarrow> daemon \<Rightarrow> daemon" where
  "run_from C E es d = fold (daemon_event C E) es d"

lemma run_events: "daemon_run C (events E es) = run_from C E es daemon_init"
  by (induction es rule: rev_induct) (simp_all add: daemon_run_def events_def run_from_def)

lemma run_from_simps [simp]:
  "run_from C E [] d = d" "run_from C E (e # es) d = run_from C E es (daemon_event C E e d)"
  "run_from C E (xs @ ys) d = run_from C E ys (run_from C E xs d)"
  by (simp_all add: run_from_def)

text \<open>The daemon while it waits for the \<open>n\<close>-th handshake.\<close>

definition waiting :: "cstr \<Rightarrow> nat \<Rightarrow> daemon \<Rightarrow> bool" where
  "waiting ip n d \<longleftrightarrow> dm_engine d \<and> dm_peer d = None \<and> dm_sf d = None \<and> dm_peer_ip d = Some ip \<and> dm_attempts d = int n \<and>
     \<not> dm_tx_done d \<and> \<not> dm_rx_done d \<and> \<not> dm_failed d \<and> \<not> dm_established d \<and> dm_rx_name d = None \<and> dm_tasks d = [] \<and>
     connects d = n"

lemma first_attempt:
  assumes "0 < dg_stream_port C" "de_engine_new E" "de_connect E"
  shows "waiting ip 1 (run_from C E [EvConnection (Some ip), EvFtResult True True, EvTask 0] daemon_init)"
  using assms by (simp add: daemon_event_def daemon_init_def on_ft_connection_def on_ft_result_def Let_def run_task_def stream_start_def
      stream_connect_def STREAM_CONNECT_MAX_def waiting_def connects_def Let_def)

lemma lost_handshake:
  assumes "waiting ip n d" "de_connect E"
  shows "if n < 3 then waiting ip (n + 1) (run_from C E [EvClosed q, EvTask 0] d)
    else dm_failed (run_from C E [EvClosed q, EvTask 0] d)"
  using assms by (simp add: waiting_def daemon_event_def on_stream_closed_def run_task_def stream_start_def stream_connect_def
      STREAM_CONNECT_MAX_def connects_def Let_def)

lemma failed_stays: "dm_failed d \<Longrightarrow> dm_failed (daemon_event C E e d)"
proof -
  assume d: "dm_failed d"
  have c: "dm_failed d \<Longrightarrow> dm_failed (stream_connect C E d)" for d by (simp add: stream_connect_def Let_def split: option.split)
  show ?thesis
  proof (cases e)
    case (EvFileList i)
    then show ?thesis using d by (simp add: daemon_event_def on_ft_file_list_def ft_set_sent_def Let_def split: option.split)
  next
    case (EvDone x y)
    then show ?thesis using d by (simp add: daemon_event_def on_stream_done_def Let_def split: option.split)
  next
    case (EvEstablished p)
    then show ?thesis using d by (simp add: daemon_event_def on_stream_established_def Let_def split: option.split)
  next
    case (EvClosed p)
    then show ?thesis using d by (simp add: daemon_event_def on_stream_closed_def Let_def split: option.split)
  next
    case (EvTask i)
    then show ?thesis using d c by (simp add: daemon_event_def run_task_def stream_start_def split: daemon_task.split)
  qed (use d in \<open>simp_all add: daemon_event_def on_ft_closed_def on_ft_connection_def on_ft_result_def Let_def on_stream_rx_meta_def\<close>)
qed

lemma failed_run: "dm_failed d \<Longrightarrow> dm_failed (run_from C E es d)"
  by (induction es arbitrary: d) (simp_all add: failed_stays)

lemma lost_handshakes:
  assumes "waiting ip n d" "de_connect E" "n \<le> 3"
  shows "if n + k \<le> 3 then waiting ip (n + k) (run_from C E (concat (replicate k [EvClosed q, EvTask 0])) d)
    else dm_failed (run_from C E (concat (replicate k [EvClosed q, EvTask 0])) d)"
  using assms
proof (induction k arbitrary: n d)
  case (Suc k)
  let ?d = "run_from C E [EvClosed q, EvTask 0] d"
  show ?case
  proof (cases "n < 3")
    case True
    then have "waiting ip (n + 1) ?d" using lost_handshake [OF Suc.prems(1,2), of C q] by simp
    from Suc.IH [OF this Suc.prems(2)] True show ?thesis by (simp split: if_splits)
  next
    case False
    then have "dm_failed ?d" using lost_handshake [OF Suc.prems(1,2), of C q] by simp
    then show ?thesis using False Suc.prems(3) failed_run by simp
  qed
qed simp

text \<open>
  C11. A phase from the file transfer to the end.  After an own transfer that succeeded the stream is started; up to two
  handshakes may be lost, the daemon tries again, and when one succeeds and both directions are verified it closes the
  peer and ends without failure; with the third lost handshake it has given up.
\<close>

lemma daemon_stream_flow:
  assumes "0 < dg_stream_port C" "de_engine_new E" "de_connect E" "de_start_send E"
    and "d = daemon_run C (events E ([EvConnection (Some ip), EvFtResult True True, EvTask 0] @
      concat (replicate k [EvClosed q, EvTask 0]) @ [EvEstablished p, EvDone True True, EvDone False True, EvClosed p]))"
  shows "(k < 3 \<longrightarrow> \<not> dm_failed d \<and> dm_tx_done d \<and> dm_rx_done d \<and> connects d = k + 1 \<and> dm_tasks d = [] \<and>
       (\<exists>os. dm_out d = os @ [OutPeerClose p, OutSfClose p])) \<and>
    (3 \<le> k \<longrightarrow> dm_failed d)"
proof -
  let ?d = "run_from C E (concat (replicate k [EvClosed q, EvTask 0]))
    (run_from C E [EvConnection (Some ip), EvFtResult True True, EvTask 0] daemon_init)"
  have l: "if 1 + k \<le> 3 then waiting ip (1 + k) ?d else dm_failed ?d"
    by (rule lost_handshakes [OF first_attempt [OF assms(1-3)] assms(3)]) simp
  have d: "d = run_from C E [EvEstablished p, EvDone True True, EvDone False True, EvClosed p] ?d"
    unfolding assms(5) run_events by simp
  show ?thesis
  proof (cases "k < 3")
    case True
    then have w: "waiting ip (k + 1) ?d" using l by simp
    let ?e = "on_stream_established C E p ?d"
    have e: "\<not> dm_failed ?e" "dm_established ?e" "dm_peer ?e = Some p" "dm_sf ?e = Some p" "\<not> dm_tx_done ?e" "\<not> dm_rx_done ?e"
      "dm_rx_name ?e = None" "dm_tasks ?e = []" "connects ?e = k + 1"
      using w assms(4) by (simp_all add: on_stream_established_def waiting_def connects_def Let_def split: option.split)
    have r: "d = on_stream_closed p (on_stream_done C False True (on_stream_done C True True ?e))"
      unfolding d by (simp add: daemon_event_def)
    show ?thesis using True e unfolding r
      by (simp add: on_stream_done_def on_stream_closed_def Let_def connects_def)
  next
    case False
    then have "dm_failed ?d" using l by simp
    then have "dm_failed d" unfolding d by (rule failed_run)
    then show ?thesis using False by simp
  qed
qed

lemma daemon_stream_flow_witness:
  "let d = daemon_run toy_daemon_config (events toy_daemon_env ([EvConnection (Some [49]), EvFtResult True True, EvTask 0] @
      concat (replicate 1 [EvClosed 7, EvTask 0]) @ [EvEstablished 8, EvDone True True, EvDone False True, EvClosed 8]))
   in \<not> dm_failed d \<and> connects d = 2"
proof -
  have "0 < dg_stream_port toy_daemon_config" "de_engine_new toy_daemon_env" "de_connect toy_daemon_env" "de_start_send toy_daemon_env"
    by (simp_all add: toy_daemon)
  from daemon_stream_flow [OF this refl, where ip = "[49]" and k = 1 and q = 7 and p = 8] show ?thesis unfolding Let_def by linarith
qed

lemma established_shape:
  "\<exists>os. dm_peer (on_stream_established C E p d) = Some p \<and> dm_sf (on_stream_established C E p d) = Some p \<and>
     dm_established (on_stream_established C E p d) \<and> dm_tx_done (on_stream_established C E p d) = dm_tx_done d \<and>
     dm_rx_done (on_stream_established C E p d) = dm_rx_done d \<and> dm_out (on_stream_established C E p d) = dm_out d @ os \<and>
     (\<forall>q. OutSfClose q \<notin> set os \<and> OutPeerClose q \<notin> set os)"
  by (simp add: on_stream_established_def Let_def split: option.split)



end
