(* ===== verification/WifiTransport.thy ===== *)
theory WifiTransport
  imports Prelude
begin

text \<open>
  What every transport backend promises (\<open>src/transport/wifi_transport.h\<close>): the states, and the contract of
  the virtual methods \<open>start\<close>, \<open>stop\<close> and \<open>get_state\<close> as an interface.  The backends interpret it
  in their own theories.  A start returns the new state, whether it succeeded, and whether \<open>*error\<close> was set.
\<close>

datatype hw_state = STOPPED | STARTING | RUNNING | STOPPING | STATE_ERROR

datatype 'e command = Start 'e | Stop 'e

text \<open>Several commands one after the other; what each start returned is kept.\<close>

primrec commands :: "('e \<Rightarrow> 's \<Rightarrow> 's \<times> bool \<times> bool) \<Rightarrow> ('e \<Rightarrow> 's \<Rightarrow> 's) \<Rightarrow> 'e command list \<Rightarrow> 's \<Rightarrow> 's \<times> bool option list" where
  "commands start stop [] s = (s, [])"
| "commands start stop (c # cs) s =
     (let (s, r) = (case c of Start e \<Rightarrow> let (s', ok, _) = start e s in (s', Some ok) | Stop e \<Rightarrow> (stop e s, None));
          (s, rs) = commands start stop cs s
      in (s, r # rs))"

text \<open>What a caller can know of the transport from the answers alone.\<close>

datatype link = Idle | Up | Failed

fun link_step :: "bool option \<Rightarrow> link \<Rightarrow> link" where
  "link_step None l = Idle"
| "link_step (Some True) l = Up"
| "link_step (Some False) Idle = Failed"
| "link_step (Some False) l = l"

definition link_run :: "bool option list \<Rightarrow> link \<Rightarrow> link" where
  "link_run rs l = fold link_step rs l"

definition link_of :: "hw_state \<Rightarrow> link" where
  "link_of st = (case st of STOPPED \<Rightarrow> Idle | RUNNING \<Rightarrow> Up | _ \<Rightarrow> Failed)"

text \<open>A start is answered by success only when the transport is idle.\<close>

fun answers_ok :: "bool option list \<Rightarrow> link \<Rightarrow> bool" where
  "answers_ok [] l = True"
| "answers_ok (r # rs) l = ((r = Some True \<longrightarrow> l = Idle) \<and> answers_ok rs (link_step r l))"

locale transport =
  fixes start :: "'e \<Rightarrow> 's \<Rightarrow> 's \<times> bool \<times> bool"
    and stop :: "'e \<Rightarrow> 's \<Rightarrow> 's"
    and state :: "'s \<Rightarrow> hw_state"
    and inv :: "'s \<Rightarrow> bool"
  assumes start_refused: "inv s \<Longrightarrow> state s \<noteq> STOPPED \<Longrightarrow> start e s = (s, False, True)"
    and start_up: "inv s \<Longrightarrow> start e s = (s', True, err) \<Longrightarrow> state s' = RUNNING"
    and start_failed: "inv s \<Longrightarrow> state s = STOPPED \<Longrightarrow> start e s = (s', False, err) \<Longrightarrow> state s' \<in> {STARTING, STATE_ERROR}"
    and stop_idle: "inv s \<Longrightarrow> state (stop e s) = STOPPED"
    and stop_stopped: "inv s \<Longrightarrow> state s = STOPPED \<Longrightarrow> stop e s = s"
    and inv_start: "inv s \<Longrightarrow> inv (fst (start e s))"
    and inv_stop: "inv s \<Longrightarrow> inv (stop e s)"
begin

lemma start_link:
  assumes "inv s" "start e s = (s', ok, err)"
  shows "link_of (state s') = link_step (Some ok) (link_of (state s))" "ok \<Longrightarrow> state s = STOPPED" "inv s'"
proof -
  show "ok \<Longrightarrow> state s = STOPPED" using start_refused [OF assms(1), of e] assms(2) by auto
  show "inv s'" using inv_start [OF assms(1), of e] assms(2) by simp
  show "link_of (state s') = link_step (Some ok) (link_of (state s))"
  proof (cases "state s = STOPPED")
    case True
    then show ?thesis using start_up [OF assms(1), of e s'] start_failed [OF assms(1) True, of e s'] assms(2)
      by (cases ok) (auto simp: link_of_def)
  next
    case False
    then have "s' = s" "\<not> ok" using start_refused [OF assms(1), of e] assms(2) by auto
    then show ?thesis using False by (cases "state s") (simp_all add: link_of_def)
  qed
qed

lemma commands_link:
  assumes "inv s"
  shows "let (s', rs) = commands start stop cs s
    in inv s' \<and> link_of (state s') = link_run rs (link_of (state s)) \<and> answers_ok rs (link_of (state s))"
  using assms
proof (induction cs arbitrary: s)
  case Nil
  then show ?case by (simp add: link_run_def)
next
  case (Cons c cs)
  show ?case
  proof (cases c)
    case (Start e)
    obtain s' ok err where s: "start e s = (s', ok, err)" by (cases "start e s")
    from start_link [OF Cons.prems s] Cons.IH [of s'] show ?thesis
      by (auto simp: Start s link_run_def link_of_def split: prod.splits)
  next
    case (Stop e)
    from Cons.IH [OF inv_stop [OF Cons.prems, of e]] stop_idle [OF Cons.prems, of e] show ?thesis
      by (auto simp: Stop link_run_def link_of_def split: prod.splits)
  qed
qed

text \<open>Whatever happened before, a stop makes the next start an attempt again and not a refusal.\<close>

lemma stop_then_start:
  "inv s \<Longrightarrow> state (stop e s) = STOPPED \<and> inv (stop e s) \<and> stop e' (stop e s) = stop e s"
  by (simp add: stop_idle inv_stop stop_stopped)

end

end
