(* ===== verification/NetlinkUtils.thy ===== *)
theory NetlinkUtils
  imports Dmsdp
begin

text \<open>
  The netlink helpers (\<open>src/transport/netlink_utils.c\<close>).  libnl and the kernel are the environment
  \<open>nl_env\<close>: which of its calls succeed and what it answers.  A handle keeps the link cache that was filled when it was
  made; no function refills it.  Each operation returns the requests it hands to \<open>nl_send_auto\<close> or
  \<open>rtnl_link_change\<close> and whether it succeeded.
\<close>

datatype nl_request =
    NewInterface "u32 option" cstr
  | DelInterface cstr
  | ChangeLink cstr bool
  | NewAddr int u32 nat
  | DelAddr int u32 nat

record nl_env =
  ne_socket :: bool
  ne_connect :: int
  ne_resolve :: int
  ne_cache :: "int \<times> (cstr \<times> int) list"
  ne_alloc :: bool
  ne_put :: bool
  ne_send :: "nl_request \<Rightarrow> int"
  ne_pton :: "cstr \<Rightarrow> u32 option"
  ne_stack :: u32
  ne_lag :: "nat \<Rightarrow> nat"

record nl_handle =
  nh_nl80211_id :: int
  nh_link_cache :: "(cstr \<times> int) list"

definition nl_handle_new :: "nl_env \<Rightarrow> nl_handle option" where
  "nl_handle_new N =
     (if \<not> ne_socket N then None
      else if ne_connect N < 0 then None
      else if ne_resolve N < 0 then None
      else if fst (ne_cache N) < 0 then None
      else Some \<lparr>nh_nl80211_id = ne_resolve N, nh_link_cache = snd (ne_cache N)\<rparr>)"

text \<open>The end of every operation that sends: the request went out, and it succeeded unless the answer is negative.\<close>

definition nl_send :: "nl_env \<Rightarrow> nl_request \<Rightarrow> nl_request list \<times> bool" where
  "nl_send N r = ([r], 0 \<le> ne_send N r)"

text \<open>The index in a name like \<open>phy0\<close>; 0 for other names.\<close>

definition phy_index :: "cstr \<Rightarrow> u32" where
  "phy_index name = (if take 3 name = bytes_of ''phy'' then c_atoi (drop 3 name) else 0)"

definition nl_create_ap_interface :: "nl_env \<Rightarrow> cstr \<Rightarrow> cstr \<Rightarrow> nl_request list \<times> bool" where
  "nl_create_ap_interface N phy_name ap_ifname =
     (if \<not> ne_alloc N then ([], False)
      else
        let wiphy = (if 0 \<le>s phy_index phy_name then Some (phy_index phy_name) else None)
        in if \<not> ne_put N then ([], False) else nl_send N (NewInterface wiphy ap_ifname))"

definition nl_delete_interface :: "nl_env \<Rightarrow> cstr \<Rightarrow> nl_request list \<times> bool" where
  "nl_delete_interface N name =
     (if \<not> ne_alloc N then ([], False) else if \<not> ne_put N then ([], False) else nl_send N (DelInterface name))"

definition nl_set_interface_up :: "nl_env \<Rightarrow> nl_handle \<Rightarrow> cstr \<Rightarrow> bool \<Rightarrow> nl_request list \<times> bool" where
  "nl_set_interface_up N h name up =
     (case map_of (nh_link_cache h) name of None \<Rightarrow> ([], False) | Some _ \<Rightarrow> nl_send N (ChangeLink name up))"

definition nl_get_ifindex :: "nl_handle \<Rightarrow> cstr \<Rightarrow> int" where
  "nl_get_ifindex h name = (case map_of (nh_link_cache h) name of None \<Rightarrow> - 1 | Some i \<Rightarrow> i)"

text \<open>The address in front of the slash.  When \<open>inet_pton\<close> refuses it, the variable keeps what the stack held.\<close>

definition cidr_addr :: "nl_env \<Rightarrow> cstr \<Rightarrow> u32" where
  "cidr_addr N ip_cidr = (case ne_pton N (takeWhile (\<lambda>c. c \<noteq> 0x2f) ip_cidr) of None \<Rightarrow> ne_stack N | Some a \<Rightarrow> a)"

definition nl_add_ip_address :: "nl_env \<Rightarrow> nl_handle \<Rightarrow> cstr \<Rightarrow> cstr \<Rightarrow> nl_request list \<times> bool" where
  "nl_add_ip_address N h name ip_cidr =
     (let ifindex = nl_get_ifindex h name
      in if ifindex < 0 then ([], False)
         else if \<not> ne_alloc N then ([], False)
         else if \<not> ne_put N then ([], False)
         else nl_send N (NewAddr ifindex (cidr_addr N ip_cidr) 24))"

definition nl_remove_ip_address :: "nl_env \<Rightarrow> nl_handle \<Rightarrow> cstr \<Rightarrow> cstr \<Rightarrow> nl_request list \<times> bool" where
  "nl_remove_ip_address N h name ip_cidr =
     (let ifindex = nl_get_ifindex h name
      in if ifindex < 0 then ([], False)
         else if \<not> ne_alloc N then ([], False)
         else if \<not> ne_put N then ([], False)
         else nl_send N (DelAddr ifindex (cidr_addr N ip_cidr) 24))"

text \<open>
  The loop of \<open>hw_phone_link_nl_wait_interface\<close>: the cache is asked again until the answer is the wanted one or the
  time is over.  A round sleeps 100 ms; \<open>ne_lag k\<close> is what round \<open>k\<close> takes beyond that, in microseconds.
\<close>

function nl_wait_poll :: "nl_env \<Rightarrow> nl_handle \<Rightarrow> cstr \<Rightarrow> bool \<Rightarrow> u32 \<Rightarrow> nat \<Rightarrow> nat \<Rightarrow> bool" where
  "nl_wait_poll N h name should timeout_ms k elapsed =
     (if (map_of (nh_link_cache h) name \<noteq> None) = should then True
      else if unat timeout_ms * 1000 < elapsed then False
      else nl_wait_poll N h name should timeout_ms (Suc k) (elapsed + 100000 + ne_lag N k))"
  by pat_completeness auto

termination
  by (relation "measure (\<lambda>(N, h, name, should, timeout_ms, k, elapsed). Suc (unat timeout_ms * 1000) - elapsed)") auto

declare nl_wait_poll.simps [simp del]

definition nl_wait_interface :: "nl_env \<Rightarrow> nl_handle \<Rightarrow> cstr \<Rightarrow> bool \<Rightarrow> u32 \<Rightarrow> bool" where
  "nl_wait_interface N h name should timeout_ms = nl_wait_poll N h name should timeout_ms 0 0"

section \<open>Waiting\<close>

lemma nl_wait_poll_result:
  "nl_wait_poll N h name should t k e = ((map_of (nh_link_cache h) name \<noteq> None) = should)"
proof (induction N h name should t k e rule: nl_wait_poll.induct)
  case (1 N h name should t k e)
  then show ?case by (subst nl_wait_poll.simps) auto
qed

lemma nl_wait_result: "nl_wait_interface N h name should t = ((map_of (nh_link_cache h) name \<noteq> None) = should)"
  by (simp add: nl_wait_interface_def nl_wait_poll_result)

lemma nl_handle_cache: "nl_handle_new N = Some h \<Longrightarrow> nh_link_cache h = snd (ne_cache N)"
  by (auto simp: nl_handle_new_def split: if_splits)

text \<open>
  The wait always ends, and its answer was fixed when the handle was made: it looks only into the link cache, which is never
  filled again.  An interface that was missing then never appears, one that was there never disappears, however long
  the wait and whatever the kernel does; and for such an interface no request about its flags or addresses is sent.
\<close>

lemma nl_cache_stale:
  assumes "nl_handle_new N0 = Some h"
  shows "nl_wait_interface N h name should t = ((map_of (snd (ne_cache N0)) name \<noteq> None) = should) \<and>
    (map_of (snd (ne_cache N0)) name = None \<longrightarrow>
       nl_set_interface_up N h name up = ([], False) \<and> nl_add_ip_address N h name ip = ([], False) \<and>
       nl_remove_ip_address N h name ip = ([], False))"
  using nl_handle_cache [OF assms]
  by (simp add: nl_wait_result nl_set_interface_up_def nl_add_ip_address_def nl_remove_ip_address_def nl_get_ifindex_def)

definition toy_nl_env :: nl_env where
  "toy_nl_env = \<lparr>ne_socket = True, ne_connect = 0, ne_resolve = 27, ne_cache = (0, [(bytes_of ''wlp1s0'', 3)]), ne_alloc = True,
     ne_put = True, ne_send = (\<lambda>_. 36), ne_pton = (\<lambda>_. Some 0xC0A88901), ne_stack = 0, ne_lag = (\<lambda>k. 0)\<rparr>"

lemma toy_nl_handle:
  "nl_handle_new toy_nl_env = Some \<lparr>nh_nl80211_id = 27, nh_link_cache = [(bytes_of ''wlp1s0'', 3)]\<rparr>"
  by (simp add: nl_handle_new_def toy_nl_env_def)

lemma nl_cache_stale_witness:
  "\<exists>h. nl_handle_new toy_nl_env = Some h \<and> \<not> nl_wait_interface toy_nl_env h (bytes_of ''wlp1s0_ap'') True 5000"
proof -
  note w = nl_cache_stale [OF toy_nl_handle, of toy_nl_env "bytes_of ''wlp1s0_ap''" True 5000, THEN conjunct1]
  have "map_of (snd (ne_cache toy_nl_env)) (bytes_of ''wlp1s0_ap'') = None" by (simp add: toy_nl_env_def bytes_of_def)
  with w show ?thesis using toy_nl_handle by simp
qed

end
