(* ===== verification/SoftapBackend.thy ===== *)
theory SoftapBackend
  imports WifiTransport NetlinkUtils DmsdpBuild
begin

text \<open>
  The SoftAP backend (\<open>src/transport/softap_backend.c\<close>): configuration, configuration files, starting and stopping of
  hostapd and dnsmasq.  Processes, files and signals are outputs in the order of the code; whether each works is the
  environment's choice.  The kernel's and the daemons' own behaviour is not modelled.
\<close>

section \<open>Configuration\<close>

record softap_config =
  sc_ap_interface :: cstr
  sc_sta_interface :: cstr
  sc_phy_name :: cstr
  sc_ssid :: cstr
  sc_passphrase :: cstr
  sc_channel :: u32
  sc_ap_ip :: cstr
  sc_netmask :: cstr
  sc_dhcp_start :: cstr
  sc_dhcp_end :: cstr
  sc_config_dir :: cstr
  sc_run_dir :: cstr

definition HWPHONELINK_AP_IP :: cstr where "HWPHONELINK_AP_IP = bytes_of ''192.168.137.1''"
definition HWPHONELINK_AP_NETMASK :: cstr where "HWPHONELINK_AP_NETMASK = bytes_of ''255.255.255.0''"
definition HWPHONELINK_DHCP_START :: cstr where "HWPHONELINK_DHCP_START = bytes_of ''192.168.137.2''"
definition HWPHONELINK_DHCP_END :: cstr where "HWPHONELINK_DHCP_END = bytes_of ''192.168.137.254''"
definition HWPHONELINK_DEFAULT_CHANNEL :: u32 where "HWPHONELINK_DEFAULT_CHANNEL = 40"
definition HWPHONELINK_SOFTAP_CONFIG_DIR :: cstr where "HWPHONELINK_SOFTAP_CONFIG_DIR = bytes_of ''/etc/hwphonelink''"
definition HWPHONELINK_SOFTAP_RUN_DIR :: cstr where "HWPHONELINK_SOFTAP_RUN_DIR = bytes_of ''/run/hwphonelink''"

definition softap_config_init :: "cstr option \<Rightarrow> cstr option \<Rightarrow> softap_config" where
  "softap_config_init phy_name sta_interface =
     \<lparr>sc_ap_interface = bytes_of ''wlp1s0_ap'',
      sc_sta_interface = (case sta_interface of Some s \<Rightarrow> s | None \<Rightarrow> bytes_of ''wlp1s0''),
      sc_phy_name = (case phy_name of Some s \<Rightarrow> s | None \<Rightarrow> bytes_of ''phy0''),
      sc_ssid = bytes_of ''HUAWEI_PC'',
      sc_passphrase = [],
      sc_channel = HWPHONELINK_DEFAULT_CHANNEL,
      sc_ap_ip = HWPHONELINK_AP_IP,
      sc_netmask = HWPHONELINK_AP_NETMASK,
      sc_dhcp_start = HWPHONELINK_DHCP_START,
      sc_dhcp_end = HWPHONELINK_DHCP_END,
      sc_config_dir = HWPHONELINK_SOFTAP_CONFIG_DIR,
      sc_run_dir = HWPHONELINK_SOFTAP_RUN_DIR\<rparr>"

text \<open>\<open>g_build_filename\<close> for a directory that does not end in a slash.\<close>

definition build_filename :: "cstr \<Rightarrow> cstr \<Rightarrow> cstr" where
  "build_filename dir name = dir @ [0x2f] @ name"

text \<open>A configuration file is lines, most of them \<open>key=value\<close>.\<close>

definition conf_line :: "cstr \<Rightarrow> cstr" where
  "conf_line l = l @ [0x0a]"

definition conf_pair :: "cstr \<times> cstr \<Rightarrow> cstr" where
  "conf_pair p = conf_line (fst p @ [0x3d] @ snd p)"

definition hostapd_lines :: "softap_config \<Rightarrow> (cstr \<times> cstr) list" where
  "hostapd_lines c =
     [(bytes_of ''interface'', sc_ap_interface c),
      (bytes_of ''driver'', bytes_of ''nl80211''),
      (bytes_of ''ssid'', sc_ssid c),
      (bytes_of ''hw_mode'', bytes_of (if sc_channel c \<le> 14 then ''g'' else ''a'')),
      (bytes_of ''channel'', dec (sc_channel c)),
      (bytes_of ''ieee80211n'', bytes_of ''1''),
      (bytes_of ''ieee80211ac'', bytes_of ''1''),
      (bytes_of ''wpa'', bytes_of ''2''),
      (bytes_of ''wpa_passphrase'', sc_passphrase c),
      (bytes_of ''wpa_key_mgmt'', bytes_of ''WPA-PSK''),
      (bytes_of ''rsn_pairwise'', bytes_of ''CCMP''),
      (bytes_of ''wmm_enabled'', bytes_of ''1''),
      (bytes_of ''ieee80211d'', bytes_of ''1''),
      (bytes_of ''country_code'', bytes_of ''CN''),
      (bytes_of ''ieee80211h'', bytes_of ''1'')]"

definition hostapd_conf :: "softap_config \<Rightarrow> cstr" where
  "hostapd_conf c = concat (map conf_pair (hostapd_lines c))"

definition dnsmasq_conf :: "softap_config \<Rightarrow> cstr" where
  "dnsmasq_conf c = concat (map conf_line
     [bytes_of ''interface='' @ sc_ap_interface c,
      bytes_of ''bind-interfaces'',
      bytes_of ''dhcp-range='' @ sc_dhcp_start c @ [0x2c] @ sc_dhcp_end c @ bytes_of '',12h'',
      bytes_of ''dhcp-option=3,'' @ sc_ap_ip c,
      bytes_of ''dhcp-option=6,'' @ sc_ap_ip c,
      bytes_of ''no-hosts'',
      bytes_of ''addn-hosts='' @ sc_config_dir c @ bytes_of ''/hosts'',
      bytes_of ''log-queries'',
      bytes_of ''log-dhcp'',
      bytes_of ''pid-file='' @ sc_run_dir c @ bytes_of ''/dnsmasq.pid'',
      bytes_of ''dhcp-leasefile='' @ sc_run_dir c @ bytes_of ''/dnsmasq.leases'',
      bytes_of ''dhcp-authoritative''])"

definition hosts_file :: "softap_config \<Rightarrow> cstr" where
  "hosts_file c = conf_line (sc_ap_ip c @ [0x09] @ bytes_of ''phone.local'')"

section \<open>State\<close>

datatype softap_out =
    SoNl nl_request
  | SoSpawn "cstr list"
  | SoWrite cstr cstr
  | SoTerm int
  | SoKill int
  | SoForceExit
  | SoNotify hw_state
  | SoChanged hw_state hw_state

record softap =
  so_config :: softap_config
  so_nl :: nl_handle
  so_dnsmasq_proc :: bool
  so_state :: hw_state
  so_hostapd_pid :: u32
  so_dnsmasq_pid :: u32
  so_out :: "softap_out list"

text \<open>
  \<open>se_freed\<close> is what is left at the address of \<open>pid_path\<close> after \<open>g_free\<close>; \<open>se_alive p k\<close> answers
  the \<open>k\<close>-th \<open>kill(p, 0)\<close>.
\<close>

record softap_env =
  se_nl :: nl_env
  se_mkdir :: bool
  se_write :: "cstr \<Rightarrow> bool"
  se_spawn :: "cstr list \<Rightarrow> bool"
  se_read :: "cstr \<Rightarrow> cstr option"
  se_freed :: cstr
  se_alive :: "int \<Rightarrow> nat \<Rightarrow> bool"

definition so_emit :: "softap_out \<Rightarrow> softap \<Rightarrow> softap" where
  "so_emit x s = s\<lparr>so_out := so_out s @ [x]\<rparr>"

text \<open>A netlink operation, its requests and its result.\<close>

definition so_netlink :: "nl_request list \<times> bool \<Rightarrow> softap \<Rightarrow> softap \<times> bool" where
  "so_netlink r s = (s\<lparr>so_out := so_out s @ map SoNl (fst r)\<rparr>, snd r)"

definition softap_backend_new :: "nl_env \<Rightarrow> cstr option \<Rightarrow> cstr option \<Rightarrow> softap option" where
  "softap_backend_new N phy_name sta_interface =
     map_option (\<lambda>h. \<lparr>so_config = softap_config_init phy_name sta_interface, so_nl = h, so_dnsmasq_proc = False,
         so_state = STOPPED, so_hostapd_pid = 0, so_dnsmasq_pid = 0, so_out = []\<rparr>)
       (nl_handle_new N)"

section \<open>Processes\<close>

text \<open>At most 50 probes; the result is the number of the next probe.\<close>

fun stop_probes :: "(nat \<Rightarrow> bool) \<Rightarrow> nat \<Rightarrow> nat \<Rightarrow> nat" where
  "stop_probes alive k 0 = k"
| "stop_probes alive k (Suc n) = (if \<not> alive k then Suc k else stop_probes alive (Suc k) n)"

definition stop_process :: "softap_env \<Rightarrow> u32 \<Rightarrow> softap \<Rightarrow> softap" where
  "stop_process E pid s =
     (if 0 < pid then
        let p = sint pid;
            s = so_emit (SoTerm p) s
        in if se_alive E p (stop_probes (se_alive E p) 0 50) then so_emit (SoKill p) s else s
      else s)"

definition start_hostapd :: "softap_env \<Rightarrow> softap \<Rightarrow> softap \<times> bool" where
  "start_hostapd E s =
     (let config_path = build_filename (sc_config_dir (so_config s)) (bytes_of ''hostapd.conf'');
          pid_path = build_filename (sc_run_dir (so_config s)) (bytes_of ''hostapd.pid'');
          argv = [bytes_of ''hostapd'', bytes_of ''-B'', bytes_of ''-P'', pid_path, config_path];
          s = so_emit (SoSpawn argv) s
      in if \<not> se_spawn E argv then (s, False)
         else (case se_read E (se_freed E) of
                 None \<Rightarrow> (s, True)
               | Some pid_content \<Rightarrow> (s\<lparr>so_hostapd_pid := c_atoi pid_content\<rparr>, True)))"

definition start_dnsmasq :: "softap_env \<Rightarrow> softap \<Rightarrow> softap \<times> bool" where
  "start_dnsmasq E s =
     (let config_path = build_filename (sc_config_dir (so_config s)) (bytes_of ''dnsmasq.conf'');
          pid_path = build_filename (sc_run_dir (so_config s)) (bytes_of ''dnsmasq.pid'');
          lease_path = build_filename (sc_run_dir (so_config s)) (bytes_of ''dnsmasq.leases'');
          argv = [bytes_of ''dnsmasq'', bytes_of ''-C'', config_path, bytes_of ''-x'', pid_path, bytes_of ''-l'', lease_path,
                  bytes_of ''--no-daemon''];
          s = so_emit (SoSpawn argv) s
      in if \<not> se_spawn E argv then (s, False)
         else
           let s = s\<lparr>so_dnsmasq_proc := True\<rparr>
           in (case se_read E pid_path of
                 None \<Rightarrow> (s, True)
               | Some pid_content \<Rightarrow> (s\<lparr>so_dnsmasq_pid := c_atoi pid_content\<rparr>, True)))"

definition nmcli_argv :: "cstr \<Rightarrow> cstr list" where
  "nmcli_argv ap = [bytes_of ''nmcli'', bytes_of ''device'', bytes_of ''set'', ap, bytes_of ''managed'', bytes_of ''no'']"

definition nat_argv :: "cstr list" where
  "nat_argv = [bytes_of ''sh'', bytes_of ''-c'', bytes_of (''echo 1 > /proc/sys/net/ipv4/ip_forward && '' @
     ''iptables -t nat -A POSTROUTING -s 192.168.137.0/24 -o wlp1s0 -j MASQUERADE && '' @
     ''iptables -A FORWARD -i wlp1s0_ap -o wlp1s0 -j ACCEPT && '' @
     ''iptables -A FORWARD -i wlp1s0 -o wlp1s0_ap -m state --state RELATED,ESTABLISHED -j ACCEPT'')]"

definition unnat_argv :: "cstr list" where
  "unnat_argv = [bytes_of ''sh'', bytes_of ''-c'', bytes_of (
     ''iptables -t nat -D POSTROUTING -s 192.168.137.0/24 -o wlp1s0 -j MASQUERADE 2>/dev/null; '' @
     ''iptables -D FORWARD -i wlp1s0_ap -o wlp1s0 -j ACCEPT 2>/dev/null; '' @
     ''iptables -D FORWARD -i wlp1s0 -o wlp1s0_ap -m state --state RELATED,ESTABLISHED -j ACCEPT 2>/dev/null'')]"

section \<open>Starting and stopping\<close>

text \<open>Steps 1 to 4: the directory and the interface.\<close>

definition softap_interface :: "softap_env \<Rightarrow> softap \<Rightarrow> softap \<times> bool" where
  "softap_interface E s =
     (let c = so_config s; N = se_nl E; h = so_nl s; ap = sc_ap_interface c
      in if \<not> se_mkdir E then (s, False)
         else let (s, ok) = so_netlink (nl_create_ap_interface N (sc_phy_name c) ap) s
         in if \<not> ok then (s, False)
         else if \<not> nl_wait_interface N h ap True 5000 then (s, False)
         else let (s, ok) = so_netlink (nl_set_interface_up N h ap True) s
         in if \<not> ok then (s, False)
         else so_netlink (nl_add_ip_address N h ap (sc_ap_ip c @ bytes_of ''/24'')) s)"

text \<open>
  Step 6: the files.  A file that cannot be written makes the start fail, without an error text; the file with the host
  names may fail.
\<close>

definition softap_files :: "softap_env \<Rightarrow> softap \<Rightarrow> softap \<times> bool" where
  "softap_files E s =
     (let c = so_config s;
          hostapd = build_filename (sc_config_dir c) (bytes_of ''hostapd.conf'');
          dnsmasq = build_filename (sc_config_dir c) (bytes_of ''dnsmasq.conf'');
          hosts = build_filename (sc_config_dir c) (bytes_of ''hosts'');
          s = so_emit (SoWrite hostapd (hostapd_conf c)) s
      in if \<not> se_write E hostapd then (s, False)
         else let s = so_emit (SoWrite dnsmasq (dnsmasq_conf c)) s
         in if \<not> se_write E dnsmasq then (s, False)
         else (so_emit (SoWrite hosts (hosts_file c)) s, True))"

text \<open>Steps 7 to 9: the two daemons and the forwarding rules.  \<open>err\<close> says whether \<open>*error\<close> was set before.\<close>

definition softap_daemons :: "softap_env \<Rightarrow> bool \<Rightarrow> softap \<Rightarrow> softap \<times> bool \<times> bool" where
  "softap_daemons E err s =
     (let (s, ok) = start_hostapd E s
      in if \<not> ok then (s\<lparr>so_state := STATE_ERROR\<rparr>, False, True)
         else let (s, ok) = start_dnsmasq E s
         in if \<not> ok then ((stop_process E (so_hostapd_pid s) s)\<lparr>so_hostapd_pid := 0, so_state := STATE_ERROR\<rparr>, False, True)
         else (so_emit (SoChanged STARTING RUNNING)
                (so_emit (SoNotify RUNNING) ((so_emit (SoSpawn nat_argv) s)\<lparr>so_state := RUNNING\<rparr>)),
               True, err \<or> \<not> se_spawn E nat_argv))"

definition softap_backend_start :: "softap_env \<Rightarrow> softap \<Rightarrow> softap \<times> bool \<times> bool" where
  "softap_backend_start E s =
     (if so_state s \<noteq> STOPPED then (s, False, True)
      else
        let (s, ok) = softap_interface E (so_emit (SoNotify STARTING) (s\<lparr>so_state := STARTING\<rparr>))
        in if \<not> ok then (s, False, True)
           else
             let nmcli = nmcli_argv (sc_ap_interface (so_config s));
                 err = (\<not> se_spawn E nmcli);
                 (s, ok) = softap_files E (so_emit (SoSpawn nmcli) s)
             in if \<not> ok then (s, False, err) else softap_daemons E err s)"

definition softap_backend_stop :: "softap_env \<Rightarrow> softap \<Rightarrow> softap" where
  "softap_backend_stop E s =
     (if so_state s = STOPPED \<or> so_state s = STOPPING then s
      else
        let s = so_emit (SoNotify STOPPING) (s\<lparr>so_state := STOPPING\<rparr>);
            s = (if so_dnsmasq_proc s then (so_emit SoForceExit s)\<lparr>so_dnsmasq_proc := False\<rparr> else s);
            s = (stop_process E (so_dnsmasq_pid s) s)\<lparr>so_dnsmasq_pid := 0\<rparr>;
            s = (stop_process E (so_hostapd_pid s) s)\<lparr>so_hostapd_pid := 0\<rparr>;
            s = so_emit (SoSpawn unnat_argv) s;
            c = so_config s; N = se_nl E; h = so_nl s; ap = sc_ap_interface c;
            s = fst (so_netlink (nl_remove_ip_address N h ap (sc_ap_ip c @ bytes_of ''/24'')) s);
            s = fst (so_netlink (nl_set_interface_up N h ap False) s);
            s = fst (so_netlink (nl_delete_interface N ap) s)
        in so_emit (SoChanged STOPPING STOPPED) (so_emit (SoNotify STOPPED) (s\<lparr>so_state := STOPPED\<rparr>)))"

section \<open>What stays\<close>

lemma so_emit_simps [simp]:
  "so_config (so_emit x s) = so_config s" "so_nl (so_emit x s) = so_nl s" "so_state (so_emit x s) = so_state s"
  "so_dnsmasq_proc (so_emit x s) = so_dnsmasq_proc s" "so_hostapd_pid (so_emit x s) = so_hostapd_pid s"
  "so_dnsmasq_pid (so_emit x s) = so_dnsmasq_pid s" "so_out (so_emit x s) = so_out s @ [x]"
  by (simp_all add: so_emit_def)

lemma so_netlink_simps [simp]:
  "so_config (fst (so_netlink r s)) = so_config s" "so_nl (fst (so_netlink r s)) = so_nl s"
  "so_state (fst (so_netlink r s)) = so_state s" "so_dnsmasq_proc (fst (so_netlink r s)) = so_dnsmasq_proc s"
  "so_hostapd_pid (fst (so_netlink r s)) = so_hostapd_pid s" "so_dnsmasq_pid (fst (so_netlink r s)) = so_dnsmasq_pid s"
  "so_out (fst (so_netlink r s)) = so_out s @ map SoNl (fst r)" "snd (so_netlink r s) = snd r"
  by (simp_all add: so_netlink_def)

lemma stop_process_simps [simp]:
  "so_config (stop_process E p s) = so_config s" "so_nl (stop_process E p s) = so_nl s"
  "so_state (stop_process E p s) = so_state s" "so_dnsmasq_proc (stop_process E p s) = so_dnsmasq_proc s"
  "so_hostapd_pid (stop_process E p s) = so_hostapd_pid s" "so_dnsmasq_pid (stop_process E p s) = so_dnsmasq_pid s"
  by (simp_all add: stop_process_def Let_def)

lemma start_hostapd_simps [simp]:
  "so_config (fst (start_hostapd E s)) = so_config s" "so_nl (fst (start_hostapd E s)) = so_nl s"
  "so_state (fst (start_hostapd E s)) = so_state s"
  by (simp_all add: start_hostapd_def Let_def split: option.split)

lemma start_dnsmasq_simps [simp]:
  "so_config (fst (start_dnsmasq E s)) = so_config s" "so_nl (fst (start_dnsmasq E s)) = so_nl s"
  "so_state (fst (start_dnsmasq E s)) = so_state s"
  by (simp_all add: start_dnsmasq_def Let_def split: option.split)

lemma softap_interface_simps [simp]:
  "so_config (fst (softap_interface E s)) = so_config s" "so_nl (fst (softap_interface E s)) = so_nl s"
  "so_state (fst (softap_interface E s)) = so_state s"
  by (simp_all add: softap_interface_def Let_def split_beta)

lemma softap_files_simps [simp]:
  "so_config (fst (softap_files E s)) = so_config s" "so_nl (fst (softap_files E s)) = so_nl s"
  "so_state (fst (softap_files E s)) = so_state s"
  by (simp_all add: softap_files_def Let_def)

lemma softap_daemons_result:
  "so_config (fst (softap_daemons E err s)) = so_config s" "so_nl (fst (softap_daemons E err s)) = so_nl s"
  "so_state (fst (softap_daemons E err s)) = (if fst (snd (softap_daemons E err s)) then RUNNING else STATE_ERROR)"
  by (simp_all add: softap_daemons_def Let_def split_beta)

lemma softap_start_result:
  assumes "so_state s = STOPPED"
  shows "so_config (fst (softap_backend_start E s)) = so_config s" "so_nl (fst (softap_backend_start E s)) = so_nl s"
    "if fst (snd (softap_backend_start E s)) then so_state (fst (softap_backend_start E s)) = RUNNING
     else so_state (fst (softap_backend_start E s)) \<in> {STARTING, STATE_ERROR}"
  using assms by (simp_all add: softap_backend_start_def Let_def split_beta softap_daemons_result)

lemma softap_stop_result:
  assumes "so_state s \<noteq> STOPPED" "so_state s \<noteq> STOPPING"
  shows "so_config (softap_backend_stop E s) = so_config s" "so_nl (softap_backend_stop E s) = so_nl s"
    "so_state (softap_backend_stop E s) = STOPPED" "so_hostapd_pid (softap_backend_stop E s) = 0"
    "so_dnsmasq_pid (softap_backend_stop E s) = 0" "\<not> so_dnsmasq_proc (softap_backend_stop E s)"
  using assms by (simp_all add: softap_backend_stop_def Let_def)

definition softap_inv :: "softap \<Rightarrow> bool" where
  "softap_inv s \<longleftrightarrow> so_state s \<noteq> STOPPING"

interpretation softap: transport softap_backend_start softap_backend_stop so_state softap_inv
proof
  fix s s' :: softap and E err
  show "so_state s \<noteq> STOPPED \<Longrightarrow> softap_backend_start E s = (s, False, True)"
    by (simp add: softap_backend_start_def)
  show "softap_inv s \<Longrightarrow> softap_backend_start E s = (s', True, err) \<Longrightarrow> so_state s' = RUNNING"
    using softap_start_result(3) [of s E] by (cases "so_state s = STOPPED") (auto simp: softap_backend_start_def)
  show "so_state s = STOPPED \<Longrightarrow> softap_backend_start E s = (s', False, err) \<Longrightarrow> so_state s' \<in> {STARTING, STATE_ERROR}"
    using softap_start_result(3) [of s E] by simp
  show "softap_inv s \<Longrightarrow> so_state (softap_backend_stop E s) = STOPPED"
    using softap_stop_result(3) [of s E] by (cases "so_state s = STOPPED") (auto simp: softap_inv_def softap_backend_stop_def)
  show "so_state s = STOPPED \<Longrightarrow> softap_backend_stop E s = s" by (simp add: softap_backend_stop_def)
  show "softap_inv s \<Longrightarrow> softap_inv (fst (softap_backend_start E s))"
    using softap_start_result(3) [of s E]
    by (cases "so_state s = STOPPED") (auto simp: softap_inv_def softap_backend_start_def split: if_splits)
  show "softap_inv s \<Longrightarrow> softap_inv (softap_backend_stop E s)"
    using softap_stop_result(3) [of s E] by (cases "so_state s = STOPPED") (auto simp: softap_inv_def softap_backend_stop_def)
qed

section \<open>An interface that is made later\<close>

lemma softap_start_no_interface:
  assumes "map_of (nh_link_cache (so_nl s)) (sc_ap_interface (so_config s)) = None" "so_state s = STOPPED"
  shows "fst (snd (softap_backend_start E s)) = False" "so_state (fst (softap_backend_start E s)) = STARTING"
    "\<exists>rs. so_out (fst (softap_backend_start E s)) = so_out s @ SoNotify STARTING # map SoNl rs"
proof -
  let ?s = "so_emit (SoNotify STARTING) (s\<lparr>so_state := STARTING\<rparr>)"
  have "snd (softap_interface E ?s) = False" "\<exists>rs. so_out (fst (softap_interface E ?s)) = so_out ?s @ map SoNl rs"
    using assms(1) by (auto simp: softap_interface_def Let_def split_beta nl_wait_result)
  then show "fst (snd (softap_backend_start E s)) = False" "so_state (fst (softap_backend_start E s)) = STARTING"
    "\<exists>rs. so_out (fst (softap_backend_start E s)) = so_out s @ SoNotify STARTING # map SoNl rs"
    using assms(2) by (simp_all add: softap_backend_start_def Let_def split_beta)
qed

fun is_file_or_changed :: "softap_out \<Rightarrow> bool" where
  "is_file_or_changed (SoWrite _ _) = True"
| "is_file_or_changed (SoChanged _ new) = (new = RUNNING)"
| "is_file_or_changed _ = False"

definition stop_outs :: "softap_env \<Rightarrow> u32 \<Rightarrow> softap_out list" where
  "stop_outs E pid =
     (if 0 < pid then SoTerm (sint pid) # (if se_alive E (sint pid) (stop_probes (se_alive E (sint pid)) 0 50) then [SoKill (sint pid)] else [])
      else [])"

lemma stop_process_outs: "so_out (stop_process E pid s) = so_out s @ stop_outs E pid"
  by (simp add: stop_process_def stop_outs_def Let_def)

lemma stop_outs_quiet: "list_all (\<lambda>x. \<not> is_file_or_changed x) (stop_outs E pid)"
  by (simp add: stop_outs_def)

lemma softap_stop_outs:
  assumes "so_state s \<noteq> STOPPING"
  shows "\<exists>os. so_out (softap_backend_stop E s) = so_out s @ os \<and> list_all (\<lambda>x. \<not> is_file_or_changed x) os"
proof (cases "so_state s = STOPPED")
  case False
  let ?s = "so_emit (SoNotify STOPPING) (s\<lparr>so_state := STOPPING\<rparr>)"
  define rs where "rs = fst (nl_remove_ip_address (se_nl E) (so_nl s) (sc_ap_interface (so_config s)) (sc_ap_ip (so_config s) @ bytes_of ''/24'')) @
    fst (nl_set_interface_up (se_nl E) (so_nl s) (sc_ap_interface (so_config s)) False) @
    fst (nl_delete_interface (se_nl E) (sc_ap_interface (so_config s)))"
  have "so_out (softap_backend_stop E s) = so_out s @ SoNotify STOPPING # (if so_dnsmasq_proc s then [SoForceExit] else []) @
      stop_outs E (so_dnsmasq_pid s) @ stop_outs E (so_hostapd_pid s) @ SoSpawn unnat_argv # map SoNl rs @
      [SoNotify STOPPED, SoChanged STOPPING STOPPED]"
    using False assms unfolding rs_def
    by (cases "so_dnsmasq_proc s") (simp_all add: softap_backend_stop_def Let_def stop_process_outs)
  then show ?thesis using stop_outs_quiet by (auto simp: list_all_iff)
qed (simp add: softap_backend_stop_def)


definition toy_softap_env :: softap_env where
  "toy_softap_env = \<lparr>se_nl = toy_nl_env, se_mkdir = True, se_write = (\<lambda>_. True), se_spawn = (\<lambda>_. True),
     se_read = (\<lambda>_. None), se_freed = [], se_alive = (\<lambda>_ _. False)\<rparr>"


section \<open>A start that succeeds\<close>

definition hostapd_argv :: "softap_config \<Rightarrow> cstr list" where
  "hostapd_argv c = [bytes_of ''hostapd'', bytes_of ''-B'', bytes_of ''-P'', build_filename (sc_run_dir c) (bytes_of ''hostapd.pid''),
     build_filename (sc_config_dir c) (bytes_of ''hostapd.conf'')]"

definition dnsmasq_argv :: "softap_config \<Rightarrow> cstr list" where
  "dnsmasq_argv c = [bytes_of ''dnsmasq'', bytes_of ''-C'', build_filename (sc_config_dir c) (bytes_of ''dnsmasq.conf''), bytes_of ''-x'',
     build_filename (sc_run_dir c) (bytes_of ''dnsmasq.pid''), bytes_of ''-l'', build_filename (sc_run_dir c) (bytes_of ''dnsmasq.leases''),
     bytes_of ''--no-daemon'']"

definition softap_link :: "softap_env \<Rightarrow> softap \<Rightarrow> (nl_request list \<times> bool) list" where
  "softap_link E s =
     (let c = so_config s; ap = sc_ap_interface c
      in [nl_create_ap_interface (se_nl E) (sc_phy_name c) ap, nl_set_interface_up (se_nl E) (so_nl s) ap True,
          nl_add_ip_address (se_nl E) (so_nl s) ap (sc_ap_ip c @ bytes_of ''/24'')])"

definition softap_works :: "softap_env \<Rightarrow> softap \<Rightarrow> bool" where
  "softap_works E s =
     (let c = so_config s; file = build_filename (sc_config_dir c)
      in se_mkdir E \<and> list_all snd (softap_link E s) \<and> map_of (nh_link_cache (so_nl s)) (sc_ap_interface c) \<noteq> None \<and>
         se_write E (file (bytes_of ''hostapd.conf'')) \<and> se_write E (file (bytes_of ''dnsmasq.conf'')) \<and>
         se_spawn E (hostapd_argv c) \<and> se_spawn E (dnsmasq_argv c))"

definition softap_trace :: "softap_env \<Rightarrow> softap \<Rightarrow> softap_out list" where
  "softap_trace E s =
     (let c = so_config s; file = build_filename (sc_config_dir c)
      in [SoNotify STARTING] @ map SoNl (concat (map fst (softap_link E s))) @
         [SoSpawn (nmcli_argv (sc_ap_interface c)), SoWrite (file (bytes_of ''hostapd.conf'')) (hostapd_conf c),
          SoWrite (file (bytes_of ''dnsmasq.conf'')) (dnsmasq_conf c), SoWrite (file (bytes_of ''hosts'')) (hosts_file c),
          SoSpawn (hostapd_argv c), SoSpawn (dnsmasq_argv c), SoSpawn nat_argv, SoNotify RUNNING, SoChanged STARTING RUNNING])"

lemma softap_interface_steps:
  "snd (softap_interface E s) \<longleftrightarrow>
     se_mkdir E \<and> list_all snd (softap_link E s) \<and> map_of (nh_link_cache (so_nl s)) (sc_ap_interface (so_config s)) \<noteq> None"
  "snd (softap_interface E s) \<Longrightarrow> so_out (fst (softap_interface E s)) = so_out s @ map SoNl (concat (map fst (softap_link E s)))"
  by (auto simp: softap_interface_def softap_link_def Let_def split_beta nl_wait_result split: if_splits)

lemma start_hostapd_steps:
  "snd (start_hostapd E s) \<longleftrightarrow> se_spawn E (hostapd_argv (so_config s))"
  "so_out (fst (start_hostapd E s)) = so_out s @ [SoSpawn (hostapd_argv (so_config s))]"
  by (simp_all add: start_hostapd_def hostapd_argv_def Let_def split: option.split)

lemma start_dnsmasq_steps:
  "snd (start_dnsmasq E s) \<longleftrightarrow> se_spawn E (dnsmasq_argv (so_config s))"
  "so_out (fst (start_dnsmasq E s)) = so_out s @ [SoSpawn (dnsmasq_argv (so_config s))]"
  by (simp_all add: start_dnsmasq_def dnsmasq_argv_def Let_def split: option.split)

lemma softap_daemons_steps:
  "fst (snd (softap_daemons E err s)) \<longleftrightarrow> se_spawn E (hostapd_argv (so_config s)) \<and> se_spawn E (dnsmasq_argv (so_config s))"
  "fst (snd (softap_daemons E err s)) \<Longrightarrow> so_out (fst (softap_daemons E err s)) = so_out s @
     [SoSpawn (hostapd_argv (so_config s)), SoSpawn (dnsmasq_argv (so_config s)), SoSpawn nat_argv, SoNotify RUNNING, SoChanged STARTING RUNNING]"
  by (simp_all add: softap_daemons_def Let_def split_beta start_hostapd_steps start_dnsmasq_steps split: if_splits)

lemma softap_link_same:
  "so_config s' = so_config s \<Longrightarrow> so_nl s' = so_nl s \<Longrightarrow> softap_link E s' = softap_link E s"
  by (simp add: softap_link_def)

text \<open>
  C27. A start returns success exactly when every step that is checked worked, and then it did all of them in order: the interface is
  made, set up and given its address, NetworkManager is told to leave it alone, the files are written, hostapd, dnsmasq and the
  forwarding rules are started, and only then the state is \<open>RUNNING\<close> and the signal goes out.
\<close>

lemma softap_start_steps:
  assumes "so_state s = STOPPED" "softap_backend_start E s = (s', ok, err)"
  shows "(ok \<longleftrightarrow> softap_works E s) \<and> (ok \<longrightarrow> so_state s' = RUNNING \<and> so_out s' = so_out s @ softap_trace E s)"
proof -
  define s1 where "s1 = so_emit (SoNotify STARTING) (s\<lparr>so_state := STARTING\<rparr>)"
  define s2 where "s2 = so_emit (SoSpawn (nmcli_argv (sc_ap_interface (so_config s)))) (fst (softap_interface E s1))"
  define s3 where "s3 = fst (softap_files E s2)"
  define ok1 ok2 where "ok1 = snd (softap_interface E s1)" and "ok2 = snd (softap_files E s2)"
  let ?e = "\<not> se_spawn E (nmcli_argv (sc_ap_interface (so_config s)))"
  have c: "so_config s1 = so_config s" "so_nl s1 = so_nl s" "so_config s2 = so_config s" "so_config s3 = so_config s"
    by (simp_all add: s1_def s2_def s3_def)
  have r: "softap_backend_start E s =
      (if \<not> ok1 then (fst (softap_interface E s1), False, True)
       else if \<not> ok2 then (s3, False, ?e) else softap_daemons E ?e s3)"
    using assms(1) by (simp add: softap_backend_start_def Let_def split_beta s1_def s2_def s3_def ok1_def ok2_def)
  have ok2: "ok2 \<longleftrightarrow> se_write E (build_filename (sc_config_dir (so_config s)) (bytes_of ''hostapd.conf'')) \<and>
      se_write E (build_filename (sc_config_dir (so_config s)) (bytes_of ''dnsmasq.conf''))"
    unfolding ok2_def softap_files_def Let_def c by simp
  have ok1: "ok1 \<longleftrightarrow> se_mkdir E \<and> list_all snd (softap_link E s) \<and> map_of (nh_link_cache (so_nl s)) (sc_ap_interface (so_config s)) \<noteq> None"
    unfolding ok1_def using softap_interface_steps(1) [of E s1] softap_link_same [OF c(1,2), of E] c by simp
  have ok: "ok \<longleftrightarrow> softap_works E s"
    using assms(2) softap_daemons_steps(1) [of E ?e s3] unfolding r ok1 ok2 c softap_works_def Let_def
    by (auto split: if_splits)
  moreover have "so_state s' = RUNNING \<and> so_out s' = so_out s @ softap_trace E s" if "ok"
  proof
    show "so_state s' = RUNNING" using assms(2) that softap_start_result(3) [OF assms(1), of E] by simp
    have w: "ok1" "ok2" "softap_backend_start E s = softap_daemons E ?e s3" using that assms(2) r by (auto split: if_splits)
    have d: "softap_daemons E ?e s3 = (s', ok, err)" using w(3) assms(2) by simp
    then have "so_out s' = so_out s3 @
      [SoSpawn (hostapd_argv (so_config s)), SoSpawn (dnsmasq_argv (so_config s)), SoSpawn nat_argv, SoNotify RUNNING, SoChanged STARTING RUNNING]"
      using softap_daemons_steps(2) [of E ?e s3] that by (simp add: c)
    moreover have "so_out s3 = so_out s2 @
        [SoWrite (build_filename (sc_config_dir (so_config s)) (bytes_of ''hostapd.conf'')) (hostapd_conf (so_config s)),
         SoWrite (build_filename (sc_config_dir (so_config s)) (bytes_of ''dnsmasq.conf'')) (dnsmasq_conf (so_config s)),
         SoWrite (build_filename (sc_config_dir (so_config s)) (bytes_of ''hosts'')) (hosts_file (so_config s))]"
      using w(2) unfolding s3_def ok2_def softap_files_def Let_def c by (simp split: if_splits)
    moreover have "so_out s2 = so_out s @ [SoNotify STARTING] @ map SoNl (concat (map fst (softap_link E s))) @
        [SoSpawn (nmcli_argv (sc_ap_interface (so_config s)))]"
      using softap_interface_steps(2) [of E s1] w(1) softap_link_same [OF c(1,2), of E] unfolding s2_def ok1_def by (simp add: s1_def)
    ultimately show "so_out s' = so_out s @ softap_trace E s" by (simp add: softap_trace_def Let_def)
  qed
  ultimately show ?thesis by blast
qed

text \<open>A configuration file that cannot be written makes the start fail without an error text, and the state stays \<open>STARTING\<close>.\<close>

lemma softap_silent_failure:
  assumes "so_state s = STOPPED" "se_mkdir E" "list_all snd (softap_link E s)" "map_of (nh_link_cache (so_nl s)) (sc_ap_interface (so_config s)) \<noteq> None"
    and "se_spawn E (nmcli_argv (sc_ap_interface (so_config s)))"
    and "\<not> se_write E (build_filename (sc_config_dir (so_config s)) (bytes_of ''hostapd.conf''))"
  shows "snd (softap_backend_start E s) = (False, False) \<and> so_state (fst (softap_backend_start E s)) = STARTING"
proof -
  let ?s = "so_emit (SoNotify STARTING) (s\<lparr>so_state := STARTING\<rparr>)"
  have "snd (softap_interface E ?s)"
    using softap_interface_steps(1) [of E ?s] softap_link_same [of ?s s E] assms(2-4) by simp
  then show ?thesis using assms(1,5,6) by (simp add: softap_backend_start_def softap_files_def Let_def split_beta)
qed

definition toy_ap_env :: nl_env where
  "toy_ap_env = toy_nl_env\<lparr>ne_cache := (0, [(bytes_of ''wlp1s0_ap'', 4)])\<rparr>"

lemma softap_start_steps_witness:
  "\<exists>s s' err. softap_backend_new toy_ap_env None None = Some s \<and>
     softap_backend_start (toy_softap_env\<lparr>se_nl := toy_ap_env\<rparr>) s = (s', True, err) \<and> so_state s' = RUNNING"
proof -
  let ?E = "toy_softap_env\<lparr>se_nl := toy_ap_env\<rparr>"
  let ?h = "\<lparr>nh_nl80211_id = 27, nh_link_cache = [(bytes_of ''wlp1s0_ap'', 4)]\<rparr>"
  have "nl_handle_new toy_ap_env = Some ?h" by (simp add: nl_handle_new_def toy_ap_env_def toy_nl_env_def)
  then obtain s where s: "softap_backend_new toy_ap_env None None = Some s" "so_config s = softap_config_init None None" "so_nl s = ?h"
    "so_state s = STOPPED" by (simp add: softap_backend_new_def)
  have ap: "sc_ap_interface (so_config s) = bytes_of ''wlp1s0_ap''" by (simp add: s softap_config_init_def)
  have "softap_works ?E s"
    unfolding softap_works_def softap_link_def Let_def ap s(3)
    by (simp add: toy_softap_env_def toy_ap_env_def toy_nl_env_def nl_create_ap_interface_def nl_set_interface_up_def
        nl_add_ip_address_def nl_get_ifindex_def nl_send_def)
  moreover obtain s' ok err where r: "softap_backend_start ?E s = (s', ok, err)" by (cases "softap_backend_start ?E s")
  ultimately have "ok" "so_state s' = RUNNING" using softap_start_steps [OF s(4) r] by simp_all
  then show ?thesis using s(1) r by (intro exI [of _ s] exI [of _ s'] exI [of _ err]) simp
qed

section \<open>The configuration of hostapd\<close>

text \<open>Reading such a file: the lines, and each cut at its first equals sign.\<close>

function text_lines :: "cstr \<Rightarrow> cstr list" where
  "text_lines t = (if t = [] then [] else takeWhile (\<lambda>c. c \<noteq> 0x0a) t # text_lines (tl (dropWhile (\<lambda>c. c \<noteq> 0x0a) t)))"
  by pat_completeness auto

termination
proof (relation "measure length")
  fix t :: cstr
  assume "t \<noteq> []"
  then show "(tl (dropWhile (\<lambda>c. c \<noteq> 0x0a) t), t) \<in> measure length"
    using length_dropWhile_le [of "\<lambda>c. c \<noteq> 0x0a" t] by (cases t) auto
qed simp

declare text_lines.simps [simp del]

definition conf_read :: "cstr \<Rightarrow> (cstr \<times> cstr) list" where
  "conf_read t = map (\<lambda>l. (takeWhile (\<lambda>c. c \<noteq> 0x3d) l, tl (dropWhile (\<lambda>c. c \<noteq> 0x3d) l))) (text_lines t)"

lemma cut_at:
  assumes "x \<notin> set l"
  shows "takeWhile (\<lambda>c. c \<noteq> x) (l @ x # t) = l" "dropWhile (\<lambda>c. c \<noteq> x) (l @ x # t) = x # t"
  using assms by (induction l) auto

lemma text_lines_line:
  assumes "0x0a \<notin> set l"
  shows "text_lines (l @ 0x0a # t) = l # text_lines t"
proof -
  show ?thesis using cut_at [OF assms, of t] by (subst text_lines.simps) simp
qed

lemma conf_read_pairs:
  assumes "\<forall>(k, v) \<in> set ps. 0x0a \<notin> set k \<and> 0x3d \<notin> set k \<and> 0x0a \<notin> set v"
  shows "conf_read (concat (map conf_pair ps)) = ps"
  using assms
proof (induction ps)
  case Nil
  then show ?case by (simp add: conf_read_def text_lines.simps)
next
  case (Cons p ps)
  obtain k v where p: "p = (k, v)" by force
  have "0x3d \<notin> set k" using Cons.prems p by simp
  note w = cut_at [OF this, of v]
  have "0x0a \<notin> set (k @ 0x3d # v)" using Cons.prems p by auto
  from text_lines_line [OF this] Cons p w show ?case
    by (simp add: conf_read_def conf_pair_def conf_line_def)
qed

text \<open>
  As long as the names and the passphrase have no line break, the written file reads back as exactly the settings of the
  configuration; the channel decides the band.  The configuration a backend starts with has an empty passphrase,
  so the file sets \<open>wpa=2\<close> with an empty \<open>wpa_passphrase\<close>.
\<close>

lemma hostapd_conf_reads:
  assumes "0x0a \<notin> set (sc_ap_interface c)" "0x0a \<notin> set (sc_ssid c)" "0x0a \<notin> set (sc_passphrase c)"
  shows "conf_read (hostapd_conf c) = hostapd_lines c \<and>
    map_of (conf_read (hostapd_conf c)) (bytes_of ''ssid'') = Some (sc_ssid c) \<and>
    map_of (conf_read (hostapd_conf c)) (bytes_of ''wpa_passphrase'') = Some (sc_passphrase c) \<and>
    map_of (conf_read (hostapd_conf c)) (bytes_of ''hw_mode'') = Some (if sc_channel c \<le> 14 then bytes_of ''g'' else bytes_of ''a'')"
proof -
  have "0x0a \<notin> set (dec (sc_channel c))" using dec_nat_digits [of "unat (sc_channel c)"]
    by (auto simp: dec_def is_digit_def list_all_iff)
  then have r: "conf_read (hostapd_conf c) = hostapd_lines c" unfolding hostapd_conf_def
    by (intro conf_read_pairs) (use assms in \<open>simp add: hostapd_lines_def bytes_of_def\<close>)
  show ?thesis unfolding r by (simp add: hostapd_lines_def bytes_of_def)
qed

lemma hostapd_conf_reads_witness:
  "map_of (conf_read (hostapd_conf (softap_config_init None None))) (bytes_of ''ssid'') = Some (bytes_of ''HUAWEI_PC'') \<and>
   map_of (conf_read (hostapd_conf (softap_config_init None None))) (bytes_of ''wpa_passphrase'') = Some []"
proof -
  let ?c = "softap_config_init None None"
  have "0x0a \<notin> set (sc_ap_interface ?c)" "0x0a \<notin> set (sc_ssid ?c)" "0x0a \<notin> set (sc_passphrase ?c)"
    by (simp_all add: softap_config_init_def bytes_of_def)
  note r = hostapd_conf_reads [OF this]
  have "sc_ssid ?c = bytes_of ''HUAWEI_PC''" "sc_passphrase ?c = []" by (simp_all add: softap_config_init_def)
  then show ?thesis using r by metis
qed

end
