(* ===== verification/P2pBackend.thy ===== *)
theory P2pBackend
  imports SoftapBackend
begin

text \<open>
  The P2P backend (\<open>src/transport/p2p_backend.c\<close>): its configuration file, starting and stopping of
  wpa_supplicant.
\<close>

record p2p_config =
  pc_ap_interface :: cstr
  pc_sta_interface :: cstr
  pc_phy_name :: cstr
  pc_wpa_supplicant_conf :: cstr
  pc_p2p_device_name :: cstr
  pc_channel :: u32

datatype p2p_out = PoSpawn "cstr list" | PoWrite cstr cstr | PoForceExit

record p2p =
  po_config :: p2p_config
  po_nl :: nl_handle
  po_proc :: bool
  po_state :: hw_state
  po_out :: "p2p_out list"

text \<open>The environment: whether the file can be written and wpa_supplicant be started.\<close>

record p2p_env =
  pe_write :: bool
  pe_spawn :: bool

text \<open>The names given to the factory are not used; \<open>g_object_new\<close> has run the instance initialiser.\<close>

definition p2p_backend_init :: "nl_handle \<Rightarrow> p2p" where
  "p2p_backend_init h =
     \<lparr>po_config = \<lparr>pc_ap_interface = bytes_of ''p2p-wlp1s0-0'', pc_sta_interface = bytes_of ''wlp1s0'', pc_phy_name = bytes_of ''phy0'',
        pc_wpa_supplicant_conf = bytes_of ''/etc/hwphonelink/wpa_supplicant_p2p.conf'', pc_p2p_device_name = bytes_of ''HUAWEI_PC_P2P'',
        pc_channel = HWPHONELINK_DEFAULT_CHANNEL\<rparr>,
      po_nl = h, po_proc = False, po_state = STOPPED, po_out = []\<rparr>"

definition p2p_backend_new :: "nl_env \<Rightarrow> cstr option \<Rightarrow> cstr option \<Rightarrow> p2p option" where
  "p2p_backend_new N phy_name sta_interface = map_option p2p_backend_init (nl_handle_new N)"

definition p2p_lines :: "p2p_config \<Rightarrow> (cstr \<times> cstr) list" where
  "p2p_lines c =
     [(bytes_of ''ctrl_interface'', bytes_of ''/run/wpa_supplicant''),
      (bytes_of ''ctrl_interface_group'', bytes_of ''wheel''),
      (bytes_of ''update_config'', bytes_of ''1''),
      (bytes_of ''device_name'', pc_p2p_device_name c),
      (bytes_of ''device_type'', bytes_of ''1-0050F204-1''),
      (bytes_of ''driver_param'', bytes_of ''use_p2p_group_interface=1''),
      (bytes_of ''p2p_go_intent'', bytes_of ''15''),
      (bytes_of ''p2p_go_ht40'', bytes_of ''1''),
      (bytes_of ''p2p_go_vht'', bytes_of ''1''),
      (bytes_of ''p2p_go_cc'', bytes_of ''40''),
      (bytes_of ''p2p_listen_reg_class'', bytes_of ''81''),
      (bytes_of ''p2p_listen_channel'', dec (pc_channel c)),
      (bytes_of ''p2p_oper_reg_class'', bytes_of ''81''),
      (bytes_of ''p2p_oper_channel'', dec (pc_channel c)),
      (bytes_of ''p2p_pref_chan'', dec (pc_channel c)),
      (bytes_of ''p2p_go_max_inactivity'', bytes_of ''300''),
      (bytes_of ''p2p_passphrase_len'', bytes_of ''8'')]"

definition p2p_conf :: "p2p_config \<Rightarrow> cstr" where
  "p2p_conf c = concat (map conf_pair (p2p_lines c))"

definition p2p_emit :: "p2p_out \<Rightarrow> p2p \<Rightarrow> p2p" where
  "p2p_emit x p = p\<lparr>po_out := po_out p @ [x]\<rparr>"

definition p2p_argv :: "p2p_config \<Rightarrow> cstr list" where
  "p2p_argv c = [bytes_of ''wpa_supplicant'', bytes_of ''-i'', pc_ap_interface c, bytes_of ''-c'', pc_wpa_supplicant_conf c,
     bytes_of ''-D'', bytes_of ''nl80211'', bytes_of ''-B'']"

definition p2p_backend_start :: "p2p_env \<Rightarrow> p2p \<Rightarrow> p2p \<times> bool \<times> bool" where
  "p2p_backend_start E p =
     (if po_state p \<noteq> STOPPED then (p, False, True)
      else
        let c = po_config p;
            p = p2p_emit (PoWrite (pc_wpa_supplicant_conf c) (p2p_conf c)) (p\<lparr>po_state := STARTING\<rparr>)
        in if \<not> pe_write E then (p, False, True)
           else
             let p = p2p_emit (PoSpawn (p2p_argv c)) p
             in if \<not> pe_spawn E then (p, False, True)
                else (p\<lparr>po_proc := True, po_state := RUNNING\<rparr>, True, False))"

definition p2p_backend_stop :: "p2p_env \<Rightarrow> p2p \<Rightarrow> p2p" where
  "p2p_backend_stop E p =
     (if po_state p = STOPPED then p
      else
        let p = (if po_proc p then (p2p_emit PoForceExit p)\<lparr>po_proc := False\<rparr> else p)
        in p\<lparr>po_state := STOPPED\<rparr>)"

text \<open>A supplicant is kept exactly while the backend runs.\<close>

definition p2p_inv :: "p2p \<Rightarrow> bool" where
  "p2p_inv p \<longleftrightarrow> po_state p \<in> {STOPPED, STARTING, RUNNING} \<and> (po_proc p \<longleftrightarrow> po_state p = RUNNING)"

interpretation p2p: transport p2p_backend_start p2p_backend_stop po_state p2p_inv
  by unfold_locales
    (auto simp: p2p_backend_start_def p2p_backend_stop_def p2p_inv_def p2p_emit_def Let_def split: if_splits)

lemma p2p_conf_reads:
  assumes "0x0a \<notin> set (pc_p2p_device_name c)"
  shows "conf_read (p2p_conf c) = p2p_lines c"
proof -
  have "0x0a \<notin> set (dec (pc_channel c))" using dec_nat_digits [of "unat (pc_channel c)"]
    by (auto simp: dec_def is_digit_def list_all_iff)
  then show ?thesis unfolding p2p_conf_def
    by (intro conf_read_pairs) (use assms in \<open>simp add: p2p_lines_def bytes_of_def\<close>)
qed

end
