(* ===== verification/InfraBackend.thy ===== *)
theory InfraBackend
  imports WifiTransport NetlinkUtils
begin

text \<open>
  The LAN backend (\<open>src/transport/infra_backend.c\<close>): its workers, sockets and sessions.

  A session is a number.  Besides the fields of the private structure the state says which sessions' pumps still run
  (\<open>in_live\<close>), which have their closed callback (\<open>in_cbs\<close>) and for which the backend still owns its
  reference (\<open>in_refs\<close>).  The accept worker is modelled step by step (\<open>in_pc\<close>), because a pump runs
  from the moment its session is made and may end between any two of these steps.
\<close>

datatype infra_out =
    InChanged hw_state hw_state
  | InClientConnected "cstr option"
  | InSessionOpened nat "cstr option"
  | InSessionClosed nat
  | InJoinDiscovery bool
  | InJoinAccept bool

text \<open>Where the accept worker is: waiting, or between making a session and announcing it.\<close>

datatype accept_pc = AcWait | AcNew nat "cstr option" | AcCallback nat "cstr option" | AcListed nat "cstr option"

record infra =
  in_interface :: cstr
  in_local_ip :: cstr
  in_nl_handle :: "nl_handle option"
  in_tcp_listener :: bool
  in_coap_socket :: bool
  in_worker_cancel :: "bool option"
  in_discovery_thread :: bool
  in_accept_thread :: bool
  in_running :: bool
  in_state :: hw_state
  in_sessions :: "nat list"
  in_live :: "nat list"
  in_cbs :: "nat list"
  in_refs :: "nat list"
  in_next :: nat
  in_pc :: accept_pc
  in_out :: "infra_out list"

record infra_env =
  ie_ifindex :: int
  ie_ip :: "cstr option"
  ie_socket :: bool
  ie_bind :: bool
  ie_membership :: bool
  ie_discovery_thread :: bool
  ie_listen :: bool
  ie_accept_thread :: bool

definition in_emit :: "infra_out \<Rightarrow> infra \<Rightarrow> infra" where
  "in_emit x s = s\<lparr>in_out := in_out s @ [x]\<rparr>"

text \<open>The factory: a netlink handle that cannot be made does not matter.\<close>

definition infra_backend_new :: "nl_env \<Rightarrow> cstr option \<Rightarrow> infra" where
  "infra_backend_new N interface =
     \<lparr>in_interface = (case interface of Some i \<Rightarrow> if i \<noteq> [] then i else bytes_of ''wlp1s0'' | None \<Rightarrow> bytes_of ''wlp1s0''),
      in_local_ip = [], in_nl_handle = nl_handle_new N, in_tcp_listener = False, in_coap_socket = False, in_worker_cancel = None,
      in_discovery_thread = False, in_accept_thread = False, in_running = False, in_state = STOPPED,
      in_sessions = [], in_live = [], in_cbs = [], in_refs = [], in_next = 0, in_pc = AcWait, in_out = []\<rparr>"

definition infra_set_state :: "hw_state \<Rightarrow> infra \<Rightarrow> infra" where
  "infra_set_state new s = (if in_state s \<noteq> new then in_emit (InChanged (in_state s) new) (s\<lparr>in_state := new\<rparr>) else s)"

section \<open>Sessions\<close>

definition on_infra_session_closed :: "nat \<Rightarrow> infra \<Rightarrow> infra" where
  "on_infra_session_closed i s =
     (let s = (if i \<in> set (in_sessions s) then s\<lparr>in_sessions := remove1 i (in_sessions s), in_refs := remove1 i (in_refs s)\<rparr> else s)
      in in_emit (InSessionClosed i) s)"

text \<open>A pump ends, because the peer is gone or because it is stopped: it calls the closed callback, if there is one yet.\<close>

definition infra_pump_end :: "nat \<Rightarrow> infra \<Rightarrow> infra" where
  "infra_pump_end i s =
     (if i \<in> set (in_live s) then
        let s = s\<lparr>in_live := remove1 i (in_live s)\<rparr>
        in if i \<in> set (in_cbs s) then on_infra_session_closed i s else s
      else s)"

text \<open>One step of the accept worker that is in the middle of an iteration.\<close>

definition infra_accept_step :: "infra \<Rightarrow> infra" where
  "infra_accept_step s =
     (case in_pc s of
        AcWait \<Rightarrow> s
      | AcNew i ip \<Rightarrow> s\<lparr>in_cbs := i # in_cbs s, in_pc := AcCallback i ip\<rparr>
      | AcCallback i ip \<Rightarrow> s\<lparr>in_sessions := in_sessions s @ [i], in_pc := AcListed i ip\<rparr>
      | AcListed i ip \<Rightarrow> in_emit (InSessionOpened i ip) (in_emit (InClientConnected ip) (s\<lparr>in_pc := AcWait\<rparr>)))"

text \<open>A connection is accepted: a session is made, which is alive at once, or it cannot be made and is dropped.\<close>

definition infra_accept :: "cstr option \<Rightarrow> bool \<Rightarrow> infra \<Rightarrow> infra" where
  "infra_accept ip made s =
     (if in_accept_thread s \<and> in_running s \<and> in_pc s = AcWait \<and> made then
        s\<lparr>in_live := in_next s # in_live s, in_refs := in_next s # in_refs s, in_next := Suc (in_next s), in_pc := AcNew (in_next s) ip\<rparr>
      else s)"

definition infra_accept_finish :: "infra \<Rightarrow> infra" where
  "infra_accept_finish s = infra_accept_step (infra_accept_step (infra_accept_step s))"

section \<open>Workers\<close>

definition infra_stop_listeners :: "infra \<Rightarrow> infra" where
  "infra_stop_listeners s =
     (let s = s\<lparr>in_running := False, in_worker_cancel := map_option (\<lambda>_. True) (in_worker_cancel s)\<rparr>;
          c = (in_worker_cancel s = Some True);
          s = (if in_discovery_thread s then (in_emit (InJoinDiscovery c) s)\<lparr>in_discovery_thread := False\<rparr> else s);
          s = (if in_accept_thread s then (in_emit (InJoinAccept c) (infra_accept_finish s))\<lparr>in_accept_thread := False\<rparr> else s)
      in s\<lparr>in_coap_socket := False, in_worker_cancel := None\<rparr>)"

definition infra_start_coap_listener :: "infra_env \<Rightarrow> infra \<Rightarrow> infra \<times> bool" where
  "infra_start_coap_listener E s =
     (if \<not> ie_socket E then (s\<lparr>in_coap_socket := False\<rparr>, False)
      else
        let s = s\<lparr>in_coap_socket := True\<rparr>
        in if \<not> ie_bind E then (s, False)
           else if \<not> ie_membership E then (s, False)
           else if \<not> ie_discovery_thread E then (s\<lparr>in_running := False, in_discovery_thread := False\<rparr>, False)
           else (s\<lparr>in_running := True, in_discovery_thread := True\<rparr>, True))"

definition infra_start_tcp_listener :: "infra_env \<Rightarrow> infra \<Rightarrow> infra \<times> bool" where
  "infra_start_tcp_listener E s =
     (if \<not> ie_listen E then (s\<lparr>in_tcp_listener := False\<rparr>, False)
      else if \<not> ie_accept_thread E then (s\<lparr>in_accept_thread := False, in_tcp_listener := False, in_worker_cancel := None\<rparr>, False)
      else (s\<lparr>in_tcp_listener := True, in_accept_thread := True, in_pc := AcWait\<rparr>, True))"

definition infra_backend_start :: "infra_env \<Rightarrow> infra \<Rightarrow> infra \<times> bool \<times> bool" where
  "infra_backend_start E s =
     (if in_state s \<noteq> STOPPED then (s, False, True)
      else
        let s = s\<lparr>in_state := STARTING, in_worker_cancel := Some False\<rparr>
        in if ie_ifindex E \<le> 0 then (infra_set_state STATE_ERROR (s\<lparr>in_worker_cancel := None\<rparr>), False, True)
        else let s = (case ie_ip E of Some ip \<Rightarrow> s\<lparr>in_local_ip := ip\<rparr> | None \<Rightarrow> s)
        in if in_local_ip s = [] then (infra_set_state STATE_ERROR (s\<lparr>in_worker_cancel := None\<rparr>), False, True)
        else let (s, ok) = infra_start_coap_listener E s
        in if \<not> ok then (infra_set_state STATE_ERROR s, False, True)
        else let (s, ok) = infra_start_tcp_listener E s
        in if \<not> ok then (infra_set_state STATE_ERROR (infra_stop_listeners s), False, True)
        else (infra_set_state RUNNING s, True, False))"

text \<open>The list is copied and cleared, then every session of the copy is stopped.\<close>

definition infra_backend_stop :: "infra_env \<Rightarrow> infra \<Rightarrow> infra" where
  "infra_backend_stop E s =
     (if in_state s = STOPPED then s
      else
        let s = infra_stop_listeners (infra_set_state STOPPING s);
            s = s\<lparr>in_tcp_listener := False\<rparr>;
            sessions = in_sessions s;
            s = fold infra_pump_end sessions (s\<lparr>in_sessions := []\<rparr>)
        in infra_set_state STOPPED s)"

text \<open>Finalizing takes the list over and drops the references in it.\<close>

definition infra_release_sessions :: "infra \<Rightarrow> infra" where
  "infra_release_sessions s =
     fold (\<lambda>i s. (infra_pump_end i s)\<lparr>in_refs := remove1 i (in_refs (infra_pump_end i s))\<rparr>) (in_sessions s) (s\<lparr>in_sessions := []\<rparr>)"

definition infra_backend_finalize :: "infra \<Rightarrow> infra" where
  "infra_backend_finalize s = infra_release_sessions (if in_running s then infra_stop_listeners s else s)"

section \<open>Runs\<close>

datatype infra_event = InStart infra_env | InStop infra_env | InAccept "cstr option" bool | InAcceptStep | InPeerGone nat

definition infra_step :: "infra_event \<Rightarrow> infra \<Rightarrow> infra" where
  "infra_step e s =
     (case e of
        InStart E \<Rightarrow> fst (infra_backend_start E s)
      | InStop E \<Rightarrow> infra_backend_stop E s
      | InAccept ip made \<Rightarrow> infra_accept ip made s
      | InAcceptStep \<Rightarrow> infra_accept_step s
      | InPeerGone i \<Rightarrow> infra_pump_end i s)"

definition infra_run :: "infra_event list \<Rightarrow> infra \<Rightarrow> infra" where
  "infra_run es s = fold infra_step es s"

section \<open>Invariants\<close>

definition closed_count :: "nat \<Rightarrow> infra \<Rightarrow> nat" where
  "closed_count i s = count_list (in_out s) (InSessionClosed i)"

text \<open>The session that is made but not listed yet.\<close>

fun pc_pending :: "accept_pc \<Rightarrow> nat set" where
  "pc_pending (AcNew i _) = {i}"
| "pc_pending (AcCallback i _) = {i}"
| "pc_pending _ = {}"

text \<open>The bookkeeping of the sessions.\<close>

definition sess_inv :: "infra \<Rightarrow> bool" where
  "sess_inv s \<longleftrightarrow>
     distinct (in_live s) \<and> distinct (in_refs s) \<and> distinct (in_sessions s) \<and>
     set (in_sessions s) \<subseteq> set (in_refs s) \<inter> set (in_cbs s) \<and>
     set (in_live s) \<union> set (in_refs s) \<union> set (in_cbs s) \<subseteq> {..<in_next s} \<and>
     pc_pending (in_pc s) \<subseteq> set (in_refs s) - set (in_sessions s) \<and>
     (\<forall>i ip. in_pc s = AcNew i ip \<longrightarrow> i \<notin> set (in_cbs s)) \<and>
     (\<forall>i ip. in_pc s = AcCallback i ip \<longrightarrow> i \<in> set (in_cbs s)) \<and>
     (\<forall>i. i \<in> set (in_live s) \<or> i \<notin> set (in_cbs s) \<longrightarrow> closed_count i s = 0) \<and>
     (\<forall>i. closed_count i s \<le> 1)"

definition live_inv :: "infra \<Rightarrow> bool" where
  "live_inv s \<longleftrightarrow> set (in_live s) \<subseteq> set (in_sessions s) \<union> pc_pending (in_pc s)"

text \<open>Workers, sockets and state belong together.\<close>

definition work_inv :: "infra \<Rightarrow> bool" where
  "work_inv s \<longleftrightarrow>
     (case in_state s of
        RUNNING \<Rightarrow> in_running s \<and> in_discovery_thread s \<and> in_accept_thread s \<and> in_coap_socket s \<and> in_tcp_listener s \<and>
          in_worker_cancel s = Some False
      | STOPPED \<Rightarrow> \<not> in_running s \<and> \<not> in_discovery_thread s \<and> \<not> in_accept_thread s \<and> \<not> in_coap_socket s \<and> \<not> in_tcp_listener s \<and>
          in_worker_cancel s = None \<and> in_sessions s = [] \<and> in_pc s = AcWait
      | STATE_ERROR \<Rightarrow> \<not> in_running s \<and> \<not> in_discovery_thread s \<and> \<not> in_accept_thread s \<and> \<not> in_tcp_listener s \<and>
          in_sessions s = [] \<and> in_pc s = AcWait
      | _ \<Rightarrow> False)"

definition infra_inv :: "infra \<Rightarrow> bool" where
  "infra_inv s \<longleftrightarrow> sess_inv s \<and> live_inv s \<and> work_inv s"

lemma infra_inv_new: "infra_inv (infra_backend_new N i)"
  by (simp add: infra_inv_def sess_inv_def live_inv_def work_inv_def infra_backend_new_def closed_count_def)

lemma in_emit_simps [simp]:
  "in_live (in_emit x s) = in_live s" "in_refs (in_emit x s) = in_refs s" "in_sessions (in_emit x s) = in_sessions s"
  "in_cbs (in_emit x s) = in_cbs s" "in_next (in_emit x s) = in_next s" "in_pc (in_emit x s) = in_pc s"
  "in_state (in_emit x s) = in_state s" "in_running (in_emit x s) = in_running s" "in_out (in_emit x s) = in_out s @ [x]"
  "in_discovery_thread (in_emit x s) = in_discovery_thread s" "in_accept_thread (in_emit x s) = in_accept_thread s"
  "in_coap_socket (in_emit x s) = in_coap_socket s" "in_tcp_listener (in_emit x s) = in_tcp_listener s"
  "in_worker_cancel (in_emit x s) = in_worker_cancel s" "in_local_ip (in_emit x s) = in_local_ip s"
  by (simp_all add: in_emit_def)

lemma closed_count_emit [simp]:
  "closed_count i (in_emit x s) = closed_count i s + (if x = InSessionClosed i then 1 else 0)"
  by (simp add: closed_count_def)

lemma closed_count_same [simp]:
  "closed_count i (s\<lparr>in_live := a\<rparr>) = closed_count i s" "closed_count i (s\<lparr>in_refs := a\<rparr>) = closed_count i s"
  "closed_count i (s\<lparr>in_sessions := a\<rparr>) = closed_count i s" "closed_count i (s\<lparr>in_cbs := a\<rparr>) = closed_count i s"
  "closed_count i (s\<lparr>in_next := n\<rparr>) = closed_count i s" "closed_count i (s\<lparr>in_pc := p\<rparr>) = closed_count i s"
  by (simp_all add: closed_count_def)

lemma set_state_simps [simp]:
  "in_live (infra_set_state st s) = in_live s" "in_refs (infra_set_state st s) = in_refs s" "in_sessions (infra_set_state st s) = in_sessions s"
  "in_cbs (infra_set_state st s) = in_cbs s" "in_next (infra_set_state st s) = in_next s" "in_pc (infra_set_state st s) = in_pc s"
  "in_state (infra_set_state st s) = st" "in_running (infra_set_state st s) = in_running s"
  "in_discovery_thread (infra_set_state st s) = in_discovery_thread s" "in_accept_thread (infra_set_state st s) = in_accept_thread s"
  "in_coap_socket (infra_set_state st s) = in_coap_socket s" "in_tcp_listener (infra_set_state st s) = in_tcp_listener s"
  "in_worker_cancel (infra_set_state st s) = in_worker_cancel s" "closed_count i (infra_set_state st s) = closed_count i s"
  by (simp_all add: infra_set_state_def) (simp_all add: closed_count_def)

lemma sess_live_state [simp]:
  "sess_inv (infra_set_state st s) = sess_inv s" "live_inv (infra_set_state st s) = live_inv s"
  by (simp_all add: sess_inv_def live_inv_def)

lemma sess_inv_pump_end:
  assumes "sess_inv s"
  shows "sess_inv (infra_pump_end i s)"
proof (cases "i \<in> set (in_live s)")
  case True
  let ?s = "s\<lparr>in_live := remove1 i (in_live s)\<rparr>"
  let ?t = "?s\<lparr>in_sessions := remove1 i (in_sessions s), in_refs := remove1 i (in_refs s)\<rparr>"
  have live: "set (in_live ?s) = set (in_live s) - {i}" using assms by (simp add: sess_inv_def)
  have z: "closed_count i s = 0" using assms True unfolding sess_inv_def by metis
  consider "i \<notin> set (in_cbs s)" | "i \<in> set (in_cbs s)" "i \<in> set (in_sessions s)" | "i \<in> set (in_cbs s)" "i \<notin> set (in_sessions s)"
    by blast
  then show ?thesis
  proof cases
    case 1
    then have "infra_pump_end i s = ?s" using True by (simp add: infra_pump_end_def)
    moreover have "sess_inv ?s" using assms live unfolding sess_inv_def by (auto simp: distinct_remove1)
    ultimately show ?thesis by simp
  next
    case 2
    then have "infra_pump_end i s = in_emit (InSessionClosed i) ?t"
      using True by (simp add: infra_pump_end_def on_infra_session_closed_def)
    moreover have "sess_inv (in_emit (InSessionClosed i) ?t)"
      using assms 2 live z unfolding sess_inv_def by (auto simp: distinct_remove1)
    ultimately show ?thesis by simp
  next
    case 3
    then have "infra_pump_end i s = in_emit (InSessionClosed i) ?s"
      using True by (simp add: infra_pump_end_def on_infra_session_closed_def)
    moreover have "sess_inv (in_emit (InSessionClosed i) ?s)"
      using assms 3 live z unfolding sess_inv_def by (auto simp: distinct_remove1)
    ultimately show ?thesis by simp
  qed
qed (use assms in \<open>simp add: infra_pump_end_def\<close>)

lemma sess_inv_accept_step: "sess_inv s \<Longrightarrow> sess_inv (infra_accept_step s)"
  unfolding sess_inv_def infra_accept_step_def by (cases "in_pc s") auto

lemma live_inv_accept_step: "live_inv s \<Longrightarrow> live_inv (infra_accept_step s)"
  unfolding live_inv_def infra_accept_step_def by (cases "in_pc s") auto

lemma sess_inv_accept: "sess_inv s \<Longrightarrow> sess_inv (infra_accept ip made s)"
proof (cases "in_accept_thread s \<and> in_running s \<and> in_pc s = AcWait \<and> made")
  case True
  assume s: "sess_inv s"
  then have "in_next s \<notin> set (in_live s)" "in_next s \<notin> set (in_refs s)" "in_next s \<notin> set (in_cbs s)" "in_next s \<notin> set (in_sessions s)"
    unfolding sess_inv_def by (auto dest: subsetD)
  then show ?thesis using s True unfolding sess_inv_def infra_accept_def by (auto simp: less_Suc_eq dest: subsetD)
qed (auto simp: infra_accept_def)

lemma live_inv_accept: "live_inv s \<Longrightarrow> live_inv (infra_accept ip made s)"
  by (auto simp: live_inv_def infra_accept_def)

lemma live_inv_pump_end:
  assumes "sess_inv s" "live_inv s"
  shows "live_inv (infra_pump_end i s)"
  using assms by (auto simp: live_inv_def sess_inv_def infra_pump_end_def on_infra_session_closed_def Let_def)

lemma pump_end_work [simp]:
  "in_state (infra_pump_end i s) = in_state s" "in_running (infra_pump_end i s) = in_running s" "in_pc (infra_pump_end i s) = in_pc s"
  "in_discovery_thread (infra_pump_end i s) = in_discovery_thread s" "in_accept_thread (infra_pump_end i s) = in_accept_thread s"
  "in_coap_socket (infra_pump_end i s) = in_coap_socket s" "in_tcp_listener (infra_pump_end i s) = in_tcp_listener s"
  "in_worker_cancel (infra_pump_end i s) = in_worker_cancel s"
  "in_cbs (infra_pump_end i s) = in_cbs s" "in_next (infra_pump_end i s) = in_next s"
  "in_sessions s = [] \<Longrightarrow> in_sessions (infra_pump_end i s) = []"
  by (simp_all add: infra_pump_end_def on_infra_session_closed_def Let_def)

lemma pump_ends_work [simp]:
  "in_state (fold infra_pump_end js s) = in_state s" "in_running (fold infra_pump_end js s) = in_running s"
  "in_pc (fold infra_pump_end js s) = in_pc s" "in_cbs (fold infra_pump_end js s) = in_cbs s"
  "in_discovery_thread (fold infra_pump_end js s) = in_discovery_thread s" "in_accept_thread (fold infra_pump_end js s) = in_accept_thread s"
  "in_coap_socket (fold infra_pump_end js s) = in_coap_socket s" "in_tcp_listener (fold infra_pump_end js s) = in_tcp_listener s"
  "in_worker_cancel (fold infra_pump_end js s) = in_worker_cancel s"
  "in_sessions s = [] \<Longrightarrow> in_sessions (fold infra_pump_end js s) = []"
  by (induction js arbitrary: s) simp_all

lemma pump_ends_sess: "sess_inv s \<Longrightarrow> sess_inv (fold infra_pump_end js s)"
  by (induction js arbitrary: s) (simp_all add: sess_inv_pump_end)

lemma pump_end_live: "distinct (in_live s) \<Longrightarrow> set (in_live (infra_pump_end i s)) = set (in_live s) - {i} \<and> distinct (in_live (infra_pump_end i s))"
  by (auto simp: infra_pump_end_def on_infra_session_closed_def Let_def)

lemma pump_ends_live: "distinct (in_live s) \<Longrightarrow> set (in_live (fold infra_pump_end js s)) = set (in_live s) - set js"
  by (induction js arbitrary: s) (auto simp: pump_end_live)

text \<open>After the workers are stopped: everything listed, nothing pending.\<close>

lemma accept_step_work [simp]:
  "in_state (infra_accept_step s) = in_state s" "in_running (infra_accept_step s) = in_running s"
  "in_discovery_thread (infra_accept_step s) = in_discovery_thread s" "in_accept_thread (infra_accept_step s) = in_accept_thread s"
  "in_coap_socket (infra_accept_step s) = in_coap_socket s" "in_tcp_listener (infra_accept_step s) = in_tcp_listener s"
  "in_worker_cancel (infra_accept_step s) = in_worker_cancel s" "in_live (infra_accept_step s) = in_live s"
  "in_refs (infra_accept_step s) = in_refs s" "in_next (infra_accept_step s) = in_next s"
  by (simp_all add: infra_accept_step_def split: accept_pc.split)

lemma accept_finish_wait [simp]: "in_pc (infra_accept_finish s) = AcWait"
  by (cases "in_pc s") (simp_all add: infra_accept_finish_def infra_accept_step_def)

lemma accept_finish_work [simp]:
  "in_state (infra_accept_finish s) = in_state s" "in_running (infra_accept_finish s) = in_running s"
  "in_discovery_thread (infra_accept_finish s) = in_discovery_thread s" "in_accept_thread (infra_accept_finish s) = in_accept_thread s"
  "in_tcp_listener (infra_accept_finish s) = in_tcp_listener s" "in_live (infra_accept_finish s) = in_live s"
  "in_refs (infra_accept_finish s) = in_refs s" "in_next (infra_accept_finish s) = in_next s"
  by (simp_all add: infra_accept_finish_def)

lemma sess_inv_accept_finish: "sess_inv s \<Longrightarrow> sess_inv (infra_accept_finish s)"
  by (simp add: infra_accept_finish_def sess_inv_accept_step)

lemma live_inv_accept_finish: "live_inv s \<Longrightarrow> live_inv (infra_accept_finish s)"
  by (simp add: infra_accept_finish_def live_inv_accept_step)

lemma sess_inv_same [simp]:
  "sess_inv (s\<lparr>in_running := b\<rparr>) = sess_inv s" "sess_inv (s\<lparr>in_worker_cancel := c\<rparr>) = sess_inv s"
  "sess_inv (s\<lparr>in_discovery_thread := b\<rparr>) = sess_inv s" "sess_inv (s\<lparr>in_accept_thread := b\<rparr>) = sess_inv s"
  "sess_inv (s\<lparr>in_coap_socket := b\<rparr>) = sess_inv s" "sess_inv (s\<lparr>in_tcp_listener := b\<rparr>) = sess_inv s"
  "sess_inv (s\<lparr>in_state := st\<rparr>) = sess_inv s" "sess_inv (s\<lparr>in_local_ip := ip\<rparr>) = sess_inv s"
  "sess_inv (in_emit (InJoinDiscovery b) s) = sess_inv s" "sess_inv (in_emit (InJoinAccept b) s) = sess_inv s"
  by (simp_all add: sess_inv_def) (simp_all add: closed_count_def)

lemma live_inv_same [simp]:
  "live_inv (s\<lparr>in_running := b\<rparr>) = live_inv s" "live_inv (s\<lparr>in_worker_cancel := c\<rparr>) = live_inv s"
  "live_inv (s\<lparr>in_discovery_thread := b\<rparr>) = live_inv s" "live_inv (s\<lparr>in_accept_thread := b\<rparr>) = live_inv s"
  "live_inv (s\<lparr>in_coap_socket := b\<rparr>) = live_inv s" "live_inv (s\<lparr>in_tcp_listener := b\<rparr>) = live_inv s"
  "live_inv (s\<lparr>in_state := st\<rparr>) = live_inv s" "live_inv (s\<lparr>in_local_ip := ip\<rparr>) = live_inv s"
  "live_inv (in_emit x s) = live_inv s"
  by (simp_all add: live_inv_def)

lemma stop_listeners:
  assumes "sess_inv s" "live_inv s" "in_accept_thread s \<or> in_pc s = AcWait"
  shows "sess_inv (infra_stop_listeners s)" "live_inv (infra_stop_listeners s)" "in_pc (infra_stop_listeners s) = AcWait"
    "in_refs (infra_stop_listeners s) = in_refs s" "in_live (infra_stop_listeners s) = in_live s"
    "in_next (infra_stop_listeners s) = in_next s"
  using assms by (auto simp: infra_stop_listeners_def Let_def sess_inv_accept_finish live_inv_accept_finish)

lemma stop_listeners_work [simp]:
  "\<not> in_running (infra_stop_listeners s)" "\<not> in_discovery_thread (infra_stop_listeners s)" "\<not> in_accept_thread (infra_stop_listeners s)"
  "\<not> in_coap_socket (infra_stop_listeners s)" "in_worker_cancel (infra_stop_listeners s) = None"
  "in_state (infra_stop_listeners s) = in_state s" "in_tcp_listener (infra_stop_listeners s) = in_tcp_listener s"
  by (simp_all add: infra_stop_listeners_def Let_def)

lemma stop_listeners_idle: "\<not> in_accept_thread s \<Longrightarrow> in_sessions (infra_stop_listeners s) = in_sessions s"
  by (simp add: infra_stop_listeners_def Let_def)

lemma work_inv_pc: "work_inv s \<Longrightarrow> in_accept_thread s \<or> in_pc s = AcWait"
  by (simp add: work_inv_def split: hw_state.splits)

lemma infra_stop_result:
  assumes "infra_inv s"
  shows "infra_inv (infra_backend_stop E s)" "in_state (infra_backend_stop E s) = STOPPED" "in_live (infra_backend_stop E s) = []"
proof -
  have "infra_inv (infra_backend_stop E s) \<and> in_state (infra_backend_stop E s) = STOPPED \<and> in_live (infra_backend_stop E s) = []"
  proof (cases "in_state s = STOPPED")
    case True
    then show ?thesis using assms by (auto simp: infra_backend_stop_def infra_inv_def work_inv_def live_inv_def)
  next
    case False
    let ?a = "infra_stop_listeners (infra_set_state STOPPING s)"
    let ?b = "?a\<lparr>in_tcp_listener := False, in_sessions := []\<rparr>"
    let ?c = "fold infra_pump_end (in_sessions ?a) ?b"
    have s: "sess_inv (infra_set_state STOPPING s)" "live_inv (infra_set_state STOPPING s)"
      "in_accept_thread (infra_set_state STOPPING s) \<or> in_pc (infra_set_state STOPPING s) = AcWait"
      using assms work_inv_pc [of s] by (simp_all add: infra_inv_def)
    note a = stop_listeners [OF s]
    have "sess_inv ?b" using a(1,3) unfolding sess_inv_def by (auto simp: closed_count_def)
    then have c: "sess_inv ?c" by (rule pump_ends_sess)
    have "set (in_live ?b) \<subseteq> set (in_sessions ?a)" using a(2,3) by (simp add: live_inv_def)
    moreover have "set (in_live ?c) = set (in_live ?b) - set (in_sessions ?a)"
      by (rule pump_ends_live, rule \<open>sess_inv ?b\<close> [unfolded sess_inv_def, THEN conjunct1])
    ultimately have "set (in_live ?c) = {}" by (simp only: Diff_eq_empty_iff)
    then have "in_live ?c = []" by simp
    moreover have "infra_backend_stop E s = infra_set_state STOPPED ?c" using False by (simp add: infra_backend_stop_def Let_def)
    ultimately show ?thesis using c a(3) by (simp add: infra_inv_def live_inv_def work_inv_def)
  qed
  then show "infra_inv (infra_backend_stop E s)" "in_state (infra_backend_stop E s) = STOPPED" "in_live (infra_backend_stop E s) = []"
    by simp_all
qed

lemma start_coap [simp]:
  "sess_inv (fst (infra_start_coap_listener E s)) = sess_inv s" "live_inv (fst (infra_start_coap_listener E s)) = live_inv s"
  "in_pc (fst (infra_start_coap_listener E s)) = in_pc s" "in_sessions (fst (infra_start_coap_listener E s)) = in_sessions s"
  "in_accept_thread (fst (infra_start_coap_listener E s)) = in_accept_thread s"
  "in_tcp_listener (fst (infra_start_coap_listener E s)) = in_tcp_listener s"
  "in_worker_cancel (fst (infra_start_coap_listener E s)) = in_worker_cancel s"
  by (simp_all add: infra_start_coap_listener_def Let_def)

lemma start_coap_ok:
  "snd (infra_start_coap_listener E s) \<Longrightarrow>
     in_running (fst (infra_start_coap_listener E s)) \<and> in_discovery_thread (fst (infra_start_coap_listener E s)) \<and>
     in_coap_socket (fst (infra_start_coap_listener E s))"
  "\<not> snd (infra_start_coap_listener E s) \<Longrightarrow> \<not> in_running s \<Longrightarrow> \<not> in_discovery_thread s \<Longrightarrow>
     \<not> in_running (fst (infra_start_coap_listener E s)) \<and> \<not> in_discovery_thread (fst (infra_start_coap_listener E s))"
  by (simp_all add: infra_start_coap_listener_def Let_def split: if_splits)

lemma start_tcp:
  assumes "in_pc s = AcWait"
  shows "sess_inv (fst (infra_start_tcp_listener E s)) = sess_inv s" "live_inv (fst (infra_start_tcp_listener E s)) = live_inv s"
    "in_pc (fst (infra_start_tcp_listener E s)) = AcWait" "in_sessions (fst (infra_start_tcp_listener E s)) = in_sessions s"
    "in_running (fst (infra_start_tcp_listener E s)) = in_running s"
    "in_discovery_thread (fst (infra_start_tcp_listener E s)) = in_discovery_thread s"
    "in_coap_socket (fst (infra_start_tcp_listener E s)) = in_coap_socket s"
    "snd (infra_start_tcp_listener E s) \<Longrightarrow> in_worker_cancel (fst (infra_start_tcp_listener E s)) = in_worker_cancel s"
    "\<not> in_accept_thread s \<Longrightarrow> in_accept_thread (fst (infra_start_tcp_listener E s)) = snd (infra_start_tcp_listener E s)"
    "\<not> in_tcp_listener s \<Longrightarrow> in_tcp_listener (fst (infra_start_tcp_listener E s)) = snd (infra_start_tcp_listener E s)"
proof -
  have w: "s\<lparr>in_pc := AcWait\<rparr> = s" using assms by simp
  have "sess_inv (s\<lparr>in_pc := AcWait\<rparr>) = sess_inv s" "live_inv (s\<lparr>in_pc := AcWait\<rparr>) = live_inv s" unfolding w by simp_all
  moreover have "sess_inv (s\<lparr>in_tcp_listener := True, in_accept_thread := True, in_pc := AcWait\<rparr>) = sess_inv (s\<lparr>in_pc := AcWait\<rparr>)"
    "live_inv (s\<lparr>in_tcp_listener := True, in_accept_thread := True, in_pc := AcWait\<rparr>) = live_inv (s\<lparr>in_pc := AcWait\<rparr>)"
    by (simp_all add: sess_inv_def live_inv_def closed_count_def)
  ultimately show "sess_inv (fst (infra_start_tcp_listener E s)) = sess_inv s" "live_inv (fst (infra_start_tcp_listener E s)) = live_inv s"
    by (simp_all add: infra_start_tcp_listener_def)
qed (use assms in \<open>simp_all add: infra_start_tcp_listener_def split: if_splits\<close>)

lemma infra_start_result:
  assumes "infra_inv s" "in_state s = STOPPED"
  shows "infra_inv (fst (infra_backend_start E s)) \<and>
    in_state (fst (infra_backend_start E s)) = (if fst (snd (infra_backend_start E s)) then RUNNING else STATE_ERROR)"
proof -
  have s: "sess_inv s" "live_inv s" "work_inv s" using assms(1) by (simp_all add: infra_inv_def)
  define s1 where "s1 = s\<lparr>in_state := STARTING, in_worker_cancel := Some False\<rparr>"
  define s2 where "s2 = (case ie_ip E of Some ip \<Rightarrow> s1\<lparr>in_local_ip := ip\<rparr> | None \<Rightarrow> s1)"
  define s3 where "s3 = fst (infra_start_coap_listener E s2)"
  define s4 where "s4 = fst (infra_start_tcp_listener E s3)"
  define ok3 ok4 where "ok3 = snd (infra_start_coap_listener E s2)" and "ok4 = snd (infra_start_tcp_listener E s3)"
  have r: "infra_backend_start E s =
    (if ie_ifindex E \<le> 0 then (infra_set_state STATE_ERROR (s1\<lparr>in_worker_cancel := None\<rparr>), False, True)
     else if in_local_ip s2 = [] then (infra_set_state STATE_ERROR (s2\<lparr>in_worker_cancel := None\<rparr>), False, True)
     else if \<not> ok3 then (infra_set_state STATE_ERROR s3, False, True)
     else if \<not> ok4 then (infra_set_state STATE_ERROR (infra_stop_listeners s4), False, True)
     else (infra_set_state RUNNING s4, True, False))"
    unfolding infra_backend_start_def s1_def s2_def s3_def s4_def ok3_def ok4_def Let_def split_beta
    by (simp only: assms(2) simp_thms if_False)
  have i1: "in_pc s1 = AcWait" "in_sessions s1 = []" "sess_inv s1" "live_inv s1" "\<not> in_running s1" "\<not> in_discovery_thread s1"
    "\<not> in_accept_thread s1" "\<not> in_tcp_listener s1" "in_worker_cancel s1 = Some False"
    using s assms(2) by (simp_all add: work_inv_def s1_def)
  then have i2: "in_pc s2 = AcWait" "in_sessions s2 = []" "sess_inv s2" "live_inv s2" "\<not> in_running s2" "\<not> in_discovery_thread s2"
    "\<not> in_accept_thread s2" "\<not> in_tcp_listener s2" "in_worker_cancel s2 = Some False"
    by (simp_all add: s2_def split: option.split)
  note c = start_coap_ok [of E s2, folded s3_def ok3_def] and t = start_tcp [of s3 E, folded s4_def ok4_def]
  have i3: "in_pc s3 = AcWait" "in_sessions s3 = []" "sess_inv s3" "live_inv s3" "\<not> in_accept_thread s3" "\<not> in_tcp_listener s3"
    "in_worker_cancel s3 = Some False" using i2 by (simp_all add: s3_def)
  note t = t [OF i3(1)]
  have i4: "in_pc s4 = AcWait" "in_sessions s4 = []" "sess_inv s4" "live_inv s4" "in_accept_thread s4 = ok4" "in_tcp_listener s4 = ok4"
    using t i3 by simp_all
  show ?thesis
  proof (cases "0 < ie_ifindex E \<and> in_local_ip s2 \<noteq> [] \<and> ok3")
    case False
    then show ?thesis unfolding r using i1 i2 i3 c by (auto simp: infra_inv_def work_inv_def)
  next
    case True
    have l: "sess_inv (infra_stop_listeners s4)" "live_inv (infra_stop_listeners s4)" "in_pc (infra_stop_listeners s4) = AcWait"
      using stop_listeners [OF i4(3,4)] i4(1) by simp_all
    show ?thesis
    proof (cases "ok4")
      case False
      then show ?thesis unfolding r using True l i4 stop_listeners_idle [of s4] by (simp add: infra_inv_def work_inv_def)
    next
      case ok: True
      then show ?thesis unfolding r using True i4 i3 t c by (simp add: infra_inv_def work_inv_def)
    qed
  qed
qed

interpretation infra: transport infra_backend_start infra_backend_stop in_state infra_inv
proof
  fix s s' :: infra and E err
  show "in_state s \<noteq> STOPPED \<Longrightarrow> infra_backend_start E s = (s, False, True)" by (simp add: infra_backend_start_def)
  show "infra_inv s \<Longrightarrow> infra_backend_start E s = (s', True, err) \<Longrightarrow> in_state s' = RUNNING"
    using infra_start_result [of s E] by (cases "in_state s = STOPPED") (auto simp: infra_backend_start_def)
  show "infra_inv s \<Longrightarrow> in_state s = STOPPED \<Longrightarrow> infra_backend_start E s = (s', False, err) \<Longrightarrow> in_state s' \<in> {STARTING, STATE_ERROR}"
    using infra_start_result [of s E] by simp
  show "infra_inv s \<Longrightarrow> infra_inv (fst (infra_backend_start E s))"
    using infra_start_result [of s E] by (cases "in_state s = STOPPED") (simp_all add: infra_backend_start_def)
  show "infra_inv s \<Longrightarrow> in_state (infra_backend_stop E s) = STOPPED" by (rule infra_stop_result(2))
  show "infra_inv s \<Longrightarrow> infra_inv (infra_backend_stop E s)" by (rule infra_stop_result(1))
  show "in_state s = STOPPED \<Longrightarrow> infra_backend_stop E s = s" by (simp add: infra_backend_stop_def)
qed

lemma infra_inv_step:
  assumes "infra_inv s"
  shows "infra_inv (infra_step e s)"
proof (cases e)
  case (InStart E)
  then show ?thesis using infra.inv_start [OF assms] by (simp add: infra_step_def)
next
  case (InStop E)
  then show ?thesis using infra.inv_stop [OF assms] by (simp add: infra_step_def)
next
  case (InAccept ip made)
  have "work_inv (infra_accept ip made s)" using assms
    by (auto simp: infra_inv_def infra_accept_def work_inv_def split: hw_state.splits)
  then show ?thesis using assms InAccept by (simp add: infra_step_def infra_inv_def sess_inv_accept live_inv_accept)
next
  case InAcceptStep
  have "work_inv (infra_accept_step s)" using assms
    by (auto simp: infra_inv_def infra_accept_step_def work_inv_def split: hw_state.splits accept_pc.split)
  then show ?thesis using assms InAcceptStep by (simp add: infra_step_def infra_inv_def sess_inv_accept_step live_inv_accept_step)
next
  case (InPeerGone i)
  have "work_inv (infra_pump_end i s)" using assms by (simp add: infra_inv_def work_inv_def split: hw_state.splits)
  then show ?thesis using assms InPeerGone by (simp add: infra_step_def infra_inv_def sess_inv_pump_end live_inv_pump_end)
qed

lemma infra_inv_run: "infra_inv s \<Longrightarrow> infra_inv (infra_run es s)"
  by (induction es arbitrary: s) (simp_all add: infra_run_def infra_inv_step)

lemma infra_inv_facts:
  assumes "infra_inv s"
  shows "in_state s \<in> {STOPPED, RUNNING, STATE_ERROR}" "set (in_sessions s) \<subseteq> set (in_refs s)" "distinct (in_sessions s)"
    "distinct (in_refs s)" "\<forall>j. closed_count j s \<le> 1"
    "in_state s = RUNNING \<longrightarrow> in_running s \<and> in_discovery_thread s \<and> in_accept_thread s \<and> in_coap_socket s \<and> in_tcp_listener s"
  using assms by (simp_all add: infra_inv_def sess_inv_def work_inv_def split: hw_state.splits)

lemma infra_inv_stopped:
  assumes "infra_inv s" "in_state s = STOPPED"
  shows "in_sessions s = []" "\<not> in_discovery_thread s" "\<not> in_accept_thread s" "\<not> in_coap_socket s" "\<not> in_tcp_listener s"
  using assms by (simp_all add: infra_inv_def work_inv_def)

section \<open>Properties\<close>


definition toy_infra_env :: infra_env where
  "toy_infra_env = \<lparr>ie_ifindex = 3, ie_ip = Some [49], ie_socket = True, ie_bind = True, ie_membership = True,
     ie_discovery_thread = True, ie_listen = True, ie_accept_thread = True\<rparr>"

lemmas infra_defs = infra_run_def infra_step_def infra_backend_new_def infra_backend_start_def infra_set_state_def in_emit_def
  infra_start_coap_listener_def infra_start_tcp_listener_def infra_accept_def infra_accept_step_def toy_infra_env_def Let_def


text \<open>A reference nobody will drop: the session is neither listed nor on its way into the list.\<close>

definition lost_ref :: "nat \<Rightarrow> infra \<Rightarrow> bool" where
  "lost_ref i s \<longleftrightarrow> i \<in> set (in_refs s) \<and> i \<notin> set (in_sessions s) \<and> i \<notin> pc_pending (in_pc s) \<and> i < in_next s"

lemma lost_ref_state [simp]: "lost_ref i (infra_set_state st s) = lost_ref i s" "lost_ref i (in_emit x s) = lost_ref i s"
  by (simp_all add: lost_ref_def)

lemma lost_ref_same [simp]:
  "lost_ref i (s\<lparr>in_running := b\<rparr>) = lost_ref i s" "lost_ref i (s\<lparr>in_worker_cancel := c\<rparr>) = lost_ref i s"
  "lost_ref i (s\<lparr>in_discovery_thread := b\<rparr>) = lost_ref i s" "lost_ref i (s\<lparr>in_accept_thread := b\<rparr>) = lost_ref i s"
  "lost_ref i (s\<lparr>in_coap_socket := b\<rparr>) = lost_ref i s" "lost_ref i (s\<lparr>in_tcp_listener := b\<rparr>) = lost_ref i s"
  "lost_ref i (s\<lparr>in_state := st\<rparr>) = lost_ref i s" "lost_ref i (s\<lparr>in_local_ip := ip\<rparr>) = lost_ref i s"
  by (simp_all add: lost_ref_def)

lemma lost_ref_sessions: "lost_ref i s \<Longrightarrow> lost_ref i (s\<lparr>in_sessions := []\<rparr>)"
  by (simp add: lost_ref_def)

lemma lost_ref_pump_end: "lost_ref i s \<Longrightarrow> lost_ref i (infra_pump_end j s)"
  by (cases "i = j") (auto simp: lost_ref_def infra_pump_end_def on_infra_session_closed_def Let_def dest: notin_set_remove1)

lemma lost_ref_pump_ends: "lost_ref i s \<Longrightarrow> lost_ref i (fold infra_pump_end js s)"
  by (induction js arbitrary: s) (simp_all add: lost_ref_pump_end)

lemma lost_ref_accept_step: "lost_ref i s \<Longrightarrow> lost_ref i (infra_accept_step s)"
  by (cases "in_pc s") (simp_all add: lost_ref_def infra_accept_step_def)

lemma lost_ref_stop_listeners: "lost_ref i s \<Longrightarrow> lost_ref i (infra_stop_listeners s)"
  by (simp add: infra_stop_listeners_def infra_accept_finish_def Let_def lost_ref_accept_step)

lemma lost_ref_stop: "lost_ref i s \<Longrightarrow> lost_ref i (infra_backend_stop E s)"
  by (simp add: infra_backend_stop_def Let_def lost_ref_pump_ends lost_ref_sessions lost_ref_stop_listeners)

lemma lost_ref_coap: "lost_ref i (fst (infra_start_coap_listener E s)) = lost_ref i s"
  by (simp add: infra_start_coap_listener_def Let_def)

lemma lost_ref_tcp: "lost_ref i s \<Longrightarrow> lost_ref i (fst (infra_start_tcp_listener E s))"
  by (simp add: infra_start_tcp_listener_def) (simp add: lost_ref_def)

lemma lost_ref_start:
  assumes "lost_ref i s"
  shows "lost_ref i (fst (infra_backend_start E s))"
proof -
  let ?s = "s\<lparr>in_state := STARTING, in_worker_cancel := Some False\<rparr>"
  have "lost_ref i (case ie_ip E of Some ip \<Rightarrow> ?s\<lparr>in_local_ip := ip\<rparr> | None \<Rightarrow> ?s)" using assms by (simp split: option.split)
  then show ?thesis using assms lost_ref_coap lost_ref_tcp lost_ref_stop_listeners
    by (simp add: infra_backend_start_def Let_def split_beta)
qed

lemma lost_ref_run: "lost_ref i s \<Longrightarrow> lost_ref i (infra_run es s)"
proof (induction es arbitrary: s)
  case (Cons e es)
  have "lost_ref i (infra_step e s)"
  proof (cases e)
    case (InAccept ip made)
    then show ?thesis using Cons.prems by (auto simp: infra_step_def infra_accept_def lost_ref_def)
  qed (use Cons.prems in \<open>simp_all add: infra_step_def lost_ref_start lost_ref_stop lost_ref_accept_step lost_ref_pump_end\<close>)
  then show ?case using Cons.IH by (simp add: infra_run_def)
qed (simp add: infra_run_def)

lemma lost_ref_release:
  assumes "lost_ref i s"
  shows "lost_ref i (infra_release_sessions s)"
proof -
  have "i \<notin> set js \<Longrightarrow> lost_ref i t \<Longrightarrow> lost_ref i (fold (\<lambda>j s. (infra_pump_end j s)\<lparr>in_refs := remove1 j (in_refs (infra_pump_end j s))\<rparr>) js t)" for js t
  proof (induction js arbitrary: t)
    case (Cons j js)
    have "lost_ref i (infra_pump_end j t)" by (rule lost_ref_pump_end [OF Cons.prems(2)])
    then have "lost_ref i ((infra_pump_end j t)\<lparr>in_refs := remove1 j (in_refs (infra_pump_end j t))\<rparr>)"
      using Cons.prems(1) by (simp add: lost_ref_def)
    then show ?case using Cons by simp
  qed simp
  from this [of "in_sessions s" "s\<lparr>in_sessions := []\<rparr>"] show ?thesis using assms lost_ref_sessions
    by (simp add: infra_release_sessions_def lost_ref_def)
qed

lemma stop_loses_refs:
  assumes "infra_inv s" "in_state s \<noteq> STOPPED" "i \<in> set (in_sessions s)"
  shows "lost_ref i (infra_backend_stop E s)"
proof -
  let ?a = "infra_stop_listeners (infra_set_state STOPPING s)"
  have w: "sess_inv (infra_set_state STOPPING s)" "live_inv (infra_set_state STOPPING s)"
    "in_accept_thread (infra_set_state STOPPING s) \<or> in_pc (infra_set_state STOPPING s) = AcWait"
    using assms(1) work_inv_pc [of s] by (simp_all add: infra_inv_def)
  have "i \<in> set (in_refs s)" "i < in_next s" using assms(1,3) by (auto simp: infra_inv_def sess_inv_def)
  then have "lost_ref i (?a\<lparr>in_tcp_listener := False, in_sessions := []\<rparr>)"
    using stop_listeners [OF w] by (simp add: lost_ref_def)
  then show ?thesis using assms(2) by (simp add: infra_backend_stop_def Let_def lost_ref_pump_ends)
qed

text \<open>
  C31. A session that is open when the backend is stopped is never freed.  The stop clears the list first, so the closed callback no
  longer finds the session and keeps its reference, and the copy is only freed as a list; whatever
  happens later, finalizing included, the reference stays.
\<close>

lemma infra_stop_leaks:
  assumes "s = infra_run es (infra_backend_new N ifc)" "in_state s = RUNNING" "i \<in> set (in_sessions s)"
  shows "i \<in> set (in_refs (infra_backend_finalize (infra_run es' (infra_backend_stop E s))))"
proof -
  have "infra_inv s" unfolding assms(1) by (rule infra_inv_run [OF infra_inv_new])
  then have "lost_ref i (infra_run es' (infra_backend_stop E s))"
    using stop_loses_refs assms(2,3) by (simp add: lost_ref_run)
  then have "lost_ref i (infra_backend_finalize (infra_run es' (infra_backend_stop E s)))"
    by (simp add: infra_backend_finalize_def lost_ref_release lost_ref_stop_listeners)
  then show ?thesis by (simp add: lost_ref_def)
qed

lemma infra_stop_leaks_witness:
  "\<exists>s. in_state s = RUNNING \<and> in_sessions s = [0] \<and> 0 \<in> set (in_refs (infra_backend_finalize (infra_run [] (infra_backend_stop toy_infra_env s))))"
proof -
  let ?s = "infra_run [InStart toy_infra_env, InAccept (Some [50]) True, InAcceptStep, InAcceptStep, InAcceptStep] (infra_backend_new toy_nl_env None)"
  have s: "in_state ?s = RUNNING" "in_sessions ?s = [0]" by (simp_all add: infra_defs)
  then have "0 \<in> set (in_sessions ?s)" by simp
  from infra_stop_leaks [OF refl s(1) this, of "[]" toy_infra_env] s show ?thesis by blast
qed

text \<open>
  C37. The pump of a new session runs before the session has its closed callback and is listed.  If the peer closes in between, the
  daemon is told too early or never: after the callback is set, \<open>session-closed\<close> comes before
  \<open>session-opened\<close>; before it is set, it never comes.  In both cases a dead session is announced and stays in the
  list, and no later event of its peer removes it.
\<close>

lemma infra_early_close:
  assumes "infra_inv s" "in_state s = RUNNING" "in_pc s = AcWait" "n = in_next s"
    and "early = infra_run [InAccept ip True, InAcceptStep, InPeerGone n, InAcceptStep, InAcceptStep] s"
    and "earlier = infra_run [InAccept ip True, InPeerGone n, InAcceptStep, InAcceptStep, InAcceptStep] s"
  shows "in_out early = in_out s @ [InSessionClosed n, InClientConnected ip, InSessionOpened n ip] \<and>
    in_out earlier = in_out s @ [InClientConnected ip, InSessionOpened n ip] \<and>
    (\<forall>t \<in> {early, earlier}. n \<in> set (in_sessions t) \<and> n \<notin> set (in_live t) \<and> infra_pump_end n t = t)"
proof -
  have "in_accept_thread s" "in_running s" using assms(1,2) by (simp_all add: infra_inv_def work_inv_def)
  moreover have "n \<notin> set (in_live s)" "n \<notin> set (in_cbs s)" "n \<notin> set (in_sessions s)"
    using assms(1,4) by (auto simp: infra_inv_def sess_inv_def dest: subsetD)
  ultimately show ?thesis using assms(3,4) unfolding assms(5,6)
    by (simp add: infra_run_def infra_step_def infra_accept_def infra_accept_step_def infra_pump_end_def on_infra_session_closed_def
        in_emit_def Let_def)
qed

lemma infra_early_close_witness:
  "\<exists>s. in_state s = RUNNING \<and>
     in_out (infra_run [InAccept None True, InAcceptStep, InPeerGone 0, InAcceptStep, InAcceptStep] s) =
       in_out s @ [InSessionClosed 0, InClientConnected None, InSessionOpened 0 None]"
proof -
  let ?s = "infra_run [InStart toy_infra_env] (infra_backend_new toy_nl_env None)"
  have s: "in_state ?s = RUNNING" "in_pc ?s = AcWait" "0 = in_next ?s" by (simp_all add: infra_defs)
  note e = infra_early_close [OF infra_inv_run [OF infra_inv_new] s(1,2,3) refl refl, of None, THEN conjunct1]
  from s(1) e show ?thesis by (intro exI [of _ ?s] conjI)
qed

end
