(* ===== verification/Transport.thy ===== *)
theory Transport
  imports P2pBackend InfraBackend
begin

text \<open>
  The base class (\<open>src/transport/wifi_transport.c\<close>): the factory and the calls through the virtual table.  An object
  is one of the three backends, and a call goes to the method its class has put into the table.
\<close>

datatype transport_type = TRANSPORT_SOFTAP | TRANSPORT_P2P_GO | TRANSPORT_INFRA

datatype backend = Softap softap | P2p p2p | Infra infra

record transport_env =
  te_softap :: softap_env
  te_p2p :: p2p_env
  te_infra :: infra_env

definition transport_new :: "transport_type \<Rightarrow> nl_env \<Rightarrow> cstr option \<Rightarrow> cstr option \<Rightarrow> backend option" where
  "transport_new type N phy_name sta_interface =
     (case type of
        TRANSPORT_SOFTAP \<Rightarrow> map_option Softap (softap_backend_new N phy_name sta_interface)
      | TRANSPORT_P2P_GO \<Rightarrow> map_option P2p (p2p_backend_new N phy_name sta_interface)
      | TRANSPORT_INFRA \<Rightarrow> Some (Infra (infra_backend_new N sta_interface)))"

definition transport_start :: "transport_env \<Rightarrow> backend \<Rightarrow> backend \<times> bool \<times> bool" where
  "transport_start E b =
     (case b of
        Softap s \<Rightarrow> apfst Softap (softap_backend_start (te_softap E) s)
      | P2p p \<Rightarrow> apfst P2p (p2p_backend_start (te_p2p E) p)
      | Infra i \<Rightarrow> apfst Infra (infra_backend_start (te_infra E) i))"

definition transport_stop :: "transport_env \<Rightarrow> backend \<Rightarrow> backend" where
  "transport_stop E b =
     (case b of
        Softap s \<Rightarrow> Softap (softap_backend_stop (te_softap E) s)
      | P2p p \<Rightarrow> P2p (p2p_backend_stop (te_p2p E) p)
      | Infra i \<Rightarrow> Infra (infra_backend_stop (te_infra E) i))"

definition transport_get_state :: "backend \<Rightarrow> hw_state" where
  "transport_get_state b = (case b of Softap s \<Rightarrow> so_state s | P2p p \<Rightarrow> po_state p | Infra i \<Rightarrow> in_state i)"

definition transport_get_ap_interface :: "backend \<Rightarrow> cstr" where
  "transport_get_ap_interface b =
     (case b of Softap s \<Rightarrow> sc_ap_interface (so_config s) | P2p p \<Rightarrow> pc_ap_interface (po_config p) | Infra i \<Rightarrow> in_interface i)"

definition transport_get_ap_ip :: "backend \<Rightarrow> cstr" where
  "transport_get_ap_ip b =
     (case b of Softap s \<Rightarrow> sc_ap_ip (so_config s) | P2p p \<Rightarrow> HWPHONELINK_AP_IP | Infra i \<Rightarrow> in_local_ip i)"

definition transport_get_ap_channel :: "backend \<Rightarrow> u32" where
  "transport_get_ap_channel b =
     (case b of Softap s \<Rightarrow> sc_channel (so_config s) | P2p p \<Rightarrow> pc_channel (po_config p) | Infra i \<Rightarrow> 0)"

text \<open>The properties of the class; a property id it does not know leaves the value alone.\<close>

datatype g_value = GEnum hw_state | GString cstr | GUint u32
datatype transport_prop = PROP_STATE | PROP_AP_INTERFACE | PROP_AP_IP | PROP_AP_CHANNEL | PropOther u32

definition transport_get_property :: "backend \<Rightarrow> transport_prop \<Rightarrow> g_value \<Rightarrow> g_value" where
  "transport_get_property b prop v =
     (case prop of
        PROP_STATE \<Rightarrow> GEnum (transport_get_state b)
      | PROP_AP_INTERFACE \<Rightarrow> GString (transport_get_ap_interface b)
      | PROP_AP_IP \<Rightarrow> GString (transport_get_ap_ip b)
      | PROP_AP_CHANNEL \<Rightarrow> GUint (transport_get_ap_channel b)
      | PropOther _ \<Rightarrow> v)"

definition backend_inv :: "backend \<Rightarrow> bool" where
  "backend_inv b = (case b of Softap s \<Rightarrow> softap_inv s | P2p p \<Rightarrow> p2p_inv p | Infra i \<Rightarrow> infra_inv i)"

text \<open>The calls through the table keep the contract because each backend does.\<close>

lemmas backend_defs = transport_start_def transport_stop_def transport_get_state_def backend_inv_def

interpretation backend: transport transport_start transport_stop transport_get_state backend_inv
proof
  fix b b' :: backend and E err
  show "backend_inv b \<Longrightarrow> transport_get_state b \<noteq> STOPPED \<Longrightarrow> transport_start E b = (b, False, True)"
    using softap.start_refused p2p.start_refused infra.start_refused by (cases b) (simp_all add: backend_defs)
  show "backend_inv b \<Longrightarrow> transport_start E b = (b', True, err) \<Longrightarrow> transport_get_state b' = RUNNING"
    by (cases b) (auto simp: backend_defs apfst_def map_prod_def dest!: softap.start_up p2p.start_up infra.start_up split: prod.splits)
  show "backend_inv b \<Longrightarrow> transport_get_state b = STOPPED \<Longrightarrow> transport_start E b = (b', False, err) \<Longrightarrow>
      transport_get_state b' \<in> {STARTING, STATE_ERROR}"
    by (cases b) (auto simp: backend_defs apfst_def map_prod_def dest: softap.start_failed p2p.start_failed infra.start_failed split: prod.splits)
  show "backend_inv b \<Longrightarrow> transport_get_state (transport_stop E b) = STOPPED"
    using softap.stop_idle p2p.stop_idle infra.stop_idle by (cases b) (simp_all add: backend_defs)
  show "backend_inv b \<Longrightarrow> transport_get_state b = STOPPED \<Longrightarrow> transport_stop E b = b"
    using softap.stop_stopped p2p.stop_stopped infra.stop_stopped by (cases b) (simp_all add: backend_defs)
  show "backend_inv b \<Longrightarrow> backend_inv (fst (transport_start E b))"
    using softap.inv_start p2p.inv_start infra.inv_start by (cases b) (simp_all add: backend_defs)
  show "backend_inv b \<Longrightarrow> backend_inv (transport_stop E b)"
    using softap.inv_stop p2p.inv_stop infra.inv_stop by (cases b) (simp_all add: backend_defs)
qed

lemma transport_new_inv:
  assumes "transport_new type N phy sta = Some b"
  shows "backend_inv b" "transport_get_state b = STOPPED"
  using assms infra_inv_new
  by (auto simp: transport_new_def backend_inv_def transport_get_state_def softap_backend_new_def softap_inv_def p2p_backend_new_def
      p2p_inv_def p2p_backend_init_def infra_backend_new_def split: transport_type.splits)

text \<open>
  C14. Every backend the factory makes behaves like a link that is idle, up or failed: after any starts and stops, whatever the
  system answers to them, its state is the one the answers predict, a start succeeds only from idle, a failed
  start has to be followed by a stop before another one is tried, and a stop always leads back to idle.
\<close>

lemma transport_refines_link:
  assumes "transport_new type N phy sta = Some b" "commands transport_start transport_stop cs b = (b', rs)"
  shows "link_of (transport_get_state b') = link_run rs Idle \<and> answers_ok rs Idle \<and>
    transport_get_state (transport_stop E b') = STOPPED"
proof -
  note b = transport_new_inv [OF assms(1)]
  have "link_of STOPPED = Idle" by (simp add: link_of_def)
  with backend.commands_link [OF b(1), of cs] assms(2) b(2) have "backend_inv b'" "link_of (transport_get_state b') = link_run rs Idle"
    "answers_ok rs Idle" by simp_all
  then show ?thesis using backend.stop_then_start [of b'] by simp
qed

definition toy_transport_env :: transport_env where
  "toy_transport_env = \<lparr>te_softap = toy_softap_env, te_p2p = \<lparr>pe_write = True, pe_spawn = True\<rparr>, te_infra = toy_infra_env\<rparr>"

lemma transport_refines_link_witness:
  "\<exists>b b' rs. transport_new TRANSPORT_P2P_GO toy_nl_env None None = Some b \<and>
     commands transport_start transport_stop [Start toy_transport_env, Start toy_transport_env, Stop toy_transport_env, Start toy_transport_env] b = (b', rs) \<and>
     rs = [Some True, Some False, None, Some True] \<and> link_of (transport_get_state b') = Up"
proof -
  let ?cs = "[Start toy_transport_env, Start toy_transport_env, Stop toy_transport_env, Start toy_transport_env]"
  obtain b where b: "transport_new TRANSPORT_P2P_GO toy_nl_env None None = Some b" "\<exists>p. b = P2p p \<and> po_state p = STOPPED \<and> \<not> po_proc p"
    by (simp add: transport_new_def p2p_backend_new_def toy_nl_handle p2p_backend_init_def)
  obtain b' rs where r: "commands transport_start transport_stop ?cs b = (b', rs)" by fastforce
  have "rs = [Some True, Some False, None, Some True]" using b(2) r
    by (auto simp: transport_start_def transport_stop_def p2p_backend_start_def p2p_backend_stop_def p2p_emit_def toy_transport_env_def Let_def)
  with transport_refines_link [OF b(1) r, of toy_transport_env] b(1) r show ?thesis by (auto simp: link_run_def)
qed

end
