(* ===== verification/DaemonMain.thy ===== *)
theory DaemonMain
  imports Transport DaemonStream SoftbusDevice ControlSession
begin

text \<open>
  Starting and ending the daemon (\<open>main\<close> in \<open>src/main.c\<close>).  The options as \<open>GOption\<close> has parsed
  them are an input, and so is what the system answers.  \<open>main\<close> ends at once, crashes, or gets to its main loop; the
  loop itself is the subject of \<open>ControlSession\<close> and \<open>DaemonStream\<close>.
\<close>

section \<open>Options and environment\<close>

record options =
  op_phy :: cstr
  op_interface :: cstr
  op_p2p_fallback :: bool
  op_infra :: bool
  op_device_id :: "cstr option"
  op_psk :: "cstr option"
  op_ft_port :: u32
  op_ft_dir :: "cstr option"
  op_ft_send :: "cstr option"
  op_stream_port :: u32
  op_stream_peer_port :: u32
  op_stream_dir :: "cstr option"
  op_stream_send :: "cstr option"

text \<open>The options before the command line is read.\<close>

definition options_init :: options where
  "options_init = \<lparr>op_phy = bytes_of ''phy0'', op_interface = bytes_of ''wlp1s0'', op_p2p_fallback = False, op_infra = False,
     op_device_id = None, op_psk = None, op_ft_port = 54322, op_ft_dir = None, op_ft_send = None, op_stream_port = 54323,
     op_stream_peer_port = 54324, op_stream_dir = None, op_stream_send = None\<rparr>"

text \<open>
  \<open>me_listen p\<close> says whether the port could be bound; \<open>g_socket_listener_add_inet_port\<close> itself refuses port 0, and
  then sets no error, because that is a misuse by the caller.
\<close>

record main_env =
  me_parse :: bool
  me_env_psk :: "cstr option"
  me_root :: bool
  me_nl :: nl_env
  me_transport :: transport_env
  me_mkdir :: "cstr \<Rightarrow> bool"
  me_listen :: "u16 \<Rightarrow> bool"
  me_service_start :: bool

definition SOFTBUS_DEVTYPE_PC :: u32 where "SOFTBUS_DEVTYPE_PC = 2"
definition SOFTBUS_CAP_CASTPLUS :: u32 where "SOFTBUS_CAP_CASTPLUS = 1"
definition SOFTBUS_CAP_DVKIT :: u32 where "SOFTBUS_CAP_DVKIT = 2"
definition SOFTBUS_CAP_OSD :: u32 where "SOFTBUS_CAP_OSD = 4"
definition SOFTBUS_CAP_MULTISCREEN :: u32 where "SOFTBUS_CAP_MULTISCREEN = 8"

unbundle bit_operations_syntax

definition build_local_device :: "cstr \<Rightarrow> softbus_device" where
  "build_local_device device_id =
     softbus_device_new\<lparr>sd_device_id := Some device_id, sd_device_name := Some (bytes_of ''Mint PC (hwphonelink)''),
       sd_device_type := SOFTBUS_DEVTYPE_PC,
       sd_capabilities := SOFTBUS_CAP_CASTPLUS OR SOFTBUS_CAP_DVKIT OR SOFTBUS_CAP_OSD OR SOFTBUS_CAP_MULTISCREEN\<rparr>"

text \<open>The secret: the option as it is, else the variable unless it is empty, else the built-in one.\<close>

definition main_psk :: "options \<Rightarrow> main_env \<Rightarrow> cstr" where
  "main_psk opts E =
     (case op_psk opts of
        Some psk \<Rightarrow> psk
      | None \<Rightarrow>
          (case me_env_psk E of
             None \<Rightarrow> bytes_of ''hwphonelink-test-psk''
           | Some psk \<Rightarrow> if psk = [] then bytes_of ''hwphonelink-test-psk'' else psk))"

section \<open>Starting\<close>

record main_state =
  ms_psk :: cstr
  ms_device :: softbus_device
  ms_backend :: backend
  ms_ft_service :: bool
  ms_ft_dir :: "cstr option"
  ms_config :: daemon_config

datatype main_result = Exited nat "backend option" | Crashed "backend option" | Running main_state

definition main_transport :: "options \<Rightarrow> main_env \<Rightarrow> backend option" where
  "main_transport opts E =
     transport_new (if op_infra opts then TRANSPORT_INFRA else if op_p2p_fallback opts then TRANSPORT_P2P_GO else TRANSPORT_SOFTAP)
       (me_nl E) (Some (op_phy opts)) (Some (op_interface opts))"

text \<open>
  The listener for files: \<open>None\<close> when the message of an error that was not set is printed.  The port is cut to 16
  bits.
\<close>

definition main_ft_listen :: "options \<Rightarrow> main_env \<Rightarrow> bool option" where
  "main_ft_listen opts E =
     (let port = ucast (op_ft_port opts) :: u16
      in if port = 0 then None
         else if \<not> me_listen E port then Some False
         else Some (me_service_start E))"

definition main_start :: "options \<Rightarrow> main_env \<Rightarrow> main_result" where
  "main_start opts E =
     (if \<not> me_parse E then Exited 1 None
      else if op_ft_port opts <s 0 then Exited 1 None
      else if op_stream_port opts <s 0 \<or> op_stream_peer_port opts <s 0 then Exited 1 None
      else if \<not> me_root E \<and> \<not> op_infra opts then Exited 1 None
      else
        let psk = main_psk opts E;
            device = build_local_device (case op_device_id opts of Some i \<Rightarrow> i | None \<Rightarrow> bytes_of ''hwphonelink-pc-001'')
        in (case main_transport opts E of
              None \<Rightarrow> Exited 1 None
            | Some b \<Rightarrow>
                let (b, ok, err) = transport_start (me_transport E) b
                in if \<not> ok then (if err then Exited 1 (Some b) else Crashed (Some b))
                else
                  let ft_dir = (case op_ft_dir opts of Some d \<Rightarrow> d | None \<Rightarrow> bytes_of ''ft-received'');
                      stream_dir = (case op_stream_dir opts of Some d \<Rightarrow> d | None \<Rightarrow> bytes_of ''stream-received'')
                  in if 0 < op_ft_port opts \<and> \<not> me_mkdir E ft_dir then Exited 1 (Some b)
                  else if 0 < op_ft_port opts \<and> main_ft_listen opts E = None then Crashed (Some b)
                  else if 0 < op_stream_port opts \<and> \<not> me_mkdir E stream_dir then Exited 1 (Some b)
                  else
                    Running \<lparr>ms_psk = psk, ms_device = device, ms_backend = b,
                      ms_ft_service = (0 < op_ft_port opts \<and> main_ft_listen opts E = Some True),
                      ms_ft_dir = (if 0 < op_ft_port opts then Some ft_dir else op_ft_dir opts),
                      ms_config = \<lparr>dg_stream_port = op_stream_port opts, dg_stream_peer_port = op_stream_peer_port opts,
                        dg_stream_dir = (if 0 < op_stream_port opts then stream_dir else case op_stream_dir opts of Some d \<Rightarrow> d | None \<Rightarrow> []),
                        dg_stream_send_spec =
                          (if 0 < op_stream_port opts \<and> op_stream_send opts = None then Some (bytes_of ''gen:2:1048576'') else op_stream_send opts),
                        dg_ft_send_spec = op_ft_send opts\<rparr>\<rparr>))"

section \<open>Ending\<close>

datatype main_out = MoDmsdpFree | MoEngineClose | MoServiceStop | MoTransportStop | MoDeviceUnref

text \<open>What happens when the main loop has been left, by a signal.\<close>

definition main_cleanup :: "main_env \<Rightarrow> control \<Rightarrow> daemon \<Rightarrow> main_state \<Rightarrow> main_out list \<times> control \<times> daemon \<times> main_state" where
  "main_cleanup E c d m =
     (let os1 = (if g_dmsdp_cl c \<noteq> None then [MoDmsdpFree] else []);
          c = c\<lparr>g_dmsdp_cl := None\<rparr>;
          os2 = (if dm_engine d then [MoEngineClose] else []);
          d = d\<lparr>dm_rx_name := None, dm_engine := False\<rparr>;
          os3 = (if ms_ft_service m then [MoServiceStop] else []);
          m = m\<lparr>ms_ft_service := False, ms_backend := transport_stop (me_transport E) (ms_backend m)\<rparr>
      in (os1 @ os2 @ os3 @ [MoTransportStop, MoDeviceUnref], c, d, m))"

section \<open>Properties\<close>

text \<open>The options with which \<open>main\<close> gets as far as starting the transport.\<close>

definition options_ok :: "options \<Rightarrow> main_env \<Rightarrow> bool" where
  "options_ok opts E \<longleftrightarrow> me_parse E \<and> 0 \<le>s op_ft_port opts \<and> 0 \<le>s op_stream_port opts \<and> 0 \<le>s op_stream_peer_port opts \<and> (me_root E \<or> op_infra opts)"

definition receive_dirs_ok :: "options \<Rightarrow> main_env \<Rightarrow> bool" where
  "receive_dirs_ok opts E \<longleftrightarrow>
     (0 < op_ft_port opts \<longrightarrow> me_mkdir E (case op_ft_dir opts of Some d \<Rightarrow> d | None \<Rightarrow> bytes_of ''ft-received'')) \<and>
     (0 < op_stream_port opts \<longrightarrow> me_mkdir E (case op_stream_dir opts of Some d \<Rightarrow> d | None \<Rightarrow> bytes_of ''stream-received''))"

lemma sless_iff: "(x :: u32) <s 0 \<longleftrightarrow> \<not> 0 \<le>s x"
  by (simp add: word_sless_alt word_sle_eq not_le)

lemma transport_start_state:
  assumes "main_transport opts E = Some b" "transport_start (me_transport E) b = (b', ok, err)"
  shows "ok \<longleftrightarrow> transport_get_state b' = RUNNING" "backend_inv b'"
proof -
  note b = transport_new_inv [OF assms(1) [unfolded main_transport_def]]
  show "ok \<longleftrightarrow> transport_get_state b' = RUNNING"
    using backend.start_up [OF b(1), of "me_transport E" b' err] backend.start_failed [OF b, of "me_transport E" b' err] assms(2)
    by (cases ok) auto
  show "backend_inv b'" using backend.inv_start [OF b(1), of "me_transport E"] assms(2) by simp
qed

lemma main_start_options: "\<not> options_ok opts E \<Longrightarrow> main_start opts E = Exited 1 None"
  by (auto simp: main_start_def options_ok_def sless_iff)

lemma main_start_no_transport: "main_transport opts E = None \<Longrightarrow> main_start opts E = Exited 1 None"
  by (simp add: main_start_def)

lemma main_start_failed:
  assumes "options_ok opts E" "main_transport opts E = Some b" "transport_start (me_transport E) b = (b', False, err)"
  shows "main_start opts E = (if err then Exited 1 (Some b') else Crashed (Some b'))"
  using assms by (auto simp: main_start_def options_ok_def sless_iff)

text \<open>The rest of \<open>main\<close> once the transport runs.\<close>

lemma main_start_up:
  assumes "options_ok opts E" "main_transport opts E = Some b" "transport_start (me_transport E) b = (b', True, err)"
  shows "0 < op_ft_port opts \<Longrightarrow> \<not> me_mkdir E (case op_ft_dir opts of Some d \<Rightarrow> d | None \<Rightarrow> bytes_of ''ft-received'') \<Longrightarrow>
      main_start opts E = Exited 1 (Some b')"
    "receive_dirs_ok opts E \<Longrightarrow> 0 < op_ft_port opts \<Longrightarrow> (ucast (op_ft_port opts) :: u16) = 0 \<Longrightarrow> main_start opts E = Crashed (Some b')"
    "\<not> receive_dirs_ok opts E \<Longrightarrow> main_start opts E \<in> {Exited 1 (Some b'), Crashed (Some b')}"
    "receive_dirs_ok opts E \<Longrightarrow> (0 < op_ft_port opts \<longrightarrow> (ucast (op_ft_port opts) :: u16) \<noteq> 0) \<Longrightarrow>
      \<exists>m. main_start opts E = Running m \<and> ms_backend m = b' \<and> ms_psk m = main_psk opts E \<and>
        ms_ft_service m = (0 < op_ft_port opts \<and> me_listen E (ucast (op_ft_port opts)) \<and> me_service_start E) \<and>
        dg_stream_port (ms_config m) = op_stream_port opts \<and>
        (0 < op_stream_port opts \<longrightarrow> dg_stream_send_spec (ms_config m) \<noteq> None)"
  using assms
  by (auto simp: main_start_def options_ok_def sless_iff receive_dirs_ok_def main_ft_listen_def Let_def)


definition toy_main_env :: main_env where
  "toy_main_env = \<lparr>me_parse = True, me_env_psk = None, me_root = False, me_nl = toy_nl_env, me_transport = toy_transport_env,
     me_mkdir = (\<lambda>_. True), me_listen = (\<lambda>_. True), me_service_start = True\<rparr>"

lemma toy_infra_starts:
  "\<exists>b b'. main_transport (options_init\<lparr>op_infra := True, op_ft_port := p\<rparr>) toy_main_env = Some b \<and>
     transport_start (me_transport toy_main_env) b = (b', True, False)"
  by (simp add: main_transport_def transport_new_def transport_start_def toy_main_env_def toy_transport_env_def options_init_def infra_defs)

lemma toy_options_ok:
  "0 \<le>s p \<Longrightarrow> options_ok (options_init\<lparr>op_infra := True, op_ft_port := p\<rparr>) toy_main_env"
  "receive_dirs_ok (options_init\<lparr>op_infra := True, op_ft_port := p\<rparr>) toy_main_env"
  by (simp_all add: options_ok_def receive_dirs_ok_def toy_main_env_def options_init_def word_sle_eq)


text \<open>
  C39. Leaving early is not clean.  Once the transport runs, a receive directory that cannot be made ends \<open>main\<close> with 1 while the
  transport still runs and is never stopped; a file port that is a multiple of 65536 crashes it, because the port cut to 16
  bits is refused without an error whose text is printed; and a backend that fails to start without an error (the access point, when a
  configuration file cannot be written) crashes it too.
\<close>

lemma main_ends_badly:
  assumes "options_ok opts E" "main_transport opts E = Some b" "transport_start (me_transport E) b = (b', up, err)"
  shows "(up \<and> 0 < op_ft_port opts \<and> \<not> me_mkdir E (case op_ft_dir opts of Some d \<Rightarrow> d | None \<Rightarrow> bytes_of ''ft-received'') \<longrightarrow>
       main_start opts E = Exited 1 (Some b') \<and> transport_get_state b' = RUNNING) \<and>
    (up \<and> receive_dirs_ok opts E \<and> 0 < op_ft_port opts \<and> 65536 dvd unat (op_ft_port opts) \<longrightarrow> main_start opts E = Crashed (Some b')) \<and>
    (\<not> up \<and> \<not> err \<longrightarrow> main_start opts E = Crashed (Some b'))"
proof (cases "up")
  case False
  then show ?thesis using main_start_failed [OF assms(1,2), of b' err] assms(3) by simp
next
  case True
  then have s: "transport_start (me_transport E) b = (b', True, err)" using assms(3) by simp
  have "65536 dvd unat (op_ft_port opts) \<Longrightarrow> (ucast (op_ft_port opts) :: u16) = 0"
    by (simp add: unat_eq_zero [symmetric] unsigned_ucast_eq take_bit_eq_mod mod_eq_0_iff_dvd del: unat_eq_zero)
  with main_start_up [OF assms(1,2) s] transport_start_state(1) [OF assms(2) s] True show ?thesis by simp
qed

lemma main_ends_badly_witness:
  "\<exists>b. main_start (options_init\<lparr>op_infra := True, op_ft_port := 65536\<rparr>) toy_main_env = Crashed (Some b)"
proof -
  let ?o = "options_init\<lparr>op_infra := True, op_ft_port := 65536\<rparr>"
  obtain b b' where b: "main_transport ?o toy_main_env = Some b" "transport_start (me_transport toy_main_env) b = (b', True, False)"
    using toy_infra_starts by blast
  have "options_ok ?o toy_main_env" by (rule toy_options_ok) (simp add: word_sle_eq)
  from main_ends_badly [OF this b] toy_options_ok(2) [of 65536] show ?thesis by simp
qed

end
