(* ===== verification/MirrorPlayer.thy ===== *)
theory MirrorPlayer
  imports SoftbusCrypto
begin

text \<open>
  The mirror player (\<open>src/mirror_player.c\<close>): it feeds a clip to a GStreamer pipeline in chunks and counts the decoded
  frames until the end of the stream, an error or 60 seconds.  GStreamer, GTK and the file system are the environment; what
  the pipeline and the clock do to the main loop is a list of events.
\<close>

definition MIRROR_TIMEOUT_MS :: nat where "MIRROR_TIMEOUT_MS = 60000"
definition MIRROR_CHUNK :: nat where "MIRROR_CHUNK = 64 * 1024"

datatype mirror_event = MvDecoded | MvError | MvEos | MvOther | MvTimeout

record mirror_env =
  mv_contents :: "cstr \<Rightarrow> bytes option"
  mv_display :: bool
  mv_gtk :: bool
  mv_launch :: "bool \<Rightarrow> bool"
  mv_sink :: bool
  mv_src :: bool
  mv_dec :: bool
  mv_pad :: bool
  mv_alloc :: "nat \<Rightarrow> bool"
  mv_flow :: "nat \<Rightarrow> bool"
  mv_events :: "mirror_event list"

text \<open>The push thread: the buffers it hands over, from position \<open>pos\<close> on; \<open>k\<close> counts them.\<close>

function push_thread :: "mirror_env \<Rightarrow> bytes \<Rightarrow> nat \<Rightarrow> nat \<Rightarrow> bytes list" where
  "push_thread E data pos k =
     (if \<not> pos < length data then []
      else
        let chunk = (if MIRROR_CHUNK < length data - pos then MIRROR_CHUNK else length data - pos)
        in if \<not> mv_alloc E k then []
           else
             let buf = take chunk (drop pos data)
             in if \<not> mv_flow E k then [buf] else buf # push_thread E data (pos + chunk) (Suc k))"
  by pat_completeness auto

termination
  by (relation "measure (\<lambda>(E, data, pos, k). length data - pos)") (auto simp: MIRROR_CHUNK_def)

declare push_thread.simps [simp del]

text \<open>\<open>on_bus\<close> and \<open>on_timeout\<close>: does the event end the main loop?\<close>

fun on_bus :: "mirror_event \<Rightarrow> bool" where
  "on_bus MvError = True"
| "on_bus MvEos = True"
| "on_bus MvTimeout = True"
| "on_bus _ = False"

text \<open>The main loop: the decoded frames until it is left; \<open>None\<close> while it still runs.  The probe is there if the pad is.\<close>

fun mirror_loop :: "bool \<Rightarrow> mirror_event list \<Rightarrow> u32 \<Rightarrow> u32 option" where
  "mirror_loop pad [] frames = None"
| "mirror_loop pad (e # es) frames =
     (if on_bus e then Some frames else mirror_loop pad es (if e = MvDecoded \<and> pad then frames + 1 else frames))"

datatype mirror_result = MirrorRefused | MirrorPlayed "bytes list" bool u64

definition mirror_display :: "mirror_env \<Rightarrow> bool" where
  "mirror_display E \<longleftrightarrow> mv_display E \<and> mv_gtk E"

text \<open>
  The player: refused before the pipeline runs, or played, with the buffers pushed, whether a window was shown, and the
  frames.  \<open>None\<close>: the main loop has not been left.
\<close>

definition mirror_player_run :: "mirror_env \<Rightarrow> cstr option \<Rightarrow> mirror_result option" where
  "mirror_player_run E path =
     (case path of
        None \<Rightarrow> Some MirrorRefused
      | Some p \<Rightarrow>
          (case mv_contents E p of
             None \<Rightarrow> Some MirrorRefused
           | Some data \<Rightarrow>
               if data = [] then Some MirrorRefused
               else if \<not> mv_launch E (mirror_display E) then Some MirrorRefused
               else if \<not> mv_src E \<or> \<not> mv_dec E then Some MirrorRefused
               else map_option (\<lambda>n. MirrorPlayed (push_thread E data 0 0) (mirror_display E \<and> mv_sink E) (scast n))
                      (mirror_loop (mv_pad E) (mv_events E) 0)))"

text \<open>The result and \<open>*out_frames\<close>.\<close>

definition mirror_player_play_file :: "mirror_env \<Rightarrow> cstr option \<Rightarrow> (int \<times> u64) option" where
  "mirror_player_play_file E path =
     map_option (\<lambda>r. case r of MirrorRefused \<Rightarrow> (- 1, 0) | MirrorPlayed _ _ frames \<Rightarrow> (if 0 < frames then 0 else - 1, frames))
       (mirror_player_run E path)"

section \<open>What is pushed\<close>

lemma push_prefix:
  "pos \<le> length data \<Longrightarrow> \<exists>rest. drop pos data = concat (push_thread E data pos k) @ rest \<and>
     ((\<forall>j. mv_alloc E j \<and> mv_flow E j) \<longrightarrow> rest = []) \<and>
     (\<forall>b \<in> set (push_thread E data pos k). b \<noteq> [] \<and> length b \<le> MIRROR_CHUNK)"
proof (induction E data pos k rule: push_thread.induct)
  case (1 E data pos k)
  let ?c = "if MIRROR_CHUNK < length data - pos then MIRROR_CHUNK else length data - pos"
  let ?b = "take ?c (drop pos data)"
  have c: "?c \<le> length data - pos" "?c \<le> MIRROR_CHUNK" by simp_all
  show ?case
  proof (cases "pos < length data")
    case False
    then show ?thesis by (subst push_thread.simps, subst (2) push_thread.simps) simp
  next
    case pos: True
    have "0 < ?c" using pos by (simp add: MIRROR_CHUNK_def)
    then have b: "?b \<noteq> []" "length ?b \<le> MIRROR_CHUNK" using pos by simp_all
    have cut: "drop pos data = ?b @ drop (pos + ?c) data" 
      using append_take_drop_id [of ?c "drop pos data"] by (simp only: drop_drop add.commute)
    consider "\<not> mv_alloc E k" | "mv_alloc E k" "\<not> mv_flow E k" | "mv_alloc E k" "mv_flow E k" by blast
    then show ?thesis
    proof cases
      case 1
      then have "push_thread E data pos k = []" by (subst push_thread.simps) simp
      then show ?thesis using 1 by auto
    next
      case 2
      then have "push_thread E data pos k = [?b]" using pos by (subst push_thread.simps) (simp add: Let_def)
      then show ?thesis using 2 b cut by (intro exI [of _ "drop (pos + ?c) data"]) auto
    next
      case 3
      then have p: "push_thread E data pos k = ?b # push_thread E data (pos + ?c) (Suc k)"
        using pos by (subst push_thread.simps) (simp add: Let_def)
      have le: "pos + ?c \<le> length data" using c(1) pos by linarith
      have "\<not> \<not> pos < length data" "\<not> \<not> mv_alloc E k" "\<not> \<not> mv_flow E k" using pos 3 by simp_all
      from 1(1) [OF this(1) refl this(2) refl this(3) le] obtain rest where
        "drop (pos + ?c) data = concat (push_thread E data (pos + ?c) (Suc k)) @ rest"
        "(\<forall>j. mv_alloc E j \<and> mv_flow E j) \<longrightarrow> rest = []"
        "\<forall>b \<in> set (push_thread E data (pos + ?c) (Suc k)). b \<noteq> [] \<and> length b \<le> MIRROR_CHUNK" by blast
      then show ?thesis unfolding p using cut b by (intro exI [of _ rest]) auto
    qed
  qed
qed

section \<open>When it is over\<close>

definition before_end :: "mirror_event list \<Rightarrow> mirror_event list" where
  "before_end es = takeWhile (\<lambda>e. \<not> on_bus e) es"

lemma mirror_loop_frames:
  assumes "\<exists>e \<in> set es. on_bus e"
  shows "mirror_loop pad es n = Some (n + (if pad then of_nat (count_list (before_end es) MvDecoded) else 0))"
  using assms
proof (induction es arbitrary: n)
  case (Cons e es)
  show ?case
  proof (cases "on_bus e")
    case True
    then show ?thesis by (simp add: before_end_def)
  next
    case False
    then have "\<exists>e \<in> set es. on_bus e" using Cons.prems by simp
    note Cons.IH [OF this]
    then show ?thesis using False by (simp add: before_end_def algebra_simps)
  qed
qed simp


definition toy_mirror_env :: mirror_env where
  "toy_mirror_env = \<lparr>mv_contents = (\<lambda>_. Some [1, 2, 3]), mv_display = False, mv_gtk = False, mv_launch = (\<lambda>_. True), mv_sink = True,
     mv_src = True, mv_dec = True, mv_pad = True, mv_alloc = (\<lambda>_. True), mv_flow = (\<lambda>_. True),
     mv_events = [MvDecoded, MvError, MvTimeout]\<rparr>"


end
