(* ===== verification/EngineThread.thy ===== *)
theory EngineThread
  imports Prelude
begin

text \<open>
  The life of an engine: its thread, its references and its close, in \<open>src/proto/fillp_conn.c\<close> and
  \<open>src/proto/dfile_conn.c\<close>, which share one pattern.

  The application calls \<open>ref\<close>, \<open>unref\<close>, \<open>close\<close> and \<open>connect\<close> from its threads while the engine's own thread runs, so the
  theory is a step relation over their interleavings.  A part of a function that holds \<open>lock\<close> is one step.  What the
  engine reports closed are its peers (numbers); the connection of a DFile engine is its peer 0.  \<open>eg_held\<close> counts the references
  the application holds, \<open>eg_bad\<close> says that freed memory or a dead main context was used, \<open>eg_race\<close> that a
  connect has used a socket or a peer that was gone.
\<close>

section \<open>State\<close>

datatype engine_kind = Fillp | Dfile

text \<open>Where the engine's thread is; \<open>ThPreClosed\<close> is the branch of a close that came before it ran.\<close>

datatype thread_pc = ThNew | ThPreClosed | ThSetup | ThLoop | ThTeardown | ThMark | ThContext | ThDrop | ThEnd

record engine =
  eg_refs :: nat
  eg_held :: nat
  eg_close_requested :: bool
  eg_thread_started :: bool
  eg_thread_done :: bool
  eg_closing :: bool
  eg_ctx :: bool
  eg_socket :: bool
  eg_pending :: nat
  eg_callbacks :: bool
  eg_peers :: "nat list"
  eg_connecting :: "nat list"
  eg_known :: "nat list"
  eg_reports :: "nat list"
  eg_freed :: nat
  eg_pc :: thread_pc
  eg_bad :: bool
  eg_race :: bool

text \<open>\<open>fillp_engine_new\<close> and \<open>dc_alloc\<close>, when the socket is there: one reference for the caller, one for the thread.\<close>

definition engine_fresh :: "nat list \<Rightarrow> engine" where
  "engine_fresh ps = \<lparr>eg_refs = 2, eg_held = 1, eg_close_requested = False, eg_thread_started = False,
     eg_thread_done = False, eg_closing = False, eg_ctx = True, eg_socket = True, eg_pending = 0, eg_callbacks = False,
     eg_peers = ps, eg_connecting = [], eg_known = ps, eg_reports = [], eg_freed = 0, eg_pc = ThNew, eg_bad = False,
     eg_race = False\<rparr>"

definition fillp_engine_start :: engine where
  "fillp_engine_start = engine_fresh []"

definition dfile_conn_start :: engine where
  "dfile_conn_start = engine_fresh [0]"

text \<open>A call uses memory that is still there.\<close>

definition touch :: "engine \<Rightarrow> engine" where
  "touch e = e\<lparr>eg_bad := eg_bad e \<or> 0 < eg_freed e\<rparr>"

section \<open>What the application calls\<close>

definition engine_drop :: "engine \<Rightarrow> engine" where
  "engine_drop e =
     (let e1 = (touch e)\<lparr>eg_refs := eg_refs e - 1\<rparr>
      in if eg_refs e1 = 0 then e1\<lparr>eg_freed := eg_freed e1 + 1\<rparr> else e1)"

definition fillp_engine_ref_call :: "engine \<Rightarrow> engine" where
  "fillp_engine_ref_call e = (touch e)\<lparr>eg_refs := eg_refs e + 1, eg_held := eg_held e + 1\<rparr>"

definition fillp_engine_unref_call :: "engine \<Rightarrow> engine" where
  "fillp_engine_unref_call e = engine_drop (e\<lparr>eg_held := eg_held e - 1\<rparr>)"

definition dfile_conn_ref_call :: "engine \<Rightarrow> engine" where
  "dfile_conn_ref_call e = (touch e)\<lparr>eg_refs := eg_refs e + 1, eg_held := eg_held e + 1\<rparr>"

definition dfile_conn_unref_call :: "engine \<Rightarrow> engine" where
  "dfile_conn_unref_call e = engine_drop (e\<lparr>eg_held := eg_held e - 1\<rparr>)"

text \<open>A close hands \<open>close_impl\<close> to the context while the thread runs its loop or is about to.\<close>

definition engine_invoke :: "engine \<Rightarrow> engine" where
  "engine_invoke e = e\<lparr>eg_pending := eg_pending e + 1, eg_bad := eg_bad e \<or> \<not> eg_ctx e\<rparr>"

definition fillp_engine_close_call :: "engine \<Rightarrow> engine" where
  "fillp_engine_close_call e =
     (if eg_close_requested e \<or> eg_thread_done e then touch e
      else let e1 = (touch e)\<lparr>eg_close_requested := True\<rparr>
        in if eg_thread_started e1 then engine_invoke e1 else e1)"

definition dfile_conn_close_call :: "engine \<Rightarrow> engine" where
  "dfile_conn_close_call e =
     (if eg_close_requested e \<or> eg_thread_done e then touch e
      else let e1 = (touch e)\<lparr>eg_close_requested := True\<rparr>
        in if eg_thread_started e1 then engine_invoke e1 else e1)"

definition engine_set_callbacks :: "engine \<Rightarrow> engine" where
  "engine_set_callbacks e = (touch e)\<lparr>eg_callbacks := True\<rparr>"

text \<open>\<open>fillp_engine_connect\<close> up to the end of its critical section, and the \<open>sendto\<close> behind it.\<close>

definition connect_register :: "nat \<Rightarrow> engine \<Rightarrow> engine" where
  "connect_register p e =
     (if eg_close_requested e \<or> eg_thread_done e then touch e
      else (touch e)\<lparr>eg_peers := eg_peers e @ [p], eg_known := eg_known e @ [p], eg_connecting := eg_connecting e @ [p]\<rparr>)"

definition connect_send :: "nat \<Rightarrow> engine \<Rightarrow> engine" where
  "connect_send p e =
     (touch e)\<lparr>eg_connecting := remove1 p (eg_connecting e),
       eg_race := eg_race e \<or> \<not> eg_socket e \<or> p \<notin> set (eg_peers e)\<rparr>"

section \<open>The engine's thread\<close>

definition engine_report :: "nat list \<Rightarrow> engine \<Rightarrow> engine" where
  "engine_report ps e =
     e\<lparr>eg_peers := filter (\<lambda>p. p \<notin> set ps) (eg_peers e),
       eg_reports := eg_reports e @ (if eg_callbacks e then ps else [])\<rparr>"

text \<open>\<open>fp_engine_shutdown\<close> and \<open>shutdown_common\<close>: once; everything that is still open is reported closed.\<close>

definition fp_engine_shutdown_step :: "engine \<Rightarrow> engine" where
  "fp_engine_shutdown_step e =
     (if eg_closing e then e else engine_report (eg_peers e) (e\<lparr>eg_closing := True\<rparr>))"

definition shutdown_common_step :: "engine \<Rightarrow> engine" where
  "shutdown_common_step e =
     (if eg_closing e then e else engine_report (eg_peers e) (e\<lparr>eg_closing := True\<rparr>))"

definition engine_thread_begin :: "engine \<Rightarrow> engine" where
  "engine_thread_begin e =
     (if eg_close_requested e then (touch e)\<lparr>eg_pc := ThPreClosed\<rparr>
      else (touch e)\<lparr>eg_thread_started := True, eg_pc := ThSetup\<rparr>)"

text \<open>The branch of a close before the thread ran: the DFile engine runs \<open>close_impl\<close>, the fillp engine does nothing.\<close>

definition fp_engine_thread_pre_closed :: "engine \<Rightarrow> engine" where
  "fp_engine_thread_pre_closed e = (touch e)\<lparr>eg_pc := ThTeardown\<rparr>"

definition engine_thread_pre_closed :: "engine \<Rightarrow> engine" where
  "engine_thread_pre_closed e = (shutdown_common_step (touch e))\<lparr>eg_pc := ThTeardown\<rparr>"

text \<open>\<open>fp_engine_teardown\<close> and \<open>dc_teardown\<close> in four parts: the resources go without a report, the thread is marked
  done under the lock, the context goes, and so does the thread's reference.\<close>

definition teardown_free :: "engine \<Rightarrow> engine" where
  "teardown_free e = (touch e)\<lparr>eg_socket := False, eg_peers := [], eg_pc := ThMark\<rparr>"

definition teardown_mark :: "engine \<Rightarrow> engine" where
  "teardown_mark e = (touch e)\<lparr>eg_thread_done := True, eg_thread_started := False, eg_pc := ThContext\<rparr>"

definition teardown_context :: "engine \<Rightarrow> engine" where
  "teardown_context e =
     (touch e)\<lparr>eg_bad := eg_bad (touch e) \<or> \<not> eg_ctx e, eg_ctx := False, eg_pending := 0, eg_pc := ThDrop\<rparr>"

definition teardown_drop :: "engine \<Rightarrow> engine" where
  "teardown_drop e = (engine_drop e)\<lparr>eg_pc := ThEnd\<rparr>"

section \<open>Steps\<close>

text \<open>
  An application that holds a reference may make any call.  It gives every connect a new peer, and
  the call that connects keeps its reference.
\<close>

inductive app_step :: "engine_kind \<Rightarrow> engine \<Rightarrow> engine \<Rightarrow> bool" for k where
  app_ref: "0 < eg_held e \<Longrightarrow>
    app_step k e (case k of Fillp \<Rightarrow> fillp_engine_ref_call e | Dfile \<Rightarrow> dfile_conn_ref_call e)"
| app_unref: "0 < eg_held e \<Longrightarrow> eg_connecting e = [] \<or> 1 < eg_held e \<Longrightarrow>
    app_step k e (case k of Fillp \<Rightarrow> fillp_engine_unref_call e | Dfile \<Rightarrow> dfile_conn_unref_call e)"
| app_close: "0 < eg_held e \<Longrightarrow>
    app_step k e (case k of Fillp \<Rightarrow> fillp_engine_close_call e | Dfile \<Rightarrow> dfile_conn_close_call e)"
| app_set_callbacks: "0 < eg_held e \<Longrightarrow> app_step k e (engine_set_callbacks e)"
| app_connect: "0 < eg_held e \<Longrightarrow> k = Fillp \<Longrightarrow> p \<notin> set (eg_known e) \<Longrightarrow> app_step k e (connect_register p e)"
| app_connect_send: "p \<in> set (eg_connecting e) \<Longrightarrow> app_step k e (connect_send p e)"

text \<open>The thread.  A peer of the fillp engine ends by itself only seconds after its connect (\<open>thread_peer_ends\<close>); the
  sources of a DFile engine end the connection by themselves.\<close>

inductive thread_step :: "engine_kind \<Rightarrow> engine \<Rightarrow> engine \<Rightarrow> bool" for k where
  thread_begins: "eg_pc e = ThNew \<Longrightarrow> thread_step k e (engine_thread_begin e)"
| thread_pre_closed: "eg_pc e = ThPreClosed \<Longrightarrow>
    thread_step k e (case k of Fillp \<Rightarrow> fp_engine_thread_pre_closed e | Dfile \<Rightarrow> engine_thread_pre_closed e)"
| thread_enters_loop: "eg_pc e = ThSetup \<Longrightarrow> thread_step k e ((touch e)\<lparr>eg_pc := ThLoop\<rparr>)"
| thread_setting_fails: "eg_pc e = ThSetup \<Longrightarrow> k = Dfile \<Longrightarrow>
    thread_step k e ((shutdown_common_step (touch e))\<lparr>eg_pc := ThTeardown\<rparr>)"
| thread_close_impl: "eg_pc e = ThLoop \<Longrightarrow> 0 < eg_pending e \<Longrightarrow>
    thread_step k e (let e1 = (touch e)\<lparr>eg_pending := eg_pending e - 1\<rparr>
      in case k of Fillp \<Rightarrow> fp_engine_shutdown_step e1 | Dfile \<Rightarrow> shutdown_common_step e1)"
| thread_connection_ends: "eg_pc e = ThLoop \<Longrightarrow> k = Dfile \<Longrightarrow> \<not> eg_closing e \<Longrightarrow>
    thread_step k e (shutdown_common_step (touch e))"
| thread_peer_ends: "eg_pc e = ThLoop \<Longrightarrow> k = Fillp \<Longrightarrow> p \<in> set (eg_peers e) \<Longrightarrow> p \<notin> set (eg_connecting e) \<Longrightarrow>
    thread_step k e (engine_report [p] (touch e))"
| thread_leaves_loop: "eg_pc e = ThLoop \<Longrightarrow> eg_closing e \<Longrightarrow> thread_step k e ((touch e)\<lparr>eg_pc := ThTeardown\<rparr>)"
| thread_frees: "eg_pc e = ThTeardown \<Longrightarrow> thread_step k e (teardown_free e)"
| thread_marks: "eg_pc e = ThMark \<Longrightarrow> thread_step k e (teardown_mark e)"
| thread_context: "eg_pc e = ThContext \<Longrightarrow> thread_step k e (teardown_context e)"
| thread_drops: "eg_pc e = ThDrop \<Longrightarrow> thread_step k e (teardown_drop e)"

definition engine_step :: "engine_kind \<Rightarrow> engine \<Rightarrow> engine \<Rightarrow> bool" where
  "engine_step k e e' \<longleftrightarrow> app_step k e e' \<or> thread_step k e e'"

definition engine_start :: "engine_kind \<Rightarrow> engine" where
  "engine_start k = (case k of Fillp \<Rightarrow> fillp_engine_start | Dfile \<Rightarrow> dfile_conn_start)"

lemma same_pattern:
  "dfile_conn_ref_call = fillp_engine_ref_call" "dfile_conn_unref_call = fillp_engine_unref_call"
  "dfile_conn_close_call = fillp_engine_close_call" "shutdown_common_step = fp_engine_shutdown_step"
  by (simp_all add: fun_eq_iff dfile_conn_ref_call_def fillp_engine_ref_call_def dfile_conn_unref_call_def
      fillp_engine_unref_call_def dfile_conn_close_call_def fillp_engine_close_call_def shutdown_common_step_def
      fp_engine_shutdown_step_def)

lemma same_call:
  "(case k of Fillp \<Rightarrow> fillp_engine_ref_call e | Dfile \<Rightarrow> dfile_conn_ref_call e) = fillp_engine_ref_call e"
  "(case k of Fillp \<Rightarrow> fillp_engine_unref_call e | Dfile \<Rightarrow> dfile_conn_unref_call e) = fillp_engine_unref_call e"
  "(case k of Fillp \<Rightarrow> fillp_engine_close_call e | Dfile \<Rightarrow> dfile_conn_close_call e) = fillp_engine_close_call e"
  "(case k of Fillp \<Rightarrow> fp_engine_shutdown_step e | Dfile \<Rightarrow> shutdown_common_step e) = fp_engine_shutdown_step e"
  by (cases k; simp add: same_pattern)+

section \<open>The invariant\<close>

text \<open>References and memory.\<close>

definition pc_ok :: "thread_pc \<Rightarrow> bool \<Rightarrow> bool \<Rightarrow> bool \<Rightarrow> bool \<Rightarrow> bool" where
  "pc_ok q ctx sock thread_done started \<longleftrightarrow> (ctx \<longleftrightarrow> q \<notin> {ThDrop, ThEnd}) \<and> (sock \<longleftrightarrow> q \<notin> {ThMark, ThContext, ThDrop, ThEnd}) \<and>
     (thread_done \<longleftrightarrow> q \<in> {ThContext, ThDrop, ThEnd}) \<and> (started \<longrightarrow> q \<in> {ThSetup, ThLoop, ThTeardown, ThMark}) \<and>
     (q \<in> {ThSetup, ThLoop} \<longrightarrow> started)"

definition refs_ok :: "nat \<Rightarrow> nat \<Rightarrow> nat \<Rightarrow> thread_pc \<Rightarrow> nat list \<Rightarrow> bool" where
  "refs_ok refs held freed q cs \<longleftrightarrow> refs = held + (if q = ThEnd then 0 else 1) \<and> freed = (if refs = 0 then 1 else 0) \<and>
     (cs = [] \<or> 0 < held)"

definition life_inv :: "engine \<Rightarrow> bool" where
  "life_inv e \<longleftrightarrow> \<not> eg_bad e \<and> refs_ok (eg_refs e) (eg_held e) (eg_freed e) (eg_pc e) (eg_connecting e) \<and>
     pc_ok (eg_pc e) (eg_ctx e) (eg_socket e) (eg_thread_done e) (eg_thread_started e) \<and>
     (eg_pc e = ThPreClosed \<longrightarrow> eg_close_requested e)"

text \<open>A close is never lost while the thread is in its loop.\<close>

definition close_inv :: "engine \<Rightarrow> bool" where
  "close_inv e \<longleftrightarrow> eg_pending e \<le> 1 \<and> (0 < eg_pending e \<longrightarrow> eg_close_requested e) \<and>
     (eg_pc e = ThSetup \<longrightarrow> \<not> eg_closing e) \<and> (eg_pc e \<in> {ThNew, ThPreClosed} \<longrightarrow> eg_pending e = 0 \<and> \<not> eg_closing e) \<and>
     (eg_pc e \<in> {ThSetup, ThLoop} \<and> eg_close_requested e \<and> \<not> eg_closing e \<longrightarrow> eg_pending e = 1)"

text \<open>Reports and peers: a DFile engine reports its connection when it shuts down, a fillp engine ends only after a close.\<close>

definition dfile_inv :: "engine \<Rightarrow> bool" where
  "dfile_inv e \<longleftrightarrow> eg_known e = [0] \<and> eg_connecting e = [] \<and> eg_peers e = (if eg_closing e then [] else [0]) \<and>
     eg_reports e \<in> {[], [0]} \<and> (eg_reports e = [0] \<longrightarrow> eg_closing e) \<and>
     (eg_pc e \<in> {ThTeardown, ThMark, ThContext, ThDrop, ThEnd} \<longrightarrow> eg_closing e)"

definition peers_ok :: "nat list \<Rightarrow> nat list \<Rightarrow> nat list \<Rightarrow> nat list \<Rightarrow> bool" where
  "peers_ok rs ps cs ks \<longleftrightarrow> distinct (rs @ ps) \<and> set (rs @ ps @ cs) \<subseteq> set ks"

fun pc_late :: "thread_pc \<Rightarrow> bool" where
  "pc_late q = (q \<notin> {ThNew, ThSetup, ThLoop})"

fun pc_gone :: "thread_pc \<Rightarrow> bool" where
  "pc_gone q = (q \<in> {ThMark, ThContext, ThDrop, ThEnd})"

definition fillp_inv :: "engine \<Rightarrow> bool" where
  "fillp_inv e \<longleftrightarrow> peers_ok (eg_reports e) (eg_peers e) (eg_connecting e) (eg_known e) \<and>
     (eg_closing e \<longrightarrow> eg_close_requested e) \<and> (pc_late (eg_pc e) \<longrightarrow> eg_close_requested e) \<and>
     (pc_gone (eg_pc e) \<longrightarrow> eg_peers e = [])"

definition report_inv :: "engine_kind \<Rightarrow> engine \<Rightarrow> bool" where
  "report_inv k e \<longleftrightarrow> (if k = Dfile then dfile_inv e else fillp_inv e)"

lemmas engine_defs = touch_def engine_drop_def fillp_engine_ref_call_def fillp_engine_unref_call_def engine_invoke_def
  fillp_engine_close_call_def engine_set_callbacks_def connect_register_def connect_send_def engine_report_def
  fp_engine_shutdown_step_def engine_thread_begin_def fp_engine_thread_pre_closed_def engine_thread_pre_closed_def
  teardown_free_def teardown_mark_def teardown_context_def teardown_drop_def same_pattern Let_def

lemma life_start: "life_inv (engine_start k)" "close_inv (engine_start k)" "report_inv k (engine_start k)"
  by (cases k; simp add: engine_start_def fillp_engine_start_def dfile_conn_start_def engine_fresh_def life_inv_def
      close_inv_def refs_ok_def pc_ok_def report_inv_def dfile_inv_def fillp_inv_def peers_ok_def)+

lemma refs_ok_rules:
  "refs_ok r h f q cs \<Longrightarrow> 0 < h \<Longrightarrow> f = 0"
  "refs_ok r h f q cs \<Longrightarrow> q \<noteq> ThEnd \<Longrightarrow> f = 0"
  "refs_ok r h f q cs \<Longrightarrow> cs \<noteq> [] \<Longrightarrow> f = 0 \<and> 0 < h"
  "refs_ok r h f q cs \<Longrightarrow> 0 < h \<Longrightarrow> refs_ok (Suc r) (Suc h) f q cs"
  "refs_ok r h f q cs \<Longrightarrow> 0 < h \<Longrightarrow> cs = [] \<or> 1 < h \<Longrightarrow> refs_ok (r - 1) (h - 1) (if r - 1 = 0 then Suc f else f) q cs"
  "refs_ok r h f q cs \<Longrightarrow> q \<noteq> ThEnd \<Longrightarrow> refs_ok (r - 1) h (if r - 1 = 0 then Suc f else f) ThEnd cs"
  "refs_ok r h f q cs \<Longrightarrow> q \<noteq> ThEnd \<Longrightarrow> q' \<noteq> ThEnd \<Longrightarrow> refs_ok r h f q' cs"
  "refs_ok r h f q cs \<Longrightarrow> 0 < h \<Longrightarrow> refs_ok r h f q ds"
  "refs_ok r h f q cs \<Longrightarrow> refs_ok r h f q (remove1 p cs)"
  by (auto simp: refs_ok_def split: if_splits)

lemma life_refs: "life_inv e \<Longrightarrow> refs_ok (eg_refs e) (eg_held e) (eg_freed e) (eg_pc e) (eg_connecting e)"
  by (simp add: life_inv_def)

lemma life_pc: "life_inv e \<Longrightarrow> pc_ok (eg_pc e) (eg_ctx e) (eg_socket e) (eg_thread_done e) (eg_thread_started e)"
  by (simp add: life_inv_def)

lemma alive: "life_inv e \<Longrightarrow> eg_pc e \<noteq> ThEnd \<or> 0 < eg_held e \<or> eg_connecting e \<noteq> [] \<Longrightarrow> touch e = e"
proof -
  assume i: "life_inv e" and "eg_pc e \<noteq> ThEnd \<or> 0 < eg_held e \<or> eg_connecting e \<noteq> []"
  then have "eg_freed e = 0" using refs_ok_rules(1-3) [OF life_refs [OF i]] by blast
  then show ?thesis using i by (simp add: touch_def life_inv_def)
qed

lemma life_close:
  assumes "life_inv e" "0 < eg_held e"
  shows "life_inv (fillp_engine_close_call e)"
proof -
  have "eg_thread_started e \<longrightarrow> eg_ctx e" using life_pc [OF assms(1)] by (auto simp: pc_ok_def)
  moreover have "touch e = e" using alive assms by simp
  ultimately show ?thesis using assms(1) unfolding fillp_engine_close_call_def
    by (cases "eg_close_requested e \<or> eg_thread_done e"; cases "eg_thread_started e")
      (simp_all add: engine_invoke_def Let_def life_inv_def)
qed

lemma life_app: "app_step k e e' \<Longrightarrow> life_inv e \<Longrightarrow> life_inv e'"
proof (induction rule: app_step.induct)
  case (app_ref e)
  then show ?case using refs_ok_rules(4) [OF life_refs [OF app_ref(2)]] alive [OF app_ref(2)]
    by (simp add: same_call fillp_engine_ref_call_def life_inv_def)
next
  case (app_unref e)
  have f: "eg_freed e = 0" using refs_ok_rules(1) [OF life_refs [OF app_unref(3)] app_unref(1)] .
  then show ?case using app_unref(3) refs_ok_rules(5) [OF life_refs [OF app_unref(3)] app_unref(1,2)]
    by (simp add: same_call fillp_engine_unref_call_def engine_drop_def Let_def life_inv_def touch_def split: if_splits)
next
  case (app_close e)
  show ?case using life_close [OF app_close(2,1)] by (simp only: same_call)
next
  case (app_set_callbacks e)
  then show ?case using alive [OF app_set_callbacks(2)] by (simp add: engine_set_callbacks_def life_inv_def)
next
  case (app_connect e p)
  then show ?case using alive [OF app_connect(4)] refs_ok_rules(8) [OF life_refs [OF app_connect(4)] app_connect(1)]
    by (cases "eg_close_requested e \<or> eg_thread_done e") (simp_all add: connect_register_def life_inv_def)
next
  case (app_connect_send p e)
  then have "eg_connecting e \<noteq> []" by auto
  then show ?case using app_connect_send(2) alive refs_ok_rules(9) [OF life_refs [OF app_connect_send(2)]]
    by (simp add: connect_send_def life_inv_def)
qed

lemma life_moves:
  assumes "life_inv e" "eg_pc e \<noteq> ThEnd" "q \<noteq> ThEnd" "pc_ok q c s d t" "q = ThPreClosed \<longrightarrow> eg_close_requested e"
    "eg_pc e' = q" "eg_ctx e' = c" "eg_socket e' = s" "eg_thread_done e' = d" "eg_thread_started e' = t" "eg_bad e' = eg_bad e"
    "eg_refs e' = eg_refs e" "eg_held e' = eg_held e" "eg_freed e' = eg_freed e" "eg_connecting e' = eg_connecting e"
    "eg_close_requested e' = eg_close_requested e"
  shows "life_inv e'"
  using assms refs_ok_rules(7) [OF life_refs [OF assms(1)] assms(2,3)] by (simp add: life_inv_def)

lemma life_shutdown: "life_inv (fp_engine_shutdown_step e) = life_inv e" "eg_pc (fp_engine_shutdown_step e) = eg_pc e"
  by (simp_all add: fp_engine_shutdown_step_def engine_report_def life_inv_def)

lemma life_thread:
  assumes "thread_step k e e'" "life_inv e"
  shows "life_inv e'"
  using assms
proof (cases rule: thread_step.cases)
  case thread_begins
  then have "touch e = e" using alive assms(2) by simp
  then show ?thesis using thread_begins life_pc [OF assms(2)]
    by (intro life_moves [OF assms(2) _ _ _ _ refl refl refl refl refl]) (auto simp: engine_thread_begin_def pc_ok_def)
next
  case thread_drops
  then have t: "touch e = e" using alive assms(2) by simp
  have r: "refs_ok (eg_refs e) (eg_held e) (eg_freed e) (eg_pc e) (eg_connecting e)" using assms(2) by (simp add: life_inv_def)
  show ?thesis using refs_ok_rules(6) [OF r] thread_drops life_pc [OF assms(2)] assms(2)
    by (auto simp: teardown_drop_def engine_drop_def Let_def t life_inv_def pc_ok_def split: if_splits)
next
  case thread_pre_closed
  then have "touch e = e" using alive assms(2) by simp
  then show ?thesis using thread_pre_closed life_pc [OF assms(2)]
    by (intro life_moves [OF assms(2) _ _ _ _ refl refl refl refl refl])
      (cases k; auto simp: fp_engine_thread_pre_closed_def engine_thread_pre_closed_def shutdown_common_step_def engine_report_def pc_ok_def)+
next
  case thread_close_impl
  then have "touch e = e" using alive assms(2) by simp
  then show ?thesis using thread_close_impl life_pc [OF assms(2)]
    by (intro life_moves [OF assms(2) _ _ _ _ refl refl refl refl refl])
      (auto simp: same_call Let_def fp_engine_shutdown_step_def engine_report_def)
next
  case (thread_peer_ends p)
  then have "touch e = e" using alive assms(2) by simp
  then show ?thesis using thread_peer_ends life_pc [OF assms(2)]
    by (intro life_moves [OF assms(2) _ _ _ _ refl refl refl refl refl]) (auto simp: engine_report_def)
next
  case thread_context
  then have "touch e = e" using alive assms(2) by simp
  then show ?thesis using thread_context life_pc [OF assms(2)]
    by (intro life_moves [OF assms(2) _ _ _ _ refl refl refl refl refl]) (auto simp: teardown_context_def pc_ok_def)
qed (use life_pc [OF assms(2)] alive [OF assms(2)] in \<open>auto intro!: life_moves [OF assms(2) _ _ _ _ refl refl refl refl refl]
  simp: shutdown_common_step_def engine_report_def teardown_free_def teardown_mark_def pc_ok_def split: if_splits\<close>)

lemma close_call_inv: "life_inv e \<Longrightarrow> close_inv e \<Longrightarrow> close_inv (fillp_engine_close_call e)"
  unfolding fillp_engine_close_call_def touch_def engine_invoke_def Let_def life_inv_def pc_ok_def close_inv_def
  by (cases "eg_pc e"; cases "eg_close_requested e") auto

lemma close_app: "app_step k e e' \<Longrightarrow> life_inv e \<Longrightarrow> close_inv e \<Longrightarrow> close_inv e'"
proof (induction rule: app_step.induct)
  case (app_close e)
  then show ?case by (simp add: same_call close_call_inv)
next
  case (app_connect e p)
  then show ?case by (auto simp: close_inv_def connect_register_def touch_def)
qed (simp_all add: same_call close_inv_def engine_defs)

lemma close_thread: "thread_step k e e' \<Longrightarrow> life_inv e \<Longrightarrow> close_inv e \<Longrightarrow> close_inv e'"
proof (induction rule: thread_step.induct)
  case (thread_pre_closed e)
  then show ?case by (cases k) (simp_all add: close_inv_def engine_defs)
next
  case (thread_close_impl e)
  then show ?case by (simp add: same_call) (simp add: close_inv_def engine_defs)
qed (simp_all add: close_inv_def engine_defs)

lemma dfile_app: "app_step Dfile e e' \<Longrightarrow> dfile_inv e \<Longrightarrow> dfile_inv e'"
  by (induction rule: app_step.induct [of Dfile]) (simp_all add: dfile_inv_def engine_defs)

lemma dfile_shutdown: "dfile_inv e \<Longrightarrow> dfile_inv (fp_engine_shutdown_step e) \<and> eg_closing (fp_engine_shutdown_step e)"
  by (auto simp: dfile_inv_def fp_engine_shutdown_step_def engine_report_def)

lemma dfile_fields:
  "dfile_inv (e\<lparr>eg_pending := n\<rparr>) = dfile_inv e" "dfile_inv (touch e) = dfile_inv e"
  "eg_closing e \<Longrightarrow> dfile_inv e \<Longrightarrow> dfile_inv (e\<lparr>eg_pc := q\<rparr>)"
  "q \<in> {ThPreClosed, ThSetup, ThLoop} \<Longrightarrow> dfile_inv e \<Longrightarrow> dfile_inv (e\<lparr>eg_pc := q\<rparr>)"
  by (auto simp: dfile_inv_def touch_def)

lemma dfile_thread: "thread_step Dfile e e' \<Longrightarrow> dfile_inv e \<Longrightarrow> dfile_inv e'"
proof (induction rule: thread_step.induct [of Dfile])
  case (thread_begins e)
  then show ?case by (simp add: dfile_inv_def engine_thread_begin_def touch_def)
next
  case (thread_pre_closed e)
  then show ?case by (simp add: engine_thread_pre_closed_def same_pattern dfile_shutdown dfile_fields)
next
  case (thread_setting_fails e)
  then show ?case by (simp add: same_pattern dfile_shutdown dfile_fields)
next
  case (thread_close_impl e)
  then show ?case by (simp add: same_pattern Let_def dfile_shutdown dfile_fields)
next
  case (thread_connection_ends e)
  then show ?case by (simp add: same_pattern dfile_shutdown dfile_fields)
next
  case (thread_leaves_loop e)
  then show ?case by (simp add: dfile_inv_def touch_def)
next
  case (thread_drops e)
  then show ?case by (simp add: dfile_inv_def engine_drop_def teardown_drop_def touch_def Let_def)
qed (simp_all add: dfile_inv_def engine_defs)

lemma peers_ok_rules:
  "peers_ok rs ps cs ks \<Longrightarrow> peers_ok rs ps (remove1 p cs) ks"
  "peers_ok rs ps cs ks \<Longrightarrow> peers_ok rs [] cs ks"
  "peers_ok rs ps cs ks \<Longrightarrow> p \<notin> set ks \<Longrightarrow> peers_ok rs (ps @ [p]) (cs @ [p]) (ks @ [p])"
  "peers_ok rs ps cs ks \<Longrightarrow> set qs \<subseteq> set ps \<Longrightarrow> distinct qs \<Longrightarrow> peers_ok (rs @ qs) (filter (\<lambda>p. p \<notin> set qs) ps) cs ks"
  "peers_ok rs ps cs ks \<Longrightarrow> peers_ok rs (filter P ps) cs ks"
  by (auto simp: peers_ok_def dest: notin_set_remove1)

lemma fillp_register:
  assumes "fillp_inv e" "p \<notin> set (eg_known e)"
  shows "fillp_inv (connect_register p e)"
proof (cases "eg_close_requested e \<or> eg_thread_done e")
  case True
  then show ?thesis using assms(1) by (simp add: connect_register_def touch_def fillp_inv_def del: pc_late.simps pc_gone.simps)
next
  case False
  then have "\<not> pc_late (eg_pc e)" "\<not> eg_closing e" using assms(1) by (auto simp: fillp_inv_def)
  moreover from this have "\<not> pc_gone (eg_pc e)" by auto
  ultimately show ?thesis using False assms peers_ok_rules(3)
    by (simp add: connect_register_def fillp_inv_def touch_def del: pc_late.simps pc_gone.simps)
qed

lemma fillp_app: "app_step Fillp e e' \<Longrightarrow> fillp_inv e \<Longrightarrow> fillp_inv e'"
proof (induction rule: app_step.induct [of Fillp])
  case (app_connect e p)
  then show ?case by (simp add: fillp_register)
qed (simp_all add: fillp_inv_def engine_defs peers_ok_rules(1) del: pc_late.simps pc_gone.simps)

lemma fillp_report:
  assumes "fillp_inv e" "set ps \<subseteq> set (eg_peers e)" "distinct ps"
  shows "fillp_inv (engine_report ps e)"
  using assms peers_ok_rules(4,5) [of "eg_reports e" "eg_peers e" "eg_connecting e" "eg_known e"]
  by (simp add: fillp_inv_def engine_report_def del: pc_late.simps pc_gone.simps)

lemma fillp_thread: "thread_step Fillp e e' \<Longrightarrow> close_inv e \<Longrightarrow> fillp_inv e \<Longrightarrow> fillp_inv e'"
proof (induction rule: thread_step.induct [of Fillp])
  case (thread_begins e)
  then show ?case by (cases "eg_close_requested e") (simp_all add: fillp_inv_def engine_thread_begin_def touch_def)
next
  case (thread_close_impl e)
  let ?e = "(touch e)\<lparr>eg_pending := eg_pending e - 1\<rparr>"
  have i: "fillp_inv ?e" using thread_close_impl(4) by (simp add: touch_def fillp_inv_def)
  moreover have "eg_close_requested ?e" using thread_close_impl by (simp add: touch_def close_inv_def)
  ultimately have "fillp_inv (?e\<lparr>eg_closing := True\<rparr>)" by (simp add: fillp_inv_def)
  moreover have "distinct (eg_peers ?e)" using i by (simp add: fillp_inv_def peers_ok_def)
  ultimately have "fillp_inv (fp_engine_shutdown_step ?e)"
    using i fillp_report [of "?e\<lparr>eg_closing := True\<rparr>" "eg_peers ?e"] by (simp add: fp_engine_shutdown_step_def)
  then show ?case by (simp add: Let_def)
next
  case (thread_peer_ends e p)
  then show ?case by (intro fillp_report) (simp_all add: touch_def fillp_inv_def)
next
  case (thread_frees e)
  then show ?case using peers_ok_rules(2) by (auto simp: fillp_inv_def teardown_free_def touch_def)
next
  case (thread_drops e)
  then show ?case by (auto simp: fillp_inv_def engine_drop_def teardown_drop_def touch_def Let_def)
qed (auto simp: fillp_inv_def engine_defs)

lemma engine_inv_step:
  assumes "engine_step k e e'" "life_inv e" "close_inv e" "report_inv k e"
  shows "life_inv e' \<and> close_inv e' \<and> report_inv k e'"
proof -
  consider "app_step k e e'" | "thread_step k e e'" using assms(1) by (auto simp: engine_step_def)
  then show ?thesis
    by cases (cases k; use assms(2-4) in \<open>simp add: life_app life_thread close_app close_thread report_inv_def
      dfile_app dfile_thread fillp_app fillp_thread\<close>)+
qed

lemma engine_inv_reach: "(engine_step k)\<^sup>*\<^sup>* (engine_start k) e \<Longrightarrow> life_inv e \<and> close_inv e \<and> report_inv k e"
  by (induction rule: rtranclp_induct) (use life_start engine_inv_step in blast)+

section \<open>Races of a connect\<close>

definition race_inv :: "engine \<Rightarrow> bool" where
  "race_inv e \<longleftrightarrow> eg_close_requested e \<or> \<not> eg_race e \<and> set (eg_connecting e) \<subseteq> set (eg_peers e)"

lemma race_sends:
  assumes "report_inv k e" "life_inv e" "race_inv e" "p \<in> set (eg_connecting e)"
  shows "race_inv (connect_send p e)"
proof (cases "eg_close_requested e")
  case True
  then show ?thesis by (simp add: race_inv_def connect_send_def touch_def)
next
  case False
  have "k = Fillp" using assms(1,4) by (cases k) (auto simp: report_inv_def dfile_inv_def)
  then have "fillp_inv e" using assms(1) by (simp add: report_inv_def)
  then have "\<not> pc_gone (eg_pc e)" using False unfolding fillp_inv_def by auto
  then have "eg_socket e" using assms(2) by (simp add: life_inv_def pc_ok_def)
  then show ?thesis using False assms(3,4) by (auto simp: race_inv_def connect_send_def touch_def dest: notin_set_remove1)
qed

lemma race_app: "app_step k e e' \<Longrightarrow> life_inv e \<Longrightarrow> report_inv k e \<Longrightarrow> race_inv e \<Longrightarrow> race_inv e'"
proof (induction rule: app_step.induct)
  case (app_connect_send p e)
  then show ?case by (simp add: race_sends)
next
  case (app_connect e p)
  then show ?case by (auto simp: race_inv_def connect_register_def touch_def)
qed (simp_all add: same_call engine_defs race_inv_def)

lemma race_thread: "thread_step k e e' \<Longrightarrow> close_inv e \<Longrightarrow> report_inv k e \<Longrightarrow> race_inv e \<Longrightarrow> race_inv e'"
proof (cases k)
  case Dfile
  assume "thread_step k e e'" "close_inv e" "report_inv k e" "race_inv e"
  moreover from this have "eg_connecting e = []" using Dfile by (simp add: report_inv_def dfile_inv_def)
  ultimately show ?thesis
    by (induction rule: thread_step.induct) (auto simp: Dfile race_inv_def engine_defs)
next
  case Fillp
  assume "thread_step k e e'" "close_inv e" "report_inv k e" "race_inv e"
  then show ?thesis
    by (induction rule: thread_step.induct)
      (auto simp: Fillp race_inv_def engine_defs report_inv_def fillp_inv_def close_inv_def)
qed

lemma race_reach: "(engine_step k)\<^sup>*\<^sup>* (engine_start k) e \<Longrightarrow> race_inv e"
proof (induction rule: rtranclp_induct)
  case base
  show ?case by (cases k) (simp_all add: engine_start_def fillp_engine_start_def dfile_conn_start_def engine_fresh_def race_inv_def)
next
  case (step e e')
  then show ?case using engine_inv_reach [OF step(1)] race_app race_thread by (auto simp: engine_step_def)
qed

section \<open>The end after a close\<close>

fun pc_rank :: "thread_pc \<Rightarrow> nat" where
  "pc_rank ThNew = 6"
| "pc_rank ThSetup = 6"
| "pc_rank ThPreClosed = 5"
| "pc_rank ThLoop = 5"
| "pc_rank ThTeardown = 4"
| "pc_rank ThMark = 3"
| "pc_rank ThContext = 2"
| "pc_rank ThDrop = 1"
| "pc_rank ThEnd = 0"

definition engine_rank :: "engine \<Rightarrow> nat" where
  "engine_rank e = pc_rank (eg_pc e) + eg_pending e + (if eg_closing e then 0 else 1) + length (eg_peers e)"

lemma rank_app: "app_step k e e' \<Longrightarrow> eg_close_requested e \<Longrightarrow> engine_rank e' = engine_rank e \<and> eg_close_requested e'"
  by (induction rule: app_step.induct) (simp_all add: same_call engine_rank_def engine_defs)

lemma length_filter_in: "p \<in> set ps \<Longrightarrow> length (filter (\<lambda>q. q \<noteq> p) ps) < length ps"
  by (rule length_filter_less) simp_all

lemma rank_thread: "thread_step k e e' \<Longrightarrow> eg_close_requested e \<Longrightarrow> engine_rank e' < engine_rank e \<and> eg_close_requested e'"
proof (induction rule: thread_step.induct)
  case (thread_pre_closed e)
  then show ?case by (cases k) (auto simp: engine_rank_def engine_defs)
next
  case (thread_close_impl e)
  then show ?case by (simp add: same_call) (auto simp: engine_rank_def engine_defs)
next
  case (thread_peer_ends e p)
  then show ?case by (simp add: engine_rank_def engine_defs length_filter_in)
qed (auto simp: engine_rank_def engine_defs)

lemma thread_enabled: "close_inv e \<Longrightarrow> eg_close_requested e \<Longrightarrow> eg_pc e \<noteq> ThEnd \<Longrightarrow> \<exists>e'. thread_step k e e'"
proof (cases "eg_pc e = ThLoop \<and> \<not> eg_closing e")
  case True
  assume "close_inv e" "eg_close_requested e"
  then have "0 < eg_pending e" using True by (simp add: close_inv_def)
  then show ?thesis using True thread_close_impl by blast
next
  case False
  assume "eg_pc e \<noteq> ThEnd"
  then show ?thesis using False by (cases "eg_pc e") (blast intro: thread_step.intros)+
qed

text \<open>A run with \<open>n\<close> steps of the thread and any number of calls.\<close>

inductive engine_run :: "engine_kind \<Rightarrow> nat \<Rightarrow> engine \<Rightarrow> engine \<Rightarrow> bool" for k where
  run_none: "engine_run k 0 e e"
| run_app: "engine_run k n e e1 \<Longrightarrow> app_step k e1 e2 \<Longrightarrow> engine_run k n e e2"
| run_thread: "engine_run k n e e1 \<Longrightarrow> thread_step k e1 e2 \<Longrightarrow> engine_run k (Suc n) e e2"

lemma run_reach: "engine_run k n e e' \<Longrightarrow> (engine_step k)\<^sup>*\<^sup>* e e'"
  by (induction rule: engine_run.induct) (auto simp: engine_step_def intro: rtranclp.rtrancl_into_rtrancl)

lemma run_rank: "engine_run k n e e' \<Longrightarrow> eg_close_requested e \<Longrightarrow> n + engine_rank e' \<le> engine_rank e \<and> eg_close_requested e'"
  by (induction rule: engine_run.induct) (auto dest: rank_app rank_thread)

lemma rank_bound: "close_inv e \<Longrightarrow> engine_rank e \<le> 8 + length (eg_peers e)"
  by (cases "eg_pc e") (simp_all add: engine_rank_def close_inv_def)

section \<open>Reports that never come\<close>

definition early_inv :: "engine \<Rightarrow> bool" where
  "early_inv e \<longleftrightarrow> (eg_pc e \<in> {ThNew, ThPreClosed, ThSetup} \<longrightarrow> eg_reports e = [])"

lemma early_step: "engine_step Fillp e e' \<Longrightarrow> early_inv e \<Longrightarrow> early_inv e'"
  unfolding engine_step_def
proof (elim disjE)
  assume "app_step Fillp e e'" "early_inv e"
  then show "early_inv e'" by (induction rule: app_step.induct [of Fillp]) (simp_all add: early_inv_def engine_defs)
next
  assume "thread_step Fillp e e'" "early_inv e"
  then show "early_inv e'"
    by (induction rule: thread_step.induct [of Fillp]) (auto simp: early_inv_def engine_defs)
qed

lemma early_reach: "(engine_step Fillp)\<^sup>*\<^sup>* (engine_start Fillp) e \<Longrightarrow> early_inv e"
  by (induction rule: rtranclp_induct)
    (auto simp: early_step, simp add: early_inv_def engine_start_def fillp_engine_start_def engine_fresh_def)

definition mute :: "engine \<Rightarrow> bool" where
  "mute e \<longleftrightarrow> pc_late (eg_pc e) \<and> eg_reports e = []"

lemma mute_step: "engine_step Fillp e e' \<Longrightarrow> mute e \<Longrightarrow> mute e'"
  unfolding engine_step_def
proof (elim disjE)
  assume "app_step Fillp e e'" "mute e"
  then show "mute e'" by (induction rule: app_step.induct [of Fillp]) (simp_all add: mute_def engine_defs)
next
  assume "thread_step Fillp e e'" "mute e"
  then show "mute e'" by (induction rule: thread_step.induct [of Fillp]) (auto simp: mute_def engine_defs)
qed

lemma mute_run: "(engine_step Fillp)\<^sup>*\<^sup>* e e' \<Longrightarrow> mute e \<Longrightarrow> mute e'"
  by (induction rule: rtranclp_induct) (auto dest: mute_step)

lemma engine_steps:
  "thread_step k a b \<Longrightarrow> (engine_step k)\<^sup>*\<^sup>* b c \<Longrightarrow> (engine_step k)\<^sup>*\<^sup>* a c"
  "app_step k a b \<Longrightarrow> (engine_step k)\<^sup>*\<^sup>* b c \<Longrightarrow> (engine_step k)\<^sup>*\<^sup>* a c"
  by (blast intro: converse_rtranclp_into_rtranclp engine_step_def [THEN iffD2])+

definition closed_early :: engine where
  "closed_early = engine_thread_begin (fillp_engine_close_call (connect_register 7 (engine_set_callbacks (engine_start Fillp))))"

lemma closed_early_run: "(engine_step Fillp)\<^sup>*\<^sup>* (engine_start Fillp) closed_early"
proof -
  let ?a = "engine_set_callbacks (engine_start Fillp)"
  let ?b = "connect_register 7 ?a"
  have f: "eg_held (engine_start Fillp) = 1" "eg_held ?a = 1" "eg_known ?a = []" "eg_held ?b = 1"
      "eg_pc (fillp_engine_close_call ?b) = ThNew"
    by (simp_all add: engine_start_def fillp_engine_start_def engine_fresh_def engine_defs)
  have "app_step Fillp (engine_start Fillp) ?a" using f by (intro app_set_callbacks) simp
  moreover have "app_step Fillp ?a ?b" using f by (intro app_connect) simp_all
  moreover have "app_step Fillp ?b (fillp_engine_close_call ?b)" using app_close [of ?b Fillp] f by simp
  moreover have "thread_step Fillp (fillp_engine_close_call ?b) closed_early"
    unfolding closed_early_def using f by (intro thread_begins) simp
  ultimately show ?thesis by (meson engine_steps rtranclp.rtrancl_refl)
qed

lemma race_run: "\<exists>r. (engine_step Fillp)\<^sup>*\<^sup>* (engine_start Fillp) r \<and> eg_race r"
proof -
  let ?a = "fp_engine_thread_pre_closed closed_early"
  have f: "eg_pc closed_early = ThPreClosed" "eg_connecting (teardown_free ?a) = [7]" "\<not> eg_socket (teardown_free ?a)"
      "eg_pc ?a = ThTeardown"
    by (simp_all add: closed_early_def engine_start_def fillp_engine_start_def engine_fresh_def engine_defs)
  have "thread_step Fillp closed_early ?a" using thread_pre_closed [of closed_early Fillp] f by simp
  moreover have "thread_step Fillp ?a (teardown_free ?a)" using f by (intro thread_frees)
  moreover have "app_step Fillp (teardown_free ?a) (connect_send 7 (teardown_free ?a))" using f by (intro app_connect_send) simp
  ultimately have "(engine_step Fillp)\<^sup>*\<^sup>* closed_early (connect_send 7 (teardown_free ?a))"
    by (meson engine_steps rtranclp.rtrancl_refl)
  moreover have "eg_race (connect_send 7 (teardown_free ?a))" using f by (simp add: connect_send_def)
  ultimately show ?thesis using closed_early_run by (meson rtranclp_trans)
qed

lemma unset_run: "\<exists>d. (engine_step Dfile)\<^sup>*\<^sup>* (engine_start Dfile) d \<and> eg_pc d = ThEnd \<and> eg_callbacks d \<and> eg_reports d = []"
proof -
  let ?a = "engine_thread_begin (engine_start Dfile)"
  let ?b = "(shutdown_common_step (touch ?a))\<lparr>eg_pc := ThTeardown\<rparr>"
  let ?c = "teardown_drop (teardown_context (teardown_mark (teardown_free ?b)))"
  have f: "eg_pc (engine_start Dfile) = ThNew" "eg_pc ?a = ThSetup" "eg_held ?c = 1" "eg_reports ?c = []" "eg_pc ?c = ThEnd"
    by (simp_all add: engine_start_def dfile_conn_start_def engine_fresh_def engine_defs)
  have "thread_step Dfile (engine_start Dfile) ?a" using f by (intro thread_begins)
  moreover have "thread_step Dfile ?a ?b" using f by (intro thread_setting_fails) simp_all
  moreover have "thread_step Dfile ?b (teardown_free ?b)" by (intro thread_frees) simp
  moreover have "thread_step Dfile (teardown_free ?b) (teardown_mark (teardown_free ?b))"
    by (intro thread_marks) (simp add: teardown_free_def)
  moreover have "thread_step Dfile (teardown_mark (teardown_free ?b)) (teardown_context (teardown_mark (teardown_free ?b)))"
    by (intro thread_context) (simp add: teardown_mark_def)
  moreover have "thread_step Dfile (teardown_context (teardown_mark (teardown_free ?b))) ?c"
    by (intro thread_drops) (simp add: teardown_context_def)
  moreover have "app_step Dfile ?c (engine_set_callbacks ?c)" using f by (intro app_set_callbacks) simp
  ultimately have "(engine_step Dfile)\<^sup>*\<^sup>* (engine_start Dfile) (engine_set_callbacks ?c)"
    by (meson engine_steps rtranclp.rtrancl_refl)
  moreover have "eg_pc (engine_set_callbacks ?c) = ThEnd" "eg_reports (engine_set_callbacks ?c) = []"
      "eg_callbacks (engine_set_callbacks ?c)"
    using f(4,5) by (simp_all add: engine_set_callbacks_def touch_def del: One_nat_def)
  ultimately show ?thesis by blast
qed

section \<open>Properties\<close>



text \<open>
  C38. What is not reported.  A fillp engine that is closed before its thread runs never reports the
  peers it has been given; a DFile engine may end before the application has set its callbacks, and then
  never reports its connection.  A connect that is running during a close may send
  through a socket that is gone, and only then.
\<close>

lemma engine_unreported:
  assumes "(engine_step Fillp)\<^sup>*\<^sup>* (engine_start Fillp) e"
  shows "(eg_pc e = ThPreClosed \<longrightarrow> (\<forall>e'. (engine_step Fillp)\<^sup>*\<^sup>* e e' \<longrightarrow> eg_reports e' = [])) \<and>
     (eg_race e \<longrightarrow> eg_close_requested e) \<and>
     (\<exists>r. (engine_step Fillp)\<^sup>*\<^sup>* (engine_start Fillp) r \<and> eg_race r) \<and>
     (\<exists>d. (engine_step Dfile)\<^sup>*\<^sup>* (engine_start Dfile) d \<and> eg_pc d = ThEnd \<and> eg_callbacks d \<and> eg_reports d = [])"
proof -
  have "eg_reports e' = []" if "eg_pc e = ThPreClosed" "(engine_step Fillp)\<^sup>*\<^sup>* e e'" for e'
    using mute_run [OF that(2)] early_reach [OF assms] that(1) by (simp add: mute_def early_inv_def)
  then show ?thesis using race_reach [OF assms] race_run unset_run by (auto simp: race_inv_def)
qed

lemma engine_unreported_witness:
  "\<exists>e. (engine_step Fillp)\<^sup>*\<^sup>* (engine_start Fillp) e \<and> 7 \<in> set (eg_peers e) \<and> eg_callbacks e \<and>
     \<not> (\<exists>e'. (engine_step Fillp)\<^sup>*\<^sup>* e e' \<and> eg_reports e' \<noteq> [])"
proof (intro exI conjI)
  have f: "eg_pc closed_early = ThPreClosed"
    by (simp add: closed_early_def engine_start_def fillp_engine_start_def engine_fresh_def engine_defs)
  show "(engine_step Fillp)\<^sup>*\<^sup>* (engine_start Fillp) closed_early" by (rule closed_early_run)
  show "7 \<in> set (eg_peers closed_early)" "eg_callbacks closed_early"
    by (simp_all add: closed_early_def engine_start_def fillp_engine_start_def engine_fresh_def engine_defs)
  show "\<not> (\<exists>e'. (engine_step Fillp)\<^sup>*\<^sup>* closed_early e' \<and> eg_reports e' \<noteq> [])"
    using engine_unreported [OF closed_early_run] f by blast
qed



end
