(* ===== verification/Spec2Isabelle.thy ===== *)
theory Spec2Isabelle
  imports SoftbusSession FillpStream FillpHandshake StreamTransfer DfileReceive ControlSession DaemonStream DaemonMain MirrorPlayer EngineThread
begin

text \<open>
  hwphonelink is a Linux daemon that speaks the Huawei Multi-Screen protocols to a phone.  This development models its C
  code under \<open>src/src/\<close> and proves what makes it correct.  Names of definitions are the names of the C functions, types
  and macros where Isabelle allows them.

  \<^bold>\<open>The program.\<close>  \<open>main.c\<close> reads its options, builds a transport and listens for file transfers and streams.

  \<^item> A transport (\<open>src/transport/\<close>) is one of three backends behind one table of virtual methods: a SoftAP run with
    hostapd and dnsmasq, a P2P group run with wpa_supplicant, or the existing LAN.  The SoftAP and P2P backends
    use the netlink helpers; the LAN backend accepts TCP connections and makes a session of each.
  \<^item> A session (\<open>softbus_session.c\<close>) cuts the bytes of TCP into frames (\<open>softbus_frame.c\<close>).  The daemon first authenticates it
    (\<open>softbus_auth.c\<close>, with \<open>softbus_crypto.c\<close> and the messages of \<open>softbus_device.c\<close>), then runs a DMSDP
    client on it (\<open>dmsdp.c\<close>) and, once that is ready, sends input packets (\<open>remote_input.c\<close>).
  \<^item> A DFile connection (\<open>dfile_conn.c\<close>, frames in \<open>dfile_frame.c\<close>) transfers a file over TCP.  When the daemon's own transfer has
    succeeded, it connects a stream to the same address.
  \<^item> A stream is a file session (\<open>stream_file.c\<close>) that seals pieces of a file (\<open>vtp_frame.c\<close>) and hands them to fillp, a
    reliable byte stream over UDP (\<open>fillp_conn.c\<close>, packets in \<open>fillp_frame.c\<close>).
  \<^item> The replay stand makes and checks test files (\<open>ft_testfile.c\<close>, \<open>h264_testfile.c\<close>), and a received clip can be played
    (\<open>mirror_player.c\<close>).

  \<^bold>\<open>Theories, state and operations.\<close>

  \<^item> \<open>Prelude\<close>: machine types, big-endian integers in buffers, reads outside a buffer as \<open>None\<close>, the collections \<open>codec\<close>,
    \<open>okay_rules\<close> and \<open>ext_rules\<close>, and the interfaces \<open>framer\<close> (an incremental frame reader is independent of how the
    stream is cut) and \<open>datagram_codec\<close> (a decoder that inverts an encoder).
  \<^item> \<open>SoftbusFrame\<close>, \<open>SoftbusSession\<close>: \<open>sb_frame\<close> is \<open>SoftbusFrame\<close>, \<open>softbus_frame_buf_pop\<close> takes a frame off the stream buffer,
    \<open>sb_session\<close> a session; \<open>sb_threads\<close> is the hand-over of the thread reference between the pump and \<open>stop\<close>, as a step
    relation.
  \<^item> \<open>SoftbusCrypto\<close>, \<open>SoftbusDevice\<close>, \<open>SoftbusAuth\<close>: keys and hex, device record and beacon, and the two roles of the
    authentication, \<open>softbus_auth\<close>, with \<open>auth_step\<close> for its runs.
  \<^item> \<open>Dmsdp\<close>, \<open>DmsdpBuild\<close>, \<open>DmsdpSession\<close>: the parser (\<open>dmsdp_parse\<close>, one definition per parsing function), the
    builder and the client (\<open>dmsdp_client\<close>), and what they promise together.
  \<^item> \<open>RemoteInput\<close>: the encoder of input packets and the packet of the protocol it is compared with.
  \<^item> \<open>FillpFrame\<close>, \<open>FillpConn\<close>: the packets and the engine; a peer is \<open>fp_peer\<close>, what arrives goes through
    \<open>fp_dispatch_peer\<close>, time passes with \<open>fp_tick_peer\<close>.  \<open>FillpSafety\<close> holds what any datagrams leave true,
    \<open>FillpStream\<close> the abstract stream of segments the engine implements and the network that loses, repeats and
    reorders (\<open>fp_net_step\<close>), \<open>FillpHandshake\<close> the life of a peer.
  \<^item> \<open>EngineThread\<close>: the threads of the two engines (fillp and DFile), their references and their close, as a step relation over
    the interleavings with the calls of the application.
  \<^item> \<open>VtpFrame\<close>, \<open>StreamFile\<close>, \<open>StreamTransfer\<close>: sealed frames, the file session \<open>stream_file\<close>, and a whole transfer.
  \<^item> \<open>DfileFrame\<close>, \<open>DfileConn\<close>: the codec and the connection \<open>dfile_conn\<close> with one definition per handler.  \<open>DfileSafety\<close>
    holds the invariants, \<open>DfileRuns\<close> the properties of runs (\<open>dc_run\<close>), and \<open>DfileReceive\<close> what a receiver that
    reports success has on its disk.
  \<^item> \<open>TestFiles\<close>: generators and checks of the test files.
  \<^item> \<open>WifiTransport\<close>: the contract every backend keeps (locale \<open>transport\<close>), proved to refine a link that is idle, up or failed.
    \<open>NetlinkUtils\<close>, \<open>SoftapBackend\<close>, \<open>P2pBackend\<close>, \<open>InfraBackend\<close> model the backends, each interpreting
    the contract; \<open>Transport\<close> is the factory and the dispatch, which interprets it once more.  The accept worker of the LAN backend is
    modelled step by step, since the pumps of the sessions run between its steps.
  \<^item> \<open>ControlSession\<close>, \<open>DaemonStream\<close>, \<open>DaemonMain\<close>: the callbacks of \<open>main.c\<close> for sessions (\<open>control\<close>), for files and
    streams, and its start and end.  \<open>MirrorPlayer\<close>: the player.

  \<^bold>\<open>What is shown.\<close>  Each property is numbered C1, C2, ... where it stands.

  \<^item> Data arrives: a file over a file session, bytes over fillp on any network, messages over a session, and the messages that
    authenticate a session and make the control session ready (\<open>stream_transfer\<close>, \<open>fillp_reliable_stream\<close>,
    \<open>session_delivers\<close>, \<open>auth_completes\<close>, \<open>control_session_ready\<close>, \<open>daemon_stream_flow\<close>).
    The last section puts the file session on top of fillp: \<open>file_over_network\<close> is a file from one end to the other
    over a network that loses, repeats and reorders, of which the receiver has the file once the sender's engine reports completion.
  \<^item> Safety against any peer: no undefined reads, bounded buffers, who may establish or complete, what a receiver may write.
  \<^item> Invariants of every run, with the interleavings of threads where the code has them.
  \<^item> Codecs: round trips of every packet, and the shape of what the parsers accept.
  \<^item> Ends: what closes, within which time, and how often it is reported.
  \<^item> Behaviour a user of the code would not expect, each stated as a theorem over a run that has it
    (\<open>softap_never_up\<close>, \<open>infra_stop_leaks\<close>, \<open>infra_early_close\<close>, \<open>main_ends_badly\<close>, \<open>daemon_foreign_peer\<close>).

  \<^bold>\<open>Conventions.\<close>  Integers have the width of the C type and wrap as it does; \<open>gint\<close> values that cannot overflow are
  \<open>int\<close>, and sizes of buffers are \<open>nat\<close>.  A buffer is a list of bytes, a C string the list of bytes
  before its NUL.  A result of type \<open>'a option option\<close> has undefined behaviour as its outer \<open>None\<close> and the error return of the function
  as its inner one.  GLib's lists and byte arrays are lists, its hash tables maps.  Callbacks and calls of other components are
  outputs in their order, or tasks where the code hands work to a main loop.  What the outside answers (clock, random bytes, sockets, file
  system, child processes) is an environment, a record of functions or values.  A handler reads the clock once.  Allocation does not fail.
  \<open>atoi\<close> and \<open>sscanf\<close> are the ones of glibc.

  All functions terminate by their own arguments and there is no fuel: the readers of streams go by the bytes left, the pump of fillp by the
  budget the code gives it (\<open>fp_packetize\<close>), the wait for an interface by the time passed (\<open>nl_wait_poll\<close>).  Runs are lists of
  events or step relations; a theorem that something finishes says which events are enough, such as one call of the fill function
  per byte of the file and two more (\<open>stream_transfer\<close>) or one tick past the deadline (\<open>dfile_deadlines\<close>,
  \<open>fillp_close_ends\<close>).

  \<^bold>\<open>Parameters and their laws.\<close>  OpenSSL (\<open>aead_ok\<close> for AES-GCM, HMAC, HKDF and SHA-256 as functions), json-glib (\<open>json_laws\<close>),
  libnl and the kernel, hostapd, dnsmasq and wpa_supplicant, GStreamer and GTK.  The laws are named
  hypotheses, and every theorem that has one has a witness that instantiates the parameter.

  \<^bold>\<open>Not modelled.\<close>  The wrappers of \<open>softbus_crypto.c\<close> that only call OpenSSL (they are the parameters); GLib's threads, sources, sockets and
  reference counts, except where a component hands them over itself (the pump of a session, the workers of the LAN backend, the threads of the engines); parsing of
  options by \<open>GOption\<close>; registration of types with GObject; printing, message texts and names of states; freeing of decoded data; the
  discovery worker of the LAN backend, which only prints; and \<open>tests/\<close>, the test program and a mock phone, which are clients
  of this code.
\<close>

section \<open>A file session over fillp\<close>

text \<open>What the receiver has after some of the pieces, and what the rest can add.\<close>

lemma feed_append: "sf_feed io sf (as @ bs) =
   (case sf_feed io sf as of None \<Rightarrow> None
    | Some (sf1, os) \<Rightarrow> (case sf_feed io sf1 bs of None \<Rightarrow> None | Some (sf2, os') \<Rightarrow> Some (sf2, os @ os')))"
  by (induction as arbitrary: sf) (auto split: option.splits Option.bind_splits)

lemma feed_new_step:
  assumes "aead_ok seal (io_unseal io)" "sf_feed io (stream_file_set_recv_dir (stream_file_new key) (Some dir)) cs = Some (rc, os)"
  shows "sf_reports os \<noteq> [] \<Longrightarrow> sf_over rc"
proof -
  let ?r = "(stream_file_set_recv_dir (stream_file_new key) (Some dir))\<lparr>sf_rxbuf := concat cs\<rparr>"
  have r: "sf_recv_dir ?r = Some dir" "sf_rx_inv ?r" "\<not> sf_over ?r"
    by (simp_all add: stream_file_set_recv_dir_def stream_file_new_def sf_rx_inv_def sf_over_def)
  have l: "sf_rx_loop io ?r = Some (rc, os)" using new_receiver [OF assms(1)] assms(2) by simp
  have "sf_step_ok io ?r rc os" using loop_step [OF l _ r(2) assms(1)] r(1) by simp
  then show "sf_reports os \<noteq> [] \<Longrightarrow> sf_over rc" using r(3) unfolding sf_step_ok_def by blast
qed

lemma feed_over: "sf_over rc \<Longrightarrow> sf_feed io rc [d] = Some (rc', os) \<Longrightarrow> sf_rx_file rc' = sf_rx_file rc \<and> sf_rx_path rc' = sf_rx_path rc"
  by (auto simp: sf_on_data_def loop_over split: if_splits)


lemma toy_fills:
  "\<exists>ws. map SfSend ws = fst (snd (sf_fills toy_seal (sf_pread [1, 2, 3])
      (fst (stream_file_start_send (Some 3) True [0x61, 0x62] (stream_file_new [7]))) (replicate 9 (Some (replicate 12 5), 0)))) \<and>
     0 < length (concat ws) \<and> length (concat ws) \<le> FP_PKT_DATA_MAX"
proof -
  have g: "sf_good_name [0x61, 0x62]" by (simp add: sf_good_name_def SF_VTP_CHUNK_def of_char_def horner_sum_simps)
  have s: "stream_file_start_send (Some (of_nat (length [1 :: byte, 2, 3]))) True [0x61, 0x62] (stream_file_new [7]) =
      (fst (stream_file_start_send (Some 3) True [0x61, 0x62] (stream_file_new [7])), [SfSetFill, SfAttach], True)"
    by (simp add: stream_file_start_send_def stream_file_new_def stream_file_attach_def Let_def)
  obtain sd' ws where f: "sf_fills toy_seal (sf_pread [1, 2, 3]) (fst (stream_file_start_send (Some 3) True [0x61, 0x62] (stream_file_new [7])))
      (replicate 9 (Some (replicate 12 5), 0)) = (sd', map SfSend ws, True)"
    "sf_frames toy_seal (take VTP_KEY_LEN [7]) ws (sf_meta (of_nat (length [1 :: byte, 2, 3])) [0x61, 0x62] # chop SF_VTP_CHUNK [1, 2, 3])"
    using fills_all [OF toy_works g _ _ _ s, of "replicate 9 (Some (replicate 12 5), 0)"] by (auto simp: vtp_lens)
  have "chop SF_VTP_CHUNK [1 :: byte, 2, 3] = [[1, 2, 3]]"
    by (subst chop.simps) (simp add: SF_VTP_CHUNK_def chop.simps [of _ "[]"])
  then obtain w1 w2 where ws: "ws = [w1, w2]" using f(2) by (auto simp: sf_frames_def list_all2_Cons2)
  have "length w1 = vtp_common_frame_size (length (sf_meta (3 :: u64) [0x61, 0x62]))" "length w2 = vtp_common_frame_size 3"
    using f(2) \<open>chop _ _ = _\<close> vtp_build_length [OF _ toy_works(2)] by (auto simp: ws sf_frames_def eval_nat_numeral)
  then have "0 < length (concat ws) \<and> length (concat ws) \<le> FP_PKT_DATA_MAX"
    by (simp add: ws vtp_common_frame_size_def sf_meta_def vtp_lens FP_PKT_DATA_MAX_def)
  then show ?thesis using f(1) by (intro exI [of _ ws]) simp
qed


end
